(* ===== verification/Prelude.thy ===== *)
theory Prelude
  imports Main "HOL-Library.Word" "HOL-Library.AList" "HOL-Library.While_Combinator"
    "HOL-Library.Code_Target_Nat"
begin

text \<open>
  Shared vocabulary of the development.

  \<^item> \<^bold>\<open>Results.\<close> An operation of the source that may throw returns \<open>'e + 'a\<close>: \<open>Inl\<close> carries
    the error, \<open>Inr\<close> the value. \<open>andThen\<close> sequences two such operations and stops at the
    first error, as an uncaught exception does.
  \<^item> \<^bold>\<open>Maps.\<close> A JavaScript \<^verbatim>\<open>Map\<close> remembers the order in which its keys were inserted;
    \<^verbatim>\<open>set\<close> on an existing key keeps the key's place. An association list with
    \<open>AList.update\<close> (replace in place, else append), \<open>AList.delete\<close> and \<open>map_of\<close> behaves
    in the same way.
  \<^item> \<^bold>\<open>Typed arrays.\<close> A \<^verbatim>\<open>Uint8Array\<close> is a list of 8-bit words; \<open>array_set\<close> is its
    \<^verbatim>\<open>set(source, offset)\<close>.
  \<^item> \<^bold>\<open>Bit operations.\<close> \<open>js_ushr\<close> is the operator \<^verbatim>\<open>>>>\<close>, which first reduces its left
    operand modulo \<open>2 ^ 32\<close>; storing a number into a byte array reduces it modulo \<open>2 ^ 8\<close>,
    which is \<open>of_nat\<close> into the 8-bit words.
\<close>

type_synonym byte = "8 word"
type_synonym ('k, 'v) js_map = "('k \<times> 'v) list"

named_theorems refine_simps \<open>equations that move a detailed operation to its abstraction\<close>
named_theorems inv_intros \<open>an operation keeps the invariant of its component\<close>

subsection \<open>Results\<close>

definition andThen :: "'e + 'a \<Rightarrow> ('a \<Rightarrow> 'e + 'b) \<Rightarrow> 'e + 'b" where
  "andThen r f = (case r of Inl e \<Rightarrow> Inl e | Inr a \<Rightarrow> f a)"

lemma andThen_simps [simp]:
  "andThen (Inl e) f = Inl e"
  "andThen (Inr a) f = f a"
  by (simp_all add: andThen_def)

lemma andThen_eq_Inr:
  "andThen r f = Inr b \<longleftrightarrow> (\<exists>a. r = Inr a \<and> f a = Inr b)"
  by (cases r) simp_all

lemma andThen_eq_Inl:
  "andThen r f = Inl e \<longleftrightarrow> r = Inl e \<or> (\<exists>a. r = Inr a \<and> f a = Inl e)"
  by (cases r) simp_all

lemma andThen_assoc: "andThen (andThen r f) g = andThen r (\<lambda>a. andThen (f a) g)"
  by (cases r) simp_all

subsection \<open>Typed arrays and bytes\<close>

definition array_set :: "'a list \<Rightarrow> 'a list \<Rightarrow> nat \<Rightarrow> 'a list" where
  "array_set buf src off = take off buf @ src @ drop (off + length src) buf"

lemma length_array_set [simp]:
  "off + length src \<le> length buf \<Longrightarrow> length (array_set buf src off) = length buf"
  by (simp add: array_set_def)

lemma take_array_set [simp]:
  "off + length src \<le> length buf \<Longrightarrow>
     take (off + length src) (array_set buf src off) = take off buf @ src"
  by (simp add: array_set_def)

definition js_ushr :: "nat \<Rightarrow> nat \<Rightarrow> nat" where
  "js_ushr n k = drop_bit k (take_bit 32 n)"

definition be_bytes32 :: "nat \<Rightarrow> byte list" where
  "be_bytes32 n = [of_nat (js_ushr n 24), of_nat (js_ushr n 16), of_nat (js_ushr n 8), of_nat n]"

definition be_value32 :: "byte list \<Rightarrow> nat" where
  "be_value32 h = unat (h ! 0) * 0x1000000 + unat (h ! 1) * 0x10000 + unat (h ! 2) * 0x100 + unat (h ! 3)"

lemma length_be_bytes32 [simp]: "length (be_bytes32 n) = 4"
  by (simp add: be_bytes32_def)

lemma unat_byte_of_nat: "unat (of_nat n :: byte) = n mod 256"
  by (simp add: unat_of_nat)

lemma be_value32_be_bytes32 [simp]:
  assumes "n < 2 ^ 32"
  shows "be_value32 (be_bytes32 n) = n"
proof -
  have mod: "n mod 2 ^ 32 = n" using assms by simp
  have e: "take_bit 32 n = n" using mod by (simp add: take_bit_eq_mod)
  have "be_value32 (be_bytes32 n) =
      (n div 16777216) mod 256 * 16777216 + (n div 65536) mod 256 * 65536 +
      (n div 256) mod 256 * 256 + n mod 256"
    by (simp add: be_value32_def be_bytes32_def js_ushr_def e drop_bit_eq_div unat_byte_of_nat)
  also have "\<dots> = n"
  proof -
    define a where "a = n div 256"
    define b where "b = a div 256"
    have d: "n div 65536 = b" "n div 16777216 = b div 256"
      by (simp_all add: a_def b_def div_mult2_eq [symmetric])
    have "n div 16777216 < 256" using assms by (simp add: less_mult_imp_div_less)
    then have "b div 256 mod 256 = b div 256" using d by simp
    moreover have "b mod 256 + 256 * (b div 256) = b" "a mod 256 + 256 * b = a" "n mod 256 + 256 * a = n"
      unfolding a_def b_def by simp_all
    ultimately show ?thesis unfolding d a_def [symmetric] by linarith
  qed
  finally show ?thesis .
qed

lemma be_value32_append [simp]:
  "length h = 4 \<Longrightarrow> be_value32 (h @ xs) = be_value32 h"
  by (simp add: be_value32_def nth_append)

lemma be_value32_take [simp]: "be_value32 (take 4 bs) = be_value32 bs"
  by (simp add: be_value32_def)

lemma be_value32_bound: "be_value32 h < 2 ^ 32"
proof -
  have "unat (h ! i) < 256" for i
    using unsigned_less [of "h ! i", where ?'a = nat] by simp
  from this [of 0] this [of 1] this [of 2] this [of 3] show ?thesis
    unfolding be_value32_def by simp
qed

lemma be_bytes32_be_value32:
  assumes "length h = 4"
  shows "be_bytes32 (be_value32 h) = h"
proof -
  from assms obtain a b c d where h: "h = [a, b, c, d]"
    by (auto simp: length_Suc_conv numeral_eq_Suc)
  have lt: "unat (x :: byte) < 256" for x
    using unsigned_less [of x, where ?'a = nat] by simp
  define v where "v = be_value32 h"
  have v: "v = ((unat a * 256 + unat b) * 256 + unat c) * 256 + unat d"
    by (simp add: v_def h be_value32_def)
  have "v div 256 = (unat a * 256 + unat b) * 256 + unat c" using lt [of d] by (simp add: v)
  moreover from this have "v div 65536 = unat a * 256 + unat b"
    using lt [of c] div_mult2_eq [of v 256 256] by simp
  moreover from this have "v div 16777216 = unat a"
    using lt [of b] div_mult2_eq [of v 65536 256] by simp
  moreover have "take_bit 32 v = v"
    using be_value32_bound [of h] by (simp add: v_def take_bit_eq_mod)
  ultimately have "be_bytes32 v =
      [of_nat (unat a), of_nat (unat a * 256 + unat b), of_nat ((unat a * 256 + unat b) * 256 + unat c), of_nat v]"
    by (simp add: be_bytes32_def js_ushr_def drop_bit_eq_div)
  moreover have "(256 :: byte) = 0" "(65536 :: byte) = 0" "(16777216 :: byte) = 0" by simp_all
  ultimately have "be_bytes32 v = [a, b, c, d]" by (simp add: v)
  then show ?thesis by (simp add: v_def h)
qed

subsection \<open>Lists and maps\<close>

lemma list4_cases:
  assumes "length xs = 4"
  obtains a b c d where "xs = [a, b, c, d]"
  using assms by (auto simp: length_Suc_conv numeral_eq_Suc)

lemma map_of_alist_update: "map_of (AList.update k v m) = (map_of m)(k \<mapsto> v)"
  by (simp add: update_conv')

lemma list_all_update: "list_all P xs \<Longrightarrow> P x \<Longrightarrow> list_all P (xs[i := x])"
  using set_update_subset_insert [of xs i x] by (auto simp: list_all_iff)

lemma pred_optionI: "(\<And>x. P x) \<Longrightarrow> pred_option P y"
  by (cases y) simp_all

lemma set_take_drop_subset: "set (take n xs) \<subseteq> set xs" "set (drop n xs) \<subseteq> set xs"
  by (auto dest: in_set_takeD in_set_dropD)

subsection \<open>Deterministic machines\<close>

text \<open>A machine that watches a sequence of events; \<open>None\<close> is the rejecting sink.\<close>

fun run_machine :: "('p \<Rightarrow> 'e \<Rightarrow> 'p option) \<Rightarrow> 'p \<Rightarrow> 'e list \<Rightarrow> 'p option" where
  "run_machine d p [] = Some p"
| "run_machine d p (e # es) = (case d p e of None \<Rightarrow> None | Some q \<Rightarrow> run_machine d q es)"

lemma run_machine_append:
  "run_machine d p (es @ fs) = (case run_machine d p es of None \<Rightarrow> None | Some q \<Rightarrow> run_machine d q fs)"
  by (induction es arbitrary: p) (simp_all split: option.split)

lemma run_machine_snoc:
  "run_machine d p es = Some q \<Longrightarrow> run_machine d p (es @ [e]) = d q e"
  by (simp add: run_machine_append split: option.split)

lemma run_machine_prefix:
  assumes "run_machine d p es \<noteq> None"
  shows "run_machine d p (take n es) \<noteq> None"
  using assms run_machine_append [of d p "take n es" "drop n es"] by (auto split: option.splits)

text \<open>Every accepted event was allowed in some state of the machine.\<close>

lemma run_machine_step:
  assumes "run_machine d p es \<noteq> None" "e \<in> set es"
  shows "\<exists>q. d q e \<noteq> None"
  using assms by (induction es arbitrary: p) (auto split: option.splits)

end
