(* ===== verification/Interfaces.thy ===== *)
theory Interfaces
  imports Prelude
begin

text \<open>
  The contracts by which the components of the model use each other. Each locale fixes the
  operations the client calls and assumes the laws the provider promises; the provider's theory
  interprets it on its own definitions.

  \<^item> \<open>framing\<close>: a codec that frames payloads and an incremental decoder that recovers them, however
    the bytes are cut into chunks. Provider: theory Framing.
  \<^item> \<open>value_codec\<close>: an encoder and a decoder of values with a bound on the encoded length.
    Provider: theory Cbor.
  \<^item> \<open>value_stream\<close>: the two together carry a stream of values. Client: the protocol message codec.
  \<^item> \<open>message_queue\<close>: a queue that is drained from the front. Provider: the agent's pending messages.
\<close>

text \<open>A connection hands a decoder one chunk after the other and stops at the first error.\<close>

fun feed_all :: "('d \<Rightarrow> 'c \<Rightarrow> ('e + 'a list) \<times> 'd) \<Rightarrow> 'd \<Rightarrow> 'c list \<Rightarrow> ('e + 'a list) \<times> 'd" where
  "feed_all feed d [] = (Inr [], d)"
| "feed_all feed d (c # cs) = (case feed d c of
      (Inl e, d') \<Rightarrow> (Inl e, d')
    | (Inr ps, d') \<Rightarrow> (case feed_all feed d' cs of
          (Inl e, d'') \<Rightarrow> (Inl e, d'')
        | (Inr qs, d'') \<Rightarrow> (Inr (ps @ qs), d'')))"

locale framing =
  fixes frame :: "byte list \<Rightarrow> 'e + byte list"
    and feed :: "'d \<Rightarrow> byte list \<Rightarrow> ('e + byte list list) \<times> 'd"
    and finish :: "'d \<Rightarrow> ('e + unit) \<times> 'd"
    and idle :: "'d \<Rightarrow> bool"
    and limit :: "'d \<Rightarrow> nat"
  assumes feed_chunks: "idle d \<Longrightarrow> list_all2 (\<lambda>p f. length p \<le> limit d \<and> frame p = Inr f) ps fs \<Longrightarrow>
      concat cs = concat fs \<Longrightarrow> \<exists>d'. feed_all feed d cs = (Inr ps, d') \<and> idle d' \<and> limit d' = limit d"
    and finish_idle: "idle d \<Longrightarrow> fst (finish d) = Inr ()"

locale value_codec =
  fixes encode :: "'v \<Rightarrow> nat \<Rightarrow> 'e + byte list"
    and decode :: "byte list \<Rightarrow> nat \<Rightarrow> 'e + 'v"
    and proper :: "'v \<Rightarrow> bool"
    and stored :: "'v \<Rightarrow> 'v"
  assumes decode_encode: "proper v \<Longrightarrow> encode v n = Inr bs \<Longrightarrow> decode bs n = Inr (stored v)"
    and encode_length: "proper v \<Longrightarrow> encode v n = Inr bs \<Longrightarrow> length bs \<le> n"

locale value_stream = framing frame feed finish idle limit + value_codec encode decode proper stored
  for frame :: "byte list \<Rightarrow> 'e + byte list"
    and feed :: "'d \<Rightarrow> byte list \<Rightarrow> ('e + byte list list) \<times> 'd"
    and finish :: "'d \<Rightarrow> ('e + unit) \<times> 'd"
    and idle :: "'d \<Rightarrow> bool"
    and limit :: "'d \<Rightarrow> nat"
    and encode :: "'v \<Rightarrow> nat \<Rightarrow> 'f + byte list"
    and decode :: "byte list \<Rightarrow> nat \<Rightarrow> 'f + 'v"
    and proper :: "'v \<Rightarrow> bool"
    and stored :: "'v \<Rightarrow> 'v"
begin

lemma values_delivered:
  assumes "list_all2 (\<lambda>v f. proper v \<and> (\<exists>p. encode v (limit d) = Inr p \<and> frame p = Inr f)) vs fs"
    and "idle d" and "concat cs = concat fs"
  shows "\<exists>ps d'. feed_all feed d cs = (Inr ps, d') \<and> fst (finish d') = Inr () \<and>
    map (\<lambda>p. decode p (limit d)) ps = map (\<lambda>v. Inr (stored v)) vs"
proof -
  have "\<exists>ps. list_all2 (\<lambda>p f. length p \<le> limit d \<and> frame p = Inr f) ps fs \<and>
      map (\<lambda>p. decode p (limit d)) ps = map (\<lambda>v. Inr (stored v)) vs"
    using assms(1)
  proof (induction vs fs rule: list_all2_induct)
    case Nil
    then show ?case by simp
  next
    case (Cons v vs f fs)
    then obtain p ps where "encode v (limit d) = Inr p" "frame p = Inr f" "proper v"
      "list_all2 (\<lambda>p f. length p \<le> limit d \<and> frame p = Inr f) ps fs"
      "map (\<lambda>p. decode p (limit d)) ps = map (\<lambda>v. Inr (stored v)) vs" by blast
    then show ?case using encode_length [of v "limit d" p] decode_encode [of v "limit d" p]
      by (intro exI [of _ "p # ps"]) simp
  qed
  then obtain ps where ps: "list_all2 (\<lambda>p f. length p \<le> limit d \<and> frame p = Inr f) ps fs"
    "map (\<lambda>p. decode p (limit d)) ps = map (\<lambda>v. Inr (stored v)) vs" by blast
  from feed_chunks [OF assms(2) ps(1) assms(3)] obtain d' where
    "feed_all feed d cs = (Inr ps, d')" "idle d'" by blast
  with ps(2) finish_idle [of d'] show ?thesis by blast
qed

end

text \<open>A sequence of puts (\<open>Some\<close>) and drains (\<open>None\<close>) on a queue, with everything drained.\<close>

fun run_queue :: "('m \<Rightarrow> 'q \<Rightarrow> 'q) \<Rightarrow> ('q \<Rightarrow> 'm list \<times> 'q) \<Rightarrow> 'm option list \<Rightarrow> 'q \<Rightarrow> 'm list \<times> 'q" where
  "run_queue put tk [] q = ([], q)"
| "run_queue put tk (Some m # ops) q = run_queue put tk ops (put m q)"
| "run_queue put tk (None # ops) q = (case tk q of (ms, q1) \<Rightarrow>
     case run_queue put tk ops q1 of (out, q2) \<Rightarrow> (ms @ out, q2))"

fun puts :: "'m option list \<Rightarrow> 'm list" where
  "puts [] = []"
| "puts (Some m # ops) = m # puts ops"
| "puts (None # ops) = puts ops"

text \<open>
  A queue of messages as its consumers see it: what is put in comes out once and in order, a drain takes
  from the front, and it takes nothing only when there is nothing.
\<close>

locale message_queue =
  fixes contents :: "'q \<Rightarrow> 'm list"
    and put :: "'m \<Rightarrow> 'q \<Rightarrow> 'q"
    and take_some :: "'q \<Rightarrow> 'm list \<times> 'q"
  assumes contents_put: "contents (put m q) = contents q @ [m]"
    and contents_take: "take_some q = (ms, q') \<Longrightarrow> contents q = ms @ contents q'"
    and take_nothing: "take_some q = ([], q') \<Longrightarrow> contents q = []"
begin

lemma take_progress:
  "take_some q = (ms, q') \<Longrightarrow> contents q \<noteq> [] \<Longrightarrow> length (contents q') < length (contents q)"
  using contents_take take_nothing by (cases ms) fastforce+

text \<open>Any mix of puts and drains delivers a prefix of what was there and was put.\<close>

lemma drains_in_order:
  assumes "run_queue put take_some ops q = (out, q')"
  shows "contents q @ puts ops = out @ contents q'"
  using assms
proof (induction ops arbitrary: q out)
  case (Cons op ops)
  show ?case
  proof (cases op)
    case (Some m)
    then show ?thesis using Cons.IH [of "put m q" out] Cons.prems by (simp add: contents_put)
  next
    case None
    obtain ms q1 where t: "take_some q = (ms, q1)" by (cases "take_some q")
    obtain out1 where o: "run_queue put take_some ops q1 = (out1, q')" "out = ms @ out1"
      using Cons.prems None t by (auto split: prod.splits)
    show ?thesis using Cons.IH [OF o(1)] contents_take [OF t] o(2) None by simp
  qed
qed simp

lemma drained_empty:
  assumes "length (contents q) \<le> n" "run_queue put take_some (replicate n None) q = (out, q')"
  shows "out = contents q \<and> contents q' = []"
  using assms
proof (induction n arbitrary: q out)
  case (Suc n)
  obtain ms q1 where t: "take_some q = (ms, q1)" by (cases "take_some q")
  obtain out1 where o: "run_queue put take_some (replicate n None) q1 = (out1, q')" "out = ms @ out1"
    using Suc.prems t by (auto split: prod.splits)
  have "length (contents q1) \<le> n"
  proof (cases "contents q = []")
    case True
    then show ?thesis using contents_take [OF t] by simp
  next
    case False
    then show ?thesis using take_progress [OF t] Suc.prems(1) by simp
  qed
  from Suc.IH [OF this o(1)] show ?case using contents_take [OF t] o(2) by simp
qed simp

end

end
