(* ===== verification/Framing.thy ===== *)
theory Framing
  imports Interfaces
begin

text \<open>
  Length-prefixed framing of \<^verbatim>\<open>pi/packages/protocol/src/framing.ts\<close>: a payload travels as its
  unsigned 32-bit big-endian length followed by its bytes. \<open>encodeFrame\<close> and
  \<open>assertCompleteFrame\<close> handle one frame; the \<open>frame_decoder\<close> record is the class
  \<^verbatim>\<open>FrameDecoder\<close>, which splits arbitrary chunks into payloads and collects a payload in blocks
  of at most 64 KiB that it allocates only when a byte arrives for them.

  The two nested \<^verbatim>\<open>while\<close> loops of \<^verbatim>\<open>push\<close> are \<open>while\<close> combinators over the loop's
  variables. \<^verbatim>\<open>chunkOffset\<close> is represented by the unread rest of the chunk,
  \<^verbatim>\<open>currentPayloadBlock\<close>, which aliases an element of \<^verbatim>\<open>payloadBlocks\<close>, by that element's
  index. Every method returns its result or the error it throws, together with the object it
  leaves behind.

  The reference is \<open>split_frames\<close>, which parses a whole byte string at once; \<open>pending\<close> maps a
  decoder to the bytes it has taken in and not yet delivered.
\<close>

subsection \<open>One frame\<close>

definition FRAME_HEADER_LENGTH :: nat where "FRAME_HEADER_LENGTH = 4"
definition MAX_UINT32 :: nat where "MAX_UINT32 = 0xffffffff"
definition PAYLOAD_BLOCK_SIZE :: nat where "PAYLOAD_BLOCK_SIZE = 64 * 1024"
definition DEFAULT_MAX_FRAME_LENGTH :: nat where "DEFAULT_MAX_FRAME_LENGTH = 16 * 1024 * 1024"

datatype frame_error =
    FrameRangeError                 \<comment> \<open>\<^verbatim>\<open>RangeError\<close>: bad limit, or a payload of \<open>2 ^ 32\<close> bytes or more\<close>
  | IncompletePrefix
  | FrameTooLong nat nat            \<comment> \<open>length, configured limit\<close>
  | NotExactlyOneFrame
  | DecoderEnded
  | DecoderFailed
  | TruncatedFrame

definition resolveMaxFrameLength :: "int option \<Rightarrow> frame_error + nat" where
  "resolveMaxFrameLength maxFrameLength =
     (let v = (case maxFrameLength of None \<Rightarrow> int DEFAULT_MAX_FRAME_LENGTH | Some n \<Rightarrow> n)
      in if v < 0 \<or> v > int MAX_UINT32 then Inl FrameRangeError else Inr (nat v))"

definition encodeFrame :: "byte list \<Rightarrow> frame_error + byte list" where
  "encodeFrame payload =
     (if length payload > MAX_UINT32 then Inl FrameRangeError
      else Inr (be_bytes32 (length payload) @ payload))"

definition assertCompleteFrame :: "byte list \<Rightarrow> int option \<Rightarrow> frame_error + unit" where
  "assertCompleteFrame frame maxFrameLength =
     (if length frame < FRAME_HEADER_LENGTH then Inl IncompletePrefix
      else let len = be_value32 frame in
        andThen (resolveMaxFrameLength maxFrameLength) (\<lambda>limit.
          if len > limit then Inl (FrameTooLong len limit)
          else if length frame \<noteq> FRAME_HEADER_LENGTH + len then Inl NotExactlyOneFrame
          else Inr ()))"

subsection \<open>The incremental decoder\<close>

datatype decoder_status = DecoderOpen | DecoderIsEnded | DecoderHasFailed

record frame_decoder =
  header :: "byte list"
  headerLength :: nat
  maxFrameLength :: nat
  payloadBlocks :: "byte list list"
  currentPayloadBlock :: "nat option"
  currentPayloadBlockLength :: nat
  expectedPayloadLength :: "nat option"
  payloadLength :: nat
  decoder_state :: decoder_status

definition fresh_decoder :: "nat \<Rightarrow> frame_decoder" where
  "fresh_decoder limit = \<lparr>header = replicate 4 0, headerLength = 0, maxFrameLength = limit,
     payloadBlocks = [], currentPayloadBlock = None, currentPayloadBlockLength = 0,
     expectedPayloadLength = None, payloadLength = 0, decoder_state = DecoderOpen\<rparr>"

definition new_frame_decoder :: "int option \<Rightarrow> frame_error + frame_decoder" where
  "new_frame_decoder options =
     andThen (resolveMaxFrameLength options) (\<lambda>limit. Inr (fresh_decoder limit))"

definition reset_payload :: "frame_decoder \<Rightarrow> frame_decoder" where
  "reset_payload d = d\<lparr>payloadBlocks := [], currentPayloadBlock := None,
     currentPayloadBlockLength := 0, payloadLength := 0\<rparr>"

definition fail_decoder :: "frame_decoder \<Rightarrow> frame_decoder" where
  "fail_decoder d = (reset_payload d)\<lparr>decoder_state := DecoderHasFailed, headerLength := 0,
     expectedPayloadLength := None\<rparr>"

definition new_block :: "nat \<Rightarrow> frame_decoder \<Rightarrow> frame_decoder" where
  "new_block expected d =
     d\<lparr>payloadBlocks := payloadBlocks d @
          [replicate (min PAYLOAD_BLOCK_SIZE (expected - payloadLength d)) 0],
       currentPayloadBlock := Some (length (payloadBlocks d)),
       currentPayloadBlockLength := 0\<rparr>"

definition needs_block :: "frame_decoder \<Rightarrow> bool" where
  "needs_block d = (case currentPayloadBlock d of None \<Rightarrow> True
     | Some i \<Rightarrow> currentPayloadBlockLength d = length (payloadBlocks d ! i))"

definition ensure_block :: "nat \<Rightarrow> frame_decoder \<Rightarrow> frame_decoder" where
  "ensure_block expected d = (if needs_block d then new_block expected d else d)"

definition fill_step :: "nat \<Rightarrow> frame_decoder \<times> byte list \<Rightarrow> frame_decoder \<times> byte list" where
  "fill_step expected = (\<lambda>(d, rest).
     let d = ensure_block expected d;
         i = the (currentPayloadBlock d);
         block = payloadBlocks d ! i;
         n = min (length block - currentPayloadBlockLength d) (length rest)
     in (d\<lparr>payloadBlocks := (payloadBlocks d)[i := array_set block (take n rest) (currentPayloadBlockLength d)],
           currentPayloadBlockLength := currentPayloadBlockLength d + n,
           payloadLength := payloadLength d + n\<rparr>, drop n rest))"

definition fill_payload :: "nat \<Rightarrow> frame_decoder \<times> byte list \<Rightarrow> frame_decoder \<times> byte list" where
  "fill_payload expected =
     while (\<lambda>(d, rest). rest \<noteq> [] \<and> payloadLength d < expected) (fill_step expected)"

fun set_blocks :: "byte list \<Rightarrow> nat \<Rightarrow> byte list list \<Rightarrow> byte list" where
  "set_blocks payload offset [] = payload"
| "set_blocks payload offset (b # bs) = set_blocks (array_set payload b offset) (offset + length b) bs"

definition assemble_payload :: "nat \<Rightarrow> frame_decoder \<Rightarrow> byte list" where
  "assemble_payload expected d =
     (if length (payloadBlocks d) = 1 then payloadBlocks d ! 0
      else set_blocks (replicate expected 0) 0 (payloadBlocks d))"

record push_loop =
  loop_decoder :: frame_decoder
  loop_frames :: "byte list list"
  loop_rest :: "byte list"
  loop_error :: "frame_error option"

text \<open>
  \<open>read_header\<close> is the first half of the loop body (a header still incomplete), \<open>read_payload\<close>
  the second; \<open>push_step\<close> is one iteration. A thrown error ends the loop.
\<close>

definition read_header :: "push_loop \<Rightarrow> push_loop" where
  "read_header s =
     (let d = loop_decoder s; rest = loop_rest s;
          n = min (FRAME_HEADER_LENGTH - headerLength d) (length rest);
          d = d\<lparr>header := array_set (header d) (take n rest) (headerLength d),
                headerLength := headerLength d + n\<rparr>;
          s = s\<lparr>loop_decoder := d, loop_rest := drop n rest\<rparr>
      in if headerLength d < FRAME_HEADER_LENGTH then s
         else let frameLength = be_value32 (header d); d = d\<lparr>headerLength := 0\<rparr> in
           if frameLength > maxFrameLength d
           then s\<lparr>loop_decoder := fail_decoder d,
                   loop_error := Some (FrameTooLong frameLength (maxFrameLength d))\<rparr>
           else if frameLength = 0 then s\<lparr>loop_decoder := d, loop_frames := loop_frames s @ [[]]\<rparr>
           else s\<lparr>loop_decoder := reset_payload (d\<lparr>expectedPayloadLength := Some frameLength\<rparr>)\<rparr>)"

definition read_payload :: "push_loop \<Rightarrow> push_loop" where
  "read_payload s =
     (case expectedPayloadLength (loop_decoder s) of None \<Rightarrow> s
      | Some expected \<Rightarrow>
          let (d, rest) = fill_payload expected (loop_decoder s, loop_rest s) in
          if payloadLength d = expected
          then s\<lparr>loop_decoder := reset_payload (d\<lparr>expectedPayloadLength := None\<rparr>),
                 loop_rest := rest,
                 loop_frames := loop_frames s @ [assemble_payload expected d]\<rparr>
          else s\<lparr>loop_decoder := d, loop_rest := rest\<rparr>)"

definition push_step :: "push_loop \<Rightarrow> push_loop" where
  "push_step s =
     (if expectedPayloadLength (loop_decoder s) = None
      then let s = read_header s in if loop_error s = None then read_payload s else s
      else read_payload s)"

definition push_all :: "push_loop \<Rightarrow> push_loop" where
  "push_all = while (\<lambda>s. loop_error s = None \<and> loop_rest s \<noteq> []) push_step"

definition push :: "frame_decoder \<Rightarrow> byte list \<Rightarrow> (frame_error + byte list list) \<times> frame_decoder" where
  "push d chunk =
     (case decoder_state d of
        DecoderIsEnded \<Rightarrow> (Inl DecoderEnded, d)
      | DecoderHasFailed \<Rightarrow> (Inl DecoderFailed, d)
      | DecoderOpen \<Rightarrow>
          let s = push_all \<lparr>loop_decoder = d, loop_frames = [], loop_rest = chunk, loop_error = None\<rparr>
          in (case loop_error s of None \<Rightarrow> Inr (loop_frames s) | Some e \<Rightarrow> Inl e, loop_decoder s))"

definition end_decoder :: "frame_decoder \<Rightarrow> (frame_error + unit) \<times> frame_decoder" where
  "end_decoder d =
     (case decoder_state d of
        DecoderIsEnded \<Rightarrow> (Inl DecoderEnded, d)
      | DecoderHasFailed \<Rightarrow> (Inl DecoderFailed, d)
      | DecoderOpen \<Rightarrow>
          if headerLength d \<noteq> 0 \<or> expectedPayloadLength d \<noteq> None
          then (Inl TruncatedFrame, fail_decoder d)
          else (Inr (), d\<lparr>decoder_state := DecoderIsEnded\<rparr>))"

subsection \<open>The reference: parsing a whole byte string\<close>

function split_frames :: "nat \<Rightarrow> byte list \<Rightarrow> byte list list \<times> (frame_error + byte list)" where
  "split_frames limit bs =
     (if length bs < 4 then ([], Inr bs)
      else let n = be_value32 bs in
        if n > limit then ([], Inl (FrameTooLong n limit))
        else if length bs < 4 + n then ([], Inr bs)
        else let (fs, r) = split_frames limit (drop (4 + n) bs) in (take n (drop 4 bs) # fs, r))"
  by pat_completeness auto
termination
  by (relation "measure (\<lambda>(limit, bs). length bs)") auto

declare split_frames.simps [simp del]

definition payload_bytes :: "frame_decoder \<Rightarrow> byte list" where
  "payload_bytes d = take (payloadLength d) (concat (payloadBlocks d))"

definition pending :: "frame_decoder \<Rightarrow> byte list" where
  "pending d = (case expectedPayloadLength d of
      None \<Rightarrow> take (headerLength d) (header d)
    | Some n \<Rightarrow> be_bytes32 n @ payload_bytes d)"

text \<open>
  The blocks of a payload in progress: every block but the last is full, the last one holds at
  least one byte, and together they never exceed the announced length.
\<close>

definition blocks_ok :: "nat \<Rightarrow> frame_decoder \<Rightarrow> bool" where
  "blocks_ok n d \<longleftrightarrow> payloadLength d \<le> n \<and>
     (case currentPayloadBlock d of
        None \<Rightarrow> payloadBlocks d = [] \<and> payloadLength d = 0
      | Some i \<Rightarrow> payloadBlocks d \<noteq> [] \<and> i = length (butlast (payloadBlocks d)) \<and>
          0 < currentPayloadBlockLength d \<and>
          currentPayloadBlockLength d \<le> length (last (payloadBlocks d)) \<and>
          length (last (payloadBlocks d)) \<le> PAYLOAD_BLOCK_SIZE \<and>
          payloadLength d = length (concat (butlast (payloadBlocks d))) + currentPayloadBlockLength d \<and>
          length (concat (butlast (payloadBlocks d))) + length (last (payloadBlocks d)) \<le> n)"

definition decoder_inv :: "frame_decoder \<Rightarrow> bool" where
  "decoder_inv d \<longleftrightarrow> length (header d) = 4 \<and> headerLength d < 4 \<and>
     maxFrameLength d \<le> MAX_UINT32 \<and> decoder_state d = DecoderOpen \<and>
     (case expectedPayloadLength d of None \<Rightarrow> True
      | Some n \<Rightarrow> headerLength d = 0 \<and> n \<le> maxFrameLength d \<and> payloadLength d < n \<and> blocks_ok n d)"

subsubsection \<open>Filling a payload\<close>

definition frame_fields :: "frame_decoder \<Rightarrow> byte list \<times> nat \<times> nat \<times> nat option \<times> decoder_status" where
  "frame_fields d = (header d, headerLength d, maxFrameLength d, expectedPayloadLength d, decoder_state d)"

lemma fill_step:
  assumes "blocks_ok n d" and "rest \<noteq> []" and "payloadLength d < n"
  obtains m d' where "fill_step n (d, rest) = (d', drop m rest)" and "0 < m" and "m \<le> length rest"
    and "payloadLength d' = payloadLength d + m" and "payload_bytes d' = payload_bytes d @ take m rest"
    and "blocks_ok n d'" and "frame_fields d' = frame_fields d"
proof -
  define d1 where "d1 = ensure_block n d"
  have "\<exists>bs b. payloadBlocks d1 = bs @ [b] \<and> currentPayloadBlock d1 = Some (length bs) \<and>
      currentPayloadBlockLength d1 < length b \<and> length b \<le> PAYLOAD_BLOCK_SIZE \<and>
      payloadLength d = length (concat bs) + currentPayloadBlockLength d1 \<and>
      length (concat bs) + length b \<le> n \<and> payload_bytes d = concat bs @ take (currentPayloadBlockLength d1) b"
  proof (cases "needs_block d")
    case False
    then obtain i where i: "currentPayloadBlock d = Some i"
      and ne: "currentPayloadBlockLength d \<noteq> length (payloadBlocks d ! i)"
      by (auto simp: needs_block_def split: option.splits)
    from assms(1) i obtain bs b where b: "payloadBlocks d = bs @ [b]"
      by (auto simp: blocks_ok_def intro: append_butlast_last_id [symmetric])
    with assms(1) i ne False show ?thesis
      by (intro exI [of _ bs] exI [of _ b]) (auto simp: d1_def ensure_block_def blocks_ok_def payload_bytes_def)
  next
    case True
    define b :: "byte list" where "b = replicate (min PAYLOAD_BLOCK_SIZE (n - payloadLength d)) 0"
    have "length (concat (payloadBlocks d)) = payloadLength d"
    proof (cases "currentPayloadBlock d")
      case None with assms(1) show ?thesis by (simp add: blocks_ok_def)
    next
      case (Some i)
      with assms(1) obtain bs b' where b': "payloadBlocks d = bs @ [b']"
        by (auto simp: blocks_ok_def intro: append_butlast_last_id [symmetric])
      with assms(1) Some True show ?thesis
        by (auto simp: blocks_ok_def needs_block_def)
    qed
    with True assms(3) show ?thesis
      by (intro exI [of _ "payloadBlocks d"] exI [of _ b])
        (simp add: d1_def ensure_block_def b_def new_block_def payload_bytes_def PAYLOAD_BLOCK_SIZE_def)
  qed
  then obtain bs b where d1: "payloadBlocks d1 = bs @ [b]" "currentPayloadBlock d1 = Some (length bs)"
    "currentPayloadBlockLength d1 < length b" "length b \<le> PAYLOAD_BLOCK_SIZE"
    "payloadLength d = length (concat bs) + currentPayloadBlockLength d1"
    "length (concat bs) + length b \<le> n" "payload_bytes d = concat bs @ take (currentPayloadBlockLength d1) b"
    by blast
  define c where "c = currentPayloadBlockLength d1"
  define m where "m = min (length b - c) (length rest)"
  define b' where "b' = array_set b (take m rest) c"
  define d' where "d' = d1\<lparr>payloadBlocks := bs @ [b'], currentPayloadBlockLength := c + m,
     payloadLength := payloadLength d + m\<rparr>"
  have pl: "payloadLength d1 = payloadLength d" and ff: "frame_fields d1 = frame_fields d"
    by (simp_all add: d1_def ensure_block_def new_block_def frame_fields_def)
  have m: "0 < m" "m \<le> length rest" "m \<le> length b - c"
    using d1(3) assms(2) by (simp_all add: m_def c_def)
  have lb: "length b' = length b" using m d1(3) by (simp add: b'_def c_def)
  have tb: "take (c + m) b' = take c b @ take m rest"
  proof -
    have "take (c + length (take m rest)) b' = take c b @ take m rest"
      unfolding b'_def by (rule take_array_set) (use m d1(3) in \<open>simp add: c_def\<close>)
    with m show ?thesis by simp
  qed
  have step: "fill_step n (d, rest) = (d', drop m rest)"
    by (simp add: fill_step_def Let_def d1_def [symmetric] d1(1,2) d'_def c_def m_def b'_def list_update_append pl [symmetric])
  show ?thesis
  proof (rule that [OF step m(1,2)])
    show "payloadLength d' = payloadLength d + m" by (simp add: d'_def)
    show "payload_bytes d' = payload_bytes d @ take m rest"
      using d1(5,7) tb by (simp add: payload_bytes_def d'_def c_def)
    show "blocks_ok n d'"
    proof -
      have "length (concat bs) + c + m \<le> n" "c + m \<le> length b"
        using d1(3,5,6) m unfolding c_def by linarith+
      with d1 m lb show ?thesis by (simp add: blocks_ok_def d'_def c_def)
    qed
    show "frame_fields d' = frame_fields d" using ff by (simp add: d'_def frame_fields_def)
  qed
qed

lemma fill_payload_unfold:
  "fill_payload n (d, rest) =
     (if rest \<noteq> [] \<and> payloadLength d < n then fill_payload n (fill_step n (d, rest)) else (d, rest))"
  unfolding fill_payload_def by (subst while_unfold) simp

lemma fill_payload:
  assumes "blocks_ok n d" and "m = min (n - payloadLength d) (length rest)"
  shows "\<exists>d'. fill_payload n (d, rest) = (d', drop m rest) \<and> payloadLength d' = payloadLength d + m \<and>
    payload_bytes d' = payload_bytes d @ take m rest \<and> blocks_ok n d' \<and> frame_fields d' = frame_fields d"
  using assms
proof (induction "length rest" arbitrary: d rest m rule: less_induct)
  case less
  have le: "payloadLength d \<le> n" using less.prems(1) by (simp add: blocks_ok_def)
  show ?case
  proof (cases "rest \<noteq> [] \<and> payloadLength d < n")
    case False
    then have "m = 0" using less.prems(2) by auto
    with False less.prems(1) show ?thesis by (auto simp: fill_payload_unfold [of n d rest])
  next
    case True
    then obtain k d1 where s: "fill_step n (d, rest) = (d1, drop k rest)" "0 < k" "k \<le> length rest"
      "payloadLength d1 = payloadLength d + k" "payload_bytes d1 = payload_bytes d @ take k rest"
      "blocks_ok n d1" "frame_fields d1 = frame_fields d"
      using fill_step [OF less.prems(1)] by metis
    have kn: "payloadLength d + k \<le> n" using s(4,6) by (simp add: blocks_ok_def)
    have m: "m = k + min (n - payloadLength d1) (length (drop k rest))"
      using less.prems(2) s(3,4) kn by (simp add: min_def, arith)
    have "fill_payload n (d, rest) = fill_payload n (d1, drop k rest)"
      using True s(1) by (simp add: fill_payload_unfold [of n d rest])
    moreover have "\<exists>d'. fill_payload n (d1, drop k rest) = (d', drop (m - k) (drop k rest)) \<and>
      payloadLength d' = payloadLength d1 + (m - k) \<and>
      payload_bytes d' = payload_bytes d1 @ take (m - k) (drop k rest) \<and> blocks_ok n d' \<and>
      frame_fields d' = frame_fields d1"
      by (rule less.hyps) (use s m in auto)
    moreover have "take m rest = take k rest @ take (m - k) (drop k rest)"
      using m by (metis add_diff_cancel_left' le_add1 le_add_diff_inverse take_add)
    ultimately show ?thesis using s m by (auto simp: drop_drop add.commute)
  qed
qed

lemma set_blocks:
  "offset + length (concat bs) \<le> length p \<Longrightarrow>
     set_blocks p offset bs = take offset p @ concat bs @ drop (offset + length (concat bs)) p"
proof (induction bs arbitrary: p offset)
  case Nil
  then show ?case by simp
next
  case (Cons b bs)
  define q where "q = array_set p b offset"
  have q: "q = take offset p @ b @ drop (offset + length b) p" by (simp add: q_def array_set_def)
  have "set_blocks p offset (b # bs) = set_blocks q (offset + length b) bs" by (simp add: q_def)
  also have "\<dots> = take (offset + length b) q @ concat bs @ drop (offset + length b + length (concat bs)) q"
    by (rule Cons.IH) (use Cons.prems in \<open>simp add: q_def\<close>)
  also have "\<dots> = take offset p @ concat (b # bs) @ drop (offset + length (concat (b # bs))) p"
    using Cons.prems by (simp add: q add_ac)
  finally show ?case .
qed

lemma assemble_payload:
  assumes "blocks_ok n d" and "payloadLength d = n" and "0 < n"
  shows "assemble_payload n d = payload_bytes d"
proof -
  from assms obtain bs b where b: "payloadBlocks d = bs @ [b]"
    by (auto simp: blocks_ok_def intro: append_butlast_last_id [symmetric] split: option.splits)
  with assms have len: "length (concat (payloadBlocks d)) = n"
    by (auto simp: blocks_ok_def split: option.splits)
  then have pb: "payload_bytes d = concat (payloadBlocks d)"
    by (simp add: payload_bytes_def assms(2))
  show ?thesis
  proof (cases "length (payloadBlocks d) = 1")
    case True
    with b have "bs = []" by simp
    with b pb show ?thesis by (simp add: assemble_payload_def)
  next
    case False
    with len pb show ?thesis by (simp add: assemble_payload_def set_blocks)
  qed
qed

subsubsection \<open>One iteration of the outer loop\<close>

text \<open>
  \<open>parses limit bs fs r\<close> says that the reference reads the frames \<open>fs\<close> from \<open>bs\<close> and then stops
  with \<open>r\<close>. A loop iteration that delivers \<open>fs\<close> takes the bytes of \<open>fs\<close> off the stream.
\<close>

definition parses :: "nat \<Rightarrow> byte list \<Rightarrow> byte list list \<Rightarrow> frame_error + byte list \<Rightarrow> bool" where
  "parses limit bs fs r \<longleftrightarrow> split_frames limit bs = (fs, r)"

lemma parses_frame:
  assumes "n \<le> limit" and "n < 2 ^ 32" and "length payload = n" and "parses limit rest fs r"
  shows "parses limit (be_bytes32 n @ payload @ rest) (payload # fs) r"
  using assms by (simp add: parses_def split_frames.simps [of limit "be_bytes32 n @ payload @ rest"])

lemma parses_incomplete:
  "n \<le> limit \<Longrightarrow> n < 2 ^ 32 \<Longrightarrow> length payload < n \<Longrightarrow>
     parses limit (be_bytes32 n @ payload) [] (Inr (be_bytes32 n @ payload))"
  by (simp add: parses_def split_frames.simps [of limit "be_bytes32 n @ payload"])

lemma length_payload_bytes:
  assumes "blocks_ok n d"
  shows "length (payload_bytes d) = payloadLength d"
proof (cases "payloadBlocks d = []")
  case True
  with assms show ?thesis by (simp add: payload_bytes_def blocks_ok_def split: option.splits)
next
  case False
  then have "concat (payloadBlocks d) = concat (butlast (payloadBlocks d)) @ last (payloadBlocks d)"
    by (metis append_butlast_last_id concat.simps concat_append append_Nil2)
  with assms False show ?thesis by (auto simp: payload_bytes_def blocks_ok_def split: option.splits)
qed

lemma pending_incomplete:
  assumes "decoder_inv d"
  shows "parses (maxFrameLength d) (pending d) [] (Inr (pending d))"
proof (cases "expectedPayloadLength d")
  case None
  with assms have "length (pending d) < 4" by (simp add: decoder_inv_def pending_def)
  then show ?thesis by (simp add: parses_def split_frames.simps [of _ "pending d"])
next
  case (Some n)
  with assms show ?thesis
    by (auto simp: decoder_inv_def pending_def MAX_UINT32_def length_payload_bytes intro!: parses_incomplete)
qed

text \<open>
  What one iteration does to the stream: either the loop has failed and so does the reference, or
  frames \<open>new\<close> were delivered, at least one byte was consumed, and the reference on the old stream
  is \<open>new\<close> followed by the reference on the new one.
\<close>

definition advances :: "push_loop \<Rightarrow> push_loop \<Rightarrow> bool" where
  "advances s s' \<longleftrightarrow>
     (let limit = maxFrameLength (loop_decoder s); old = pending (loop_decoder s) @ loop_rest s in
      case loop_error s' of
        Some e \<Rightarrow> (\<exists>fs. parses limit old fs (Inl e)) \<and> decoder_state (loop_decoder s') = DecoderHasFailed
      | None \<Rightarrow> decoder_inv (loop_decoder s') \<and> maxFrameLength (loop_decoder s') = limit \<and>
          length (loop_rest s') \<le> length (loop_rest s) \<and>
          (\<exists>new. loop_frames s' = loop_frames s @ new \<and>
            (\<forall>fs r. parses limit (pending (loop_decoder s') @ loop_rest s') fs r \<longrightarrow>
                    parses limit old (new @ fs) r)))"

lemma read_payload_advances:
  assumes inv: "decoder_inv (loop_decoder s)" and err: "loop_error s = None"
    and ex: "expectedPayloadLength (loop_decoder s) = Some n"
  shows "advances s (read_payload s) \<and>
    (loop_rest s \<noteq> [] \<longrightarrow> length (loop_rest (read_payload s)) < length (loop_rest s))"
proof -
  define d where "d = loop_decoder s"
  define rest where "rest = loop_rest s"
  define m where "m = min (n - payloadLength d) (length rest)"
  have d: "blocks_ok n d" "payloadLength d < n" "n \<le> maxFrameLength d" "n < 2 ^ 32" "headerLength d = 0"
    "length (header d) = 4" "decoder_state d = DecoderOpen" "maxFrameLength d \<le> MAX_UINT32"
    using inv ex by (auto simp: decoder_inv_def d_def MAX_UINT32_def)
  obtain d' where d': "fill_payload n (d, rest) = (d', drop m rest)"
    "payloadLength d' = payloadLength d + m" "payload_bytes d' = payload_bytes d @ take m rest"
    "blocks_ok n d'" "frame_fields d' = frame_fields d"
    using fill_payload [OF d(1) m_def] by blast
  have ff: "header d' = header d" "headerLength d' = 0" "maxFrameLength d' = maxFrameLength d"
    "expectedPayloadLength d' = Some n" "decoder_state d' = DecoderOpen"
    using d'(5) d ex by (simp_all add: frame_fields_def d_def)
  have old: "pending d @ rest = be_bytes32 n @ payload_bytes d @ rest"
    using ex by (simp add: pending_def d_def)
  have split: "payload_bytes d @ rest = payload_bytes d' @ drop m rest" by (simp add: d'(3))
  show ?thesis
  proof (cases "payloadLength d' = n")
    case True
    define s' where "s' = s\<lparr>loop_decoder := reset_payload (d'\<lparr>expectedPayloadLength := None\<rparr>),
      loop_rest := drop m rest, loop_frames := loop_frames s @ [assemble_payload n d']\<rparr>"
    have s': "read_payload s = s'"
      using ex True d'(1) by (simp add: read_payload_def s'_def d_def rest_def)
    have ap: "assemble_payload n d' = payload_bytes d'"
      using assemble_payload [OF d'(4) True] d(2) by simp
    have pend: "pending (loop_decoder s') = []"
      by (simp add: s'_def pending_def reset_payload_def ff)
    have lp: "length (payload_bytes d') = n" using length_payload_bytes [OF d'(4)] True by simp
    have "parses (maxFrameLength d) (pending d @ rest) (payload_bytes d' # fs) r"
      if "parses (maxFrameLength d) (drop m rest) fs r" for fs r
      unfolding old split by (rule parses_frame) (use d lp that in auto)
    moreover have "decoder_inv (loop_decoder s')"
      by (simp add: s'_def decoder_inv_def reset_payload_def ff d)
    ultimately have "advances s s'"
      using err pend ap ff by (simp add: advances_def s'_def reset_payload_def flip: d_def rest_def)
    moreover have "length (drop m rest) < length rest" if "rest \<noteq> []"
      using that d(2) by (simp add: m_def)
    ultimately show ?thesis unfolding s' by (simp add: s'_def flip: rest_def)
  next
    case False
    define s' where "s' = s\<lparr>loop_decoder := d', loop_rest := drop m rest\<rparr>"
    have s': "read_payload s = s'"
      using ex False d'(1) by (simp add: read_payload_def s'_def d_def rest_def)
    have lt: "payloadLength d' < n" using d'(4) False by (simp add: blocks_ok_def)
    have pend: "pending d' = be_bytes32 n @ payload_bytes d'" by (simp add: pending_def ff)
    have "decoder_inv d'" using ff d lt d'(4) by (simp add: decoder_inv_def)
    moreover have "pending d @ rest = pending d' @ drop m rest" unfolding pend old split by simp
    ultimately have "advances s s'"
      using err ff by (simp add: advances_def s'_def flip: d_def rest_def)
    moreover have "length (drop m rest) < length rest" if "rest \<noteq> []"
      using that d(2) by (simp add: m_def)
    ultimately show ?thesis unfolding s' by (simp add: s'_def flip: rest_def)
  qed
qed

lemma advances_trans:
  assumes "advances s s1" and "loop_error s1 = None" and "advances s1 s2"
  shows "advances s s2"
proof (cases "loop_error s2")
  case None
  with assms show ?thesis by (fastforce simp: advances_def Let_def)
next
  case (Some e)
  with assms show ?thesis by (fastforce simp: advances_def Let_def)
qed

lemma read_header_advances:
  assumes inv: "decoder_inv (loop_decoder s)" and err: "loop_error s = None"
    and ex: "expectedPayloadLength (loop_decoder s) = None" and ne: "loop_rest s \<noteq> []"
  shows "advances s (read_header s) \<and> length (loop_rest (read_header s)) < length (loop_rest s)"
proof -
  define d where "d = loop_decoder s"
  define rest where "rest = loop_rest s"
  define n where "n = min (4 - headerLength d) (length rest)"
  define h where "h = array_set (header d) (take n rest) (headerLength d)"
  define d1 where "d1 = d\<lparr>header := h, headerLength := headerLength d + n\<rparr>"
  have d: "headerLength d < 4" "length (header d) = 4" "decoder_state d = DecoderOpen"
    "maxFrameLength d \<le> MAX_UINT32"
    using inv by (auto simp: decoder_inv_def d_def)
  have n: "0 < n" "n \<le> length rest" "headerLength d + n \<le> 4"
    using d(1) ne by (auto simp: n_def rest_def)
  have lh: "length h = 4" using d n by (simp add: h_def)
  have "take (headerLength d + length (take n rest)) h = take (headerLength d) (header d) @ take n rest"
    unfolding h_def by (rule take_array_set) (use d n in simp)
  then have th: "take (headerLength d + n) h = pending d @ take n rest"
    using n ex by (simp add: pending_def d_def)
  have old: "pending d @ rest = take (headerLength d + n) h @ drop n rest" by (simp add: th)
  have short: "length (drop n rest) < length rest" using n by simp
  show ?thesis
  proof (cases "headerLength d + n < 4")
    case True
    define s' where "s' = s\<lparr>loop_decoder := d1, loop_rest := drop n rest\<rparr>"
    have s': "read_header s = s'"
      using True by (simp add: read_header_def FRAME_HEADER_LENGTH_def Let_def s'_def d1_def h_def n_def d_def rest_def)
    have "decoder_inv d1" using True d lh ex by (simp add: decoder_inv_def d1_def d_def)
    moreover have "pending d1 @ drop n rest = pending d @ rest"
      using old ex by (simp add: pending_def d1_def d_def)
    ultimately have "advances s s'"
      using err by (simp add: advances_def s'_def d1_def flip: d_def rest_def)
    with short show ?thesis unfolding s' by (simp add: s'_def flip: rest_def)
  next
    case False
    with n d have full: "headerLength d + n = 4" by simp
    then have old': "pending d @ rest = h @ drop n rest" using old lh by simp
    define k where "k = be_value32 h"
    have hk: "h = be_bytes32 k" using lh by (simp add: k_def be_bytes32_be_value32)
    have k32: "k < 2 ^ 32" unfolding k_def by (rule be_value32_bound)
    define d2 where "d2 = d1\<lparr>headerLength := 0\<rparr>"
    have rh: "read_header s = (let s = s\<lparr>loop_decoder := d1, loop_rest := drop n rest\<rparr> in
        if k > maxFrameLength d
        then s\<lparr>loop_decoder := fail_decoder d2, loop_error := Some (FrameTooLong k (maxFrameLength d))\<rparr>
        else if k = 0 then s\<lparr>loop_decoder := d2, loop_frames := loop_frames s @ [[]]\<rparr>
        else s\<lparr>loop_decoder := reset_payload (d2\<lparr>expectedPayloadLength := Some k\<rparr>)\<rparr>)"
      using full by (simp add: read_header_def FRAME_HEADER_LENGTH_def Let_def d2_def d1_def h_def n_def k_def d_def rest_def)
    consider "k > maxFrameLength d" | "k = 0" | "k \<noteq> 0" "k \<le> maxFrameLength d" by linarith
    then show ?thesis
    proof cases
      case 1
      have "parses (maxFrameLength d) (h @ drop n rest) [] (Inl (FrameTooLong k (maxFrameLength d)))"
        using 1 lh by (simp add: parses_def split_frames.simps [of _ "h @ drop n rest"] flip: k_def)
      with 1 short old' show ?thesis
        unfolding rh by (auto simp: Let_def advances_def fail_decoder_def simp flip: d_def rest_def)
    next
      case 2
      have "parses (maxFrameLength d) (h @ drop n rest) ([] # fs) r"
        if "parses (maxFrameLength d) (drop n rest) fs r" for fs r
        using parses_frame [of 0 "maxFrameLength d" "[]", OF _ _ _ that] 2 by (simp add: hk)
      moreover have "decoder_inv d2 \<and> pending d2 = []"
        using d lh ex by (simp add: decoder_inv_def pending_def d2_def d1_def d_def)
      ultimately show ?thesis
        using 2 short old' err unfolding rh
        by (simp add: Let_def advances_def d2_def d1_def flip: d_def rest_def)
    next
      case 3
      define d3 where "d3 = reset_payload (d2\<lparr>expectedPayloadLength := Some k\<rparr>)"
      have "decoder_inv d3" using 3 d lh by (simp add: decoder_inv_def d3_def d2_def d1_def reset_payload_def blocks_ok_def)
      moreover have "pending d3 = h" by (simp add: pending_def d3_def reset_payload_def payload_bytes_def hk)
      ultimately show ?thesis
        using 3 short old' err unfolding rh
        by (simp add: Let_def advances_def d3_def d2_def d1_def reset_payload_def flip: d_def rest_def)
    qed
  qed
qed

lemma push_step_advances:
  assumes "decoder_inv (loop_decoder s)" and "loop_error s = None" and "loop_rest s \<noteq> []"
  shows "advances s (push_step s) \<and>
    (loop_error (push_step s) = None \<longrightarrow> length (loop_rest (push_step s)) < length (loop_rest s))"
proof (cases "expectedPayloadLength (loop_decoder s)")
  case (Some n)
  with read_payload_advances [OF assms(1,2)] assms(3) show ?thesis by (simp add: push_step_def)
next
  case None
  define s1 where "s1 = read_header s"
  have s1: "advances s s1" "length (loop_rest s1) < length (loop_rest s)"
    using read_header_advances [OF assms(1,2) None assms(3)] by (simp_all add: s1_def)
  show ?thesis
  proof (cases "loop_error s1 = None \<and> expectedPayloadLength (loop_decoder s1) \<noteq> None")
    case True
    then obtain n where n: "loop_error s1 = None" "expectedPayloadLength (loop_decoder s1) = Some n" by auto
    have "decoder_inv (loop_decoder s1)" using s1(1) n(1) by (simp add: advances_def Let_def)
    from read_payload_advances [OF this n] have adv: "advances s1 (read_payload s1)" by simp
    then have "loop_error (read_payload s1) = None \<Longrightarrow> length (loop_rest (read_payload s1)) \<le> length (loop_rest s1)"
      by (simp add: advances_def Let_def)
    with advances_trans [OF s1(1) n(1) adv] s1(2) None n(1) show ?thesis
      by (auto simp: push_step_def simp flip: s1_def)
  next
    case False
    then have "push_step s = s1"
      using None by (auto simp: push_step_def read_payload_def simp flip: s1_def)
    with s1 show ?thesis by simp
  qed
qed

subsubsection \<open>The whole loop\<close>

lemma push_all_unfold:
  "push_all s = (if loop_error s = None \<and> loop_rest s \<noteq> [] then push_all (push_step s) else s)"
  unfolding push_all_def by (subst while_unfold) simp

lemma push_all_advances:
  assumes "decoder_inv (loop_decoder s)" and "loop_error s = None"
  shows "advances s (push_all s) \<and> (loop_error (push_all s) = None \<longrightarrow> loop_rest (push_all s) = [])"
  using assms
proof (induction "length (loop_rest s)" arbitrary: s rule: less_induct)
  case less
  show ?case
  proof (cases "loop_rest s = []")
    case True
    with less.prems show ?thesis by (simp add: push_all_unfold [of s] advances_def Let_def)
  next
    case False
    define s1 where "s1 = push_step s"
    have s1: "advances s s1" "loop_error s1 = None \<longrightarrow> length (loop_rest s1) < length (loop_rest s)"
      using push_step_advances [OF less.prems False] by (simp_all add: s1_def)
    have eq: "push_all s = push_all s1"
      using False less.prems by (simp add: push_all_unfold [of s] s1_def)
    show ?thesis
    proof (cases "loop_error s1")
      case (Some e)
      with s1 show ?thesis unfolding eq by (simp add: push_all_unfold [of s1])
    next
      case None
      with s1 have "decoder_inv (loop_decoder s1)" by (simp add: advances_def Let_def)
      with less.hyps [of s1] s1 None show ?thesis unfolding eq by (blast intro: advances_trans)
    qed
  qed
qed

lemma push_refines [refine_simps]:
  assumes inv: "decoder_inv d" and parse: "split_frames (maxFrameLength d) (pending d @ chunk) = (fs, r)"
  shows "case r of
      Inl e \<Rightarrow> \<exists>d'. push d chunk = (Inl e, d') \<and> decoder_state d' = DecoderHasFailed
    | Inr left \<Rightarrow> \<exists>d'. push d chunk = (Inr fs, d') \<and> decoder_inv d' \<and> pending d' = left \<and>
        maxFrameLength d' = maxFrameLength d"
proof -
  define s where "s = \<lparr>loop_decoder = d, loop_frames = [], loop_rest = chunk, loop_error = None\<rparr>"
  define s' where "s' = push_all s"
  have s': "advances s s'" "loop_error s' = None \<longrightarrow> loop_rest s' = []"
    using push_all_advances [of s] inv by (simp_all add: s'_def s_def)
  have "decoder_state d = DecoderOpen" using inv by (simp add: decoder_inv_def)
  then have push: "push d chunk =
      (case loop_error s' of None \<Rightarrow> Inr (loop_frames s') | Some e \<Rightarrow> Inl e, loop_decoder s')"
    by (simp add: push_def s'_def s_def Let_def split: option.split)
  show ?thesis
  proof (cases "loop_error s'")
    case (Some e)
    with s'(1) parse have "r = Inl e" "decoder_state (loop_decoder s') = DecoderHasFailed"
      by (auto simp: advances_def Let_def s_def parses_def)
    with Some push show ?thesis by simp
  next
    case None
    with s' have inv': "decoder_inv (loop_decoder s')" and lim: "maxFrameLength (loop_decoder s') = maxFrameLength d"
      and "parses (maxFrameLength d) (pending d @ chunk) (loop_frames s') (Inr (pending (loop_decoder s')))"
      using pending_incomplete [of "loop_decoder s'"]
      by (fastforce simp: advances_def Let_def s_def)+
    with parse have "r = Inr (pending (loop_decoder s'))" "fs = loop_frames s'" by (simp_all add: parses_def)
    with None push inv' lim show ?thesis by simp
  qed
qed

lemma decoder_inv_fresh [inv_intros]: "limit \<le> MAX_UINT32 \<Longrightarrow> decoder_inv (fresh_decoder limit)"
  by (simp add: decoder_inv_def fresh_decoder_def)

lemma pending_fresh [simp]: "pending (fresh_decoder limit) = []"
  by (simp add: pending_def fresh_decoder_def)

lemma maxFrameLength_fresh [simp]: "maxFrameLength (fresh_decoder limit) = limit"
  by (simp add: fresh_decoder_def)

lemma new_frame_decoder_Inr:
  "new_frame_decoder options = Inr d \<Longrightarrow>
     decoder_inv d \<and> pending d = [] \<and> resolveMaxFrameLength options = Inr (maxFrameLength d)"
  by (auto simp: new_frame_decoder_def andThen_eq_Inr resolveMaxFrameLength_def Let_def
      intro!: decoder_inv_fresh split: if_splits)

lemma encodeFrame_Inr:
  "encodeFrame p = Inr f \<longleftrightarrow> length p < 2 ^ 32 \<and> f = be_bytes32 (length p) @ p"
  by (auto simp: encodeFrame_def MAX_UINT32_def)

subsection \<open>Chunks\<close>

abbreviation "push_chunks \<equiv> feed_all push"

definition decoded :: "byte list list \<times> (frame_error + byte list) \<Rightarrow> frame_error + byte list list" where
  "decoded = (\<lambda>(fs, r). case r of Inl e \<Rightarrow> Inl e | Inr _ \<Rightarrow> Inr fs)"

lemma split_frames_append:
  "split_frames limit bs = (fs, r) \<Longrightarrow>
     split_frames limit (bs @ cs) =
       (case r of Inl e \<Rightarrow> (fs, Inl e)
        | Inr left \<Rightarrow> (case split_frames limit (left @ cs) of (gs, r') \<Rightarrow> (fs @ gs, r')))"
proof (induction limit bs arbitrary: fs r rule: split_frames.induct)
  case (1 limit bs)
  define n where "n = be_value32 bs"
  have val: "be_value32 (bs @ cs) = n" if "4 \<le> length bs"
    using that by (auto simp: n_def be_value32_def nth_append)
  consider "length bs < 4 \<or> (n \<le> limit \<and> length bs < 4 + n)" | "4 \<le> length bs" "n > limit"
    | "4 \<le> length bs" "n \<le> limit" "4 + n \<le> length bs" by linarith
  then show ?case
  proof cases
    case 1
    then have "split_frames limit bs = ([], Inr bs)"
      by (auto simp: split_frames.simps [of limit bs] Let_def simp flip: n_def)
    with "1.prems" show ?thesis by auto
  next
    case 2
    with "1.prems" val show ?thesis
      by (auto simp: split_frames.simps [of limit bs] split_frames.simps [of limit "bs @ cs"] Let_def
          simp flip: n_def)
  next
    case 3
    obtain gs r1 where gs: "split_frames limit (drop (4 + n) bs) = (gs, r1)" by fastforce
    with "1.prems" 3 have fs: "fs = take n (drop 4 bs) # gs" "r = r1"
      by (auto simp: split_frames.simps [of limit bs] Let_def simp flip: n_def)
    from "1.IH" [OF _ n_def, of gs r1] 3 gs
    have "split_frames limit (drop (4 + n) bs @ cs) = (case r1 of Inl e \<Rightarrow> (gs, Inl e)
        | Inr left \<Rightarrow> (case split_frames limit (left @ cs) of (hs, r') \<Rightarrow> (gs @ hs, r')))"
      by simp
    with 3 val fs show ?thesis
      by (simp add: split_frames.simps [of limit "bs @ cs"] Let_def split: sum.split prod.split)
  qed
qed

lemma push_chunks_refines:
  assumes "decoder_inv d"
  shows "fst (push_chunks d cs) = decoded (split_frames (maxFrameLength d) (pending d @ concat cs)) \<and>
    (\<forall>fs left. split_frames (maxFrameLength d) (pending d @ concat cs) = (fs, Inr left) \<longrightarrow>
       decoder_inv (snd (push_chunks d cs)) \<and> pending (snd (push_chunks d cs)) = left \<and>
       maxFrameLength (snd (push_chunks d cs)) = maxFrameLength d)"
  using assms
proof (induction cs arbitrary: d)
  case Nil
  then show ?case using pending_incomplete [OF Nil] by (simp add: parses_def decoded_def)
next
  case (Cons c cs)
  obtain fs r where parse: "split_frames (maxFrameLength d) (pending d @ c) = (fs, r)" by fastforce
  note app = split_frames_append [OF parse, of "concat cs"]
  show ?case
  proof (cases r)
    case (Inl e)
    with push_refines [OF Cons.prems parse] app show ?thesis by (auto simp: decoded_def)
  next
    case (Inr left)
    with push_refines [OF Cons.prems parse] obtain d' where
      d': "push d c = (Inr fs, d')" "decoder_inv d'" "pending d' = left" "maxFrameLength d' = maxFrameLength d"
      by auto
    obtain gs r' where gs: "split_frames (maxFrameLength d) (left @ concat cs) = (gs, r')" by fastforce
    with Cons.IH [OF d'(2)] d' app Inr show ?thesis
      by (cases r') (auto simp: decoded_def split: prod.splits)
  qed
qed

lemma split_frames_encoded:
  assumes "list_all2 (\<lambda>p f. length p \<le> limit \<and> encodeFrame p = Inr f) ps fs"
  shows "split_frames limit (concat fs) = (ps, Inr [])"
  using assms
proof (induction ps fs rule: list_all2_induct)
  case Nil
  show ?case by (simp add: split_frames.simps)
next
  case (Cons p ps f fs)
  then have "f = be_bytes32 (length p) @ p" "length p < 2 ^ 32" by (simp_all add: encodeFrame_Inr)
  with Cons parses_frame [of "length p" limit p "concat fs" ps "Inr []"] show ?case
    by (simp add: parses_def)
qed

lemma end_decoder_idle:
  "decoder_inv d \<Longrightarrow> pending d = [] \<Longrightarrow> fst (end_decoder d) = Inr ()"
  by (auto simp: decoder_inv_def pending_def be_bytes32_def end_decoder_def split: option.splits)

lemma push_chunks_encoded:
  assumes "decoder_inv d" and "pending d = []"
    and "list_all2 (\<lambda>p f. length p \<le> maxFrameLength d \<and> encodeFrame p = Inr f) ps fs"
    and "concat cs = concat fs"
  shows "fst (push_chunks d cs) = Inr ps \<and> decoder_inv (snd (push_chunks d cs)) \<and>
    pending (snd (push_chunks d cs)) = [] \<and> maxFrameLength (snd (push_chunks d cs)) = maxFrameLength d"
  using push_chunks_refines [OF assms(1), of cs] split_frames_encoded [OF assms(3), folded assms(4)] assms(2)
  by (auto simp: decoded_def)

interpretation fr: framing encodeFrame push end_decoder "\<lambda>d. decoder_inv d \<and> pending d = []" maxFrameLength
proof
  show "\<exists>d'. push_chunks d cs = (Inr ps, d') \<and> (decoder_inv d' \<and> pending d' = []) \<and>
      maxFrameLength d' = maxFrameLength d"
    if "decoder_inv d \<and> pending d = []"
      "list_all2 (\<lambda>p f. length p \<le> maxFrameLength d \<and> encodeFrame p = Inr f) ps fs" "concat cs = concat fs"
    for d ps fs cs
    using push_chunks_encoded [of d ps fs cs] that by (metis prod.collapse)
  show "fst (end_decoder d) = Inr ()" if "decoder_inv d \<and> pending d = []" for d
    using end_decoder_idle that by blast
qed

subsection \<open>Properties\<close>

text \<open>
  C2. A fresh frame decoder fed any sequence of chunks yields exactly the frames that a one-shot
  parse of the concatenated bytes yields, or the error of that parse: where the transport cuts the
  stream, inside headers or payloads, never matters, and both loops of \<^verbatim>\<open>push\<close> end.
\<close>

theorem decoder_chunk_invariant:
  assumes "new_frame_decoder options = Inr d"
  shows "fst (push_chunks d cs) = decoded (split_frames (maxFrameLength d) (concat cs))"
  using push_chunks_refines [of d cs] new_frame_decoder_Inr [OF assms] by simp

lemma new_decoder_10: "new_frame_decoder (Some 10) = Inr (fresh_decoder 10)"
  by (simp add: new_frame_decoder_def resolveMaxFrameLength_def MAX_UINT32_def)

theorem decoder_chunk_invariant_witness:
  "fst (push_chunks (fresh_decoder 10) [[0, 0], [0, 2, 7], [8, 0, 0, 0]]) = Inr [[7, 8]]"
  unfolding decoder_chunk_invariant [OF new_decoder_10, of "[[0, 0], [0, 2, 7], [8, 0, 0, 0]]"]
  by (simp add: decoded_def split_frames.simps be_value32_def)

text \<open>
  Round trip: whatever payloads within the limit are framed, and however the concatenation of
  the frames is cut into chunks, a fresh decoder delivers exactly these payloads in order and its
  \<^verbatim>\<open>end()\<close> then accepts the stream.
\<close>

theorem frame_stream_roundtrip:
  assumes "new_frame_decoder options = Inr d"
    and "list_all2 (\<lambda>p f. length p \<le> maxFrameLength d \<and> encodeFrame p = Inr f) ps fs"
    and "concat cs = concat fs"
  shows "fst (push_chunks d cs) = Inr ps \<and> fst (end_decoder (snd (push_chunks d cs))) = Inr ()"
  using fr.feed_chunks [OF _ assms(2,3)] fr.finish_idle new_frame_decoder_Inr [OF assms(1)] by fastforce

theorem frame_stream_roundtrip_witness:
  "fst (push_chunks (fresh_decoder 10) [[0, 0], [0, 2, 7], [8]]) = Inr [[7, 8]]"
proof -
  have "encodeFrame [7, 8] = Inr [0, 0, 0, 2, 7, 8]" by code_simp
  then have "list_all2 (\<lambda>p f. length p \<le> maxFrameLength (fresh_decoder 10) \<and> encodeFrame p = Inr f)
      [[7, 8]] [[0, 0, 0, 2, 7, 8]]" by simp
  from frame_stream_roundtrip [OF new_decoder_10 this, of "[[0, 0], [0, 2, 7], [8]]"] show ?thesis by simp
qed

text \<open>
  C21. Memory bound against hostile lengths: while a payload is being received, the blocks the
  decoder has allocated exceed the payload bytes already received by less than one block (64 KiB)
  and never exceed the announced length, which itself is within the configured limit.
\<close>

theorem decoder_memory_bound:
  assumes "new_frame_decoder options = Inr d" and "fst (push_chunks d cs) = Inr ps"
    and "expectedPayloadLength (snd (push_chunks d cs)) = Some n"
  shows "length (concat (payloadBlocks (snd (push_chunks d cs))))
      < payloadLength (snd (push_chunks d cs)) + PAYLOAD_BLOCK_SIZE
    \<and> length (concat (payloadBlocks (snd (push_chunks d cs)))) \<le> n
    \<and> n \<le> maxFrameLength (snd (push_chunks d cs))"
proof -
  define d' where "d' = snd (push_chunks d cs)"
  have d: "decoder_inv d" using new_frame_decoder_Inr [OF assms(1)] by auto
  with push_chunks_refines [of d cs] assms(2) have inv: "decoder_inv d'"
    by (auto simp: decoded_def d'_def split: prod.splits sum.splits)
  then have b: "blocks_ok n d'" "n \<le> maxFrameLength d'" using assms(3) by (auto simp: decoder_inv_def d'_def)
  have "concat (payloadBlocks d') = concat (butlast (payloadBlocks d')) @ last (payloadBlocks d')"
    if "payloadBlocks d' \<noteq> []"
    using that by (metis append_butlast_last_id concat.simps concat_append append_Nil2)
  with b show ?thesis unfolding d'_def [symmetric]
    by (auto simp: blocks_ok_def PAYLOAD_BLOCK_SIZE_def split: option.splits)
qed

theorem decoder_memory_bound_witness:
  "length (concat (payloadBlocks (snd (push_chunks (fresh_decoder 10) [[0, 0, 0], [2, 7]])))) \<le> 2"
proof -
  have "fst (push_chunks (fresh_decoder 10) [[0, 0, 0], [2, 7]]) = Inr []" by code_simp
  moreover have "expectedPayloadLength (snd (push_chunks (fresh_decoder 10) [[0, 0, 0], [2, 7]])) = Some 2"
    by code_simp
  ultimately show ?thesis using decoder_memory_bound [OF new_decoder_10] by blast
qed

text \<open>
  \<^verbatim>\<open>assertCompleteFrame\<close> accepts exactly the results of \<^verbatim>\<open>encodeFrame\<close> on payloads within the
  configured limit.
\<close>

theorem assertCompleteFrame_iff:
  "assertCompleteFrame f options = Inr () \<longleftrightarrow>
     (\<exists>p limit. encodeFrame p = Inr f \<and> resolveMaxFrameLength options = Inr limit \<and> length p \<le> limit)"
proof
  assume a: "assertCompleteFrame f options = Inr ()"
  define p where "p = drop 4 f"
  from a have f: "4 \<le> length f" "length f = 4 + be_value32 f"
    and lim: "\<exists>limit. resolveMaxFrameLength options = Inr limit \<and> be_value32 f \<le> limit"
    by (auto simp: assertCompleteFrame_def FRAME_HEADER_LENGTH_def Let_def andThen_eq_Inr split: if_splits)
  have "be_bytes32 (be_value32 f) = take 4 f"
    using be_bytes32_be_value32 [of "take 4 f"] f by simp
  moreover have "length p = be_value32 f" using f by (simp add: p_def)
  moreover have "f = take 4 f @ p" by (simp add: p_def)
  ultimately have "encodeFrame p = Inr f" using be_value32_bound [of f] by (simp add: encodeFrame_Inr)
  with lim \<open>length p = be_value32 f\<close> show "\<exists>p limit. encodeFrame p = Inr f \<and>
      resolveMaxFrameLength options = Inr limit \<and> length p \<le> limit"
    by auto
next
  assume "\<exists>p limit. encodeFrame p = Inr f \<and> resolveMaxFrameLength options = Inr limit \<and> length p \<le> limit"
  then show "assertCompleteFrame f options = Inr ()"
    by (auto simp: encodeFrame_Inr assertCompleteFrame_def FRAME_HEADER_LENGTH_def)
qed

end
