(* ===== verification/JsValue.thy ===== *)
theory JsValue
  imports Prelude
begin

text \<open>
  The JavaScript values the protocol packages handle, and the parts of the standard library they
  rely on.

  \<^item> A number is an IEEE double. \<open>Integral i\<close> stands for the doubles that \<^verbatim>\<open>Number.isInteger\<close>
    accepts, except negative zero; \<open>Fractional b\<close> for a finite double with a fractional part, by its
    64 bits; \<open>NonFinite\<close> for the infinities and NaN. \<open>number_of_bits\<close> reads a bit pattern
    (\<^verbatim>\<open>DataView.getFloat64\<close>).
  \<^item> A string is a list of 16-bit code units. \<open>text_encode\<close> is \<^verbatim>\<open>TextEncoder.encode\<close>, which
    replaces an unpaired surrogate by U+FFFD; \<open>text_decode\<close> is the fatal UTF-8 \<^verbatim>\<open>TextDecoder\<close>.
  \<^item> A plain object is the list of its enumerable string-keyed properties in the order
    \<^verbatim>\<open>Object.keys\<close> reports: array indices in ascending order, then the other keys in creation order
    (\<open>key_before\<close>), with its \<open>object_shape\<close>: whether its prototype is \<^verbatim>\<open>Object.prototype\<close>
    or null, and whether it has enumerable symbol keys besides. \<open>define_property\<close> creates a
    property. A value is a finite tree; a reference from a value back to an object that contains it
    is \<open>JBackref\<close>, and anything else (functions, class instances, bigints, \<dots>) is
    \<open>JUnsupported\<close>. Arrays are dense: they have no holes.
\<close>

type_synonym u16 = "16 word"
type_synonym js_string = "u16 list"

datatype js_number = Integral int | NegativeZero | Fractional "64 word" | NonFinite

datatype object_shape = Ordinary | NullPrototype | SymbolKeyed

datatype js_value =
    JUndefined
  | JNull
  | JBool bool
  | JNumber js_number
  | JString js_string
  | JBytes "byte list"
  | JArray "js_value list"
  | JObject object_shape "(js_string \<times> js_value) list"
  | JBackref
  | JUnsupported

text \<open>The code units of a text below U+0100.\<close>

definition units :: "string \<Rightarrow> js_string" where
  "units s = map (\<lambda>c. of_nat (of_char c)) s"

lemma length_units [simp]: "length (units s) = length s"
  by (simp add: units_def)

lemma units_inject [simp]: "units s = units t \<longleftrightarrow> s = t"
proof -
  have "inj (\<lambda>c. of_nat (of_char c) :: u16)"
  proof (rule injI)
    fix c d :: char assume "(of_nat (of_char c) :: u16) = of_nat (of_char d)"
    then have "unat (of_nat (of_char c) :: u16) = unat (of_nat (of_char d) :: u16)" by simp
    moreover have "unat (of_nat (of_char e) :: u16) = of_char e" for e :: char
      using less_trans [OF nat_of_char_less_256 [of e], of 65536] by (simp add: unat_of_nat)
    ultimately show "c = d" by simp
  qed
  then show ?thesis by (simp add: units_def inj_map_eq_map)
qed

subsection \<open>Numbers\<close>

definition MAX_SAFE_INTEGER :: int where "MAX_SAFE_INTEGER = 2 ^ 53 - 1"

definition is_safe_integer :: "int \<Rightarrow> bool" where
  "is_safe_integer i \<longleftrightarrow> - MAX_SAFE_INTEGER \<le> i \<and> i \<le> MAX_SAFE_INTEGER"

definition number_of_bits :: "64 word \<Rightarrow> js_number" where
  "number_of_bits b =
     (let fraction = int (unat (take_bit 52 b)); exponent = unat (take_bit 11 (drop_bit 52 b));
          sign = (if bit b 63 then -1 else 1 :: int)
      in if exponent = 2047 then NonFinite
         else let (mantissa, scale) = (if exponent = 0 then (fraction, -1074 :: int)
                                       else (2 ^ 52 + fraction, int exponent - 1075))
              in if mantissa = 0 then (if sign = 1 then Integral 0 else NegativeZero)
                 else if 0 \<le> scale then Integral (sign * mantissa * 2 ^ nat scale)
                 else if mantissa mod 2 ^ nat (- scale) = 0
                 then Integral (sign * (mantissa div 2 ^ nat (- scale)))
                 else Fractional b)"

fun proper_number :: "js_number \<Rightarrow> bool" where
  "proper_number (Fractional b) \<longleftrightarrow> number_of_bits b = Fractional b"
| "proper_number _ \<longleftrightarrow> True"

definition negative_zero_bits :: "64 word" where
  "negative_zero_bits = push_bit 63 1"

lemma number_of_negative_zero: "number_of_bits negative_zero_bits = NegativeZero"
  by code_simp

subsection \<open>Text\<close>

definition high_surrogate :: "u16 \<Rightarrow> bool" where
  "high_surrogate u \<longleftrightarrow> 0xD800 \<le> unat u \<and> unat u \<le> 0xDBFF"

definition low_surrogate :: "u16 \<Rightarrow> bool" where
  "low_surrogate u \<longleftrightarrow> 0xDC00 \<le> unat u \<and> unat u \<le> 0xDFFF"

fun code_points :: "js_string \<Rightarrow> nat list" where
  "code_points [] = []"
| "code_points [u] = [if high_surrogate u \<or> low_surrogate u then 0xFFFD else unat u]"
| "code_points (u # v # us) =
     (if high_surrogate u \<and> low_surrogate v
      then (0x10000 + (unat u - 0xD800) * 0x400 + (unat v - 0xDC00)) # code_points us
      else (if high_surrogate u \<or> low_surrogate u then 0xFFFD else unat u) # code_points (v # us))"

definition utf8_bytes :: "nat \<Rightarrow> nat list" where
  "utf8_bytes c =
     (if c < 0x80 then [c]
      else if c < 0x800 then [0xC0 + c div 0x40, 0x80 + c mod 0x40]
      else if c < 0x10000 then [0xE0 + c div 0x1000, 0x80 + c div 0x40 mod 0x40, 0x80 + c mod 0x40]
      else [0xF0 + c div 0x40000, 0x80 + c div 0x1000 mod 0x40, 0x80 + c div 0x40 mod 0x40,
            0x80 + c mod 0x40])"

definition text_encode :: "js_string \<Rightarrow> byte list" where
  "text_encode s = map of_nat (concat (map utf8_bytes (code_points s)))"

definition continuation :: "nat \<Rightarrow> bool" where
  "continuation b \<longleftrightarrow> 0x80 \<le> b \<and> b < 0xC0"

definition scalar_value :: "nat \<Rightarrow> bool" where
  "scalar_value c \<longleftrightarrow> c < 0xD800 \<or> (0xE000 \<le> c \<and> c < 0x110000)"

text \<open>The strict decoder: overlong forms, surrogates and values above U+10FFFF are errors.\<close>

fun utf8_decode :: "nat list \<Rightarrow> nat list option" where
  "utf8_decode [] = Some []"
| "utf8_decode (a # bs) =
     (if a < 0x80 then map_option (\<lambda>cs. a # cs) (utf8_decode bs)
      else case bs of [] \<Rightarrow> None | b # bs2 \<Rightarrow>
        if \<not> continuation b then None
        else if 0xC2 \<le> a \<and> a < 0xE0
        then map_option (\<lambda>cs. ((a - 0xC0) * 0x40 + (b - 0x80)) # cs) (utf8_decode bs2)
        else case bs2 of [] \<Rightarrow> None | c # bs3 \<Rightarrow>
          if \<not> continuation c then None
          else if 0xE0 \<le> a \<and> a < 0xF0
          then let cp = (a - 0xE0) * 0x1000 + (b - 0x80) * 0x40 + (c - 0x80) in
               if cp < 0x800 \<or> \<not> scalar_value cp then None
               else map_option (\<lambda>cs. cp # cs) (utf8_decode bs3)
          else case bs3 of [] \<Rightarrow> None | d # bs4 \<Rightarrow>
            if \<not> continuation d then None
            else if 0xF0 \<le> a \<and> a < 0xF5
            then let cp = (a - 0xF0) * 0x40000 + (b - 0x80) * 0x1000 + (c - 0x80) * 0x40 + (d - 0x80) in
                 if cp < 0x10000 \<or> \<not> scalar_value cp then None
                 else map_option (\<lambda>cs. cp # cs) (utf8_decode bs4)
            else None)"

definition code_units :: "nat \<Rightarrow> js_string" where
  "code_units c =
     (if c < 0x10000 then [of_nat c]
      else [of_nat (0xD800 + (c - 0x10000) div 0x400), of_nat (0xDC00 + (c - 0x10000) mod 0x400)])"

definition text_decode :: "byte list \<Rightarrow> js_string option" where
  "text_decode bs = map_option (\<lambda>cs. concat (map code_units cs)) (utf8_decode (map unat bs))"

text \<open>A string is well formed when every surrogate is paired.\<close>

fun well_formed :: "js_string \<Rightarrow> bool" where
  "well_formed [] \<longleftrightarrow> True"
| "well_formed [u] \<longleftrightarrow> \<not> high_surrogate u \<and> \<not> low_surrogate u"
| "well_formed (u # v # us) \<longleftrightarrow>
     (if high_surrogate u \<and> low_surrogate v then well_formed us
      else \<not> high_surrogate u \<and> \<not> low_surrogate u \<and> well_formed (v # us))"

lemma utf8_decode_bytes:
  assumes "scalar_value c"
  shows "utf8_decode (utf8_bytes c @ bs) = map_option (\<lambda>cs. c # cs) (utf8_decode bs)"
proof -
  consider "c < 0x80" | "0x80 \<le> c" "c < 0x800" | "0x800 \<le> c" "c < 0x10000" | "0x10000 \<le> c" "c < 0x110000"
    using assms by (fastforce simp: scalar_value_def)
  then show ?thesis
  proof cases
    case 1
    then show ?thesis by (simp add: utf8_bytes_def)
  next
    case 2
    define x where "x = c div 64"
    have lo: "2 \<le> x" using div_le_mono [OF 2(1), of 64] by (simp add: x_def)
    have hi: "x < 32" using 2(2) unfolding x_def by (simp add: less_mult_imp_div_less)
    have c: "x * 64 + c mod 64 = c" by (simp add: x_def)
    show ?thesis using 2 lo hi c
      by (simp add: utf8_bytes_def continuation_def flip: x_def)
  next
    case 3
    define x where "x = c div 64"
    define y where "y = x div 64"
    have y: "c div 4096 = y" by (simp add: x_def y_def flip: div_mult2_eq)
    have hi: "y < 16" using 3(2) less_mult_imp_div_less [of c 16 4096] y by simp
    have "x * 64 + c mod 64 = c" "y * 64 + x mod 64 = x" by (simp_all add: x_def y_def)
    then have c: "y * 4096 + x mod 64 * 64 + c mod 64 = c" by linarith
    show ?thesis using 3 hi c assms
      by (simp add: utf8_bytes_def continuation_def Let_def y flip: x_def)
  next
    case 4
    define x where "x = c div 64"
    define y where "y = x div 64"
    define z where "z = y div 64"
    have y: "c div 4096 = y" by (simp add: x_def y_def flip: div_mult2_eq)
    have z: "c div 262144 = z" by (simp add: x_def y_def z_def flip: div_mult2_eq)
    have hi: "z < 5" using 4(2) less_mult_imp_div_less [of c 5 262144] z by simp
    have "x * 64 + c mod 64 = c" "y * 64 + x mod 64 = x" "z * 64 + y mod 64 = y"
      by (simp_all add: x_def y_def z_def)
    then have c: "z * 262144 + y mod 64 * 4096 + x mod 64 * 64 + c mod 64 = c" by linarith
    show ?thesis using 4 hi c assms
      by (simp add: utf8_bytes_def continuation_def Let_def y z flip: x_def)
  qed
qed

lemma utf8_bytes_lt: "c < 0x110000 \<Longrightarrow> b \<in> set (utf8_bytes c) \<Longrightarrow> b < 256"
  using less_mult_imp_div_less [of c 32 64] less_mult_imp_div_less [of c 16 4096]
    less_mult_imp_div_less [of c 5 262144]
  by (auto simp: utf8_bytes_def split: if_splits intro: less_trans [OF mod_less_divisor]
      elim!: order.strict_trans2 [rotated])

lemma utf8_decode_concat:
  "list_all scalar_value cs \<Longrightarrow> utf8_decode (concat (map utf8_bytes cs)) = Some cs"
  by (induction cs) (simp_all add: utf8_decode_bytes)

lemma code_points_scalar: "list_all scalar_value (code_points s)"
proof (induction s rule: code_points.induct)
  case (2 u)
  then show ?case
    using unsigned_less [of u, where ?'a = nat] by (auto simp: scalar_value_def high_surrogate_def low_surrogate_def)
next
  case (3 u v us)
  then show ?case
    using unsigned_less [of u, where ?'a = nat]
    by (auto simp: scalar_value_def high_surrogate_def low_surrogate_def)
qed simp

lemma text_decode_encode:
  "text_decode (text_encode s) = Some (concat (map code_units (code_points s)))"
proof -
  have "map unat (text_encode s) = concat (map utf8_bytes (code_points s))"
  proof -
    have "(b :: nat) < 256" if "c \<in> set (code_points s)" "b \<in> set (utf8_bytes c)" for b c
      using that code_points_scalar [of s] utf8_bytes_lt [of c b]
      by (auto simp: list_all_iff scalar_value_def)
    then show ?thesis
      by (auto simp: text_encode_def unat_byte_of_nat map_idI intro!: map_idI)
  qed
  then show ?thesis
    using utf8_decode_concat [OF code_points_scalar, of s] by (simp add: text_decode_def)
qed

text \<open>Re-encoding the code points gives back the string exactly when no surrogate had to be replaced.\<close>

lemma code_units_bmp [simp]: "code_units (unat (u :: u16)) = [u]"
  using unsigned_less [of u, where ?'a = nat] by (simp add: code_units_def)

lemma code_units_replacement [simp]: "code_units 0xFFFD = [0xFFFD]"
  by (simp add: code_units_def)

lemma code_units_pair:
  assumes "high_surrogate u" "low_surrogate v"
  shows "code_units (0x10000 + (unat u - 0xD800) * 0x400 + (unat v - 0xDC00)) = [u, v]"
proof -
  have v: "unat v - 0xDC00 < 0x400" and u: "0xD800 \<le> unat u" "0xDC00 \<le> unat v"
    using assms by (auto simp: high_surrogate_def low_surrogate_def)
  have "((unat u - 0xD800) * 0x400 + (unat v - 0xDC00)) div 0x400 = unat u - 0xD800"
    "((unat u - 0xD800) * 0x400 + (unat v - 0xDC00)) mod 0x400 = unat v - 0xDC00"
    using v by simp_all
  with u show ?thesis by (simp add: code_units_def del: of_nat_add)
qed

lemma code_units_code_points_iff:
  "concat (map code_units (code_points s)) = s \<longleftrightarrow> well_formed s"
proof (induction s rule: well_formed.induct)
  case (2 u)
  have "u \<noteq> 0xFFFD" if "high_surrogate u \<or> low_surrogate u"
    using that by (auto simp: high_surrogate_def low_surrogate_def)
  then show ?case by auto
next
  case (3 u v us)
  have ne: "u \<noteq> 0xFFFD" if "high_surrogate u \<or> low_surrogate u"
    using that by (auto simp: high_surrogate_def low_surrogate_def)
  show ?case
  proof (cases "high_surrogate u \<and> low_surrogate v")
    case True
    with 3 show ?thesis by (simp add: code_units_pair)
  next
    case False
    with 3 ne show ?thesis by auto
  qed
qed simp

lemma text_roundtrip_iff: "text_decode (text_encode s) = Some s \<longleftrightarrow> well_formed s"
  by (simp add: text_decode_encode code_units_code_points_iff)

subsection \<open>Property order\<close>

definition digit :: "u16 \<Rightarrow> bool" where
  "digit u \<longleftrightarrow> 48 \<le> unat u \<and> unat u \<le> 57"

definition array_index :: "js_string \<Rightarrow> nat option" where
  "array_index s =
     (let n = foldl (\<lambda>n u. 10 * n + (unat u - 48)) 0 s
      in if s \<noteq> [] \<and> list_all digit s \<and> (hd s = 48 \<longrightarrow> length s = 1) \<and> n < 2 ^ 32 - 1
         then Some n else None)"

definition key_before :: "js_string \<Rightarrow> js_string \<Rightarrow> bool" where
  "key_before k l \<longleftrightarrow> (case array_index k of None \<Rightarrow> False
     | Some i \<Rightarrow> (case array_index l of None \<Rightarrow> True | Some j \<Rightarrow> i < j))"

fun define_property :: "js_string \<Rightarrow> 'v \<Rightarrow> (js_string \<times> 'v) list \<Rightarrow> (js_string \<times> 'v) list" where
  "define_property k v [] = [(k, v)]"
| "define_property k v ((l, w) # ps) =
     (if k = l then (l, v) # ps
      else if key_before k l then (k, v) # (l, w) # ps
      else (l, w) # define_property k v ps)"

definition ordered_keys :: "js_string list \<Rightarrow> bool" where
  "ordered_keys ks \<longleftrightarrow> distinct ks \<and> sorted_wrt (\<lambda>k l. \<not> key_before l k) ks"

lemma define_property_last:
  "ordered_keys (map fst ps @ [k]) \<Longrightarrow> define_property k v ps = ps @ [(k, v)]"
  by (induction ps rule: induct_list012)
    (auto simp: ordered_keys_def sorted_wrt_append elim!: define_property.elims split: if_splits)

end
