(* ===== verification/Cbor.thy ===== *)
theory Cbor
  imports JsValue Interfaces
begin

text \<open>
  The strict CBOR subset of \<^verbatim>\<open>pi/packages/protocol/src/cbor/\<close> (\<^verbatim>\<open>options.ts\<close>, \<^verbatim>\<open>encoder.ts\<close>,
  \<^verbatim>\<open>decoder.ts\<close>).

  \<open>cbor_writer\<close> is the class \<^verbatim>\<open>CborWriter\<close>: a buffer that doubles up to \<^verbatim>\<open>maxByteLength\<close> and a
  write offset; \<open>written\<close> is what it has written so far, and a write operation either appends its
  bytes or fails because the limit would be exceeded (\<open>writes\<close>). \<open>encode_value\<close>, \<open>encode_items\<close> and
  \<open>encode_entries\<close> are \<^verbatim>\<open>encodeValue\<close> and its two loops; the set of ancestors is represented by the
  \<open>JBackref\<close> leaves of the value. Skipping undefined properties inside the loop instead of
  filtering them first has the same effects.

  A read operation of \<^verbatim>\<open>CborReader\<close> takes the bytes from the reader's offset on and returns the
  value and the bytes left. \<open>read_major\<close> is the \<^verbatim>\<open>switch\<close> of
  \<^verbatim>\<open>readItem\<close>, \<open>read_items\<close> and \<open>read_pairs\<close> are its loops, all given the recursive call.
\<close>

subsection \<open>Options\<close>

definition UINT32_BASE :: nat where "UINT32_BASE = 0x100000000"
definition CBOR_MAX_UINT32 :: int where "CBOR_MAX_UINT32 = 0xffffffff"
definition MAX_CONFIGURED_DEPTH :: int where "MAX_CONFIGURED_DEPTH = 512"
definition DEFAULT_MAX_CBOR_BYTE_LENGTH :: int where "DEFAULT_MAX_CBOR_BYTE_LENGTH = 16 * 1024 * 1024"
definition DEFAULT_MAX_CBOR_CONTAINER_LENGTH :: int where "DEFAULT_MAX_CBOR_CONTAINER_LENGTH = 1000000"
definition DEFAULT_MAX_CBOR_DEPTH :: int where "DEFAULT_MAX_CBOR_DEPTH = 64"

datatype cbor_error =
    CborRangeError                 \<comment> \<open>\<^verbatim>\<open>RangeError\<close>: a limit outside its range\<close>
  | CborTooLong nat                \<comment> \<open>the byte length exceeds the configured limit\<close>
  | CborStringTooLong nat          \<comment> \<open>a text or byte string exceeds the configured limit\<close>
  | CborContainerTooLong nat       \<comment> \<open>an array or a map exceeds the configured limit\<close>
  | CborTooDeep nat
  | CborNotFinite
  | CborUnsafeInteger
  | CborCycle
  | CborHole
  | CborKeyNotString
  | CborDuplicateKey
  | CborBadText
  | CborUnsupported
  | CborIndefinite
  | CborMalformed
  | CborTags
  | CborBreak
  | CborBadSimple
  | CborTruncated
  | CborTrailing

record cbor_options =
  opt_maxByteLength :: "int option"
  opt_maxContainerLength :: "int option"
  opt_maxDepth :: "int option"

record resolved_options =
  maxByteLength :: nat
  maxContainerLength :: nat
  maxDepth :: nat

definition resolveLimit :: "int \<Rightarrow> int \<Rightarrow> cbor_error + nat" where
  "resolveLimit v maximum = (if v < 0 \<or> v > maximum then Inl CborRangeError else Inr (nat v))"

definition or_default :: "'a option \<Rightarrow> 'a \<Rightarrow> 'a" where
  "or_default x d = (case x of None \<Rightarrow> d | Some y \<Rightarrow> y)"

definition resolveOptions :: "cbor_options \<Rightarrow> cbor_error + resolved_options" where
  "resolveOptions options =
     andThen (resolveLimit (or_default (opt_maxByteLength options) DEFAULT_MAX_CBOR_BYTE_LENGTH) CBOR_MAX_UINT32)
       (\<lambda>byteLength.
     andThen (resolveLimit (or_default (opt_maxContainerLength options) DEFAULT_MAX_CBOR_CONTAINER_LENGTH)
         CBOR_MAX_UINT32) (\<lambda>containerLength.
     andThen (resolveLimit (or_default (opt_maxDepth options) DEFAULT_MAX_CBOR_DEPTH) MAX_CONFIGURED_DEPTH)
       (\<lambda>depth.
     Inr \<lparr>maxByteLength = byteLength, maxContainerLength = containerLength, maxDepth = depth\<rparr>)))"

subsection \<open>The writer\<close>

record cbor_writer =
  buffer :: "byte list"
  offset :: nat
  byteLimit :: nat

definition new_writer :: "nat \<Rightarrow> cbor_writer" where
  "new_writer limit = \<lparr>buffer = replicate (min 256 limit) 0, offset = 0, byteLimit = limit\<rparr>"

definition grow_capacity :: "nat \<Rightarrow> nat \<Rightarrow> nat \<Rightarrow> nat" where
  "grow_capacity limit required =
     while (\<lambda>capacity. capacity < required) (\<lambda>capacity. min limit (max required (capacity * 2)))"

definition ensureCapacity :: "cbor_writer \<Rightarrow> nat \<Rightarrow> cbor_error + cbor_writer" where
  "ensureCapacity w additionalBytes =
     (let required = offset w + additionalBytes in
      if required > byteLimit w then Inl (CborTooLong (byteLimit w))
      else if required \<le> length (buffer w) then Inr w
      else let capacity = grow_capacity (byteLimit w) required (max 1 (length (buffer w)))
           in Inr (w\<lparr>buffer := array_set (replicate capacity 0) (buffer w) 0\<rparr>))"

definition writeByte :: "cbor_writer \<Rightarrow> nat \<Rightarrow> cbor_error + cbor_writer" where
  "writeByte w v = andThen (ensureCapacity w 1) (\<lambda>w.
     Inr (w\<lparr>buffer := (buffer w)[offset w := of_nat v], offset := offset w + 1\<rparr>))"

definition writeBytes :: "cbor_writer \<Rightarrow> byte list \<Rightarrow> cbor_error + cbor_writer" where
  "writeBytes w bytes = andThen (ensureCapacity w (length bytes)) (\<lambda>w.
     Inr (w\<lparr>buffer := array_set (buffer w) bytes (offset w), offset := offset w + length bytes\<rparr>))"

definition writeUint16 :: "cbor_writer \<Rightarrow> nat \<Rightarrow> cbor_error + cbor_writer" where
  "writeUint16 w v = andThen (ensureCapacity w 2) (\<lambda>w.
     Inr (w\<lparr>buffer := (buffer w)[offset w := of_nat (js_ushr v 8), offset w + 1 := of_nat v],
           offset := offset w + 2\<rparr>))"

definition writeUint32 :: "cbor_writer \<Rightarrow> nat \<Rightarrow> cbor_error + cbor_writer" where
  "writeUint32 w v = andThen (ensureCapacity w 4) (\<lambda>w.
     Inr (w\<lparr>buffer := (buffer w)[offset w := of_nat (js_ushr v 24), offset w + 1 := of_nat (js_ushr v 16),
             offset w + 2 := of_nat (js_ushr v 8), offset w + 3 := of_nat v],
           offset := offset w + 4\<rparr>))"

definition writeUint64 :: "cbor_writer \<Rightarrow> nat \<Rightarrow> cbor_error + cbor_writer" where
  "writeUint64 w v =
     (let high = v div UINT32_BASE; low = v - high * UINT32_BASE
      in andThen (writeUint32 w high) (\<lambda>w. writeUint32 w low))"

definition be_bytes64 :: "64 word \<Rightarrow> byte list" where
  "be_bytes64 b = map (\<lambda>i. ucast (drop_bit (56 - 8 * i) b)) [0, 1, 2, 3, 4, 5, 6, 7]"

definition writeFloat64 :: "cbor_writer \<Rightarrow> 64 word \<Rightarrow> cbor_error + cbor_writer" where
  "writeFloat64 w bits = andThen (ensureCapacity w 9) (\<lambda>w.
     Inr (w\<lparr>buffer := array_set ((buffer w)[offset w := 0xfb]) (be_bytes64 bits) (offset w + 1),
           offset := offset w + 9\<rparr>))"

definition finish :: "cbor_writer \<Rightarrow> byte list" where
  "finish w = take (offset w) (buffer w)"

definition writeArgument :: "cbor_writer \<Rightarrow> nat \<Rightarrow> nat \<Rightarrow> cbor_error + cbor_writer" where
  "writeArgument w majorType v =
     (let prefix = push_bit 5 majorType in
      if v < 24 then writeByte w (or prefix v)
      else if v \<le> 0xff then andThen (writeByte w (or prefix 24)) (\<lambda>w. writeByte w v)
      else if v \<le> 0xffff then andThen (writeByte w (or prefix 25)) (\<lambda>w. writeUint16 w v)
      else if v \<le> nat CBOR_MAX_UINT32 then andThen (writeByte w (or prefix 26)) (\<lambda>w. writeUint32 w v)
      else andThen (writeByte w (or prefix 27)) (\<lambda>w. writeUint64 w v))"

subsection \<open>Encoding\<close>

definition encodeText :: "cbor_writer \<Rightarrow> js_string \<Rightarrow> resolved_options \<Rightarrow> cbor_error + cbor_writer" where
  "encodeText w s options =
     (let bytes = text_encode s in
      if length bytes > maxByteLength options then Inl (CborStringTooLong (maxByteLength options))
      else if text_decode bytes \<noteq> Some s then Inl CborBadText
      else andThen (writeArgument w 3 (length bytes)) (\<lambda>w. writeBytes w bytes))"

definition encode_number :: "cbor_writer \<Rightarrow> js_number \<Rightarrow> cbor_error + cbor_writer" where
  "encode_number w n =
     (case n of
        NonFinite \<Rightarrow> Inl CborNotFinite
      | Integral i \<Rightarrow>
          if \<not> is_safe_integer i then Inl CborUnsafeInteger
          else if 0 \<le> i then writeArgument w 0 (nat i)
          else writeArgument w 1 (nat (-1 - i))
      | NegativeZero \<Rightarrow> writeFloat64 w negative_zero_bits
      | Fractional bits \<Rightarrow> writeFloat64 w bits)"

definition defined_entries :: "(js_string \<times> js_value) list \<Rightarrow> (js_string \<times> js_value) list" where
  "defined_entries es = filter (\<lambda>(k, v). v \<noteq> JUndefined) es"

fun encode_value :: "resolved_options \<Rightarrow> cbor_writer \<Rightarrow> js_value \<Rightarrow> nat \<Rightarrow> cbor_error + cbor_writer"
  and encode_items :: "resolved_options \<Rightarrow> cbor_writer \<Rightarrow> js_value list \<Rightarrow> nat \<Rightarrow> cbor_error + cbor_writer"
  and encode_entries :: "resolved_options \<Rightarrow> cbor_writer \<Rightarrow> (js_string \<times> js_value) list \<Rightarrow> nat \<Rightarrow>
    cbor_error + cbor_writer"
where
  "encode_value options w v depth =
     (if depth > maxDepth options then Inl (CborTooDeep (maxDepth options))
      else case v of
        JNull \<Rightarrow> writeByte w 0xf6
      | JBool b \<Rightarrow> writeByte w (if b then 0xf5 else 0xf4)
      | JNumber n \<Rightarrow> encode_number w n
      | JString s \<Rightarrow> encodeText w s options
      | JBytes bytes \<Rightarrow>
          if length bytes > maxByteLength options then Inl (CborStringTooLong (maxByteLength options))
          else andThen (writeArgument w 2 (length bytes)) (\<lambda>w. writeBytes w bytes)
      | JBackref \<Rightarrow> Inl CborCycle
      | JArray vs \<Rightarrow>
          if length vs > maxContainerLength options then Inl (CborContainerTooLong (maxContainerLength options))
          else andThen (writeArgument w 4 (length vs)) (\<lambda>w. encode_items options w vs (depth + 1))
      | JObject shape es \<Rightarrow>
          if shape = SymbolKeyed then Inl CborKeyNotString
          else let n = length (defined_entries es) in
            if n > maxContainerLength options then Inl (CborContainerTooLong (maxContainerLength options))
            else andThen (writeArgument w 5 n) (\<lambda>w. encode_entries options w es (depth + 1))
      | JUndefined \<Rightarrow> Inl CborUnsupported
      | JUnsupported \<Rightarrow> Inl CborUnsupported)"
| "encode_items options w [] depth = Inr w"
| "encode_items options w (v # vs) depth =
     (if v = JUndefined then Inl CborHole
      else andThen (encode_value options w v depth) (\<lambda>w. encode_items options w vs depth))"
| "encode_entries options w [] depth = Inr w"
| "encode_entries options w ((k, v) # es) depth =
     (if v = JUndefined then encode_entries options w es depth
      else andThen (encodeText w k options) (\<lambda>w.
        andThen (encode_value options w v depth) (\<lambda>w. encode_entries options w es depth)))"

definition encodeCbor :: "js_value \<Rightarrow> cbor_options \<Rightarrow> cbor_error + byte list" where
  "encodeCbor v options =
     andThen (resolveOptions options) (\<lambda>resolved.
     andThen (encode_value resolved (new_writer (maxByteLength resolved)) v 0) (\<lambda>w. Inr (finish w)))"

subsection \<open>Decoding\<close>

type_synonym 'a reader = "byte list \<Rightarrow> cbor_error + ('a \<times> byte list)"

definition readByte :: "nat reader" where
  "readByte bs = (case bs of [] \<Rightarrow> Inl CborTruncated | b # rest \<Rightarrow> Inr (unat b, rest))"

definition readBytes :: "nat \<Rightarrow> byte list reader" where
  "readBytes n bs = (if n > length bs then Inl CborTruncated else Inr (take n bs, drop n bs))"

definition read_uint32 :: "nat reader" where
  "read_uint32 bs = andThen (readBytes 4 bs) (\<lambda>(bytes, bs). Inr (be_value32 bytes, bs))"

definition readArgument :: "nat \<Rightarrow> nat reader" where
  "readArgument info bs =
     (if info < 24 then Inr (info, bs)
      else if info = 24 then readByte bs
      else if info = 25
      then andThen (readBytes 2 bs) (\<lambda>(bytes, bs). Inr (unat (bytes ! 0) * 0x100 + unat (bytes ! 1), bs))
      else if info = 26 then read_uint32 bs
      else if info = 27
      then andThen (read_uint32 bs) (\<lambda>(high, bs). andThen (read_uint32 bs) (\<lambda>(low, bs).
             if high > 0x1fffff then Inl CborUnsafeInteger else Inr (high * UINT32_BASE + low, bs)))
      else if info = 31 then Inl CborIndefinite
      else Inl CborMalformed)"

definition readLength :: "nat \<Rightarrow> nat \<Rightarrow> cbor_error \<Rightarrow> nat reader" where
  "readLength info limit err bs =
     (if info = 31 then Inl CborIndefinite
      else andThen (readArgument info bs) (\<lambda>(n, bs). if n > limit then Inl err else Inr (n, bs)))"

definition be_word64 :: "byte list \<Rightarrow> 64 word" where
  "be_word64 bytes = foldl (\<lambda>x b. or (push_bit 8 x) (ucast b)) 0 bytes"

definition readSimple :: "nat \<Rightarrow> js_value reader" where
  "readSimple info bs =
     (if info = 20 then Inr (JBool False, bs)
      else if info = 21 then Inr (JBool True, bs)
      else if info = 22 then Inr (JNull, bs)
      else if info = 27
      then andThen (readBytes 8 bs) (\<lambda>(bytes, bs).
             case number_of_bits (be_word64 bytes) of
               NonFinite \<Rightarrow> Inl CborNotFinite
             | Integral i \<Rightarrow> if is_safe_integer i then Inr (JNumber (Integral i), bs) else Inl CborUnsafeInteger
             | n \<Rightarrow> Inr (JNumber n, bs))
      else if info = 31 then Inl CborBreak
      else Inl CborBadSimple)"

fun read_items :: "js_value reader \<Rightarrow> nat \<Rightarrow> js_value list reader" where
  "read_items item 0 bs = Inr ([], bs)"
| "read_items item (Suc n) bs =
     andThen (item bs) (\<lambda>(v, bs). andThen (read_items item n bs) (\<lambda>(vs, bs). Inr (v # vs, bs)))"

fun read_pairs :: "js_value reader \<Rightarrow> nat \<Rightarrow> js_string list \<Rightarrow> (js_string \<times> js_value) list \<Rightarrow>
    (js_string \<times> js_value) list reader" where
  "read_pairs item 0 keys result bs = Inr (result, bs)"
| "read_pairs item (Suc n) keys result bs =
     andThen (item bs) (\<lambda>(key, bs).
       case key of
         JString k \<Rightarrow>
           if k \<in> set keys then Inl CborDuplicateKey
           else andThen (item bs) (\<lambda>(v, bs). read_pairs item n (keys @ [k]) (define_property k v result) bs)
       | _ \<Rightarrow> Inl CborKeyNotString)"

definition read_major :: "resolved_options \<Rightarrow> js_value reader \<Rightarrow> nat \<Rightarrow> nat \<Rightarrow> js_value reader" where
  "read_major options item majorType info bs =
     (if majorType = 0 then andThen (readArgument info bs) (\<lambda>(n, bs). Inr (JNumber (Integral (int n)), bs))
      else if majorType = 1
      then andThen (readArgument info bs) (\<lambda>(n, bs).
             if is_safe_integer (-1 - int n) then Inr (JNumber (Integral (-1 - int n)), bs)
             else Inl CborUnsafeInteger)
      else if majorType = 2
      then andThen (readLength info (maxByteLength options) (CborStringTooLong (maxByteLength options)) bs)
             (\<lambda>(n, bs). andThen (readBytes n bs) (\<lambda>(bytes, bs). Inr (JBytes bytes, bs)))
      else if majorType = 3
      then andThen (readLength info (maxByteLength options) (CborStringTooLong (maxByteLength options)) bs)
             (\<lambda>(n, bs). andThen (readBytes n bs) (\<lambda>(bytes, bs).
               case text_decode bytes of None \<Rightarrow> Inl CborBadText | Some s \<Rightarrow> Inr (JString s, bs)))
      else if majorType = 4
      then andThen (readLength info (maxContainerLength options)
               (CborContainerTooLong (maxContainerLength options)) bs)
             (\<lambda>(n, bs). andThen (read_items item n bs) (\<lambda>(vs, bs). Inr (JArray vs, bs)))
      else if majorType = 5
      then andThen (readLength info (maxContainerLength options)
               (CborContainerTooLong (maxContainerLength options)) bs)
             (\<lambda>(n, bs). andThen (read_pairs item n [] [] bs) (\<lambda>(es, bs). Inr (JObject Ordinary es, bs)))
      else if majorType = 6 then Inl CborTags
      else if majorType = 7 then readSimple info bs
      else Inl CborMalformed)"

function (sequential) readItem :: "resolved_options \<Rightarrow> nat \<Rightarrow> js_value reader" where
  "readItem options depth bs =
     (if depth > maxDepth options then Inl (CborTooDeep (maxDepth options))
      else andThen (readByte bs) (\<lambda>(initial, bs).
        read_major options (\<lambda>bs. readItem options (depth + 1) bs) (js_ushr initial 5) (and initial 0x1f) bs))"
  by pat_completeness auto
termination
  by (relation "measure (\<lambda>(options, depth, bs). maxDepth options + 1 - depth)") auto

declare readItem.simps [simp del] encode_value.simps [simp del]

definition decodeCbor :: "byte list \<Rightarrow> cbor_options \<Rightarrow> cbor_error + js_value" where
  "decodeCbor bs options =
     andThen (resolveOptions options) (\<lambda>resolved.
       if length bs > maxByteLength resolved then Inl (CborTooLong (maxByteLength resolved))
       else andThen (readItem resolved 0 bs) (\<lambda>(v, rest).
         if rest \<noteq> [] then Inl CborTrailing else Inr v))"

subsection \<open>The writer appends\<close>

definition writer_ok :: "cbor_writer \<Rightarrow> bool" where
  "writer_ok w \<longleftrightarrow> offset w \<le> length (buffer w) \<and> length (buffer w) \<le> byteLimit w"

definition appends :: "cbor_writer \<Rightarrow> byte list \<Rightarrow> cbor_error + cbor_writer \<Rightarrow> bool" where
  "appends w bs r \<longleftrightarrow>
     (if offset w + length bs > byteLimit w then r = Inl (CborTooLong (byteLimit w))
      else \<exists>w'. r = Inr w' \<and> writer_ok w' \<and> byteLimit w' = byteLimit w \<and> finish w' = finish w @ bs \<and>
             offset w' = offset w + length bs)"

lemma grow_capacity:
  assumes "1 \<le> c" and "required \<le> limit"
  shows "grow_capacity limit required c = (if c < required then min limit (max required (c * 2)) else c)"
  using assms unfolding grow_capacity_def by (auto simp: while_unfold [where s = c]) (subst while_unfold, auto)

lemma ensureCapacity:
  assumes "writer_ok w" and "offset w + n \<le> byteLimit w"
  obtains w' where "ensureCapacity w n = Inr w'" and "offset w' = offset w" and "byteLimit w' = byteLimit w"
    and "offset w + n \<le> length (buffer w')" and "length (buffer w') \<le> byteLimit w" and "finish w' = finish w"
proof (cases "offset w + n \<le> length (buffer w)")
  case True
  with assms that show ?thesis by (simp add: ensureCapacity_def writer_ok_def)
next
  case False
  define c where "c = grow_capacity (byteLimit w) (offset w + n) (max 1 (length (buffer w)))"
  have c: "offset w + n \<le> c" "c \<le> byteLimit w" "length (buffer w) \<le> c"
    using assms False by (auto simp: c_def grow_capacity writer_ok_def)
  have "take (offset w) (array_set (replicate c 0) (buffer w) 0) = finish w"
    using assms by (simp add: array_set_def finish_def writer_ok_def)
  moreover have "ensureCapacity w n = Inr (w\<lparr>buffer := array_set (replicate c 0) (buffer w) 0\<rparr>)"
    using False assms(2) by (simp add: ensureCapacity_def Let_def c_def)
  ultimately show ?thesis using that c by (simp add: finish_def)
qed

lemma appends_write:
  assumes "writer_ok w" and "n = length bs"
    and "\<And>w'. offset w' = offset w \<Longrightarrow> offset w + n \<le> length (buffer w') \<Longrightarrow>
      \<exists>buf. store w' = w'\<lparr>buffer := buf, offset := offset w + n\<rparr> \<and> length buf = length (buffer w') \<and>
        take (offset w + n) buf = take (offset w) (buffer w') @ bs"
  shows "appends w bs (andThen (ensureCapacity w n) (\<lambda>w. Inr (store w)))"
proof (cases "offset w + n \<le> byteLimit w")
  case True
  from ensureCapacity [OF assms(1) True] obtain w' where
    w': "ensureCapacity w n = Inr w'" "offset w' = offset w" "byteLimit w' = byteLimit w"
      "offset w + n \<le> length (buffer w')" "length (buffer w') \<le> byteLimit w" "finish w' = finish w" .
  from assms(3) [OF w'(2,4)] w' True assms(2) show ?thesis
    by (auto simp: appends_def writer_ok_def finish_def)
next
  case False
  then show ?thesis using assms(2) by (simp add: ensureCapacity_def appends_def)
qed

lemma appends_writeByte: "writer_ok w \<Longrightarrow> appends w [of_nat v] (writeByte w v)"
  unfolding writeByte_def
  by (rule appends_write) (auto simp: take_Suc_conv_app_nth)

lemma appends_writeBytes: "writer_ok w \<Longrightarrow> appends w bs (writeBytes w bs)"
  unfolding writeBytes_def by (rule appends_write) auto

lemma appends_writeUint16:
  "writer_ok w \<Longrightarrow> appends w [of_nat (js_ushr v 8), of_nat v] (writeUint16 w v)"
  unfolding writeUint16_def
  by (rule appends_write) (auto simp: take_Suc_conv_app_nth)

lemma appends_writeUint32: "writer_ok w \<Longrightarrow> appends w (be_bytes32 v) (writeUint32 w v)"
  unfolding writeUint32_def be_bytes32_def
  by (rule appends_write) (auto simp: take_Suc_conv_app_nth numeral_eq_Suc)

lemma length_be_bytes64 [simp]: "length (be_bytes64 b) = 8"
  by (simp add: be_bytes64_def)

lemma appends_writeFloat64: "writer_ok w \<Longrightarrow> appends w (0xfb # be_bytes64 b) (writeFloat64 w b)"
  unfolding writeFloat64_def
  by (rule appends_write)
    (auto simp: array_set_def take_Suc_conv_app_nth intro!: exI)

lemma appends_andThen:
  assumes "appends w bs r"
    and "\<And>w'. writer_ok w' \<Longrightarrow> appends w' cs (f w')"
  shows "appends w (bs @ cs) (andThen r f)"
proof (cases "offset w + length bs > byteLimit w")
  case True
  with assms(1) show ?thesis by (simp add: appends_def)
next
  case False
  with assms(1) obtain w' where w': "r = Inr w'" "writer_ok w'" "byteLimit w' = byteLimit w"
    "finish w' = finish w @ bs" "offset w' = offset w + length bs"
    by (auto simp: appends_def)
  from assms(2) [OF w'(2)] w' show ?thesis by (auto simp: appends_def split: if_splits)
qed

definition argument_bytes :: "nat \<Rightarrow> nat \<Rightarrow> byte list" where
  "argument_bytes m v =
     (let p = 32 * m in
      if v < 24 then [of_nat (p + v)]
      else if v \<le> 0xff then [of_nat (p + 24), of_nat v]
      else if v \<le> 0xffff then [of_nat (p + 25), of_nat (js_ushr v 8), of_nat v]
      else if v \<le> 0xffffffff then of_nat (p + 26) # be_bytes32 v
      else of_nat (p + 27) # be_bytes32 (v div UINT32_BASE) @ be_bytes32 (v mod UINT32_BASE))"

lemma or_prefix: "i < 32 \<Longrightarrow> or (push_bit 5 m) i = 32 * m + (i :: nat)"
proof -
  assume i: "i < 32"
  have "\<not> bit (push_bit 5 m) n \<or> \<not> bit i n" for n
  proof (cases "n < 5")
    case True
    then show ?thesis by (simp add: bit_push_bit_iff)
  next
    case False
    then have "i < 2 ^ n" using i power_increasing [of 5 n "2 :: nat"] by simp
    then show ?thesis by (simp add: bit_iff_odd)
  qed
  from disjunctive_add [OF this] show ?thesis by (simp add: push_bit_eq_mult)
qed

lemma appends_writeArgument: "writer_ok w \<Longrightarrow> appends w (argument_bytes m v) (writeArgument w m v)"
proof -
  assume w: "writer_ok w"
  have u64: "writer_ok w \<Longrightarrow> appends w (be_bytes32 (v div UINT32_BASE) @ be_bytes32 (v mod UINT32_BASE))
      (writeUint64 w v)" for w
    unfolding writeUint64_def Let_def minus_div_mult_eq_mod
    by (intro appends_andThen appends_writeUint32)
  note step = appends_andThen [OF appends_writeByte [OF w], simplified append_Cons append_Nil]
  show ?thesis
    using appends_writeByte [OF w] step [OF appends_writeByte] step [OF appends_writeUint16]
      step [OF appends_writeUint32] step [OF u64]
    by (simp add: writeArgument_def argument_bytes_def or_prefix CBOR_MAX_UINT32_def Let_def
        del: of_nat_add of_nat_mult)
qed

subsection \<open>Reading back what was written\<close>

lemma js_ushr_lt: "n < 2 ^ 32 \<Longrightarrow> js_ushr n k = n div 2 ^ k"
  by (simp add: js_ushr_def take_bit_eq_mod drop_bit_eq_div)

lemma and_31: "and n 31 = n mod (32 :: nat)"
  using take_bit_eq_mask [of 5 n] by (simp add: take_bit_eq_mod mask_eq_exp_minus_1)

lemma readBytes_append: "n = length xs \<Longrightarrow> readBytes n (xs @ bs) = Inr (xs, bs)"
  by (simp add: readBytes_def)

lemma read_uint32_append: "n < 2 ^ 32 \<Longrightarrow> read_uint32 (be_bytes32 n @ bs) = Inr (n, bs)"
  by (simp add: read_uint32_def readBytes_append)

lemma read_uint16_append:
  "n \<le> 0xffff \<Longrightarrow> readArgument 25 (of_nat (js_ushr n 8) # of_nat n # bs) = Inr (n, bs)"
proof -
  assume n: "n \<le> 0xffff"
  then have "n div 256 < 256" by (simp add: less_mult_imp_div_less)
  then have "n div 256 mod 256 * 256 + n mod 256 = n" by simp
  with n show ?thesis by (simp add: readArgument_def readBytes_def js_ushr_lt unat_byte_of_nat)
qed

lemma read_argument_bytes:
  assumes "v < 2 ^ 53" and "m < 8"
  obtains p info rest where "argument_bytes m v = of_nat p # rest" and "p = 32 * m + info" and "info < 28"
    and "\<forall>bs. readArgument info (rest @ bs) = Inr (v, bs)"
proof -
  consider "v < 24" | "24 \<le> v" "v \<le> 0xff" | "0xff < v" "v \<le> 0xffff" | "0xffff < v" "v \<le> 0xffffffff"
    | "0xffffffff < v" by linarith
  then show thesis
  proof cases
    case 1
    with that [of "32 * m + v" "[]" v] show thesis by (simp add: argument_bytes_def readArgument_def)
  next
    case 2
    with that [of "32 * m + 24" "[of_nat v]" 24] show thesis
      by (simp add: argument_bytes_def readArgument_def readByte_def unat_byte_of_nat)
  next
    case 3
    with that [of "32 * m + 25" "[of_nat (js_ushr v 8), of_nat v]" 25] show thesis
      by (simp add: argument_bytes_def read_uint16_append)
  next
    case 4
    with that [of "32 * m + 26" "be_bytes32 v" 26] show thesis
      by (simp add: argument_bytes_def readArgument_def read_uint32_append)
  next
    case 5
    have hi: "v div UINT32_BASE \<le> 0x1fffff"
      using assms(1) less_mult_imp_div_less [of v "0x200000" UINT32_BASE] by (simp add: UINT32_BASE_def)
    have lo: "v mod UINT32_BASE < 2 ^ 32" by (simp add: UINT32_BASE_def)
    have v: "v div UINT32_BASE * UINT32_BASE + v mod UINT32_BASE = v" by simp
    from 5 that [of "32 * m + 27" "be_bytes32 (v div UINT32_BASE) @ be_bytes32 (v mod UINT32_BASE)" 27] hi lo v
    show thesis by (simp add: argument_bytes_def readArgument_def read_uint32_append)
  qed
qed

lemma next_byte:
  "or (push_bit 8 (drop_bit (k + 8) b)) (ucast (ucast (drop_bit k b) :: byte)) = drop_bit k (b :: 64 word)"
proof (rule bit_word_eqI)
  fix n assume "n < LENGTH(64)"
  then show "bit (or (push_bit 8 (drop_bit (k + 8) b)) (ucast (ucast (drop_bit k b) :: byte))) n = bit (drop_bit k b) n"
    by (cases "n < 8") (auto simp: bit_or_iff bit_push_bit_iff bit_ucast_iff bit_drop_bit_eq not_less ac_simps
        dest!: le_Suc_ex)
qed

lemma be_word64_bytes: "be_word64 (be_bytes64 b) = b"
proof -
  have top: "drop_bit 64 b = 0"
    by (rule bit_word_eqI) (simp add: bit_drop_bit_eq)
  show ?thesis
    using next_byte [of 56 b] next_byte [of 48 b] next_byte [of 40 b] next_byte [of 32 b]
      next_byte [of 24 b] next_byte [of 16 b] next_byte [of 8 b] next_byte [of 0 b]
    by (simp add: be_word64_def be_bytes64_def top del: bit_push_bit_iff push_bit_of_0)
qed

lemma set_defined_entries: "set (defined_entries es) \<subseteq> set es"
  by (auto simp: defined_entries_def)

lemma size_defined_entry [termination_simp]:
  "(k, v) \<in> set (defined_entries es) \<Longrightarrow> size v < Suc (size_list (\<lambda>x. Suc (size (snd x))) es)"
  by (rule le_imp_less_Suc, rule size_list_estimation' [of "(k, v)"]) (simp_all add: defined_entries_def)

fun proper :: "js_value \<Rightarrow> bool" where
  "proper (JNumber n) \<longleftrightarrow> proper_number n"
| "proper (JArray vs) \<longleftrightarrow> list_all proper vs"
| "proper (JObject shape es) \<longleftrightarrow> ordered_keys (map fst es) \<and> list_all (\<lambda>(k, v). proper v) es"
| "proper _ \<longleftrightarrow> True"

fun stored :: "js_value \<Rightarrow> js_value" where
  "stored (JArray vs) = JArray (map stored vs)"
| "stored (JObject shape es) = JObject Ordinary (map (\<lambda>(k, v). (k, stored v)) (defined_entries es))"
| "stored v = v"

lemma readItem_argument:
  assumes "depth \<le> maxDepth options" and "v < 2 ^ 53" and "m < 8"
  obtains info rest where "info \<noteq> 31" and "\<forall>bs. readArgument info (rest @ bs) = Inr (v, bs)"
    and "\<forall>bs. readItem options depth (argument_bytes m v @ bs) =
      read_major options (readItem options (depth + 1)) m info (rest @ bs)"
proof -
  obtain p info rest where a: "argument_bytes m v = of_nat p # rest" "p = 32 * m + info" "info < 28"
    and r: "\<forall>bs. readArgument info (rest @ bs) = Inr (v, bs)"
    by (rule read_argument_bytes [OF assms(2,3)]) simp
  have p: "unat (of_nat p :: byte) = p" "js_ushr p 5 = m" "and p 31 = info"
  proof -
    have "p < 256" "p div 32 = m" unfolding a(2) using a(3) assms(3) by linarith+
    moreover have "p mod 32 = info" unfolding a(2) using a(3) by simp
    ultimately show "unat (of_nat p :: byte) = p" "js_ushr p 5 = m" "and p 31 = info"
      unfolding and_31 unat_byte_of_nat by (simp_all add: js_ushr_lt)
  qed
  show thesis
  proof (rule that [OF _ r])
    show "info \<noteq> 31" using a(3) by simp
    show "\<forall>bs. readItem options depth (argument_bytes m v @ bs) =
      read_major options (readItem options (depth + 1)) m info (rest @ bs)"
      using assms(1) unfolding readItem.simps [of options depth] readByte_def a(1) append_Cons list.case
        andThen_simps prod.case p by simp
  qed
qed

definition emits :: "cbor_writer \<Rightarrow> byte list \<Rightarrow> cbor_writer \<Rightarrow> bool" where
  "emits w bs w' \<longleftrightarrow> writer_ok w' \<and> byteLimit w' = byteLimit w \<and> finish w' = finish w @ bs"

lemma emits_appends: "appends w bs (Inr w') \<Longrightarrow> emits w bs w'"
  by (auto simp: appends_def emits_def split: if_splits)

lemma emits_trans: "emits w bs w' \<Longrightarrow> emits w' cs w'' \<Longrightarrow> emits w (bs @ cs) w''"
  by (simp add: emits_def)

lemma encodeText_emits:
  assumes "encodeText w s options = Inr w'" and "writer_ok w"
  shows "emits w (argument_bytes 3 (length (text_encode s)) @ text_encode s) w'"
    and "length (text_encode s) \<le> maxByteLength options" and "text_decode (text_encode s) = Some s"
proof -
  have "appends w (argument_bytes 3 (length (text_encode s)) @ text_encode s)
      (andThen (writeArgument w 3 (length (text_encode s))) (\<lambda>w. writeBytes w (text_encode s)))"
    by (intro appends_andThen appends_writeArgument appends_writeBytes assms)
  with assms show "emits w (argument_bytes 3 (length (text_encode s)) @ text_encode s) w'"
    "length (text_encode s) \<le> maxByteLength options" "text_decode (text_encode s) = Some s"
    by (auto simp: encodeText_def Let_def emits_appends split: if_splits)
qed

definition limits_ok :: "resolved_options \<Rightarrow> bool" where
  "limits_ok options \<longleftrightarrow> maxByteLength options < 2 ^ 32 \<and> maxContainerLength options < 2 ^ 32"

lemma read_text:
  assumes "limits_ok options" and "depth \<le> maxDepth options"
    and "length (text_encode s) \<le> maxByteLength options" and "text_decode (text_encode s) = Some s"
  shows "readItem options depth (argument_bytes 3 (length (text_encode s)) @ text_encode s @ rest) =
    Inr (JString s, rest)"
proof -
  have "length (text_encode s) < 2 ^ 53" using assms(1,3) by (simp add: limits_ok_def)
  then obtain info rest0 where
    "info \<noteq> 31" "\<forall>bs. readArgument info (rest0 @ bs) = Inr (length (text_encode s), bs)"
    "\<forall>bs. readItem options depth (argument_bytes 3 (length (text_encode s)) @ bs) =
      read_major options (readItem options (depth + 1)) 3 info (rest0 @ bs)"
    using readItem_argument [OF assms(2), of _ 3] by auto
  with assms(3,4) show ?thesis by (simp add: read_major_def readLength_def readBytes_append)
qed

lemma read_double:
  assumes "depth \<le> maxDepth options" and "number_of_bits b = n" and "n \<noteq> NonFinite" and "\<nexists>i. n = Integral i"
  shows "readItem options depth (0xfb # be_bytes64 b @ rest) = Inr (JNumber n, rest)"
  using assms
  by (cases n) (simp_all add: readItem.simps [of options depth] readByte_def js_ushr_lt and_31 readSimple_def
      readBytes_append be_word64_bytes read_major_def)

lemma encode_number_roundtrip:
  assumes "encode_number w n = Inr w'" and "proper_number n" and "writer_ok w" and "depth \<le> maxDepth options"
  shows "\<exists>bs. emits w bs w' \<and> (\<forall>rest. readItem options depth (bs @ rest) = Inr (JNumber n, rest))"
proof (cases n)
  case (Integral i)
  then have safe: "is_safe_integer i" using assms(1) by (auto simp: encode_number_def split: if_splits)
  define m v where "m = (if 0 \<le> i then 0 else 1 :: nat)" and "v = (if 0 \<le> i then nat i else nat (-1 - i))"
  have "appends w (argument_bytes m v) (Inr w')"
    using assms(1) appends_writeArgument [OF assms(3), of m v] Integral safe
    by (auto simp: encode_number_def m_def v_def split: if_splits)
  moreover have "v < 2 ^ 53" using safe by (auto simp: v_def is_safe_integer_def MAX_SAFE_INTEGER_def)
  moreover have "m < 8" by (simp add: m_def)
  ultimately show ?thesis
  proof -
    obtain info rest0 where "info \<noteq> 31" and r: "\<forall>bs. readArgument info (rest0 @ bs) = Inr (v, bs)"
      "\<forall>bs. readItem options depth (argument_bytes m v @ bs) =
        read_major options (readItem options (depth + 1)) m info (rest0 @ bs)"
      using readItem_argument [OF assms(4) \<open>v < 2 ^ 53\<close> \<open>m < 8\<close>] by blast
    from r have "readItem options depth (argument_bytes m v @ rest) = Inr (JNumber n, rest)" for rest
      using safe Integral unfolding m_def v_def read_major_def by (cases "0 \<le> i") simp_all
    then show ?thesis using emits_appends [OF \<open>appends w (argument_bytes m v) (Inr w')\<close>] by blast
  qed
next
  case NegativeZero
  with assms appends_writeFloat64 [OF assms(3), of negative_zero_bits] show ?thesis
    by (intro exI [of _ "0xfb # be_bytes64 negative_zero_bits"])
      (simp add: encode_number_def emits_appends read_double number_of_negative_zero)
next
  case (Fractional b)
  with assms appends_writeFloat64 [OF assms(3), of b] show ?thesis
    by (intro exI [of _ "0xfb # be_bytes64 b"]) (simp add: encode_number_def emits_appends read_double)
qed (use assms in \<open>simp add: encode_number_def\<close>)

subsection \<open>Values round trip\<close>

lemma ordered_keys_append: "ordered_keys (ks @ ls) \<Longrightarrow> ordered_keys ks"
  by (auto simp: ordered_keys_def sorted_wrt_append)

lemma ordered_keys_drop: "ordered_keys (ks @ k # ls) \<Longrightarrow> ordered_keys (ks @ ls)"
  by (auto simp: ordered_keys_def sorted_wrt_append)

lemma read_container:
  assumes "limits_ok options" and "depth \<le> maxDepth options" and "n \<le> maxContainerLength options"
  shows "readItem options depth (argument_bytes 4 n @ bs) =
      andThen (read_items (readItem options (depth + 1)) n bs) (\<lambda>(vs, bs). Inr (JArray vs, bs))"
    and "readItem options depth (argument_bytes 5 n @ bs) =
      andThen (read_pairs (readItem options (depth + 1)) n [] [] bs) (\<lambda>(es, bs). Inr (JObject Ordinary es, bs))"
proof -
  have n: "n < 2 ^ 53" using assms(1,3) by (simp add: limits_ok_def)
  show "readItem options depth (argument_bytes 4 n @ bs) =
      andThen (read_items (readItem options (depth + 1)) n bs) (\<lambda>(vs, bs). Inr (JArray vs, bs))"
    by (rule readItem_argument [OF assms(2) n, of 4]) (use assms(3) in \<open>simp_all add: read_major_def readLength_def\<close>)
  show "readItem options depth (argument_bytes 5 n @ bs) =
      andThen (read_pairs (readItem options (depth + 1)) n [] [] bs) (\<lambda>(es, bs). Inr (JObject Ordinary es, bs))"
    by (rule readItem_argument [OF assms(2) n, of 5]) (use assms(3) in \<open>simp_all add: read_major_def readLength_def\<close>)
qed

lemma read_bytes_item:
  assumes "limits_ok options" and "depth \<le> maxDepth options" and "length bytes \<le> maxByteLength options"
  shows "readItem options depth (argument_bytes 2 (length bytes) @ bytes @ bs) = Inr (JBytes bytes, bs)"
proof -
  have n: "length bytes < 2 ^ 53" using assms(1,3) by (simp add: limits_ok_def)
  show ?thesis
    by (rule readItem_argument [OF assms(2) n, of 2])
      (use assms(3) in \<open>simp_all add: read_major_def readLength_def readBytes_append\<close>)
qed

lemma argument_emits:
  assumes "writeArgument w m v = Inr w'" and "writer_ok w"
  shows "emits w (argument_bytes m v) w'"
  using appends_writeArgument [OF assms(2), of m v] assms(1) by (simp add: emits_appends)

lemma encode_value_leaf:
  assumes "encode_value options w v depth = Inr w'" and "writer_ok w" and "limits_ok options" and "proper v"
    and "\<nexists>vs. v = JArray vs" and "\<nexists>shape es. v = JObject shape es"
  shows "\<exists>bs. emits w bs w' \<and> (\<forall>rest. readItem options depth (bs @ rest) = Inr (stored v, rest))"
proof -
  have d: "depth \<le> maxDepth options" using assms(1) by (simp add: encode_value.simps split: if_splits)
  have simple: "emits w [of_nat b] w' \<and> readItem options depth ([of_nat b] @ rest) = Inr (v, rest)"
    if "writeByte w b = Inr w'" "b < 256" "read_major options (readItem options (depth + 1)) (js_ushr b 5) (and b 31) rest = Inr (v, rest)"
    for b v rest
    using that d appends_writeByte [OF assms(2), of b]
    by (simp add: emits_appends readItem.simps [of options depth] readByte_def unat_byte_of_nat)
  show ?thesis
  proof (cases v)
    case JNull
    with assms(1) d have "writeByte w 0xf6 = Inr w'" by (simp add: encode_value.simps)
    from simple [OF this] JNull show ?thesis
      by (intro exI [of _ "[of_nat 0xf6]"]) (simp add: read_major_def readSimple_def js_ushr_lt and_31)
  next
    case (JBool b)
    show ?thesis
    proof (cases b)
      case True
      with assms(1) d JBool have "writeByte w 0xf5 = Inr w'" by (simp add: encode_value.simps)
      from simple [OF this, of _ "JBool True"] JBool True show ?thesis
        by (intro exI [of _ "[of_nat 0xf5]"]) (simp add: read_major_def readSimple_def js_ushr_lt and_31)
    next
      case False
      with assms(1) d JBool have "writeByte w 0xf4 = Inr w'" by (simp add: encode_value.simps)
      from simple [OF this, of _ "JBool False"] JBool False show ?thesis
        by (intro exI [of _ "[of_nat 0xf4]"]) (simp add: read_major_def readSimple_def js_ushr_lt and_31)
    qed
  next
    case (JNumber n)
    with assms d encode_number_roundtrip [of w n w'] show ?thesis by (simp add: encode_value.simps)
  next
    case (JString s)
    with assms(1) d have "encodeText w s options = Inr w'" by (simp add: encode_value.simps)
    from encodeText_emits [OF this assms(2)] read_text [OF assms(3) d] JString show ?thesis
      by (intro exI [of _ "argument_bytes 3 (length (text_encode s)) @ text_encode s"]) simp
  next
    case (JBytes bytes)
    with assms(1) d have len: "length bytes \<le> maxByteLength options"
      and w: "andThen (writeArgument w 2 (length bytes)) (\<lambda>w. writeBytes w bytes) = Inr w'"
      by (simp_all add: encode_value.simps split: if_splits)
    have "appends w (argument_bytes 2 (length bytes) @ bytes) (Inr w')"
      unfolding w [symmetric] by (intro appends_andThen appends_writeArgument appends_writeBytes assms)
    with JBytes read_bytes_item [OF assms(3) d len] show ?thesis
      by (intro exI [of _ "argument_bytes 2 (length bytes) @ bytes"]) (simp add: emits_appends)
  qed (use assms d in \<open>auto simp: encode_value.simps\<close>)
qed

lemma encode_roundtrip:
  "encode_value options w v depth = Inr w' \<Longrightarrow> writer_ok w \<Longrightarrow> limits_ok options \<Longrightarrow> proper v \<Longrightarrow>
     \<exists>bs. emits w bs w' \<and> (\<forall>rest. readItem options depth (bs @ rest) = Inr (stored v, rest))"
  "encode_items options w vs depth = Inr w' \<Longrightarrow> writer_ok w \<Longrightarrow> limits_ok options \<Longrightarrow> list_all proper vs \<Longrightarrow>
     \<exists>bs. emits w bs w' \<and>
       (\<forall>rest. read_items (readItem options depth) (length vs) (bs @ rest) = Inr (map stored vs, rest))"
  "encode_entries options w es depth = Inr w' \<Longrightarrow> writer_ok w \<Longrightarrow> limits_ok options \<Longrightarrow>
     list_all (\<lambda>(k, v). proper v) es \<Longrightarrow>
     \<exists>bs. emits w bs w' \<and> (\<forall>rest keys result. map fst result = keys \<longrightarrow> ordered_keys (keys @ map fst es) \<longrightarrow>
       read_pairs (readItem options depth) (length (defined_entries es)) keys result (bs @ rest) =
         Inr (result @ map (\<lambda>(k, v). (k, stored v)) (defined_entries es), rest))"
proof (induction options w v depth and options w vs depth and options w es depth
    arbitrary: w' and w' and w' rule: encode_value_encode_items_encode_entries.induct)
  case (1 options w v depth)
  have d: "\<not> maxDepth options < depth" using "1.prems"(1) by (simp add: encode_value.simps split: if_splits)
  then have d': "depth \<le> maxDepth options" by simp
  show ?case
  proof (cases "(\<exists>vs. v = JArray vs) \<or> (\<exists>shape es. v = JObject shape es)")
    case False
    with encode_value_leaf [OF "1.prems"] show ?thesis by blast
  next
    case True
    then show ?thesis
    proof (elim disjE exE)
      fix vs assume v: "v = JArray vs"
      with "1.prems"(1) d obtain w1 where n: "length vs \<le> maxContainerLength options"
        and w1: "writeArgument w 4 (length vs) = Inr w1" "encode_items options w1 vs (depth + 1) = Inr w'"
        by (auto simp: encode_value.simps andThen_eq_Inr split: if_splits)
      note e = argument_emits [OF w1(1) "1.prems"(2)]
      then have "writer_ok w1" by (simp add: emits_def)
      with "1.IH"(1) [OF d v, of w1] n w1(2) "1.prems"(3,4) v obtain bs where
        bs: "emits w1 bs w'" "\<forall>rest. read_items (readItem options (depth + 1)) (length vs) (bs @ rest) = Inr (map stored vs, rest)"
        by auto
      with v emits_trans [OF e bs(1)] read_container(1) [OF "1.prems"(3) d' n] show ?thesis
        by (intro exI [of _ "argument_bytes 4 (length vs) @ bs"]) simp
    next
      fix shape es assume v: "v = JObject shape es"
      define n where "n = length (defined_entries es)"
      from v "1.prems"(1) d obtain w1 where sh: "shape \<noteq> SymbolKeyed" and n: "n \<le> maxContainerLength options"
        and w1: "writeArgument w 5 n = Inr w1" "encode_entries options w1 es (depth + 1) = Inr w'"
        by (auto simp: encode_value.simps andThen_eq_Inr n_def Let_def split: if_splits)
      note e = argument_emits [OF w1(1) "1.prems"(2)]
      then have "writer_ok w1" by (simp add: emits_def)
      with "1.IH"(2) [OF d v sh refl, of w1] n w1(2) "1.prems"(3,4) v obtain bs where
        bs: "emits w1 bs w'" and "\<forall>rest keys result. map fst result = keys \<longrightarrow> ordered_keys (keys @ map fst es) \<longrightarrow>
          read_pairs (readItem options (depth + 1)) n keys result (bs @ rest) =
          Inr (result @ map (\<lambda>(k, v). (k, stored v)) (defined_entries es), rest)"
        unfolding n_def by auto
      moreover have "ordered_keys ([] @ map fst es)" using "1.prems"(4) v by simp
      ultimately have rd: "read_pairs (readItem options (depth + 1)) n [] [] (bs @ rest) =
          Inr ([] @ map (\<lambda>(k, v). (k, stored v)) (defined_entries es), rest)" for rest
        by blast
      with v emits_trans [OF e bs] rd read_container(2) [OF "1.prems"(3) d' n] show ?thesis
        by (intro exI [of _ "argument_bytes 5 n @ bs"]) simp
    qed
  qed
next
  case (2 options w depth)
  then show ?case by (intro exI [of _ "[]"]) (simp add: emits_def)
next
  case (3 options w v vs depth)
  then obtain w1 where v: "v \<noteq> JUndefined" and w1: "encode_value options w v depth = Inr w1"
    "encode_items options w1 vs depth = Inr w'"
    by (auto simp: andThen_eq_Inr split: if_splits)
  with 3 obtain b1 where b1: "emits w b1 w1" "\<forall>rest. readItem options depth (b1 @ rest) = Inr (stored v, rest)"
    by auto
  then have "writer_ok w1" by (simp add: emits_def)
  with "3.IH"(2) [OF v, of w1 w'] w1(2) "3.prems"(3,4) obtain b2 where b2: "emits w1 b2 w'"
    "\<forall>rest. read_items (readItem options depth) (length vs) (b2 @ rest) = Inr (map stored vs, rest)"
    by auto
  from emits_trans [OF b1(1) b2(1)] b1(2) b2(2) show ?case
    by (intro exI [of _ "b1 @ b2"]) simp
next
  case (4 options w depth)
  then show ?case by (intro exI [of _ "[]"]) (simp add: emits_def defined_entries_def)
next
  case (5 options w k v es depth)
  show ?case
  proof (cases "v = JUndefined")
    case True
    with 5 show ?thesis by (auto simp: defined_entries_def dest: ordered_keys_drop)
  next
    case False
    with "5.prems"(1) obtain w0 w1 where w: "encodeText w k options = Inr w0"
      "encode_value options w0 v depth = Inr w1" "encode_entries options w1 es depth = Inr w'"
      by (auto simp: andThen_eq_Inr)
    then have d: "depth \<le> maxDepth options" by (simp add: encode_value.simps split: if_splits)
    note tx = encodeText_emits [OF w(1) "5.prems"(2)]
    define b0 where "b0 = argument_bytes 3 (length (text_encode k)) @ text_encode k"
    have b0: "emits w b0 w0" "\<forall>rest. readItem options depth (b0 @ rest) = Inr (JString k, rest)"
      using read_text [OF "5.prems"(3) d tx(2,3)] tx(1) by (simp_all add: b0_def)
    then have "writer_ok w0" by (simp add: emits_def)
    with "5.IH"(2) [OF False, of w0 w1] w(2) "5.prems"(3,4) obtain b1 where b1: "emits w0 b1 w1"
      "\<forall>rest. readItem options depth (b1 @ rest) = Inr (stored v, rest)" by auto
    then have "writer_ok w1" by (simp add: emits_def)
    with "5.IH"(3) [OF False, of w1 w'] w(3) "5.prems"(3,4) obtain b2 where b2: "emits w1 b2 w'"
      "\<forall>rest keys result. map fst result = keys \<longrightarrow> ordered_keys (keys @ map fst es) \<longrightarrow>
         read_pairs (readItem options depth) (length (defined_entries es)) keys result (b2 @ rest) =
         Inr (result @ map (\<lambda>(k, v). (k, stored v)) (defined_entries es), rest)" by auto
    have def: "defined_entries ((k, v) # es) = (k, v) # defined_entries es"
      using False by (simp add: defined_entries_def)
    have "read_pairs (readItem options depth) (Suc (length (defined_entries es))) keys result
        (b0 @ b1 @ b2 @ rest) =
        Inr (result @ map (\<lambda>(k, v). (k, stored v)) ((k, v) # defined_entries es), rest)"
      if keys: "map fst result = keys" and ord: "ordered_keys (keys @ k # map fst es)" for rest keys result
    proof -
      have "ordered_keys ((keys @ [k]) @ map fst es)" using ord by simp
      moreover from ordered_keys_append [OF this]
      have "define_property k (stored v) result = result @ [(k, stored v)]"
        using keys by (intro define_property_last) simp
      moreover have "k \<notin> set keys" using ord by (auto simp: ordered_keys_def)
      moreover have "map fst (result @ [(k, stored v)]) = keys @ [k]" using keys by simp
      ultimately have "read_pairs (readItem options depth) (length (defined_entries es)) (keys @ [k])
          (result @ [(k, stored v)]) (b2 @ rest) =
          Inr ((result @ [(k, stored v)]) @ map (\<lambda>(k, v). (k, stored v)) (defined_entries es), rest)"
        using b2(2) by blast
      with \<open>k \<notin> set keys\<close> \<open>define_property k (stored v) result = result @ [(k, stored v)]\<close> b0(2) b1(2)
      show ?thesis by simp
    qed
    moreover have "emits w (b0 @ b1 @ b2) w'" using emits_trans b0(1) b1(1) b2(1) by blast
    ultimately show ?thesis unfolding def by (intro exI [of _ "b0 @ b1 @ b2"]) simp
  qed
qed

lemma resolveOptions_limits: "resolveOptions options = Inr resolved \<Longrightarrow> limits_ok resolved"
  by (auto simp: resolveOptions_def resolveLimit_def andThen_eq_Inr limits_ok_def CBOR_MAX_UINT32_def
      split: if_splits)

lemma new_writer_ok: "writer_ok (new_writer limit)" "finish (new_writer limit) = []"
    "byteLimit (new_writer limit) = limit" "offset (new_writer limit) = 0"
  by (simp_all add: writer_ok_def finish_def new_writer_def)

lemma encodeCbor_decodes:
  assumes "encodeCbor v options = Inr bs" and "proper v"
  shows "decodeCbor bs options = Inr (stored v) \<and>
    (\<exists>resolved. resolveOptions options = Inr resolved \<and> length bs \<le> maxByteLength resolved)"
proof -
  from assms(1) obtain resolved w' where
    r: "resolveOptions options = Inr resolved"
    and w': "encode_value resolved (new_writer (maxByteLength resolved)) v 0 = Inr w'" "bs = finish w'"
    by (auto simp: encodeCbor_def andThen_eq_Inr)
  from encode_roundtrip(1) [OF w'(1) new_writer_ok(1) resolveOptions_limits [OF r] assms(2)]
  obtain bs' where e: "emits (new_writer (maxByteLength resolved)) bs' w'"
    and rd: "\<forall>rest. readItem resolved 0 (bs' @ rest) = Inr (stored v, rest)" by blast
  from e have bs: "bs = bs'" by (simp add: emits_def w'(2) new_writer_ok)
  have "length (finish w') \<le> maxByteLength resolved"
    using e by (auto simp: emits_def new_writer_ok writer_ok_def finish_def)
  with r bs w'(2) rd [rule_format, of "[]"] show ?thesis by (simp add: decodeCbor_def)
qed

definition byte_limit :: "int \<Rightarrow> cbor_options" where
  "byte_limit n = \<lparr>opt_maxByteLength = Some n, opt_maxContainerLength = None, opt_maxDepth = None\<rparr>"

lemma resolve_byte_limit: "resolveOptions (byte_limit (int n)) = Inr r \<Longrightarrow> maxByteLength r = n"
  by (auto simp: resolveOptions_def byte_limit_def or_default_def resolveLimit_def andThen_eq_Inr split: if_splits)

interpretation cbor: value_codec "\<lambda>v n. encodeCbor v (byte_limit (int n))" "\<lambda>bs n. decodeCbor bs (byte_limit (int n))"
    proper stored
proof
  show "decodeCbor bs (byte_limit (int n)) = Inr (stored v)" if "proper v" "encodeCbor v (byte_limit (int n)) = Inr bs"
    for v n bs
    using encodeCbor_decodes [OF that(2,1)] by simp
  show "length bs \<le> n" if "proper v" "encodeCbor v (byte_limit (int n)) = Inr bs" for v n bs
    using encodeCbor_decodes [OF that(2,1)] resolve_byte_limit by auto
qed

subsection \<open>Properties\<close>

text \<open>
  C8. Round trip: whenever a value is encoded, decoding the bytes under the same options gives the
  value back, with properties whose value is undefined left out and every object ordinary; no other
  information is lost, key order and negative zero included.
\<close>

theorem cbor_roundtrip:
  assumes "encodeCbor v options = Inr bs" and "proper v"
  shows "decodeCbor bs options = Inr (stored v)"
  using encodeCbor_decodes [OF assms] by blast

definition sample_value :: js_value where
  "sample_value = JObject Ordinary
     [([49], JArray [JNumber (Integral (-300)), JBool True, JNumber NegativeZero]),
      ([97], JUndefined), ([98, 0xE9], JString [0x20AC])]"

theorem cbor_roundtrip_witness:
  "\<exists>bs. encodeCbor sample_value (byte_limit 64) = Inr bs \<and>
     decodeCbor bs (byte_limit 64) = Inr (stored sample_value)"
proof -
  define bs where "bs = (case encodeCbor sample_value (byte_limit 64) of Inl e \<Rightarrow> [] | Inr bs \<Rightarrow> bs)"
  have "(case encodeCbor sample_value (byte_limit 64) of Inl e \<Rightarrow> False | Inr bs \<Rightarrow> True)" by code_simp
  then have e: "encodeCbor sample_value (byte_limit 64) = Inr bs"
    by (simp add: bs_def split: sum.splits)
  moreover have "proper sample_value" by code_simp
  ultimately show ?thesis using cbor_roundtrip [OF e] by blast
qed

lemma ensureCapacity_error: "ensureCapacity w n = Inl e \<Longrightarrow> e = CborTooLong (byteLimit w)"
  by (auto simp: ensureCapacity_def Let_def split: if_splits)

lemma write_error:
  "writeByte w v = Inl e \<Longrightarrow> \<exists>n. e = CborTooLong n"
  "writeBytes w bs = Inl e \<Longrightarrow> \<exists>n. e = CborTooLong n"
  "writeUint16 w v = Inl e \<Longrightarrow> \<exists>n. e = CborTooLong n"
  "writeUint32 w v = Inl e \<Longrightarrow> \<exists>n. e = CborTooLong n"
  by (auto simp: writeByte_def writeBytes_def writeUint16_def writeUint32_def andThen_eq_Inl
      dest: ensureCapacity_error)

lemma writeArgument_error: "writeArgument w m v = Inl e \<Longrightarrow> \<exists>n. e = CborTooLong n"
  by (auto simp: writeArgument_def writeUint64_def andThen_eq_Inl Let_def split: if_splits dest: write_error)

text \<open>
  \<^verbatim>\<open>encodeText\<close> rejects a string as invalid Unicode exactly when it contains an unpaired
  surrogate: comparing the string with its decoded encoding is a test of well-formed UTF-16.
\<close>

theorem encodeText_rejects_iff:
  "encodeText w s options = Inl CborBadText \<longleftrightarrow>
     length (text_encode s) \<le> maxByteLength options \<and> \<not> well_formed s"
  by (auto simp: encodeText_def Let_def text_roundtrip_iff andThen_eq_Inl
      dest: writeArgument_error write_error)

end
