(* ===== verification/Codec.thy ===== *)
theory Codec
  imports Framing Cbor
begin

text \<open>
  The protocol message codec of \<^verbatim>\<open>pi/packages/protocol/src/codec.ts\<close>: validation, encoding of one
  framed message, and the incremental \<^verbatim>\<open>ValidatedMessageDecoder\<close>.

  Schema validation (\<^verbatim>\<open>Check\<close> of the package typebox) is the parameter \<open>check\<close>; the code
  relies on it to accept a message after it has been stored and read back. A \<open>message_decoder\<close>
  holds the object's fields; its parse function is an argument of the operations, and its name for
  error messages is left out. A caught error is kept as the \<open>codec_cause\<close> of the error thrown.
\<close>

definition PROTOCOL_VERSION :: int where "PROTOCOL_VERSION = 1"

datatype codec_cause = FrameCause frame_error | CborCause cbor_error

datatype codec_error =
    InvalidMessage
  | UnableToEncode codec_cause
  | MessageDecoderFailed
  | InvalidFrame codec_cause
  | InvalidFraming frame_error

definition map_error :: "('e \<Rightarrow> 'f) \<Rightarrow> 'e + 'a \<Rightarrow> 'f + 'a" where
  "map_error f r = (case r of Inl e \<Rightarrow> Inl (f e) | Inr a \<Rightarrow> Inr a)"

lemma map_error_simps [simp]: "map_error f (Inl e) = Inl (f e)" "map_error f (Inr a) = Inr a"
  by (simp_all add: map_error_def)

lemma map_error_eq_Inr [simp]: "map_error f r = Inr a \<longleftrightarrow> r = Inr a"
  by (cases r) simp_all

subsection \<open>Validation\<close>

fun isProtocolValue :: "bool \<Rightarrow> js_value \<Rightarrow> bool" where
  "isProtocolValue optionalProperty JUndefined \<longleftrightarrow> optionalProperty"
| "isProtocolValue optionalProperty JNull \<longleftrightarrow> True"
| "isProtocolValue optionalProperty (JBool b) \<longleftrightarrow> True"
| "isProtocolValue optionalProperty (JNumber n) \<longleftrightarrow> True"
| "isProtocolValue optionalProperty (JString s) \<longleftrightarrow> True"
| "isProtocolValue optionalProperty JBackref \<longleftrightarrow> False"
| "isProtocolValue optionalProperty (JArray vs) \<longleftrightarrow> list_all (isProtocolValue False) vs"
| "isProtocolValue optionalProperty (JObject shape es) \<longleftrightarrow>
     shape \<noteq> NullPrototype \<and> list_all (\<lambda>(k, v). isProtocolValue True v) es"
| "isProtocolValue optionalProperty (JBytes bs) \<longleftrightarrow> False"
| "isProtocolValue optionalProperty JUnsupported \<longleftrightarrow> False"

type_synonym message_parser = "js_value \<Rightarrow> codec_error + js_value"

definition parse_message :: "(js_value \<Rightarrow> bool) \<Rightarrow> message_parser" where
  "parse_message check v = (if \<not> isProtocolValue False v \<or> \<not> check v then Inl InvalidMessage else Inr v)"

subsection \<open>Encoding one message\<close>

definition encodeProtocolMessage :: "js_value \<Rightarrow> message_parser \<Rightarrow> int option \<Rightarrow> codec_error + byte list" where
  "encodeProtocolMessage v parse options =
     andThen (parse v) (\<lambda>validated.
       map_error UnableToEncode
         (let maxFrameLength = or_default options (int DEFAULT_MAX_FRAME_LENGTH) in
          andThen (map_error CborCause (encodeCbor validated (byte_limit maxFrameLength))) (\<lambda>payload.
          andThen (map_error FrameCause (encodeFrame payload)) (\<lambda>frame.
          andThen (map_error FrameCause (assertCompleteFrame frame (Some maxFrameLength))) (\<lambda>_.
          Inr frame)))))"

subsection \<open>Decoding a stream of messages\<close>

record message_decoder =
  failed :: bool
  frames :: frame_decoder
  frameLimit :: int

definition new_message_decoder :: "int option \<Rightarrow> frame_error + message_decoder" where
  "new_message_decoder options =
     andThen (new_frame_decoder options) (\<lambda>d.
       Inr \<lparr>failed = False, frames = d,
            frameLimit = or_default options (int DEFAULT_MAX_FRAME_LENGTH)\<rparr>)"

fun parse_frames :: "message_parser \<Rightarrow> int \<Rightarrow> byte list list \<Rightarrow> codec_error + js_value list" where
  "parse_frames parse limit [] = Inr []"
| "parse_frames parse limit (f # fs) =
     andThen (map_error (\<lambda>e. InvalidFrame (CborCause e)) (decodeCbor f (byte_limit limit))) (\<lambda>v.
     andThen (parse v) (\<lambda>m.
     andThen (parse_frames parse limit fs) (\<lambda>ms. Inr (m # ms))))"

definition push_messages ::
    "message_parser \<Rightarrow> message_decoder \<Rightarrow> byte list \<Rightarrow> (codec_error + js_value list) \<times> message_decoder" where
  "push_messages parse d chunk =
     (if failed d then (Inl MessageDecoderFailed, d)
      else case push (frames d) chunk of
        (Inl e, f) \<Rightarrow> (Inl (InvalidFrame (FrameCause e)), d\<lparr>frames := f, failed := True\<rparr>)
      | (Inr fs, f) \<Rightarrow> (case parse_frames parse (frameLimit d) fs of
            Inl e \<Rightarrow> (Inl e, d\<lparr>frames := f, failed := True\<rparr>)
          | Inr ms \<Rightarrow> (Inr ms, d\<lparr>frames := f\<rparr>)))"

definition end_messages :: "message_decoder \<Rightarrow> (codec_error + unit) \<times> message_decoder" where
  "end_messages d =
     (if failed d then (Inl MessageDecoderFailed, d)
      else case end_decoder (frames d) of
        (Inl e, f) \<Rightarrow> (Inl (InvalidFraming e), d\<lparr>frames := f, failed := True\<rparr>)
      | (Inr _, f) \<Rightarrow> (Inr (), d\<lparr>frames := f\<rparr>))"

definition isSupportedProtocolVersion :: "js_number \<Rightarrow> bool" where
  "isSupportedProtocolVersion version \<longleftrightarrow> version = Integral PROTOCOL_VERSION"

subsection \<open>Streams of messages\<close>

interpretation msg: value_stream encodeFrame push end_decoder "\<lambda>d. decoder_inv d \<and> pending d = []" maxFrameLength
    "\<lambda>v n. encodeCbor v (byte_limit (int n))" "\<lambda>bs n. decodeCbor bs (byte_limit (int n))" proper stored
  by unfold_locales

lemma isProtocolValue_stored: "isProtocolValue False v \<Longrightarrow> isProtocolValue False (stored v)"
  and isProtocolValue_stored_property: "isProtocolValue True v \<Longrightarrow> isProtocolValue True (stored v)"
proof (induction v)
  case (JObject shape es)
  have "list_all (\<lambda>(k, v). isProtocolValue True v) (map (\<lambda>(k, v). (k, stored v)) (defined_entries es))"
    if "list_all (\<lambda>(k, v). isProtocolValue True v) es"
    using that JObject.IH set_defined_entries [of es] by (fastforce simp: list_all_iff)
  then show "isProtocolValue False (JObject shape es) \<Longrightarrow> isProtocolValue False (stored (JObject shape es))"
    "isProtocolValue True (JObject shape es) \<Longrightarrow> isProtocolValue True (stored (JObject shape es))"
    by (simp_all add: list_all_iff)
qed (auto simp: list_all_iff)

lemma push_chunks_messages:
  assumes "feed_all push (frames d) cs = (Inr ps, f)" and "parse_frames parse (frameLimit d) ps = Inr ms"
    and "\<not> failed d"
  shows "feed_all (push_messages parse) d cs = (Inr ms, d\<lparr>frames := f\<rparr>)"
  using assms
proof (induction cs arbitrary: d ps ms)
  case Nil
  then show ?case by simp
next
  case (Cons c cs)
  from Cons.prems(1) obtain ps1 ps2 f1 where p: "push (frames d) c = (Inr ps1, f1)"
    "feed_all push f1 cs = (Inr ps2, f)" "ps = ps1 @ ps2"
    by (auto split: sum.splits prod.splits)
  have app: "parse_frames parse l (xs @ ys) =
      andThen (parse_frames parse l xs) (\<lambda>a. andThen (parse_frames parse l ys) (\<lambda>b. Inr (a @ b)))" for l xs ys
    by (induction xs) (auto simp: andThen_def split: sum.split)
  from Cons.prems(2) p(3) obtain ms1 ms2 where m: "parse_frames parse (frameLimit d) ps1 = Inr ms1"
    "parse_frames parse (frameLimit d) ps2 = Inr ms2" "ms = ms1 @ ms2"
    by (auto simp: app andThen_eq_Inr)
  from Cons.IH [of "d\<lparr>frames := f1\<rparr>" ps2 ms2] p m Cons.prems(3) show ?case
    by (simp add: push_messages_def)
qed

lemma parse_frames_values:
  assumes "map (\<lambda>p. decodeCbor p (byte_limit limit)) ps = map (\<lambda>v. Inr (stored v)) vs"
    and "\<forall>v\<in>set vs. parse (stored v) = Inr (stored v)"
  shows "parse_frames parse limit ps = Inr (map stored vs)"
  using assms by (induction ps arbitrary: vs) (auto simp: map_eq_Cons_conv Cons_eq_map_conv)

lemma encodeProtocolMessage_Inr:
  assumes "encodeProtocolMessage v (parse_message check) options = Inr f"
  shows "isProtocolValue False v \<and> check v \<and>
    (\<exists>p. encodeCbor v (byte_limit (or_default options (int DEFAULT_MAX_FRAME_LENGTH))) = Inr p \<and> encodeFrame p = Inr f)"
  using assms
  by (auto simp: encodeProtocolMessage_def andThen_eq_Inr parse_message_def Let_def split: if_splits)

subsection \<open>Properties\<close>

text \<open>
  Message round trip: when messages are encoded one by one and the concatenation of their frames
  reaches a decoder in arbitrary chunks, the decoder delivers these messages in order, as stored, and
  accepts the end of the stream; the hypothesis on the schema is that it accepts a message with its
  undefined properties left out.
\<close>

lemma message_stream_roundtrip:
  assumes "new_message_decoder options = Inr d"
    and "\<And>v. isProtocolValue False v \<Longrightarrow> check v \<Longrightarrow> check (stored v)"
    and "list_all2 (\<lambda>v f. proper v \<and> encodeProtocolMessage v (parse_message check) options = Inr f) vs fs"
    and "concat cs = concat fs"
  shows "fst (feed_all (push_messages (parse_message check)) d cs) = Inr (map stored vs) \<and>
    fst (end_messages (snd (feed_all (push_messages (parse_message check)) d cs))) = Inr ()"
proof -
  from assms(1) obtain fd where d: "\<not> failed d" "frames d = fd" "new_frame_decoder options = Inr fd"
    "frameLimit d = or_default options (int DEFAULT_MAX_FRAME_LENGTH)"
    by (auto simp: new_message_decoder_def andThen_eq_Inr)
  note fd = new_frame_decoder_Inr [OF d(3)]
  then have lim: "frameLimit d = int (maxFrameLength fd)"
    by (auto simp: d(4) resolveMaxFrameLength_def or_default_def Let_def split: option.splits if_splits)
  have "list_all2 (\<lambda>v f. proper v \<and> (\<exists>p. encodeCbor v (byte_limit (int (maxFrameLength fd))) = Inr p \<and>
      encodeFrame p = Inr f)) vs fs"
    using assms(3) by (rule list_all2_mono) (use encodeProtocolMessage_Inr lim d(4) in force)
  from msg.values_delivered [OF this _ assms(4)] fd obtain ps fd' where
    ps: "feed_all push fd cs = (Inr ps, fd')" "fst (end_decoder fd') = Inr ()"
    "map (\<lambda>p. decodeCbor p (byte_limit (int (maxFrameLength fd)))) ps = map (\<lambda>v. Inr (stored v)) vs"
    by auto
  have "\<forall>v\<in>set vs. parse_message check (stored v) = Inr (stored v)"
  proof
    fix v assume "v \<in> set vs"
    then obtain f where "encodeProtocolMessage v (parse_message check) options = Inr f"
      using assms(3) by (auto simp: list_all2_conv_all_nth in_set_conv_nth)
    then show "parse_message check (stored v) = Inr (stored v)"
      using assms(2) encodeProtocolMessage_Inr isProtocolValue_stored by (fastforce simp: parse_message_def)
  qed
  with ps(3) have "parse_frames (parse_message check) (frameLimit d) ps = Inr (map stored vs)"
    unfolding lim by (rule parse_frames_values)
  from push_chunks_messages [OF _ this d(1)] ps(1,2) d(1,2) show ?thesis
    by (auto simp: end_messages_def split: prod.split sum.split)
qed

definition sample_check :: "js_value \<Rightarrow> bool" where
  "sample_check v = (case v of JObject shape es \<Rightarrow> True | _ \<Rightarrow> False)"

definition sample_message :: js_value where
  "sample_message = JObject Ordinary [([97], JUndefined), ([98], JArray [JNumber (Integral 7)])]"

definition sample_decoder :: message_decoder where
  "sample_decoder = \<lparr>failed = False, frames = fresh_decoder 64, frameLimit = 64\<rparr>"

lemma sample_decoder: "new_message_decoder (Some 64) = Inr sample_decoder"
  by (simp add: new_message_decoder_def new_frame_decoder_def resolveMaxFrameLength_def MAX_UINT32_def
      sample_decoder_def or_default_def)

lemma message_stream_roundtrip_sample:
  "fst (feed_all (push_messages (parse_message sample_check)) sample_decoder
     [[0, 0], [0, 5, 0xA1, 0x61], [98, 0x81, 7]]) = Inr [stored sample_message]"
proof -
  have "proper sample_message" by code_simp
  moreover have "encodeProtocolMessage sample_message (parse_message sample_check) (Some 64) =
      Inr [0, 0, 0, 5, 0xA1, 0x61, 98, 0x81, 7]" by code_simp
  ultimately have "list_all2 (\<lambda>v f. proper v \<and>
      encodeProtocolMessage v (parse_message sample_check) (Some 64) = Inr f)
      [sample_message] [[0, 0, 0, 5, 0xA1, 0x61, 98, 0x81, 7]]" by simp
  moreover have "sample_check v \<Longrightarrow> sample_check (stored v)" for v
    by (cases v) (simp_all add: sample_check_def)
  ultimately have "fst (feed_all (push_messages (parse_message sample_check)) sample_decoder
     [[0, 0], [0, 5, 0xA1, 0x61], [98, 0x81, 7]]) = Inr (map stored [sample_message])"
    by (intro conjunct1 [OF message_stream_roundtrip [OF sample_decoder, of _ _
        "[[0, 0, 0, 5, 0xA1, 0x61, 98, 0x81, 7]]"]]) simp_all
  then show ?thesis by simp
qed

text \<open>
  A message decoder that has thrown stays failed: every later \<^verbatim>\<open>push\<close> and \<^verbatim>\<open>end\<close> throws the
  decoder-failed error and changes nothing, so bytes after a protocol violation are never interpreted.
\<close>

theorem failed_decoder_absorbs:
  assumes "push_messages parse d chunk = (Inl e, d')"
  shows "push_messages parse d' chunk' = (Inl MessageDecoderFailed, d') \<and>
    end_messages d' = (Inl MessageDecoderFailed, d')"
proof -
  have "failed d'" using assms by (auto simp: push_messages_def split: if_splits prod.splits sum.splits)
  then show ?thesis by (simp add: push_messages_def end_messages_def)
qed

theorem failed_decoder_absorbs_witness:
  "\<exists>d'. push_messages (parse_message sample_check) sample_decoder [1, 0, 0, 0] =
       (Inl (InvalidFrame (FrameCause (FrameTooLong 16777216 64))), d') \<and>
     end_messages d' = (Inl MessageDecoderFailed, d')"
proof -
  define d' where "d' = snd (push_messages (parse_message sample_check) sample_decoder [1, 0, 0, 0])"
  have "fst (push_messages (parse_message sample_check) sample_decoder [1, 0, 0, 0]) =
      Inl (InvalidFrame (FrameCause (FrameTooLong 16777216 64)))" by code_simp
  then have p: "push_messages (parse_message sample_check) sample_decoder [1, 0, 0, 0] =
      (Inl (InvalidFrame (FrameCause (FrameTooLong 16777216 64))), d')"
    by (simp add: d'_def prod_eq_iff)
  with failed_decoder_absorbs [OF p] show ?thesis by blast
qed

end
