(* ===== verification/AgentTypes.thy ===== *)
theory AgentTypes
  imports Complex_Main JsValue
begin

text \<open>
  The data of the agent: content blocks, messages and usage of \<^verbatim>\<open>pi/packages/ai/src/types.ts\<close>, the
  agent's own messages of \<^verbatim>\<open>pi/packages/agent/src/harness/messages.ts\<close>, and the entries, records,
  queries and errors of \<^verbatim>\<open>pi/packages/agent/src/harness/session/types.ts\<close>.

  An interface is a record and a tagged union a datatype; an optional field is an option, an optional
  \<^verbatim>\<open>true\<close> a boolean. A field of type \<^verbatim>\<open>unknown\<close> or JSON is a \<open>js_value\<close>. Token counts, sequence
  numbers and timestamps are integers, costs are exact rationals instead of doubles. \<open>ForeignMessage\<close>
  stands for the roles an application adds by declaration merging. An entry extends its provisioned
  form by what the storage assigns, and a lane record extends a new record, so that
  \<open>provisioned_entry.truncate\<close> drops the assigned fields. A \<open>SessionError\<close> is its code.
\<close>

type_synonym id = string

subsection \<open>Messages\<close>

record tool_call =
  call_id :: id
  call_name :: string
  call_arguments :: js_value
  call_thoughtSignature :: "string option"
  call_namespace :: "string option"

datatype content_block =
    TextContent string "string option"                  \<comment> \<open>text, signature\<close>
  | ThinkingContent string "string option" bool         \<comment> \<open>thinking, signature, redacted\<close>
  | ImageContent string string                          \<comment> \<open>data, mime type\<close>
  | ToolCallContent tool_call

datatype user_content = PlainContent string | BlockContent "content_block list"

record cost =
  cost_input :: rat
  cost_output :: rat
  cost_cacheRead :: rat
  cost_cacheWrite :: rat
  cost_total :: rat

record usage =
  u_input :: int
  u_output :: int
  u_cacheRead :: int
  u_cacheWrite :: int
  u_cacheWrite1h :: "int option"
  u_reasoning :: "int option"
  u_totalTokens :: int
  usage_cost :: cost

datatype stop_reason = Pending | Stop | Length | ToolUse | ErrorStop | Aborted | Deferred

record deferred_handle =
  handle_provider :: string
  handle_modelId :: string
  handle_api :: string
  handle_id :: id
  expiresAt :: "int option"
  pollAfterMs :: "int option"
  handle_data :: "js_value option"

record assistant_message =
  am_content :: "content_block list"
  am_api :: string
  am_provider :: string
  am_model :: string
  am_responseModel :: "string option"
  am_responseId :: "string option"
  am_diagnostics :: "js_value option"
  am_usage :: usage
  am_stopReason :: stop_reason
  am_deferred :: "deferred_handle option"
  am_errorMessage :: "string option"
  am_rawStopReason :: "string option"
  am_endTurn :: "bool option"
  am_timestamp :: int

record tool_result_message =
  tr_toolCallId :: id
  tr_toolName :: string
  tr_content :: "content_block list"
  tr_details :: "js_value option"
  tr_usage :: "usage option"
  tr_addedToolNames :: "string list option"
  tr_isError :: bool
  tr_timestamp :: int

record bash_execution =
  bash_command :: string
  bash_output :: string
  bash_exitCode :: "int option"
  bash_cancelled :: bool
  bash_truncated :: bool
  bash_fullOutputPath :: "string option"
  bash_timestamp :: int
  bash_excludeFromContext :: bool

record custom_message =
  cm_customType :: string
  cm_content :: user_content
  cm_display :: bool
  cm_details :: "js_value option"
  cm_timestamp :: int

datatype agent_message =
    UserMessage user_content int                        \<comment> \<open>content, timestamp\<close>
  | AssistantMessage assistant_message
  | ToolResultMessage tool_result_message
  | BashExecutionMessage bash_execution
  | CustomMessage custom_message
  | BranchSummaryMessage string id int                  \<comment> \<open>summary, from id, timestamp\<close>
  | CompactionSummaryMessage string int int             \<comment> \<open>summary, tokens before, timestamp\<close>
  | ForeignMessage string js_value                      \<comment> \<open>role, fields\<close>

datatype message_role = RoleUser | RoleAssistant | RoleToolResult | RoleBash | RoleCustom
  | RoleBranchSummary | RoleCompactionSummary | RoleForeign string

fun role_of :: "agent_message \<Rightarrow> message_role" where
  "role_of (UserMessage c t) = RoleUser"
| "role_of (AssistantMessage m) = RoleAssistant"
| "role_of (ToolResultMessage m) = RoleToolResult"
| "role_of (BashExecutionMessage m) = RoleBash"
| "role_of (CustomMessage m) = RoleCustom"
| "role_of (BranchSummaryMessage s i t) = RoleBranchSummary"
| "role_of (CompactionSummaryMessage s n t) = RoleCompactionSummary"
| "role_of (ForeignMessage r v) = RoleForeign r"

text \<open>\<^verbatim>\<open>content.filter((c) => c.type === "toolCall")\<close>\<close>

fun tool_calls :: "content_block list \<Rightarrow> tool_call list" where
  "tool_calls [] = []"
| "tool_calls (ToolCallContent c # cs) = c # tool_calls cs"
| "tool_calls (_ # cs) = tool_calls cs"

subsection \<open>Entries\<close>

record compaction_data =
  cd_summary :: string
  cd_retainedTail :: "agent_message list"
  cd_tokensBefore :: int
  cd_details :: "js_value option"
  cd_usage :: "usage option"

datatype entry_payload =
    MessagePayload agent_message bool                   \<comment> \<open>message, terminate\<close>
  | ModelChange string string                           \<comment> \<open>provider, model id\<close>
  | ThinkingLevelChange string
  | ActiveToolsChange "string list"
  | CompactionPayload compaction_data
  | BranchSummaryPayload id string "js_value option" "usage option"   \<comment> \<open>from id, summary, details, usage\<close>
  | CustomPayload string "js_value option"              \<comment> \<open>custom type, data\<close>

datatype entry_type = MessageType | ModelChangeType | ThinkingLevelChangeType | ActiveToolsChangeType
  | CompactionType | BranchSummaryType | CustomType

fun payload_type :: "entry_payload \<Rightarrow> entry_type" where
  "payload_type (MessagePayload m t) = MessageType"
| "payload_type (ModelChange p m) = ModelChangeType"
| "payload_type (ThinkingLevelChange l) = ThinkingLevelChangeType"
| "payload_type (ActiveToolsChange ns) = ActiveToolsChangeType"
| "payload_type (CompactionPayload c) = CompactionType"
| "payload_type (BranchSummaryPayload i s d u) = BranchSummaryType"
| "payload_type (CustomPayload t d) = CustomType"

record provisioned_entry =
  entry_id :: id
  entry_payload :: entry_payload

record entry = provisioned_entry +
  parentId :: "id option"
  entry_seq :: int
  entry_timestamp :: int

definition entry_type_of :: "entry \<Rightarrow> entry_type" where
  "entry_type_of e = payload_type (entry_payload e)"

subsection \<open>Lane records\<close>

datatype intent =
    RunIntent "agent_message list" "provisioned_entry list" "string option" "js_value option"
      \<comment> \<open>original prompt, initial messages, system prompt override, resume data\<close>
  | CompactionIntent "string option" id                 \<comment> \<open>custom instructions, result entry id\<close>
  | NavigationIntent "id option" bool "string option" "string option" "id option"
      \<comment> \<open>target, summarize, custom instructions, label, summary entry id\<close>

datatype operation_kind = RunKind | CompactionKind | NavigationKind

fun intent_kind :: "intent \<Rightarrow> operation_kind" where
  "intent_kind (RunIntent p i s r) = RunKind"
| "intent_kind (CompactionIntent c r) = CompactionKind"
| "intent_kind (NavigationIntent t s c l e) = NavigationKind"

datatype outcome = OutcomeCompleted | OutcomeAborted | OutcomeFailed | OutcomeDeclined

datatype step_kind = AssistantStep | CompactionStep | BranchSummaryStep

text \<open>A durable log may hold any string as the reason.\<close>

datatype compaction_reason = ReasonManual | ReasonThreshold | ReasonOverflow | ReasonOther string

record step_attempt =
  sa_runId :: id
  sa_step :: step_kind
  sa_attempt :: int
  sa_resultEntryId :: id
  sa_compactionReason :: "compaction_reason option"

datatype replay = ReplayNever | ReplaySafe

record tool_started =
  ts_runId :: id
  ts_assistantEntryId :: id
  ts_toolIndex :: int
  ts_toolCallId :: id
  ts_toolName :: string
  ts_effectiveArgs :: js_value
  ts_resultEntryId :: id
  ts_replay :: replay

datatype queue_kind = SteerQueue id | FollowUpQueue id | NextRunQueue    \<comment> \<open>with the run id\<close>

datatype step_cause = CauseAssistant | CauseCompaction | CauseBranchSummary | CauseDeferredFetch

datatype usage_cause =
    StepUsage step_cause id id int stop_reason          \<comment> \<open>cause, run, entry, attempt, stop reason\<close>
  | ToolUsage id id id                                  \<comment> \<open>run, entry, tool call\<close>
  | HookUsage id id
  | AdjustmentUsage "id option" "id option" "js_value option"

datatype record_body =
    OperationStarted "id option" intent                 \<comment> \<open>source leaf, intent\<close>
  | AbortRequested id
  | OperationFinished id outcome "(string \<times> string) option"
  | StepAttempt step_attempt
  | ToolStarted tool_started
  | QueueEnqueued queue_kind provisioned_entry
  | QueueCancelled "id option" id                       \<comment> \<open>run, entry\<close>
  | WriteDeferred id provisioned_entry
  | UsageRecorded usage usage_cause

datatype record_type = OperationStartedType | AbortRequestedType | OperationFinishedType | StepAttemptType
  | ToolStartedType | QueueEnqueuedType | QueueCancelledType | WriteDeferredType | UsageType

fun body_type :: "record_body \<Rightarrow> record_type" where
  "body_type (OperationStarted l i) = OperationStartedType"
| "body_type (AbortRequested r) = AbortRequestedType"
| "body_type (OperationFinished r out e) = OperationFinishedType"
| "body_type (StepAttempt s) = StepAttemptType"
| "body_type (ToolStarted t) = ToolStartedType"
| "body_type (QueueEnqueued q t) = QueueEnqueuedType"
| "body_type (QueueCancelled r e) = QueueCancelledType"
| "body_type (WriteDeferred r t) = WriteDeferredType"
| "body_type (UsageRecorded u c) = UsageType"

fun queue_run :: "queue_kind \<Rightarrow> id option" where
  "queue_run (SteerQueue r) = Some r"
| "queue_run (FollowUpQueue r) = Some r"
| "queue_run NextRunQueue = None"

fun cause_run :: "usage_cause \<Rightarrow> id option" where
  "cause_run (StepUsage c r e a s) = Some r"
| "cause_run (ToolUsage r e t) = Some r"
| "cause_run (HookUsage r e) = Some r"
| "cause_run (AdjustmentUsage r e d) = r"

text \<open>The property \<^verbatim>\<open>runId\<close> of a record, if it has one.\<close>

fun body_run :: "record_body \<Rightarrow> id option" where
  "body_run (OperationStarted l i) = None"
| "body_run (AbortRequested r) = Some r"
| "body_run (OperationFinished r out e) = Some r"
| "body_run (StepAttempt s) = Some (sa_runId s)"
| "body_run (ToolStarted t) = Some (ts_runId t)"
| "body_run (QueueEnqueued q t) = queue_run q"
| "body_run (QueueCancelled r e) = r"
| "body_run (WriteDeferred r t) = Some r"
| "body_run (UsageRecorded u c) = cause_run c"

record new_record =
  record_id :: id
  record_lane :: string
  record_content :: record_body

record lane_record = new_record +
  record_seq :: int
  record_timestamp :: int

subsection \<open>Queries, log and metadata\<close>

datatype entry_order = NewestFirst | OldestFirst

record entry_query =
  q_type :: "entry_type option"
  q_customType :: "string option"
  q_order :: "entry_order option"
  q_limit :: "int option"
  q_cursor :: "int option"                              \<comment> \<open>\<^verbatim>\<open>cursor.afterSeq\<close>\<close>

record branch_bounds =
  stopAtType :: "entry_type option"
  stopAtId :: "id option"

record record_query =
  rq_lane :: "string option"
  rq_type :: "record_type option"
  rq_runId :: "id option"
  rq_operationKind :: "operation_kind option"
  rq_afterSeq :: "int option"
  rq_order :: "entry_order option"
  rq_limit :: "int option"

record session_metadata =
  meta_id :: id
  createdAt :: int
  parentSessionId :: "id option"

record session_stats =
  messageCount :: int
  cachedTokens :: int
  uncachedTokens :: int
  stat_totalTokens :: int
  costTotal :: rat

record lane_pointer =
  pointer_lane :: string
  pointer_leaf :: "id option"

datatype log_item =
    EntryItem int entry
  | RecordItem int lane_record
  | LaneItem int string "id option"
  | NameItem int "string option"
  | LabelItem int id "string option"

fun item_seq :: "log_item \<Rightarrow> int" where
  "item_seq (EntryItem s e) = s"
| "item_seq (RecordItem s r) = s"
| "item_seq (LaneItem s l i) = s"
| "item_seq (NameItem s n) = s"
| "item_seq (LabelItem s i l) = s"

record log_options =
  log_afterSeq :: "int option"
  log_limit :: "int option"

datatype fork_position = ForkBefore | ForkAt

datatype fork_options =
    ForkBranch "id option" "fork_position option"
  | ForkTree

datatype session_error = NotFound | AlreadyExists | InvalidEntry | InvalidPayload | InvalidLane
  | InvalidQuery | InvalidForkTarget | StorageFailure

end
