(* ===== verification/SessionContext.thy ===== *)
theory SessionContext
  imports AgentTypes
begin

text \<open>
  From a branch of entries to the messages of a model request:
  \<^verbatim>\<open>pi/packages/agent/src/harness/session/context.ts\<close> (\<open>buildSessionContext\<close>) and
  \<^verbatim>\<open>pi/packages/agent/src/harness/messages.ts\<close> (\<open>convertToLlm\<close>). The transforms and projectors an
  application registers are arguments; a projector that is not registered or returns
  \<^verbatim>\<open>undefined\<close> is \<open>None\<close>. Timestamps are numbers, as everywhere in the session.
\<close>

subsection \<open>Agent messages for the model\<close>

definition newline :: string where "newline = [CHR 0x0A]"

definition COMPACTION_SUMMARY_PREFIX :: string where
  "COMPACTION_SUMMARY_PREFIX =
     ''The conversation history before this point was compacted into the following summary:'' @
     newline @ newline @ ''<summary>'' @ newline"

definition COMPACTION_SUMMARY_SUFFIX :: string where
  "COMPACTION_SUMMARY_SUFFIX = newline @ ''</summary>''"

definition BRANCH_SUMMARY_PREFIX :: string where
  "BRANCH_SUMMARY_PREFIX =
     ''The following is a summary of a branch that this conversation came back from:'' @
     newline @ newline @ ''<summary>'' @ newline"

definition BRANCH_SUMMARY_SUFFIX :: string where
  "BRANCH_SUMMARY_SUFFIX = ''</summary>''"

fun decimal :: "nat \<Rightarrow> string" where
  "decimal n = (if n < 10 then [''0123456789'' ! n] else decimal (n div 10) @ [''0123456789'' ! (n mod 10)])"

declare decimal.simps [simp del]

definition int_to_string :: "int \<Rightarrow> string" where
  "int_to_string i = (if i < 0 then ''-'' @ decimal (nat (- i)) else decimal (nat i))"

definition bashExecutionToText :: "bash_execution \<Rightarrow> string" where
  "bashExecutionToText msg =
     ''Ran `'' @ bash_command msg @ ''`'' @ newline @
     (if bash_output msg \<noteq> [] then ''```'' @ newline @ bash_output msg @ newline @ ''```'' else ''(no output)'') @
     (if bash_cancelled msg then newline @ newline @ ''(command cancelled)''
      else case bash_exitCode msg of None \<Rightarrow> []
        | Some code \<Rightarrow> if code \<noteq> 0
            then newline @ newline @ ''Command exited with code '' @ int_to_string code else []) @
     (case bash_fullOutputPath msg of None \<Rightarrow> []
      | Some path \<Rightarrow> if bash_truncated msg \<and> path \<noteq> []
          then newline @ newline @ ''[Output truncated. Full output: '' @ path @ '']'' else [])"

definition createBranchSummaryMessage :: "string \<Rightarrow> id \<Rightarrow> int \<Rightarrow> agent_message" where
  "createBranchSummaryMessage summary fromId timestamp = BranchSummaryMessage summary fromId timestamp"

definition createCompactionSummaryMessage :: "string \<Rightarrow> int \<Rightarrow> int \<Rightarrow> agent_message" where
  "createCompactionSummaryMessage summary tokensBefore timestamp =
     CompactionSummaryMessage summary tokensBefore timestamp"

definition createCustomMessage ::
    "string \<Rightarrow> user_content \<Rightarrow> bool \<Rightarrow> js_value option \<Rightarrow> int \<Rightarrow> agent_message" where
  "createCustomMessage customType content display details timestamp =
     CustomMessage \<lparr>cm_customType = customType, cm_content = content, cm_display = display,
       cm_details = details, cm_timestamp = timestamp\<rparr>"

fun to_llm :: "agent_message \<Rightarrow> agent_message option" where
  "to_llm (BashExecutionMessage m) =
     (if bash_excludeFromContext m then None
      else Some (UserMessage (BlockContent [TextContent (bashExecutionToText m) None]) (bash_timestamp m)))"
| "to_llm (CustomMessage m) =
     Some (UserMessage (case cm_content m of PlainContent s \<Rightarrow> BlockContent [TextContent s None] | c \<Rightarrow> c)
       (cm_timestamp m))"
| "to_llm (BranchSummaryMessage summary i t) =
     Some (UserMessage (BlockContent
       [TextContent (BRANCH_SUMMARY_PREFIX @ summary @ BRANCH_SUMMARY_SUFFIX) None]) t)"
| "to_llm (CompactionSummaryMessage summary n t) =
     Some (UserMessage (BlockContent
       [TextContent (COMPACTION_SUMMARY_PREFIX @ summary @ COMPACTION_SUMMARY_SUFFIX) None]) t)"
| "to_llm (UserMessage c t) = Some (UserMessage c t)"
| "to_llm (AssistantMessage m) = Some (AssistantMessage m)"
| "to_llm (ToolResultMessage m) = Some (ToolResultMessage m)"
| "to_llm (ForeignMessage r v) = None"

definition convertToLlm :: "agent_message list \<Rightarrow> agent_message list" where
  "convertToLlm ms = map the (filter (\<lambda>m. m \<noteq> None) (map to_llm ms))"

subsection \<open>The context of a branch\<close>

record context_state =
  ctx_thinkingLevel :: string
  ctx_model :: "(string \<times> string) option"
  ctx_activeToolNames :: "string list option"

record session_context = context_state +
  ctx_messages :: "agent_message list"

type_synonym entry_transform = "entry list \<Rightarrow> entry list"
type_synonym projector = "entry \<Rightarrow> nat \<Rightarrow> entry list \<Rightarrow> agent_message list option"

record context_options =
  entryTransforms :: "entry_transform list"
  entryProjectors :: "string \<Rightarrow> projector option"

definition default_options :: context_options where
  "default_options = \<lparr>entryTransforms = [], entryProjectors = (\<lambda>t. None)\<rparr>"

definition derive_step :: "entry \<Rightarrow> context_state \<Rightarrow> context_state" where
  "derive_step e c =
     (case entry_payload e of
        ThinkingLevelChange l \<Rightarrow> c\<lparr>ctx_thinkingLevel := l\<rparr>
      | ModelChange p m \<Rightarrow> c\<lparr>ctx_model := Some (p, m)\<rparr>
      | MessagePayload (AssistantMessage m) t \<Rightarrow> c\<lparr>ctx_model := Some (am_provider m, am_model m)\<rparr>
      | ActiveToolsChange ns \<Rightarrow> c\<lparr>ctx_activeToolNames := Some ns\<rparr>
      | _ \<Rightarrow> c)"

definition deriveSessionContextState :: "entry list \<Rightarrow> context_state" where
  "deriveSessionContextState path =
     fold derive_step path \<lparr>ctx_thinkingLevel = ''off'', ctx_model = None, ctx_activeToolNames = None\<rparr>"

text \<open>The loop from the end of the path to the newest compaction entry.\<close>

fun find_compaction :: "entry list \<Rightarrow> nat \<Rightarrow> nat option" where
  "find_compaction path 0 = None"
| "find_compaction path (Suc i) =
     (if entry_type_of (path ! i) = CompactionType then Some i else find_compaction path i)"

definition defaultContextEntryTransform :: entry_transform where
  "defaultContextEntryTransform path =
     (case find_compaction path (length path) of None \<Rightarrow> path
      | Some i \<Rightarrow> path ! i # drop (i + 1) path)"

definition buildContextEntries :: "entry list \<Rightarrow> context_options \<Rightarrow> entry list" where
  "buildContextEntries path options =
     fold (\<lambda>transform es. transform es) (entryTransforms options) (defaultContextEntryTransform path)"

definition sessionEntryToContextMessages ::
    "entry \<Rightarrow> nat \<Rightarrow> entry list \<Rightarrow> context_options \<Rightarrow> agent_message list" where
  "sessionEntryToContextMessages e i es options =
     (case entry_payload e of
        MessagePayload m t \<Rightarrow>
          (case m of AssistantMessage a \<Rightarrow> if am_stopReason a = Deferred then [] else [m] | _ \<Rightarrow> [m])
      | CompactionPayload c \<Rightarrow>
          createCompactionSummaryMessage (cd_summary c) (cd_tokensBefore c) (entry_timestamp e) # cd_retainedTail c
      | BranchSummaryPayload fromId summary d u \<Rightarrow>
          if summary \<noteq> [] then [createBranchSummaryMessage summary fromId (entry_timestamp e)] else []
      | CustomPayload customType d \<Rightarrow>
          (case entryProjectors options customType of None \<Rightarrow> []
           | Some project \<Rightarrow> (case project e i es of None \<Rightarrow> [] | Some ms \<Rightarrow> ms))
      | _ \<Rightarrow> [])"

definition buildSessionContext :: "entry list \<Rightarrow> context_options \<Rightarrow> session_context" where
  "buildSessionContext path options =
     (let es = buildContextEntries path options
      in context_state.extend (deriveSessionContextState path)
           \<lparr>ctx_messages = concat (map (\<lambda>i. sessionEntryToContextMessages (es ! i) i es options) [0..<length es])\<rparr>)"

subsection \<open>Properties\<close>

lemma to_llm_role:
  "to_llm m = Some m' \<Longrightarrow> role_of m' \<in> {RoleUser, RoleAssistant, RoleToolResult} \<and> to_llm m' = Some m'"
  by (cases m) (auto split: if_splits)

lemma convertToLlm_filter: "convertToLlm ms = List.map_filter to_llm ms"
  by (simp add: convertToLlm_def List.map_filter_def filter_map comp_def)

lemma convertToLlm_simps [simp]:
  "convertToLlm [] = []"
  "convertToLlm (m # ms) = (case to_llm m of None \<Rightarrow> convertToLlm ms | Some m' \<Rightarrow> m' # convertToLlm ms)"
  by (simp_all add: convertToLlm_filter map_filter_simps split: option.split)

text \<open>
  \<^verbatim>\<open>convertToLlm\<close> produces only user, assistant and tool-result messages, passes those through
  unchanged and in order, and is therefore idempotent.
\<close>

theorem convertToLlm_normalises:
  "list_all (\<lambda>m. role_of m \<in> {RoleUser, RoleAssistant, RoleToolResult}) (convertToLlm ms) \<and>
   convertToLlm (convertToLlm ms) = convertToLlm ms \<and>
   filter (\<lambda>m. role_of m \<in> {RoleAssistant, RoleToolResult}) (convertToLlm ms) =
     filter (\<lambda>m. role_of m \<in> {RoleAssistant, RoleToolResult}) ms"
proof (intro conjI)
  show "list_all (\<lambda>m. role_of m \<in> {RoleUser, RoleAssistant, RoleToolResult}) (convertToLlm ms)"
    by (induction ms) (auto split: option.splits dest: to_llm_role)
  show "convertToLlm (convertToLlm ms) = convertToLlm ms"
    by (induction ms) (auto split: option.split dest: to_llm_role)
  have "to_llm m = Some m' \<Longrightarrow> role_of m \<in> {RoleAssistant, RoleToolResult} \<longleftrightarrow> role_of m' \<in> {RoleAssistant, RoleToolResult}"
    "role_of m \<in> {RoleAssistant, RoleToolResult} \<Longrightarrow> to_llm m = Some m" for m m'
    by (cases m; auto split: if_splits)+
  then show "filter (\<lambda>m. role_of m \<in> {RoleAssistant, RoleToolResult}) (convertToLlm ms) =
      filter (\<lambda>m. role_of m \<in> {RoleAssistant, RoleToolResult}) ms"
    by (induction ms) (fastforce split: option.split)+
qed

lemma find_compaction_None:
  "n \<le> length path \<Longrightarrow> find_compaction path n = None \<longleftrightarrow> (\<forall>e\<in>set (take n path). entry_type_of e \<noteq> CompactionType)"
  by (induction n) (auto simp: take_Suc_conv_app_nth)

lemma find_compaction_newest:
  assumes "\<forall>e\<in>set post. entry_type_of e \<noteq> CompactionType" and "entry_type_of c = CompactionType"
  shows "find_compaction (pre @ c # post) (length (pre @ c # post)) = Some (length pre)"
proof -
  have "find_compaction (pre @ c # post) (Suc (length pre) + n) = Some (length pre)" if "n \<le> length post" for n
    using that
  proof (induction n)
    case 0
    then show ?case using assms(2) by simp
  next
    case (Suc n)
    then have "post ! n \<in> set post" by simp
    with assms(1) Suc show ?case by (simp add: nth_append)
  qed
  from this [of "length post"] show ?thesis by simp
qed

text \<open>The messages of a context are those its entries contribute one by one.\<close>

lemma build_messages:
  "ctx_messages (buildSessionContext path default_options) =
    concat (map (\<lambda>e. sessionEntryToContextMessages e 0 [] default_options) (defaultContextEntryTransform path))"
proof -
  define es where "es = buildContextEntries path default_options"
  have pos: "sessionEntryToContextMessages e i xs default_options =
      sessionEntryToContextMessages e 0 [] default_options" for e i xs
    by (cases "entry_payload e") (simp_all add: sessionEntryToContextMessages_def default_options_def)
  have "map (\<lambda>i. sessionEntryToContextMessages (es ! i) i es default_options) [0..<length es] =
      map (\<lambda>i. sessionEntryToContextMessages (es ! i) 0 [] default_options) [0..<length es]"
    by (intro map_cong refl pos)
  also have "\<dots> = map (\<lambda>e. sessionEntryToContextMessages e 0 [] default_options) (map ((!) es) [0..<length es])"
    unfolding map_map comp_def ..
  also have "\<dots> = map (\<lambda>e. sessionEntryToContextMessages e 0 [] default_options) es"
    unfolding map_nth ..
  finally have "ctx_messages (buildSessionContext path default_options) =
      concat (map (\<lambda>e. sessionEntryToContextMessages e 0 [] default_options) es)"
    unfolding buildSessionContext_def es_def Let_def by (simp only: session_context.simps context_state.defs)
  then show ?thesis by (simp add: es_def buildContextEntries_def default_options_def)
qed

lemma context_cut:
  assumes "entry_payload c = CompactionPayload d" and "\<forall>e\<in>set post. entry_type_of e \<noteq> CompactionType"
  shows "defaultContextEntryTransform (pre @ c # post) = c # post"
proof -
  have "entry_type_of c = CompactionType" using assms(1) by (simp add: entry_type_of_def)
  from find_compaction_newest [OF assms(2) this, of pre] show ?thesis
    by (simp add: defaultContextEntryTransform_def)
qed

text \<open>
  The newest compaction entry cuts the context: everything before it is replaced by its summary
  and its retained tail, and the messages after it are those the later entries contribute, whatever
  the older part of the branch holds.
\<close>

theorem compaction_cuts_context:
  assumes "entry_payload c = CompactionPayload d" and "\<forall>e\<in>set post. entry_type_of e \<noteq> CompactionType"
  shows "ctx_messages (buildSessionContext (pre @ c # post) default_options) =
    CompactionSummaryMessage (cd_summary d) (cd_tokensBefore d) (entry_timestamp c) # cd_retainedTail d @
    concat (map (\<lambda>e. sessionEntryToContextMessages e 0 [] default_options) post)"
  unfolding build_messages context_cut [OF assms]
  by (simp add: sessionEntryToContextMessages_def [of c] assms(1) createCompactionSummaryMessage_def)

definition sample_entry :: "id \<Rightarrow> entry_payload \<Rightarrow> entry" where
  "sample_entry i p = \<lparr>entry_id = i, entry_payload = p, parentId = None, entry_seq = 1, entry_timestamp = 9\<rparr>"

definition sample_compaction :: compaction_data where
  "sample_compaction = \<lparr>cd_summary = ''sum'', cd_retainedTail = [UserMessage (PlainContent ''tail'') 3],
     cd_tokensBefore = 100, cd_details = None, cd_usage = None\<rparr>"

theorem compaction_cuts_context_witness:
  "ctx_messages (buildSessionContext
     [sample_entry ''a'' (MessagePayload (UserMessage (PlainContent ''old'') 1) False),
      sample_entry ''b'' (CompactionPayload sample_compaction),
      sample_entry ''c'' (MessagePayload (UserMessage (PlainContent ''new'') 4) False)] default_options) =
   [CompactionSummaryMessage ''sum'' 100 9, UserMessage (PlainContent ''tail'') 3, UserMessage (PlainContent ''new'') 4]"
  using compaction_cuts_context [of "sample_entry ''b'' (CompactionPayload sample_compaction)" sample_compaction
      "[sample_entry ''c'' (MessagePayload (UserMessage (PlainContent ''new'') 4) False)]"
      "[sample_entry ''a'' (MessagePayload (UserMessage (PlainContent ''old'') 1) False)]"]
  by (simp add: sample_entry_def sample_compaction_def entry_type_of_def sessionEntryToContextMessages_def)

end
