(* ===== verification/SessionState.thy ===== *)
theory SessionState
  imports AgentTypes
begin

text \<open>
  The in-memory state of a session, \<^verbatim>\<open>pi/packages/agent/src/harness/session/state.ts\<close>: the class
  \<^verbatim>\<open>SessionState\<close> is the record \<open>session_state\<close>, a mutation of type \<^verbatim>\<open>SessionMutation\<close> a
  \<open>session_mutation\<close>, and \<open>applyMutation\<close> its only writer, which checks the mutation completely
  before it changes anything. The generators \<^verbatim>\<open>ordered\<close> and \<^verbatim>\<open>walkToRoot\<close> are lists; a walk comes
  with the error that ends it, which a consumer that stops early does not see. \<open>state_ok\<close> is the
  invariant of the component.
\<close>

datatype session_mutation =
    EntryMutation "string option" entry
  | RecordMutation lane_record
  | LaneMutation int string "id option"
  | NameMutation int "string option"
  | LabelMutation int id "string option"

record session_state =
  sequence :: int
  usedIds :: "id set"
  entries :: "entry list"
  entriesById :: "(id, entry) js_map"
  records :: "lane_record list"
  openOperationsByLane :: "(string, (id, lane_record) js_map) js_map"
  lanes :: "(string, id option) js_map"
  log :: "log_item list"
  stats :: session_stats
  session_name :: "string option"
  labels :: "(id, string) js_map"

definition zero_stats :: session_stats where
  "zero_stats = \<lparr>messageCount = 0, cachedTokens = 0, uncachedTokens = 0, stat_totalTokens = 0, costTotal = 0\<rparr>"

definition initial_state :: session_state where
  "initial_state = \<lparr>sequence = 0, usedIds = {}, entries = [], entriesById = [], records = [],
     openOperationsByLane = [], lanes = [(''main'', None)], log = [], stats = zero_stats,
     session_name = None, labels = []\<rparr>"

subsection \<open>Validation\<close>

definition nextSequence :: "session_state \<Rightarrow> int" where
  "nextSequence st = sequence st + 1"

definition assertValidLimit :: "int option \<Rightarrow> session_error + unit" where
  "assertValidLimit limit = (case limit of None \<Rightarrow> Inr () | Some n \<Rightarrow> if n \<le> 0 then Inl InvalidQuery else Inr ())"

definition assertValidCursor :: "int option \<Rightarrow> session_error + unit" where
  "assertValidCursor afterSeq = (case afterSeq of None \<Rightarrow> Inr () | Some n \<Rightarrow> if n < 0 then Inl InvalidQuery else Inr ())"

definition getLanes :: "session_state \<Rightarrow> lane_pointer list" where
  "getLanes st = map (\<lambda>(l, leaf). \<lparr>pointer_lane = l, pointer_leaf = leaf\<rparr>) (lanes st)"

definition requireLane :: "session_state \<Rightarrow> string \<Rightarrow> session_error + id option" where
  "requireLane st l = (case map_of (lanes st) l of None \<Rightarrow> Inl InvalidLane | Some leaf \<Rightarrow> Inr leaf)"

definition validateNewLane :: "session_state \<Rightarrow> string \<Rightarrow> session_error + unit" where
  "validateNewLane st l = (if map_of (lanes st) l \<noteq> None then Inl AlreadyExists else Inr ())"

definition getEntry :: "session_state \<Rightarrow> id \<Rightarrow> entry option" where
  "getEntry st i = map_of (entriesById st) i"

definition validateTarget :: "session_state \<Rightarrow> id option \<Rightarrow> session_error + unit" where
  "validateTarget st target = (case target of None \<Rightarrow> Inr ()
     | Some i \<Rightarrow> if getEntry st i = None then Inl NotFound else Inr ())"

definition validateUnusedId :: "session_state \<Rightarrow> id \<Rightarrow> session_error + unit" where
  "validateUnusedId st i = (if i \<in> usedIds st then Inl AlreadyExists else Inr ())"

subsection \<open>Mutations\<close>

fun mutation_seq :: "session_mutation \<Rightarrow> int" where
  "mutation_seq (EntryMutation l e) = entry_seq e"
| "mutation_seq (RecordMutation r) = record_seq r"
| "mutation_seq (LaneMutation s l leaf) = s"
| "mutation_seq (NameMutation s n) = s"
| "mutation_seq (LabelMutation s i l) = s"

definition apply_entry :: "string option \<Rightarrow> entry \<Rightarrow> session_state \<Rightarrow> session_error + session_state" where
  "apply_entry l e st =
     (if entry_id e \<in> usedIds st then Inl InvalidEntry
      else if \<not> (case l of None \<Rightarrow> True | Some l \<Rightarrow> map_of (lanes st) l = Some (parentId e)) then Inl InvalidEntry
      else if \<not> (case parentId e of None \<Rightarrow> True | Some p \<Rightarrow> getEntry st p \<noteq> None) then Inl InvalidEntry
      else Inr (st\<lparr>sequence := entry_seq e,
             usedIds := insert (entry_id e) (usedIds st),
             entries := entries st @ [e],
             entriesById := AList.update (entry_id e) e (entriesById st),
             lanes := (case l of None \<Rightarrow> lanes st | Some l \<Rightarrow> AList.update l (Some (entry_id e)) (lanes st)),
             log := log st @ [EntryItem (entry_seq e) e],
             stats := (if entry_type_of e = MessageType
                       then (stats st)\<lparr>messageCount := messageCount (stats st) + 1\<rparr> else stats st)\<rparr>))"

definition update_open_operations ::
    "lane_record \<Rightarrow> (string, (id, lane_record) js_map) js_map \<Rightarrow> (string, (id, lane_record) js_map) js_map" where
  "update_open_operations r m =
     (case record_content r of
        OperationStarted leaf i \<Rightarrow>
          AList.update (record_lane r)
            (AList.update (record_id r) r (case map_of m (record_lane r) of None \<Rightarrow> [] | Some ops \<Rightarrow> ops)) m
      | OperationFinished run out e \<Rightarrow>
          (case map_of m (record_lane r) of None \<Rightarrow> m
           | Some ops \<Rightarrow> AList.update (record_lane r) (AList.delete run ops) m)
      | _ \<Rightarrow> m)"

definition add_usage :: "record_body \<Rightarrow> session_stats \<Rightarrow> session_stats" where
  "add_usage b s =
     (case b of
        UsageRecorded u c \<Rightarrow>
          s\<lparr>cachedTokens := cachedTokens s + u_cacheRead u,
            uncachedTokens := uncachedTokens s + (u_input u + u_cacheWrite u),
            stat_totalTokens := stat_totalTokens s + u_totalTokens u,
            costTotal := costTotal s + cost_total (usage_cost u)\<rparr>
      | _ \<Rightarrow> s)"

definition apply_record :: "lane_record \<Rightarrow> session_state \<Rightarrow> session_error + session_state" where
  "apply_record r st =
     (if map_of (lanes st) (record_lane r) = None then Inl InvalidEntry
      else if record_id r \<in> usedIds st then Inl InvalidEntry
      else Inr (st\<lparr>sequence := record_seq r,
             usedIds := insert (record_id r) (usedIds st),
             records := records st @ [r],
             openOperationsByLane := update_open_operations r (openOperationsByLane st),
             log := log st @ [RecordItem (record_seq r) r],
             stats := add_usage (record_content r) (stats st)\<rparr>))"

definition applyMutation :: "session_mutation \<Rightarrow> session_state \<Rightarrow> session_error + session_state" where
  "applyMutation m st =
     (if mutation_seq m \<noteq> sequence st + 1 then Inl InvalidEntry
      else case m of
        EntryMutation l e \<Rightarrow> apply_entry l e st
      | RecordMutation r \<Rightarrow> apply_record r st
      | LaneMutation s l leaf \<Rightarrow>
          if (case leaf of None \<Rightarrow> False | Some i \<Rightarrow> getEntry st i = None) then Inl InvalidEntry
          else Inr (st\<lparr>sequence := s, lanes := AList.update l leaf (lanes st), log := log st @ [LaneItem s l leaf]\<rparr>)
      | NameMutation s n \<Rightarrow> Inr (st\<lparr>sequence := s, session_name := n, log := log st @ [NameItem s n]\<rparr>)
      | LabelMutation s i l \<Rightarrow>
          if getEntry st i = None then Inl InvalidEntry
          else Inr (st\<lparr>sequence := s,
                 labels := (case l of None \<Rightarrow> AList.delete i (labels st)
                            | Some x \<Rightarrow> AList.update i x (labels st)),
                 log := log st @ [LabelItem s i l]\<rparr>))"

fun apply_all :: "session_mutation list \<Rightarrow> session_state \<Rightarrow> session_error + session_state" where
  "apply_all [] st = Inr st"
| "apply_all (m # ms) st = andThen (applyMutation m st) (apply_all ms)"

subsection \<open>Queries\<close>

definition ordered :: "'a list \<Rightarrow> entry_order option \<Rightarrow> 'a list" where
  "ordered items order = (if order = Some OldestFirst then items else rev items)"

definition matchesEntryQuery :: "entry \<Rightarrow> entry_query \<Rightarrow> bool" where
  "matchesEntryQuery e q \<longleftrightarrow>
     (case q_type q of None \<Rightarrow> True | Some t \<Rightarrow> entry_type_of e = t) \<and>
     (case q_customType q of None \<Rightarrow> True
      | Some t \<Rightarrow> (case entry_payload e of CustomPayload t' d \<Rightarrow> t' = t | _ \<Rightarrow> False)) \<and>
     (case q_cursor q of None \<Rightarrow> True
      | Some s \<Rightarrow> if q_order q = Some OldestFirst then entry_seq e > s else entry_seq e < s)"

definition matchesRecordQuery :: "lane_record \<Rightarrow> record_query \<Rightarrow> bool" where
  "matchesRecordQuery r q \<longleftrightarrow>
     (case rq_lane q of None \<Rightarrow> True | Some l \<Rightarrow> record_lane r = l) \<and>
     (case rq_type q of None \<Rightarrow> True | Some t \<Rightarrow> body_type (record_content r) = t) \<and>
     (case rq_runId q of None \<Rightarrow> True
      | Some i \<Rightarrow> (case record_content r of OperationStarted leaf it \<Rightarrow> record_id r = i
                  | b \<Rightarrow> body_run b = Some i)) \<and>
     (case rq_operationKind q of None \<Rightarrow> True
      | Some k \<Rightarrow> (case record_content r of OperationStarted leaf it \<Rightarrow> intent_kind it = k | _ \<Rightarrow> False)) \<and>
     (case rq_afterSeq q of None \<Rightarrow> True | Some s \<Rightarrow> record_seq r > s)"

text \<open>
  The loop shared by the queries: keep what matches, stop once \<^verbatim>\<open>results.length\<close> reaches the limit.
  \<open>Inr\<close> tells that it stopped, \<open>Inl\<close> that it consumed everything.
\<close>

fun collect :: "('a \<Rightarrow> bool) \<Rightarrow> int option \<Rightarrow> 'a list \<Rightarrow> 'a list \<Rightarrow> 'a list + 'a list" where
  "collect p limit results [] = Inl results"
| "collect p limit results (x # xs) =
     (if p x
      then let results = results @ [x]
           in if limit = Some (int (length results)) then Inr results else collect p limit results xs
      else collect p limit results xs)"

definition collected :: "'a list + 'a list \<Rightarrow> 'a list" where
  "collected r = (case r of Inl xs \<Rightarrow> xs | Inr xs \<Rightarrow> xs)"

definition findEntries :: "session_state \<Rightarrow> entry_query \<Rightarrow> session_error + entry list" where
  "findEntries st q =
     andThen (assertValidLimit (q_limit q)) (\<lambda>_.
     andThen (assertValidCursor (q_cursor q)) (\<lambda>_.
     Inr (collected (collect (\<lambda>e. matchesEntryQuery e q) (q_limit q) [] (ordered (entries st) (q_order q))))))"

definition findRecords :: "session_state \<Rightarrow> record_query \<Rightarrow> session_error + lane_record list" where
  "findRecords st q =
     andThen (assertValidLimit (rq_limit q)) (\<lambda>_.
     andThen (assertValidCursor (rq_afterSeq q)) (\<lambda>_.
     Inr (collected (collect (\<lambda>r. matchesRecordQuery r q) (rq_limit q) [] (ordered (records st) (rq_order q))))))"

definition findOpenOperations :: "session_state \<Rightarrow> string \<Rightarrow> int option \<Rightarrow> session_error + lane_record list" where
  "findOpenOperations st l limit =
     andThen (assertValidLimit limit) (\<lambda>_.
       let ops = (case map_of (openOperationsByLane st) l of None \<Rightarrow> [] | Some m \<Rightarrow> rev (map snd m))
       in Inr (case limit of None \<Rightarrow> ops | Some n \<Rightarrow> take (nat n) ops))"

definition getLog :: "session_state \<Rightarrow> log_options \<Rightarrow> session_error + log_item list" where
  "getLog st options =
     andThen (assertValidLimit (log_limit options)) (\<lambda>_.
     andThen (assertValidCursor (log_afterSeq options)) (\<lambda>_.
     Inr (collected (collect
       (\<lambda>i. case log_afterSeq options of None \<Rightarrow> True | Some s \<Rightarrow> \<not> item_seq i \<le> s)
       (log_limit options) [] (log st)))))"

subsubsection \<open>Walking a branch\<close>

definition no_bounds :: branch_bounds where
  "no_bounds = \<lparr>stopAtType = None, stopAtId = None\<rparr>"

definition reached_bound :: "branch_bounds \<Rightarrow> entry \<Rightarrow> bool" where
  "reached_bound b e \<longleftrightarrow> stopAtId b = Some (entry_id e) \<or> stopAtType b = Some (entry_type_of e)"

function walk :: "session_state \<Rightarrow> branch_bounds \<Rightarrow> id set \<Rightarrow> entry \<Rightarrow> entry list \<times> session_error option" where
  "walk st b visited e =
     (if entry_id e \<in> visited then ([], Some InvalidEntry)
      else if reached_bound b e then ([e], None)
      else case parentId e of None \<Rightarrow> ([e], None)
      | Some p \<Rightarrow> (case getEntry st p of None \<Rightarrow> ([e], Some InvalidEntry)
          | Some e' \<Rightarrow> (case walk st b (insert (entry_id e) visited) e' of (es, err) \<Rightarrow> (e # es, err))))"
  by pat_completeness auto
termination
proof (relation "measure (\<lambda>(st, b, visited, e).
    card (insert (entry_id e) (entry_id ` snd ` set (entriesById st)) - visited))")
  fix st b visited p e' and e :: entry
  assume new: "entry_id e \<notin> visited" and "getEntry st p = Some e'"
  then have "entry_id e' \<in> entry_id ` snd ` set (entriesById st)"
    unfolding getEntry_def by (metis image_eqI map_of_SomeD snd_conv)
  then have "insert (entry_id e') (entry_id ` snd ` set (entriesById st)) - insert (entry_id e) visited
      \<subset> insert (entry_id e) (entry_id ` snd ` set (entriesById st)) - visited"
    using new by auto
  then show "((st, b, insert (entry_id e) visited, e'), (st, b, visited, e)) \<in> measure (\<lambda>(st, b, visited, e).
      card (insert (entry_id e) (entry_id ` snd ` set (entriesById st)) - visited))"
    by (auto intro!: psubset_card_mono)
qed simp

declare walk.simps [simp del]

definition walkToRoot ::
    "session_state \<Rightarrow> id option \<Rightarrow> branch_bounds \<Rightarrow> entry list \<times> session_error option" where
  "walkToRoot st start b = (case start of None \<Rightarrow> ([], None)
     | Some i \<Rightarrow> (case getEntry st i of None \<Rightarrow> ([], Some NotFound) | Some e \<Rightarrow> walk st b {} e))"

text \<open>The loop over a branch from the root: the entry that reaches the bound is the last one looked at.\<close>

fun upto_bound :: "branch_bounds \<Rightarrow> entry list \<Rightarrow> entry list" where
  "upto_bound b [] = []"
| "upto_bound b (e # es) = (if reached_bound b e then [e] else e # upto_bound b es)"

definition findEntriesOnBranch ::
    "session_state \<Rightarrow> entry_query \<Rightarrow> branch_bounds \<Rightarrow> id \<Rightarrow> session_error + entry list" where
  "findEntriesOnBranch st q b start =
     andThen (assertValidLimit (q_limit q)) (\<lambda>_.
     andThen (assertValidCursor (q_cursor q)) (\<lambda>_.
       let matches = (\<lambda>e. matchesEntryQuery e q) in
       if q_order q = Some OldestFirst
       then case walkToRoot st (Some start) no_bounds of
         (es, Some err) \<Rightarrow> Inl err
       | (es, None) \<Rightarrow> Inr (collected (collect matches (q_limit q) [] (upto_bound b (rev es))))
       else case walkToRoot st (Some start) b of
         (es, err) \<Rightarrow> (case collect matches (q_limit q) [] es of
             Inr results \<Rightarrow> Inr results
           | Inl results \<Rightarrow> (case err of Some err \<Rightarrow> Inl err | None \<Rightarrow> Inr results))))"

subsection \<open>Forking\<close>

fun number_from :: "int \<Rightarrow> (int \<Rightarrow> 'a) list \<Rightarrow> 'a list" where
  "number_from n [] = []"
| "number_from n (f # fs) = f n # number_from (n + 1) fs"

definition oldest_first :: entry_query where
  "oldest_first = \<lparr>q_type = None, q_customType = None, q_order = Some OldestFirst, q_limit = None, q_cursor = None\<rparr>"

definition fork_source :: "session_state \<Rightarrow> fork_options \<Rightarrow> session_error + (entry list \<times> lane_pointer list)" where
  "fork_source st options =
     (case options of
        ForkTree \<Rightarrow> andThen (findEntries st oldest_first) (\<lambda>es. Inr (es, getLanes st))
      | ForkBranch entryId position \<Rightarrow>
          andThen (case entryId of Some i \<Rightarrow> Inr (Some i) | None \<Rightarrow> requireLane st ''main'') (\<lambda>selected.
          andThen
            (case selected of None \<Rightarrow> Inr None
             | Some i \<Rightarrow> (case getEntry st i of None \<Rightarrow> Inl InvalidForkTarget
                 | Some e \<Rightarrow>
                     if entry_type_of e \<noteq> MessageType then Inl InvalidForkTarget
                     else let pos = (case position of Some p \<Rightarrow> p | None \<Rightarrow> if entryId = None then ForkAt else ForkBefore)
                          in Inr (if pos = ForkAt then Some (entry_id e) else parentId e)))
            (\<lambda>target.
          andThen (case target of None \<Rightarrow> Inr [] | Some t \<Rightarrow> findEntriesOnBranch st oldest_first no_bounds t) (\<lambda>es.
          Inr (es, [\<lparr>pointer_lane = ''main'', pointer_leaf = target\<rparr>])))))"

definition fork_writes ::
    "session_state \<Rightarrow> entry list \<Rightarrow> lane_pointer list \<Rightarrow> (int \<Rightarrow> session_mutation) list" where
  "fork_writes st es pointers =
     map (\<lambda>e s. EntryMutation None (e\<lparr>entry_seq := s\<rparr>)) es @
     map (\<lambda>p s. LaneMutation s (pointer_lane p) (pointer_leaf p)) pointers @
     (case session_name st of None \<Rightarrow> [] | Some n \<Rightarrow> [\<lambda>s. NameMutation s (Some n)]) @
     concat (map (\<lambda>e. case map_of (labels st) (entry_id e) of None \<Rightarrow> []
                      | Some l \<Rightarrow> [\<lambda>s. LabelMutation s (entry_id e) (Some l)]) es)"

definition createForkMutations :: "session_state \<Rightarrow> fork_options \<Rightarrow> session_error + session_mutation list" where
  "createForkMutations st options =
     andThen (fork_source st options) (\<lambda>(es, pointers). Inr (number_from 1 (fork_writes st es pointers)))"

subsection \<open>The invariant\<close>

definition entry_ids :: "session_state \<Rightarrow> id set" where
  "entry_ids st = entry_id ` set (entries st)"

definition parents_earlier :: "entry list \<Rightarrow> bool" where
  "parents_earlier es \<longleftrightarrow> (\<forall>i<length es. \<forall>p. parentId (es ! i) = Some p \<longrightarrow> p \<in> entry_id ` set (take i es))"

definition logged_entries :: "log_item list \<Rightarrow> entry list" where
  "logged_entries items = List.map_filter (\<lambda>i. case i of EntryItem s e \<Rightarrow> Some e | _ \<Rightarrow> None) items"

definition logged_records :: "log_item list \<Rightarrow> lane_record list" where
  "logged_records items = List.map_filter (\<lambda>i. case i of RecordItem s r \<Rightarrow> Some r | _ \<Rightarrow> None) items"

definition stats_of :: "entry list \<Rightarrow> lane_record list \<Rightarrow> session_stats" where
  "stats_of es rs =
     fold (\<lambda>r. add_usage (record_content r)) rs
       (zero_stats\<lparr>messageCount := int (length (filter (\<lambda>e. entry_type_of e = MessageType) es))\<rparr>)"

definition open_operations_of :: "string \<Rightarrow> lane_record list \<Rightarrow> (id, lane_record) js_map" where
  "open_operations_of l rs =
     fold (\<lambda>r m. if record_lane r \<noteq> l then m
        else case record_content r of OperationStarted leaf i \<Rightarrow> AList.update (record_id r) r m
           | OperationFinished run out e \<Rightarrow> AList.delete run m | _ \<Rightarrow> m) rs []"

text \<open>
  Sequence numbers count the log without gaps; the entries are a forest whose parents precede their
  children; every lane and label points to an entry; the indexes, the open operations and the
  statistics are functions of the entries and records, which are those of the log.
\<close>

definition state_ok :: "session_state \<Rightarrow> bool" where
  "state_ok st \<longleftrightarrow>
     sequence st = int (length (log st)) \<and>
     map item_seq (log st) = map (\<lambda>i. int i + 1) [0..<length (log st)] \<and>
     entries st = logged_entries (log st) \<and> records st = logged_records (log st) \<and>
     sorted_wrt (<) (map entry_seq (entries st)) \<and> (\<forall>e\<in>set (entries st). entry_seq e \<le> sequence st) \<and>
     distinct (map entry_id (entries st) @ map record_id (records st)) \<and>
     usedIds st = set (map entry_id (entries st) @ map record_id (records st)) \<and>
     entriesById st = map (\<lambda>e. (entry_id e, e)) (entries st) \<and>
     parents_earlier (entries st) \<and>
     distinct (map fst (lanes st)) \<and> ''main'' \<in> fst ` set (lanes st) \<and>
     (\<forall>(l, leaf)\<in>set (lanes st). \<forall>i. leaf = Some i \<longrightarrow> i \<in> entry_ids st) \<and>
     (\<forall>r\<in>set (records st). record_lane r \<in> fst ` set (lanes st)) \<and>
     distinct (map fst (labels st)) \<and> fst ` set (labels st) \<subseteq> entry_ids st \<and>
     stats st = stats_of (entries st) (records st) \<and>
     (\<forall>l. (case map_of (openOperationsByLane st) l of None \<Rightarrow> [] | Some m \<Rightarrow> m) = open_operations_of l (records st))"

lemma state_okD:
  assumes "state_ok st"
  shows "sequence st = int (length (log st))"
    and "entries st = logged_entries (log st)" and "records st = logged_records (log st)"
    and "sorted_wrt (<) (map entry_seq (entries st))" and "\<forall>e\<in>set (entries st). entry_seq e \<le> sequence st"
    and "distinct (map entry_id (entries st) @ map record_id (records st))"
    and "distinct (map entry_id (entries st))"
    and "usedIds st = set (map entry_id (entries st) @ map record_id (records st))"
    and "entriesById st = map (\<lambda>e. (entry_id e, e)) (entries st)"
    and "parents_earlier (entries st)"
    and "distinct (map fst (lanes st))" and "''main'' \<in> fst ` set (lanes st)"
    and "\<forall>(l, leaf)\<in>set (lanes st). \<forall>i. leaf = Some i \<longrightarrow> i \<in> entry_ids st"
    and "\<forall>r\<in>set (records st). record_lane r \<in> fst ` set (lanes st)"
    and "distinct (map fst (labels st))" and "fst ` set (labels st) \<subseteq> entry_ids st"
    and "stats st = stats_of (entries st) (records st)"
    and "\<forall>l. (case map_of (openOperationsByLane st) l of None \<Rightarrow> [] | Some m \<Rightarrow> m) =
      open_operations_of l (records st)"
    and "map item_seq (log st) = map (\<lambda>i. int i + 1) [0..<length (log st)]"
proof -
  note ok = assms [unfolded state_ok_def]
  show "distinct (map entry_id (entries st))" using ok by (metis distinct_append)
qed (insert assms [unfolded state_ok_def], (elim conjE, assumption)+)

lemma getEntry_iff:
  assumes "state_ok st"
  shows "getEntry st i = Some e \<longleftrightarrow> e \<in> set (entries st) \<and> entry_id e = i"
proof -
  have "distinct (map fst (map (\<lambda>e. (entry_id e, e)) (entries st)))"
    using state_okD(7) [OF assms] by (simp add: comp_def)
  then have "map_of (map (\<lambda>e. (entry_id e, e)) (entries st)) i = Some e \<longleftrightarrow>
      (i, e) \<in> set (map (\<lambda>e. (entry_id e, e)) (entries st))"
    by (rule map_of_eq_Some_iff)
  then show ?thesis unfolding getEntry_def state_okD(9) [OF assms] by auto
qed

lemma getEntry_ids: "state_ok st \<Longrightarrow> getEntry st i \<noteq> None \<longleftrightarrow> i \<in> entry_ids st"
  unfolding not_None_eq getEntry_iff entry_ids_def by blast

lemma getEntry_None: "state_ok st \<Longrightarrow> getEntry st i = None \<longleftrightarrow> i \<notin> entry_ids st"
  using getEntry_ids [of st i] by argo

lemma parents_earlier_snoc:
  "parents_earlier (es @ [e]) \<longleftrightarrow> parents_earlier es \<and> (\<forall>p. parentId e = Some p \<longrightarrow> p \<in> entry_id ` set es)"
  by (auto simp: parents_earlier_def nth_append less_Suc_eq)

lemma logged_snoc [simp]:
  "logged_entries (xs @ [i]) = logged_entries xs @ (case i of EntryItem s e \<Rightarrow> [e] | _ \<Rightarrow> [])"
  "logged_records (xs @ [i]) = logged_records xs @ (case i of RecordItem s r \<Rightarrow> [r] | _ \<Rightarrow> [])"
  by (simp_all add: logged_entries_def logged_records_def List.map_filter_def split: log_item.split)

lemma stats_of_entry:
  "stats_of (es @ [e]) rs = (if entry_type_of e = MessageType
     then (stats_of es rs)\<lparr>messageCount := messageCount (stats_of es rs) + 1\<rparr> else stats_of es rs)"
proof -
  have swap: "add_usage b (s\<lparr>messageCount := n\<rparr>) = (add_usage b s)\<lparr>messageCount := n\<rparr>" for b n and s :: session_stats
    by (cases s) (simp add: add_usage_def split: record_body.split)
  have comm: "fold (\<lambda>r. add_usage (record_content r)) rs (s\<lparr>messageCount := n\<rparr>) =
      (fold (\<lambda>r. add_usage (record_content r)) rs s)\<lparr>messageCount := n\<rparr>" for n and s :: session_stats
    by (induction rs arbitrary: s) (simp_all add: swap)
  have count: "messageCount (fold (\<lambda>r. add_usage (record_content r)) rs s) = messageCount s" for s
    by (induction rs arbitrary: s) (simp_all add: add_usage_def split: record_body.split)
  show ?thesis by (simp add: stats_of_def comm count)
qed

lemma stats_of_record: "stats_of es (rs @ [r]) = add_usage (record_content r) (stats_of es rs)"
  by (simp add: stats_of_def)

lemma open_operations_of_snoc:
  "open_operations_of l (rs @ [r]) =
     (if record_lane r \<noteq> l then open_operations_of l rs
      else case record_content r of OperationStarted leaf i \<Rightarrow> AList.update (record_id r) r (open_operations_of l rs)
         | OperationFinished run out e \<Rightarrow> AList.delete run (open_operations_of l rs)
         | _ \<Rightarrow> open_operations_of l rs)"
  by (simp add: open_operations_of_def split: record_body.split)

lemma update_open_operations_of:
  assumes "\<forall>l. (case map_of m l of None \<Rightarrow> [] | Some ops \<Rightarrow> ops) = open_operations_of l rs"
  shows "(case map_of (update_open_operations r m) l of None \<Rightarrow> [] | Some ops \<Rightarrow> ops) =
    open_operations_of l (rs @ [r])"
  using assms [rule_format, of l] assms [rule_format, of "record_lane r"]
  by (auto simp: update_open_operations_def open_operations_of_snoc map_of_alist_update
      split: record_body.split option.split_asm)

lemma initial_state_ok [inv_intros]: "state_ok initial_state"
  by (simp add: state_ok_def initial_state_def parents_earlier_def logged_entries_def logged_records_def
      stats_of_def open_operations_of_def map_filter_simps zero_stats_def)

lemma keys_update: "fst ` set (AList.update k v m) = insert k (fst ` set m)"
  by (induction m) auto

lemma set_update: "set (AList.update k v m) \<subseteq> insert (k, v) (set m)"
  by (induction m) auto

lemma update_fresh: "k \<notin> fst ` set m \<Longrightarrow> AList.update k v m = m @ [(k, v)]"
  by (induction m) auto

lemma apply_entry_ok:
  assumes "state_ok st" and "apply_entry l e st = Inr st'" and "entry_seq e = sequence st + 1"
  shows "state_ok st'"
proof -
  note ok = state_okD [OF assms(1)]
  have fresh: "entry_id e \<notin> usedIds st"
    and parent: "\<forall>p. parentId e = Some p \<longrightarrow> p \<in> entry_ids st"
    and lane: "\<forall>x. l = Some x \<longrightarrow> x \<in> fst ` set (lanes st)"
    and st': "st' = st\<lparr>sequence := entry_seq e,
             usedIds := insert (entry_id e) (usedIds st),
             entries := entries st @ [e],
             entriesById := AList.update (entry_id e) e (entriesById st),
             lanes := (case l of None \<Rightarrow> lanes st | Some l \<Rightarrow> AList.update l (Some (entry_id e)) (lanes st)),
             log := log st @ [EntryItem (entry_seq e) e],
             stats := (if entry_type_of e = MessageType
                       then (stats st)\<lparr>messageCount := messageCount (stats st) + 1\<rparr> else stats st)\<rparr>"
    using assms(2) getEntry_ids [OF assms(1)]
    by (auto simp: apply_entry_def split: if_splits option.splits dest!: map_of_SomeD intro: rev_image_eqI)
  have idx: "AList.update (entry_id e) e (map (\<lambda>e. (entry_id e, e)) (entries st)) =
      map (\<lambda>e. (entry_id e, e)) (entries st) @ [(entry_id e, e)]"
    using fresh ok(8) by (intro update_fresh) (auto simp: image_image)
  have lanes: "fst ` set (lanes st') = fst ` set (lanes st)" "distinct (map fst (lanes st'))"
    "set (lanes st') \<subseteq> set (lanes st) \<union> {(x, Some (entry_id e)) | x. True}"
    using ok(11) lane set_update by (auto simp: st' keys_update distinct_update split: option.split) fast
  have ids: "entry_ids st' = insert (entry_id e) (entry_ids st)" by (simp add: st' entry_ids_def)
  show ?thesis
    unfolding state_ok_def
  proof (intro conjI)
    show "\<forall>(l, leaf)\<in>set (lanes st'). \<forall>i. leaf = Some i \<longrightarrow> i \<in> entry_ids st'"
      using lanes(3) ok(13) ids by fastforce
    show "distinct (map entry_id (entries st') @ map record_id (records st'))"
      using fresh ok(6,8) by (auto simp: st')
    show "fst ` set (labels st') \<subseteq> entry_ids st'" using ok(16) ids by (auto simp: st')
    show "map item_seq (log st') = map (\<lambda>i. int i + 1) [0..<length (log st')]"
      using ok(19) ok(1) assms(3) by (simp add: st')
    show "parents_earlier (entries st')"
      using ok(10) parent by (simp add: st' parents_earlier_snoc entry_ids_def)
    show "sorted_wrt (<) (map entry_seq (entries st'))"
      using ok(4,5) assms(3) by (fastforce simp: st' sorted_wrt_append)
    show "\<forall>e\<in>set (entries st'). entry_seq e \<le> sequence st'"
      using ok(5) assms(3) by (fastforce simp: st')
    show "stats st' = stats_of (entries st') (records st')"
      using ok(17) by (simp add: st' stats_of_entry)
    show "\<forall>r\<in>set (records st'). record_lane r \<in> fst ` set (lanes st')"
      using ok(14) lanes(1) by (simp add: st')
    show "''main'' \<in> fst ` set (lanes st')" using ok(12) lanes(1) by simp
    show "distinct (map fst (lanes st'))" by (rule lanes)
    show "\<forall>l. (case map_of (openOperationsByLane st') l of None \<Rightarrow> [] | Some m \<Rightarrow> m) = open_operations_of l (records st')"
      using ok(18) by (simp add: st')
  qed (use ok assms(3) idx in \<open>simp_all add: st'\<close>)
qed

lemma apply_record_ok:
  assumes "state_ok st" and "apply_record r st = Inr st'" and "record_seq r = sequence st + 1"
  shows "state_ok st'"
proof -
  note ok = state_okD [OF assms(1)]
  have fresh: "record_id r \<notin> usedIds st" and lane: "record_lane r \<in> fst ` set (lanes st)"
    and st': "st' = st\<lparr>sequence := record_seq r, usedIds := insert (record_id r) (usedIds st),
             records := records st @ [r],
             openOperationsByLane := update_open_operations r (openOperationsByLane st),
             log := log st @ [RecordItem (record_seq r) r],
             stats := add_usage (record_content r) (stats st)\<rparr>"
    using assms(2) by (auto simp: apply_record_def map_of_eq_None_iff split: if_splits)
  have ids: "entry_ids st' = entry_ids st" by (simp add: st' entry_ids_def)
  show ?thesis
    unfolding state_ok_def
  proof (intro conjI)
    show "distinct (map entry_id (entries st') @ map record_id (records st'))"
      using fresh ok(6,8) by (auto simp: st')
    show "map item_seq (log st') = map (\<lambda>i. int i + 1) [0..<length (log st')]"
      using ok(19) ok(1) assms(3) by (simp add: st')
    show "\<forall>e\<in>set (entries st'). entry_seq e \<le> sequence st'"
      using ok(5) assms(3) by (fastforce simp: st')
    show "\<forall>l. (case map_of (openOperationsByLane st') l of None \<Rightarrow> [] | Some m \<Rightarrow> m) = open_operations_of l (records st')"
      using update_open_operations_of [OF ok(18)] by (simp add: st')
    show "stats st' = stats_of (entries st') (records st')"
      using ok(17) by (simp add: st' stats_of_record)
  qed (use ok assms(3) lane ids in \<open>simp_all add: st'\<close>)
qed

lemma applyMutation_ok [inv_intros]:
  assumes "state_ok st" and "applyMutation m st = Inr st'"
  shows "state_ok st'"
proof -
  note ok = state_okD [OF assms(1)]
  have seq: "mutation_seq m = sequence st + 1" using assms(2) by (simp add: applyMutation_def split: if_splits)
  show ?thesis
  proof (cases m)
    case (EntryMutation l e)
    with assms seq show ?thesis by (auto simp: applyMutation_def intro: apply_entry_ok)
  next
    case (RecordMutation r)
    with assms seq show ?thesis by (auto simp: applyMutation_def intro: apply_record_ok)
  next
    case (LaneMutation s l leaf)
    with assms(2) seq have target: "\<forall>i. leaf = Some i \<longrightarrow> i \<in> entry_ids st"
      and st': "st' = st\<lparr>sequence := s, lanes := AList.update l leaf (lanes st), log := log st @ [LaneItem s l leaf]\<rparr>"
      using getEntry_ids [OF assms(1)] by (auto simp: applyMutation_def split: if_splits option.splits)
    have ids: "entry_ids st' = entry_ids st" by (simp add: st' entry_ids_def)
    show ?thesis
      unfolding state_ok_def
    proof (intro conjI)
      show "\<forall>(l, leaf)\<in>set (lanes st'). \<forall>i. leaf = Some i \<longrightarrow> i \<in> entry_ids st'"
        using ok(13) target set_update [of l leaf "lanes st"] unfolding ids by (fastforce simp: st')
      show "map item_seq (log st') = map (\<lambda>i. int i + 1) [0..<length (log st')]"
        using ok(19) ok(1) LaneMutation seq by (simp add: st')
      show "\<forall>e\<in>set (entries st'). entry_seq e \<le> sequence st'"
        using ok(5) LaneMutation seq by (fastforce simp: st')
    qed (use ok LaneMutation seq ids in \<open>simp_all add: st' keys_update distinct_update\<close>)
  next
    case (NameMutation s n)
    with assms(2) seq have st': "st' = st\<lparr>sequence := s, session_name := n, log := log st @ [NameItem s n]\<rparr>"
      by (simp add: applyMutation_def)
    have ids: "entry_ids st' = entry_ids st" by (simp add: st' entry_ids_def)
    show ?thesis
      unfolding state_ok_def
    proof (intro conjI)
      show "map item_seq (log st') = map (\<lambda>i. int i + 1) [0..<length (log st')]"
        using ok(19) ok(1) NameMutation seq by (simp add: st')
      show "\<forall>e\<in>set (entries st'). entry_seq e \<le> sequence st'"
        using ok(5) NameMutation seq by (fastforce simp: st')
    qed (use ok NameMutation seq ids in \<open>simp_all add: st'\<close>)
  next
    case (LabelMutation s i l)
    with assms(2) seq have target: "i \<in> entry_ids st"
      and st': "st' = st\<lparr>sequence := s,
                 labels := (case l of None \<Rightarrow> AList.delete i (labels st) | Some x \<Rightarrow> AList.update i x (labels st)),
                 log := log st @ [LabelItem s i l]\<rparr>"
      using getEntry_ids [OF assms(1)] by (auto simp: applyMutation_def split: if_splits)
    have ids: "entry_ids st' = entry_ids st" by (simp add: st' entry_ids_def)
    show ?thesis
      unfolding state_ok_def
    proof (intro conjI)
      show "map item_seq (log st') = map (\<lambda>i. int i + 1) [0..<length (log st')]"
        using ok(19) ok(1) LabelMutation seq by (simp add: st')
      show "\<forall>e\<in>set (entries st'). entry_seq e \<le> sequence st'"
        using ok(5) LabelMutation seq by (fastforce simp: st')
      show "fst ` set (labels st') \<subseteq> entry_ids st'"
        using ok(16) target unfolding ids by (auto simp: st' keys_update AList.delete_eq split: option.split)
      show "distinct (map fst (labels st'))"
        using ok(15) by (simp add: st' distinct_update distinct_delete split: option.split)
    qed (use ok LabelMutation seq ids in \<open>simp_all add: st'\<close>)
  qed
qed

lemma apply_all_ok: "state_ok st \<Longrightarrow> apply_all ms st = Inr st' \<Longrightarrow> state_ok st'"
  by (induction ms arbitrary: st) (auto simp: andThen_eq_Inr intro: inv_intros)

lemma apply_all_append: "apply_all (ms @ ns) st = andThen (apply_all ms st) (apply_all ns)"
  by (induction ms arbitrary: st) (simp_all add: andThen_def split: sum.split)

subsection \<open>Queries against their specification\<close>

definition limited :: "int option \<Rightarrow> 'a list \<Rightarrow> 'a list" where
  "limited limit xs = (case limit of None \<Rightarrow> xs | Some n \<Rightarrow> take (nat n) xs)"

lemma nat_one_plus: "nat (1 + int n) = Suc n"
  by linarith

lemma collect_filter:
  assumes "case limit of None \<Rightarrow> True | Some n \<Rightarrow> int (length results) < n"
  shows "collected (collect p limit results xs) = limited limit (results @ filter p xs)"
    and "collect p limit results xs = Inl ys \<Longrightarrow> ys = results @ filter p xs"
  using assms
  by (induction p limit results xs rule: collect.induct)
    (auto simp: collected_def limited_def Let_def nat_one_plus split: option.splits if_splits)

lemma valid_limit: "assertValidLimit limit = Inr u \<Longrightarrow> case limit of None \<Rightarrow> True | Some n \<Rightarrow> 0 < n"
  by (auto simp: assertValidLimit_def split: option.splits if_splits)

definition is_branch :: "session_state \<Rightarrow> branch_bounds \<Rightarrow> entry \<Rightarrow> entry list \<Rightarrow> bool" where
  "is_branch st b e es \<longleftrightarrow>
     es \<noteq> [] \<and> hd es = e \<and> set es \<subseteq> set (entries st) \<and>
     successively (\<lambda>x y. parentId x = Some (entry_id y) \<and> entry_seq y < entry_seq x) es \<and>
     (reached_bound b (last es) \<or> parentId (last es) = None) \<and>
     (\<forall>x\<in>set (butlast es). \<not> reached_bound b x)"

lemma parent_index:
  assumes "state_ok st" and "k < length (entries st)" and "parentId (entries st ! k) = Some p"
  shows "\<exists>j<k. getEntry st p = Some (entries st ! j) \<and> entry_id (entries st ! j) = p \<and>
    entry_seq (entries st ! j) < entry_seq (entries st ! k)"
proof -
  note ok = state_okD [OF assms(1)]
  from ok(10) assms(2,3) have "p \<in> entry_id ` set (take k (entries st))" by (simp add: parents_earlier_def)
  then obtain j where j: "j < k" "entry_id (entries st ! j) = p"
    using assms(2) by (auto simp: in_set_conv_nth)
  moreover have "getEntry st p = Some (entries st ! j)"
    using getEntry_iff [OF assms(1)] j assms(2) by auto
  moreover have "entry_seq (entries st ! j) < entry_seq (entries st ! k)"
    using ok(4) j assms(2) by (simp add: sorted_wrt_iff_nth_less)
  ultimately show ?thesis by blast
qed

lemma is_branch_Cons:
  "is_branch st b e (x # xs) \<longleftrightarrow> x = e \<and> e \<in> set (entries st) \<and>
     (if xs = [] then reached_bound b e \<or> parentId e = None
      else \<not> reached_bound b e \<and> parentId e = Some (entry_id (hd xs)) \<and> entry_seq (hd xs) < entry_seq e \<and>
        is_branch st b (hd xs) xs)"
  by (cases xs) (auto simp: is_branch_def)

lemma is_branch_hd: "is_branch st b e xs \<Longrightarrow> xs \<noteq> [] \<and> hd xs = e"
  by (simp add: is_branch_def)

lemma walk_is_branch:
  assumes "state_ok st" and "k < length (entries st)" and "visited \<inter> entry_id ` set (take (Suc k) (entries st)) = {}"
  shows "\<exists>es. walk st b visited (entries st ! k) = (es, None) \<and> is_branch st b (entries st ! k) es"
  using assms(2,3)
proof (induction k arbitrary: visited rule: less_induct)
  case (less k)
  define e where "e = entries st ! k"
  have mem: "e \<in> set (entries st)" and new: "entry_id e \<notin> visited"
    using less.prems by (auto simp: e_def take_Suc_conv_app_nth)
  show ?case
  proof (cases "reached_bound b e \<or> parentId e = None")
    case True
    with mem new show ?thesis unfolding e_def [symmetric]
      by (auto simp: walk.simps [of st b visited e] is_branch_def split: option.split)
  next
    case False
    then obtain p where p: "parentId e = Some p" by auto
    from parent_index [OF assms(1) less.prems(1) p [unfolded e_def]] obtain j where
      j: "j < k" "getEntry st p = Some (entries st ! j)" "entry_id (entries st ! j) = p"
        "entry_seq (entries st ! j) < entry_seq e" unfolding e_def by blast
    have sub: "set (take (Suc j) (entries st)) \<subseteq> set (take k (entries st))"
      using j(1) by (intro set_take_subset_set_take) simp
    have "distinct (map entry_id (take (Suc k) (entries st)))"
      using state_okD(7) [OF assms(1)] by (metis distinct_take take_map)
    then have "entry_id e \<notin> entry_id ` set (take k (entries st))"
      using less.prems(1) by (simp add: e_def take_Suc_conv_app_nth)
    with sub less.prems have "insert (entry_id e) visited \<inter> entry_id ` set (take (Suc j) (entries st)) = {}"
      by (auto simp: take_Suc_conv_app_nth)
    from less.IH [OF j(1) _ this] j(1) less.prems(1) obtain es where
      es: "walk st b (insert (entry_id e) visited) (entries st ! j) = (es, None)"
        "is_branch st b (entries st ! j) es" by (meson less_trans)
    then have "walk st b visited e = (e # es, None)"
      using new False p j(2) by (simp add: walk.simps [of st b visited e])
    moreover have "is_branch st b e (e # es)"
      using es(2) mem False p j(3,4) is_branch_hd [OF es(2)] by (simp add: is_branch_Cons)
    ultimately show ?thesis unfolding e_def by blast
  qed
qed

lemma walkToRoot_branch:
  assumes "state_ok st" and "getEntry st i = Some e"
  shows "\<exists>es. walkToRoot st (Some i) b = (es, None) \<and> is_branch st b e es"
proof -
  from getEntry_iff [OF assms(1)] assms(2) obtain k where "k < length (entries st)" "e = entries st ! k"
    by (auto simp: in_set_conv_nth)
  with walk_is_branch [OF assms(1), of k "{}" b] assms(2) show ?thesis
    by (auto simp: walkToRoot_def)
qed

text \<open>A branch is determined by its first entry and its bounds.\<close>

lemma is_branch_unique:
  assumes "state_ok st" and "is_branch st b e es" and "is_branch st b e fs"
  shows "es = fs"
  using assms(2,3)
proof (induction es arbitrary: e fs)
  case Nil
  then show ?case by (simp add: is_branch_def)
next
  case (Cons x xs)
  have "x = e" "fs \<noteq> []" "hd fs = e" using Cons.prems by (simp_all add: is_branch_def)
  then obtain ys where fs: "fs = e # ys" "x = e" by (cases fs) simp_all
  have br: "is_branch st b e (e # xs)" "is_branch st b e (e # ys)" using Cons.prems fs by simp_all
  show ?case
  proof (cases "reached_bound b e \<or> parentId e = None")
    case True
    with br have "xs = []" "ys = []" by (auto simp: is_branch_Cons split: if_splits)
    with fs show ?thesis by simp
  next
    case False
    with br have l: "entry_id (hd xs) = entry_id (hd ys)" "is_branch st b (hd xs) xs" "is_branch st b (hd ys) ys"
      by (auto simp: is_branch_Cons split: if_splits)
    then have "hd xs \<in> set (entries st)" "hd ys \<in> set (entries st)"
      by (auto simp: is_branch_def neq_Nil_conv)
    with l(1) have "hd xs = hd ys" using getEntry_iff [OF assms(1)] by (metis option.inject)
    with l Cons.IH [of "hd ys" ys] fs show ?thesis by simp
  qed
qed

lemma findEntriesOnBranch_eq:
  assumes "state_ok st" and "getEntry st start = Some e"
    and "assertValidLimit (q_limit q) = Inr ()" and "assertValidCursor (q_cursor q) = Inr ()"
  shows "\<exists>es. is_branch st (if q_order q = Some OldestFirst then no_bounds else b) e es \<and>
    findEntriesOnBranch st q b start = Inr (limited (q_limit q) (filter (\<lambda>e. matchesEntryQuery e q)
      (if q_order q = Some OldestFirst then upto_bound b (rev es) else es)))"
proof -
  obtain es where es: "walkToRoot st (Some start) (if q_order q = Some OldestFirst then no_bounds else b) = (es, None)"
    "is_branch st (if q_order q = Some OldestFirst then no_bounds else b) e es"
    using walkToRoot_branch [OF assms(1,2)] by blast
  have lim: "case q_limit q of None \<Rightarrow> True | Some n \<Rightarrow> int (length ([] :: entry list)) < n"
    using valid_limit [OF assms(3)] by (simp split: option.splits)
  show ?thesis
  proof (cases "q_order q = Some OldestFirst")
    case True
    with es assms(3,4) collect_filter(1) [OF lim] show ?thesis
      by (auto simp: findEntriesOnBranch_def Let_def)
  next
    case False
    have "(case collect (\<lambda>e. matchesEntryQuery e q) (q_limit q) [] es of
        Inr results \<Rightarrow> Inr results | Inl results \<Rightarrow> (case None of Some err \<Rightarrow> Inl err | None \<Rightarrow> Inr results)) =
        Inr (collected (collect (\<lambda>e. matchesEntryQuery e q) (q_limit q) [] es))"
      by (simp add: collected_def split: sum.split)
    with False es assms(3,4) collect_filter(1) [OF lim] show ?thesis
      by (intro exI [of _ es]) (simp add: findEntriesOnBranch_def Let_def)
  qed
qed

lemma oldest_first_valid [simp]:
  "assertValidLimit (q_limit oldest_first) = Inr ()" "assertValidCursor (q_cursor oldest_first) = Inr ()"
  "q_order oldest_first = Some OldestFirst" "q_limit oldest_first = None" "matchesEntryQuery e oldest_first"
  by (simp_all add: oldest_first_def assertValidLimit_def assertValidCursor_def matchesEntryQuery_def)

lemma upto_no_bounds [simp]: "upto_bound no_bounds es = es"
  by (induction es) (simp_all add: reached_bound_def no_bounds_def)

lemma findEntries_oldest_first: "findEntries st oldest_first = Inr (entries st)"
  using collect_filter(1) [where limit = None and results = "[]" and p = "\<lambda>e. True" and xs = "entries st"]
  by (simp add: findEntries_def ordered_def limited_def assertValidLimit_def assertValidCursor_def oldest_first_def
      matchesEntryQuery_def)

subsection \<open>Replaying a fork\<close>

lemma apply_number_append:
  "apply_all (number_from n (fs @ gs)) st =
     andThen (apply_all (number_from n fs) st) (apply_all (number_from (n + int (length fs)) gs))"
proof -
  have "number_from n (fs @ gs) = number_from n fs @ number_from (n + int (length fs)) gs" for n
    by (induction fs arbitrary: n) (simp_all add: ac_simps)
  then show ?thesis by (simp add: apply_all_append)
qed

lemma getEntry_map_of: "state_ok st \<Longrightarrow> getEntry st i \<noteq> None \<longleftrightarrow> i \<in> entry_id ` set (entries st)"
  using getEntry_ids by (simp add: entry_ids_def)

text \<open>What a fork's replay never changes, and the steps of the replay.\<close>

lemma replay_entries:
  assumes "state_ok st" and "records st = []" and "distinct (map entry_id (entries st @ es))"
    and "parents_earlier (entries st @ es)"
  shows "\<exists>st'. apply_all (number_from (sequence st + 1) (map (\<lambda>e s. EntryMutation None (e\<lparr>entry_seq := s\<rparr>)) es)) st = Inr st' \<and>
    state_ok st' \<and> records st' = [] \<and> sequence st' = sequence st + int (length es) \<and>
    entries st' = entries st @ number_from (sequence st + 1) (map (\<lambda>e s. e\<lparr>entry_seq := s\<rparr>) es) \<and>
    lanes st' = lanes st \<and> labels st' = labels st \<and> session_name st' = session_name st"
  using assms
proof (induction es arbitrary: st)
  case Nil
  then show ?case by simp
next
  case (Cons e es)
  define e' where "e' = e\<lparr>entry_seq := sequence st + 1\<rparr>"
  have e': "entry_id e' = entry_id e" "parentId e' = parentId e" by (simp_all add: e'_def)
  have parent: "\<forall>p. parentId e = Some p \<longrightarrow> p \<in> entry_id ` set (entries st)"
  proof -
    have "(entries st @ e # es) ! length (entries st) = e" "take (length (entries st)) (entries st @ e # es) = entries st"
      by simp_all
    with Cons.prems(4) [unfolded parents_earlier_def, rule_format, of "length (entries st)"] show ?thesis by simp
  qed
  have "entry_id e \<notin> usedIds st"
    using state_okD(8) [OF Cons.prems(1)] Cons.prems(2,3) by auto
  moreover have "case parentId e of None \<Rightarrow> True | Some p \<Rightarrow> getEntry st p \<noteq> None"
    using parent getEntry_map_of [OF Cons.prems(1)] by (simp split: option.split)
  ultimately obtain st1 where st1: "applyMutation (EntryMutation None e') st = Inr st1" and
    fields: "entries st1 = entries st @ [e']" "records st1 = records st" "sequence st1 = sequence st + 1"
      "lanes st1 = lanes st" "labels st1 = labels st" "session_name st1 = session_name st"
    by (simp add: applyMutation_def apply_entry_def e' e'_def)
  have "parents_earlier (entries st1 @ es)"
    unfolding fields parents_earlier_def
  proof (intro allI impI)
    fix i p assume i: "i < length ((entries st @ [e']) @ es)" and p: "parentId (((entries st @ [e']) @ es) ! i) = Some p"
    have "parentId ((entries st @ e # es) ! i) = Some p"
      using p e'(2) by (auto simp: nth_append nth_Cons split: if_splits nat.splits)
    with Cons.prems(4) i have "p \<in> entry_id ` set (take i (entries st @ e # es))"
      by (simp add: parents_earlier_def)
    moreover have "entry_id ` set (take i (entries st @ e # es)) = entry_id ` set (take i ((entries st @ [e']) @ es))"
    proof -
      have "map entry_id (take i (entries st @ e # es)) = map entry_id (take i ((entries st @ [e']) @ es))"
        unfolding take_map [symmetric] using e'(1) by simp
      then show ?thesis by (metis list.set_map)
    qed
    ultimately show "p \<in> entry_id ` set (take i ((entries st @ [e']) @ es))" by simp
  qed
  with Cons.IH [of st1] Cons.prems applyMutation_ok [OF Cons.prems(1) st1] fields e'(1) obtain st' where
    "apply_all (number_from (sequence st1 + 1) (map (\<lambda>e s. EntryMutation None (e\<lparr>entry_seq := s\<rparr>)) es)) st1 = Inr st' \<and>
     state_ok st' \<and> records st' = [] \<and> sequence st' = sequence st1 + int (length es) \<and>
     entries st' = entries st1 @ number_from (sequence st1 + 1) (map (\<lambda>e s. e\<lparr>entry_seq := s\<rparr>) es) \<and>
     lanes st' = lanes st1 \<and> labels st' = labels st1 \<and> session_name st' = session_name st1"
    by auto
  with st1 fields show ?case by (auto simp: e'_def)
qed

lemma replay_lanes:
  assumes "state_ok st" and "\<forall>p\<in>set ps. \<forall>i. pointer_leaf p = Some i \<longrightarrow> i \<in> entry_ids st"
  shows "\<exists>st'. apply_all (number_from (sequence st + 1) (map (\<lambda>p s. LaneMutation s (pointer_lane p) (pointer_leaf p)) ps)) st = Inr st' \<and>
    state_ok st' \<and> records st' = records st \<and> sequence st' = sequence st + int (length ps) \<and> entries st' = entries st \<and>
    map_of (lanes st') = map_of (lanes st) ++ map_of (rev (map (\<lambda>p. (pointer_lane p, pointer_leaf p)) ps)) \<and>
    labels st' = labels st \<and> session_name st' = session_name st"
  using assms
proof (induction ps arbitrary: st)
  case Nil
  then show ?case by simp
next
  case (Cons p ps)
  define m where "m = LaneMutation (sequence st + 1) (pointer_lane p) (pointer_leaf p)"
  have ok: "getEntry st i \<noteq> None" if "pointer_leaf p = Some i" for i
    using Cons.prems that getEntry_ids by auto
  then obtain st1 where st1: "applyMutation m st = Inr st1" and
    fields: "entries st1 = entries st" "records st1 = records st" "sequence st1 = sequence st + 1"
      "lanes st1 = AList.update (pointer_lane p) (pointer_leaf p) (lanes st)" "labels st1 = labels st"
      "session_name st1 = session_name st"
    by (cases "pointer_leaf p") (auto simp: applyMutation_def m_def)
  have "entry_ids st1 = entry_ids st" by (simp add: entry_ids_def fields)
  with Cons.IH [of st1] Cons.prems applyMutation_ok [OF Cons.prems(1) st1] obtain st' where
    "apply_all (number_from (sequence st1 + 1) (map (\<lambda>p s. LaneMutation s (pointer_lane p) (pointer_leaf p)) ps)) st1 = Inr st' \<and>
    state_ok st' \<and> records st' = records st1 \<and> sequence st' = sequence st1 + int (length ps) \<and> entries st' = entries st1 \<and>
    map_of (lanes st') = map_of (lanes st1) ++ map_of (rev (map (\<lambda>p. (pointer_lane p, pointer_leaf p)) ps)) \<and>
    labels st' = labels st1 \<and> session_name st' = session_name st1"
    by auto
  with st1 fields show ?case by (auto simp: m_def map_of_alist_update map_add_assoc [symmetric])
qed

lemma replay_labels:
  assumes "state_ok st" and "entry_id ` set es \<subseteq> entry_ids st"
  shows "\<exists>st'. apply_all (number_from (sequence st + 1) (concat (map (\<lambda>e. case map_of L (entry_id e) of None \<Rightarrow> []
       | Some l \<Rightarrow> [\<lambda>s. LabelMutation s (entry_id e) (Some l)]) es))) st = Inr st' \<and>
    records st' = records st \<and> entries st' = entries st \<and> lanes st' = lanes st \<and>
    session_name st' = session_name st \<and>
    map_of (labels st') = map_of (labels st) ++ (map_of L |` (entry_id ` set es))"
  using assms
proof (induction es arbitrary: st)
  case Nil
  then show ?case by simp
next
  case (Cons e es)
  show ?case
  proof (cases "map_of L (entry_id e)")
    case None
    then have "map_of L |` (entry_id ` set (e # es)) = map_of L |` (entry_id ` set es)"
      by (auto simp: restrict_map_def fun_eq_iff)
    with None Cons show ?thesis by simp
  next
    case (Some l)
    define m where "m = LabelMutation (sequence st + 1) (entry_id e) (Some l)"
    have "getEntry st (entry_id e) \<noteq> None" using Cons.prems getEntry_ids by auto
    then obtain st1 where st1: "applyMutation m st = Inr st1" and
      fields: "entries st1 = entries st" "records st1 = records st" "sequence st1 = sequence st + 1"
        "lanes st1 = lanes st" "labels st1 = AList.update (entry_id e) l (labels st)"
        "session_name st1 = session_name st"
      by (auto simp: applyMutation_def m_def)
    have "entry_ids st1 = entry_ids st" by (simp add: entry_ids_def fields)
    with Cons.IH [of st1] Cons.prems applyMutation_ok [OF Cons.prems(1) st1] obtain st' where
      st': "apply_all (number_from (sequence st1 + 1) (concat (map (\<lambda>e. case map_of L (entry_id e) of None \<Rightarrow> []
         | Some l \<Rightarrow> [\<lambda>s. LabelMutation s (entry_id e) (Some l)]) es))) st1 = Inr st'"
        "records st' = records st1" "entries st' = entries st1" "lanes st' = lanes st1"
        "session_name st' = session_name st1"
        "map_of (labels st') = map_of (labels st1) ++ (map_of L |` (entry_id ` set es))"
      by auto
    have "(map_of (labels st))(entry_id e \<mapsto> l) ++ (map_of L |` (entry_id ` set es)) =
        map_of (labels st) ++ (map_of L |` (entry_id ` set (e # es)))"
      using Some by (auto simp: fun_eq_iff map_add_def restrict_map_def split: option.split)
    with st' st1 fields Some show ?thesis by (simp add: m_def map_of_alist_update)
  qed
qed

lemma replay_fork:
  assumes "distinct (map entry_id es)" and "parents_earlier es"
    and "\<forall>p\<in>set pointers. \<forall>i. pointer_leaf p = Some i \<longrightarrow> i \<in> entry_id ` set es"
  shows "\<exists>st'. apply_all (number_from 1 (fork_writes st es pointers)) initial_state = Inr st' \<and>
    entries st' = number_from 1 (map (\<lambda>e s. e\<lparr>entry_seq := s\<rparr>) es) \<and> records st' = [] \<and>
    map_of (lanes st') = [''main'' \<mapsto> None] ++ map_of (rev (map (\<lambda>p. (pointer_lane p, pointer_leaf p)) pointers)) \<and>
    session_name st' = session_name st \<and> map_of (labels st') = map_of (labels st) |` (entry_id ` set es)"
proof -
  have init: "sequence initial_state = 0" "entries initial_state = []" "records initial_state = []"
    "labels initial_state = []" "session_name initial_state = None" "lanes initial_state = [(''main'', None)]"
    by (simp_all add: initial_state_def)
  have ids: "entry_id ` set (number_from n (map (\<lambda>e s. e\<lparr>entry_seq := s\<rparr>) es)) = entry_id ` set es" for n
    by (induction es arbitrary: n) simp_all
  from replay_entries [OF initial_state_ok, of es] assms(1,2) obtain st1 where
    st1: "apply_all (number_from 1 (map (\<lambda>e s. EntryMutation None (e\<lparr>entry_seq := s\<rparr>)) es)) initial_state = Inr st1"
      "state_ok st1" "records st1 = []" "sequence st1 = int (length es)"
      "entries st1 = number_from 1 (map (\<lambda>e s. e\<lparr>entry_seq := s\<rparr>) es)"
      "lanes st1 = [(''main'', None)]" "labels st1 = []" "session_name st1 = None"
    by (auto simp: init)
  have ids1: "entry_ids st1 = entry_id ` set es" by (simp add: entry_ids_def st1 ids)
  with replay_lanes [OF st1(2), of pointers] assms(3) obtain st2 where
    st2: "apply_all (number_from (sequence st1 + 1) (map (\<lambda>p s. LaneMutation s (pointer_lane p) (pointer_leaf p)) pointers)) st1 = Inr st2"
      "state_ok st2" "records st2 = []" "sequence st2 = sequence st1 + int (length pointers)" "entries st2 = entries st1"
      "map_of (lanes st2) = [''main'' \<mapsto> None] ++ map_of (rev (map (\<lambda>p. (pointer_lane p, pointer_leaf p)) pointers))"
      "labels st2 = []" "session_name st2 = None"
    by (auto simp: st1)
  define nw where "nw = (case session_name st of None \<Rightarrow> [] | Some n \<Rightarrow> [\<lambda>s. NameMutation s (Some n)])"
  have "\<exists>st3. apply_all (number_from (sequence st2 + 1) nw) st2 = Inr st3 \<and> state_ok st3 \<and> records st3 = [] \<and>
      sequence st3 = sequence st2 + int (length nw) \<and> entries st3 = entries st2 \<and> lanes st3 = lanes st2 \<and>
      labels st3 = [] \<and> session_name st3 = session_name st"
  proof (cases "session_name st")
    case None
    with st2 show ?thesis by (simp add: nw_def)
  next
    case (Some n)
    then obtain st3 where st3: "applyMutation (NameMutation (sequence st2 + 1) (Some n)) st2 = Inr st3"
      "records st3 = records st2" "sequence st3 = sequence st2 + 1" "entries st3 = entries st2" "lanes st3 = lanes st2"
      "labels st3 = labels st2" "session_name st3 = Some n"
      by (simp add: applyMutation_def)
    with Some st2 applyMutation_ok [OF st2(2) st3(1)] show ?thesis by (simp add: nw_def)
  qed
  then obtain st3 where
    st3: "apply_all (number_from (sequence st2 + 1) nw) st2 = Inr st3" "state_ok st3" "records st3 = []"
      "sequence st3 = sequence st2 + int (length nw)" "entries st3 = entries st2" "lanes st3 = lanes st2"
      "labels st3 = []" "session_name st3 = session_name st" by blast
  have ids3: "entry_id ` set es \<subseteq> entry_ids st3"
    using ids1 by (simp add: entry_ids_def st3 st2)
  from replay_labels [OF st3(2) ids3, of "labels st"] obtain st4 where
    "apply_all (number_from (sequence st3 + 1) (concat (map (\<lambda>e. case map_of (labels st) (entry_id e) of None \<Rightarrow> []
       | Some l \<Rightarrow> [\<lambda>s. LabelMutation s (entry_id e) (Some l)]) es))) st3 = Inr st4"
    "records st4 = []" "entries st4 = entries st1" "lanes st4 = lanes st2" "session_name st4 = session_name st"
    "map_of (labels st4) = map_of (labels st) |` (entry_id ` set es)"
    by (auto simp: st3 st2)
  with st1 st2 st3 show ?thesis
    unfolding fork_writes_def nw_def [symmetric] apply_number_append
    by (simp add: ac_simps)
qed

lemma branch_props:
  assumes "state_ok st" and "is_branch st no_bounds e es"
  shows "parents_earlier (rev es) \<and> distinct (map entry_id es) \<and> (\<forall>x\<in>set es. entry_seq x \<le> entry_seq e)"
  using assms(2)
proof (induction es arbitrary: e)
  case Nil
  then show ?case by (simp add: is_branch_def)
next
  case (Cons x xs)
  show ?case
  proof (cases "xs = []")
    case True
    with Cons.prems show ?thesis
      by (auto simp: is_branch_Cons reached_bound_def no_bounds_def parents_earlier_def)
  next
    case False
    with Cons.prems have e: "x = e" "e \<in> set (entries st)" "parentId e = Some (entry_id (hd xs))"
      "entry_seq (hd xs) < entry_seq e" "is_branch st no_bounds (hd xs) xs"
      by (auto simp: is_branch_Cons)
    from Cons.IH [OF e(5)] have xs: "parents_earlier (rev xs)" "distinct (map entry_id xs)"
      "\<forall>x\<in>set xs. entry_seq x \<le> entry_seq (hd xs)" by blast+
    have "entry_id y \<noteq> entry_id e" if "y \<in> set xs" for y
    proof
      assume "entry_id y = entry_id e"
      moreover have "y \<in> set (entries st)" using e(5) that by (auto simp: is_branch_def)
      ultimately have "y = e" using e(2) getEntry_iff [OF assms(1)] by (metis option.inject)
      with xs(3) that e(4) show False by auto
    qed
    then have "entry_id e \<notin> entry_id ` set xs" by force
    moreover have "entry_id (hd xs) \<in> entry_id ` set xs" using False by simp
    ultimately show ?thesis using xs e by (auto simp: parents_earlier_snoc)
  qed
qed

definition renumbered :: "entry list \<Rightarrow> entry list" where
  "renumbered es = number_from 1 (map (\<lambda>e s. e\<lparr>entry_seq := s\<rparr>) es)"

lemma fork_branch_entries:
  assumes "state_ok st" and "t \<in> entry_ids st"
  shows "\<exists>e es. findEntriesOnBranch st oldest_first no_bounds t = Inr (rev es) \<and> is_branch st no_bounds e es \<and>
    entry_id e = t"
proof -
  obtain e where e: "getEntry st t = Some e" using getEntry_ids [OF assms(1)] assms(2) by auto
  then have "entry_id e = t" using getEntry_iff [OF assms(1)] by simp
  moreover have "\<exists>es. is_branch st no_bounds e es \<and> findEntriesOnBranch st oldest_first no_bounds t = Inr (rev es)"
    using findEntriesOnBranch_eq [OF assms(1) e oldest_first_valid(1,2), of no_bounds] by (simp add: limited_def)
  ultimately show ?thesis by blast
qed

lemma fork_source_ok:
  assumes "state_ok st" and "fork_source st options = Inr (es, pointers)"
  shows "distinct (map entry_id es) \<and> parents_earlier es \<and> set es \<subseteq> set (entries st) \<and>
    (\<forall>p\<in>set pointers. \<forall>i. pointer_leaf p = Some i \<longrightarrow> i \<in> entry_id ` set es)"
proof (cases options)
  case ForkTree
  note ok = state_okD [OF assms(1)]
  from ForkTree assms(2) have "es = entries st" "pointers = getLanes st"
    by (simp_all add: fork_source_def findEntries_oldest_first)
  then show ?thesis using ok(7,10,13) by (fastforce simp: getLanes_def entry_ids_def)
next
  case (ForkBranch entryId position)
  with assms(2) obtain target where
    src: "(case target of None \<Rightarrow> Inr [] | Some t \<Rightarrow> findEntriesOnBranch st oldest_first no_bounds t) = Inr es"
    and ptr: "pointers = [\<lparr>pointer_lane = ''main'', pointer_leaf = target\<rparr>]"
    and tgt: "target = None \<or> (\<exists>i e. getEntry st i = Some e \<and> (target = Some (entry_id e) \<or> target = parentId e))"
    by (fastforce simp: fork_source_def andThen_eq_Inr Let_def split: option.splits if_splits)
  show ?thesis
  proof (cases target)
    case None
    with src ptr show ?thesis by (simp add: parents_earlier_def)
  next
    case (Some t)
    have "t \<in> entry_ids st"
    proof -
      from tgt Some obtain i e where e: "getEntry st i = Some e" "entry_id e = t \<or> parentId e = Some t" by auto
      then have mem: "e \<in> set (entries st)" using getEntry_iff [OF assms(1)] by simp
      then obtain k where k: "k < length (entries st)" "e = entries st ! k" by (auto simp: in_set_conv_nth)
      show ?thesis
      proof (cases "entry_id e = t")
        case True
        with mem show ?thesis by (auto simp: entry_ids_def)
      next
        case False
        with e(2) k parent_index [OF assms(1) k(1), of t] getEntry_ids [OF assms(1), of t] show ?thesis by auto
      qed
    qed
    from fork_branch_entries [OF assms(1) this] Some src obtain e fs where
      fs: "es = rev fs" "is_branch st no_bounds e fs" "entry_id e = t" by auto
    moreover have "e \<in> set fs" using is_branch_hd [OF fs(2)] by (cases fs) auto
    ultimately show ?thesis
      using branch_props [OF assms(1) fs(2)] ptr Some by (auto simp: is_branch_def rev_map [symmetric])
  qed
qed

subsection \<open>Properties\<close>

text \<open>
  C3. Every state reached from the initial one by accepted mutations satisfies the invariant:
  gapless sequence numbers, unique ids, an entry forest whose parents precede their children, lanes
  and labels that point to entries, and indexes, open operations and statistics that agree with the log.
\<close>

theorem mutations_keep_invariant:
  assumes "apply_all ms initial_state = Inr st"
  shows "state_ok st"
  using apply_all_ok [OF initial_state_ok assms] .

definition sample_usage :: usage where
  "sample_usage = \<lparr>u_input = 3, u_output = 2, u_cacheRead = 4, u_cacheWrite = 1, u_cacheWrite1h = None,
     u_reasoning = None, u_totalTokens = 10,
     usage_cost = \<lparr>cost_input = 0, cost_output = 0, cost_cacheRead = 0, cost_cacheWrite = 0, cost_total = 1\<rparr>\<rparr>"

definition user_entry :: "id \<Rightarrow> id option \<Rightarrow> int \<Rightarrow> entry" where
  "user_entry i p s = \<lparr>entry_id = i, entry_payload = MessagePayload (UserMessage (PlainContent ''hi'') 0) False,
     parentId = p, entry_seq = s, entry_timestamp = 0\<rparr>"

definition sample_mutations :: "session_mutation list" where
  "sample_mutations =
     [EntryMutation (Some ''main'') (user_entry ''a'' None 1),
      EntryMutation (Some ''main'') (user_entry ''b'' (Some ''a'') 2),
      LaneMutation 3 ''side'' (Some ''a''),
      EntryMutation (Some ''side'') (user_entry ''c'' (Some ''a'') 4),
      LabelMutation 5 ''b'' (Some ''x''),
      NameMutation 6 (Some ''n'')]"

definition sample_state :: session_state where
  "sample_state = (case apply_all sample_mutations initial_state of Inl e \<Rightarrow> initial_state | Inr st \<Rightarrow> st)"

lemma sample_state: "apply_all sample_mutations initial_state = Inr sample_state"
  by (simp add: sample_state_def sample_mutations_def initial_state_def applyMutation_def apply_entry_def
      user_entry_def getEntry_def)

theorem mutations_keep_invariant_witness: "state_ok sample_state"
  using mutations_keep_invariant [OF sample_state] .

text \<open>
  C22. A branch query from an entry of a reached state never fails on the walk: the cycle and the
  missing-parent errors cannot occur. Its result is the entries of the one path from the start to the
  root or the bound that match, cut at the limit; \<^verbatim>\<open>oldestFirst\<close> walks the whole path first and
  reads it from the root up to the bound.
\<close>

theorem branch_query_spec:
  assumes "apply_all ms initial_state = Inr st" and "getEntry st start = Some e"
    and "assertValidLimit (q_limit q) = Inr ()" and "assertValidCursor (q_cursor q) = Inr ()"
  shows "\<exists>!es. is_branch st (if q_order q = Some OldestFirst then no_bounds else b) e es \<and>
    findEntriesOnBranch st q b start = Inr (limited (q_limit q) (filter (\<lambda>e. matchesEntryQuery e q)
      (if q_order q = Some OldestFirst then upto_bound b (rev es) else es)))"
  using findEntriesOnBranch_eq [OF apply_all_ok [OF initial_state_ok assms(1)] assms(2-4), of b]
    is_branch_unique [OF apply_all_ok [OF initial_state_ok assms(1)]]
  by (auto split del: if_split)

theorem branch_query_spec_witness:
  "\<exists>es. findEntriesOnBranch sample_state oldest_first no_bounds ''c'' = Inr es \<and>
     is_branch sample_state no_bounds (user_entry ''c'' (Some ''a'') 4) (rev es)"
proof -
  have "getEntry sample_state ''c'' = Some (user_entry ''c'' (Some ''a'') 4)"
    by (simp add: sample_state_def sample_mutations_def initial_state_def applyMutation_def apply_entry_def
      user_entry_def getEntry_def)
  from branch_query_spec [OF sample_state this oldest_first_valid(1,2), of no_bounds] obtain es where
    "is_branch sample_state no_bounds (user_entry ''c'' (Some ''a'') 4) es"
    "findEntriesOnBranch sample_state oldest_first no_bounds ''c'' = Inr (rev es)"
    by (auto simp: limited_def)
  then show ?thesis by (intro exI [of _ "rev es"]) simp
qed

text \<open>
  C23. Forking always succeeds on replay: for any reached state and accepted fork options, the fork's
  mutations apply to a new session without error, and yield exactly the selected entries renumbered
  from 1, the selected lanes, the session's name, the labels of the selected entries and no records.
\<close>

theorem fork_replays:
  assumes "apply_all ms initial_state = Inr st" and "createForkMutations st options = Inr writes"
  shows "\<exists>es pointers st'. fork_source st options = Inr (es, pointers) \<and> set es \<subseteq> set (entries st) \<and>
    apply_all writes initial_state = Inr st' \<and> state_ok st' \<and> entries st' = renumbered es \<and> records st' = [] \<and>
    map_of (lanes st') = [''main'' \<mapsto> None] ++ map_of (rev (map (\<lambda>p. (pointer_lane p, pointer_leaf p)) pointers)) \<and>
    session_name st' = session_name st \<and> map_of (labels st') = map_of (labels st) |` (entry_id ` set es)"
proof -
  have ok: "state_ok st" using apply_all_ok [OF initial_state_ok assms(1)] .
  from assms(2) obtain es pointers where src: "fork_source st options = Inr (es, pointers)"
    and ws: "writes = number_from 1 (fork_writes st es pointers)"
    by (auto simp: createForkMutations_def andThen_eq_Inr)
  from fork_source_ok [OF ok src] replay_fork [of es pointers st] obtain st' where
    st': "apply_all writes initial_state = Inr st'" "entries st' = renumbered es" "records st' = []"
    "map_of (lanes st') = [''main'' \<mapsto> None] ++ map_of (rev (map (\<lambda>p. (pointer_lane p, pointer_leaf p)) pointers))"
    "session_name st' = session_name st" "map_of (labels st') = map_of (labels st) |` (entry_id ` set es)"
    "set es \<subseteq> set (entries st)"
    unfolding ws renumbered_def by auto
  with src apply_all_ok [OF initial_state_ok st'(1)] show ?thesis by blast
qed

theorem fork_replays_witness:
  "\<exists>writes st'. createForkMutations sample_state ForkTree = Inr writes \<and> apply_all writes initial_state = Inr st' \<and>
     entries st' = renumbered (entries sample_state)"
proof -
  obtain writes where w: "createForkMutations sample_state ForkTree = Inr writes"
    by (simp add: createForkMutations_def fork_source_def findEntries_oldest_first)
  moreover have "fork_source sample_state ForkTree = Inr (entries sample_state, getLanes sample_state)"
    by (simp add: fork_source_def findEntries_oldest_first)
  ultimately show ?thesis using fork_replays [OF sample_state w] by auto
qed

end
