(* ===== verification/Reducer.thy ===== *)
theory Reducer
  imports SessionState "HOL-Library.Multiset"
begin

text \<open>
  Recovery of a lane from its durable log, \<^verbatim>\<open>pi/packages/agent/src/harness/reducer.ts\<close>.
  \<open>validateRecordLog\<close> checks a slice of records and rejects logs that the record protocol cannot
  produce; \<open>reduceLaneState\<close> rebuilds the lane's orchestration state from a valid slice.

  The validation loop is a fold of \<open>validate_record\<close> over the records in sequence order; its local
  maps and sets are the fields of \<open>validation\<close>. The key of a tool invocation, an id and an index joined
  by a separator, is a pair. \<^verbatim>\<open>Guard.IsDeepEqual\<close> of the package typebox is the argument
  \<open>deepEqual\<close>. An optional property that is left out when it does not apply is an option, and minus
  infinity is \<open>None\<close>.
\<close>

datatype corruption = MultipleOpenOperations | UnknownOperation | RecordAfterFinish | NonConsecutiveAttempt
  | InvalidCompactionReason | QueueAfterAbort | InvalidQueueCancellation | InconsistentStep
  | ToolCallMismatch | DuplicateToolInvocation | ProvisionedEntryMismatch | InvalidDeferredHandle

record record_log_slice =
  slice_lane :: string
  openOperations :: "lane_record list"
  slice_records :: "lane_record list"
  slice_entries :: "entry list"

type_synonym entry_index = "(id, entry) js_map"
type_synonym deep_equal = "provisioned_entry \<Rightarrow> provisioned_entry \<Rightarrow> bool"

definition index_entries :: "entry list \<Rightarrow> entry_index" where
  "index_entries es = fold (\<lambda>e m. AList.update (entry_id e) e m) es []"

definition require :: "bool \<Rightarrow> corruption \<Rightarrow> corruption + unit" where
  "require ok reason = (if ok then Inr () else Inl reason)"

subsection \<open>Validation\<close>

definition matchesProvisionedEntry :: "deep_equal \<Rightarrow> entry \<Rightarrow> provisioned_entry \<Rightarrow> bool" where
  "matchesProvisionedEntry deepEqual e target = deepEqual (provisioned_entry.truncate e) target"

definition validateExactProvisionedEntry :: "deep_equal \<Rightarrow> entry_index \<Rightarrow> provisioned_entry \<Rightarrow> corruption + unit" where
  "validateExactProvisionedEntry deepEqual ents target =
     (case map_of ents (entry_id target) of None \<Rightarrow> Inr ()
      | Some e \<Rightarrow> require (matchesProvisionedEntry deepEqual e target) ProvisionedEntryMismatch)"

definition validateResultEntry :: "entry_index \<Rightarrow> id \<Rightarrow> (entry \<Rightarrow> bool) \<Rightarrow> corruption + unit" where
  "validateResultEntry ents i matches =
     (case map_of ents i of None \<Rightarrow> Inr () | Some e \<Rightarrow> require (matches e) ProvisionedEntryMismatch)"

definition assistant_of :: "entry \<Rightarrow> assistant_message option" where
  "assistant_of e = (case entry_payload e of MessagePayload (AssistantMessage m) t \<Rightarrow> Some m | _ \<Rightarrow> None)"

definition tool_result_of :: "entry \<Rightarrow> tool_result_message option" where
  "tool_result_of e = (case entry_payload e of MessagePayload (ToolResultMessage m) t \<Rightarrow> Some m | _ \<Rightarrow> None)"

definition validateAttemptReason :: "step_attempt \<Rightarrow> corruption + unit" where
  "validateAttemptReason a =
     (if sa_step a = CompactionStep
      then require (sa_compactionReason a \<in> {Some ReasonManual, Some ReasonThreshold, Some ReasonOverflow})
             InvalidCompactionReason
      else require (sa_compactionReason a = None) InvalidCompactionReason)"

definition continues_series :: "int \<Rightarrow> step_attempt \<Rightarrow> step_attempt option \<Rightarrow> entry_index \<Rightarrow> bool" where
  "continues_series seq a previous ents =
     (case previous of None \<Rightarrow> False
      | Some p \<Rightarrow> sa_step p = sa_step a \<and>
          (case map_of ents (sa_resultEntryId p) of None \<Rightarrow> True | Some e \<Rightarrow> entry_seq e \<ge> seq))"

definition validateAttemptSequence ::
    "int \<Rightarrow> step_attempt \<Rightarrow> step_attempt option \<Rightarrow> entry_index \<Rightarrow> corruption + unit" where
  "validateAttemptSequence seq a previous ents =
     (let continues = continues_series seq a previous ents;
          expected = (if continues then sa_attempt (the previous) + 1 else 1)
      in if sa_attempt a \<noteq> expected then Inl NonConsecutiveAttempt
         else if \<not> continues \<or> sa_step a = AssistantStep then Inr ()
         else andThen (require (sa_resultEntryId a = sa_resultEntryId (the previous)) InconsistentStep) (\<lambda>_.
              require (sa_compactionReason a = sa_compactionReason (the previous)) InconsistentStep))"

definition validateAttemptResult :: "entry_index \<Rightarrow> step_attempt \<Rightarrow> corruption + unit" where
  "validateAttemptResult ents a =
     (case sa_step a of
        AssistantStep \<Rightarrow> validateResultEntry ents (sa_resultEntryId a) (\<lambda>e. assistant_of e \<noteq> None)
      | CompactionStep \<Rightarrow> validateResultEntry ents (sa_resultEntryId a) (\<lambda>e. entry_type_of e = CompactionType)
      | BranchSummaryStep \<Rightarrow> validateResultEntry ents (sa_resultEntryId a) (\<lambda>e. entry_type_of e = BranchSummaryType))"

definition at_index :: "'a list \<Rightarrow> int \<Rightarrow> 'a option" where
  "at_index xs i = (if 0 \<le> i \<and> i < int (length xs) then Some (xs ! nat i) else None)"

definition validateToolStart ::
    "tool_started \<Rightarrow> entry_index \<Rightarrow> (id \<times> int) list \<Rightarrow> corruption + (id \<times> int) list" where
  "validateToolStart t ents invocations =
     (let invocation = (ts_assistantEntryId t, ts_toolIndex t) in
      if invocation \<in> set invocations then Inl DuplicateToolInvocation
      else case Option.bind (map_of ents (ts_assistantEntryId t)) assistant_of of
        None \<Rightarrow> Inl ToolCallMismatch
      | Some m \<Rightarrow> (case at_index (tool_calls (am_content m)) (ts_toolIndex t) of
          None \<Rightarrow> Inl ToolCallMismatch
        | Some c \<Rightarrow>
            if call_id c \<noteq> ts_toolCallId t \<or> call_name c \<noteq> ts_toolName t then Inl ToolCallMismatch
            else andThen (validateResultEntry ents (ts_resultEntryId t) (\<lambda>e.
                   case tool_result_of e of None \<Rightarrow> False
                   | Some r \<Rightarrow> tr_toolCallId r = ts_toolCallId t \<and> tr_toolName r = ts_toolName t))
                 (\<lambda>_. Inr (invocation # invocations))))"

definition validateDeferredHandles :: "entry list \<Rightarrow> corruption + unit" where
  "validateDeferredHandles es =
     require (list_all (\<lambda>e. case assistant_of e of None \<Rightarrow> True
       | Some m \<Rightarrow> am_stopReason m = Deferred \<longrightarrow> am_deferred m \<noteq> None) es) InvalidDeferredHandle"

fun validate_each :: "('a \<Rightarrow> corruption + unit) \<Rightarrow> 'a list \<Rightarrow> corruption + unit" where
  "validate_each f [] = Inr ()"
| "validate_each f (x # xs) = andThen (f x) (\<lambda>_. validate_each f xs)"

definition validateOperationResult :: "deep_equal \<Rightarrow> entry_index \<Rightarrow> intent \<Rightarrow> corruption + unit" where
  "validateOperationResult deepEqual ents i =
     (case i of
        RunIntent prompt initialMessages sys resume \<Rightarrow>
          validate_each (validateExactProvisionedEntry deepEqual ents) initialMessages
      | CompactionIntent instructions resultEntryId \<Rightarrow>
          validateResultEntry ents resultEntryId (\<lambda>e. entry_type_of e = CompactionType)
      | NavigationIntent target summarize instructions label summaryEntryId \<Rightarrow>
          (case summaryEntryId of None \<Rightarrow> Inr ()
           | Some s \<Rightarrow> if s = [] then Inr ()
               else validateResultEntry ents s (\<lambda>e. entry_type_of e = BranchSummaryType)))"

record validation =
  starts :: "id list"
  finishedAt :: "(id, int) js_map"
  abortedAt :: "(id, int) js_map"
  queueEnqueues :: "(id, lane_record) js_map"
  latestAttempt :: "(id, step_attempt) js_map"
  toolInvocations :: "(id \<times> int) list"

definition check_owner :: "lane_record \<Rightarrow> validation \<Rightarrow> corruption + unit" where
  "check_owner r v =
     (case body_run (record_content r) of None \<Rightarrow> Inr ()
      | Some run \<Rightarrow>
          if run \<notin> set (starts v) then Inl UnknownOperation
          else case map_of (finishedAt v) run of None \<Rightarrow> Inr ()
            | Some f \<Rightarrow> require (\<not> record_seq r > f) RecordAfterFinish)"

definition validate_body :: "deep_equal \<Rightarrow> entry_index \<Rightarrow> lane_record \<Rightarrow> validation \<Rightarrow> corruption + validation" where
  "validate_body deepEqual ents r v =
     (case record_content r of
        OperationStarted leaf i \<Rightarrow> Inr v
      | OperationFinished run out e \<Rightarrow> Inr (v\<lparr>finishedAt := AList.update run (record_seq r) (finishedAt v)\<rparr>)
      | AbortRequested run \<Rightarrow> Inr (v\<lparr>abortedAt := AList.update run (record_seq r) (abortedAt v)\<rparr>)
      | StepAttempt a \<Rightarrow>
          andThen (validateAttemptReason a) (\<lambda>_.
          andThen (validateAttemptSequence (record_seq r) a (map_of (latestAttempt v) (sa_runId a)) ents) (\<lambda>_.
          andThen (validateAttemptResult ents a) (\<lambda>_.
          Inr (v\<lparr>latestAttempt := AList.update (sa_runId a) a (latestAttempt v)\<rparr>))))
      | ToolStarted t \<Rightarrow>
          andThen (validateToolStart t ents (toolInvocations v)) (\<lambda>invocations.
          Inr (v\<lparr>toolInvocations := invocations\<rparr>))
      | QueueEnqueued q target \<Rightarrow>
          if (case queue_run q of None \<Rightarrow> False
              | Some run \<Rightarrow> (case map_of (abortedAt v) run of None \<Rightarrow> False | Some s \<Rightarrow> record_seq r > s))
          then Inl QueueAfterAbort
          else andThen (validateExactProvisionedEntry deepEqual ents target) (\<lambda>_.
               Inr (v\<lparr>queueEnqueues := AList.update (entry_id target) r (queueEnqueues v)\<rparr>))
      | QueueCancelled run i \<Rightarrow>
          (case map_of (queueEnqueues v) i of None \<Rightarrow> Inl InvalidQueueCancellation
           | Some enqueue \<Rightarrow>
               if record_seq enqueue \<ge> record_seq r \<or> body_run (record_content enqueue) \<noteq> run \<or> map_of ents i \<noteq> None
               then Inl InvalidQueueCancellation else Inr v)
      | WriteDeferred run target \<Rightarrow>
          andThen (validateExactProvisionedEntry deepEqual ents target) (\<lambda>_. Inr v)
      | UsageRecorded u c \<Rightarrow> Inr v)"

definition validate_record :: "deep_equal \<Rightarrow> entry_index \<Rightarrow> lane_record \<Rightarrow> validation \<Rightarrow> corruption + validation" where
  "validate_record deepEqual ents r v =
     (case record_content r of
        OperationStarted leaf i \<Rightarrow>
          andThen (validateOperationResult deepEqual ents i) (\<lambda>_. Inr (v\<lparr>starts := record_id r # starts v\<rparr>))
      | _ \<Rightarrow> andThen (check_owner r v) (\<lambda>_. validate_body deepEqual ents r v))"

fun validate_records ::
    "deep_equal \<Rightarrow> entry_index \<Rightarrow> lane_record list \<Rightarrow> validation \<Rightarrow> corruption + validation" where
  "validate_records deepEqual ents [] v = Inr v"
| "validate_records deepEqual ents (r # rs) v =
     andThen (validate_record deepEqual ents r v) (validate_records deepEqual ents rs)"

definition no_validation :: validation where
  "no_validation = \<lparr>starts = [], finishedAt = [], abortedAt = [], queueEnqueues = [], latestAttempt = [],
     toolInvocations = []\<rparr>"

definition validateRecordLog :: "deep_equal \<Rightarrow> 'a record_log_slice_scheme \<Rightarrow> corruption + unit" where
  "validateRecordLog deepEqual inp =
     (if length (openOperations inp) > 1 then Inl MultipleOpenOperations
      else let ents = index_entries (slice_entries inp) in
        andThen (validateDeferredHandles (map snd ents)) (\<lambda>_.
        andThen (validate_records deepEqual ents (sort_key record_seq (slice_records inp)) no_validation) (\<lambda>_.
        Inr ())))"

subsection \<open>Reduction\<close>

record lane_configuration =
  cfg_model :: "string \<times> string"
  cfg_thinkingLevel :: string
  cfg_activeToolNames :: "string list"

record lane_reduction_input = record_log_slice +
  leafId :: "id option"
  ownEntries :: "entry list"
  configurationEntries :: "entry list"
  default_configuration :: lane_configuration

record step_state =
  step_kind_of :: step_kind
  step_attempts :: int
  step_resultEntryId :: id
  step_compactionReason :: "compaction_reason option"

record tool_call_state =
  tcs_toolIndex :: nat
  tcs_toolCall :: tool_call
  tcs_started :: "tool_started option"
  tcs_resultExists :: bool
  tcs_terminate :: bool

record tool_batch_state =
  tb_assistantEntryId :: id
  tb_calls :: "tool_call_state list"
  tb_truncated :: bool
  tb_unresolved :: bool

record newest_own =
  own_entryId :: id
  own_type :: entry_type
  own_role :: "message_role option"
  own_stopReason :: "stop_reason option"

record operation_state =
  op_id :: id
  op_kind :: operation_kind
  op_intent :: intent
  op_aborting :: bool
  op_step :: "step_state option"
  op_toolBatch :: "tool_batch_state option"
  op_missingInitialMessages :: "provisioned_entry list"
  op_pendingSteer :: "provisioned_entry list"
  op_pendingFollowUp :: "provisioned_entry list"
  op_pendingWrites :: "provisioned_entry list"
  op_deferred :: "deferred_handle option"
  op_overflowRecoveryUsed :: bool
  op_newestOwn :: "newest_own option"
  op_targetResult :: "bool option"
  op_targetSummary :: "bool option"

record lane_state =
  ls_lane :: string
  ls_leafId :: "id option"
  ls_operation :: "operation_state option"
  ls_pendingNextRun :: "provisioned_entry list"

datatype failure_source = FromStep | FromDeferredFetch

record terminal_failure =
  tf_entryId :: id
  tf_source :: failure_source
  tf_message :: assistant_message

record lane_reduction_result =
  laneState :: lane_state
  effectiveConfiguration :: lane_configuration
  terminalFailure :: "terminal_failure option"

definition configure :: "entry \<Rightarrow> lane_configuration \<Rightarrow> lane_configuration" where
  "configure e c =
     (case entry_payload e of
        ModelChange p m \<Rightarrow> c\<lparr>cfg_model := (p, m)\<rparr>
      | ThinkingLevelChange l \<Rightarrow> c\<lparr>cfg_thinkingLevel := l\<rparr>
      | ActiveToolsChange ns \<Rightarrow> c\<lparr>cfg_activeToolNames := ns\<rparr>
      | MessagePayload (AssistantMessage m) t \<Rightarrow> c\<lparr>cfg_model := (am_provider m, am_model m)\<rparr>
      | _ \<Rightarrow> c)"

definition deriveEffectiveConfiguration :: "lane_reduction_input \<Rightarrow> lane_configuration" where
  "deriveEffectiveConfiguration inp =
     fold configure
       (sort_key entry_seq (map snd (index_entries (configurationEntries inp @ ownEntries inp))))
       (default_configuration inp)"

definition deriveNewestOwn :: "entry option \<Rightarrow> newest_own option" where
  "deriveNewestOwn e = map_option (\<lambda>e.
     case entry_payload e of
       MessagePayload m t \<Rightarrow> \<lparr>own_entryId = entry_id e, own_type = entry_type_of e, own_role = Some (role_of m),
         own_stopReason = (case m of AssistantMessage a \<Rightarrow> Some (am_stopReason a) | _ \<Rightarrow> None)\<rparr>
     | _ \<Rightarrow> \<lparr>own_entryId = entry_id e, own_type = entry_type_of e, own_role = None, own_stopReason = None\<rparr>) e"

definition tool_starts :: "id \<Rightarrow> id \<Rightarrow> lane_record list \<Rightarrow> (int, tool_started) js_map" where
  "tool_starts operationId assistantId rs =
     fold (\<lambda>r m. case record_content r of
         ToolStarted t \<Rightarrow> if ts_runId t = operationId \<and> ts_assistantEntryId t = assistantId
           then AList.update (ts_toolIndex t) t m else m
       | _ \<Rightarrow> m) rs []"

definition blocked_result :: "entry \<Rightarrow> id list \<Rightarrow> id \<Rightarrow> entry \<Rightarrow> bool" where
  "blocked_result assistantEntry deferredWriteIds callId e \<longleftrightarrow>
     entry_seq e > entry_seq assistantEntry \<and> entry_id e \<notin> set deferredWriteIds \<and>
     (case tool_result_of e of None \<Rightarrow> False | Some r \<Rightarrow> tr_toolCallId r = callId)"

definition terminates :: "entry option \<Rightarrow> bool" where
  "terminates e = (case e of None \<Rightarrow> False
     | Some e \<Rightarrow> (case entry_payload e of MessagePayload m t \<Rightarrow> t | _ \<Rightarrow> False))"

definition tool_call_state :: "entry \<Rightarrow> (int, tool_started) js_map \<Rightarrow> entry list \<Rightarrow> entry_index \<Rightarrow> id list \<Rightarrow>
    nat \<Rightarrow> tool_call \<Rightarrow> tool_call_state" where
  "tool_call_state assistantEntry tstarts own ents deferredWriteIds i c =
     (let started = map_of tstarts (int i);
          startedResult = (case started of None \<Rightarrow> None | Some t \<Rightarrow> map_of ents (ts_resultEntryId t));
          blocked = List.find (blocked_result assistantEntry deferredWriteIds (call_id c)) own;
          result = (if startedResult \<noteq> None then startedResult else blocked)
      in \<lparr>tcs_toolIndex = i, tcs_toolCall = c, tcs_started = started, tcs_resultExists = (result \<noteq> None),
          tcs_terminate = terminates result\<rparr>)"

definition has_tool_call :: "entry \<Rightarrow> bool" where
  "has_tool_call e = (case assistant_of e of None \<Rightarrow> False | Some m \<Rightarrow> tool_calls (am_content m) \<noteq> [])"

definition deriveToolBatch ::
    "id \<Rightarrow> lane_record list \<Rightarrow> entry list \<Rightarrow> entry_index \<Rightarrow> id list \<Rightarrow> tool_batch_state option" where
  "deriveToolBatch operationId rs own ents deferredWriteIds =
     (case List.find has_tool_call (rev own) of None \<Rightarrow> None
      | Some assistantEntry \<Rightarrow>
          let m = the (assistant_of assistantEntry);
              tstarts = tool_starts operationId (entry_id assistantEntry) rs;
              cs = tool_calls (am_content m);
              calls = map (\<lambda>i. tool_call_state assistantEntry tstarts own ents deferredWriteIds i (cs ! i)) [0..<length cs]
          in Some \<lparr>tb_assistantEntryId = entry_id assistantEntry, tb_calls = calls,
               tb_truncated = (am_stopReason m = Length),
               tb_unresolved = list_ex (\<lambda>c. \<not> tcs_resultExists c) calls\<rparr>)"

definition enqueued_target :: "lane_record \<Rightarrow> (queue_kind \<times> provisioned_entry) option" where
  "enqueued_target r = (case record_content r of QueueEnqueued q t \<Rightarrow> Some (q, t) | _ \<Rightarrow> None)"

definition cancelled_ids :: "lane_record list \<Rightarrow> id list" where
  "cancelled_ids rs = List.map_filter (\<lambda>r. case record_content r of QueueCancelled run i \<Rightarrow> Some i | _ \<Rightarrow> None) rs"

definition pending_queue :: "lane_record list \<Rightarrow> entry_index \<Rightarrow> (queue_kind \<times> provisioned_entry) list" where
  "pending_queue rs ents =
     filter (\<lambda>(q, t). map_of ents (entry_id t) = None \<and> entry_id t \<notin> set (cancelled_ids rs))
       (List.map_filter enqueued_target rs)"

definition initial_messages :: "intent \<Rightarrow> provisioned_entry list" where
  "initial_messages i = (case i of RunIntent p ms s r \<Rightarrow> ms | _ \<Rightarrow> [])"

definition intent_of :: "lane_record \<Rightarrow> intent option" where
  "intent_of r = (case record_content r of OperationStarted leaf i \<Rightarrow> Some i | _ \<Rightarrow> None)"

definition belongs_to :: "id \<Rightarrow> lane_record \<Rightarrow> bool" where
  "belongs_to i r = (case record_content r of OperationStarted leaf it \<Rightarrow> record_id r = i | b \<Rightarrow> body_run b = Some i)"

definition step_attempts_of :: "lane_record list \<Rightarrow> (int \<times> step_attempt) list" where
  "step_attempts_of rs =
     List.map_filter (\<lambda>r. case record_content r of StepAttempt a \<Rightarrow> Some (record_seq r, a) | _ \<Rightarrow> None) rs"

definition deferred_writes :: "lane_record list \<Rightarrow> provisioned_entry list" where
  "deferred_writes rs =
     List.map_filter (\<lambda>r. case record_content r of WriteDeferred run t \<Rightarrow> Some t | _ \<Rightarrow> None) rs"

definition newest_step :: "lane_record list \<Rightarrow> entry_index \<Rightarrow> step_state option" where
  "newest_step rs ents =
     (case rev (step_attempts_of rs) of [] \<Rightarrow> None
      | (s, a) # _ \<Rightarrow>
          if map_of ents (sa_resultEntryId a) \<noteq> None then None
          else Some \<lparr>step_kind_of = sa_step a, step_attempts = sa_attempt a, step_resultEntryId = sa_resultEntryId a,
                 step_compactionReason = (if sa_step a = CompactionStep then sa_compactionReason a else None)\<rparr>)"

definition consumed_input_ids :: "intent \<Rightarrow> lane_record list \<Rightarrow> id list" where
  "consumed_input_ids i rs =
     map entry_id (initial_messages i) @
     map (entry_id \<circ> snd) (filter (\<lambda>(q, t). q \<noteq> NextRunQueue) (List.map_filter enqueued_target rs))"

definition newest_consumed :: "id list \<Rightarrow> entry_index \<Rightarrow> int option" where
  "newest_consumed ids ents =
     fold (\<lambda>i newest. case map_of ents i of None \<Rightarrow> newest
       | Some e \<Rightarrow> if entry_type_of e \<noteq> MessageType then newest
           else Some (case newest of None \<Rightarrow> entry_seq e | Some s \<Rightarrow> max s (entry_seq e))) ids None"

definition overflow_recovery_used :: "lane_record list \<Rightarrow> int option \<Rightarrow> bool" where
  "overflow_recovery_used rs newest =
     list_ex (\<lambda>(s, a). sa_step a = CompactionStep \<and> sa_compactionReason a = Some ReasonOverflow \<and>
       (case newest of None \<Rightarrow> True | Some n \<Rightarrow> s > n)) (step_attempts_of rs)"

definition produced_by_deferred_fetch :: "id \<Rightarrow> lane_record list \<Rightarrow> entry list \<Rightarrow> bool" where
  "produced_by_deferred_fetch i rs own \<longleftrightarrow>
     list_ex (\<lambda>r. case record_content r of UsageRecorded u (StepUsage CauseDeferredFetch run e a s) \<Rightarrow> e = i | _ \<Rightarrow> False) rs \<or>
     (case rev own of _ # e # _ \<Rightarrow>
        (case assistant_of e of None \<Rightarrow> False | Some m \<Rightarrow> am_stopReason m = Deferred) | _ \<Rightarrow> False)"

definition derive_terminal_failure :: "lane_record list \<Rightarrow> entry list \<Rightarrow> id list \<Rightarrow> terminal_failure option" where
  "derive_terminal_failure rs own deferredWriteIds =
     (case rev own of [] \<Rightarrow> None
      | e # _ \<Rightarrow> (case assistant_of e of None \<Rightarrow> None
          | Some m \<Rightarrow>
              if am_stopReason m \<noteq> ErrorStop \<or> entry_id e \<in> set deferredWriteIds then None
              else let byStep = list_ex (\<lambda>(s, a). sa_resultEntryId a = entry_id e) (step_attempts_of rs)
                   in if byStep \<or> produced_by_deferred_fetch (entry_id e) rs own
                      then Some \<lparr>tf_entryId = entry_id e,
                             tf_source = (if byStep then FromStep else FromDeferredFetch), tf_message = m\<rparr>
                      else None))"

definition newest_deferred :: "entry list \<Rightarrow> deferred_handle option" where
  "newest_deferred own =
     (case rev own of [] \<Rightarrow> None
      | e # _ \<Rightarrow> (case assistant_of e of None \<Rightarrow> None
          | Some m \<Rightarrow> if am_stopReason m = Deferred then am_deferred m else None))"

definition reduce_operation ::
    "lane_record \<Rightarrow> intent \<Rightarrow> lane_record list \<Rightarrow> entry list \<Rightarrow> entry_index \<Rightarrow> operation_state" where
  "reduce_operation started i rs own ents =
     (let opRecords = filter (belongs_to (record_id started)) rs;
          aborting = list_ex (\<lambda>r. body_type (record_content r) = AbortRequestedType) opRecords;
          pending = (\<lambda>q. if aborting then []
            else map snd (filter (\<lambda>(q', t). q' = q) (pending_queue rs ents)))
      in \<lparr>op_id = record_id started, op_kind = intent_kind i, op_intent = i, op_aborting = aborting,
          op_step = newest_step opRecords ents,
          op_toolBatch = deriveToolBatch (record_id started) opRecords own ents (map entry_id (deferred_writes opRecords)),
          op_missingInitialMessages = filter (\<lambda>t. map_of ents (entry_id t) = None) (initial_messages i),
          op_pendingSteer = pending (SteerQueue (record_id started)),
          op_pendingFollowUp = pending (FollowUpQueue (record_id started)),
          op_pendingWrites = filter (\<lambda>t. map_of ents (entry_id t) = None) (deferred_writes opRecords),
          op_deferred = newest_deferred own,
          op_overflowRecoveryUsed =
            overflow_recovery_used opRecords (newest_consumed (consumed_input_ids i opRecords) ents),
          op_newestOwn = deriveNewestOwn (if own = [] then None else Some (last own)),
          op_targetResult = (case i of CompactionIntent ins r \<Rightarrow> Some (map_of ents r \<noteq> None) | _ \<Rightarrow> None),
          op_targetSummary = (case i of NavigationIntent t s ins l (Some r) \<Rightarrow>
            if r = [] then None else Some (map_of ents r \<noteq> None) | _ \<Rightarrow> None)\<rparr>)"

definition reduceLaneState :: "deep_equal \<Rightarrow> lane_reduction_input \<Rightarrow> corruption + lane_reduction_result" where
  "reduceLaneState deepEqual inp =
     andThen (validateRecordLog deepEqual inp) (\<lambda>_.
       let rs = sort_key record_seq (slice_records inp);
           own = sort_key entry_seq (ownEntries inp);
           ents = index_entries (slice_entries inp @ own);
           started = (case openOperations inp of [] \<Rightarrow> None
             | s # _ \<Rightarrow> map_option (\<lambda>i. (s, i)) (intent_of s));
           captured = (case started of None \<Rightarrow> [] | Some (s, i) \<Rightarrow> map entry_id (initial_messages i));
           pendingNextRun = map snd (filter (\<lambda>(q, t). q = NextRunQueue \<and> entry_id t \<notin> set captured)
             (pending_queue rs ents));
           lane = (\<lambda>operation. \<lparr>ls_lane = slice_lane inp, ls_leafId = leafId inp, ls_operation = operation,
             ls_pendingNextRun = pendingNextRun\<rparr>)
       in case started of
         None \<Rightarrow> Inr \<lparr>laneState = lane None, effectiveConfiguration = deriveEffectiveConfiguration inp,
                    terminalFailure = None\<rparr>
       | Some (s, i) \<Rightarrow>
           Inr \<lparr>laneState = lane (Some (reduce_operation s i rs own ents)),
                effectiveConfiguration = deriveEffectiveConfiguration inp,
                terminalFailure = derive_terminal_failure (filter (belongs_to (record_id s)) rs) own
                  (map entry_id (deferred_writes (filter (belongs_to (record_id s)) rs)))\<rparr>)"

subsection \<open>What the validation loop knows\<close>

definition starts_op :: "lane_record \<Rightarrow> bool" where
  "starts_op r \<longleftrightarrow> body_type (record_content r) = OperationStartedType"

definition finishes :: "id \<Rightarrow> lane_record \<Rightarrow> bool" where
  "finishes run r \<longleftrightarrow> body_type (record_content r) = OperationFinishedType \<and> body_run (record_content r) = Some run"

definition aborts :: "id \<Rightarrow> lane_record \<Rightarrow> bool" where
  "aborts run r \<longleftrightarrow> body_type (record_content r) = AbortRequestedType \<and> body_run (record_content r) = Some run"

definition invocation_of :: "lane_record \<Rightarrow> (id \<times> int) option" where
  "invocation_of r = (case record_content r of ToolStarted t \<Rightarrow> Some (ts_assistantEntryId t, ts_toolIndex t) | _ \<Rightarrow> None)"

definition tracks :: "lane_record list \<Rightarrow> validation \<Rightarrow> bool" where
  "tracks xs v \<longleftrightarrow>
     set (starts v) = record_id ` {r \<in> set xs. starts_op r} \<and>
     (\<forall>run. map_of (finishedAt v) run = None \<longleftrightarrow> (\<forall>r\<in>set xs. \<not> finishes run r)) \<and>
     (\<forall>run s. map_of (finishedAt v) run = Some s \<longrightarrow> s \<in> record_seq ` set xs) \<and>
     (\<forall>run. map_of (abortedAt v) run = None \<longleftrightarrow> (\<forall>r\<in>set xs. \<not> aborts run r)) \<and>
     (\<forall>run s. map_of (abortedAt v) run = Some s \<longrightarrow> s \<in> record_seq ` set xs) \<and>
     (\<forall>run a. map_of (latestAttempt v) run = Some a \<longrightarrow> sa_runId a = run \<and> 1 \<le> sa_attempt a \<and>
        (\<exists>r\<in>set xs. record_content r = StepAttempt a)) \<and>
     (\<forall>i r. map_of (queueEnqueues v) i = Some r \<longrightarrow> r \<in> set xs \<and>
        (\<exists>q t. record_content r = QueueEnqueued q t \<and> entry_id t = i)) \<and>
     set (toolInvocations v) = {i. \<exists>r\<in>set xs. invocation_of r = Some i}"

lemma tracks_none: "tracks [] no_validation"
  by (simp add: tracks_def no_validation_def)

lemma kinds_simps [simp]:
  "starts_op r \<longleftrightarrow> (\<exists>l i. record_content r = OperationStarted l i)"
  "finishes run r \<longleftrightarrow> (\<exists>out e. record_content r = OperationFinished run out e)"
  "aborts run r \<longleftrightarrow> record_content r = AbortRequested run"
  "invocation_of r = Some i \<longleftrightarrow> (\<exists>t. record_content r = ToolStarted t \<and> i = (ts_assistantEntryId t, ts_toolIndex t))"
  by (cases "record_content r"; auto simp: starts_op_def finishes_def aborts_def invocation_of_def)+

lemma attempt_positive:
  assumes "validateAttemptSequence s a previous ents = Inr u" and "\<forall>p. previous = Some p \<longrightarrow> 1 \<le> sa_attempt p"
  shows "1 \<le> sa_attempt a \<and> (sa_attempt a \<noteq> 1 \<longrightarrow>
    (\<exists>p. previous = Some p \<and> sa_step p = sa_step a \<and> sa_attempt p = sa_attempt a - 1))"
  using assms by (auto simp: validateAttemptSequence_def Let_def continues_series_def split: if_splits option.splits)

lemma attempt_continues:
  assumes "validateAttemptSequence s a previous ents = Inr u" and "sa_attempt a \<noteq> 1"
  shows "\<exists>p. previous = Some p \<and> sa_step p = sa_step a \<and> sa_attempt p = sa_attempt a - 1 \<and>
    (sa_step a = AssistantStep \<or>
     sa_resultEntryId p = sa_resultEntryId a \<and> sa_compactionReason p = sa_compactionReason a)"
proof (cases "continues_series s a previous ents")
  case False
  with assms show ?thesis by (simp add: validateAttemptSequence_def)
next
  case True
  then obtain p where p: "previous = Some p" "sa_step p = sa_step a"
    by (auto simp: continues_series_def split: option.splits)
  with assms(1) True show ?thesis
    by (cases "sa_step a = AssistantStep")
      (simp_all add: validateAttemptSequence_def require_def andThen_eq_Inr split: if_splits)
qed

lemma validateToolStart_Inr:
  "validateToolStart t ents invs = Inr invs' \<Longrightarrow>
     invs' = (ts_assistantEntryId t, ts_toolIndex t) # invs \<and> (ts_assistantEntryId t, ts_toolIndex t) \<notin> set invs"
  by (auto simp: validateToolStart_def Let_def andThen_eq_Inr split: if_splits option.splits)

lemma validate_record_fields:
  assumes "validate_record deepEqual ents r v = Inr v'"
  shows "set (starts v') = set (starts v) \<union> (if starts_op r then {record_id r} else {})"
    and "map_of (finishedAt v') run = (if finishes run r then Some (record_seq r) else map_of (finishedAt v) run)"
    and "map_of (abortedAt v') run = (if aborts run r then Some (record_seq r) else map_of (abortedAt v) run)"
    and "map_of (latestAttempt v') run = (case record_content r of
        StepAttempt a \<Rightarrow> if sa_runId a = run then Some a else map_of (latestAttempt v) run
      | _ \<Rightarrow> map_of (latestAttempt v) run)"
    and "map_of (queueEnqueues v') i = (case record_content r of
        QueueEnqueued q t \<Rightarrow> if entry_id t = i then Some r else map_of (queueEnqueues v) i
      | _ \<Rightarrow> map_of (queueEnqueues v) i)"
    and "set (toolInvocations v') = set (toolInvocations v) \<union> {j. invocation_of r = Some j}"
  by (use assms in \<open>cases "record_content r"; auto simp: validate_record_def validate_body_def andThen_eq_Inr
      map_of_alist_update split: if_splits option.splits dest: validateToolStart_Inr\<close>)+

lemma validate_record_attempt:
  assumes "validate_record deepEqual ents r v = Inr v'" and "record_content r = StepAttempt a"
  shows "validateAttemptSequence (record_seq r) a (map_of (latestAttempt v) (sa_runId a)) ents = Inr ()"
  using assms by (auto simp: validate_record_def validate_body_def andThen_eq_Inr)

lemma validate_record_tracks:
  assumes "tracks xs v" and "validate_record deepEqual ents r v = Inr v'"
  shows "tracks (xs @ [r]) v'"
proof -
  note f = validate_record_fields [OF assms(2)]
  have t: "set (starts v) = record_id ` {r \<in> set xs. starts_op r}"
    "\<And>run. map_of (finishedAt v) run = None \<longleftrightarrow> (\<forall>r\<in>set xs. \<not> finishes run r)"
    "\<And>run s. map_of (finishedAt v) run = Some s \<Longrightarrow> s \<in> record_seq ` set xs"
    "\<And>run. map_of (abortedAt v) run = None \<longleftrightarrow> (\<forall>r\<in>set xs. \<not> aborts run r)"
    "\<And>run s. map_of (abortedAt v) run = Some s \<Longrightarrow> s \<in> record_seq ` set xs"
    "\<And>run a. map_of (latestAttempt v) run = Some a \<Longrightarrow> sa_runId a = run \<and> 1 \<le> sa_attempt a \<and>
        (\<exists>r\<in>set xs. record_content r = StepAttempt a)"
    "\<And>i r. map_of (queueEnqueues v) i = Some r \<Longrightarrow> r \<in> set xs \<and>
        (\<exists>q t. record_content r = QueueEnqueued q t \<and> entry_id t = i)"
    "set (toolInvocations v) = {i. \<exists>r\<in>set xs. invocation_of r = Some i}"
    using assms(1) unfolding tracks_def by meson+
  have attempt: "1 \<le> sa_attempt a" if "record_content r = StepAttempt a" for a
    using attempt_positive [OF validate_record_attempt [OF assms(2) that]] t(6) by blast
  show ?thesis
    unfolding tracks_def
  proof (intro conjI allI impI)
    show "set (starts v') = record_id ` {r' \<in> set (xs @ [r]). starts_op r'}"
      unfolding f(1) t(1) by auto
    show "map_of (finishedAt v') run = None \<longleftrightarrow> (\<forall>r'\<in>set (xs @ [r]). \<not> finishes run r')" for run
      unfolding f(2) using t(2) by (simp del: kinds_simps)
    show "map_of (finishedAt v') run = Some s \<Longrightarrow> s \<in> record_seq ` set (xs @ [r])" for run s
      unfolding f(2) using t(3) by (auto simp del: kinds_simps split: if_splits)
    show "map_of (abortedAt v') run = None \<longleftrightarrow> (\<forall>r'\<in>set (xs @ [r]). \<not> aborts run r')" for run
      unfolding f(3) using t(4) by (simp del: kinds_simps)
    show "map_of (abortedAt v') run = Some s \<Longrightarrow> s \<in> record_seq ` set (xs @ [r])" for run s
      unfolding f(3) using t(5) by (auto simp del: kinds_simps split: if_splits)
    show "set (toolInvocations v') = {i. \<exists>r'\<in>set (xs @ [r]). invocation_of r' = Some i}"
      unfolding f(6) t(8) by auto
    fix run a assume "map_of (latestAttempt v') run = Some a"
    then show "sa_runId a = run" "1 \<le> sa_attempt a" "\<exists>r'\<in>set (xs @ [r]). record_content r' = StepAttempt a"
      unfolding f(4) using t(6) [of run a] attempt by (auto split: record_body.splits if_splits)
  next
    fix i r' assume "map_of (queueEnqueues v') i = Some r'"
    then show "r' \<in> set (xs @ [r])" "\<exists>q t. record_content r' = QueueEnqueued q t \<and> entry_id t = i"
      unfolding f(5) using t(7) [of i r'] by (auto split: record_body.splits if_splits)
  qed
qed

lemma validate_records_append:
  "validate_records deepEqual ents (xs @ ys) v =
     andThen (validate_records deepEqual ents xs v) (validate_records deepEqual ents ys)"
  by (induction xs arbitrary: v) (simp_all add: andThen_assoc andThen_def split: sum.split)

lemma validate_records_tracks:
  "validate_records deepEqual ents xs no_validation = Inr v \<Longrightarrow> tracks xs v"
proof (induction xs arbitrary: v rule: rev_induct)
  case Nil
  then show ?case by (simp add: tracks_none)
next
  case (snoc r xs)
  then show ?case
    by (auto simp: validate_records_append andThen_eq_Inr intro: validate_record_tracks)
qed

lemma validated_record:
  assumes "validateRecordLog deepEqual s = Inr ()" and "distinct (map record_seq (slice_records s))"
    and "r \<in> set (slice_records s)"
  obtains xs v v' where "tracks xs v" and "validate_record deepEqual (index_entries (slice_entries s)) r v = Inr v'"
    and "set xs = {x \<in> set (slice_records s). record_seq x < record_seq r}"
proof -
  define rs where "rs = sort_key record_seq (slice_records s)"
  have rs: "set rs = set (slice_records s)" "sorted (map record_seq rs)" "distinct (map record_seq rs)"
    using assms(2) by (simp_all add: rs_def distinct_map)
  then obtain xs ys where split: "rs = xs @ r # ys" using assms(3) by (metis split_list)
  from rs(2,3) have "sorted_wrt (<) (map record_seq rs)" by (simp add: strict_sorted_iff)
  then have before: "set xs = {x \<in> set rs. record_seq x < record_seq r}"
    by (auto simp: split sorted_wrt_append)
  from assms(1) obtain w where "validate_records deepEqual (index_entries (slice_entries s)) rs no_validation = Inr w"
    by (auto simp: validateRecordLog_def rs_def andThen_eq_Inr Let_def split: if_splits)
  then obtain v v' where "validate_records deepEqual (index_entries (slice_entries s)) xs no_validation = Inr v"
    "validate_record deepEqual (index_entries (slice_entries s)) r v = Inr v'"
    by (auto simp: split validate_records_append andThen_eq_Inr)
  with that validate_records_tracks before rs(1) show thesis by metis
qed

lemma check_owner_Inr:
  assumes "validate_record deepEqual ents r v = Inr v'" and "body_run (record_content r) = Some run"
  shows "run \<in> set (starts v) \<and> (\<forall>f. map_of (finishedAt v) run = Some f \<longrightarrow> record_seq r \<le> f)"
proof -
  have "check_owner r v = Inr ()"
    using assms by (cases "record_content r") (auto simp: validate_record_def andThen_eq_Inr)
  with assms(2) show ?thesis by (auto simp: check_owner_def require_def split: if_splits option.splits)
qed

subsection \<open>Properties\<close>

text \<open>
  C25. A log that validation accepts obeys the operation protocol: every record of an operation comes
  after that operation's start, none comes after its finish, and no steering or follow-up message is
  enqueued after the operation's abort request.
\<close>

theorem valid_log_protocol:
  assumes "validateRecordLog deepEqual s = Inr ()" and "distinct (map record_seq (slice_records s))"
    and "r \<in> set (slice_records s)" and "body_run (record_content r) = Some run"
  shows "(\<exists>st\<in>set (slice_records s). starts_op st \<and> record_id st = run \<and> record_seq st < record_seq r) \<and>
    (\<forall>f\<in>set (slice_records s). finishes run f \<longrightarrow> record_seq r \<le> record_seq f) \<and>
    (body_type (record_content r) = QueueEnqueuedType \<longrightarrow>
       (\<forall>f\<in>set (slice_records s). aborts run f \<longrightarrow> record_seq r < record_seq f))"
proof -
  obtain xs v v' where x: "tracks xs v" "validate_record deepEqual (index_entries (slice_entries s)) r v = Inr v'"
    "set xs = {x \<in> set (slice_records s). record_seq x < record_seq r}"
    using validated_record [OF assms(1-3)] by blast
  note own = check_owner_Inr [OF x(2) assms(4)]
  have "run \<in> record_id ` {x \<in> set xs. starts_op x}"
    using own x(1) unfolding tracks_def by blast
  then have 1: "\<exists>st\<in>set (slice_records s). starts_op st \<and> record_id st = run \<and> record_seq st < record_seq r"
    using x(3) by (auto simp del: kinds_simps)
  have 2: "record_seq r \<le> record_seq f" if f: "f \<in> set (slice_records s)" "finishes run f" for f
  proof (rule ccontr)
    assume "\<not> record_seq r \<le> record_seq f"
    then have "f \<in> set xs" using f(1) x(3) by simp
    with x(1) f(2) obtain z where z: "map_of (finishedAt v) run = Some z" "z \<in> record_seq ` set xs"
      unfolding tracks_def by (meson option.exhaust)
    with own x(3) show False by fastforce
  qed
  have 3: "record_seq r < record_seq f"
    if q: "body_type (record_content r) = QueueEnqueuedType" and f: "f \<in> set (slice_records s)" "aborts run f" for f
  proof (rule ccontr)
    assume "\<not> record_seq r < record_seq f"
    moreover have "f \<noteq> r" using q f(2) by auto
    ultimately have "record_seq f < record_seq r"
      using assms(2,3) f(1) by (metis distinct_map inj_on_def not_less_iff_gr_or_eq)
    then have "f \<in> set xs" using f(1) x(3) by simp
    with x(1) f(2) obtain z where z: "map_of (abortedAt v) run = Some z" "z \<in> record_seq ` set xs"
      unfolding tracks_def by (meson option.exhaust)
    then have "z < record_seq r" using x(3) by auto
    moreover obtain qk t where "record_content r = QueueEnqueued qk t" "queue_run qk = Some run"
      using q assms(4) by (cases "record_content r") auto
    ultimately show False using x(2) z(1) by (simp add: validate_record_def validate_body_def andThen_eq_Inr)
  qed
  show ?thesis using 1 2 3 by blast
qed

definition run_record :: "id \<Rightarrow> int \<Rightarrow> record_body \<Rightarrow> lane_record" where
  "run_record i s b = \<lparr>record_id = i, record_lane = ''main'', record_content = b, record_seq = s, record_timestamp = 0\<rparr>"

definition sample_attempt :: "int \<Rightarrow> step_attempt" where
  "sample_attempt n = \<lparr>sa_runId = ''r'', sa_step = CompactionStep, sa_attempt = n, sa_resultEntryId = ''c'',
     sa_compactionReason = Some ReasonOverflow\<rparr>"

definition steer_target :: provisioned_entry where
  "steer_target = \<lparr>entry_id = ''q'', entry_payload = MessagePayload (UserMessage (PlainContent ''go'') 0) False\<rparr>"

definition sample_call :: tool_call where
  "sample_call = \<lparr>call_id = ''t1'', call_name = ''ls'', call_arguments = JNull, call_thoughtSignature = None,
     call_namespace = None\<rparr>"

definition calling_message :: assistant_message where
  "calling_message = \<lparr>am_content = [TextContent ''ok'' None, ToolCallContent sample_call], am_api = ''a'',
     am_provider = ''p'', am_model = ''m'', am_responseModel = None, am_responseId = None, am_diagnostics = None,
     am_usage = sample_usage, am_stopReason = ToolUse, am_deferred = None, am_errorMessage = None,
     am_rawStopReason = None, am_endTurn = None, am_timestamp = 0\<rparr>"

definition calling_entry :: entry where
  "calling_entry = \<lparr>entry_id = ''as'', entry_payload = MessagePayload (AssistantMessage calling_message) False,
     parentId = None, entry_seq = 3, entry_timestamp = 0\<rparr>"

definition sample_tool_start :: tool_started where
  "sample_tool_start = \<lparr>ts_runId = ''r'', ts_assistantEntryId = ''as'', ts_toolIndex = 0, ts_toolCallId = ''t1'',
     ts_toolName = ''ls'', ts_effectiveArgs = JNull, ts_resultEntryId = ''res'', ts_replay = ReplaySafe\<rparr>"

definition sample_records :: "lane_record list" where
  "sample_records =
     [run_record ''r'' 1 (OperationStarted None (RunIntent [] [] None None)),
      run_record ''q1'' 2 (QueueEnqueued (SteerQueue ''r'') steer_target),
      run_record ''x1'' 4 (ToolStarted sample_tool_start),
      run_record ''a1'' 5 (StepAttempt (sample_attempt 1)),
      run_record ''a2'' 6 (StepAttempt (sample_attempt 2))]"

definition sample_slice :: record_log_slice where
  "sample_slice = \<lparr>slice_lane = ''main'', openOperations = take 1 sample_records, slice_records = rev sample_records,
     slice_entries = [calling_entry]\<rparr>"

lemmas sample_log_defs = sample_slice_def sample_records_def run_record_def sample_attempt_def steer_target_def
  sample_tool_start_def calling_entry_def calling_message_def sample_call_def

lemma sample_slice_valid: "validateRecordLog (\<lambda>x y. x = y) sample_slice = Inr ()"
  by (simp add: sample_log_defs validateRecordLog_def index_entries_def validateDeferredHandles_def assistant_of_def
      require_def validate_record_def validate_body_def validateOperationResult_def no_validation_def check_owner_def
      validateExactProvisionedEntry_def validateToolStart_def at_index_def validateResultEntry_def
      validateAttemptReason_def validateAttemptSequence_def continues_series_def validateAttemptResult_def Let_def)

lemma sample_slice_seqs: "distinct (map record_seq (slice_records sample_slice))"
  by (simp add: sample_log_defs)

theorem valid_log_protocol_witness:
  "\<exists>st\<in>set (slice_records sample_slice). starts_op st \<and> record_id st = ''r'' \<and> record_seq st < 2"
  using valid_log_protocol [OF sample_slice_valid sample_slice_seqs,
      of "run_record ''q1'' 2 (QueueEnqueued (SteerQueue ''r'') steer_target)" "''r''"]
  by (auto simp: sample_slice_def sample_records_def run_record_def simp del: kinds_simps)

text \<open>
  In an accepted log the attempts of a step are numbered consecutively: every attempt number is
  positive, and an attempt beyond the first follows the attempt with the preceding number of the same
  run and step, with the same result entry and, for a compaction, the same reason.
\<close>

theorem valid_log_attempts:
  assumes "validateRecordLog deepEqual s = Inr ()" and "distinct (map record_seq (slice_records s))"
    and "r \<in> set (slice_records s)" and "record_content r = StepAttempt a"
  shows "1 \<le> sa_attempt a \<and> (sa_attempt a \<noteq> 1 \<longrightarrow>
    (\<exists>r'\<in>set (slice_records s). \<exists>b. record_content r' = StepAttempt b \<and> record_seq r' < record_seq r \<and>
       sa_runId b = sa_runId a \<and> sa_step b = sa_step a \<and> sa_attempt b = sa_attempt a - 1 \<and>
       (sa_step a = AssistantStep \<or>
        sa_resultEntryId b = sa_resultEntryId a \<and> sa_compactionReason b = sa_compactionReason a)))"
proof -
  obtain xs v v' where x: "tracks xs v" "validate_record deepEqual (index_entries (slice_entries s)) r v = Inr v'"
    "set xs = {x \<in> set (slice_records s). record_seq x < record_seq r}"
    using validated_record [OF assms(1-3)] by blast
  define previous where "previous = map_of (latestAttempt v) (sa_runId a)"
  have prev: "sa_runId p = sa_runId a \<and> 1 \<le> sa_attempt p \<and> (\<exists>r'\<in>set xs. record_content r' = StepAttempt p)"
    if "previous = Some p" for p
    using x(1) that unfolding tracks_def previous_def by blast
  note sq = validate_record_attempt [OF x(2) assms(4), folded previous_def]
  then have pos: "1 \<le> sa_attempt a" using attempt_positive [OF sq] prev by blast
  show ?thesis
  proof (intro conjI impI pos)
    assume "sa_attempt a \<noteq> 1"
    from attempt_continues [OF sq this] obtain p where
      p: "previous = Some p" "sa_step p = sa_step a" "sa_attempt p = sa_attempt a - 1"
      "sa_step a = AssistantStep \<or> sa_resultEntryId p = sa_resultEntryId a \<and> sa_compactionReason p = sa_compactionReason a"
      by blast
    from prev [OF p(1)] obtain r' where "sa_runId p = sa_runId a" "r' \<in> set xs" "record_content r' = StepAttempt p"
      by blast
    with p x(3) show "\<exists>r'\<in>set (slice_records s). \<exists>b. record_content r' = StepAttempt b \<and> record_seq r' < record_seq r \<and>
       sa_runId b = sa_runId a \<and> sa_step b = sa_step a \<and> sa_attempt b = sa_attempt a - 1 \<and>
       (sa_step a = AssistantStep \<or>
        sa_resultEntryId b = sa_resultEntryId a \<and> sa_compactionReason b = sa_compactionReason a)"
      by (intro bexI [of _ r'] exI [of _ p]) simp_all
  qed
qed

theorem valid_log_attempts_witness:
  "\<exists>r'\<in>set (slice_records sample_slice). \<exists>b. record_content r' = StepAttempt b \<and> sa_attempt b = 1 \<and> record_seq r' < 6"
  using valid_log_attempts [OF sample_slice_valid sample_slice_seqs,
      of "run_record ''a2'' 6 (StepAttempt (sample_attempt 2))" "sample_attempt 2"]
  by (auto simp: sample_slice_def sample_records_def run_record_def sample_attempt_def)

text \<open>
  In an accepted log every tool start refers to a tool call of an assistant entry, with the same
  id and name at the recorded position, and no call is started twice.
\<close>

theorem valid_log_tool_starts:
  assumes "validateRecordLog deepEqual s = Inr ()" and "distinct (map record_seq (slice_records s))"
    and "r \<in> set (slice_records s)" and "record_content r = ToolStarted t"
  shows "(\<exists>e m c. map_of (index_entries (slice_entries s)) (ts_assistantEntryId t) = Some e \<and> assistant_of e = Some m \<and>
      at_index (tool_calls (am_content m)) (ts_toolIndex t) = Some c \<and>
      call_id c = ts_toolCallId t \<and> call_name c = ts_toolName t) \<and>
    (\<forall>r'\<in>set (slice_records s). invocation_of r' = invocation_of r \<longrightarrow> r' = r)"
proof -
  have start: "validateToolStart t' (index_entries (slice_entries s)) invs \<noteq> Inl e"
    if "validate_record deepEqual (index_entries (slice_entries s)) r' v = Inr v'"
      "record_content r' = ToolStarted t'" "invs = toolInvocations v" for r' v v' t' invs e
    using that by (auto simp: validate_record_def validate_body_def andThen_eq_Inr)
  have once: False if r: "r1 \<in> set (slice_records s)" "r2 \<in> set (slice_records s)" "record_seq r1 < record_seq r2"
    "invocation_of r1 = Some i" "invocation_of r2 = Some i" for r1 r2 i
  proof -
    obtain xs v v' where x: "tracks xs v" "validate_record deepEqual (index_entries (slice_entries s)) r2 v = Inr v'"
      "set xs = {x \<in> set (slice_records s). record_seq x < record_seq r2}"
      using validated_record [OF assms(1,2) r(2)] by blast
    obtain t2 where t2: "record_content r2 = ToolStarted t2" "i = (ts_assistantEntryId t2, ts_toolIndex t2)"
      using r(5) by auto
    have "set (toolInvocations v) = {i. \<exists>r\<in>set xs. invocation_of r = Some i}"
      using x(1) unfolding tracks_def by (elim conjE)
    moreover have "r1 \<in> set xs" using x(3) r(1,3) by simp
    ultimately have "i \<in> set (toolInvocations v)" using r(4) by blast
    then have "validateToolStart t2 (index_entries (slice_entries s)) (toolInvocations v) = Inl DuplicateToolInvocation"
      by (simp add: validateToolStart_def t2(2) Let_def)
    with start [OF x(2) t2(1) refl] show False by blast
  qed
  obtain xs v v' where x: "validate_record deepEqual (index_entries (slice_entries s)) r v = Inr v'"
    using validated_record [OF assms(1-3)] by blast
  from start [OF x assms(4) refl] obtain invs where
    "validateToolStart t (index_entries (slice_entries s)) (toolInvocations v) = Inr invs"
    by (meson sum.exhaust_sel)
  then have "\<exists>e m c. map_of (index_entries (slice_entries s)) (ts_assistantEntryId t) = Some e \<and> assistant_of e = Some m \<and>
      at_index (tool_calls (am_content m)) (ts_toolIndex t) = Some c \<and>
      call_id c = ts_toolCallId t \<and> call_name c = ts_toolName t"
    by (auto simp: validateToolStart_def Let_def split: if_splits option.splits bind_splits)
  moreover have "r' = r" if r': "r' \<in> set (slice_records s)" "invocation_of r' = invocation_of r" for r'
  proof (rule ccontr)
    assume "r' \<noteq> r"
    then have "record_seq r' < record_seq r \<or> record_seq r < record_seq r'"
      using assms(2,3) r'(1) by (metis distinct_map inj_on_def linorder_neqE)
    moreover have "invocation_of r = Some (ts_assistantEntryId t, ts_toolIndex t)" using assms(4) by simp
    ultimately show False using once r' assms(3) by metis
  qed
  ultimately show ?thesis by blast
qed

theorem valid_log_tool_starts_witness:
  "\<exists>e m. map_of (index_entries (slice_entries sample_slice)) ''as'' = Some e \<and> assistant_of e = Some m"
  using valid_log_tool_starts [OF sample_slice_valid sample_slice_seqs,
      of "run_record ''x1'' 4 (ToolStarted sample_tool_start)" sample_tool_start]
  by (auto simp: sample_slice_def sample_records_def run_record_def sample_tool_start_def)

lemma sort_key_permuted:
  assumes "mset xs = mset ys" and "distinct (map f xs)"
  shows "sort_key f xs = sort_key f ys"
proof (rule properties_for_sort_key [symmetric])
  show "mset (sort_key f xs) = mset ys" using assms(1) by simp
  show "sorted (map f (sort_key f xs))" by simp
  fix k assume "k \<in> set (sort_key f xs)"
  then have k: "k \<in> set xs" by simp
  have inj: "inj_on f (set xs)" and dx: "distinct xs" using assms(2) by (simp_all add: distinct_map)
  have single: "filter (\<lambda>x. f k = f x) zs = [k]" if "mset zs = mset xs" for zs
  proof -
    have zs: "distinct zs" "set zs = set xs"
      using that dx by (metis mset_eq_imp_distinct_iff, metis mset_eq_setD)
    then have "set (filter (\<lambda>x. f k = f x) zs) = {k}" using inj k by (auto dest: inj_onD)
    moreover have "distinct (filter (\<lambda>x. f k = f x) zs)" using zs(1) by simp
    ultimately have "length (filter (\<lambda>x. f k = f x) zs) = 1" by (metis card.empty card_insert_disjoint distinct_card
          empty_iff finite.emptyI One_nat_def)
    then obtain y where y: "filter (\<lambda>x. f k = f x) zs = [y]" by (auto simp: length_Suc_conv)
    with \<open>set (filter (\<lambda>x. f k = f x) zs) = {k}\<close> have "set [y] = {k}" by metis
    with y show ?thesis by simp
  qed
  show "filter (\<lambda>x. f k = f x) (sort_key f xs) = filter (\<lambda>x. f k = f x) ys"
    using single [of "sort_key f xs"] single [of ys] assms(1) by simp
qed

text \<open>
  Recovery does not depend on the order in which the storage returns the records: as sequence
  numbers are distinct, any permutation of the slice's records reduces to the same result or error.
\<close>

theorem reduce_order_insensitive:
  assumes "mset rs = mset (slice_records inp)" and "distinct (map record_seq rs)"
  shows "reduceLaneState deepEqual (inp\<lparr>slice_records := rs\<rparr>) = reduceLaneState deepEqual inp"
proof -
  have "deriveEffectiveConfiguration (inp\<lparr>slice_records := rs\<rparr>) = deriveEffectiveConfiguration inp"
    by (simp add: deriveEffectiveConfiguration_def)
  moreover have "validateRecordLog deepEqual (inp\<lparr>slice_records := rs\<rparr>) = validateRecordLog deepEqual inp"
    using sort_key_permuted [OF assms] by (simp add: validateRecordLog_def)
  ultimately show ?thesis
    using sort_key_permuted [OF assms] by (simp add: reduceLaneState_def Let_def split: option.split)
qed

definition sample_configuration :: lane_configuration where
  "sample_configuration = \<lparr>cfg_model = (''p'', ''m''), cfg_thinkingLevel = ''off'', cfg_activeToolNames = []\<rparr>"

definition sample_input :: lane_reduction_input where
  "sample_input = record_log_slice.extend sample_slice
     \<lparr>leafId = Some ''as'', ownEntries = [calling_entry], configurationEntries = [],
      default_configuration = sample_configuration\<rparr>"

lemma sample_input_valid: "validateRecordLog (\<lambda>x y. x = y) sample_input = Inr ()"
  using sample_slice_valid by (simp add: validateRecordLog_def sample_input_def record_log_slice.defs Let_def split: if_splits)

theorem reduce_order_insensitive_witness:
  "reduceLaneState (\<lambda>x y. x = y) (sample_input\<lparr>slice_records := sample_records\<rparr>) =
     reduceLaneState (\<lambda>x y. x = y) sample_input \<and> slice_records sample_input \<noteq> sample_records"
proof
  show "reduceLaneState (\<lambda>x y. x = y) (sample_input\<lparr>slice_records := sample_records\<rparr>) =
      reduceLaneState (\<lambda>x y. x = y) sample_input"
    by (rule reduce_order_insensitive)
      (simp_all add: sample_input_def record_log_slice.defs sample_slice_def sample_records_def run_record_def)
  show "slice_records sample_input \<noteq> sample_records"
    by (simp add: sample_input_def record_log_slice.defs sample_slice_def sample_records_def run_record_def)
qed

text \<open>The queued targets of a lane that are neither in the session nor cancelled.\<close>

definition queued :: "lane_record list \<Rightarrow> entry_index \<Rightarrow> queue_kind \<Rightarrow> provisioned_entry set" where
  "queued rs ents q = {t. (\<exists>r\<in>set rs. record_content r = QueueEnqueued q t) \<and> map_of ents (entry_id t) = None \<and>
     (\<forall>r\<in>set rs. \<forall>run. record_content r \<noteq> QueueCancelled run (entry_id t))}"

lemma set_cancelled: "i \<in> set (cancelled_ids rs) \<longleftrightarrow> (\<exists>r\<in>set rs. \<exists>run. record_content r = QueueCancelled run i)"
  by (induction rs) (auto simp: cancelled_ids_def map_filter_simps split: record_body.splits option.splits)

lemma set_enqueued: "(q, t) \<in> set (List.map_filter enqueued_target rs) \<longleftrightarrow>
    (\<exists>r\<in>set rs. record_content r = QueueEnqueued q t)"
  by (induction rs) (auto simp: enqueued_target_def map_filter_simps split: record_body.splits option.splits)

lemma set_pending: "set (map snd (filter (\<lambda>(q', t). q' = q) (pending_queue rs ents))) = queued rs ents q"
  by (force simp: pending_queue_def queued_def set_cancelled set_enqueued)

text \<open>
  C26. The recovered queues of an open run are exactly its enqueued messages that are neither in the
  session nor cancelled; once the run has an abort request both its queues are empty, and a message
  captured as an initial message of the run is not offered to the next run again.
\<close>

theorem reduce_queues:
  assumes "reduceLaneState deepEqual inp = Inr res" and "ls_operation (laneState res) = Some op"
  shows "(op_aborting op \<longleftrightarrow> (\<exists>r\<in>set (slice_records inp). aborts (op_id op) r)) \<and>
    set (op_pendingSteer op) = (if op_aborting op then {} else
      queued (slice_records inp) (index_entries (slice_entries inp @ sort_key entry_seq (ownEntries inp))) (SteerQueue (op_id op))) \<and>
    set (op_pendingFollowUp op) = (if op_aborting op then {} else
      queued (slice_records inp) (index_entries (slice_entries inp @ sort_key entry_seq (ownEntries inp))) (FollowUpQueue (op_id op))) \<and>
    set (ls_pendingNextRun (laneState res)) =
      queued (slice_records inp) (index_entries (slice_entries inp @ sort_key entry_seq (ownEntries inp))) NextRunQueue -
        {t. entry_id t \<in> entry_id ` set (initial_messages (op_intent op))}"
proof -
  define rs where "rs = sort_key record_seq (slice_records inp)"
  define ents where "ents = index_entries (slice_entries inp @ sort_key entry_seq (ownEntries inp))"
  from assms obtain s i where
    op: "op = reduce_operation s i rs (sort_key entry_seq (ownEntries inp)) ents"
    and nr: "ls_pendingNextRun (laneState res) =
      map snd (filter (\<lambda>(q, t). q = NextRunQueue \<and> entry_id t \<notin> set (map entry_id (initial_messages i))) (pending_queue rs ents))"
    by (auto simp: reduceLaneState_def andThen_eq_Inr Let_def rs_def ents_def split: option.splits list.splits)
  have q: "queued rs ents k = queued (slice_records inp) ents k" for k
    by (simp add: queued_def rs_def)
  have ab: "op_aborting op \<longleftrightarrow> (\<exists>r\<in>set (slice_records inp). aborts (op_id op) r)"
  proof -
    have "belongs_to j r \<and> body_type (record_content r) = AbortRequestedType \<longleftrightarrow> aborts j r" for j r
      by (cases "record_content r") (auto simp: belongs_to_def)
    then show ?thesis
      by (simp add: op reduce_operation_def Let_def list_ex_iff rs_def del: kinds_simps) blast
  qed
  have "set (op_pendingSteer op) = (if op_aborting op then {} else queued rs ents (SteerQueue (op_id op)))"
    "set (op_pendingFollowUp op) = (if op_aborting op then {} else queued rs ents (FollowUpQueue (op_id op)))"
    using set_pending by (simp_all add: op reduce_operation_def Let_def)
  moreover have "set (ls_pendingNextRun (laneState res)) =
      queued rs ents NextRunQueue - {t. entry_id t \<in> entry_id ` set (initial_messages (op_intent op))}"
    unfolding nr set_pending [of NextRunQueue rs ents, symmetric]
    by (force simp: op reduce_operation_def Let_def)
  ultimately show ?thesis using ab q unfolding ents_def [symmetric] by simp
qed

lemma sample_reduction: "\<exists>res op. reduceLaneState (\<lambda>x y. x = y) sample_input = Inr res \<and>
    ls_operation (laneState res) = Some op \<and> op_id op = ''r''"
proof -
  have "openOperations sample_input = [run_record ''r'' 1 (OperationStarted None (RunIntent [] [] None None))]"
    by (simp add: sample_input_def record_log_slice.defs sample_slice_def sample_records_def)
  then show ?thesis
    using sample_input_valid
    by (simp add: reduceLaneState_def Let_def intent_of_def run_record_def reduce_operation_def)
qed

theorem reduce_queues_witness:
  "\<exists>res op. reduceLaneState (\<lambda>x y. x = y) sample_input = Inr res \<and> ls_operation (laneState res) = Some op \<and>
     set (op_pendingSteer op) = {steer_target}"
proof -
  obtain res op where r: "reduceLaneState (\<lambda>x y. x = y) sample_input = Inr res"
    "ls_operation (laneState res) = Some op" "op_id op = ''r''" using sample_reduction by blast
  have recs: "set (slice_records sample_input) = set sample_records"
    by (simp add: sample_input_def record_log_slice.defs sample_slice_def)
  have "\<not> op_aborting op"
    using reduce_queues [OF r(1,2)] unfolding recs by (auto simp: sample_records_def run_record_def)
  moreover have "queued (slice_records sample_input)
      (index_entries (slice_entries sample_input @ sort_key entry_seq (ownEntries sample_input))) (SteerQueue ''r'') =
      {steer_target}"
    by (auto simp: queued_def recs sample_records_def run_record_def)
      (auto simp: sample_input_def record_log_slice.defs sample_slice_def index_entries_def calling_entry_def
        steer_target_def)
  ultimately show ?thesis using reduce_queues [OF r(1,2)] r by auto
qed

text \<open>
  A recovered terminal failure is the newest entry of the operation: an assistant message that
  stopped with an error, not a deferred write, produced by a recorded step attempt or by fetching a
  deferred response; no deferred handle is then pending.
\<close>

theorem reduce_terminal_failure:
  assumes "reduceLaneState deepEqual inp = Inr res" and "terminalFailure res = Some f"
  shows "\<exists>op n. ls_operation (laneState res) = Some op \<and> op_newestOwn op = Some n \<and> own_entryId n = tf_entryId f \<and>
    own_stopReason n = Some ErrorStop \<and> op_deferred op = None \<and>
    (\<forall>t. t \<in> set (deferred_writes (filter (belongs_to (op_id op)) (slice_records inp))) \<longrightarrow> entry_id t \<noteq> tf_entryId f) \<and>
    (tf_source f = FromStep \<longrightarrow> (\<exists>r\<in>set (slice_records inp). \<exists>a. record_content r = StepAttempt a \<and>
       sa_runId a = op_id op \<and> sa_resultEntryId a = tf_entryId f))"
proof -
  define rs where "rs = sort_key record_seq (slice_records inp)"
  define own where "own = sort_key entry_seq (ownEntries inp)"
  define ents where "ents = index_entries (slice_entries inp @ own)"
  from assms obtain s i where
    op: "ls_operation (laneState res) = Some (reduce_operation s i rs own ents)"
    and f: "derive_terminal_failure (filter (belongs_to (record_id s)) rs) own
      (map entry_id (deferred_writes (filter (belongs_to (record_id s)) rs))) = Some f"
    by (auto simp: reduceLaneState_def andThen_eq_Inr Let_def rs_def own_def ents_def split: option.splits list.splits)
  define ors where "ors = filter (belongs_to (record_id s)) rs"
  from f obtain e es m where e: "rev own = e # es" "assistant_of e = Some m" "am_stopReason m = ErrorStop"
    "entry_id e \<notin> set (map entry_id (deferred_writes ors))" "tf_entryId f = entry_id e"
    "tf_source f = FromStep \<longrightarrow> list_ex (\<lambda>(s, a). sa_resultEntryId a = entry_id e) (step_attempts_of ors)"
    unfolding ors_def [symmetric]
    by (auto simp: derive_terminal_failure_def Let_def split: list.splits option.splits if_splits)
  have last: "own \<noteq> []" "last own = e" using e(1) by (auto simp: rev_eq_Cons_iff)
  obtain t where t: "entry_payload e = MessagePayload (AssistantMessage m) t"
    using e(2) by (auto simp: assistant_of_def split: entry_payload.splits agent_message.splits)
  have attempts: "\<exists>r\<in>set zs. record_content r = StepAttempt a" if "(q, a) \<in> set (step_attempts_of zs)" for q a zs
    using that by (induction zs) (auto simp: step_attempts_of_def map_filter_simps split: record_body.splits option.splits)
  have writes: "t \<in> set (deferred_writes zs) \<longleftrightarrow> (\<exists>r\<in>set zs. \<exists>run. record_content r = WriteDeferred run t)" for t zs
    by (induction zs) (auto simp: deferred_writes_def map_filter_simps split: record_body.splits option.splits)
  have step: "\<exists>r\<in>set (slice_records inp). \<exists>a. record_content r = StepAttempt a \<and>
       sa_runId a = record_id s \<and> sa_resultEntryId a = tf_entryId f" if "tf_source f = FromStep"
  proof -
    from e(6) that obtain q a where "(q, a) \<in> set (step_attempts_of ors)" "sa_resultEntryId a = entry_id e"
      by (auto simp: list_ex_iff)
    moreover from attempts [OF this(1)] obtain r where "r \<in> set (slice_records inp)" "belongs_to (record_id s) r"
      "record_content r = StepAttempt a" by (auto simp: ors_def rs_def)
    ultimately show ?thesis using e(5)
      by (intro bexI [of _ r] exI [of _ a]) (simp_all add: belongs_to_def)
  qed
  define opx where "opx = reduce_operation s i rs own ents"
  define n where "n = \<lparr>own_entryId = entry_id e, own_type = entry_type_of e, own_role = Some RoleAssistant,
    own_stopReason = Some (am_stopReason m)\<rparr>"
  have "own_entryId n = tf_entryId f" "own_stopReason n = Some ErrorStop" using e(3,5) by (simp_all add: n_def)
  moreover have "op_id opx = record_id s" by (simp add: opx_def reduce_operation_def Let_def)
  moreover have "assistant_of e = Some m \<Longrightarrow> op_newestOwn opx = Some n"
    using last t by (simp add: opx_def reduce_operation_def Let_def deriveNewestOwn_def n_def assistant_of_def)
  moreover have "op_deferred opx = None"
    using e(1-3) by (simp add: opx_def reduce_operation_def Let_def newest_deferred_def)
  moreover have "entry_id t \<noteq> tf_entryId f"
    if "t \<in> set (deferred_writes (filter (belongs_to (record_id s)) (slice_records inp)))" for t
    using that e(4,5) by (force simp: writes ors_def rs_def)
  ultimately show ?thesis using op e(2) step unfolding opx_def [symmetric] by metis
qed

definition failed_entry :: entry where
  "failed_entry = \<lparr>entry_id = ''f'',
     entry_payload = MessagePayload (AssistantMessage (calling_message\<lparr>am_stopReason := ErrorStop\<rparr>)) False,
     parentId = None, entry_seq = 3, entry_timestamp = 0\<rparr>"

definition failed_records :: "lane_record list" where
  "failed_records =
     [run_record ''r'' 1 (OperationStarted None (RunIntent [] [] None None)),
      run_record ''a1'' 2 (StepAttempt \<lparr>sa_runId = ''r'', sa_step = AssistantStep, sa_attempt = 1,
        sa_resultEntryId = ''f'', sa_compactionReason = None\<rparr>)]"

definition failed_input :: lane_reduction_input where
  "failed_input = \<lparr>slice_lane = ''main'', openOperations = take 1 failed_records, slice_records = failed_records,
     slice_entries = [failed_entry], leafId = Some ''f'', ownEntries = [failed_entry], configurationEntries = [],
     default_configuration = sample_configuration\<rparr>"

lemma failed_input_valid: "validateRecordLog (\<lambda>x y. x = y) failed_input = Inr ()"
  by (simp add: failed_input_def failed_records_def failed_entry_def run_record_def validateRecordLog_def
      index_entries_def validateDeferredHandles_def assistant_of_def require_def validate_record_def
      validate_body_def validateOperationResult_def no_validation_def check_owner_def validateResultEntry_def
      validateAttemptReason_def validateAttemptSequence_def continues_series_def validateAttemptResult_def Let_def)

theorem reduce_terminal_failure_witness:
  "\<exists>res op. reduceLaneState (\<lambda>x y. x = y) failed_input = Inr res \<and> ls_operation (laneState res) = Some op \<and>
     op_deferred op = None \<and> (\<exists>f. terminalFailure res = Some f \<and> tf_source f = FromStep)"
proof -
  have "\<exists>res. reduceLaneState (\<lambda>x y. x = y) failed_input = Inr res \<and>
      (\<exists>f. terminalFailure res = Some f \<and> tf_source f = FromStep)"
    using failed_input_valid
    by (simp add: reduceLaneState_def Let_def)
      (simp add: failed_input_def failed_records_def run_record_def intent_of_def belongs_to_def
        derive_terminal_failure_def failed_entry_def assistant_of_def calling_message_def deferred_writes_def
        step_attempts_of_def map_filter_simps)
  then obtain res f where r: "reduceLaneState (\<lambda>x y. x = y) failed_input = Inr res" "terminalFailure res = Some f"
    "tf_source f = FromStep" by blast
  with reduce_terminal_failure [OF r(1,2)] show ?thesis by blast
qed

end
