(* ===== verification/Effects.thy ===== *)
theory Effects
  imports Main Prelude
begin

text \<open>
  Asynchronous code as a function on the state.

  A program of type \<open>('s, 'e, 'a) eprog\<close> runs from a state to a result and a state. It returns a value
  (\<open>Inr\<close>), or it fails with an error (\<open>Inl\<close>). The errors of a \<open>('s, 'a) prog\<close> are a \<open>failure\<close>: \<open>Thrown\<close> is an exception or a rejected promise and carries the error's
  message, \<open>Unsettled\<close> is a promise nobody settles or a loop that has used up its fuel. A failure keeps the
  state reached so far, because effects are not undone. \<open>bindA\<close> is \<^verbatim>\<open>await\<close> followed by the rest of the
  function, \<open>forEachA\<close> a \<^verbatim>\<open>for ... of\<close> loop with an accumulator, \<open>attempt\<close> a \<^verbatim>\<open>try\<close> block whose handler
  sees the message.

  \<open>hoare P m Q E\<close> is the contract of a program: from a state with \<open>P\<close>, a normal return has \<open>Q\<close> and a failure
  has \<open>E\<close>. The rules below derive the contract of a composite from the contracts of its parts.
\<close>

datatype failure = Thrown string | Unsettled

type_synonym ('s, 'e, 'a) eprog = "'s \<Rightarrow> ('e + 'a) \<times> 's"
type_synonym ('s, 'a) prog = "('s, failure, 'a) eprog"

definition returnA :: "'a \<Rightarrow> ('s, 'e, 'a) eprog" where
  "returnA a = (\<lambda>s. (Inr a, s))"

definition failA :: "'e \<Rightarrow> ('s, 'e, 'a) eprog" where
  "failA e = (\<lambda>s. (Inl e, s))"

definition bindA :: "('s, 'e, 'a) eprog \<Rightarrow> ('a \<Rightarrow> ('s, 'e, 'b) eprog) \<Rightarrow> ('s, 'e, 'b) eprog" where
  "bindA m k = (\<lambda>s. case m s of (Inl e, t) \<Rightarrow> (Inl e, t) | (Inr a, t) \<Rightarrow> k a t)"

abbreviation thenA :: "('s, 'e, 'a) eprog \<Rightarrow> ('s, 'e, 'b) eprog \<Rightarrow> ('s, 'e, 'b) eprog" where
  "thenA m k \<equiv> bindA m (\<lambda>_. k)"

definition attempt :: "('s, 'a) prog \<Rightarrow> ('s, string + 'a) prog" where
  "attempt m = (\<lambda>s. case m s of
     (Inl (Thrown e), t) \<Rightarrow> (Inr (Inl e), t)
   | (Inl Unsettled, t) \<Rightarrow> (Inl Unsettled, t)
   | (Inr a, t) \<Rightarrow> (Inr (Inr a), t))"

definition readA :: "('s \<Rightarrow> 'a) \<Rightarrow> ('s, 'e, 'a) eprog" where
  "readA f = (\<lambda>s. (Inr (f s), s))"

fun forEachA :: "'x list \<Rightarrow> 'a \<Rightarrow> ('a \<Rightarrow> 'x \<Rightarrow> ('s, 'e, 'a) eprog) \<Rightarrow> ('s, 'e, 'a) eprog" where
  "forEachA [] acc body = returnA acc"
| "forEachA (x # xs) acc body = bindA (body acc x) (\<lambda>acc'. forEachA xs acc' body)"

lemma run_simps:
  "returnA a s = (Inr a, s)"
  "failA e s = (Inl e, s)"
  "readA f s = (Inr (f s), s)"
  by (simp_all add: returnA_def failA_def readA_def)

lemma bindA_cases:
  "bindA m k s = (case m s of (Inl e, t) \<Rightarrow> (Inl e, t) | (Inr a, t) \<Rightarrow> k a t)"
  by (simp add: bindA_def)

lemma bindA_run [simp]:
  "m s = (Inr a, t) \<Longrightarrow> bindA m k s = k a t"
  "m s = (Inl e, t) \<Longrightarrow> bindA m k s = (Inl e, t)"
  by (simp_all add: bindA_def)

lemma bindA_returnA [simp]: "bindA (returnA a) k = k a"
  by (rule ext) (simp add: bindA_def returnA_def)

lemma bindA_assoc: "bindA (bindA m k) h = bindA m (\<lambda>a. bindA (k a) h)"
  by (rule ext) (simp add: bindA_def split: prod.split sum.split)

lemma bindA_eq_Inr:
  "bindA m k s = (Inr b, u) \<longleftrightarrow> (\<exists>a t. m s = (Inr a, t) \<and> k a t = (Inr b, u))"
  by (cases "m s") (simp add: bindA_def split: sum.split)

subsection \<open>Contracts\<close>

definition hoare :: "('s \<Rightarrow> bool) \<Rightarrow> ('s, 'e, 'a) eprog \<Rightarrow> ('a \<Rightarrow> 's \<Rightarrow> bool) \<Rightarrow> ('s \<Rightarrow> bool) \<Rightarrow> bool" where
  "hoare P m Q E \<longleftrightarrow> (\<forall>s. P s \<longrightarrow> (case m s of (Inl e, t) \<Rightarrow> E t | (Inr a, t) \<Rightarrow> Q a t))"

named_theorems contracts \<open>contracts of the basic operations\<close>

lemma hoareI:
  assumes "\<And>s e t. P s \<Longrightarrow> m s = (Inl e, t) \<Longrightarrow> E t"
    and "\<And>s a t. P s \<Longrightarrow> m s = (Inr a, t) \<Longrightarrow> Q a t"
  shows "hoare P m Q E"
  using assms by (auto simp: hoare_def split: prod.split sum.split)

lemma hoareD:
  assumes "hoare P m Q E" "P s"
  shows "m s = (Inl e, t) \<Longrightarrow> E t" "m s = (Inr a, t) \<Longrightarrow> Q a t"
  using assms by (auto simp: hoare_def)

lemma hoare_return [contracts]: "(\<And>s. P s \<Longrightarrow> Q a s) \<Longrightarrow> hoare P (returnA a) Q E"
  by (simp add: hoare_def run_simps)

lemma hoare_fail [contracts]: "(\<And>s. P s \<Longrightarrow> E s) \<Longrightarrow> hoare P (failA e) Q E"
  by (simp add: hoare_def run_simps)

lemma hoare_read [contracts]: "(\<And>s. P s \<Longrightarrow> Q (f s) s) \<Longrightarrow> hoare P (readA f) Q E"
  by (simp add: hoare_def run_simps)

lemma hoare_bind:
  assumes "hoare P m R E" "\<And>a. hoare (R a) (k a) Q E"
  shows "hoare P (bindA m k) Q E"
  using assms by (fastforce simp: hoare_def bindA_def split: prod.splits sum.splits)

lemma hoare_weaken:
  assumes "hoare P' m Q' E" "\<And>s. P s \<Longrightarrow> P' s" "\<And>a s. Q' a s \<Longrightarrow> Q a s"
  shows "hoare P m Q E"
  using assms by (fastforce simp: hoare_def split: prod.splits sum.splits)

lemma hoare_pre: "hoare P' m Q E \<Longrightarrow> (\<And>s. P s \<Longrightarrow> P' s) \<Longrightarrow> hoare P m Q E"
  by (rule hoare_weaken)

lemma hoare_post: "hoare P m Q' E \<Longrightarrow> (\<And>a s. Q' a s \<Longrightarrow> Q a s) \<Longrightarrow> hoare P m Q E"
  by (rule hoare_weaken)

lemma hoare_conj:
  assumes "hoare P m Q E" "hoare P m R E"
  shows "hoare P m (\<lambda>a s. Q a s \<and> R a s) E"
  using assms by (fastforce simp: hoare_def split: prod.splits sum.splits)

lemma hoare_if:
  assumes "b \<Longrightarrow> hoare P m Q E" "\<not> b \<Longrightarrow> hoare P n Q E"
  shows "hoare P (if b then m else n) Q E"
  using assms by simp

lemma hoare_pull:
  "(F \<Longrightarrow> hoare P m Q E) \<Longrightarrow> hoare (\<lambda>s. F \<and> P s) m Q E"
  by (auto simp: hoare_def)

lemma hoare_attempt [contracts]:
  assumes "hoare P m (\<lambda>a. Q (Inr a)) E" "\<And>e s. E s \<Longrightarrow> Q (Inl e) s"
  shows "hoare P (attempt m) Q E"
  using assms
  by (fastforce simp: hoare_def attempt_def split: prod.splits sum.splits failure.splits)

lemma hoare_forEach:
  assumes "\<And>prev x rest acc. xs = prev @ x # rest \<Longrightarrow> hoare (I prev acc) (body acc x) (I (prev @ [x])) E"
  shows "hoare (I [] acc) (forEachA xs acc body) (I xs) E"
proof -
  have "hoare (I ds acc) (forEachA ys acc body) (I xs) E" if "xs = ds @ ys" for ds ys acc
    using that
  proof (induction ys arbitrary: ds acc)
    case Nil
    then show ?case by (simp add: hoare_return)
  next
    case (Cons y ys)
    have "hoare (I ds acc) (body acc y) (I (ds @ [y])) E" using assms Cons.prems by blast
    moreover have "hoare (I (ds @ [y]) acc') (forEachA ys acc' body) (I xs) E" for acc'
      using Cons.IH [of "ds @ [y]"] Cons.prems by simp
    ultimately show ?case by (simp add: hoare_bind)
  qed
  from this [of "[]" xs] show ?thesis by simp
qed

subsection \<open>What a program can return\<close>

definition returns :: "('s, 'e, 'a) eprog \<Rightarrow> ('a \<Rightarrow> bool) \<Rightarrow> bool" where
  "returns m F \<longleftrightarrow> (\<forall>s a t. m s = (Inr a, t) \<longrightarrow> F a)"

lemma returnsD: "returns m F \<Longrightarrow> m s = (Inr a, t) \<Longrightarrow> F a"
  by (auto simp: returns_def)

lemma returns_return: "F a \<Longrightarrow> returns (returnA a) F"
  by (simp add: returns_def run_simps)

lemma returns_bind:
  assumes "\<And>a. returns (k a) F"
  shows "returns (bindA m k) F"
  using assms unfolding returns_def bindA_eq_Inr by blast

lemma returns_bind':
  assumes "returns m G" "\<And>a. G a \<Longrightarrow> returns (k a) F"
  shows "returns (bindA m k) F"
  using assms unfolding returns_def bindA_eq_Inr by blast

lemma hoare_bind_fact:
  assumes "hoare P m (\<lambda>a s. F a \<and> R a s) E" "\<And>a. F a \<Longrightarrow> hoare (R a) (k a) Q E"
  shows "hoare P (bindA m k) Q E"
  using assms by (fastforce simp: hoare_def bindA_def split: prod.splits sum.splits)

lemma hoare_exists:
  assumes "\<And>x. hoare (P x) m Q E"
  shows "hoare (\<lambda>s. \<exists>x. P x s) m Q E"
proof (rule hoareI)
  fix s e t
  assume "\<exists>x. P x s" and m: "m s = (Inl e, t)"
  then obtain x where "P x s" by blast
  from hoareD(1) [OF assms this m] show "E t" .
next
  fix s a t
  assume "\<exists>x. P x s" and m: "m s = (Inr a, t)"
  then obtain x where "P x s" by blast
  from hoareD(2) [OF assms this m] show "Q a t" .
qed

end
