(* ===== verification/AgentEvents.thy ===== *)
theory AgentEvents
  imports Effects AgentTypes
begin

text \<open>
  The vocabulary of the agent loop (\<^verbatim>\<open>pi/packages/agent/src/types.ts\<close>): tools and their results, hook
  arguments and results, the loop configuration, the run's context and the events a run emits; and the
  provider events of \<^verbatim>\<open>pi/packages/ai/src/types.ts\<close>.

  The type parameter \<open>'w\<close> is everything the loop does not own: queues, listeners, files, providers. A hook
  is an \<open>effect\<close> on it, \<open>'w \<Rightarrow> (string + 'a) \<times> 'w\<close>, whose \<open>Inl\<close> is the message of what it throws. An optional
  hook is an option. What an application supplies (hooks, tools, the stream function, event listeners, the
  abort flag, the clock) is a field of \<open>'w loop_config\<close>, \<open>'w agent_tool\<close> or \<open>'w loop_env\<close>, and theorems hold for
  all of them. A tool's execution is the list of signals it gives: progress calls and its settlement.
  \<^verbatim>\<open>validateToolArguments\<close>, which compiles TypeBox schemas, is the field \<open>validateArguments\<close>.
\<close>

type_synonym ('w, 'a) effect = "'w \<Rightarrow> (string + 'a) \<times> 'w"

subsection \<open>Provider events\<close>

datatype assistant_event =
    StreamStart assistant_message
  | TextStart nat assistant_message
  | TextDelta nat string assistant_message
  | TextEnd nat string assistant_message
  | ThinkingStart nat assistant_message
  | ThinkingDelta nat string assistant_message
  | ThinkingEnd nat string assistant_message
  | ToolcallStart nat assistant_message
  | ToolcallDelta nat string assistant_message
  | ToolcallEnd nat tool_call assistant_message
  | StreamDone stop_reason assistant_message
  | StreamError stop_reason assistant_message

text \<open>\<^verbatim>\<open>event.partial\<close> of the nine update events.\<close>

fun update_partial :: "assistant_event \<Rightarrow> assistant_message option" where
  "update_partial (TextStart i p) = Some p"
| "update_partial (TextDelta i d p) = Some p"
| "update_partial (TextEnd i c p) = Some p"
| "update_partial (ThinkingStart i p) = Some p"
| "update_partial (ThinkingDelta i d p) = Some p"
| "update_partial (ThinkingEnd i c p) = Some p"
| "update_partial (ToolcallStart i p) = Some p"
| "update_partial (ToolcallDelta i d p) = Some p"
| "update_partial (ToolcallEnd i t p) = Some p"
| "update_partial _ = None"

record assistant_stream =
  stream_events :: "assistant_event list"               \<comment> \<open>what \<^verbatim>\<open>for await\<close> yields\<close>
  stream_result :: assistant_message                    \<comment> \<open>what \<^verbatim>\<open>result()\<close> resolves to\<close>

subsection \<open>Tools and context\<close>

datatype tool_execution_mode = Sequential | Parallel

datatype queue_mode = DrainAll | OneAtATime

datatype thinking_level = ThinkOff | ThinkMinimal | ThinkLow | ThinkMedium | ThinkHigh | ThinkXhigh | ThinkMax

text \<open>A tool written in JavaScript may return a result without \<^verbatim>\<open>content\<close>.\<close>

record agent_tool_result =
  atr_content :: "content_block list option"
  atr_details :: "js_value option"
  atr_usage :: "usage option"
  atr_addedToolNames :: "string list option"
  atr_terminate :: "bool option"

datatype tool_signal =
    Progress agent_tool_result                          \<comment> \<open>a call of \<^verbatim>\<open>onUpdate\<close>\<close>
  | Resolved agent_tool_result
  | Rejected string

record 'w agent_tool =
  tool_name :: string
  tool_description :: string
  tool_parameters :: js_value
  tool_label :: string
  tool_prepareArguments :: "(js_value \<Rightarrow> ('w, js_value) effect) option"
  tool_execute :: "id \<Rightarrow> js_value \<Rightarrow> 'w \<Rightarrow> tool_signal list \<times> 'w"
  tool_executionMode :: "tool_execution_mode option"

record 'w agent_context =
  ctx_systemPrompt :: string
  ctx_messages :: "agent_message list"
  ctx_tools :: "'w agent_tool list option"

record 'w llm_context =
  llm_systemPrompt :: string
  llm_messages :: "agent_message list"
  llm_tools :: "'w agent_tool list option"

record model =
  model_id :: string
  model_api :: string
  model_provider :: string
  model_rest :: js_value

subsection \<open>Hooks\<close>

record before_tool_call_result =
  btr_block :: "bool option"
  btr_reason :: "string option"
  btr_terminate :: "bool option"

record after_tool_call_result =
  afr_content :: "content_block list option"
  afr_details :: "js_value option"
  afr_isError :: "bool option"
  afr_usage :: "usage option"
  afr_terminate :: "bool option"

record 'w before_tool_call_context =
  btc_assistantMessage :: assistant_message
  btc_toolCall :: tool_call
  btc_args :: js_value
  btc_context :: "'w agent_context"

record 'w after_tool_call_context =
  atc_assistantMessage :: assistant_message
  atc_toolCall :: tool_call
  atc_args :: js_value
  atc_result :: agent_tool_result
  atc_isError :: bool
  atc_context :: "'w agent_context"

record 'w completed_turn =
  turn_message :: assistant_message
  turn_toolResults :: "tool_result_message list"
  turn_context :: "'w agent_context"
  turn_newMessages :: "agent_message list"

record 'w turn_update =
  tu_context :: "'w agent_context option"
  tu_model :: "model option"
  tu_thinkingLevel :: "thinking_level option"

record 'w loop_config =
  cfg_model :: model
  cfg_reasoning :: "thinking_level option"
  cfg_apiKey :: "string option"
  cfg_options :: js_value                               \<comment> \<open>the other stream options\<close>
  cfg_toolExecution :: "tool_execution_mode option"
  convertToLlm_hook :: "agent_message list \<Rightarrow> ('w, agent_message list) effect"
  transformContext :: "(agent_message list \<Rightarrow> ('w, agent_message list) effect) option"
  getApiKey :: "(string \<Rightarrow> ('w, string option) effect) option"
  shouldStopAfterTurn :: "('w completed_turn \<Rightarrow> ('w, bool) effect) option"
  prepareNextTurn :: "('w completed_turn \<Rightarrow> ('w, 'w turn_update option) effect) option"
  getSteeringMessages :: "('w, agent_message list) effect option"
  getFollowUpMessages :: "('w, agent_message list) effect option"
  beforeToolCall :: "('w before_tool_call_context \<Rightarrow> ('w, before_tool_call_result option) effect) option"
  afterToolCall :: "('w after_tool_call_context \<Rightarrow> ('w, after_tool_call_result option) effect) option"

subsection \<open>Agent events\<close>

datatype agent_event =
    AgentStart
  | AgentEnd "agent_message list"
  | TurnStart
  | TurnEnd assistant_message "tool_result_message list"
  | MessageStart agent_message
  | MessageUpdate agent_message assistant_event
  | MessageEnd agent_message
  | ToolExecutionStart id string js_value               \<comment> \<open>call id, tool name, arguments\<close>
  | ToolExecutionUpdate id string js_value agent_tool_result
  | ToolExecutionEnd id string agent_tool_result bool   \<comment> \<open>call id, tool name, result, is error\<close>

record 'w loop_env =
  onEvent :: "agent_event \<Rightarrow> 'w \<Rightarrow> 'w"                  \<comment> \<open>the event sink\<close>
  signal_aborted :: "'w \<Rightarrow> bool"                        \<comment> \<open>\<^verbatim>\<open>signal?.aborted\<close>\<close>
  now_ms :: "'w \<Rightarrow> int"                                 \<comment> \<open>\<^verbatim>\<open>Date.now()\<close>\<close>
  streamFunction :: "model \<Rightarrow> 'w llm_context \<Rightarrow> 'w loop_config \<Rightarrow> ('w, assistant_stream) effect"
  validateArguments :: "'w agent_tool \<Rightarrow> tool_call \<Rightarrow> string + js_value"
  interleaving :: "'w \<Rightarrow> nat list"                      \<comment> \<open>which concurrent tool advances next\<close>

text \<open>The state of a run: the world, and the events emitted so far.\<close>

record 'w run_state =
  world :: 'w
  trace :: "agent_event list"

type_synonym ('w, 'a) run = "('w run_state, 'a) prog"

definition emit :: "'w loop_env \<Rightarrow> agent_event \<Rightarrow> ('w, unit) run" where
  "emit env ev = (\<lambda>s. (Inr (), s\<lparr>world := onEvent env ev (world s), trace := trace s @ [ev]\<rparr>))"

text \<open>\<^verbatim>\<open>await hook(...)\<close>\<close>

definition awaitA :: "('w, 'a) effect \<Rightarrow> ('w, 'a) run" where
  "awaitA f = (\<lambda>s. case f (world s) of
     (Inl e, w) \<Rightarrow> (Inl (Thrown e), s\<lparr>world := w\<rparr>)
   | (Inr a, w) \<Rightarrow> (Inr a, s\<lparr>world := w\<rparr>))"

definition abortedA :: "'w loop_env \<Rightarrow> ('w, bool) run" where
  "abortedA env = readA (\<lambda>s. signal_aborted env (world s))"

text \<open>The list a queue hook returns, \<^verbatim>\<open>[]\<close> without a hook.\<close>

definition pollA :: "('w, agent_message list) effect option \<Rightarrow> ('w, agent_message list) run" where
  "pollA h = (case h of None \<Rightarrow> returnA [] | Some f \<Rightarrow> awaitA f)"

lemma emit_run: "emit env ev s = (Inr (), s\<lparr>world := onEvent env ev (world s), trace := trace s @ [ev]\<rparr>)"
  by (simp add: emit_def)

text \<open>What only runs hooks leaves the trace alone.\<close>

definition silent :: "('w, 'a) run \<Rightarrow> bool" where
  "silent m \<longleftrightarrow> (\<forall>s. trace (snd (m s)) = trace s)"

named_theorems silents \<open>programs that emit nothing\<close>

lemma silent_basic [silents]:
  "silent (awaitA f)" "silent (abortedA env)" "silent (returnA a)" "silent (failA e)" "silent (readA g)"
  by (simp_all add: silent_def awaitA_def abortedA_def run_simps split: prod.split sum.split)

lemma silent_pollA [silents]: "silent (pollA h)"
  by (simp add: pollA_def silents split: option.split)

lemma silent_bindA [silents]:
  assumes "silent m" "\<And>a. silent (k a)"
  shows "silent (bindA m k)"
  unfolding silent_def
proof
  fix s
  show "trace (snd (bindA m k s)) = trace s"
  proof (cases "m s")
    case (Pair r t)
    then have "trace t = trace s" using assms(1) [unfolded silent_def, rule_format, of s] by simp
    then show ?thesis
      using Pair assms(2) [unfolded silent_def, rule_format] by (cases r) (auto simp: bindA_cases)
  qed
qed

lemma silent_attempt [silents]:
  assumes "silent m"
  shows "silent (attempt m)"
  unfolding silent_def
proof
  fix s
  show "trace (snd (attempt m s)) = trace s"
    using assms [unfolded silent_def, rule_format, of s]
    by (auto simp: attempt_def split: prod.splits sum.splits failure.splits)
qed

end
