(* ===== verification/AgentLoop.thy ===== *)
theory AgentLoop
  imports AgentEvents "HOL-Library.Multiset"
begin

text \<open>
  The agent loop, \<^verbatim>\<open>pi/packages/agent/src/agent-loop.ts\<close>.

  Every async function of the file is a \<open>run\<close>: a program on the world and the trace of events emitted so
  far. \<open>currentContext\<close>, whose message array the code extends in place, is passed in and returned.
  Concurrency in \<open>executeToolCallsParallel\<close> is explicit: an entry of the batch is a \<open>tool_task\<close> with its
  own program counter, and the world chooses which task takes its next step; whatever the choice leaves
  unfinished is run to its end in source order. The main loop has fuel, one unit per turn.

  The event sink and the listeners behind it do not reject. A hook may throw: the run then ends with
  \<open>Thrown\<close> and the events emitted up to there.
\<close>

subsection \<open>Assistant response\<close>

definition replace_last :: "'a list \<Rightarrow> 'a \<Rightarrow> 'a list" where
  "replace_last xs x = butlast xs @ [x]"

definition finish_response :: "'w loop_env \<Rightarrow> assistant_message \<Rightarrow> bool \<Rightarrow> agent_message list
    \<Rightarrow> ('w, assistant_message \<times> agent_message list) run" where
  "finish_response env final addedPartial messages =
     (if addedPartial
      then thenA (emit env (MessageEnd (AssistantMessage final)))
             (returnA (final, replace_last messages (AssistantMessage final)))
      else thenA (emit env (MessageStart (AssistantMessage final)))
             (thenA (emit env (MessageEnd (AssistantMessage final)))
               (returnA (final, messages @ [AssistantMessage final]))))"

fun consume_stream :: "'w loop_env \<Rightarrow> assistant_message \<Rightarrow> assistant_event list \<Rightarrow> assistant_message option
    \<Rightarrow> bool \<Rightarrow> agent_message list \<Rightarrow> ('w, assistant_message \<times> agent_message list) run" where
  "consume_stream env final [] partialMessage addedPartial messages =
     finish_response env final addedPartial messages"
| "consume_stream env final (StreamStart p # evs) partialMessage addedPartial messages =
     thenA (emit env (MessageStart (AssistantMessage p)))
       (consume_stream env final evs (Some p) True (messages @ [AssistantMessage p]))"
| "consume_stream env final (StreamDone r m # evs) partialMessage addedPartial messages =
     finish_response env final addedPartial messages"
| "consume_stream env final (StreamError r m # evs) partialMessage addedPartial messages =
     finish_response env final addedPartial messages"
| "consume_stream env final (ev # evs) partialMessage addedPartial messages =
     (case (partialMessage, update_partial ev) of
        (Some _, Some p) \<Rightarrow>
          thenA (emit env (MessageUpdate (AssistantMessage p) ev))
            (consume_stream env final evs (Some p) addedPartial (replace_last messages (AssistantMessage p)))
      | _ \<Rightarrow> consume_stream env final evs partialMessage addedPartial messages)"

definition js_or :: "string option \<Rightarrow> string option \<Rightarrow> string option" where
  "js_or a b = (case a of Some (c # cs) \<Rightarrow> a | _ \<Rightarrow> b)"

definition streamAssistantResponse :: "'w loop_env \<Rightarrow> 'w agent_context \<Rightarrow> 'w loop_config
    \<Rightarrow> ('w, assistant_message \<times> 'w agent_context) run" where
  "streamAssistantResponse env ctx cfg =
     bindA (case transformContext cfg of None \<Rightarrow> returnA (ctx_messages ctx) | Some f \<Rightarrow> awaitA (f (ctx_messages ctx)))
       (\<lambda>messages. bindA (awaitA (convertToLlm_hook cfg messages))
       (\<lambda>llmMessages. bindA (case getApiKey cfg of None \<Rightarrow> returnA None
                              | Some f \<Rightarrow> awaitA (f (model_provider (cfg_model cfg))))
       (\<lambda>key. bindA (awaitA (streamFunction env (cfg_model cfg)
                \<lparr>llm_systemPrompt = ctx_systemPrompt ctx, llm_messages = llmMessages, llm_tools = ctx_tools ctx\<rparr>
                (cfg\<lparr>cfg_apiKey := js_or key (cfg_apiKey cfg)\<rparr>)))
       (\<lambda>response. bindA (consume_stream env (stream_result response) (stream_events response) None False
                             (ctx_messages ctx))
       (\<lambda>(final, messages). returnA (final, ctx\<lparr>ctx_messages := messages\<rparr>))))))"

subsection \<open>Tool results\<close>

record prepared_tool_call =
  ptc_toolCall :: tool_call
  ptc_args :: js_value

text \<open>\<^verbatim>\<open>PreparedToolCall\<close> also holds the tool.\<close>

datatype 'w preparation =
    Immediate agent_tool_result bool
  | Prepared "'w agent_tool" prepared_tool_call

type_synonym executed_outcome = "agent_tool_result \<times> bool"

record finalized_outcome =
  fin_toolCall :: tool_call
  fin_result :: agent_tool_result
  fin_isError :: bool

record tool_batch =
  batch_messages :: "tool_result_message list"
  batch_terminate :: bool

definition createErrorToolResult :: "string \<Rightarrow> agent_tool_result" where
  "createErrorToolResult message =
     \<lparr>atr_content = Some [TextContent message None], atr_details = Some (JObject Ordinary []),
      atr_usage = None, atr_addedToolNames = None, atr_terminate = None\<rparr>"

definition shouldTerminateToolBatch :: "finalized_outcome list \<Rightarrow> bool" where
  "shouldTerminateToolBatch calls \<longleftrightarrow>
     0 < length calls \<and> list_all (\<lambda>f. atr_terminate (fin_result f) = Some True) calls"

definition emitToolExecutionStart :: "'w loop_env \<Rightarrow> tool_call \<Rightarrow> ('w, unit) run" where
  "emitToolExecutionStart env c = emit env (ToolExecutionStart (call_id c) (call_name c) (call_arguments c))"

definition emitToolExecutionEnd :: "'w loop_env \<Rightarrow> finalized_outcome \<Rightarrow> ('w, unit) run" where
  "emitToolExecutionEnd env f =
     emit env (ToolExecutionEnd (call_id (fin_toolCall f)) (call_name (fin_toolCall f)) (fin_result f) (fin_isError f))"

definition createToolResultMessage :: "int \<Rightarrow> finalized_outcome \<Rightarrow> tool_result_message" where
  "createToolResultMessage now f =
     \<lparr>tr_toolCallId = call_id (fin_toolCall f),
      tr_toolName = call_name (fin_toolCall f),
      tr_content = (case atr_content (fin_result f) of None \<Rightarrow> [] | Some c \<Rightarrow> c),
      tr_details = atr_details (fin_result f),
      tr_usage = atr_usage (fin_result f),
      tr_addedToolNames = (case atr_addedToolNames (fin_result f) of Some (n # ns) \<Rightarrow> Some (n # ns) | _ \<Rightarrow> None),
      tr_isError = fin_isError f,
      tr_timestamp = now\<rparr>"

definition emitToolResultMessage :: "'w loop_env \<Rightarrow> tool_result_message \<Rightarrow> ('w, unit) run" where
  "emitToolResultMessage env m =
     thenA (emit env (MessageStart (ToolResultMessage m))) (emit env (MessageEnd (ToolResultMessage m)))"

text \<open>The three places that turn a finalized call into its message.\<close>

definition publish_result :: "'w loop_env \<Rightarrow> finalized_outcome \<Rightarrow> ('w, tool_result_message) run" where
  "publish_result env f = bindA (readA (\<lambda>s. createToolResultMessage (now_ms env (world s)) f))
     (\<lambda>m. thenA (emitToolResultMessage env m) (returnA m))"

subsection \<open>One tool call\<close>

definition find_tool :: "'w agent_context \<Rightarrow> string \<Rightarrow> 'w agent_tool option" where
  "find_tool ctx name = (case ctx_tools ctx of None \<Rightarrow> None | Some ts \<Rightarrow> find (\<lambda>t. tool_name t = name) ts)"

definition prepareToolCallArguments :: "'w agent_tool \<Rightarrow> tool_call \<Rightarrow> ('w, tool_call) run" where
  "prepareToolCallArguments t c = (case tool_prepareArguments t of
     None \<Rightarrow> returnA c
   | Some f \<Rightarrow> bindA (awaitA (f (call_arguments c))) (\<lambda>args. returnA (c\<lparr>call_arguments := args\<rparr>)))"

definition liftE :: "string + 'a \<Rightarrow> ('w, 'a) run" where
  "liftE r = (case r of Inl e \<Rightarrow> failA (Thrown e) | Inr a \<Rightarrow> returnA a)"

definition aborted_result :: agent_tool_result where
  "aborted_result = createErrorToolResult ''Operation aborted''"

definition check_abort :: "'w loop_env \<Rightarrow> 'w agent_tool \<Rightarrow> prepared_tool_call \<Rightarrow> ('w, 'w preparation) run" where
  "check_abort env t p = bindA (abortedA env)
     (\<lambda>a. returnA (if a then Immediate aborted_result True else Prepared t p))"

definition blocked_result :: "before_tool_call_result \<Rightarrow> agent_tool_result" where
  "blocked_result b = (let r = createErrorToolResult (case btr_reason b of
         Some (c # cs) \<Rightarrow> c # cs | _ \<Rightarrow> ''Tool execution was blocked'')
     in if btr_terminate b = Some True then r\<lparr>atr_terminate := Some True\<rparr> else r)"

definition prepare_body :: "'w loop_env \<Rightarrow> 'w agent_context \<Rightarrow> assistant_message \<Rightarrow> tool_call \<Rightarrow> 'w loop_config
    \<Rightarrow> 'w agent_tool \<Rightarrow> ('w, 'w preparation) run" where
  "prepare_body env ctx msg c cfg t =
     bindA (prepareToolCallArguments t c)
       (\<lambda>prepared. bindA (liftE (validateArguments env t prepared))
       (\<lambda>args. let p = \<lparr>ptc_toolCall = c, ptc_args = args\<rparr> in
          case beforeToolCall cfg of
            None \<Rightarrow> check_abort env t p
          | Some h \<Rightarrow>
              bindA (awaitA (h \<lparr>btc_assistantMessage = msg, btc_toolCall = c, btc_args = args, btc_context = ctx\<rparr>))
                (\<lambda>before. bindA (abortedA env)
                (\<lambda>a. if a then returnA (Immediate aborted_result True)
                     else case before of
                            Some b \<Rightarrow> if btr_block b = Some True
                                      then returnA (Immediate (blocked_result b) True)
                                      else check_abort env t p
                          | None \<Rightarrow> check_abort env t p))))"

definition prepareToolCall :: "'w loop_env \<Rightarrow> 'w agent_context \<Rightarrow> assistant_message \<Rightarrow> tool_call \<Rightarrow> 'w loop_config
    \<Rightarrow> ('w, 'w preparation) run" where
  "prepareToolCall env ctx msg c cfg = (case find_tool ctx (call_name c) of
     None \<Rightarrow> returnA (Immediate (createErrorToolResult (''Tool '' @ call_name c @ '' not found'')) True)
   | Some t \<Rightarrow> bindA (attempt (prepare_body env ctx msg c cfg t))
       (\<lambda>r. returnA (case r of Inl e \<Rightarrow> Immediate (createErrorToolResult e) True | Inr p \<Rightarrow> p)))"

text \<open>The tool has started; its signals arrive one by one, and nothing is accepted after it has settled.\<close>

definition emitUpdate :: "'w loop_env \<Rightarrow> tool_call \<Rightarrow> agent_tool_result \<Rightarrow> ('w, unit) run" where
  "emitUpdate env c r = emit env (ToolExecutionUpdate (call_id c) (call_name c) (call_arguments c) r)"

fun await_tool :: "'w loop_env \<Rightarrow> tool_call \<Rightarrow> tool_signal list \<Rightarrow> ('w, executed_outcome) run" where
  "await_tool env c [] = failA Unsettled"
| "await_tool env c (Progress r # sigs) = thenA (emitUpdate env c r) (await_tool env c sigs)"
| "await_tool env c (Resolved r # sigs) = returnA (r, False)"
| "await_tool env c (Rejected e # sigs) = returnA (createErrorToolResult e, True)"

definition startTool :: "'w agent_tool \<Rightarrow> prepared_tool_call \<Rightarrow> ('w, tool_signal list) run" where
  "startTool t p = awaitA (\<lambda>w. case tool_execute t (call_id (ptc_toolCall p)) (ptc_args p) w of (sigs, w') \<Rightarrow> (Inr sigs, w'))"

definition executePreparedToolCall :: "'w loop_env \<Rightarrow> 'w agent_tool \<Rightarrow> prepared_tool_call
    \<Rightarrow> ('w, executed_outcome) run" where
  "executePreparedToolCall env t p = bindA (startTool t p) (await_tool env (ptc_toolCall p))"

definition js_default :: "'a option \<Rightarrow> 'a option \<Rightarrow> 'a option" where
  "js_default a b = (case a of Some x \<Rightarrow> Some x | None \<Rightarrow> b)"

definition override_result :: "agent_tool_result \<Rightarrow> after_tool_call_result \<Rightarrow> agent_tool_result" where
  "override_result r a = r\<lparr>
     atr_content := js_default (afr_content a) (atr_content r),
     atr_details := js_default (afr_details a) (atr_details r),
     atr_usage := js_default (afr_usage a) (atr_usage r),
     atr_terminate := js_default (afr_terminate a) (atr_terminate r)\<rparr>"

definition finalizeExecutedToolCall :: "'w agent_context \<Rightarrow> assistant_message \<Rightarrow> prepared_tool_call
    \<Rightarrow> executed_outcome \<Rightarrow> 'w loop_config \<Rightarrow> ('w, finalized_outcome) run" where
  "finalizeExecutedToolCall ctx msg p executed cfg = (case executed of (result, isError) \<Rightarrow>
     (case afterToolCall cfg of
        None \<Rightarrow> returnA \<lparr>fin_toolCall = ptc_toolCall p, fin_result = result, fin_isError = isError\<rparr>
      | Some h \<Rightarrow> bindA (attempt (awaitA (h
            \<lparr>atc_assistantMessage = msg, atc_toolCall = ptc_toolCall p, atc_args = ptc_args p,
             atc_result = result, atc_isError = isError, atc_context = ctx\<rparr>)))
          (\<lambda>r. returnA (case r of
             Inl e \<Rightarrow> \<lparr>fin_toolCall = ptc_toolCall p, fin_result = createErrorToolResult e, fin_isError = True\<rparr>
           | Inr None \<Rightarrow> \<lparr>fin_toolCall = ptc_toolCall p, fin_result = result, fin_isError = isError\<rparr>
           | Inr (Some a) \<Rightarrow> \<lparr>fin_toolCall = ptc_toolCall p, fin_result = override_result result a,
                             fin_isError = (case afr_isError a of None \<Rightarrow> isError | Some b \<Rightarrow> b)\<rparr>))))"

subsection \<open>A batch of tool calls\<close>

fun fail_calls :: "'w loop_env \<Rightarrow> tool_call list \<Rightarrow> ('w, tool_result_message list) run" where
  "fail_calls env [] = returnA []"
| "fail_calls env (c # cs) =
     thenA (emitToolExecutionStart env c)
       (let f = \<lparr>fin_toolCall = c,
                 fin_result = createErrorToolResult (''Tool call \"'' @ call_name c @
                   ''\" was not executed: the response hit the output token limit, so its arguments may be truncated. Re-issue the tool call with complete arguments.''),
                 fin_isError = True\<rparr>
        in thenA (emitToolExecutionEnd env f)
             (bindA (publish_result env f)
               (\<lambda>m. bindA (fail_calls env cs) (\<lambda>ms. returnA (m # ms)))))"

definition failToolCallsFromTruncatedMessage :: "'w loop_env \<Rightarrow> tool_call list \<Rightarrow> ('w, tool_batch) run" where
  "failToolCallsFromTruncatedMessage env calls =
     bindA (fail_calls env calls) (\<lambda>ms. returnA \<lparr>batch_messages = ms, batch_terminate = False\<rparr>)"

text \<open>The body of the sequential loop up to \<^verbatim>\<open>emitToolExecutionEnd\<close>.\<close>

definition run_call :: "'w loop_env \<Rightarrow> 'w agent_context \<Rightarrow> assistant_message \<Rightarrow> 'w loop_config \<Rightarrow> tool_call
    \<Rightarrow> ('w, finalized_outcome) run" where
  "run_call env ctx msg cfg c =
     thenA (emitToolExecutionStart env c)
       (bindA (prepareToolCall env ctx msg c cfg)
         (\<lambda>preparation. bindA (case preparation of
              Immediate r e \<Rightarrow> returnA \<lparr>fin_toolCall = c, fin_result = r, fin_isError = e\<rparr>
            | Prepared t p \<Rightarrow> bindA (executePreparedToolCall env t p)
                (\<lambda>x. finalizeExecutedToolCall ctx msg p x cfg))
         (\<lambda>f. thenA (emitToolExecutionEnd env f) (returnA f))))"

fun sequential_calls :: "'w loop_env \<Rightarrow> 'w agent_context \<Rightarrow> assistant_message \<Rightarrow> 'w loop_config \<Rightarrow> tool_call list
    \<Rightarrow> ('w, (finalized_outcome \<times> tool_result_message) list) run" where
  "sequential_calls env ctx msg cfg [] = returnA []"
| "sequential_calls env ctx msg cfg (c # cs) =
     bindA (run_call env ctx msg cfg c)
       (\<lambda>f. bindA (publish_result env f)
       (\<lambda>m. bindA (abortedA env)
       (\<lambda>a. if a then returnA [(f, m)]
            else bindA (sequential_calls env ctx msg cfg cs) (\<lambda>fms. returnA ((f, m) # fms)))))"

definition executeToolCallsSequential :: "'w loop_env \<Rightarrow> 'w agent_context \<Rightarrow> assistant_message \<Rightarrow> tool_call list
    \<Rightarrow> 'w loop_config \<Rightarrow> ('w, tool_batch) run" where
  "executeToolCallsSequential env ctx msg calls cfg =
     bindA (sequential_calls env ctx msg cfg calls)
       (\<lambda>fms. returnA \<lparr>batch_messages = map snd fms, batch_terminate = shouldTerminateToolBatch (map fst fms)\<rparr>)"

subsubsection \<open>Concurrent execution\<close>

text \<open>
  An entry of \<^verbatim>\<open>finalizedCalls\<close>. \<open>Settled\<close> is an immediate outcome, or a closure that has returned; the other
  constructors are the points at which a closure waits: before its first step, on the tool, on
  \<^verbatim>\<open>afterToolCall\<close>, and before \<^verbatim>\<open>tool_execution_end\<close>.
\<close>

datatype 'w tool_task =
    Queued "'w agent_tool" prepared_tool_call
  | Executing prepared_tool_call "tool_signal list"
  | Executed prepared_tool_call executed_outcome
  | Finalized finalized_outcome
  | Settled finalized_outcome

fun prepare_calls :: "'w loop_env \<Rightarrow> 'w agent_context \<Rightarrow> assistant_message \<Rightarrow> 'w loop_config \<Rightarrow> tool_call list
    \<Rightarrow> ('w, 'w tool_task list) run" where
  "prepare_calls env ctx msg cfg [] = returnA []"
| "prepare_calls env ctx msg cfg (c # cs) =
     thenA (emitToolExecutionStart env c)
       (bindA (prepareToolCall env ctx msg c cfg)
         (\<lambda>preparation. bindA (case preparation of
              Immediate r e \<Rightarrow> (let f = \<lparr>fin_toolCall = c, fin_result = r, fin_isError = e\<rparr>
                                in thenA (emitToolExecutionEnd env f) (returnA (Settled f)))
            | Prepared t p \<Rightarrow> returnA (Queued t p))
         (\<lambda>task. bindA (abortedA env)
         (\<lambda>a. if a then returnA [task]
              else bindA (prepare_calls env ctx msg cfg cs) (\<lambda>tasks. returnA (task # tasks))))))"

fun step_task :: "'w loop_env \<Rightarrow> 'w agent_context \<Rightarrow> assistant_message \<Rightarrow> 'w loop_config \<Rightarrow> 'w tool_task
    \<Rightarrow> ('w, 'w tool_task) run" where
  "step_task env ctx msg cfg (Queued t p) = bindA (abortedA env)
     (\<lambda>a. if a
          then (let f = \<lparr>fin_toolCall = ptc_toolCall p, fin_result = aborted_result, fin_isError = True\<rparr>
                in thenA (emitToolExecutionEnd env f) (returnA (Settled f)))
          else bindA (startTool t p) (\<lambda>sigs. returnA (Executing p sigs)))"
| "step_task env ctx msg cfg (Executing p []) = returnA (Executing p [])"
| "step_task env ctx msg cfg (Executing p (Progress r # sigs)) =
     thenA (emitUpdate env (ptc_toolCall p) r) (returnA (Executing p sigs))"
| "step_task env ctx msg cfg (Executing p (Resolved r # sigs)) = returnA (Executed p (r, False))"
| "step_task env ctx msg cfg (Executing p (Rejected e # sigs)) = returnA (Executed p (createErrorToolResult e, True))"
| "step_task env ctx msg cfg (Executed p x) =
     bindA (finalizeExecutedToolCall ctx msg p x cfg) (\<lambda>f. returnA (Finalized f))"
| "step_task env ctx msg cfg (Finalized f) = thenA (emitToolExecutionEnd env f) (returnA (Settled f))"
| "step_task env ctx msg cfg (Settled f) = returnA (Settled f)"

fun is_queued :: "'w tool_task \<Rightarrow> bool" where
  "is_queued (Queued t p) = True"
| "is_queued _ = False"

text \<open>Closures are entered in order, so a task starts only after those before it.\<close>

definition advance :: "'w loop_env \<Rightarrow> 'w agent_context \<Rightarrow> assistant_message \<Rightarrow> 'w loop_config \<Rightarrow> 'w tool_task list
    \<Rightarrow> nat \<Rightarrow> ('w, 'w tool_task list) run" where
  "advance env ctx msg cfg tasks i =
     (if i < length tasks \<and> \<not> (is_queued (tasks ! i) \<and> list_ex is_queued (take i tasks))
      then bindA (step_task env ctx msg cfg (tasks ! i)) (\<lambda>task. returnA (tasks[i := task]))
      else returnA tasks)"

fun steps_left :: "'w tool_task \<Rightarrow> nat" where
  "steps_left (Queued t p) = 0"
| "steps_left (Executing p sigs) = length sigs + 2"
| "steps_left (Executed p x) = 2"
| "steps_left (Finalized f) = 1"
| "steps_left (Settled f) = 0"

fun repeat_step :: "'w loop_env \<Rightarrow> 'w agent_context \<Rightarrow> assistant_message \<Rightarrow> 'w loop_config \<Rightarrow> nat \<Rightarrow> 'w tool_task
    \<Rightarrow> ('w, 'w tool_task) run" where
  "repeat_step env ctx msg cfg 0 task = returnA task"
| "repeat_step env ctx msg cfg (Suc n) task =
     bindA (step_task env ctx msg cfg task) (repeat_step env ctx msg cfg n)"

definition finish_task :: "'w loop_env \<Rightarrow> 'w agent_context \<Rightarrow> assistant_message \<Rightarrow> 'w loop_config \<Rightarrow> 'w tool_task
    \<Rightarrow> ('w, finalized_outcome) run" where
  "finish_task env ctx msg cfg task =
     bindA (step_task env ctx msg cfg task)
       (\<lambda>task'. bindA (repeat_step env ctx msg cfg (steps_left task') task')
       (\<lambda>task''. case task'' of Settled f \<Rightarrow> returnA f | _ \<Rightarrow> failA Unsettled))"

text \<open>\<^verbatim>\<open>Promise.all\<close> over the entries: the outcomes in source order, once every one has settled.\<close>

fun finish_tasks :: "'w loop_env \<Rightarrow> 'w agent_context \<Rightarrow> assistant_message \<Rightarrow> 'w loop_config \<Rightarrow> 'w tool_task list
    \<Rightarrow> ('w, finalized_outcome list) run" where
  "finish_tasks env ctx msg cfg [] = returnA []"
| "finish_tasks env ctx msg cfg (task # tasks) =
     bindA (finish_task env ctx msg cfg task)
       (\<lambda>f. bindA (finish_tasks env ctx msg cfg tasks) (\<lambda>fs. returnA (f # fs)))"

fun advance_all :: "'w loop_env \<Rightarrow> 'w agent_context \<Rightarrow> assistant_message \<Rightarrow> 'w loop_config \<Rightarrow> nat list
    \<Rightarrow> 'w tool_task list \<Rightarrow> ('w, 'w tool_task list) run" where
  "advance_all env ctx msg cfg [] tasks = returnA tasks"
| "advance_all env ctx msg cfg (i # is) tasks =
     bindA (advance env ctx msg cfg tasks i) (advance_all env ctx msg cfg is)"

fun publish_all :: "'w loop_env \<Rightarrow> finalized_outcome list \<Rightarrow> ('w, tool_result_message list) run" where
  "publish_all env [] = returnA []"
| "publish_all env (f # fs) =
     bindA (publish_result env f) (\<lambda>m. bindA (publish_all env fs) (\<lambda>ms. returnA (m # ms)))"

definition executeToolCallsParallel :: "'w loop_env \<Rightarrow> 'w agent_context \<Rightarrow> assistant_message \<Rightarrow> tool_call list
    \<Rightarrow> 'w loop_config \<Rightarrow> ('w, tool_batch) run" where
  "executeToolCallsParallel env ctx msg calls cfg =
     bindA (prepare_calls env ctx msg cfg calls)
       (\<lambda>tasks. bindA (readA (\<lambda>s. interleaving env (world s)))
       (\<lambda>is. bindA (advance_all env ctx msg cfg is tasks)
       (\<lambda>tasks. bindA (finish_tasks env ctx msg cfg tasks)
       (\<lambda>fs. bindA (publish_all env fs)
       (\<lambda>ms. returnA \<lparr>batch_messages = ms, batch_terminate = shouldTerminateToolBatch fs\<rparr>)))))"

definition executeToolCalls :: "'w loop_env \<Rightarrow> 'w agent_context \<Rightarrow> assistant_message \<Rightarrow> 'w loop_config
    \<Rightarrow> ('w, tool_batch) run" where
  "executeToolCalls env ctx msg cfg =
     (let calls = tool_calls (am_content msg);
          hasSequentialToolCall = list_ex (\<lambda>c. case find_tool ctx (call_name c) of
              None \<Rightarrow> False | Some t \<Rightarrow> tool_executionMode t = Some Sequential) calls
      in if cfg_toolExecution cfg = Some Sequential \<or> hasSequentialToolCall
         then executeToolCallsSequential env ctx msg calls cfg
         else executeToolCallsParallel env ctx msg calls cfg)"

subsection \<open>The loop\<close>

text \<open>The mutable variables of \<^verbatim>\<open>runLoop\<close>.\<close>

record 'w loop_vars =
  currentContext :: "'w agent_context"
  loopConfig :: "'w loop_config"
  lastCompletedTurn :: "'w completed_turn option"
  pendingMessages :: "agent_message list"
  hasMoreToolCalls :: bool
  newMessages :: "agent_message list"

definition apply_turn_update :: "'w turn_update \<Rightarrow> 'w loop_vars \<Rightarrow> 'w loop_vars" where
  "apply_turn_update u v = v\<lparr>
     currentContext := (case tu_context u of None \<Rightarrow> currentContext v | Some c \<Rightarrow> c),
     loopConfig := (loopConfig v)\<lparr>
       cfg_model := (case tu_model u of None \<Rightarrow> cfg_model (loopConfig v) | Some m \<Rightarrow> m),
       cfg_reasoning := (case tu_thinkingLevel u of
           None \<Rightarrow> cfg_reasoning (loopConfig v)
         | Some ThinkOff \<Rightarrow> None
         | Some l \<Rightarrow> Some l)\<rparr>\<rparr>"

text \<open>The turns after the first begin with the preparation hook and a second look at the steering queue.\<close>

definition prepare_turn :: "'w loop_env \<Rightarrow> 'w loop_vars \<Rightarrow> ('w, 'w loop_vars) run" where
  "prepare_turn env v = (case lastCompletedTurn v of
     None \<Rightarrow> returnA v
   | Some t \<Rightarrow>
       bindA (case prepareNextTurn (loopConfig v) of None \<Rightarrow> returnA None | Some h \<Rightarrow> awaitA (h t))
         (\<lambda>snapshot. let v1 = (case snapshot of None \<Rightarrow> v | Some u \<Rightarrow> apply_turn_update u v) in
           bindA (if pendingMessages v1 = [] then pollA (getSteeringMessages (loopConfig v1))
                  else returnA (pendingMessages v1))
         (\<lambda>pending. thenA (emit env TurnStart) (returnA (v1\<lparr>pendingMessages := pending\<rparr>)))))"

fun inject_messages :: "'w loop_env \<Rightarrow> agent_message list \<Rightarrow> ('w, unit) run" where
  "inject_messages env [] = returnA ()"
| "inject_messages env (m # ms) =
     thenA (emit env (MessageStart m)) (thenA (emit env (MessageEnd m)) (inject_messages env ms))"

definition push_context :: "agent_message list \<Rightarrow> 'w agent_context \<Rightarrow> 'w agent_context" where
  "push_context ms c = c\<lparr>ctx_messages := ctx_messages c @ ms\<rparr>"

definition inject_pending :: "'w loop_env \<Rightarrow> 'w loop_vars \<Rightarrow> ('w, 'w loop_vars) run" where
  "inject_pending env v = thenA (inject_messages env (pendingMessages v))
     (returnA (v\<lparr>currentContext := push_context (pendingMessages v) (currentContext v),
                 newMessages := newMessages v @ pendingMessages v,
                 pendingMessages := []\<rparr>))"

text \<open>The outcome of one turn: the run is over, or the loop head decides.\<close>

datatype 'w turn_exit = RunOver "agent_message list" | TurnOver "'w loop_vars"

definition finish_run :: "'w loop_env \<Rightarrow> agent_message list \<Rightarrow> ('w, 'w turn_exit) run" where
  "finish_run env ms = thenA (emit env (AgentEnd ms)) (returnA (RunOver ms))"

definition run_tools :: "'w loop_env \<Rightarrow> 'w loop_vars \<Rightarrow> assistant_message \<Rightarrow> ('w, tool_batch) run" where
  "run_tools env v msg =
     (let calls = tool_calls (am_content msg) in
      if calls = [] then returnA \<lparr>batch_messages = [], batch_terminate = True\<rparr>
      else if am_stopReason msg = Length then failToolCallsFromTruncatedMessage env calls
      else executeToolCalls env (currentContext v) msg (loopConfig v))"

text \<open>After the assistant message: tools, results, \<^verbatim>\<open>turn_end\<close>, and the two hooks that close a turn.\<close>

definition complete_turn :: "'w loop_env \<Rightarrow> 'w loop_vars \<Rightarrow> assistant_message \<Rightarrow> ('w, 'w turn_exit) run" where
  "complete_turn env v msg =
     bindA (run_tools env v msg)
       (\<lambda>batch. let results = batch_messages batch;
                    ctx = push_context (map ToolResultMessage results) (currentContext v);
                    new = newMessages v @ map ToolResultMessage results;
                    turn = \<lparr>turn_message = msg, turn_toolResults = results, turn_context = ctx, turn_newMessages = new\<rparr>
          in thenA (emit env (TurnEnd msg results))
               (bindA (case shouldStopAfterTurn (loopConfig v) of None \<Rightarrow> returnA False | Some h \<Rightarrow> awaitA (h turn))
                 (\<lambda>stop. if stop then finish_run env new
                    else bindA (pollA (getSteeringMessages (loopConfig v)))
                      (\<lambda>pending. returnA (TurnOver (v\<lparr>currentContext := ctx, newMessages := new,
                           lastCompletedTurn := Some turn, pendingMessages := pending,
                           hasMoreToolCalls := \<not> batch_terminate batch\<rparr>))))))"

definition respond :: "'w loop_env \<Rightarrow> 'w loop_vars \<Rightarrow> ('w, 'w turn_exit) run" where
  "respond env v =
     bindA (streamAssistantResponse env (currentContext v) (loopConfig v))
       (\<lambda>(msg, ctx). let v' = v\<lparr>currentContext := ctx, newMessages := newMessages v @ [AssistantMessage msg]\<rparr> in
          if am_stopReason msg = ErrorStop \<or> am_stopReason msg = Aborted
          then thenA (emit env (TurnEnd msg [])) (finish_run env (newMessages v'))
          else complete_turn env v' msg)"

definition run_turn :: "'w loop_env \<Rightarrow> 'w loop_vars \<Rightarrow> ('w, 'w turn_exit) run" where
  "run_turn env v = bindA (prepare_turn env v) (\<lambda>v. bindA (inject_pending env v) (respond env))"

text \<open>
  The two nested \<^verbatim>\<open>while\<close> loops: \<open>loop_head\<close> decides after a turn, \<open>turns\<close> is the inner loop's body. The body
  runs at least once, because \<^verbatim>\<open>hasMoreToolCalls\<close> is set before the inner loop.
\<close>

fun turns :: "nat \<Rightarrow> 'w loop_env \<Rightarrow> 'w loop_vars \<Rightarrow> ('w, agent_message list) run" where
  "turns 0 env v = failA Unsettled"
| "turns (Suc fuel) env v = bindA (run_turn env v)
     (\<lambda>exit. case exit of
        RunOver ms \<Rightarrow> returnA ms
      | TurnOver v' \<Rightarrow>
          if hasMoreToolCalls v' \<or> pendingMessages v' \<noteq> [] then turns fuel env v'
          else bindA (pollA (getFollowUpMessages (loopConfig v')))
            (\<lambda>followUps. if followUps \<noteq> []
               then turns fuel env (v'\<lparr>pendingMessages := followUps, hasMoreToolCalls := True\<rparr>)
               else thenA (emit env (AgentEnd (newMessages v'))) (returnA (newMessages v'))))"

definition runLoop :: "nat \<Rightarrow> 'w loop_env \<Rightarrow> 'w agent_context \<Rightarrow> agent_message list \<Rightarrow> 'w loop_config
    \<Rightarrow> ('w, agent_message list) run" where
  "runLoop fuel env ctx new cfg =
     bindA (pollA (getSteeringMessages cfg))
       (\<lambda>pending. turns fuel env \<lparr>currentContext = ctx, loopConfig = cfg, lastCompletedTurn = None,
            pendingMessages = pending, hasMoreToolCalls = True, newMessages = new\<rparr>)"

definition runAgentLoop :: "nat \<Rightarrow> 'w loop_env \<Rightarrow> agent_message list \<Rightarrow> 'w agent_context \<Rightarrow> 'w loop_config
    \<Rightarrow> ('w, agent_message list) run" where
  "runAgentLoop fuel env prompts ctx cfg =
     thenA (emit env AgentStart) (thenA (emit env TurnStart)
       (thenA (inject_messages env prompts)
         (runLoop fuel env (push_context prompts ctx) prompts cfg)))"

definition runAgentLoopContinue :: "nat \<Rightarrow> 'w loop_env \<Rightarrow> 'w agent_context \<Rightarrow> 'w loop_config
    \<Rightarrow> ('w, agent_message list) run" where
  "runAgentLoopContinue fuel env ctx cfg =
     (if ctx_messages ctx = [] then failA (Thrown ''Cannot continue: no messages in context'')
      else if role_of (last (ctx_messages ctx)) = RoleAssistant
      then failA (Thrown ''Cannot continue from message role: assistant'')
      else thenA (emit env AgentStart) (thenA (emit env TurnStart) (runLoop fuel env ctx [] cfg)))"

end
