(* ===== verification/AgentProtocol.thy ===== *)
theory AgentProtocol
  imports AgentLoop "HOL-Library.Sublist"
begin

text \<open>
  The event protocol of a run and the proof that the loop follows it.

  \<open>protocol_step\<close> is a machine over agent events: a run is a sequence of turns, a message opens and closes
  before the next one opens, tools run only after an assistant message that asks for them and not while a
  message is open, a turn ends with the message and the results it has shown, nothing follows the turn of a
  failed message but \<^verbatim>\<open>agent_end\<close>, and nothing follows that. The lemmas give each function of the loop its
  contract over the machine's phase and the messages ended so far; the properties are at the end.
\<close>

subsection \<open>The protocol machine\<close>

datatype phase =
    NotStarted
  | Ready
  | InTurn "message_role option" "id multiset" "assistant_message option" "tool_result_message list"
      \<comment> \<open>open message, running tools, assistant message, results\<close>
  | BetweenTurns bool                                   \<comment> \<open>the run has to stop\<close>
  | RunEnded

definition failed_stop :: "assistant_message \<Rightarrow> bool" where
  "failed_stop m \<longleftrightarrow> am_stopReason m = ErrorStop \<or> am_stopReason m = Aborted"

definition asks_for :: "assistant_message \<Rightarrow> id \<Rightarrow> string \<Rightarrow> bool" where
  "asks_for m i n \<longleftrightarrow> list_ex (\<lambda>c. call_id c = i \<and> call_name c = n) (tool_calls (am_content m))"

text \<open>The results of a turn answer the first calls of the message, in order, by id and name.\<close>

definition turn_ok :: "assistant_message \<Rightarrow> tool_result_message list \<Rightarrow> bool" where
  "turn_ok m rs \<longleftrightarrow>
     (if failed_stop m then rs = []
      else prefix (map (\<lambda>r. (tr_toolCallId r, tr_toolName r)) rs)
                  (map (\<lambda>c. (call_id c, call_name c)) (tool_calls (am_content m))) \<and>
           (tool_calls (am_content m) \<noteq> [] \<longrightarrow> rs \<noteq> []) \<and>
           (am_stopReason m = Length \<longrightarrow>
              length rs = length (tool_calls (am_content m)) \<and> list_all tr_isError rs))"

text \<open>While a message is open, only its updates and its end are allowed.\<close>

fun open_step :: "message_role \<Rightarrow> id multiset \<Rightarrow> assistant_message option \<Rightarrow> tool_result_message list
    \<Rightarrow> agent_event \<Rightarrow> phase option" where
  "open_step r run reply rs (MessageUpdate m ev) =
     (if r = RoleAssistant \<and> role_of m = RoleAssistant then Some (InTurn (Some r) run reply rs) else None)"
| "open_step r run reply rs (MessageEnd m) =
     (if r = role_of m
      then Some (case m of AssistantMessage a \<Rightarrow> InTurn None run (Some a) []
                         | ToolResultMessage t \<Rightarrow> InTurn None run reply (rs @ [t])
                         | _ \<Rightarrow> InTurn None run reply rs)
      else None)"
| "open_step r run reply rs _ = None"

fun closed_step :: "id multiset \<Rightarrow> assistant_message option \<Rightarrow> tool_result_message list \<Rightarrow> agent_event
    \<Rightarrow> phase option" where
  "closed_step run reply rs (MessageStart m) =
     (if run = {#} then Some (InTurn (Some (role_of m)) run reply rs) else None)"
| "closed_step run reply rs (ToolExecutionStart i n args) = (case reply of
       Some m \<Rightarrow> if asks_for m i n \<and> \<not> failed_stop m then Some (InTurn None (add_mset i run) reply rs) else None
     | None \<Rightarrow> None)"
| "closed_step run reply rs (ToolExecutionUpdate i n args r) =
     (if i \<in># run then Some (InTurn None run reply rs) else None)"
| "closed_step run reply rs (ToolExecutionEnd i n r e) =
     (if i \<in># run then Some (InTurn None (run - {#i#}) reply rs) else None)"
| "closed_step run reply rs (TurnEnd m rs') =
     (if run = {#} \<and> reply = Some m \<and> rs' = rs \<and> turn_ok m rs then Some (BetweenTurns (failed_stop m)) else None)"
| "closed_step run reply rs _ = None"

definition protocol_step :: "phase \<Rightarrow> agent_event \<Rightarrow> phase option" where
  "protocol_step p ev = (case p of
     NotStarted \<Rightarrow> if ev = AgentStart then Some Ready else None
   | Ready \<Rightarrow> if ev = TurnStart then Some (InTurn None {#} None []) else None
   | InTurn (Some r) run reply rs \<Rightarrow> open_step r run reply rs ev
   | InTurn None run reply rs \<Rightarrow> closed_step run reply rs ev
   | BetweenTurns stop \<Rightarrow> (case ev of
         TurnStart \<Rightarrow> if stop then None else Some (InTurn None {#} None [])
       | AgentEnd ms \<Rightarrow> Some RunEnded
       | _ \<Rightarrow> None)
   | RunEnded \<Rightarrow> None)"

lemma protocol_step_simps [simp]:
  "protocol_step NotStarted AgentStart = Some Ready"
  "protocol_step Ready TurnStart = Some (InTurn None {#} None [])"
  "protocol_step (InTurn (Some r) run reply rs) ev = open_step r run reply rs ev"
  "protocol_step (InTurn None run reply rs) ev = closed_step run reply rs ev"
  "protocol_step (BetweenTurns stop) TurnStart = (if stop then None else Some (InTurn None {#} None []))"
  "protocol_step (BetweenTurns stop) (AgentEnd ms) = Some RunEnded"
  by (simp_all add: protocol_step_def)

fun ended_messages :: "agent_event list \<Rightarrow> agent_message list" where
  "ended_messages [] = []"
| "ended_messages (MessageEnd m # evs) = m # ended_messages evs"
| "ended_messages (_ # evs) = ended_messages evs"

lemma ended_messages_append [simp]: "ended_messages (es @ fs) = ended_messages es @ ended_messages fs"
  by (induction es rule: ended_messages.induct) simp_all

definition protocol :: "agent_event list \<Rightarrow> phase option" where
  "protocol evs = run_machine protocol_step NotStarted evs"

definition stands :: "phase \<Rightarrow> agent_message list \<Rightarrow> 'w run_state \<Rightarrow> bool" where
  "stands p ms s \<longleftrightarrow> protocol (trace s) = Some p \<and> ended_messages (trace s) = ms"

definition accepted :: "'w run_state \<Rightarrow> bool" where
  "accepted s \<longleftrightarrow> protocol (trace s) \<noteq> None"

lemma stands_accepted: "stands p ms s \<Longrightarrow> accepted s"
  by (simp add: stands_def accepted_def)

subsection \<open>Contracts of the basic operations\<close>

lemma hoare_emit:
  assumes "protocol_step p ev = Some q"
  shows "hoare (stands p ms) (emit env ev) (\<lambda>_. stands q (ms @ ended_messages [ev])) accepted"
  using assms run_machine_snoc [of protocol_step NotStarted _ p ev]
  by (simp add: hoare_def emit_def stands_def protocol_def)

lemma hoare_emit_then:
  assumes "protocol_step p ev = Some q"
    "hoare (stands q (ms @ ended_messages [ev])) k Q accepted"
  shows "hoare (stands p ms) (thenA (emit env ev) k) Q accepted"
  by (rule hoare_bind [OF hoare_emit [OF assms(1)] assms(2)])

lemma hoare_silent:
  assumes "silent m" "returns m F"
  shows "hoare (stands p ms) m (\<lambda>a s. F a \<and> stands p ms s) accepted"
proof (rule hoareI)
  fix s :: "'a run_state" and e t
  assume "stands p ms s" "m s = (Inl e, t)"
  then have "stands p ms t" using assms(1) by (metis silent_def snd_conv stands_def)
  then show "accepted t" by (rule stands_accepted)
next
  fix s :: "'a run_state" and a t
  assume "stands p ms s" "m s = (Inr a, t)"
  then show "F a \<and> stands p ms t" using assms by (metis silent_def snd_conv stands_def returnsD)
qed

lemma returns_True: "returns m (\<lambda>_. True)"
  by (simp add: returns_def)

lemma hoare_silent_then:
  assumes "silent m" "returns m F" "\<And>a. F a \<Longrightarrow> hoare (stands p ms) (k a) Q accepted"
  shows "hoare (stands p ms) (bindA m k) Q accepted"
  by (rule hoare_bind_fact [OF hoare_silent [OF assms(1,2)] assms(3)])

lemma hoare_any_then:
  assumes "silent m" "\<And>a. hoare (stands p ms) (k a) Q accepted"
  shows "hoare (stands p ms) (bindA m k) Q accepted"
  by (rule hoare_silent_then [OF assms(1) returns_True assms(2)])

lemma hoare_stands_return: "Q a = stands p ms \<Longrightarrow> hoare (stands p ms) (returnA a) Q accepted"
  by (simp add: hoare_return)

lemma hoare_stuck: "hoare (stands p ms) (failA e) Q accepted"
  by (rule hoare_fail) (rule stands_accepted)

subsection \<open>The assistant response\<close>

abbreviation calm :: "assistant_message option \<Rightarrow> tool_result_message list \<Rightarrow> phase" where
  "calm reply rs \<equiv> InTurn None {#} reply rs"

text \<open>The provider's event protocol: \<^verbatim>\<open>start\<close> comes at most once before the stream is over.\<close>

fun single_start :: "bool \<Rightarrow> assistant_event list \<Rightarrow> bool" where
  "single_start started [] = True"
| "single_start started (StreamStart p # evs) = (\<not> started \<and> single_start True evs)"
| "single_start started (StreamDone r m # evs) = True"
| "single_start started (StreamError r m # evs) = True"
| "single_start started (ev # evs) = single_start started evs"

definition provider_ok :: "'w loop_env \<Rightarrow> bool" where
  "provider_ok env \<longleftrightarrow> (\<forall>m ctx cfg w r w'.
     streamFunction env m ctx cfg w = (Inr r, w') \<longrightarrow> single_start False (stream_events r))"

definition streaming :: "bool \<Rightarrow> assistant_message option \<Rightarrow> tool_result_message list \<Rightarrow> phase" where
  "streaming added reply rs = (if added then InTurn (Some RoleAssistant) {#} reply rs else calm reply rs)"

definition streamed :: "bool \<Rightarrow> agent_message list \<Rightarrow> agent_message list \<Rightarrow> bool" where
  "streamed added base messages \<longleftrightarrow> (if added then \<exists>x. messages = base @ [x] else messages = base)"

lemma finish_response_contract:
  assumes "streamed added base messages"
  shows "hoare (stands (streaming added reply rs) ms) (finish_response env final added messages)
    (\<lambda>r s. r = (final, base @ [AssistantMessage final]) \<and> stands (calm (Some final) []) (ms @ [AssistantMessage final]) s)
    accepted"
  using assms unfolding finish_response_def streaming_def
  by (auto simp: streamed_def replace_last_def intro!: hoare_emit_then hoare_return)

lemma consume_update:
  assumes "update_partial ev = Some p"
  shows "consume_stream env final (ev # evs) partial added messages =
     (case partial of Some _ \<Rightarrow>
          thenA (emit env (MessageUpdate (AssistantMessage p) ev))
            (consume_stream env final evs (Some p) added (replace_last messages (AssistantMessage p)))
      | None \<Rightarrow> consume_stream env final evs None added messages)"
    "single_start added (ev # evs) = single_start added evs"
  using assms by (cases ev; simp split: option.split)+

lemma event_cases:
  "(\<exists>p. ev = StreamStart p) \<or> (\<exists>r m. ev = StreamDone r m) \<or> (\<exists>r m. ev = StreamError r m) \<or> (\<exists>p. update_partial ev = Some p)"
  by (cases ev) simp_all

lemma consume_stream_contract:
  assumes "single_start added evs" "streamed added base messages" "added \<longleftrightarrow> partial \<noteq> None"
  shows "hoare (stands (streaming added reply rs) ms) (consume_stream env final evs partial added messages)
    (\<lambda>r s. r = (final, base @ [AssistantMessage final]) \<and> stands (calm (Some final) []) (ms @ [AssistantMessage final]) s)
    accepted"
  using assms
proof (induction evs arbitrary: partial added messages)
  case Nil
  then show ?case by (simp add: finish_response_contract)
next
  case (Cons ev evs)
  consider (start) p where "ev = StreamStart p"
    | (over) r m where "ev = StreamDone r m \<or> ev = StreamError r m"
    | (update) p where "update_partial ev = Some p"
    using event_cases by blast
  then show ?case
  proof cases
    case start
    then have "\<not> added" "single_start True evs" using Cons.prems(1) by simp_all
    then have "hoare (stands (streaming True reply rs) ms)
        (consume_stream env final evs (Some p) True (messages @ [AssistantMessage p]))
        (\<lambda>r s. r = (final, base @ [AssistantMessage final]) \<and>
           stands (calm (Some final) []) (ms @ [AssistantMessage final]) s) accepted"
      using Cons.prems(2) by (intro Cons.IH) (simp_all add: streamed_def)
    then show ?thesis using start \<open>\<not> added\<close>
      by (auto simp: streaming_def intro!: hoare_emit_then)
  next
    case over
    then show ?thesis using Cons.prems by (auto simp: finish_response_contract)
  next
    case update
    show ?thesis
    proof (cases partial)
      case None
      then show ?thesis
        using Cons.IH [of added messages None] Cons.prems by (simp add: consume_update [OF update])
    next
      case (Some q)
      then have a: "added" using Cons.prems(3) by simp
      have "streamed added base (replace_last messages (AssistantMessage p))"
        using Cons.prems(2) a by (auto simp: streamed_def replace_last_def)
      then have "hoare (stands (streaming added reply rs) ms)
          (consume_stream env final evs (Some p) added (replace_last messages (AssistantMessage p)))
          (\<lambda>r s. r = (final, base @ [AssistantMessage final]) \<and>
             stands (calm (Some final) []) (ms @ [AssistantMessage final]) s) accepted"
        using Cons.prems(1) a consume_update(2) [OF update] by (intro Cons.IH) simp_all
      then show ?thesis
        using Some a by (auto simp: consume_update(1) [OF update] streaming_def intro!: hoare_emit_then)
    qed
  qed
qed

lemma returns_stream:
  assumes "provider_ok env"
  shows "returns (awaitA (streamFunction env m ctx cfg)) (\<lambda>r. single_start False (stream_events r))"
  using assms unfolding returns_def awaitA_def provider_ok_def
  by (fastforce split: prod.splits sum.splits)

lemma silent_case_option [silents]:
  assumes "silent m" "\<And>f. silent (k f)"
  shows "silent (case x of None \<Rightarrow> m | Some f \<Rightarrow> k f)"
  using assms by (simp split: option.split)

lemma streamAssistantResponse_contract:
  assumes "provider_ok env"
  shows "hoare (stands (calm reply rs) ms) (streamAssistantResponse env ctx cfg)
    (\<lambda>r s. snd r = push_context [AssistantMessage (fst r)] ctx \<and>
       stands (calm (Some (fst r)) []) (ms @ [AssistantMessage (fst r)]) s) accepted"
  unfolding streamAssistantResponse_def
proof (rule hoare_any_then, (intro silents; fail), rule hoare_any_then, (intro silents; fail),
    rule hoare_any_then, (intro silents; fail), rule hoare_silent_then [OF silent_basic(1) returns_stream [OF assms]])
  fix messages llmMessages key response
  assume "single_start False (stream_events response)"
  then have "hoare (stands (calm reply rs) ms)
      (consume_stream env (stream_result response) (stream_events response) None False (ctx_messages ctx))
      (\<lambda>r s. r = (stream_result response, ctx_messages ctx @ [AssistantMessage (stream_result response)]) \<and>
         stands (calm (Some (stream_result response)) []) (ms @ [AssistantMessage (stream_result response)]) s) accepted"
    using consume_stream_contract [of False _ "ctx_messages ctx" "ctx_messages ctx" None reply rs ms]
    by (simp add: streaming_def streamed_def)
  then show "hoare (stands (calm reply rs) ms)
      (bindA (consume_stream env (stream_result response) (stream_events response) None False (ctx_messages ctx))
         (\<lambda>(final, messages). returnA (final, ctx\<lparr>ctx_messages := messages\<rparr>)))
      (\<lambda>r s. snd r = push_context [AssistantMessage (fst r)] ctx \<and>
         stands (calm (Some (fst r)) []) (ms @ [AssistantMessage (fst r)]) s) accepted"
    by (rule hoare_bind_fact) (auto simp: push_context_def intro!: hoare_return)
qed

subsection \<open>Tool calls\<close>

abbreviation busy :: "id multiset \<Rightarrow> assistant_message \<Rightarrow> tool_result_message list \<Rightarrow> phase" where
  "busy running m rs \<equiv> InTurn None running (Some m) rs"

definition asked :: "assistant_message \<Rightarrow> tool_call \<Rightarrow> bool" where
  "asked m c \<longleftrightarrow> c \<in> set (tool_calls (am_content m)) \<and> \<not> failed_stop m"

definition answers :: "tool_result_message \<Rightarrow> tool_call \<Rightarrow> bool" where
  "answers r c \<longleftrightarrow> tr_toolCallId r = call_id c \<and> tr_toolName r = call_name c"

definition answers_all :: "tool_result_message list \<Rightarrow> tool_call list \<Rightarrow> bool" where
  "answers_all rs cs \<longleftrightarrow> (cs \<noteq> [] \<longrightarrow> rs \<noteq> []) \<and>
     prefix (map (\<lambda>r. (tr_toolCallId r, tr_toolName r)) rs) (map (\<lambda>c. (call_id c, call_name c)) cs)"

lemma answers_all_Nil: "answers_all [] []"
  by (simp add: answers_all_def)

lemma answers_all_Cons: "answers r c \<Longrightarrow> answers_all rs cs \<Longrightarrow> answers_all (r # rs) (c # cs)"
  by (simp add: answers_all_def answers_def)

lemma answers_all_single: "answers r c \<Longrightarrow> answers_all [r] (c # cs)"
  by (simp add: answers_all_def answers_def)

lemma start_then:
  assumes "asked m c" "hoare (stands (busy (add_mset (call_id c) R) m rs) ms) k Q accepted"
  shows "hoare (stands (busy R m rs) ms) (thenA (emitToolExecutionStart env c) k) Q accepted"
  unfolding emitToolExecutionStart_def
  using assms by (auto simp: asked_def asks_for_def list_ex_iff intro!: hoare_emit_then)

lemma end_then:
  assumes "call_id (fin_toolCall f) = i" "hoare (stands (busy R m rs) ms) k Q accepted"
  shows "hoare (stands (busy (add_mset i R) m rs) ms) (thenA (emitToolExecutionEnd env f) k) Q accepted"
  unfolding emitToolExecutionEnd_def using assms by (auto intro!: hoare_emit_then)

lemma update_then:
  assumes "call_id c \<in># R" "hoare (stands (busy R m rs) ms) k Q accepted"
  shows "hoare (stands (busy R m rs) ms) (thenA (emitUpdate env c r) k) Q accepted"
  unfolding emitUpdate_def using assms by (auto intro!: hoare_emit_then)

lemma publish_result_contract:
  "hoare (stands (calm (Some m) rs) ms) (publish_result env f)
     (\<lambda>r s. (answers r (fin_toolCall f) \<and> tr_isError r = fin_isError f) \<and>
        stands (calm (Some m) (rs @ [r])) (ms @ [ToolResultMessage r]) s) accepted"
  unfolding publish_result_def
proof (rule hoare_silent_then [where F = "\<lambda>r. answers r (fin_toolCall f) \<and> tr_isError r = fin_isError f"])
  show "silent (readA (\<lambda>s. createToolResultMessage (now_ms env (world s)) f))" by (rule silents)
  show "returns (readA (\<lambda>s. createToolResultMessage (now_ms env (world s)) f))
      (\<lambda>r. answers r (fin_toolCall f) \<and> tr_isError r = fin_isError f)"
    by (auto simp: returns_def run_simps createToolResultMessage_def answers_def)
next
  fix r
  assume "answers r (fin_toolCall f) \<and> tr_isError r = fin_isError f"
  then show "hoare (stands (calm (Some m) rs) ms) (thenA (emitToolResultMessage env r) (returnA r))
     (\<lambda>r s. (answers r (fin_toolCall f) \<and> tr_isError r = fin_isError f) \<and>
        stands (calm (Some m) (rs @ [r])) (ms @ [ToolResultMessage r]) s) accepted"
    unfolding emitToolResultMessage_def bindA_assoc
    by (auto intro!: hoare_emit_then hoare_return)
qed

lemma silent_liftE [silents]: "silent (liftE r)"
  by (simp add: liftE_def silents split: sum.split)

lemma silent_check_abort [silents]: "silent (check_abort env t p)"
  unfolding check_abort_def by (intro silents)

lemma silent_prepareToolCallArguments [silents]: "silent (prepareToolCallArguments t c)"
  unfolding prepareToolCallArguments_def by (intro silents)

lemma silent_if [silents]: "silent m \<Longrightarrow> silent n \<Longrightarrow> silent (if b then m else n)"
  by simp

lemma silent_prepare_body [silents]: "silent (prepare_body env ctx msg c cfg t)"
  unfolding prepare_body_def Let_def
  by (intro silents)

lemma silent_prepareToolCall [silents]: "silent (prepareToolCall env ctx msg c cfg)"
  unfolding prepareToolCall_def by (intro silents)

lemma silent_finalize [silents]: "silent (finalizeExecutedToolCall ctx msg p x cfg)"
  unfolding finalizeExecutedToolCall_def by (simp add: silents split: prod.split option.split)

lemma silent_startTool [silents]: "silent (startTool t p)"
  unfolding startTool_def by (rule silents)

text \<open>A call is prepared only for the tool of that name and with arguments the schema accepts.\<close>

definition prepared_for :: "'w loop_env \<Rightarrow> 'w agent_context \<Rightarrow> tool_call \<Rightarrow> 'w preparation \<Rightarrow> bool" where
  "prepared_for env ctx c r = (case r of
     Immediate res e \<Rightarrow> e
   | Prepared t p \<Rightarrow> ptc_toolCall p = c \<and> find_tool ctx (call_name c) = Some t \<and>
       (\<exists>raw. validateArguments env t (c\<lparr>call_arguments := raw\<rparr>) = Inr (ptc_args p)))"

lemma returns_liftE: "returns (liftE r) (\<lambda>a. r = Inr a)"
  by (auto simp: returns_def liftE_def run_simps split: sum.splits)

lemma returns_prepareArguments: "returns (prepareToolCallArguments t c) (\<lambda>d. \<exists>raw. d = c\<lparr>call_arguments := raw\<rparr>)"
  unfolding prepareToolCallArguments_def
proof (cases "tool_prepareArguments t")
  case None
  have "c = c\<lparr>call_arguments := call_arguments c\<rparr>" by simp
  then show "returns (case tool_prepareArguments t of None \<Rightarrow> returnA c
      | Some f \<Rightarrow> bindA (awaitA (f (call_arguments c))) (\<lambda>args. returnA (c\<lparr>call_arguments := args\<rparr>)))
      (\<lambda>d. \<exists>raw. d = c\<lparr>call_arguments := raw\<rparr>)"
    unfolding None option.case by (intro returns_return exI)
qed (auto intro!: returns_return returns_bind)

lemma returns_attempt: "returns m F \<Longrightarrow> returns (attempt m) (\<lambda>r. case r of Inl e \<Rightarrow> True | Inr a \<Rightarrow> F a)"
  by (auto simp: returns_def attempt_def split: prod.splits sum.splits failure.splits)

lemma returns_check_abort:
  "prepared_for env ctx c (Prepared t p) \<Longrightarrow> returns (check_abort env t p) (prepared_for env ctx c)"
  unfolding check_abort_def by (rule returns_bind, rule returns_return) (simp add: prepared_for_def)

lemma returns_prepare_body:
  assumes "find_tool ctx (call_name c) = Some t"
  shows "returns (prepare_body env ctx msg c cfg t) (prepared_for env ctx c)"
  unfolding prepare_body_def Let_def
proof (rule returns_bind' [OF returns_prepareArguments], rule returns_bind' [OF returns_liftE])
  fix d args
  assume d: "\<exists>raw. d = c\<lparr>call_arguments := raw\<rparr>" and v: "validateArguments env t d = Inr args"
  let ?p = "\<lparr>ptc_toolCall = c, ptc_args = args\<rparr>"
  have ok: "prepared_for env ctx c (Prepared t ?p)" using assms d v by (auto simp: prepared_for_def)
  have imm: "prepared_for env ctx c (Immediate r True)" for r by (simp add: prepared_for_def)
  show "returns (case beforeToolCall cfg of None \<Rightarrow> check_abort env t ?p
      | Some h \<Rightarrow> bindA (awaitA (h \<lparr>btc_assistantMessage = msg, btc_toolCall = c, btc_args = args, btc_context = ctx\<rparr>))
          (\<lambda>before. bindA (abortedA env)
          (\<lambda>a. if a then returnA (Immediate aborted_result True)
               else case before of
                      None \<Rightarrow> check_abort env t ?p
                    | Some b \<Rightarrow> if btr_block b = Some True then returnA (Immediate (blocked_result b) True)
                                else check_abort env t ?p)))
    (prepared_for env ctx c)"
    using returns_check_abort [OF ok]
    by (auto split: option.split intro!: returns_bind returns_return imm)
qed

lemma returns_prepareToolCall: "returns (prepareToolCall env ctx msg c cfg) (prepared_for env ctx c)"
proof (cases "find_tool ctx (call_name c)")
  case None
  then show ?thesis
    unfolding prepareToolCall_def by (auto intro!: returns_return simp: prepared_for_def)
next
  case (Some t)
  show ?thesis
    unfolding prepareToolCall_def Some option.case
    by (rule returns_bind' [OF returns_attempt [OF returns_prepare_body [OF Some]]])
       (auto intro!: returns_return simp: prepared_for_def split: sum.splits)
qed

lemma returns_finalize:
  "returns (finalizeExecutedToolCall ctx msg p x cfg) (\<lambda>f. fin_toolCall f = ptc_toolCall p)"
  unfolding finalizeExecutedToolCall_def
  by (auto split: prod.split option.split sum.split intro!: returns_return returns_bind)

lemma await_tool_contract:
  assumes "call_id c \<in># R"
  shows "hoare (stands (busy R m rs) ms) (await_tool env c sigs) (\<lambda>_. stands (busy R m rs) ms) accepted"
  using assms
  by (induction env c sigs rule: await_tool.induct) (auto intro!: update_then hoare_return hoare_stuck)

lemma run_call_contract:
  assumes "asked m c"
  shows "hoare (stands (busy R m rs) ms) (run_call env ctx msg cfg c)
    (\<lambda>f s. fin_toolCall f = c \<and> stands (busy R m rs) ms s) accepted"
  unfolding run_call_def
proof (rule start_then [OF assms], rule hoare_silent_then [OF silent_prepareToolCall returns_prepareToolCall])
  fix r
  assume r: "prepared_for env ctx c r"
  let ?R = "add_mset (call_id c) R"
  have "hoare (stands (busy ?R m rs) ms)
      (case r of Immediate res e \<Rightarrow> returnA \<lparr>fin_toolCall = c, fin_result = res, fin_isError = e\<rparr>
       | Prepared t p \<Rightarrow> bindA (executePreparedToolCall env t p) (\<lambda>x. finalizeExecutedToolCall ctx msg p x cfg))
      (\<lambda>f s. fin_toolCall f = c \<and> stands (busy ?R m rs) ms s) accepted"
  proof (cases r)
    case (Immediate res e)
    then show ?thesis by (simp add: hoare_return)
  next
    case (Prepared t p)
    then have c: "ptc_toolCall p = c" using r by (simp add: prepared_for_def)
    have fin: "hoare (stands (busy ?R m rs) ms) (finalizeExecutedToolCall ctx msg p x cfg)
        (\<lambda>f s. fin_toolCall f = c \<and> stands (busy ?R m rs) ms s) accepted" for x
      by (rule hoare_silent [OF silent_finalize returns_finalize [where p = p, unfolded c]])
    have "hoare (stands (busy ?R m rs) ms) (executePreparedToolCall env t p) (\<lambda>_. stands (busy ?R m rs) ms) accepted"
      unfolding executePreparedToolCall_def c
      by (rule hoare_any_then [OF silent_startTool await_tool_contract]) simp
    then show ?thesis using Prepared fin by (auto intro: hoare_bind)
  qed
  then show "hoare (stands (busy ?R m rs) ms)
      (bindA (case r of Immediate res e \<Rightarrow> returnA \<lparr>fin_toolCall = c, fin_result = res, fin_isError = e\<rparr>
              | Prepared t p \<Rightarrow> bindA (executePreparedToolCall env t p) (\<lambda>x. finalizeExecutedToolCall ctx msg p x cfg))
         (\<lambda>f. thenA (emitToolExecutionEnd env f) (returnA f)))
      (\<lambda>f s. fin_toolCall f = c \<and> stands (busy R m rs) ms s) accepted"
    by (rule hoare_bind_fact) (auto intro!: end_then hoare_return)
qed

subsection \<open>Batches\<close>

text \<open>What a batch leaves behind: results for the first calls, each published.\<close>

definition published :: "assistant_message \<Rightarrow> agent_message list \<Rightarrow> tool_result_message list \<Rightarrow> 'w run_state \<Rightarrow> bool" where
  "published m ms rs = stands (calm (Some m) rs) (ms @ map ToolResultMessage rs)"

lemma published_Nil: "published m ms [] = stands (calm (Some m) []) ms"
  by (simp add: published_def)

lemma publish_contract:
  "hoare (published m ms rs) (publish_result env f)
     (\<lambda>r s. (answers r (fin_toolCall f) \<and> tr_isError r = fin_isError f) \<and> published m ms (rs @ [r]) s) accepted"
  using publish_result_contract [of m rs "ms @ map ToolResultMessage rs" env f] by (simp add: published_def)

lemma run_call_published:
  "asked m c \<Longrightarrow> hoare (published m ms rs) (run_call env ctx msg cfg c)
    (\<lambda>f s. fin_toolCall f = c \<and> published m ms rs s) accepted"
  unfolding published_def by (rule run_call_contract)

lemma sequential_calls_contract:
  assumes "list_all (asked m) cs"
  shows "hoare (published m ms rs) (sequential_calls env ctx msg cfg cs)
    (\<lambda>fms s. answers_all (map snd fms) cs \<and> published m ms (rs @ map snd fms) s) accepted"
  using assms
proof (induction cs arbitrary: rs)
  case Nil
  then show ?case by (simp add: hoare_return answers_all_Nil)
next
  case (Cons c cs)
  have ask: "asked m c" "list_all (asked m) cs" using Cons.prems by simp_all
  have rest: "hoare (published m ms (rs @ [r]))
      (bindA (abortedA env) (\<lambda>a. if a then returnA [(f, r)]
          else bindA (sequential_calls env ctx msg cfg cs) (\<lambda>fms. returnA ((f, r) # fms))))
      (\<lambda>fms s. answers_all (map snd fms) (c # cs) \<and> published m ms (rs @ map snd fms) s) accepted"
    if "answers r c" for f r
    using that unfolding published_def [of m ms "rs @ [r]"]
    by (intro hoare_any_then silents hoare_if hoare_bind_fact [OF Cons.IH [OF ask(2), of "rs @ [r]", unfolded published_def]])
       (auto simp: published_def answers_all_single intro!: hoare_return answers_all_Cons)
  show ?case
    unfolding sequential_calls.simps
    by (rule hoare_bind_fact [OF run_call_published [OF ask(1)]],
        rule hoare_bind_fact [OF publish_contract], rule rest) simp
qed

lemma fail_calls_contract:
  assumes "list_all (asked m) cs"
  shows "hoare (published m ms rs) (fail_calls env cs)
    (\<lambda>new s. (answers_all new cs \<and> length new = length cs \<and> list_all tr_isError new) \<and>
       published m ms (rs @ new) s) accepted"
  using assms
proof (induction cs arbitrary: rs)
  case Nil
  then show ?case by (simp add: hoare_return answers_all_Nil)
next
  case (Cons c cs)
  have ask: "asked m c" "list_all (asked m) cs" using Cons.prems by simp_all
  show ?case
    unfolding fail_calls.simps Let_def published_def [of m ms rs]
    by (rule start_then [OF ask(1)], rule end_then, simp, fold published_def,
        rule hoare_bind_fact [OF publish_contract], rule hoare_bind_fact [OF Cons.IH [OF ask(2)]],
        auto intro!: hoare_return answers_all_Cons)
qed

subsection \<open>Concurrent tools\<close>

fun task_call :: "'w tool_task \<Rightarrow> tool_call" where
  "task_call (Queued t p) = ptc_toolCall p"
| "task_call (Executing p sigs) = ptc_toolCall p"
| "task_call (Executed p x) = ptc_toolCall p"
| "task_call (Finalized f) = fin_toolCall f"
| "task_call (Settled f) = fin_toolCall f"

fun live_id :: "'w tool_task \<Rightarrow> id multiset" where
  "live_id (Settled f) = {#}"
| "live_id task = {#call_id (task_call task)#}"

lemma step_task_contract:
  "hoare (stands (busy (R + live_id task) m rs) ms) (step_task env ctx msg cfg task)
    (\<lambda>task' s. task_call task' = task_call task \<and> stands (busy (R + live_id task') m rs) ms s) accepted"
proof (cases task)
  case (Queued t p)
  show ?thesis
    unfolding Queued step_task.simps Let_def
    by (rule hoare_any_then [OF silent_basic(2)], rule hoare_if,
        force intro!: end_then hoare_return, rule hoare_any_then [OF silent_startTool])
       (simp add: hoare_return)
next
  case (Executing p sigs)
  show ?thesis
  proof (cases sigs)
    case (Cons sg sigs')
    then show ?thesis unfolding Executing
      by (cases sg) (auto intro!: update_then hoare_return)
  qed (simp add: Executing hoare_return)
next
  case (Executed p x)
  show ?thesis
    unfolding Executed step_task.simps
    by (rule hoare_silent_then [OF silent_finalize returns_finalize]) (auto intro!: hoare_return)
next
  case (Finalized f)
  then show ?thesis by (auto intro!: end_then hoare_return)
qed (simp add: hoare_return)

definition live_ids :: "'w tool_task list \<Rightarrow> id multiset" where
  "live_ids tasks = sum_list (map live_id tasks)"

definition tasks_run :: "assistant_message \<Rightarrow> agent_message list \<Rightarrow> tool_call list \<Rightarrow> 'w tool_task list
    \<Rightarrow> 'w run_state \<Rightarrow> bool" where
  "tasks_run m ms cs tasks s \<longleftrightarrow> map task_call tasks = cs \<and> stands (busy (live_ids tasks) m []) ms s"

lemma live_ids_split:
  assumes "i < length tasks"
  shows "live_ids tasks = (live_ids (take i tasks) + live_ids (drop (Suc i) tasks)) + live_id (tasks ! i)"
    "live_ids (tasks[i := task]) = (live_ids (take i tasks) + live_ids (drop (Suc i) tasks)) + live_id task"
proof -
  have "live_ids (take i tasks @ tasks ! i # drop (Suc i) tasks) =
      (live_ids (take i tasks) + live_ids (drop (Suc i) tasks)) + live_id (tasks ! i)"
    by (simp add: live_ids_def)
  then show "live_ids tasks = (live_ids (take i tasks) + live_ids (drop (Suc i) tasks)) + live_id (tasks ! i)"
    using assms by (simp add: id_take_nth_drop [symmetric])
  show "live_ids (tasks[i := task]) = (live_ids (take i tasks) + live_ids (drop (Suc i) tasks)) + live_id task"
    using assms by (simp add: upd_conv_take_nth_drop live_ids_def)
qed

lemma advance_contract:
  fixes tasks :: "'w tool_task list"
  shows "hoare (tasks_run m ms cs tasks) (advance env ctx msg cfg tasks i) (tasks_run m ms cs) accepted"
proof (cases "i < length tasks")
  case True
  let ?R = "live_ids (take i tasks) + live_ids (drop (Suc i) tasks)"
  have "hoare (stands (busy (live_ids tasks) m []) ms)
      (bindA (step_task env ctx msg cfg (tasks ! i)) (\<lambda>task. returnA (tasks[i := task])))
      (tasks_run m ms cs) accepted" if "map task_call tasks = cs"
    unfolding live_ids_split(1) [OF True]
  proof (rule hoare_bind_fact [OF step_task_contract])
    fix task :: "'w tool_task"
    assume "task_call task = task_call (tasks ! i)"
    then have "map task_call (tasks[i := task]) = cs"
      using that True by (auto simp: map_update list_update_same_conv)
    then show "hoare (stands (busy (?R + live_id task) m []) ms) (returnA (tasks[i := task])) (tasks_run m ms cs) accepted"
      by (auto simp: tasks_run_def live_ids_split(2) [OF True] intro!: hoare_return)
  qed
  then show ?thesis
    unfolding advance_def tasks_run_def
    by (intro hoare_pull hoare_if) (auto simp: tasks_run_def intro!: hoare_return)
qed (auto simp: advance_def intro!: hoare_return)

lemma advance_all_contract:
  "hoare (tasks_run m ms cs tasks) (advance_all env ctx msg cfg is tasks) (tasks_run m ms cs) accepted"
proof (induction "is" arbitrary: tasks)
  case (Cons i "is")
  then show ?case by (auto intro: hoare_bind [OF advance_contract])
qed (simp add: hoare_return)

lemma repeat_step_contract:
  "hoare (stands (busy (R + live_id task) m rs) ms) (repeat_step env ctx msg cfg n task)
    (\<lambda>task' s. task_call task' = task_call task \<and> stands (busy (R + live_id task') m rs) ms s) accepted"
proof (induction n arbitrary: task)
  case (Suc n)
  show ?case
    unfolding repeat_step.simps
    by (rule hoare_bind_fact [OF step_task_contract], rule hoare_post [OF Suc.IH]) simp
qed (simp add: hoare_return)

lemma finish_task_contract:
  "hoare (stands (busy (R + live_id task) m rs) ms) (finish_task env ctx msg cfg task)
    (\<lambda>f s. fin_toolCall f = task_call task \<and> stands (busy R m rs) ms s) accepted"
  unfolding finish_task_def
proof (rule hoare_bind_fact [OF step_task_contract], rule hoare_bind_fact [OF repeat_step_contract])
  fix task' task''
  assume "task_call task' = task_call task" "task_call task'' = task_call task'"
  then show "hoare (stands (busy (R + live_id task'') m rs) ms)
      (case task'' of Settled f \<Rightarrow> returnA f | _ \<Rightarrow> failA Unsettled)
      (\<lambda>f s. fin_toolCall f = task_call task \<and> stands (busy R m rs) ms s) accepted"
    by (cases task'') (auto intro!: hoare_return hoare_stuck)
qed

lemma finish_tasks_contract:
  "hoare (stands (busy (live_ids tasks) m rs) ms) (finish_tasks env ctx msg cfg tasks)
    (\<lambda>fs s. map fin_toolCall fs = map task_call tasks \<and> stands (calm (Some m) rs) ms s) accepted"
proof (induction tasks)
  case (Cons task tasks)
  have "live_ids (task # tasks) = live_ids tasks + live_id task" by (simp add: live_ids_def)
  then show ?case
    by (auto intro!: hoare_bind_fact [OF finish_task_contract] hoare_bind_fact [OF Cons.IH] hoare_return)
qed (simp add: hoare_return live_ids_def)

lemma publish_all_contract:
  "hoare (published m ms rs) (publish_all env fs)
    (\<lambda>new s. map (\<lambda>r. (tr_toolCallId r, tr_toolName r)) new =
               map (\<lambda>f. (call_id (fin_toolCall f), call_name (fin_toolCall f))) fs \<and>
       published m ms (rs @ new) s) accepted"
proof (induction fs arbitrary: rs)
  case (Cons f fs)
  show ?case
    unfolding publish_all.simps
    by (rule hoare_bind_fact [OF publish_contract], rule hoare_bind_fact [OF Cons.IH])
       (auto simp: answers_def intro!: hoare_return)
qed (simp add: hoare_return)

lemma prepare_calls_contract:
  assumes "list_all (asked m) cs"
  shows "hoare (stands (busy R m []) ms) (prepare_calls env ctx msg cfg cs)
    (\<lambda>tasks s. (prefix (map task_call tasks) cs \<and> (cs \<noteq> [] \<longrightarrow> tasks \<noteq> [])) \<and>
       stands (busy (R + live_ids tasks) m []) ms s) accepted"
  using assms
proof (induction cs arbitrary: R)
  case Nil
  then show ?case by (simp add: hoare_return live_ids_def)
next
  case (Cons c cs)
  have ask: "asked m c" "list_all (asked m) cs" using Cons.prems by simp_all
  have rest: "hoare (stands (busy (R + live_id task) m []) ms)
      (bindA (abortedA env) (\<lambda>a. if a then returnA [task]
         else bindA (prepare_calls env ctx msg cfg cs) (\<lambda>tasks. returnA (task # tasks))))
      (\<lambda>tasks s. (prefix (map task_call tasks) (c # cs) \<and> (c # cs \<noteq> [] \<longrightarrow> tasks \<noteq> [])) \<and>
         stands (busy (R + live_ids tasks) m []) ms s) accepted"
    if "task_call task = c" for task
    by (intro hoare_any_then silents hoare_if hoare_bind_fact [OF Cons.IH [OF ask(2)]])
       (auto simp: that live_ids_def add.assoc intro!: hoare_return)
  show ?case
    unfolding prepare_calls.simps
  proof (rule start_then [OF ask(1)], rule hoare_silent_then [OF silent_prepareToolCall returns_prepareToolCall])
    fix r
    assume r: "prepared_for env ctx c r"
    have "hoare (stands (busy (add_mset (call_id c) R) m []) ms)
        (case r of Immediate res e \<Rightarrow> let f = \<lparr>fin_toolCall = c, fin_result = res, fin_isError = e\<rparr>
              in thenA (emitToolExecutionEnd env f) (returnA (Settled f))
          | Prepared t p \<Rightarrow> returnA (Queued t p))
        (\<lambda>task s. task_call task = c \<and> stands (busy (R + live_id task) m []) ms s) accepted"
    proof (cases r)
      case (Immediate res e)
      then show ?thesis by (auto simp: Let_def intro!: end_then hoare_return)
    next
      case (Prepared t p)
      then show ?thesis using r by (auto simp: prepared_for_def intro!: hoare_return)
    qed
    then show "hoare (stands (busy (add_mset (call_id c) R) m []) ms)
        (bindA (case r of Immediate res e \<Rightarrow> let f = \<lparr>fin_toolCall = c, fin_result = res, fin_isError = e\<rparr>
              in thenA (emitToolExecutionEnd env f) (returnA (Settled f))
          | Prepared t p \<Rightarrow> returnA (Queued t p))
         (\<lambda>task. bindA (abortedA env) (\<lambda>a. if a then returnA [task]
            else bindA (prepare_calls env ctx msg cfg cs) (\<lambda>tasks. returnA (task # tasks)))))
      (\<lambda>tasks s. (prefix (map task_call tasks) (c # cs) \<and> (c # cs \<noteq> [] \<longrightarrow> tasks \<noteq> [])) \<and>
         stands (busy (R + live_ids tasks) m []) ms s) accepted"
      by (rule hoare_bind_fact) (rule rest)
  qed
qed

text \<open>The batch contract: whatever the mode, the interleaving and the moment of an abort.\<close>

definition batch_ok :: "assistant_message \<Rightarrow> tool_batch \<Rightarrow> bool" where
  "batch_ok m b \<longleftrightarrow> answers_all (batch_messages b) (tool_calls (am_content m)) \<and>
     (am_stopReason m = Length \<longrightarrow> length (batch_messages b) = length (tool_calls (am_content m)) \<and>
        list_all tr_isError (batch_messages b))"

lemma parallel_contract:
  assumes "list_all (asked m) cs"
  shows "hoare (published m ms []) (executeToolCallsParallel env ctx msg cs cfg)
    (\<lambda>b s. answers_all (batch_messages b) cs \<and> published m ms (batch_messages b) s) accepted"
  unfolding executeToolCallsParallel_def published_Nil
proof (rule hoare_bind_fact [OF prepare_calls_contract [OF assms]], rule hoare_any_then [OF silent_basic(5)])
  fix tasks :: "'a tool_task list" and "is"
  assume tasks: "prefix (map task_call tasks) cs \<and> (cs \<noteq> [] \<longrightarrow> tasks \<noteq> [])"
  have adv: "hoare (stands (busy (live_ids tasks) m []) ms) (advance_all env ctx msg cfg is tasks)
      (\<lambda>tasks' s. map task_call tasks' = map task_call tasks \<and> stands (busy (live_ids tasks') m []) ms s) accepted"
    using advance_all_contract [of m ms "map task_call tasks" tasks env ctx msg cfg "is"]
    by (simp add: tasks_run_def [abs_def])
  have pub: "hoare (stands (calm (Some m) []) ms)
      (bindA (publish_all env fs) (\<lambda>new. returnA \<lparr>batch_messages = new, batch_terminate = shouldTerminateToolBatch fs\<rparr>))
      (\<lambda>b s. answers_all (batch_messages b) cs \<and> published m ms (batch_messages b) s) accepted"
    if fs: "map fin_toolCall fs = map task_call tasks" for fs
  proof (fold published_Nil, rule hoare_bind_fact [OF publish_all_contract])
    fix new :: "tool_result_message list"
    assume new: "map (\<lambda>r. (tr_toolCallId r, tr_toolName r)) new =
        map (\<lambda>f. (call_id (fin_toolCall f), call_name (fin_toolCall f))) fs"
    let ?key = "\<lambda>c. (call_id c, call_name c)"
    have keys: "map (\<lambda>r. (tr_toolCallId r, tr_toolName r)) new = map ?key (map task_call tasks)"
      using new fs [symmetric] by (simp add: o_def)
    moreover have "prefix (map ?key (map task_call tasks)) (map ?key cs)"
      using tasks by (blast intro: map_mono_prefix)
    moreover have "cs \<noteq> [] \<longrightarrow> new \<noteq> []" using tasks keys by auto
    ultimately have "answers_all new cs" by (simp add: answers_all_def)
    then show "hoare (published m ms ([] @ new))
        (returnA \<lparr>batch_messages = new, batch_terminate = shouldTerminateToolBatch fs\<rparr>)
        (\<lambda>b s. answers_all (batch_messages b) cs \<and> published m ms (batch_messages b) s) accepted"
      by (simp add: hoare_return)
  qed
  show "hoare (stands (busy ({#} + live_ids tasks) m []) ms)
      (bindA (advance_all env ctx msg cfg is tasks) (\<lambda>tasks. bindA (finish_tasks env ctx msg cfg tasks)
        (\<lambda>fs. bindA (publish_all env fs)
        (\<lambda>ms. returnA \<lparr>batch_messages = ms, batch_terminate = shouldTerminateToolBatch fs\<rparr>))))
      (\<lambda>b s. answers_all (batch_messages b) cs \<and> published m ms (batch_messages b) s) accepted"
    unfolding add_0
    by (rule hoare_bind_fact [OF adv], rule hoare_bind_fact [OF finish_tasks_contract], rule pub) simp
qed

lemma sequential_contract:
  assumes "list_all (asked m) cs"
  shows "hoare (published m ms []) (executeToolCallsSequential env ctx msg cs cfg)
    (\<lambda>b s. answers_all (batch_messages b) cs \<and> published m ms (batch_messages b) s) accepted"
  unfolding executeToolCallsSequential_def
  by (rule hoare_bind_fact [OF sequential_calls_contract [OF assms]]) (simp add: hoare_return)

lemma run_tools_contract:
  assumes "\<not> failed_stop m"
  shows "hoare (published m ms []) (run_tools env v m)
    (\<lambda>b s. batch_ok m b \<and> published m ms (batch_messages b) s) accepted"
proof -
  let ?cs = "tool_calls (am_content m)"
  have ask: "list_all (asked m) ?cs" using assms by (simp add: asked_def list_all_iff)
  consider (none) "?cs = []" | (long) "?cs \<noteq> []" "am_stopReason m = Length" | (run) "?cs \<noteq> []" "am_stopReason m \<noteq> Length"
    by blast
  then show ?thesis
  proof cases
    case none
    then show ?thesis by (simp add: run_tools_def hoare_return batch_ok_def answers_all_Nil)
  next
    case long
    then show ?thesis
      unfolding run_tools_def failToolCallsFromTruncatedMessage_def Let_def
      by (auto simp: batch_ok_def intro!: hoare_bind_fact [OF fail_calls_contract [OF ask]] hoare_return)
  next
    case run
    have "hoare (published m ms []) (executeToolCalls env (currentContext v) m (loopConfig v))
        (\<lambda>b s. answers_all (batch_messages b) ?cs \<and> published m ms (batch_messages b) s) accepted"
      unfolding executeToolCalls_def Let_def
      by (intro hoare_if sequential_contract parallel_contract ask)
    then show ?thesis using run by (simp add: run_tools_def batch_ok_def)
  qed
qed

lemma batch_ok_turn_ok: "batch_ok m b \<Longrightarrow> \<not> failed_stop m \<Longrightarrow> turn_ok m (batch_messages b)"
  by (simp add: batch_ok_def turn_ok_def answers_all_def)

subsection \<open>The loop\<close>

text \<open>A turn is open and no message is.\<close>

definition turn_open :: "agent_message list \<Rightarrow> 'w run_state \<Rightarrow> bool" where
  "turn_open ms s \<longleftrightarrow> (\<exists>reply. \<exists>rs. stands (calm reply rs) ms s)"

lemma turn_openI: "stands (calm reply rs) ms s \<Longrightarrow> turn_open ms s"
  by (auto simp: turn_open_def)

lemma turn_open_pre:
  assumes "\<And>reply rs. hoare (stands (calm reply rs) ms) k Q accepted"
  shows "hoare (turn_open ms) k Q accepted"
  unfolding turn_open_def by (intro hoare_exists assms)

lemma inject_message_contract:
  assumes "\<And>reply rs. hoare (stands (calm reply rs) (ms @ [m])) k Q accepted"
  shows "hoare (stands (calm reply rs) ms) (thenA (emit env (MessageStart m)) (thenA (emit env (MessageEnd m)) k)) Q accepted"
proof -
  obtain reply' rs' where "protocol_step (InTurn (Some (role_of m)) {#} reply rs) (MessageEnd m) = Some (calm reply' rs')"
    by (cases m) auto
  then show ?thesis by (intro hoare_emit_then) (auto intro: assms)
qed

lemma inject_messages_contract:
  "hoare (turn_open ms) (inject_messages env new) (\<lambda>_. turn_open (ms @ new)) accepted"
proof (rule turn_open_pre)
  show "hoare (stands (calm reply rs) ms) (inject_messages env new) (\<lambda>_. turn_open (ms @ new)) accepted" for reply rs
  proof (induction new arbitrary: ms reply rs)
    case Nil
    then show ?case by (auto intro!: hoare_return turn_openI)
  next
    case (Cons m new)
    show ?case
      unfolding inject_messages.simps
      using Cons.IH [of _ _ "ms @ [m]"] by (intro inject_message_contract) simp
  qed
qed

text \<open>Where the loop stands before a turn, and after it.\<close>

definition before_turn :: "'w loop_vars \<Rightarrow> 'w run_state \<Rightarrow> bool" where
  "before_turn v = (case lastCompletedTurn v of
     None \<Rightarrow> turn_open (newMessages v) | Some t \<Rightarrow> stands (BetweenTurns False) (newMessages v))"

definition run_over :: "agent_message list \<Rightarrow> 'w run_state \<Rightarrow> bool" where
  "run_over ms s \<longleftrightarrow> stands RunEnded ms s \<and> last (trace s) = AgentEnd ms"

fun after_turn :: "'w turn_exit \<Rightarrow> 'w run_state \<Rightarrow> bool" where
  "after_turn (RunOver ms) s = run_over ms s"
| "after_turn (TurnOver v) s = (lastCompletedTurn v \<noteq> None \<and> before_turn v s)"

lemma agent_end_contract:
  "hoare (stands (BetweenTurns stop) ms) (emit env (AgentEnd ms)) (\<lambda>_. run_over ms) accepted"
proof (rule hoareI)
  fix s t :: "'a run_state" and u
  assume s: "stands (BetweenTurns stop) ms s" and e: "emit env (AgentEnd ms) s = (Inr u, t)"
  have "hoare (stands (BetweenTurns stop) ms) (emit env (AgentEnd ms)) (\<lambda>_. stands RunEnded (ms @ [])) accepted"
    using hoare_emit [where ev = "AgentEnd ms" and p = "BetweenTurns stop" and q = RunEnded and ms = ms and env = env]
    by simp
  from hoareD(2) [OF this s e] e show "run_over ms t" by (auto simp: run_over_def emit_def)
qed (simp add: emit_def)

lemma finish_run_contract:
  "hoare (stands (BetweenTurns stop) ms) (finish_run env ms) after_turn accepted"
  unfolding finish_run_def by (rule hoare_bind [OF agent_end_contract]) (simp add: hoare_return)

lemma newMessages_apply [simp]:
  "newMessages (apply_turn_update u v) = newMessages v"
  "lastCompletedTurn (apply_turn_update u v) = lastCompletedTurn v"
  by (simp_all add: apply_turn_update_def)

lemma prepare_turn_contract:
  "hoare (before_turn v) (prepare_turn env v)
    (\<lambda>v' s. newMessages v' = newMessages v \<and> turn_open (newMessages v) s) accepted"
proof (cases "lastCompletedTurn v")
  case None
  then show ?thesis by (simp add: prepare_turn_def before_turn_def hoare_return)
next
  case (Some t)
  have open_turn: "hoare (stands (BetweenTurns False) (newMessages v))
      (thenA (emit env TurnStart) (returnA (v1\<lparr>pendingMessages := pending\<rparr>)))
      (\<lambda>v' s. newMessages v' = newMessages v \<and> turn_open (newMessages v) s) accepted"
    if "newMessages v1 = newMessages v" for v1 :: "'a loop_vars" and pending
    using that by (intro hoare_emit_then) (auto intro!: hoare_return turn_openI)
  show ?thesis
    unfolding prepare_turn_def before_turn_def Some option.case Let_def
    by (rule hoare_any_then, (intro silents; fail), rule hoare_any_then, (intro silents; fail), rule open_turn)
       (simp split: option.split)
qed

lemma inject_pending_contract:
  "hoare (turn_open (newMessages v)) (inject_pending env v) (\<lambda>v'. turn_open (newMessages v')) accepted"
  unfolding inject_pending_def
  by (rule hoare_bind [OF inject_messages_contract]) (simp add: hoare_return)

lemma complete_turn_contract:
  assumes "\<not> failed_stop msg"
  shows "hoare (stands (calm (Some msg) []) (newMessages v)) (complete_turn env v msg) after_turn accepted"
  unfolding complete_turn_def published_Nil [symmetric] Let_def
proof (rule hoare_bind_fact [OF run_tools_contract [OF assms]])
  fix batch :: tool_batch
  let ?rs = "batch_messages batch"
  let ?new = "newMessages v @ map ToolResultMessage ?rs"
  let ?turn = "\<lparr>turn_message = msg, turn_toolResults = ?rs,
      turn_context = push_context (map ToolResultMessage ?rs) (currentContext v), turn_newMessages = ?new\<rparr>"
  assume "batch_ok msg batch"
  then have ok: "turn_ok msg ?rs" by (rule batch_ok_turn_ok [OF _ assms])
  have stop: "hoare (stands (BetweenTurns False) ?new)
      (bindA (case shouldStopAfterTurn (loopConfig v) of None \<Rightarrow> returnA False | Some h \<Rightarrow> awaitA (h ?turn))
        (\<lambda>stop. if stop then finish_run env ?new
          else bindA (pollA (getSteeringMessages (loopConfig v)))
            (\<lambda>pending. returnA (TurnOver (v\<lparr>currentContext := push_context (map ToolResultMessage ?rs) (currentContext v),
               newMessages := ?new, lastCompletedTurn := Some ?turn, pendingMessages := pending,
               hasMoreToolCalls := \<not> batch_terminate batch\<rparr>))))) after_turn accepted"
    by (rule hoare_any_then, (intro silents; fail), rule hoare_if, rule finish_run_contract,
        rule hoare_any_then, rule silent_pollA)
       (simp add: hoare_return before_turn_def)
  show "hoare (published msg (newMessages v) ?rs)
      (thenA (emit env (TurnEnd msg ?rs))
        (bindA (case shouldStopAfterTurn (loopConfig v) of None \<Rightarrow> returnA False | Some h \<Rightarrow> awaitA (h ?turn))
        (\<lambda>stop. if stop then finish_run env ?new
          else bindA (pollA (getSteeringMessages (loopConfig v)))
            (\<lambda>pending. returnA (TurnOver (v\<lparr>currentContext := push_context (map ToolResultMessage ?rs) (currentContext v),
               newMessages := ?new, lastCompletedTurn := Some ?turn, pendingMessages := pending,
               hasMoreToolCalls := \<not> batch_terminate batch\<rparr>)))))) after_turn accepted"
    unfolding published_def
    by (rule hoare_emit_then [where q = "BetweenTurns False"]) (use ok assms stop in simp_all)
qed

lemma respond_contract:
  assumes "provider_ok env"
  shows "hoare (turn_open (newMessages v)) (respond env v) after_turn accepted"
proof (rule turn_open_pre)
  fix reply rs
  show "hoare (stands (calm reply rs) (newMessages v)) (respond env v) after_turn accepted"
    unfolding respond_def
  proof (rule hoare_bind_fact [OF streamAssistantResponse_contract [OF assms]])
    fix r :: "assistant_message \<times> 'a agent_context"
    obtain msg ctx where r: "r = (msg, ctx)" by (cases r)
    let ?v = "v\<lparr>currentContext := ctx, newMessages := newMessages v @ [AssistantMessage msg]\<rparr>"
    have failed: "hoare (stands (calm (Some msg) []) (newMessages v @ [AssistantMessage msg]))
        (thenA (emit env (TurnEnd msg [])) (finish_run env (newMessages ?v))) after_turn accepted"
      if "failed_stop msg"
      by (rule hoare_emit_then [where q = "BetweenTurns True"])
         (use that finish_run_contract [of True "newMessages v @ [AssistantMessage msg]" env]
           in \<open>simp_all add: turn_ok_def\<close>)
    show "hoare (stands (calm (Some (fst r)) []) (newMessages v @ [AssistantMessage (fst r)]))
        (case r of (msg, ctx) \<Rightarrow>
          let v' = v\<lparr>currentContext := ctx, newMessages := newMessages v @ [AssistantMessage msg]\<rparr>
          in if am_stopReason msg = ErrorStop \<or> am_stopReason msg = Aborted
             then thenA (emit env (TurnEnd msg [])) (finish_run env (newMessages v'))
             else complete_turn env v' msg)
        after_turn accepted"
      using complete_turn_contract [of msg ?v env] failed
      by (auto simp: r Let_def failed_stop_def)
  qed
qed

lemma run_turn_contract:
  assumes "provider_ok env"
  shows "hoare (before_turn v) (run_turn env v) after_turn accepted"
  unfolding run_turn_def
proof (rule hoare_bind_fact [OF prepare_turn_contract])
  fix v' :: "'a loop_vars"
  assume "newMessages v' = newMessages v"
  then show "hoare (turn_open (newMessages v)) (bindA (inject_pending env v') (respond env)) after_turn accepted"
    by (metis hoare_bind inject_pending_contract respond_contract [OF assms])
qed

lemma turns_contract:
  assumes "provider_ok env"
  shows "hoare (before_turn v) (turns fuel env v) run_over accepted"
proof (induction fuel arbitrary: v)
  case 0
  have "accepted s" if "before_turn v s" for s
    using that by (auto simp: before_turn_def turn_open_def intro: stands_accepted split: option.splits)
  then show ?case by (simp add: hoare_fail)
next
  case (Suc fuel)
  have continue: "hoare (\<lambda>s. lastCompletedTurn v' \<noteq> None \<and> before_turn v' s)
      (if hasMoreToolCalls v' \<or> pendingMessages v' \<noteq> [] then turns fuel env v'
       else bindA (pollA (getFollowUpMessages (loopConfig v')))
         (\<lambda>followUps. if followUps \<noteq> []
            then turns fuel env (v'\<lparr>pendingMessages := followUps, hasMoreToolCalls := True\<rparr>)
            else thenA (emit env (AgentEnd (newMessages v'))) (returnA (newMessages v'))))
      run_over accepted" for v'
  proof (rule hoare_pull)
    assume "lastCompletedTurn v' \<noteq> None"
    then have b: "before_turn v' = stands (BetweenTurns False) (newMessages v')"
      "before_turn (v'\<lparr>pendingMessages := fs, hasMoreToolCalls := True\<rparr>) = stands (BetweenTurns False) (newMessages v')" for fs
      by (auto simp: before_turn_def)
    show "hoare (before_turn v')
      (if hasMoreToolCalls v' \<or> pendingMessages v' \<noteq> [] then turns fuel env v'
       else bindA (pollA (getFollowUpMessages (loopConfig v')))
         (\<lambda>followUps. if followUps \<noteq> []
            then turns fuel env (v'\<lparr>pendingMessages := followUps, hasMoreToolCalls := True\<rparr>)
            else thenA (emit env (AgentEnd (newMessages v'))) (returnA (newMessages v'))))
      run_over accepted"
    proof (rule hoare_if [OF Suc.IH], unfold b(1), rule hoare_any_then [OF silent_pollA], rule hoare_if)
      fix fs
      show "hoare (stands (BetweenTurns False) (newMessages v'))
          (turns fuel env (v'\<lparr>pendingMessages := fs, hasMoreToolCalls := True\<rparr>)) run_over accepted"
        using Suc.IH [of "v'\<lparr>pendingMessages := fs, hasMoreToolCalls := True\<rparr>"] by (simp add: b(2))
      show "hoare (stands (BetweenTurns False) (newMessages v'))
          (thenA (emit env (AgentEnd (newMessages v'))) (returnA (newMessages v'))) run_over accepted"
        by (rule hoare_bind [OF agent_end_contract]) (simp add: hoare_return)
    qed
  qed
  show ?case
    unfolding turns.simps
  proof (rule hoare_bind [OF run_turn_contract [OF assms]])
    fix exit :: "'a turn_exit"
    show "hoare (after_turn exit)
      (case exit of RunOver ms \<Rightarrow> returnA ms
       | TurnOver v' \<Rightarrow> if hasMoreToolCalls v' \<or> pendingMessages v' \<noteq> [] then turns fuel env v'
          else bindA (pollA (getFollowUpMessages (loopConfig v')))
            (\<lambda>followUps. if followUps \<noteq> []
               then turns fuel env (v'\<lparr>pendingMessages := followUps, hasMoreToolCalls := True\<rparr>)
               else thenA (emit env (AgentEnd (newMessages v'))) (returnA (newMessages v'))))
      run_over accepted"
    proof (cases exit)
      case (RunOver ms)
      then show ?thesis by (auto intro!: hoare_return)
    next
      case (TurnOver v')
      then show ?thesis using continue [of v'] by (simp add: after_turn.simps [abs_def])
    qed
  qed
qed

lemma runLoop_contract:
  assumes "provider_ok env"
  shows "hoare (turn_open new) (runLoop fuel env ctx new cfg) run_over accepted"
  unfolding runLoop_def
proof (rule turn_open_pre, rule hoare_any_then [OF silent_pollA])
  fix reply rs pending
  let ?v = "\<lparr>currentContext = ctx, loopConfig = cfg, lastCompletedTurn = None, pendingMessages = pending,
      hasMoreToolCalls = True, newMessages = new\<rparr>"
  show "hoare (stands (calm reply rs) new) (turns fuel env ?v) run_over accepted"
    by (rule hoare_pre [OF turns_contract [OF assms]]) (auto simp: before_turn_def intro: turn_openI)
qed

lemma start_run_contract:
  assumes "hoare (turn_open []) k Q accepted"
  shows "hoare (stands NotStarted []) (thenA (emit env AgentStart) (thenA (emit env TurnStart) k)) Q accepted"
  by (intro hoare_emit_then) (use assms in \<open>auto intro: hoare_pre turn_openI\<close>)

lemma runAgentLoop_contract:
  assumes "provider_ok env"
  shows "hoare (stands NotStarted []) (runAgentLoop fuel env prompts ctx cfg) run_over accepted"
  unfolding runAgentLoop_def
proof (rule start_run_contract)
  show "hoare (turn_open []) (thenA (inject_messages env prompts) (runLoop fuel env (push_context prompts ctx) prompts cfg))
      run_over accepted"
    by (rule hoare_bind [OF inject_messages_contract]) (simp add: runLoop_contract [OF assms])
qed

lemma runAgentLoopContinue_contract:
  assumes "provider_ok env"
  shows "hoare (stands NotStarted []) (runAgentLoopContinue fuel env ctx cfg) run_over accepted"
  unfolding runAgentLoopContinue_def
  by (intro hoare_if hoare_stuck start_run_contract runLoop_contract [OF assms])

subsection \<open>Truncated messages\<close>

text \<open>A program that does nothing but send events: no tool, hook or provider is called, and no tool reports progress.\<close>

fun is_progress :: "agent_event \<Rightarrow> bool" where
  "is_progress (ToolExecutionUpdate i n args r) = True"
| "is_progress _ = False"

definition only_reports :: "'w loop_env \<Rightarrow> ('w, 'a) run \<Rightarrow> bool" where
  "only_reports env p \<longleftrightarrow> (\<forall>s. \<exists>evs. trace (snd (p s)) = trace s @ evs \<and>
     world (snd (p s)) = fold (onEvent env) evs (world s) \<and> list_all (\<lambda>ev. \<not> is_progress ev) evs)"

named_theorems reporting \<open>programs that only send events\<close>

lemma reports_same:
  assumes "\<And>s. snd (p s) = s"
  shows "only_reports env p"
  unfolding only_reports_def by (intro allI exI [of _ "[]"]) (simp add: assms)

lemma reports_pure [reporting]: "only_reports env (returnA a)" "only_reports env (readA g)"
  by (rule reports_same; simp add: run_simps)+

lemma reports_emit [reporting]: "\<not> is_progress ev \<Longrightarrow> only_reports env (emit env ev)"
  unfolding only_reports_def by (intro allI exI [of _ "[ev]"]) (simp add: emit_def)

lemma reports_bind [reporting]:
  assumes m: "only_reports env m" and k: "\<And>a. only_reports env (k a)"
  shows "only_reports env (bindA m k)"
  unfolding only_reports_def
proof
  fix s
  obtain r t where r: "m s = (r, t)" by fastforce
  from m r obtain evs where evs: "trace t = trace s @ evs" "world t = fold (onEvent env) evs (world s)"
    "list_all (\<lambda>ev. \<not> is_progress ev) evs" unfolding only_reports_def by (metis snd_conv)
  show "\<exists>evs. trace (snd (bindA m k s)) = trace s @ evs \<and>
      world (snd (bindA m k s)) = fold (onEvent env) evs (world s) \<and> list_all (\<lambda>ev. \<not> is_progress ev) evs"
  proof (cases r)
    case (Inl e)
    then show ?thesis using r evs by auto
  next
    case (Inr a)
    from k [of a] obtain fs where "trace (snd (k a t)) = trace t @ fs" "world (snd (k a t)) = fold (onEvent env) fs (world t)"
      "list_all (\<lambda>ev. \<not> is_progress ev) fs" unfolding only_reports_def by metis
    then show ?thesis using r Inr evs by (intro exI [of _ "evs @ fs"]) simp
  qed
qed

lemma reports_fail_calls: "only_reports env (fail_calls env cs)"
  by (induction cs)
     (auto simp: Let_def emitToolExecutionStart_def emitToolExecutionEnd_def publish_result_def emitToolResultMessage_def
       intro!: reporting)

lemma truncated_run_tools: "am_stopReason m = Length \<Longrightarrow> only_reports env (run_tools env v m)"
  by (auto simp: run_tools_def Let_def failToolCallsFromTruncatedMessage_def intro!: reporting reports_fail_calls)

lemma truncated_complete_turn:
  "am_stopReason m = Length \<Longrightarrow> shouldStopAfterTurn (loopConfig v) = None \<Longrightarrow> getSteeringMessages (loopConfig v) = None \<Longrightarrow>
   only_reports env (complete_turn env v m)"
  by (auto simp: complete_turn_def Let_def pollA_def finish_run_def intro!: reporting truncated_run_tools)

subsection \<open>A concrete environment\<close>

text \<open>
  The world is the number of tool calls the model still wants to make; the model asks for the tool
  \<^verbatim>\<open>echo\<close> until it is zero. The witnesses run the loop in it.
\<close>

definition demo_usage :: usage where
  "demo_usage = \<lparr>u_input = 1, u_output = 1, u_cacheRead = 0, u_cacheWrite = 0, u_cacheWrite1h = None,
     u_reasoning = None, u_totalTokens = 2,
     usage_cost = \<lparr>cost_input = 0, cost_output = 0, cost_cacheRead = 0, cost_cacheWrite = 0, cost_total = 0\<rparr>\<rparr>"

definition demo_message :: "content_block list \<Rightarrow> stop_reason \<Rightarrow> assistant_message" where
  "demo_message content stop = \<lparr>am_content = content, am_api = ''api'', am_provider = ''p'', am_model = ''m'',
     am_responseModel = None, am_responseId = None, am_diagnostics = None, am_usage = demo_usage,
     am_stopReason = stop, am_deferred = None, am_errorMessage = None, am_rawStopReason = None,
     am_endTurn = None, am_timestamp = 0\<rparr>"

definition demo_call :: tool_call where
  "demo_call = \<lparr>call_id = ''c'', call_name = ''echo'', call_arguments = JNull, call_thoughtSignature = None,
     call_namespace = None\<rparr>"

definition demo_tool :: "nat agent_tool" where
  "demo_tool = \<lparr>tool_name = ''echo'', tool_description = [], tool_parameters = JNull, tool_label = [],
     tool_prepareArguments = None,
     tool_execute = (\<lambda>i args w. ([Progress (createErrorToolResult ''half''), Resolved (createErrorToolResult ''done'')], w)),
     tool_executionMode = None\<rparr>"

definition demo_context :: "nat agent_context" where
  "demo_context = \<lparr>ctx_systemPrompt = [], ctx_messages = [], ctx_tools = Some [demo_tool]\<rparr>"

definition demo_config :: "nat loop_config" where
  "demo_config = \<lparr>cfg_model = \<lparr>model_id = ''m'', model_api = ''api'', model_provider = ''p'', model_rest = JNull\<rparr>,
     cfg_reasoning = None, cfg_apiKey = None, cfg_options = JNull, cfg_toolExecution = None,
     convertToLlm_hook = (\<lambda>ms w. (Inr ms, w)), transformContext = None, getApiKey = None,
     shouldStopAfterTurn = None, prepareNextTurn = None, getSteeringMessages = None,
     getFollowUpMessages = None, beforeToolCall = None, afterToolCall = None\<rparr>"

definition demo_reply :: "nat \<Rightarrow> assistant_message" where
  "demo_reply w = (if w = 0 then demo_message [TextContent ''ok'' None] Stop
     else demo_message [ToolCallContent demo_call] ToolUse)"

definition demo_env :: "nat loop_env" where
  "demo_env = \<lparr>onEvent = (\<lambda>ev w. w), signal_aborted = (\<lambda>w. False), now_ms = (\<lambda>w. 0),
     streamFunction = (\<lambda>m ctx cfg w. (Inr \<lparr>stream_events = [StreamStart (demo_reply w), StreamDone Stop (demo_reply w)],
        stream_result = demo_reply w\<rparr>, w - 1)),
     validateArguments = (\<lambda>t c. Inr (call_arguments c)), interleaving = (\<lambda>w. [0])\<rparr>"

lemma demo_provider_ok: "provider_ok demo_env"
  by (auto simp: provider_ok_def demo_env_def)

subsection \<open>Properties\<close>

abbreviation fresh_run :: "'w \<Rightarrow> 'w run_state" where
  "fresh_run w \<equiv> \<lparr>world = w, trace = []\<rparr>"

lemma fresh_stands: "stands NotStarted [] (fresh_run w)"
  by (simp add: stands_def protocol_def)

lemma contract_accepts:
  assumes "hoare (stands NotStarted []) m run_over accepted"
  shows "protocol (trace (snd (m (fresh_run w)))) \<noteq> None"
proof (cases "m (fresh_run w)")
  case (Pair r t)
  have "accepted t"
  proof (cases r)
    case (Inr ms)
    then have "run_over ms t" using hoareD(2) [OF assms fresh_stands] Pair by simp
    then show ?thesis by (auto simp: run_over_def intro: stands_accepted)
  qed (use hoareD(1) [OF assms fresh_stands] Pair in simp)
  then show ?thesis using Pair by (simp add: accepted_def)
qed

text \<open>
  C1. Whatever the hooks, tools, abort signal and interleaving do, the events of a run follow the protocol:
  every prefix of the trace of a prompt run and of a continuation is accepted, also when a hook throws or
  the loop is cut off.
\<close>

theorem run_follows_protocol:
  assumes "provider_ok env"
  shows "protocol (take n (trace (snd (runAgentLoop fuel env prompts ctx cfg (fresh_run w))))) \<noteq> None \<and>
    protocol (take n (trace (snd (runAgentLoopContinue fuel env ctx cfg (fresh_run w))))) \<noteq> None"
  using contract_accepts [OF runAgentLoop_contract [OF assms]]
    contract_accepts [OF runAgentLoopContinue_contract [OF assms]]
  unfolding protocol_def by (intro conjI run_machine_prefix)

lemma run_follows_protocol_witness:
  "protocol (take 4 (trace (snd (runAgentLoop 2 demo_env [] demo_context demo_config (fresh_run 1))))) \<noteq> None \<and>
   protocol (take 4 (trace (snd (runAgentLoopContinue 2 demo_env demo_context demo_config (fresh_run 1))))) \<noteq> None"
  by (rule run_follows_protocol [OF demo_provider_ok])

lemma run_returns:
  assumes "provider_ok env"
    and "runAgentLoop fuel env prompts ctx cfg (fresh_run w) = (Inr ms, t)"
  shows "protocol (trace t) = Some RunEnded" "ended_messages (trace t) = ms" "last (trace t) = AgentEnd ms"
  using hoareD(2) [OF runAgentLoop_contract [OF assms(1)] fresh_stands assms(2)]
  by (simp_all add: run_over_def stands_def)

text \<open>
  C4. At every \<^verbatim>\<open>turn_end\<close> of a run the tool results answer the calls of the assistant message: they carry the
  ids and names of its first calls in source order, at least one if there is a call, whatever the execution
  mode and the order in which tools complete; a failed message has no results; a message cut off by the
  token limit has an error result for every call. And no tool is executed for a message that was cut off: whatever the
  tools and the tool hooks are, the tool phase of its turn only sends events, none of them a progress report of a tool,
  and the world becomes what the event sink makes of it; the same holds of all that follows the reply in that turn
  when there is neither a stop hook nor a steering queue to ask.
\<close>

theorem tool_results_answer_calls:
  assumes "provider_ok env"
    and "TurnEnd m rs \<in> set (trace (snd (runAgentLoop fuel env prompts ctx cfg (fresh_run w))))"
  shows "turn_ok m rs \<and>
    (am_stopReason m = Length \<longrightarrow> only_reports env (run_tools env v m) \<and>
       (shouldStopAfterTurn (loopConfig v) = None \<and> getSteeringMessages (loopConfig v) = None \<longrightarrow>
          only_reports env (complete_turn env v m)))"
proof
  obtain q where "protocol_step q (TurnEnd m rs) \<noteq> None"
    using run_machine_step contract_accepts [OF runAgentLoop_contract [OF assms(1)]] assms(2)
    unfolding protocol_def by metis
  then show "turn_ok m rs" by (auto simp: protocol_step_def split: phase.splits option.splits if_splits)
qed (simp add: truncated_run_tools truncated_complete_turn)

text \<open>A provider that cuts off its first reply.\<close>

definition cut_reply :: assistant_message where
  "cut_reply = demo_message [ToolCallContent demo_call] Length"

definition cut_env :: "nat loop_env" where
  "cut_env = demo_env\<lparr>streamFunction := (\<lambda>m ctx cfg w. let r = (if w = 0 then demo_reply 0 else cut_reply) in
     (Inr \<lparr>stream_events = [StreamStart r, StreamDone Stop r], stream_result = r\<rparr>, w - 1))\<rparr>"

definition cut_result :: tool_result_message where
  "cut_result = createToolResultMessage 0 \<lparr>fin_toolCall = demo_call,
     fin_result = createErrorToolResult ''Tool call \"echo\" was not executed: the response hit the output token limit, so its arguments may be truncated. Re-issue the tool call with complete arguments.'',
     fin_isError = True\<rparr>"

lemma cut_provider_ok: "provider_ok cut_env"
  by (auto simp: provider_ok_def cut_env_def demo_env_def Let_def)

lemma tool_results_answer_calls_witness:
  "turn_ok cut_reply [cut_result] \<and> only_reports cut_env (run_tools cut_env \<lparr>currentContext = demo_context,
     loopConfig = demo_config, lastCompletedTurn = None, pendingMessages = [], hasMoreToolCalls = True, newMessages = []\<rparr> cut_reply)"
proof -
  have "TurnEnd cut_reply [cut_result] \<in> set (trace (snd (runAgentLoop 2 cut_env [] demo_context demo_config (fresh_run 1))))"
    by code_simp
  from tool_results_answer_calls [OF cut_provider_ok this, of "\<lparr>currentContext = demo_context,
     loopConfig = demo_config, lastCompletedTurn = None, pendingMessages = [], hasMoreToolCalls = True, newMessages = []\<rparr>"]
  show ?thesis by (simp add: cut_reply_def demo_message_def)
qed

end
