(* ===== verification/AgentProgress.thy ===== *)
theory AgentProgress
  imports AgentProtocol
begin

text \<open>
  Termination of the agent loop, and what has to hold before a tool runs.

  The loop ends only if its environment lets it: a model that asks for tools forever keeps it running. The
  hypothesis is a potential on the world that nothing increases and that every reason for another turn
  uses up: a reply that asks for tools, a non-empty steering poll, a non-empty follow-up poll. Then as many
  turns as the potential allows are enough fuel. \<open>bounded pot F G c m\<close> is the contract of one step: \<open>m\<close> ends
  with a value in \<open>G\<close> and uses up \<open>c\<close> of the potential, or with a failure in \<open>F\<close>.
\<close>

definition bounded :: "('w \<Rightarrow> nat) \<Rightarrow> (failure \<Rightarrow> bool) \<Rightarrow> ('a \<Rightarrow> bool) \<Rightarrow> ('a \<Rightarrow> nat) \<Rightarrow> ('w, 'a) run \<Rightarrow> bool" where
  "bounded pot F G c m \<longleftrightarrow> (\<forall>s. case m s of
     (Inl e, t) \<Rightarrow> F e \<and> pot (world t) \<le> pot (world s)
   | (Inr a, t) \<Rightarrow> G a \<and> pot (world t) + c a \<le> pot (world s))"

abbreviation steady :: "('w \<Rightarrow> nat) \<Rightarrow> (failure \<Rightarrow> bool) \<Rightarrow> ('w, 'a) run \<Rightarrow> bool" where
  "steady pot F m \<equiv> bounded pot F (\<lambda>_. True) (\<lambda>_. 0) m"

named_theorems steadies \<open>programs that end and never increase the potential\<close>

lemma boundedD:
  assumes "bounded pot F G c m"
  shows "m s = (Inr a, t) \<Longrightarrow> G a \<and> pot (world t) + c a \<le> pot (world s)"
    "m s = (Inl e, t) \<Longrightarrow> F e \<and> pot (world t) \<le> pot (world s)"
  using assms by (auto simp: bounded_def split: prod.splits sum.splits)

lemma bounded_bind:
  assumes m: "bounded pot F G1 c1 m" and k: "\<And>a. G1 a \<Longrightarrow> bounded pot F G (c2 a) (k a)"
    and c: "\<And>a b. G1 a \<Longrightarrow> G b \<Longrightarrow> c b \<le> c1 a + c2 a b"
  shows "bounded pot F G c (bindA m k)"
  unfolding bounded_def
proof
  fix s
  obtain r t where r: "m s = (r, t)" by (cases "m s")
  show "case bindA m k s of
     (Inl e, t) \<Rightarrow> F e \<and> pot (world t) \<le> pot (world s)
   | (Inr a, t) \<Rightarrow> G a \<and> pot (world t) + c a \<le> pot (world s)"
  proof (cases r)
    case (Inl e)
    then show ?thesis using r boundedD(2) [OF m, of s] by (simp add: bindA_cases)
  next
    case (Inr a)
    then have a: "G1 a" "pot (world t) + c1 a \<le> pot (world s)" using r boundedD(1) [OF m, of s] by auto
    obtain q u where q: "k a t = (q, u)" by (cases "k a t")
    show ?thesis
    proof (cases q)
      case (Inl e)
      then show ?thesis using r Inr q a boundedD(2) [OF k [OF a(1)], of t] by (simp add: bindA_cases)
    next
      fix b
      assume b: "q = Inr b"
      then have "G b" "pot (world u) + c2 a b \<le> pot (world t)" using q boundedD(1) [OF k [OF a(1)], of t] by auto
      then show ?thesis using r \<open>r = Inr a\<close> q b a(2) c [OF a(1) \<open>G b\<close>] by (simp add: bindA_cases)
    qed
  qed
qed

lemma bounded_bind_fact:
  assumes "bounded pot F G1 (\<lambda>_. 0) m" "\<And>a. G1 a \<Longrightarrow> bounded pot F G c (k a)"
  shows "bounded pot F G c (bindA m k)"
  by (rule bounded_bind [OF assms]) simp_all

lemma steady_bind [steadies]:
  assumes "steady pot F m" "\<And>a. bounded pot F G c (k a)"
  shows "bounded pot F G c (bindA m k)"
  by (rule bounded_bind_fact [OF assms(1) assms(2)])

lemma bounded_return: "G a \<Longrightarrow> c a = 0 \<Longrightarrow> bounded pot F G c (returnA a)"
  by (simp add: bounded_def run_simps)

lemma bounded_weaken:
  assumes "bounded pot F G' c' m" "\<And>a. G' a \<Longrightarrow> G a \<and> c a \<le> c' a"
  shows "bounded pot F G c m"
  unfolding bounded_def
proof
  fix s
  show "case m s of
     (Inl e, t) \<Rightarrow> F e \<and> pot (world t) \<le> pot (world s)
   | (Inr a, t) \<Rightarrow> G a \<and> pot (world t) + c a \<le> pot (world s)"
    using boundedD [OF assms(1), of s] assms(2) by (cases "m s"; cases "fst (m s)") fastforce+
qed

lemma steady_returns:
  assumes "steady pot F m" "returns m G"
  shows "bounded pot F G (\<lambda>_. 0) m"
  using assms unfolding bounded_def returns_def by (fastforce split: prod.splits sum.splits)

lemma steady_basic [steadies]:
  "steady pot F (returnA a)"
  "steady pot F (readA g)"
  "steady pot F (abortedA env)"
  by (simp_all add: bounded_def run_simps abortedA_def)

lemma bounded_if [steadies]:
  "(b \<Longrightarrow> bounded pot F G c m) \<Longrightarrow> (\<not> b \<Longrightarrow> bounded pot F G c n) \<Longrightarrow> bounded pot F G c (if b then m else n)"
  by simp

lemma steady_attempt:
  assumes "steady pot (\<lambda>e. e \<noteq> Unsettled) m"
  shows "steady pot F (attempt m)"
  unfolding bounded_def
proof
  fix s
  show "case attempt m s of
     (Inl e, t) \<Rightarrow> F e \<and> pot (world t) \<le> pot (world s)
   | (Inr a, t) \<Rightarrow> True \<and> pot (world t) + 0 \<le> pot (world s)"
    using boundedD [OF assms, of s]
    by (cases "m s"; cases "fst (m s)") (auto simp: attempt_def split: failure.splits)
qed

subsection \<open>Well-behaved environments\<close>

fun settles :: "tool_signal \<Rightarrow> bool" where
  "settles (Progress r) = False"
| "settles _ = True"

text \<open>A hook that may throw, one that must not, and a queue.\<close>

definition effect_ok :: "('w \<Rightarrow> nat) \<Rightarrow> ('w, 'a) effect \<Rightarrow> bool" where
  "effect_ok pot f \<longleftrightarrow> (\<forall>w. pot (snd (f w)) \<le> pot w)"

definition hook_ok :: "('w \<Rightarrow> nat) \<Rightarrow> ('a \<Rightarrow> bool) \<Rightarrow> ('a \<Rightarrow> nat) \<Rightarrow> ('w, 'a) effect \<Rightarrow> bool" where
  "hook_ok pot G c f \<longleftrightarrow> (\<forall>w. case f w of (Inl e, w') \<Rightarrow> False | (Inr a, w') \<Rightarrow> G a \<and> pot w' + c a \<le> pot w)"

abbreviation plain_hook :: "('w \<Rightarrow> nat) \<Rightarrow> ('w, 'a) effect \<Rightarrow> bool" where
  "plain_hook pot \<equiv> hook_ok pot (\<lambda>_. True) (\<lambda>_. 0)"

definition queue_ok :: "('w \<Rightarrow> nat) \<Rightarrow> ('w, agent_message list) effect option \<Rightarrow> bool" where
  "queue_ok pot q = pred_option (hook_ok pot (\<lambda>_. True) (\<lambda>ms. if ms = [] then 0 else 1)) q"

definition tool_ok :: "('w \<Rightarrow> nat) \<Rightarrow> 'w agent_tool \<Rightarrow> bool" where
  "tool_ok pot t \<longleftrightarrow>
     pred_option (\<lambda>f. \<forall>args. effect_ok pot (f args)) (tool_prepareArguments t) \<and>
     (\<forall>i args w. case tool_execute t i args w of (sigs, w') \<Rightarrow> list_ex settles sigs \<and> pot w' \<le> pot w)"

definition context_ok :: "('w \<Rightarrow> nat) \<Rightarrow> 'w agent_context \<Rightarrow> bool" where
  "context_ok pot ctx = pred_option (list_all (tool_ok pot)) (ctx_tools ctx)"

definition asks_for_tools :: "assistant_message \<Rightarrow> bool" where
  "asks_for_tools m \<longleftrightarrow> tool_calls (am_content m) \<noteq> [] \<and> \<not> failed_stop m"

definition environment_ok :: "('w \<Rightarrow> nat) \<Rightarrow> 'w loop_env \<Rightarrow> bool" where
  "environment_ok pot env \<longleftrightarrow>
     (\<forall>ev w. pot (onEvent env ev w) \<le> pot w) \<and>
     (\<forall>m ctx cfg. hook_ok pot (\<lambda>_. True) (\<lambda>r. if asks_for_tools (stream_result r) then 1 else 0)
        (streamFunction env m ctx cfg))"

definition config_ok :: "('w \<Rightarrow> nat) \<Rightarrow> 'w loop_config \<Rightarrow> bool" where
  "config_ok pot cfg \<longleftrightarrow>
     (\<forall>ms. plain_hook pot (convertToLlm_hook cfg ms)) \<and>
     pred_option (\<lambda>f. \<forall>ms. plain_hook pot (f ms)) (transformContext cfg) \<and>
     pred_option (\<lambda>f. \<forall>p. plain_hook pot (f p)) (getApiKey cfg) \<and>
     pred_option (\<lambda>f. \<forall>t. plain_hook pot (f t)) (shouldStopAfterTurn cfg) \<and>
     pred_option (\<lambda>f. \<forall>t. hook_ok pot
        (\<lambda>u. pred_option (\<lambda>u. pred_option (context_ok pot) (tu_context u)) u) (\<lambda>_. 0) (f t)) (prepareNextTurn cfg) \<and>
     queue_ok pot (getSteeringMessages cfg) \<and> queue_ok pot (getFollowUpMessages cfg) \<and>
     pred_option (\<lambda>f. \<forall>x. effect_ok pot (f x)) (beforeToolCall cfg) \<and>
     pred_option (\<lambda>f. \<forall>x. effect_ok pot (f x)) (afterToolCall cfg)"

lemma config_ok_update [simp]:
  "config_ok pot (cfg\<lparr>cfg_model := m\<rparr>) = config_ok pot cfg"
  "config_ok pot (cfg\<lparr>cfg_reasoning := r\<rparr>) = config_ok pot cfg"
  "config_ok pot (cfg\<lparr>cfg_model := m, cfg_reasoning := r\<rparr>) = config_ok pot cfg"
  by (simp_all add: config_ok_def)

lemma context_ok_update [simp]:
  "context_ok pot (ctx\<lparr>ctx_messages := ms\<rparr>) = context_ok pot ctx"
  "context_ok pot (push_context ms ctx) = context_ok pot ctx"
  by (simp_all add: context_ok_def push_context_def)

lemma bounded_await:
  assumes "hook_ok pot G c f"
  shows "bounded pot F G c (awaitA f)"
  unfolding bounded_def
proof
  fix s :: "'a run_state"
  show "case awaitA f s of
     (Inl e, t) \<Rightarrow> F e \<and> pot (world t) \<le> pot (world s)
   | (Inr a, t) \<Rightarrow> G a \<and> pot (world t) + c a \<le> pot (world s)"
    using assms [unfolded hook_ok_def, rule_format, of "world s"]
    by (cases "f (world s)") (auto simp: awaitA_def split: sum.splits)
qed

lemma tolerant_await: "effect_ok pot f \<Longrightarrow> steady pot (\<lambda>e. e \<noteq> Unsettled) (awaitA f)"
  unfolding bounded_def
proof
  fix s :: "'a run_state"
  assume "effect_ok pot f"
  then have "pot (snd (f (world s))) \<le> pot (world s)" by (simp add: effect_ok_def)
  then show "case awaitA f s of
     (Inl e, t) \<Rightarrow> e \<noteq> Unsettled \<and> pot (world t) \<le> pot (world s)
   | (Inr a, t) \<Rightarrow> True \<and> pot (world t) + 0 \<le> pot (world s)"
    by (cases "f (world s)") (simp add: awaitA_def split: sum.split)
qed

lemma bounded_poll:
  "queue_ok pot q \<Longrightarrow> bounded pot F (\<lambda>_. True) (\<lambda>ms. if ms = [] then 0 else 1) (pollA q)"
  by (cases q) (auto simp: queue_ok_def pollA_def intro: bounded_return bounded_await)

lemma steady_emit: "environment_ok pot env \<Longrightarrow> steady pot F (emit env ev)"
  by (simp add: bounded_def emit_def environment_ok_def)

lemma hook_okI:
  "config_ok pot cfg \<Longrightarrow> plain_hook pot (convertToLlm_hook cfg ms)"
  "config_ok pot cfg \<Longrightarrow> transformContext cfg = Some f1 \<Longrightarrow> plain_hook pot (f1 ms)"
  "config_ok pot cfg \<Longrightarrow> getApiKey cfg = Some f2 \<Longrightarrow> plain_hook pot (f2 p)"
  "config_ok pot cfg \<Longrightarrow> shouldStopAfterTurn cfg = Some f3 \<Longrightarrow> plain_hook pot (f3 t)"
  "config_ok pot cfg \<Longrightarrow> beforeToolCall cfg = Some f4 \<Longrightarrow> effect_ok pot (f4 b)"
  "config_ok pot cfg \<Longrightarrow> afterToolCall cfg = Some f5 \<Longrightarrow> effect_ok pot (f5 a)"
  "config_ok pot cfg \<Longrightarrow> queue_ok pot (getSteeringMessages cfg)"
  "config_ok pot cfg \<Longrightarrow> queue_ok pot (getFollowUpMessages cfg)"
  by (auto simp: config_ok_def)

lemma prepare_hook_ok:
  "config_ok pot cfg \<Longrightarrow> prepareNextTurn cfg = Some f \<Longrightarrow>
     hook_ok pot (\<lambda>u. pred_option (\<lambda>u. pred_option (context_ok pot) (tu_context u)) u) (\<lambda>_. 0) (f t)"
  by (simp add: config_ok_def)

lemma stream_hook_ok:
  "environment_ok pot env \<Longrightarrow>
     hook_ok pot (\<lambda>_. True) (\<lambda>r. if asks_for_tools (stream_result r) then 1 else 0) (streamFunction env m ctx cfg)"
  by (simp add: environment_ok_def)

lemma find_tool_ok:
  assumes "context_ok pot ctx" "find_tool ctx n = Some t"
  shows "tool_ok pot t"
  using assms by (auto simp: context_ok_def find_tool_def list_all_iff find_Some_iff split: option.splits)

subsection \<open>The parts end\<close>

lemma steady_finish_response:
  assumes "environment_ok pot env"
  shows "bounded pot F (\<lambda>r. fst r = final) (\<lambda>_. 0) (finish_response env final added ms)"
  unfolding finish_response_def
  by (intro steadies bounded_return steady_emit [OF assms]) simp_all

lemma steady_consume_stream:
  assumes "environment_ok pot env"
  shows "bounded pot F (\<lambda>r. fst r = final) (\<lambda>_. 0) (consume_stream env final evs partial added ms)"
proof (induction evs arbitrary: partial added ms)
  case Nil
  then show ?case by (simp add: steady_finish_response [OF assms])
next
  case (Cons ev evs)
  note emit = steady_bind [OF steady_emit [OF assms] Cons.IH]
  consider (start) p where "ev = StreamStart p"
    | (over) r m where "ev = StreamDone r m \<or> ev = StreamError r m"
    | (update) p where "update_partial ev = Some p"
    using event_cases by blast
  then show ?case
  proof cases
    case start
    then show ?thesis by (simp add: emit)
  next
    case over
    then show ?thesis by (auto simp: steady_finish_response [OF assms])
  next
    case update
    show ?thesis
      unfolding consume_update(1) [OF update] by (simp add: emit Cons.IH split: option.split)
  qed
qed

lemma steady_option [steadies]:
  assumes "x = None \<Longrightarrow> bounded pot F G c m" "\<And>f. x = Some f \<Longrightarrow> bounded pot F G c (k f)"
  shows "bounded pot F G c (case x of None \<Rightarrow> m | Some f \<Rightarrow> k f)"
  using assms by (simp split: option.split)

lemma streamAssistantResponse_ends:
  assumes env: "environment_ok pot env" and cfg: "config_ok pot cfg" and ctx: "context_ok pot ctx"
  shows "bounded pot F (\<lambda>r. context_ok pot (snd r)) (\<lambda>r. if asks_for_tools (fst r) then 1 else 0)
    (streamAssistantResponse env ctx cfg)"
proof -
  have rest: "bounded pot F (\<lambda>r. context_ok pot (snd r)) (\<lambda>r. if asks_for_tools (fst r) then 1 else 0)
      (bindA (awaitA (streamFunction env m lctx cfg'))
        (\<lambda>response. bindA (consume_stream env (stream_result response) (stream_events response) None False (ctx_messages ctx))
        (\<lambda>(final, messages). returnA (final, ctx\<lparr>ctx_messages := messages\<rparr>))))" for m lctx cfg'
  proof (rule bounded_bind [OF bounded_await [OF stream_hook_ok [OF env]]])
    fix response
    let ?c = "\<lambda>r :: assistant_message \<times> 'a agent_context. if fst r = stream_result response then 0 else 1 :: nat"
    show "bounded pot F (\<lambda>r. context_ok pot (snd r)) ?c
        (bindA (consume_stream env (stream_result response) (stream_events response) None False (ctx_messages ctx))
          (\<lambda>(final, messages). returnA (final, ctx\<lparr>ctx_messages := messages\<rparr>)))"
      by (rule bounded_bind_fact [OF steady_consume_stream [OF env]])
         (auto simp: ctx split: prod.split intro!: bounded_return)
  qed auto
  show ?thesis
    unfolding streamAssistantResponse_def
    by (intro steadies bounded_await hook_okI [OF cfg] rest)
qed

lemma tolerant_liftE: "steady pot (\<lambda>e. e \<noteq> Unsettled) (liftE r)"
  by (cases r) (simp_all add: liftE_def bounded_def run_simps)

lemma steady_check_abort: "steady pot F (check_abort env t p)"
  unfolding check_abort_def by (intro steadies)

lemma tolerant_prepareArguments:
  assumes "tool_ok pot t"
  shows "steady pot (\<lambda>e. e \<noteq> Unsettled) (prepareToolCallArguments t c)"
  using assms unfolding prepareToolCallArguments_def tool_ok_def
  by (intro steadies tolerant_await) simp_all

lemma tolerant_prepare_body:
  assumes "tool_ok pot t" "config_ok pot cfg"
  shows "steady pot (\<lambda>e. e \<noteq> Unsettled) (prepare_body env ctx msg c cfg t)"
  unfolding prepare_body_def Let_def
  by (intro steadies tolerant_liftE tolerant_prepareArguments [OF assms(1)] steady_check_abort
      tolerant_await hook_okI(5) [OF assms(2)])

lemma prepareToolCall_ends:
  assumes "context_ok pot ctx" "config_ok pot cfg"
  shows "bounded pot F (prepared_for env ctx c) (\<lambda>_. 0) (prepareToolCall env ctx msg c cfg)"
proof (rule steady_returns [OF _ returns_prepareToolCall])
  show "steady pot F (prepareToolCall env ctx msg c cfg)"
    unfolding prepareToolCall_def
    by (intro steadies steady_attempt tolerant_prepare_body find_tool_ok [OF assms(1)] assms(2))
qed

lemma startTool_ends:
  assumes "tool_ok pot t"
  shows "bounded pot F (list_ex settles) (\<lambda>_. 0) (startTool t p)"
  unfolding startTool_def
proof (rule bounded_await)
  show "hook_ok pot (list_ex settles) (\<lambda>_. 0)
      (\<lambda>w. case tool_execute t (call_id (ptc_toolCall p)) (ptc_args p) w of (sigs, w') \<Rightarrow> (Inr sigs, w'))"
    using assms unfolding hook_ok_def tool_ok_def by (fastforce split: prod.splits)
qed

lemma steady_emitUpdate: "environment_ok pot env \<Longrightarrow> steady pot F (emitUpdate env c r)"
  unfolding emitUpdate_def by (rule steady_emit)

lemma await_tool_ends:
  assumes "environment_ok pot env" "list_ex settles sigs"
  shows "steady pot F (await_tool env c sigs)"
  using assms(2)
proof (induction sigs)
  case (Cons sg sigs)
  then show ?case
    by (cases sg) (auto intro!: steadies steady_emitUpdate [OF assms(1)])
qed simp

lemma finalize_ends:
  assumes "config_ok pot cfg"
  shows "steady pot F (finalizeExecutedToolCall ctx msg p x cfg)"
  unfolding finalizeExecutedToolCall_def
  by (cases x) (simp, intro steadies steady_attempt tolerant_await hook_okI(6) [OF assms])

lemma executePreparedToolCall_ends:
  assumes "environment_ok pot env" "tool_ok pot t"
  shows "steady pot F (executePreparedToolCall env t p)"
  unfolding executePreparedToolCall_def
  by (rule bounded_bind_fact [OF startTool_ends [OF assms(2)] await_tool_ends [OF assms(1)]])

lemma steady_emits:
  assumes "environment_ok pot env"
  shows "steady pot F (emitToolExecutionStart env c)" "steady pot F (emitToolExecutionEnd env f)"
    "steady pot F (publish_result env f)"
  unfolding emitToolExecutionStart_def emitToolExecutionEnd_def publish_result_def emitToolResultMessage_def
  by (intro steadies steady_emit [OF assms])+

lemma steady_preparation [steadies]:
  assumes "\<And>r e. x = Immediate r e \<Longrightarrow> bounded pot F G c (k r e)"
    "\<And>t p. x = Prepared t p \<Longrightarrow> bounded pot F G c (h t p)"
  shows "bounded pot F G c (case x of Immediate r e \<Rightarrow> k r e | Prepared t p \<Rightarrow> h t p)"
  using assms by (simp split: preparation.split)

lemma prepared_tool_ok:
  "context_ok pot ctx \<Longrightarrow> prepared_for env ctx c (Prepared t p) \<Longrightarrow> tool_ok pot t"
  by (auto simp: prepared_for_def intro: find_tool_ok)

subsection \<open>Batches end\<close>

lemma run_call_ends:
  assumes "environment_ok pot env" "context_ok pot ctx" "config_ok pot cfg"
  shows "steady pot F (run_call env ctx msg cfg c)"
  unfolding run_call_def
proof (rule steady_bind [OF steady_emits(1) [OF assms(1)]], rule bounded_bind_fact [OF prepareToolCall_ends [OF assms(2,3)]])
  fix r
  assume r: "prepared_for env ctx c r"
  show "steady pot F (bindA (case r of Immediate r e \<Rightarrow> returnA \<lparr>fin_toolCall = c, fin_result = r, fin_isError = e\<rparr>
            | Prepared t p \<Rightarrow> bindA (executePreparedToolCall env t p) (\<lambda>x. finalizeExecutedToolCall ctx msg p x cfg))
         (\<lambda>f. thenA (emitToolExecutionEnd env f) (returnA f)))"
    using r prepared_tool_ok [OF assms(2)]
    by (intro steadies steady_emits [OF assms(1)] executePreparedToolCall_ends [OF assms(1)] finalize_ends [OF assms(3)]) auto
qed

lemma sequential_calls_ends:
  assumes "environment_ok pot env" "context_ok pot ctx" "config_ok pot cfg"
  shows "steady pot F (sequential_calls env ctx msg cfg cs)"
  by (induction cs) (auto intro!: steadies run_call_ends [OF assms] steady_emits(3) [OF assms(1)])

lemma fail_calls_ends:
  assumes "environment_ok pot env"
  shows "steady pot F (fail_calls env cs)"
  by (induction cs) (auto simp: Let_def intro!: steadies steady_emits [OF assms])

fun task_ok :: "('w \<Rightarrow> nat) \<Rightarrow> 'w tool_task \<Rightarrow> bool" where
  "task_ok pot (Queued t p) = tool_ok pot t"
| "task_ok pot (Executing p sigs) = list_ex settles sigs"
| "task_ok pot task = True"

lemma prepare_calls_ends:
  assumes "environment_ok pot env" "context_ok pot ctx" "config_ok pot cfg"
  shows "bounded pot F (list_all (task_ok pot)) (\<lambda>_. 0) (prepare_calls env ctx msg cfg cs)"
proof (induction cs)
  case Nil
  then show ?case by (simp add: bounded_return)
next
  case (Cons c cs)
  have rest: "bounded pot F (list_all (task_ok pot)) (\<lambda>_. 0)
      (bindA (abortedA env) (\<lambda>a. if a then returnA [task]
         else bindA (prepare_calls env ctx msg cfg cs) (\<lambda>tasks. returnA (task # tasks))))"
    if "task_ok pot task" for task
    using that by (intro steadies bounded_return bounded_bind_fact [OF Cons.IH]) simp_all
  show ?case
    unfolding prepare_calls.simps
  proof (rule steady_bind [OF steady_emits(1) [OF assms(1)]], rule bounded_bind_fact [OF prepareToolCall_ends [OF assms(2,3)]],
      rule bounded_bind_fact [OF _ rest])
    fix r
    assume "prepared_for env ctx c r"
    then show "bounded pot F (task_ok pot) (\<lambda>_. 0)
        (case r of Immediate r e \<Rightarrow> let f = \<lparr>fin_toolCall = c, fin_result = r, fin_isError = e\<rparr>
                                in thenA (emitToolExecutionEnd env f) (returnA (Settled f))
            | Prepared t p \<Rightarrow> returnA (Queued t p))"
      using prepared_tool_ok [OF assms(2)]
      by (auto simp: Let_def intro!: steadies steady_emits [OF assms(1)] bounded_return)
  qed
qed

text \<open>A step keeps a task well-behaved, starts it if it was queued, and brings it nearer to its end.\<close>

definition stepped :: "('w \<Rightarrow> nat) \<Rightarrow> 'w tool_task \<Rightarrow> 'w tool_task \<Rightarrow> bool" where
  "stepped pot task task' \<longleftrightarrow> task_ok pot task' \<and> \<not> is_queued task' \<and>
     (\<not> is_queued task \<longrightarrow> steps_left task' \<le> steps_left task - 1)"

lemma step_task_ends:
  assumes "environment_ok pot env" "config_ok pot cfg" "task_ok pot task"
  shows "bounded pot F (stepped pot task) (\<lambda>_. 0) (step_task env ctx msg cfg task)"
proof (cases task)
  case (Queued t p)
  then show ?thesis
    using assms(3) unfolding Queued step_task.simps Let_def
    by (intro steadies steady_emits [OF assms(1)] bounded_return bounded_bind_fact [OF startTool_ends])
       (simp_all add: stepped_def)
next
  case (Executing p sigs)
  then show ?thesis
    using assms(3)
    by (cases sigs; cases "hd sigs")
       (auto simp: stepped_def intro!: steadies bounded_return steady_emitUpdate [OF assms(1)])
next
  case (Executed p x)
  then show ?thesis
    by (auto simp: stepped_def intro!: steadies bounded_return finalize_ends [OF assms(2)])
next
  case (Finalized f)
  then show ?thesis
    by (auto simp: stepped_def intro!: steadies bounded_return steady_emits [OF assms(1)])
qed (simp add: stepped_def bounded_return)

lemma advance_all_ends:
  assumes "environment_ok pot env" "config_ok pot cfg" "list_all (task_ok pot) tasks"
  shows "bounded pot F (list_all (task_ok pot)) (\<lambda>_. 0) (advance_all env ctx msg cfg is tasks)"
  using assms(3)
proof (induction "is" arbitrary: tasks)
  case Nil
  then show ?case by (simp add: bounded_return)
next
  case (Cons i "is")
  have "bounded pot F (list_all (task_ok pot)) (\<lambda>_. 0) (advance env ctx msg cfg tasks i)"
    unfolding advance_def
  proof (rule bounded_if)
    assume "i < length tasks \<and> \<not> (is_queued (tasks ! i) \<and> list_ex is_queued (take i tasks))"
    then have "task_ok pot (tasks ! i)" using Cons.prems by (simp add: list_all_length)
    then show "bounded pot F (list_all (task_ok pot)) (\<lambda>_. 0)
        (bindA (step_task env ctx msg cfg (tasks ! i)) (\<lambda>task. returnA (tasks[i := task])))"
      by (rule bounded_bind_fact [OF step_task_ends [OF assms(1,2)]])
         (use Cons.prems in \<open>auto simp: stepped_def intro!: bounded_return list_all_update\<close>)
  qed (use Cons.prems in \<open>simp add: bounded_return\<close>)
  from bounded_bind_fact [OF this Cons.IH] show ?case by simp
qed

lemma repeat_step_ends:
  assumes "environment_ok pot env" "config_ok pot cfg" "task_ok pot task" "\<not> is_queued task"
  shows "bounded pot F (\<lambda>task'. task_ok pot task' \<and> \<not> is_queued task' \<and> steps_left task' \<le> steps_left task - n)
    (\<lambda>_. 0) (repeat_step env ctx msg cfg n task)"
  using assms(3,4)
proof (induction n arbitrary: task)
  case 0
  then show ?case by (simp add: bounded_return)
next
  case (Suc n)
  show ?case
    unfolding repeat_step.simps
  proof (rule bounded_bind_fact [OF step_task_ends [OF assms(1,2) Suc.prems(1)]])
    fix task'
    assume t: "stepped pot task task'"
    then have "bounded pot F (\<lambda>u. task_ok pot u \<and> \<not> is_queued u \<and> steps_left u \<le> steps_left task' - n)
        (\<lambda>_. 0) (repeat_step env ctx msg cfg n task')"
      by (intro Suc.IH) (simp_all add: stepped_def)
    then show "bounded pot F (\<lambda>u. task_ok pot u \<and> \<not> is_queued u \<and> steps_left u \<le> steps_left task - Suc n)
        (\<lambda>_. 0) (repeat_step env ctx msg cfg n task')"
      by (rule bounded_weaken) (use t Suc.prems(2) in \<open>auto simp: stepped_def\<close>)
  qed
qed

lemma no_steps_left:
  assumes "task_ok pot task" "\<not> is_queued task" "steps_left task = 0"
  shows "\<exists>f. task = Settled f"
  using assms by (cases task) simp_all

lemma finish_task_ends:
  assumes "environment_ok pot env" "config_ok pot cfg" "task_ok pot task"
  shows "steady pot F (finish_task env ctx msg cfg task)"
  unfolding finish_task_def
proof (rule bounded_bind_fact [OF step_task_ends [OF assms]])
  fix task'
  assume "stepped pot task task'"
  then have t: "task_ok pot task'" "\<not> is_queued task'" by (simp_all add: stepped_def)
  show "steady pot F (bindA (repeat_step env ctx msg cfg (steps_left task') task')
      (\<lambda>task''. case task'' of Settled f \<Rightarrow> returnA f | _ \<Rightarrow> failA Unsettled))"
  proof (rule bounded_bind_fact [OF repeat_step_ends [OF assms(1,2) t]])
    fix task''
    assume "task_ok pot task'' \<and> \<not> is_queued task'' \<and> steps_left task'' \<le> steps_left task' - steps_left task'"
    then obtain f where "task'' = Settled f" using no_steps_left [of pot task''] by auto
    then show "steady pot F (case task'' of Settled f \<Rightarrow> returnA f | _ \<Rightarrow> failA Unsettled)" by (simp add: steadies)
  qed
qed

lemma finish_tasks_ends:
  assumes "environment_ok pot env" "config_ok pot cfg" "list_all (task_ok pot) tasks"
  shows "steady pot F (finish_tasks env ctx msg cfg tasks)"
  using assms(3) by (induction tasks) (auto intro!: steadies finish_task_ends [OF assms(1,2)])

lemma publish_all_ends:
  assumes "environment_ok pot env"
  shows "steady pot F (publish_all env fs)"
  by (induction fs) (auto intro!: steadies steady_emits [OF assms])

lemma run_tools_ends:
  assumes env: "environment_ok pot env" and "context_ok pot (currentContext v)" "config_ok pot (loopConfig v)"
  shows "bounded pot F (\<lambda>b. tool_calls (am_content msg) = [] \<longrightarrow> batch_terminate b) (\<lambda>_. 0) (run_tools env v msg)"
proof -
  note ok = assms(2,3)
  have par: "steady pot F (executeToolCallsParallel env (currentContext v) msg cs (loopConfig v))" for cs
    unfolding executeToolCallsParallel_def
    by (rule bounded_bind_fact [OF prepare_calls_ends [OF env ok]], rule steady_bind, rule steadies,
        rule bounded_bind_fact [OF advance_all_ends [OF env ok(2)]], assumption,
        intro steadies finish_tasks_ends [OF env ok(2)] publish_all_ends [OF env])
  have seq: "steady pot F (executeToolCallsSequential env (currentContext v) msg cs (loopConfig v))" for cs
    unfolding executeToolCallsSequential_def by (intro steadies sequential_calls_ends [OF env ok])
  have "steady pot F (run_tools env v msg)"
    unfolding run_tools_def executeToolCalls_def failToolCallsFromTruncatedMessage_def Let_def
    by (intro steadies par seq fail_calls_ends [OF env])
  moreover have "returns (run_tools env v msg) (\<lambda>b. tool_calls (am_content msg) = [] \<longrightarrow> batch_terminate b)"
    by (cases "tool_calls (am_content msg) = []") (simp_all add: run_tools_def returns_def run_simps)
  ultimately show ?thesis by (rule steady_returns)
qed

subsection \<open>The loop ends\<close>

definition vars_ok :: "('w \<Rightarrow> nat) \<Rightarrow> 'w loop_vars \<Rightarrow> bool" where
  "vars_ok pot v \<longleftrightarrow> context_ok pot (currentContext v) \<and> config_ok pot (loopConfig v)"

definition continues :: "'w loop_vars \<Rightarrow> bool" where
  "continues v \<longleftrightarrow> hasMoreToolCalls v \<or> pendingMessages v \<noteq> []"

definition exit_ok :: "('w \<Rightarrow> nat) \<Rightarrow> 'w turn_exit \<Rightarrow> bool" where
  "exit_ok pot ex = (case ex of RunOver ms \<Rightarrow> True | TurnOver v \<Rightarrow> vars_ok pot v)"

text \<open>What a turn owes: one unit of the potential if the loop goes on by itself.\<close>

definition exit_cost :: "'w turn_exit \<Rightarrow> nat" where
  "exit_cost ex = (case ex of RunOver ms \<Rightarrow> 0 | TurnOver v \<Rightarrow> if continues v then 1 else 0)"

lemma vars_ok_update:
  "vars_ok pot v \<Longrightarrow> pred_option (context_ok pot) (tu_context u) \<Longrightarrow> vars_ok pot (apply_turn_update u v)"
  by (auto simp: vars_ok_def apply_turn_update_def split: option.split)

lemma prepare_turn_ends:
  assumes env: "environment_ok pot env" and v: "vars_ok pot v"
  shows "bounded pot F (vars_ok pot) (\<lambda>_. 0) (prepare_turn env v)"
proof -
  have rest: "bounded pot F (vars_ok pot) (\<lambda>_. 0)
      (bindA (if pendingMessages v1 = [] then pollA (getSteeringMessages (loopConfig v1)) else returnA (pendingMessages v1))
        (\<lambda>pending. thenA (emit env TurnStart) (returnA (v1\<lparr>pendingMessages := pending\<rparr>))))"
    if "vars_ok pot v1" for v1
  proof (rule steady_bind)
    have "queue_ok pot (getSteeringMessages (loopConfig v1))" using that by (simp add: vars_ok_def hook_okI(7))
    from bounded_poll [OF this] show "steady pot F
        (if pendingMessages v1 = [] then pollA (getSteeringMessages (loopConfig v1)) else returnA (pendingMessages v1))"
      by (intro steadies) (auto intro: bounded_weaken)
    show "bounded pot F (vars_ok pot) (\<lambda>_. 0) (thenA (emit env TurnStart) (returnA (v1\<lparr>pendingMessages := pending\<rparr>)))"
      for pending
      using that by (intro steadies steady_emit [OF env] bounded_return) (simp_all add: vars_ok_def)
  qed
  have hook: "bounded pot F (pred_option (\<lambda>u. pred_option (context_ok pot) (tu_context u))) (\<lambda>_. 0)
      (case prepareNextTurn (loopConfig v) of None \<Rightarrow> returnA None | Some h \<Rightarrow> awaitA (h t))" for t
    using v by (intro steadies bounded_return bounded_await prepare_hook_ok) (simp_all add: vars_ok_def)
  show ?thesis
    unfolding prepare_turn_def Let_def
    by (intro steady_option bounded_return bounded_bind_fact [OF hook] rest)
       (use v vars_ok_update [OF v] in \<open>auto split: option.split\<close>)
qed

lemma inject_messages_ends: "environment_ok pot env \<Longrightarrow> steady pot F (inject_messages env ms)"
  by (induction ms) (auto intro!: steadies steady_emit)

lemma inject_pending_ends:
  assumes "environment_ok pot env" "vars_ok pot v"
  shows "bounded pot F (vars_ok pot) (\<lambda>_. 0) (inject_pending env v)"
  unfolding inject_pending_def
  using assms(2) by (intro steadies inject_messages_ends [OF assms(1)] bounded_return) (simp_all add: vars_ok_def)

lemma finish_run_ends:
  assumes "environment_ok pot env"
  shows "bounded pot F (exit_ok pot) exit_cost (finish_run env ms)"
  unfolding finish_run_def
  by (intro steadies steady_emit [OF assms] bounded_return) (simp_all add: exit_ok_def exit_cost_def)

text \<open>Unless the message asked for tools, only a non-empty poll makes the loop go on.\<close>

lemma complete_turn_ends:
  assumes env: "environment_ok pot env" and v: "vars_ok pot v"
  shows "bounded pot F (exit_ok pot) (\<lambda>ex. if tool_calls (am_content msg) = [] then exit_cost ex else 0)
    (complete_turn env v msg)"
proof -
  have ok: "context_ok pot (currentContext v)" "config_ok pot (loopConfig v)" using v by (simp_all add: vars_ok_def)
  have poll: "bounded pot F (exit_ok pot) (\<lambda>ex. if tool_calls (am_content msg) = [] then exit_cost ex else 0)
      (bindA (pollA (getSteeringMessages (loopConfig v)))
        (\<lambda>pending. returnA (TurnOver (v\<lparr>currentContext := ctx, newMessages := new,
           lastCompletedTurn := Some turn, pendingMessages := pending, hasMoreToolCalls := more\<rparr>))))"
    if "tool_calls (am_content msg) = [] \<longrightarrow> \<not> more" "context_ok pot ctx" for ctx new turn more
  proof (rule bounded_bind [OF bounded_poll [OF hook_okI(7) [OF ok(2)]]])
    fix pending
    let ?v = "v\<lparr>currentContext := ctx, newMessages := new, lastCompletedTurn := Some turn,
        pendingMessages := pending, hasMoreToolCalls := more\<rparr>"
    show "bounded pot F (exit_ok pot) (\<lambda>ex. if ex = TurnOver ?v then 0 else 2) (returnA (TurnOver ?v))"
      using that ok by (intro bounded_return) (simp_all add: exit_ok_def vars_ok_def)
    show "(if tool_calls (am_content msg) = [] then exit_cost ex else 0)
        \<le> (if pending = [] then 0 else 1) + (if ex = TurnOver ?v then 0 else 2)" for ex
      using that(1) by (cases ex) (auto simp: exit_cost_def continues_def)
  qed
  have stop: "bounded pot F (exit_ok pot) (\<lambda>ex. if tool_calls (am_content msg) = [] then exit_cost ex else 0)
      (finish_run env ms)" for ms
    by (rule bounded_weaken [OF finish_run_ends [OF env]]) simp
  show ?thesis
    unfolding complete_turn_def Let_def
    by (rule bounded_bind_fact [OF run_tools_ends [OF env ok]],
        intro steadies steady_emit [OF env] bounded_await hook_okI(4) [OF ok(2)] stop poll)
       (simp_all add: ok)
qed

lemma respond_ends:
  assumes env: "environment_ok pot env" and v: "vars_ok pot v"
  shows "bounded pot F (exit_ok pot) exit_cost (respond env v)"
proof -
  have ok: "context_ok pot (currentContext v)" "config_ok pot (loopConfig v)" using v by (simp_all add: vars_ok_def)
  show ?thesis
    unfolding respond_def
  proof (rule bounded_bind [OF streamAssistantResponse_ends [OF env ok(2,1)]])
    fix r :: "assistant_message \<times> 'a agent_context"
    obtain msg ctx where r: "r = (msg, ctx)" by (cases r)
    let ?v = "v\<lparr>currentContext := ctx, newMessages := newMessages v @ [AssistantMessage msg]\<rparr>"
    assume "context_ok pot (snd r)"
    then have v': "vars_ok pot ?v" using ok by (simp add: vars_ok_def r)
    let ?c = "\<lambda>ex. if asks_for_tools (fst r) then 0 else exit_cost ex"
    have fin: "bounded pot F (exit_ok pot) ?c (thenA (emit env (TurnEnd msg [])) (finish_run env ms))" for ms
      by (intro steadies steady_emit [OF env] bounded_weaken [OF finish_run_ends [OF env]]) simp
    have "bounded pot F (exit_ok pot) ?c (complete_turn env ?v msg)" if "\<not> failed_stop msg"
      by (rule bounded_weaken [OF complete_turn_ends [OF env v']]) (simp add: r asks_for_tools_def that)
    then show "bounded pot F (exit_ok pot) ?c
        (case r of (msg, ctx) \<Rightarrow>
          let v' = v\<lparr>currentContext := ctx, newMessages := newMessages v @ [AssistantMessage msg]\<rparr>
          in if am_stopReason msg = ErrorStop \<or> am_stopReason msg = Aborted
             then thenA (emit env (TurnEnd msg [])) (finish_run env (newMessages v'))
             else complete_turn env v' msg)"
      using fin by (simp add: r Let_def failed_stop_def)
    show "exit_cost ex \<le> (if asks_for_tools (fst r) then 1 else 0) + (if asks_for_tools (fst r) then 0 else exit_cost ex)"
      for ex :: "'a turn_exit"
      by (simp add: exit_cost_def split: turn_exit.split)
  qed
qed

lemma run_turn_ends:
  assumes "environment_ok pot env" "vars_ok pot v"
  shows "bounded pot F (exit_ok pot) exit_cost (run_turn env v)"
  unfolding run_turn_def
  by (rule bounded_bind_fact [OF prepare_turn_ends [OF assms]],
      rule bounded_bind_fact [OF inject_pending_ends [OF assms(1)]], assumption, rule respond_ends [OF assms(1)])

lemma turns_end:
  assumes env: "environment_ok pot env" and "vars_ok pot v" "pot (world s) < fuel"
  shows "\<exists>ms t. turns fuel env v s = (Inr ms, t)"
  using assms(2,3)
proof (induction fuel arbitrary: v s)
  case (Suc fuel)
  obtain r t where run: "run_turn env v s = (r, t)" by (cases "run_turn env v s")
  note turn = boundedD [OF run_turn_ends [OF env Suc.prems(1), of "\<lambda>_. False"], of s]
  then obtain ex where r: "r = Inr ex" "exit_ok pot ex" "pot (world t) + exit_cost ex \<le> pot (world s)"
    using run by (cases r) blast+
  show ?case
  proof (cases ex)
    case (RunOver ms)
    then show ?thesis using run r(1) by (simp add: run_simps)
  next
    case (TurnOver v')
    have v': "vars_ok pot v'" using r(2) TurnOver by (simp add: exit_ok_def)
    show ?thesis
    proof (cases "continues v'")
      case True
      then have "pot (world t) < fuel" using r(3) TurnOver Suc.prems(2) by (simp add: exit_cost_def)
      with Suc.IH [OF v' this] show ?thesis
        using run r(1) TurnOver True by (simp add: continues_def)
    next
      case False
      have "queue_ok pot (getFollowUpMessages (loopConfig v'))" using v' by (simp add: vars_ok_def hook_okI(8))
      from boundedD [OF bounded_poll [OF this, of "\<lambda>_. False"], of t]
      obtain ms u where poll: "pollA (getFollowUpMessages (loopConfig v')) t = (Inr ms, u)"
        "pot (world u) + (if ms = [] then 0 else 1) \<le> pot (world t)"
        by (cases "pollA (getFollowUpMessages (loopConfig v')) t"; cases "fst (pollA (getFollowUpMessages (loopConfig v')) t)") auto
      let ?v = "v'\<lparr>pendingMessages := ms, hasMoreToolCalls := True\<rparr>"
      have "vars_ok pot ?v" using v' by (simp add: vars_ok_def)
      moreover have "ms \<noteq> [] \<Longrightarrow> pot (world u) < fuel" using poll(2) r(3) Suc.prems(2) by simp
      ultimately have "ms \<noteq> [] \<Longrightarrow> \<exists>ms t. turns fuel env ?v u = (Inr ms, t)" by (rule Suc.IH)
      then show ?thesis
        using run r(1) TurnOver False poll(1) by (auto simp: continues_def emit_def bindA_def run_simps)
    qed
  qed
qed simp

subsection \<open>Properties\<close>

text \<open>
  C10. The loop ends. If no hook throws, every tool call settles and a potential on the world is used up by
  every reply that asks for tools and by every non-empty poll of the steering and follow-up queues, then a
  run returns, and one more turn than the potential at its start is enough fuel.
\<close>

theorem run_terminates:
  assumes "environment_ok pot env" "config_ok pot cfg" "context_ok pot ctx" "pot w < fuel"
  shows "\<exists>ms t. runAgentLoop fuel env prompts ctx cfg (fresh_run w) = (Inr ms, t)"
proof -
  let ?m = "thenA (emit env AgentStart) (thenA (emit env TurnStart) (thenA (inject_messages env prompts)
      (pollA (getSteeringMessages cfg))))"
  have q: "queue_ok pot (getSteeringMessages cfg)" using assms(2) by (rule hook_okI(7))
  have "steady pot (\<lambda>_. False) ?m"
    by (intro steadies steady_emit [OF assms(1)] inject_messages_ends [OF assms(1)] bounded_weaken [OF bounded_poll [OF q]]) simp
  from boundedD [OF this, of "fresh_run w"]
  obtain pending u where m: "?m (fresh_run w) = (Inr pending, u)" "pot (world u) \<le> pot w"
    by (cases "?m (fresh_run w)"; cases "fst (?m (fresh_run w))") auto
  let ?v = "\<lparr>currentContext = push_context prompts ctx, loopConfig = cfg, lastCompletedTurn = None,
      pendingMessages = pending, hasMoreToolCalls = True, newMessages = prompts\<rparr>"
  have "runAgentLoop fuel env prompts ctx cfg (fresh_run w) = turns fuel env ?v u"
    using m(1) unfolding runAgentLoop_def runLoop_def bindA_assoc [symmetric] by simp
  moreover have "vars_ok pot ?v" using assms(2,3) by (simp add: vars_ok_def)
  ultimately show ?thesis using turns_end [OF assms(1)] m(2) assms(4) by simp
qed

lemma demo_ok:
  "environment_ok id demo_env" "config_ok id demo_config" "context_ok id demo_context"
  by (simp_all add: environment_ok_def demo_env_def hook_ok_def demo_reply_def asks_for_tools_def demo_message_def
      demo_config_def config_ok_def queue_ok_def demo_context_def context_ok_def tool_ok_def demo_tool_def)

lemma run_terminates_witness:
  "\<exists>ms t. runAgentLoop 4 demo_env [UserMessage (PlainContent ''hi'') 0] demo_context demo_config (fresh_run 3) = (Inr ms, t)"
  by (rule run_terminates [OF demo_ok]) simp

lemma attempt_eq_Inr: "attempt m s = (Inr (Inr a), t) \<longleftrightarrow> m s = (Inr a, t)"
  by (auto simp: attempt_def split: prod.splits sum.splits failure.splits)

lemma awaitA_eq_Inr: "awaitA f s = (Inr a, t) \<longleftrightarrow> (\<exists>w. f (world s) = (Inr a, w) \<and> t = s\<lparr>world := w\<rparr>)"
  by (auto simp: awaitA_def split: prod.splits sum.splits)

lemma check_abort_Prepared:
  "check_abort env t p s = (Inr (Prepared t' p'), u) \<longleftrightarrow> t' = t \<and> p' = p \<and> u = s \<and> \<not> signal_aborted env (world s)"
  by (auto simp: check_abort_def abortedA_def bindA_cases run_simps split: if_splits)

text \<open>
  C11. A tool is executed only if it is allowed to: the context has a tool of that name, its schema accepts
  the (possibly prepared) arguments and it runs with what the schema returned, \<^verbatim>\<open>beforeToolCall\<close>, if there is
  one, was asked about exactly this call and did not block it, and the run was not aborted at that point.
\<close>

theorem tool_runs_only_if_allowed:
  assumes "prepareToolCall env ctx msg c cfg s = (Inr (Prepared t p), s')"
  shows "find_tool ctx (call_name c) = Some t \<and> ptc_toolCall p = c \<and>
    (\<exists>raw. validateArguments env t (c\<lparr>call_arguments := raw\<rparr>) = Inr (ptc_args p)) \<and>
    \<not> signal_aborted env (world s') \<and>
    (\<forall>h. beforeToolCall cfg = Some h \<longrightarrow> (\<exists>w b.
       h \<lparr>btc_assistantMessage = msg, btc_toolCall = c, btc_args = ptc_args p, btc_context = ctx\<rparr> w = (Inr b, world s') \<and>
       (case b of None \<Rightarrow> True | Some r \<Rightarrow> btr_block r \<noteq> Some True)))"
proof -
  have p: "prepared_for env ctx c (Prepared t p)" using returnsD [OF returns_prepareToolCall assms] .
  then have t: "find_tool ctx (call_name c) = Some t" by (simp add: prepared_for_def)
  then obtain r where r: "attempt (prepare_body env ctx msg c cfg t) s = (Inr r, s')"
    "(case r of Inl e \<Rightarrow> Immediate (createErrorToolResult e) True | Inr q \<Rightarrow> q) = Prepared t p"
    using assms unfolding prepareToolCall_def by (auto simp: bindA_eq_Inr run_simps)
  then have body: "prepare_body env ctx msg c cfg t s = (Inr (Prepared t p), s')"
    by (cases r) (simp_all add: attempt_eq_Inr)
  have "\<not> signal_aborted env (world s') \<and> (\<forall>h. beforeToolCall cfg = Some h \<longrightarrow> (\<exists>w b.
       h \<lparr>btc_assistantMessage = msg, btc_toolCall = c, btc_args = ptc_args p, btc_context = ctx\<rparr> w = (Inr b, world s') \<and>
       (case b of None \<Rightarrow> True | Some r \<Rightarrow> btr_block r \<noteq> Some True)))"
  proof (cases "beforeToolCall cfg")
    case None
    then show ?thesis
      using body unfolding prepare_body_def Let_def
      by (auto simp: bindA_eq_Inr check_abort_Prepared)
  next
    case (Some h)
    then show ?thesis
      using body unfolding prepare_body_def Let_def
      by (fastforce simp: bindA_eq_Inr check_abort_Prepared awaitA_eq_Inr abortedA_def run_simps
          split: if_splits option.splits)
  qed
  with p show ?thesis by (auto simp: prepared_for_def)
qed

lemma tool_runs_only_if_allowed_witness:
  "find_tool demo_context (call_name demo_call) = Some demo_tool"
  using tool_runs_only_if_allowed [of demo_env demo_context "demo_reply 1" demo_call demo_config "fresh_run 1" demo_tool
      "\<lparr>ptc_toolCall = demo_call, ptc_args = JNull\<rparr>" "fresh_run 1"]
  by (simp add: prepareToolCall_def find_tool_def demo_context_def demo_tool_def demo_call_def prepare_body_def
      prepareToolCallArguments_def liftE_def demo_env_def demo_config_def check_abort_def abortedA_def attempt_def
      bindA_def run_simps)

end
