(* ===== verification/AgentFrame.thy ===== *)
theory AgentFrame
  imports AgentProtocol
begin

text \<open>
  What every run of the loop preserves. A relation between the state before and after that is reflexive and
  transitive (\<open>run_preorder\<close>) holds between the ends of a run as soon as it holds across every event sent to
  the sink and every call of a hook, tool or provider: the loop does nothing else. The locale carries the
  argument through all functions of the loop once; it is interpreted for the growth of the trace here and
  for the state of the \<^verbatim>\<open>Agent\<close> in the theory of the agent.
\<close>

type_synonym 'w run_relation = "'w run_state \<Rightarrow> 'w run_state \<Rightarrow> bool"

text \<open>A program stays within \<open>R\<close> and returns only values in \<open>G\<close>.\<close>

definition keeps :: "'w run_relation \<Rightarrow> ('a \<Rightarrow> bool) \<Rightarrow> ('w, 'a) run \<Rightarrow> bool" where
  "keeps R G m \<longleftrightarrow> (\<forall>s. R s (snd (m s)) \<and> (\<forall>a t. m s = (Inr a, t) \<longrightarrow> G a))"

definition stays :: "'w run_relation \<Rightarrow> ('w \<Rightarrow> 'r \<times> 'w) \<Rightarrow> bool" where
  "stays R f \<longleftrightarrow> (\<forall>s. R s (s\<lparr>world := snd (f (world s))\<rparr>))"

definition tool_respects :: "'w run_relation \<Rightarrow> 'w agent_tool \<Rightarrow> bool" where
  "tool_respects R t \<longleftrightarrow> (\<forall>i args. stays R (tool_execute t i args)) \<and>
     pred_option (\<lambda>f. \<forall>args. stays R (f args)) (tool_prepareArguments t)"

definition context_respects :: "'w run_relation \<Rightarrow> 'w agent_context \<Rightarrow> bool" where
  "context_respects R ctx = pred_option (list_all (tool_respects R)) (ctx_tools ctx)"

definition update_respects :: "'w run_relation \<Rightarrow> 'w turn_update option \<Rightarrow> bool" where
  "update_respects R u = pred_option (\<lambda>u. pred_option (context_respects R) (tu_context u)) u"

definition env_respects :: "'w run_relation \<Rightarrow> 'w loop_env \<Rightarrow> bool" where
  "env_respects R env \<longleftrightarrow> (\<forall>ev s. R s (snd (emit env ev s))) \<and>
     (\<forall>m ctx cfg. stays R (streamFunction env m ctx cfg))"

definition config_respects :: "'w run_relation \<Rightarrow> 'w loop_config \<Rightarrow> bool" where
  "config_respects R cfg \<longleftrightarrow>
     (\<forall>ms. stays R (convertToLlm_hook cfg ms)) \<and>
     pred_option (\<lambda>f. \<forall>ms. stays R (f ms)) (transformContext cfg) \<and>
     pred_option (\<lambda>f. \<forall>p. stays R (f p)) (getApiKey cfg) \<and>
     pred_option (\<lambda>f. \<forall>t. stays R (f t)) (shouldStopAfterTurn cfg) \<and>
     pred_option (\<lambda>f. \<forall>t. stays R (f t) \<and> (\<forall>w u w'. f t w = (Inr u, w') \<longrightarrow> update_respects R u))
       (prepareNextTurn cfg) \<and>
     pred_option (stays R) (getSteeringMessages cfg) \<and>
     pred_option (stays R) (getFollowUpMessages cfg) \<and>
     pred_option (\<lambda>f. \<forall>x. stays R (f x)) (beforeToolCall cfg) \<and>
     pred_option (\<lambda>f. \<forall>x. stays R (f x)) (afterToolCall cfg)"

definition vars_respect :: "'w run_relation \<Rightarrow> 'w loop_vars \<Rightarrow> bool" where
  "vars_respect R v \<longleftrightarrow> context_respects R (currentContext v) \<and> config_respects R (loopConfig v)"

definition exit_respects :: "'w run_relation \<Rightarrow> 'w turn_exit \<Rightarrow> bool" where
  "exit_respects R ex = (case ex of RunOver ms \<Rightarrow> True | TurnOver v \<Rightarrow> vars_respect R v)"

fun task_respects :: "'w run_relation \<Rightarrow> 'w tool_task \<Rightarrow> bool" where
  "task_respects R (Queued t p) = tool_respects R t"
| "task_respects R _ = True"

abbreviation keeps_any :: "'w run_relation \<Rightarrow> ('w, 'a) run \<Rightarrow> bool" where
  "keeps_any R \<equiv> keeps R (\<lambda>_. True)"

lemma config_respects_update [simp]:
  "config_respects R (cfg\<lparr>cfg_model := m, cfg_reasoning := r\<rparr>) = config_respects R cfg"
  by (simp add: config_respects_def)

lemma context_respects_update [simp]:
  "context_respects R (ctx\<lparr>ctx_messages := ms\<rparr>) = context_respects R ctx"
  "context_respects R (push_context ms ctx) = context_respects R ctx"
  by (simp_all add: context_respects_def push_context_def)

lemma config_respectsD:
  assumes "config_respects R cfg"
  shows "stays R (convertToLlm_hook cfg ms)"
    "transformContext cfg = Some f1 \<Longrightarrow> stays R (f1 ms)"
    "getApiKey cfg = Some f2 \<Longrightarrow> stays R (f2 p)"
    "shouldStopAfterTurn cfg = Some f3 \<Longrightarrow> stays R (f3 t)"
    "getSteeringMessages cfg = Some f4 \<Longrightarrow> stays R f4"
    "getFollowUpMessages cfg = Some f5 \<Longrightarrow> stays R f5"
    "beforeToolCall cfg = Some f6 \<Longrightarrow> stays R (f6 b)"
    "afterToolCall cfg = Some f7 \<Longrightarrow> stays R (f7 a)"
    "prepareNextTurn cfg = Some f8 \<Longrightarrow> stays R (f8 t)"
  using assms by (auto simp: config_respects_def)

lemma update_respectsD:
  "config_respects R cfg \<Longrightarrow> prepareNextTurn cfg = Some f \<Longrightarrow> f t w = (Inr u, w') \<Longrightarrow> update_respects R u"
  unfolding config_respects_def by fastforce

lemma find_tool_respects:
  "context_respects R ctx \<Longrightarrow> find_tool ctx n = Some t \<Longrightarrow> tool_respects R t"
  by (auto simp: context_respects_def find_tool_def list_all_iff find_Some_iff split: option.splits)

lemma keepsD: "keeps R G m \<Longrightarrow> R s (snd (m s))" "keeps R G m \<Longrightarrow> m s = (Inr a, t) \<Longrightarrow> G a"
  by (auto simp: keeps_def)

lemma keeps_returns: "keeps_any R m \<Longrightarrow> returns m G \<Longrightarrow> keeps R G m"
  by (simp add: keeps_def returns_def)

lemma keeps_weaken: "keeps R G' m \<Longrightarrow> (\<And>a. G' a \<Longrightarrow> G a) \<Longrightarrow> keeps R G m"
  by (auto simp: keeps_def)

lemma keeps_await: "stays R f \<Longrightarrow> keeps_any R (awaitA f)"
  unfolding keeps_def
proof (intro allI conjI impI)
  fix s :: "'a run_state"
  assume "stays R f"
  then show "R s (snd (awaitA f s))"
    using stays_def [of R f] by (cases "f (world s)") (auto simp: awaitA_def split: sum.split dest: spec [of _ s])
qed simp

locale run_preorder =
  fixes R :: "'w run_state \<Rightarrow> 'w run_state \<Rightarrow> bool"
  assumes refl: "R s s" and trans: "R s t \<Longrightarrow> R t u \<Longrightarrow> R s u"
begin

named_theorems keeping \<open>programs that stay within the relation\<close>

lemma keeps_bind_fact:
  assumes "keeps R G1 m" "\<And>a. G1 a \<Longrightarrow> keeps R G (k a)"
  shows "keeps R G (bindA m k)"
  unfolding keeps_def
proof (intro allI conjI impI)
  fix s
  obtain r t where r: "m s = (r, t)" by (cases "m s")
  then have st: "R s t" using keepsD(1) [OF assms(1), of s] by simp
  show "R s (snd (bindA m k s))"
  proof (cases r)
    case (Inr a)
    then have "R t (snd (k a t))" using r keepsD(1) [OF assms(2) [OF keepsD(2) [OF assms(1)]]] by blast
    then show ?thesis using r Inr trans [OF st] by (simp add: bindA_cases)
  qed (simp add: bindA_cases r st)
next
  fix s b u
  assume "bindA m k s = (Inr b, u)"
  then show "G b" using keepsD(2) assms unfolding bindA_eq_Inr by metis
qed

lemma keeps_bind [keeping]: "keeps_any R m \<Longrightarrow> (\<And>a. keeps R G (k a)) \<Longrightarrow> keeps R G (bindA m k)"
  by (rule keeps_bind_fact)

lemma keeps_return: "G a \<Longrightarrow> keeps R G (returnA a)"
  by (simp add: keeps_def run_simps refl)

lemma keeps_basic [keeping]:
  "keeps_any R (returnA a)" "keeps_any R (readA g)" "keeps R G (failA e)" "keeps_any R (abortedA env)"
  by (simp_all add: keeps_def run_simps refl abortedA_def)

lemma keeps_if [keeping]: "keeps R G m \<Longrightarrow> keeps R G n \<Longrightarrow> keeps R G (if b then m else n)"
  by simp

lemma keeps_option [keeping]:
  "(x = None \<Longrightarrow> keeps R G m) \<Longrightarrow> (\<And>f. x = Some f \<Longrightarrow> keeps R G (k f)) \<Longrightarrow>
     keeps R G (case x of None \<Rightarrow> m | Some f \<Rightarrow> k f)"
  by (simp split: option.split)

lemma keeps_attempt: "keeps_any R m \<Longrightarrow> keeps_any R (attempt m)"
  unfolding keeps_def attempt_def
  by (auto split: prod.split sum.split failure.split simp: prod.case_eq_if)

lemma keeps_poll: "pred_option (stays R) q \<Longrightarrow> keeps_any R (pollA q)"
  by (cases q) (auto simp: pollA_def intro: keeping keeps_await)

lemma keeps_emit: "env_respects R env \<Longrightarrow> keeps_any R (emit env ev)"
  by (auto simp: env_respects_def keeps_def)

lemma keeps_silent_unit: "keeps_any R (liftE r)" "keeps_any R (check_abort env t p)"
  unfolding liftE_def check_abort_def by (auto split: sum.split intro!: keeping)

lemma keeps_prepareToolCall:
  assumes "context_respects R ctx" "config_respects R cfg"
  shows "keeps R (prepared_for env ctx c) (prepareToolCall env ctx msg c cfg)"
proof (rule keeps_returns [OF _ returns_prepareToolCall])
  have arguments: "keeps_any R (prepareToolCallArguments t c)" if "tool_respects R t" for t
    using that unfolding prepareToolCallArguments_def tool_respects_def
    by (intro keeping keeps_await) simp_all
  have "keeps_any R (prepare_body env ctx msg c cfg t)" if "tool_respects R t" for t
    unfolding prepare_body_def Let_def
    by (intro keeping arguments that keeps_silent_unit keeps_await config_respectsD(7) [OF assms(2)])
  then show "keeps_any R (prepareToolCall env ctx msg c cfg)"
    unfolding prepareToolCall_def
    by (intro keeping keeps_attempt) (simp_all add: find_tool_respects [OF assms(1)])
qed

lemma keeps_startTool: "tool_respects R t \<Longrightarrow> keeps_any R (startTool t p)"
  unfolding startTool_def
proof (rule keeps_await)
  let ?f = "\<lambda>w. case tool_execute t (call_id (ptc_toolCall p)) (ptc_args p) w of (sigs, w') \<Rightarrow> (Inr sigs, w')"
  assume t: "tool_respects R t"
  show "stays R ?f"
    unfolding stays_def
  proof
    fix s
    show "R s (s\<lparr>world := snd (?f (world s))\<rparr>)"
      using t by (cases "tool_execute t (call_id (ptc_toolCall p)) (ptc_args p) (world s)")
        (auto simp: tool_respects_def stays_def dest!: spec [of _ s] spec [of _ "call_id (ptc_toolCall p)"] spec [of _ "ptc_args p"])
  qed
qed

lemma keeps_emits:
  assumes "env_respects R env"
  shows "keeps_any R (emitToolExecutionStart env c)" "keeps_any R (emitToolExecutionEnd env f)"
    "keeps_any R (emitUpdate env c r)" "keeps_any R (publish_result env f)"
  unfolding emitToolExecutionStart_def emitToolExecutionEnd_def emitUpdate_def publish_result_def
    emitToolResultMessage_def
  by (intro keeping keeps_emit [OF assms])+

lemma keeps_await_tool: "env_respects R env \<Longrightarrow> keeps_any R (await_tool env c sigs)"
  by (induction env c sigs rule: await_tool.induct) (auto intro!: keeping keeps_emits)

lemma keeps_finalize: "config_respects R cfg \<Longrightarrow> keeps_any R (finalizeExecutedToolCall ctx msg p x cfg)"
  unfolding finalizeExecutedToolCall_def
  by (cases x) (auto intro!: keeping keeps_attempt keeps_await config_respectsD(8))

lemma keeps_preparation:
  assumes "\<And>r e. x = Immediate r e \<Longrightarrow> keeps R G (k r e)" "\<And>t p. x = Prepared t p \<Longrightarrow> keeps R G (h t p)"
  shows "keeps R G (case x of Immediate r e \<Rightarrow> k r e | Prepared t p \<Rightarrow> h t p)"
  using assms by (simp split: preparation.split)

lemma prepared_tool_respects:
  "context_respects R ctx \<Longrightarrow> prepared_for env ctx c (Prepared t p) \<Longrightarrow> tool_respects R t"
  by (auto simp: prepared_for_def intro: find_tool_respects)

lemma keeps_run_call:
  assumes "env_respects R env" "context_respects R ctx" "config_respects R cfg"
  shows "keeps_any R (run_call env ctx msg cfg c)"
  unfolding run_call_def
  by (rule keeps_bind [OF keeps_emits(1) [OF assms(1)]], rule keeps_bind_fact [OF keeps_prepareToolCall [OF assms(2,3)]])
     (auto simp: executePreparedToolCall_def intro!: keeping keeps_preparation keeps_emits [OF assms(1)]
       keeps_startTool keeps_await_tool [OF assms(1)] keeps_finalize [OF assms(3)] dest: prepared_tool_respects [OF assms(2)])

lemma keeps_sequential:
  assumes "env_respects R env" "context_respects R ctx" "config_respects R cfg"
  shows "keeps_any R (sequential_calls env ctx msg cfg cs)"
  by (induction cs) (auto intro!: keeping keeps_run_call [OF assms] keeps_emits [OF assms(1)])

lemma keeps_fail_calls: "env_respects R env \<Longrightarrow> keeps_any R (fail_calls env cs)"
  by (induction cs) (auto simp: Let_def intro!: keeping keeps_emits)

lemma keeps_prepare_calls:
  assumes "env_respects R env" "context_respects R ctx" "config_respects R cfg"
  shows "keeps R (list_all (task_respects R)) (prepare_calls env ctx msg cfg cs)"
proof (induction cs)
  case (Cons c cs)
  have rest: "keeps R (list_all (task_respects R))
      (bindA (abortedA env) (\<lambda>a. if a then returnA [task]
         else bindA (prepare_calls env ctx msg cfg cs) (\<lambda>tasks. returnA (task # tasks))))"
    if "task_respects R task" for task
    using that by (intro keeps_bind keeps_if keeps_return keeps_bind_fact [OF Cons.IH] keeps_basic) simp_all
  show ?case
    unfolding prepare_calls.simps
  proof (rule keeps_bind [OF keeps_emits(1) [OF assms(1)]], rule keeps_bind_fact [OF keeps_prepareToolCall [OF assms(2,3)]],
      rule keeps_bind_fact [OF _ rest])
    fix r
    assume "prepared_for env ctx c r"
    then show "keeps R (task_respects R)
        (case r of Immediate r e \<Rightarrow> let f = \<lparr>fin_toolCall = c, fin_result = r, fin_isError = e\<rparr>
                                in thenA (emitToolExecutionEnd env f) (returnA (Settled f))
            | Prepared t p \<Rightarrow> returnA (Queued t p))"
      using prepared_tool_respects [OF assms(2)]
      by (auto simp: Let_def intro!: keeps_preparation keeps_bind keeps_emits [OF assms(1)] keeps_return)
  qed
qed (simp add: keeps_return)

lemma keeps_step_task:
  assumes "env_respects R env" "config_respects R cfg" "task_respects R task"
  shows "keeps R (task_respects R) (step_task env ctx msg cfg task)"
proof (cases task)
  case (Queued t p)
  then show ?thesis
    using assms(3) by (auto simp: Let_def intro!: keeps_bind keeps_if keeps_basic keeps_return keeps_emits [OF assms(1)]
        keeps_startTool)
next
  case (Executing p sigs)
  then show ?thesis
    by (cases sigs; cases "hd sigs") (auto intro!: keeps_bind keeps_return keeps_emits [OF assms(1)])
qed (auto intro!: keeps_bind keeps_return keeps_emits [OF assms(1)] keeps_finalize [OF assms(2)])

lemma keeps_advance_all:
  assumes "env_respects R env" "config_respects R cfg" "list_all (task_respects R) tasks"
  shows "keeps R (list_all (task_respects R)) (advance_all env ctx msg cfg is tasks)"
  using assms(3)
proof (induction "is" arbitrary: tasks)
  case (Cons i "is")
  have "keeps R (list_all (task_respects R)) (advance env ctx msg cfg tasks i)"
    unfolding advance_def
    using Cons.prems keeps_step_task [OF assms(1,2)]
    by (auto simp: list_all_length nth_list_update intro!: keeps_return
        keeps_bind_fact [where ?G1.0 = "task_respects R"])
  then show ?case using Cons.IH by (auto intro: keeps_bind_fact)
qed (simp add: keeps_return)

lemma keeps_repeat_step:
  assumes "env_respects R env" "config_respects R cfg" "task_respects R task"
  shows "keeps R (task_respects R) (repeat_step env ctx msg cfg n task)"
  using assms(3)
  by (induction n arbitrary: task)
     (auto intro!: keeps_return keeps_bind_fact [OF keeps_step_task [OF assms(1,2)]])

lemma keeps_finish_tasks:
  assumes "env_respects R env" "config_respects R cfg" "list_all (task_respects R) tasks"
  shows "keeps_any R (finish_tasks env ctx msg cfg tasks)"
  using assms(3)
proof (induction tasks)
  case (Cons task tasks)
  have "keeps_any R (finish_task env ctx msg cfg task)"
    unfolding finish_task_def
    using Cons.prems
    by (auto intro!: keeps_bind_fact [OF keeps_step_task [OF assms(1,2)]] keeps_bind_fact [OF keeps_repeat_step [OF assms(1,2)]]
        keeps_basic split: tool_task.split)
  then show ?case using Cons by (auto intro!: keeping)
qed (simp add: keeps_basic)

lemma keeps_publish_all: "env_respects R env \<Longrightarrow> keeps_any R (publish_all env fs)"
  by (induction fs) (auto intro!: keeping keeps_emits)

lemma keeps_run_tools:
  assumes "env_respects R env" "vars_respect R v"
  shows "keeps_any R (run_tools env v msg)"
proof -
  note ok = assms(2) [unfolded vars_respect_def, THEN conjunct1] assms(2) [unfolded vars_respect_def, THEN conjunct2]
  have par: "keeps_any R (executeToolCallsParallel env (currentContext v) msg cs (loopConfig v))" for cs
    unfolding executeToolCallsParallel_def
    by (rule keeps_bind_fact [OF keeps_prepare_calls [OF assms(1) ok]], rule keeps_bind, rule keeps_basic,
        rule keeps_bind_fact [OF keeps_advance_all [OF assms(1) ok(2)]], assumption,
        intro keeping keeps_finish_tasks [OF assms(1) ok(2)] keeps_publish_all [OF assms(1)])
  have seq: "keeps_any R (executeToolCallsSequential env (currentContext v) msg cs (loopConfig v))" for cs
    unfolding executeToolCallsSequential_def by (intro keeping keeps_sequential [OF assms(1) ok])
  show ?thesis
    unfolding run_tools_def executeToolCalls_def failToolCallsFromTruncatedMessage_def Let_def
    by (intro keeping par seq keeps_fail_calls [OF assms(1)])
qed

lemma keeps_consume_stream:
  assumes "env_respects R env"
  shows "keeps_any R (consume_stream env final evs partial added ms)"
proof (induction evs arbitrary: partial added ms)
  case Nil
  then show ?case by (auto simp: finish_response_def intro!: keeping keeps_emit [OF assms])
next
  case (Cons ev evs)
  then show ?case
    by (cases ev) (auto simp: finish_response_def intro!: keeping keeps_emit [OF assms] split: option.split)
qed

lemma keeps_stream:
  assumes "env_respects R env" "vars_respect R v"
  shows "keeps R (\<lambda>r. context_respects R (snd r)) (streamAssistantResponse env (currentContext v) (loopConfig v))"
proof -
  have cfg: "config_respects R (loopConfig v)" and ctx: "context_respects R (currentContext v)"
    using assms(2) by (simp_all add: vars_respect_def)
  have stream: "stays R (streamFunction env m c g)" for m c g using assms(1) by (simp add: env_respects_def)
  show ?thesis
    unfolding streamAssistantResponse_def
    by (intro keeps_bind keeps_option keeps_basic keeps_await config_respectsD [OF cfg] stream
        keeps_consume_stream [OF assms(1)]) (auto simp: ctx split: prod.split intro!: keeps_return)
qed

lemma keeps_prepare_turn:
  assumes "env_respects R env" "vars_respect R v"
  shows "keeps R (vars_respect R) (prepare_turn env v)"
proof -
  have cfg: "config_respects R (loopConfig v)" using assms(2) by (simp add: vars_respect_def)
  have snapshot: "keeps R (update_respects R)
      (case prepareNextTurn (loopConfig v) of None \<Rightarrow> returnA None | Some h \<Rightarrow> awaitA (h t))" for t
  proof (cases "prepareNextTurn (loopConfig v)")
    case None
    then show ?thesis by (simp add: keeps_return update_respects_def)
  next
    case (Some h)
    have "returns (awaitA (h t)) (update_respects R)"
      using update_respectsD [OF cfg Some] by (auto simp: returns_def awaitA_def split: prod.splits sum.splits)
    then show ?thesis using Some keeps_await [OF config_respectsD(9) [OF cfg Some]] by (simp add: keeps_returns)
  qed
  have upd: "vars_respect R (case u of None \<Rightarrow> v | Some u \<Rightarrow> apply_turn_update u v)" if "update_respects R u" for u
    using that assms(2)
    by (auto simp: vars_respect_def update_respects_def apply_turn_update_def split: option.split)
  have poll: "keeps_any R (pollA (getSteeringMessages (loopConfig w)))" if "vars_respect R w" for w
    using that by (intro keeps_poll) (simp add: vars_respect_def config_respects_def)
  show ?thesis
    unfolding prepare_turn_def Let_def
    by (intro keeps_option keeps_return keeps_bind_fact [OF snapshot] keeps_bind keeps_if poll keeps_basic keeps_emit [OF assms(1)])
       (use assms(2) upd in \<open>auto simp: vars_respect_def\<close>)
qed

lemma keeps_inject: "env_respects R env \<Longrightarrow> keeps_any R (inject_messages env ms)"
  by (induction ms) (auto intro!: keeping keeps_emit)

lemma keeps_finish_run: "env_respects R env \<Longrightarrow> keeps R (exit_respects R) (finish_run env ms)"
  unfolding finish_run_def by (intro keeps_bind keeps_emit keeps_return) (simp_all add: exit_respects_def)

lemma keeps_complete_turn:
  assumes "env_respects R env" "vars_respect R v"
  shows "keeps R (exit_respects R) (complete_turn env v msg)"
proof -
  have cfg: "config_respects R (loopConfig v)" using assms(2) by (simp add: vars_respect_def)
  show ?thesis
    unfolding complete_turn_def Let_def
    by (intro keeps_bind keeps_run_tools [OF assms] keeps_emit [OF assms(1)] keeps_option keeps_basic keeps_await
        config_respectsD(4) [OF cfg] keeps_if keeps_finish_run [OF assms(1)] keeps_poll keeps_return)
       (use assms(2) in \<open>simp_all add: exit_respects_def vars_respect_def config_respects_def\<close>)
qed

lemma keeps_run_turn:
  assumes "env_respects R env" "vars_respect R v"
  shows "keeps R (exit_respects R) (run_turn env v)"
proof -
  have inject: "keeps R (vars_respect R) (inject_pending env w)" if "vars_respect R w" for w
    using that unfolding inject_pending_def
    by (intro keeps_bind keeps_inject [OF assms(1)] keeps_return) (simp add: vars_respect_def)
  have respond: "keeps R (exit_respects R) (respond env w)" if w: "vars_respect R w" for w
    unfolding respond_def
  proof (rule keeps_bind_fact [OF keeps_stream [OF assms(1) w]])
    fix r :: "assistant_message \<times> 'w agent_context"
    obtain msg ctx where r: "r = (msg, ctx)" by (cases r)
    assume "context_respects R (snd r)"
    then have "vars_respect R (w\<lparr>currentContext := ctx, newMessages := new\<rparr>)" for new
      using w by (simp add: vars_respect_def r)
    then show "keeps R (exit_respects R) (case r of (msg, ctx) \<Rightarrow>
          let v' = w\<lparr>currentContext := ctx, newMessages := newMessages w @ [AssistantMessage msg]\<rparr>
          in if am_stopReason msg = ErrorStop \<or> am_stopReason msg = Aborted
             then thenA (emit env (TurnEnd msg [])) (finish_run env (newMessages v'))
             else complete_turn env v' msg)"
      by (auto simp: r Let_def intro!: keeps_bind keeps_emit [OF assms(1)] keeps_finish_run [OF assms(1)]
          keeps_complete_turn [OF assms(1)])
  qed
  show ?thesis
    unfolding run_turn_def
    by (rule keeps_bind_fact [OF keeps_prepare_turn [OF assms]], rule keeps_bind_fact [OF inject], assumption, rule respond)
qed

lemma keeps_turns:
  assumes "env_respects R env" "vars_respect R v"
  shows "keeps_any R (turns fuel env v)"
  using assms(2)
proof (induction fuel arbitrary: v)
  case (Suc fuel)
  show ?case
    unfolding turns.simps
  proof (rule keeps_bind_fact [OF keeps_run_turn [OF assms(1) Suc.prems]])
    fix ex
    assume ex: "exit_respects R ex"
    show "keeps_any R (case ex of RunOver ms \<Rightarrow> returnA ms
      | TurnOver v' \<Rightarrow> if hasMoreToolCalls v' \<or> pendingMessages v' \<noteq> [] then turns fuel env v'
          else bindA (pollA (getFollowUpMessages (loopConfig v')))
            (\<lambda>followUps. if followUps \<noteq> []
               then turns fuel env (v'\<lparr>pendingMessages := followUps, hasMoreToolCalls := True\<rparr>)
               else thenA (emit env (AgentEnd (newMessages v'))) (returnA (newMessages v'))))"
    proof (cases ex)
      case (TurnOver v')
      then have v': "vars_respect R v'" using ex by (simp add: exit_respects_def)
      then have "pred_option (stays R) (getFollowUpMessages (loopConfig v'))"
        by (simp add: vars_respect_def config_respects_def)
      then show ?thesis
        using v' unfolding TurnOver turn_exit.case
        by (intro keeps_if keeps_bind Suc.IH keeps_poll keeps_emit [OF assms(1)] keeps_basic)
           (simp_all add: vars_respect_def)
    qed (simp add: keeps_basic)
  qed
qed (simp add: keeps_basic)

text \<open>The result: a run stays within the relation.\<close>

lemma keeps_runLoop:
  assumes "env_respects R env" "config_respects R cfg" "context_respects R ctx"
  shows "keeps_any R (runLoop fuel env ctx new cfg)"
  unfolding runLoop_def
  using assms(2,3)
  by (intro keeping keeps_poll keeps_turns [OF assms(1)]) (simp_all add: vars_respect_def config_respects_def)

lemma runs_keep:
  assumes "env_respects R env" "config_respects R cfg" "context_respects R ctx"
  shows "keeps_any R (runAgentLoop fuel env prompts ctx cfg)" "keeps_any R (runAgentLoopContinue fuel env ctx cfg)"
  unfolding runAgentLoop_def runAgentLoopContinue_def
  by (intro keeping keeps_emit [OF assms(1)] keeps_inject [OF assms(1)] keeps_runLoop assms | simp add: assms)+

end

text \<open>A run only appends events.\<close>

interpretation growth: run_preorder "\<lambda>s t. prefix (trace s) (trace t)"
  by unfold_locales (auto intro: prefix_order.trans)

lemma growth_respects:
  "env_respects (\<lambda>s t. prefix (trace s) (trace t)) env"
  "config_respects (\<lambda>s t. prefix (trace s) (trace t)) cfg"
  "context_respects (\<lambda>s t. prefix (trace s) (trace t)) ctx"
proof -
  have tool: "tool_respects (\<lambda>s t. prefix (trace s) (trace t)) t" for t :: "'w agent_tool"
    by (simp add: tool_respects_def stays_def option.pred_True)
  have ctx: "context_respects (\<lambda>s t. prefix (trace s) (trace t)) c" for c :: "'w agent_context"
    by (cases "ctx_tools c") (simp_all add: context_respects_def tool list_all_iff)
  show "env_respects (\<lambda>s t. prefix (trace s) (trace t)) env"
    by (simp add: env_respects_def stays_def emit_def)
  show "config_respects (\<lambda>s t. prefix (trace s) (trace t)) cfg"
    by (auto simp: config_respects_def update_respects_def intro!: pred_optionI ctx) (simp_all add: stays_def)
  show "context_respects (\<lambda>s t. prefix (trace s) (trace t)) ctx" by (rule ctx)
qed

lemma inject_messages_trace:
  "\<exists>t. inject_messages env ms s = (Inr (), t) \<and> ended_messages (trace t) = ended_messages (trace s) @ ms"
proof (induction ms arbitrary: s)
  case (Cons m ms)
  let ?s = "s\<lparr>world := onEvent env (MessageEnd m) (onEvent env (MessageStart m) (world s)),
      trace := trace s @ [MessageStart m, MessageEnd m]\<rparr>"
  show ?case using Cons.IH [of ?s] by (simp add: emit_def bindA_def)
qed (simp add: run_simps)

lemma run_trace_starts:
  "prefix prompts (ended_messages (trace (snd (runAgentLoop fuel env prompts ctx cfg (fresh_run w)))))"
proof -
  let ?start = "thenA (emit env AgentStart) (thenA (emit env TurnStart) (inject_messages env prompts))"
  let ?rest = "runLoop fuel env (push_context prompts ctx) prompts cfg"
  obtain u where u: "?start (fresh_run w) = (Inr (), u)" "ended_messages (trace u) = prompts"
    using inject_messages_trace [of env prompts "\<lparr>world = onEvent env TurnStart (onEvent env AgentStart w),
        trace = [AgentStart, TurnStart]\<rparr>"] by (auto simp: bindA_def emit_def)
  have "runAgentLoop fuel env prompts ctx cfg (fresh_run w) = ?rest u"
    using u(1) unfolding runAgentLoop_def by (simp flip: bindA_assoc)
  moreover have "prefix (trace u) (trace (snd (?rest u)))"
    by (rule keepsD(1) [OF growth.keeps_runLoop [OF growth_respects]])
  ultimately show ?thesis using u(2) by (auto elim!: prefixE)
qed

lemma run_starts_with_prompts:
  assumes "provider_ok env" "runAgentLoop fuel env prompts ctx cfg (fresh_run w) = (Inr ms, t)"
  shows "prefix prompts ms"
  using run_trace_starts [of prompts fuel env ctx cfg w] run_returns [OF assms] assms(2) by simp

text \<open>
  C20. A run that returns has ended by the protocol, and the value it returns is its transcript: the messages
  of all \<^verbatim>\<open>message_end\<close> events, in order, prompts and injected messages included, which begins with the
  prompts and is also the list that the final \<^verbatim>\<open>agent_end\<close> carries.
\<close>

theorem run_returns_transcript:
  assumes "provider_ok env"
    and "runAgentLoop fuel env prompts ctx cfg (fresh_run w) = (Inr ms, t)"
  shows "protocol (trace t) = Some RunEnded \<and> ended_messages (trace t) = ms \<and> last (trace t) = AgentEnd ms \<and>
    prefix prompts ms"
  using run_returns [OF assms] run_starts_with_prompts [OF assms] by simp

lemma run_returns_transcript_witness:
  "\<exists>ms t. runAgentLoop 2 demo_env [] demo_context demo_config (fresh_run 1) = (Inr ms, t) \<and> length ms = 3 \<and>
     protocol (trace t) = Some RunEnded \<and> ended_messages (trace t) = ms \<and> last (trace t) = AgentEnd ms \<and> prefix [] ms"
proof -
  have "case fst (runAgentLoop 2 demo_env [] demo_context demo_config (fresh_run 1)) of
      Inr ms \<Rightarrow> length ms = 3 | Inl e \<Rightarrow> False" by code_simp
  then obtain ms t where run: "runAgentLoop 2 demo_env [] demo_context demo_config (fresh_run 1) = (Inr ms, t)"
    "length ms = 3"
    by (cases "runAgentLoop 2 demo_env [] demo_context demo_config (fresh_run 1)") (auto split: sum.splits)
  from run run_returns_transcript [OF demo_provider_ok run(1)] show ?thesis by blast
qed

end
