(* ===== verification/Agent.thy ===== *)
theory Agent
  imports AgentFrame Interfaces
begin

text \<open>
  The \<^verbatim>\<open>Agent\<close> class, \<^verbatim>\<open>pi/packages/agent/src/agent.ts\<close>: the state around the loop, the message queues, the
  lifecycle of a run and the reduction of events into the state.

  The loop's world is the agent itself, so that a listener, a hook or a tool may call \<^verbatim>\<open>steer\<close>, \<^verbatim>\<open>followUp\<close>
  or \<^verbatim>\<open>abort\<close> while a run is in progress. \<open>('t, 'x) agent\<close> holds the mutable state; tools are references of
  type \<open>'t\<close> and listeners numbers, which \<open>agent_fields\<close> resolves to their code, and \<open>'x\<close> is the rest of the world.
  \<open>agent_fields\<close> are the public fields of the class that hold functions and options; they are not reassigned
  while a run is in progress. Listeners do not reject and do not subscribe while an event is delivered.
\<close>

subsection \<open>Pending messages\<close>

record pending_queue =
  queued :: "agent_message list"
  queue_drain :: queue_mode

definition new_queue :: "queue_mode \<Rightarrow> pending_queue" where
  "new_queue mode = \<lparr>queued = [], queue_drain = mode\<rparr>"

definition enqueue :: "agent_message \<Rightarrow> pending_queue \<Rightarrow> pending_queue" where
  "enqueue m q = q\<lparr>queued := queued q @ [m]\<rparr>"

definition hasItems :: "pending_queue \<Rightarrow> bool" where
  "hasItems q \<longleftrightarrow> 0 < length (queued q)"

definition drain :: "pending_queue \<Rightarrow> agent_message list \<times> pending_queue" where
  "drain q = (if queue_drain q = DrainAll then (queued q, q\<lparr>queued := []\<rparr>)
     else case queued q of [] \<Rightarrow> ([], q) | m # ms \<Rightarrow> ([m], q\<lparr>queued := ms\<rparr>))"

definition clear :: "pending_queue \<Rightarrow> pending_queue" where
  "clear q = q\<lparr>queued := []\<rparr>"

subsection \<open>State\<close>

record ('t, 'x) agent =
  st_systemPrompt :: string
  st_model :: model
  st_thinkingLevel :: thinking_level
  st_tools :: "'t list"
  st_messages :: "agent_message list"
  isStreaming :: bool
  streamingMessage :: "agent_message option"
  pendingToolCalls :: "id set"
  errorMessage :: "string option"
  steeringQueue :: pending_queue
  followUpQueue :: pending_queue
  activeRun :: "bool option"                            \<comment> \<open>the run's abort flag\<close>
  skipInitialSteeringPoll :: bool                       \<comment> \<open>variable of the current loop configuration\<close>
  listeners :: "nat list"
  outside :: 'x

record 't initial_agent_state =
  init_systemPrompt :: "string option"
  init_model :: "model option"
  init_thinkingLevel :: "thinking_level option"
  init_tools :: "'t list option"
  init_messages :: "agent_message list option"

record ('t, 'x) agent_fields =
  f_convertToLlm :: "(agent_message list \<Rightarrow> (('t, 'x) agent, agent_message list) effect) option"
  f_transformContext :: "(agent_message list \<Rightarrow> (('t, 'x) agent, agent_message list) effect) option"
  f_getApiKey :: "(string \<Rightarrow> (('t, 'x) agent, string option) effect) option"
  f_beforeToolCall :: "(('t, 'x) agent before_tool_call_context \<Rightarrow>
     (('t, 'x) agent, before_tool_call_result option) effect) option"
  f_afterToolCall :: "(('t, 'x) agent after_tool_call_context \<Rightarrow>
     (('t, 'x) agent, after_tool_call_result option) effect) option"
  f_shouldStopAfterTurn :: "(('t, 'x) agent completed_turn \<Rightarrow> (('t, 'x) agent, bool) effect) option"
  f_prepareNextTurn :: "(('t, 'x) agent, ('t, 'x) agent turn_update option) effect option"
  f_prepareNextTurnWithContext :: "(('t, 'x) agent completed_turn \<Rightarrow>
     (('t, 'x) agent, ('t, 'x) agent turn_update option) effect) option"
  f_toolExecution :: "tool_execution_mode option"
  f_options :: js_value
  f_streamFunction :: "model \<Rightarrow> ('t, 'x) agent llm_context \<Rightarrow> ('t, 'x) agent loop_config
     \<Rightarrow> (('t, 'x) agent, assistant_stream) effect"
  f_listener :: "nat \<Rightarrow> agent_event \<Rightarrow> ('t, 'x) agent \<Rightarrow> ('t, 'x) agent"
  f_tool :: "'t \<Rightarrow> ('t, 'x) agent agent_tool"
  f_now :: "('t, 'x) agent \<Rightarrow> int"
  f_validate :: "('t, 'x) agent agent_tool \<Rightarrow> tool_call \<Rightarrow> string + js_value"
  f_interleaving :: "('t, 'x) agent \<Rightarrow> nat list"

fun model_role :: "message_role \<Rightarrow> bool" where
  "model_role RoleUser = True"
| "model_role RoleAssistant = True"
| "model_role RoleToolResult = True"
| "model_role _ = False"

definition defaultConvertToLlm :: "agent_message list \<Rightarrow> agent_message list" where
  "defaultConvertToLlm ms = filter (\<lambda>m. model_role (role_of m)) ms"

definition EMPTY_USAGE :: usage where
  "EMPTY_USAGE = \<lparr>u_input = 0, u_output = 0, u_cacheRead = 0, u_cacheWrite = 0, u_cacheWrite1h = None,
     u_reasoning = None, u_totalTokens = 0,
     usage_cost = \<lparr>cost_input = 0, cost_output = 0, cost_cacheRead = 0, cost_cacheWrite = 0, cost_total = 0\<rparr>\<rparr>"

definition DEFAULT_MODEL :: model where
  "DEFAULT_MODEL = \<lparr>model_id = ''unknown'', model_api = ''unknown'', model_provider = ''unknown'', model_rest = JUndefined\<rparr>"

definition or_else :: "'a option \<Rightarrow> 'a \<Rightarrow> 'a" where
  "or_else x d = (case x of None \<Rightarrow> d | Some v \<Rightarrow> v)"

text \<open>The state an agent is constructed with.\<close>

definition new_agent :: "'t initial_agent_state \<Rightarrow> queue_mode option \<Rightarrow> queue_mode option \<Rightarrow> 'x \<Rightarrow> ('t, 'x) agent" where
  "new_agent i steeringMode followUpMode x =
     \<lparr>st_systemPrompt = or_else (init_systemPrompt i) [],
      st_model = or_else (init_model i) DEFAULT_MODEL,
      st_thinkingLevel = or_else (init_thinkingLevel i) ThinkOff,
      st_tools = or_else (init_tools i) [],
      st_messages = or_else (init_messages i) [],
      isStreaming = False, streamingMessage = None, pendingToolCalls = {}, errorMessage = None,
      steeringQueue = new_queue (or_else steeringMode OneAtATime),
      followUpQueue = new_queue (or_else followUpMode OneAtATime),
      activeRun = None, skipInitialSteeringPoll = False, listeners = [], outside = x\<rparr>"

subsection \<open>Operations outside a run\<close>

definition subscribe :: "nat \<Rightarrow> ('t, 'x) agent \<Rightarrow> ('t, 'x) agent" where
  "subscribe l a = (if l \<in> set (listeners a) then a else a\<lparr>listeners := listeners a @ [l]\<rparr>)"

definition unsubscribe :: "nat \<Rightarrow> ('t, 'x) agent \<Rightarrow> ('t, 'x) agent" where
  "unsubscribe l a = a\<lparr>listeners := removeAll l (listeners a)\<rparr>"

definition steer :: "agent_message \<Rightarrow> ('t, 'x) agent \<Rightarrow> ('t, 'x) agent" where
  "steer m a = a\<lparr>steeringQueue := enqueue m (steeringQueue a)\<rparr>"

definition followUp :: "agent_message \<Rightarrow> ('t, 'x) agent \<Rightarrow> ('t, 'x) agent" where
  "followUp m a = a\<lparr>followUpQueue := enqueue m (followUpQueue a)\<rparr>"

definition set_steeringMode :: "queue_mode \<Rightarrow> ('t, 'x) agent \<Rightarrow> ('t, 'x) agent" where
  "set_steeringMode mode a = a\<lparr>steeringQueue := (steeringQueue a)\<lparr>queue_drain := mode\<rparr>\<rparr>"

definition set_followUpMode :: "queue_mode \<Rightarrow> ('t, 'x) agent \<Rightarrow> ('t, 'x) agent" where
  "set_followUpMode mode a = a\<lparr>followUpQueue := (followUpQueue a)\<lparr>queue_drain := mode\<rparr>\<rparr>"

definition clearSteeringQueue :: "('t, 'x) agent \<Rightarrow> ('t, 'x) agent" where
  "clearSteeringQueue a = a\<lparr>steeringQueue := clear (steeringQueue a)\<rparr>"

definition clearFollowUpQueue :: "('t, 'x) agent \<Rightarrow> ('t, 'x) agent" where
  "clearFollowUpQueue a = a\<lparr>followUpQueue := clear (followUpQueue a)\<rparr>"

definition clearAllQueues :: "('t, 'x) agent \<Rightarrow> ('t, 'x) agent" where
  "clearAllQueues a = clearFollowUpQueue (clearSteeringQueue a)"

definition hasQueuedMessages :: "('t, 'x) agent \<Rightarrow> bool" where
  "hasQueuedMessages a \<longleftrightarrow> hasItems (steeringQueue a) \<or> hasItems (followUpQueue a)"

definition abort :: "('t, 'x) agent \<Rightarrow> ('t, 'x) agent" where
  "abort a = (case activeRun a of None \<Rightarrow> a | Some _ \<Rightarrow> a\<lparr>activeRun := Some True\<rparr>)"

definition reset :: "('t, 'x) agent \<Rightarrow> string + ('t, 'x) agent" where
  "reset a = (if activeRun a \<noteq> None
     then Inl ''Agent is already processing. Wait for completion before resetting.''
     else Inr (clearSteeringQueue (clearFollowUpQueue
       (a\<lparr>st_messages := [], isStreaming := False, streamingMessage := None, pendingToolCalls := {}, errorMessage := None\<rparr>))))"

subsection \<open>Events\<close>

fun reduce_event :: "agent_event \<Rightarrow> ('t, 'x) agent \<Rightarrow> ('t, 'x) agent" where
  "reduce_event (MessageStart m) a = a\<lparr>streamingMessage := Some m\<rparr>"
| "reduce_event (MessageUpdate m ev) a = a\<lparr>streamingMessage := Some m\<rparr>"
| "reduce_event (MessageEnd m) a = a\<lparr>streamingMessage := None, st_messages := st_messages a @ [m]\<rparr>"
| "reduce_event (ToolExecutionStart i n args) a = a\<lparr>pendingToolCalls := insert i (pendingToolCalls a)\<rparr>"
| "reduce_event (ToolExecutionEnd i n r e) a = a\<lparr>pendingToolCalls := pendingToolCalls a - {i}\<rparr>"
| "reduce_event (TurnEnd m rs) a =
     (case am_errorMessage m of Some (c # cs) \<Rightarrow> a\<lparr>errorMessage := Some (c # cs)\<rparr> | _ \<Rightarrow> a)"
| "reduce_event (AgentEnd ms) a = a\<lparr>streamingMessage := None\<rparr>"
| "reduce_event _ a = a"

definition processEvents :: "('t, 'x) agent_fields \<Rightarrow> agent_event \<Rightarrow> ('t, 'x) agent
    \<Rightarrow> (string + unit) \<times> ('t, 'x) agent" where
  "processEvents fs ev a = (let a' = reduce_event ev a in
     if activeRun a' = None then (Inl ''Agent listener invoked outside active run'', a')
     else (Inr (), fold (\<lambda>l. f_listener fs l ev) (listeners a') a'))"

text \<open>The environment the agent gives to the loop.\<close>

definition agent_env :: "('t, 'x) agent_fields \<Rightarrow> ('t, 'x) agent loop_env" where
  "agent_env fs = \<lparr>onEvent = (\<lambda>ev a. snd (processEvents fs ev a)),
     signal_aborted = (\<lambda>a. activeRun a = Some True), now_ms = f_now fs,
     streamFunction = f_streamFunction fs, validateArguments = f_validate fs,
     interleaving = f_interleaving fs\<rparr>"

subsection \<open>Runs\<close>

datatype prompt_input =
    PromptText string "content_block list"              \<comment> \<open>text, images\<close>
  | PromptMessage agent_message
  | PromptMessages "agent_message list"

fun normalizePromptInput :: "int \<Rightarrow> prompt_input \<Rightarrow> agent_message list" where
  "normalizePromptInput now (PromptMessages ms) = ms"
| "normalizePromptInput now (PromptMessage m) = [m]"
| "normalizePromptInput now (PromptText body images) =
     [UserMessage (BlockContent (TextContent body None # images)) now]"

definition createContextSnapshot :: "('t, 'x) agent_fields \<Rightarrow> ('t, 'x) agent \<Rightarrow> ('t, 'x) agent agent_context" where
  "createContextSnapshot fs a =
     \<lparr>ctx_systemPrompt = st_systemPrompt a, ctx_messages = st_messages a, ctx_tools = Some (map (f_tool fs) (st_tools a))\<rparr>"

definition poll_steering :: "(('t, 'x) agent, agent_message list) effect" where
  "poll_steering a = (if skipInitialSteeringPoll a then (Inr [], a\<lparr>skipInitialSteeringPoll := False\<rparr>)
     else case drain (steeringQueue a) of (ms, q) \<Rightarrow> (Inr ms, a\<lparr>steeringQueue := q\<rparr>))"

definition poll_followUp :: "(('t, 'x) agent, agent_message list) effect" where
  "poll_followUp a = (case drain (followUpQueue a) of (ms, q) \<Rightarrow> (Inr ms, a\<lparr>followUpQueue := q\<rparr>))"

definition createLoopConfig :: "('t, 'x) agent_fields \<Rightarrow> ('t, 'x) agent \<Rightarrow> ('t, 'x) agent loop_config" where
  "createLoopConfig fs a =
     \<lparr>cfg_model = st_model a,
      cfg_reasoning = (if st_thinkingLevel a = ThinkOff then None else Some (st_thinkingLevel a)),
      cfg_apiKey = None, cfg_options = f_options fs,
      cfg_toolExecution = Some (or_else (f_toolExecution fs) Parallel),
      convertToLlm_hook = or_else (f_convertToLlm fs) (\<lambda>ms w. (Inr (defaultConvertToLlm ms), w)),
      transformContext = f_transformContext fs, getApiKey = f_getApiKey fs,
      shouldStopAfterTurn = f_shouldStopAfterTurn fs,
      prepareNextTurn = (case f_prepareNextTurnWithContext fs of
          Some h \<Rightarrow> Some h
        | None \<Rightarrow> (case f_prepareNextTurn fs of None \<Rightarrow> None | Some h \<Rightarrow> Some (\<lambda>t. h))),
      getSteeringMessages = Some poll_steering, getFollowUpMessages = Some poll_followUp,
      beforeToolCall = f_beforeToolCall fs, afterToolCall = f_afterToolCall fs\<rparr>"

definition failure_message :: "int \<Rightarrow> string \<Rightarrow> bool \<Rightarrow> ('t, 'x) agent \<Rightarrow> agent_message" where
  "failure_message now e aborted a = AssistantMessage
     \<lparr>am_content = [TextContent [] None], am_api = model_api (st_model a), am_provider = model_provider (st_model a),
      am_model = model_id (st_model a), am_responseModel = None, am_responseId = None, am_diagnostics = None,
      am_usage = EMPTY_USAGE, am_stopReason = (if aborted then Aborted else ErrorStop), am_deferred = None,
      am_errorMessage = Some e, am_rawStopReason = None, am_endTurn = None, am_timestamp = now\<rparr>"

definition handleRunFailure :: "('t, 'x) agent_fields \<Rightarrow> string \<Rightarrow> (('t, 'x) agent, unit) run" where
  "handleRunFailure fs e = bindA (readA (\<lambda>s. failure_message (f_now fs (world s)) e (activeRun (world s) = Some True) (world s)))
     (\<lambda>m. case m of AssistantMessage am \<Rightarrow>
        thenA (emit (agent_env fs) (MessageStart m)) (thenA (emit (agent_env fs) (MessageEnd m))
          (thenA (emit (agent_env fs) (TurnEnd am [])) (emit (agent_env fs) (AgentEnd [m]))))
      | _ \<Rightarrow> returnA ())"

definition finishRun :: "('t, 'x) agent \<Rightarrow> ('t, 'x) agent" where
  "finishRun a = a\<lparr>isStreaming := False, streamingMessage := None, pendingToolCalls := {}, activeRun := None\<rparr>"

type_synonym ('t, 'x) run_outcome = "(failure + unit) \<times> ('t, 'x) agent run_state"

definition beginRun :: "('t, 'x) agent \<Rightarrow> ('t, 'x) agent" where
  "beginRun a = a\<lparr>activeRun := Some False, isStreaming := True, streamingMessage := None, errorMessage := None\<rparr>"

text \<open>
  \<^verbatim>\<open>runWithLifecycle\<close>. A run that never settles leaves the agent active: \<^verbatim>\<open>finally\<close> is not reached.
\<close>

definition runWithLifecycle :: "('t, 'x) agent_fields \<Rightarrow> (('t, 'x) agent \<Rightarrow> (('t, 'x) agent, 'a) run) \<Rightarrow> ('t, 'x) agent
    \<Rightarrow> ('t, 'x) run_outcome" where
  "runWithLifecycle fs executor a =
     (if activeRun a \<noteq> None then (Inl (Thrown ''Agent is already processing.''), fresh_run a)
      else case executor (beginRun a) (fresh_run (beginRun a)) of
             (Inr _, s) \<Rightarrow> (Inr (), s\<lparr>world := finishRun (world s)\<rparr>)
           | (Inl (Thrown e), s) \<Rightarrow> (case handleRunFailure fs e s of (r, s') \<Rightarrow> (r, s'\<lparr>world := finishRun (world s')\<rparr>))
           | (Inl Unsettled, s) \<Rightarrow> (Inl Unsettled, s))"

definition runPromptMessages :: "nat \<Rightarrow> ('t, 'x) agent_fields \<Rightarrow> agent_message list \<Rightarrow> bool \<Rightarrow> ('t, 'x) agent
    \<Rightarrow> ('t, 'x) run_outcome" where
  "runPromptMessages fuel fs ms skip a =
     runWithLifecycle fs (\<lambda>a. runAgentLoop fuel (agent_env fs) ms (createContextSnapshot fs a) (createLoopConfig fs a))
       (a\<lparr>skipInitialSteeringPoll := skip\<rparr>)"

definition runContinuation :: "nat \<Rightarrow> ('t, 'x) agent_fields \<Rightarrow> ('t, 'x) agent \<Rightarrow> ('t, 'x) run_outcome" where
  "runContinuation fuel fs a =
     runWithLifecycle fs (\<lambda>a. runAgentLoopContinue fuel (agent_env fs) (createContextSnapshot fs a) (createLoopConfig fs a))
       (a\<lparr>skipInitialSteeringPoll := False\<rparr>)"

definition prompt :: "nat \<Rightarrow> ('t, 'x) agent_fields \<Rightarrow> prompt_input \<Rightarrow> ('t, 'x) agent \<Rightarrow> ('t, 'x) run_outcome" where
  "prompt fuel fs input a =
     (if activeRun a \<noteq> None
      then (Inl (Thrown ''Agent is already processing a prompt. Use steer() or followUp() to queue messages, or wait for completion.''), fresh_run a)
      else runPromptMessages fuel fs (normalizePromptInput (f_now fs a) input) False a)"

definition continue :: "nat \<Rightarrow> ('t, 'x) agent_fields \<Rightarrow> ('t, 'x) agent \<Rightarrow> ('t, 'x) run_outcome" where
  "continue fuel fs a =
     (if activeRun a \<noteq> None
      then (Inl (Thrown ''Agent is already processing. Wait for completion before continuing.''), fresh_run a)
      else if st_messages a = [] then (Inl (Thrown ''No messages to continue from''), fresh_run a)
      else if role_of (last (st_messages a)) = RoleAssistant
      then (case drain (steeringQueue a) of (queuedSteering, q) \<Rightarrow>
             let a1 = a\<lparr>steeringQueue := q\<rparr> in
             if queuedSteering \<noteq> [] then runPromptMessages fuel fs queuedSteering True a1
             else case drain (followUpQueue a1) of (queuedFollowUps, q') \<Rightarrow>
               let a2 = a1\<lparr>followUpQueue := q'\<rparr> in
               if queuedFollowUps \<noteq> [] then runPromptMessages fuel fs queuedFollowUps False a2
               else (Inl (Thrown ''Cannot continue from message role: assistant''), fresh_run a2))
      else runContinuation fuel fs a)"

subsection \<open>The queues\<close>

interpretation pq: message_queue queued enqueue drain
  by unfold_locales (auto simp: enqueue_def drain_def split: list.splits if_splits)

subsection \<open>The transcript\<close>

text \<open>
  What hooks, tools, listeners and the provider leave alone: the transcript, and the fact that a run is
  active. They may do everything else, queue messages and abort included.
\<close>

definition inert :: "(('t, 'x) agent \<Rightarrow> ('t, 'x) agent) \<Rightarrow> bool" where
  "inert f \<longleftrightarrow> (\<forall>a. st_messages (f a) = st_messages a \<and> (activeRun a \<noteq> None \<longrightarrow> activeRun (f a) \<noteq> None))"

abbreviation inert_hook :: "(('t, 'x) agent \<Rightarrow> 'r \<times> ('t, 'x) agent) \<Rightarrow> bool" where
  "inert_hook f \<equiv> inert (\<lambda>a. snd (f a))"

definition inert_tool :: "('t, 'x) agent agent_tool \<Rightarrow> bool" where
  "inert_tool t \<longleftrightarrow> (\<forall>i args. inert_hook (tool_execute t i args)) \<and>
     pred_option (\<lambda>f. \<forall>args. inert_hook (f args)) (tool_prepareArguments t)"

definition inert_update :: "('t, 'x) agent turn_update option \<Rightarrow> bool" where
  "inert_update u = pred_option (\<lambda>u. pred_option (\<lambda>c. pred_option (list_all inert_tool) (ctx_tools c)) (tu_context u)) u"

definition fields_inert :: "('t, 'x) agent_fields \<Rightarrow> bool" where
  "fields_inert fs \<longleftrightarrow>
     pred_option (\<lambda>f. \<forall>ms. inert_hook (f ms)) (f_convertToLlm fs) \<and>
     pred_option (\<lambda>f. \<forall>ms. inert_hook (f ms)) (f_transformContext fs) \<and>
     pred_option (\<lambda>f. \<forall>p. inert_hook (f p)) (f_getApiKey fs) \<and>
     pred_option (\<lambda>f. \<forall>x. inert_hook (f x)) (f_beforeToolCall fs) \<and>
     pred_option (\<lambda>f. \<forall>x. inert_hook (f x)) (f_afterToolCall fs) \<and>
     pred_option (\<lambda>f. \<forall>t. inert_hook (f t)) (f_shouldStopAfterTurn fs) \<and>
     pred_option (\<lambda>f. inert_hook f \<and> (\<forall>w u w'. f w = (Inr u, w') \<longrightarrow> inert_update u)) (f_prepareNextTurn fs) \<and>
     pred_option (\<lambda>f. \<forall>t. inert_hook (f t) \<and> (\<forall>w u w'. f t w = (Inr u, w') \<longrightarrow> inert_update u))
       (f_prepareNextTurnWithContext fs) \<and>
     (\<forall>m c g. inert_hook (f_streamFunction fs m c g)) \<and>
     (\<forall>l ev. inert (f_listener fs l ev)) \<and> (\<forall>t. inert_tool (f_tool fs t))"

text \<open>The transcript grows exactly by the messages of the \<^verbatim>\<open>message_end\<close> events.\<close>

definition synced :: "('t, 'x) agent run_relation" where
  "synced s t \<longleftrightarrow> (\<exists>new. ended_messages (trace t) = ended_messages (trace s) @ new \<and>
     st_messages (world t) = st_messages (world s) @ new) \<and>
     (activeRun (world s) \<noteq> None \<longrightarrow> activeRun (world t) \<noteq> None)"

interpretation sync: run_preorder synced
  by unfold_locales (fastforce simp: synced_def)+

lemma inert_stays: "inert_hook f \<Longrightarrow> stays synced f"
  by (simp add: stays_def synced_def inert_def)

lemma inert_fold:
  assumes "\<And>l. inert (f l)"
  shows "inert (fold f ls)"
  unfolding inert_def
proof
  show "st_messages (fold f ls a) = st_messages a \<and> (activeRun a \<noteq> None \<longrightarrow> activeRun (fold f ls a) \<noteq> None)" for a
    using assms by (induction ls arbitrary: a) (auto simp: inert_def)
qed

lemma reduce_event_messages:
  "st_messages (reduce_event ev a) = st_messages a @ ended_messages [ev]"
  "activeRun (reduce_event ev a) = activeRun a"
  by (cases ev; simp split: option.split list.split)+

lemma agent_env_respects:
  assumes "fields_inert fs"
  shows "env_respects synced (agent_env fs)"
proof -
  have listeners: "inert (fold (\<lambda>l. f_listener fs l ev) ls)" for ev ls
    using assms by (intro inert_fold) (simp add: fields_inert_def)
  have "synced s (snd (emit (agent_env fs) ev s))" for ev s
    using listeners [of ev "listeners (reduce_event ev (world s))"] reduce_event_messages [of ev "world s"]
    by (auto simp: synced_def emit_def agent_env_def processEvents_def Let_def inert_def)
  moreover have "stays synced (f_streamFunction fs m c g)" for m c g
    using assms by (intro inert_stays) (simp add: fields_inert_def)
  ultimately show ?thesis by (simp add: env_respects_def agent_env_def)
qed

lemma inert_tool_respects: "inert_tool t \<Longrightarrow> tool_respects synced t"
  by (auto simp: inert_tool_def tool_respects_def inert_stays option.pred_mono_strong)

lemma inert_update_respects: "inert_update u \<Longrightarrow> update_respects synced u"
  unfolding inert_update_def update_respects_def context_respects_def
  by (auto elim!: option.pred_mono_strong list.pred_mono_strong intro: inert_tool_respects)

lemma snapshot_respects:
  assumes "fields_inert fs"
  shows "context_respects synced (createContextSnapshot fs a)"
  using assms by (auto simp: context_respects_def createContextSnapshot_def list_all_iff fields_inert_def
      intro: inert_tool_respects)

lemma inert_polls: "inert_hook poll_steering" "inert_hook poll_followUp"
  by (auto simp: inert_def poll_steering_def poll_followUp_def split: prod.split)

lemma config_respects:
  assumes "fields_inert fs"
  shows "config_respects synced (createLoopConfig fs a)"
proof -
  have llm: "stays synced (or_else (f_convertToLlm fs) (\<lambda>ms w. (Inr (defaultConvertToLlm ms), w)) ms)" for ms
    using assms by (intro inert_stays) (auto simp: or_else_def fields_inert_def inert_def split: option.split)
  show ?thesis
    using assms llm
    by (auto simp: config_respects_def createLoopConfig_def fields_inert_def inert_stays inert_polls
        split: option.split elim!: option.pred_mono_strong)
      (blast intro: inert_update_respects)+
qed

text \<open>No run in progress, and nothing left of the last one.\<close>

definition idle :: "('t, 'x) agent \<Rightarrow> bool" where
  "idle a \<longleftrightarrow> \<not> isStreaming a \<and> streamingMessage a = None \<and> pendingToolCalls a = {} \<and> activeRun a = None"

lemma idle_finishRun: "idle (finishRun a)" "st_messages (finishRun a) = st_messages a"
  by (simp_all add: idle_def finishRun_def)

lemma handleRunFailure_synced:
  assumes "fields_inert fs"
  shows "synced s (snd (handleRunFailure fs e s))" "fst (handleRunFailure fs e s) \<noteq> Inl Unsettled"
proof -
  have "keeps_any synced (handleRunFailure fs e)"
    unfolding handleRunFailure_def
  proof (rule sync.keeps_bind [OF sync.keeps_basic(2)])
    fix m
    note emits = sync.keeps_emit [OF agent_env_respects [OF assms]]
    show "keeps_any synced (case m of AssistantMessage am \<Rightarrow>
        thenA (emit (agent_env fs) (MessageStart m)) (thenA (emit (agent_env fs) (MessageEnd m))
          (thenA (emit (agent_env fs) (TurnEnd am [])) (emit (agent_env fs) (AgentEnd [m]))))
      | _ \<Rightarrow> returnA ())"
      by (cases m) (simp_all only: agent_message.case sync.keeps_basic, intro sync.keeps_bind emits)
  qed
  then show "synced s (snd (handleRunFailure fs e s))" by (rule keepsD)
  show "fst (handleRunFailure fs e s) \<noteq> Inl Unsettled"
    by (simp add: handleRunFailure_def failure_message_def bindA_def run_simps emit_def)
qed

text \<open>What the lifecycle guarantees of any executor that stays in sync.\<close>

lemma lifecycle_synced:
  assumes fs: "fields_inert fs" and free: "activeRun a = None"
    and executor: "keeps_any synced (executor (beginRun a))"
    and run: "runWithLifecycle fs executor a = (r, t)"
  shows "st_messages (world t) = st_messages a @ ended_messages (trace t)"
    and "r \<noteq> Inl Unsettled \<Longrightarrow> idle (world t)"
    and "prefix (ended_messages (trace (snd (executor (beginRun a) (fresh_run (beginRun a)))))) (ended_messages (trace t))"
proof -
  let ?x = "executor (beginRun a) (fresh_run (beginRun a))"
  obtain q s where x: "?x = (q, s)" by (cases ?x)
  have "synced (fresh_run (beginRun a)) s" using keepsD(1) [OF executor] x by (metis snd_conv)
  then have s: "st_messages (world s) = st_messages a @ ended_messages (trace s)"
    by (auto simp: synced_def beginRun_def)
  consider (ok) b where "q = Inr b" | (thrown) e where "q = Inl (Thrown e)" | (stuck) "q = Inl Unsettled"
    by (metis failure.exhaust sum.exhaust)
  then have "st_messages (world t) = st_messages a @ ended_messages (trace t) \<and> (r \<noteq> Inl Unsettled \<longrightarrow> idle (world t)) \<and>
      prefix (ended_messages (trace s)) (ended_messages (trace t))"
  proof cases
    case ok
    then have "t = s\<lparr>world := finishRun (world s)\<rparr>" using run free x by (simp add: runWithLifecycle_def)
    then show ?thesis using s by (simp add: idle_finishRun)
  next
    case thrown
    obtain r' s' where h: "handleRunFailure fs e s = (r', s')" by (cases "handleRunFailure fs e s")
    have "synced s s'" using handleRunFailure_synced(1) [OF fs, of s e] h by simp
    moreover have "t = s'\<lparr>world := finishRun (world s')\<rparr>" using run free x thrown h by (simp add: runWithLifecycle_def)
    ultimately show ?thesis using s by (auto simp: idle_finishRun synced_def)
  next
    case stuck
    then show ?thesis using run free x s by (simp add: runWithLifecycle_def)
  qed
  then show "st_messages (world t) = st_messages a @ ended_messages (trace t)"
    "r \<noteq> Inl Unsettled \<Longrightarrow> idle (world t)"
    "prefix (ended_messages (trace (snd ?x))) (ended_messages (trace t))" using x by auto
qed

lemma prompt_messages_synced:
  assumes fs: "fields_inert fs" and free: "activeRun a = None"
    and run: "runPromptMessages fuel fs ms skip a = (r, t)"
  shows "st_messages (world t) = st_messages a @ ended_messages (trace t) \<and> prefix ms (ended_messages (trace t)) \<and>
    (r \<noteq> Inl Unsettled \<longrightarrow> idle (world t))"
proof -
  let ?a = "a\<lparr>skipInitialSteeringPoll := skip\<rparr>"
  let ?ex = "\<lambda>a. runAgentLoop fuel (agent_env fs) ms (createContextSnapshot fs a) (createLoopConfig fs a)"
  have free': "activeRun ?a = None" using free by simp
  have ex: "keeps_any synced (?ex (beginRun ?a))"
    by (rule sync.runs_keep(1) [OF agent_env_respects [OF fs] config_respects [OF fs] snapshot_respects [OF fs]])
  note life = lifecycle_synced [OF fs free' ex run [unfolded runPromptMessages_def]]
  have "prefix ms (ended_messages (trace t))"
    by (rule prefix_order.trans [OF run_trace_starts life(3)])
  then show ?thesis using life(1,2) by simp
qed

subsection \<open>A concrete agent\<close>

text \<open>An agent with one tool; the world outside counts the tool calls the model still wants to make.\<close>

definition sample_tool :: "unit \<Rightarrow> (unit, nat) agent agent_tool" where
  "sample_tool u = \<lparr>tool_name = ''echo'', tool_description = [], tool_parameters = JNull, tool_label = [],
     tool_prepareArguments = None, tool_execute = (\<lambda>i args a. ([Resolved (createErrorToolResult ''done'')], a)),
     tool_executionMode = Some Sequential\<rparr>"

definition sample_fields :: "(unit, nat) agent_fields" where
  "sample_fields = \<lparr>f_convertToLlm = None, f_transformContext = None, f_getApiKey = None, f_beforeToolCall = None,
     f_afterToolCall = None, f_shouldStopAfterTurn = None, f_prepareNextTurn = None,
     f_prepareNextTurnWithContext = None, f_toolExecution = None, f_options = JUndefined,
     f_streamFunction = (\<lambda>m c g a. (Inr \<lparr>stream_events = [StreamDone Stop (demo_reply (outside a))],
        stream_result = demo_reply (outside a)\<rparr>, a\<lparr>outside := outside a - 1\<rparr>)),
     f_listener = (\<lambda>l ev a. if l = 0 \<and> ev = AgentStart then steer (UserMessage (PlainContent ''more'') 1) a else a),
     f_tool = sample_tool, f_now = (\<lambda>a. 7), f_validate = (\<lambda>t c. Inr (call_arguments c)),
     f_interleaving = (\<lambda>a. [])\<rparr>"

definition sample_agent :: "agent_message list \<Rightarrow> (unit, nat) agent" where
  "sample_agent ms = subscribe 0 (new_agent \<lparr>init_systemPrompt = None, init_model = None, init_thinkingLevel = None,
     init_tools = Some [()], init_messages = Some ms\<rparr> None None 1)"

lemma sample_fields_inert: "fields_inert sample_fields"
  by (simp add: fields_inert_def sample_fields_def inert_def inert_tool_def sample_tool_def steer_def)

lemma sample_agent_idle: "idle (sample_agent ms)" "activeRun (sample_agent ms) = None"
  by (simp_all add: sample_agent_def new_agent_def subscribe_def idle_def)

subsection \<open>Properties\<close>

text \<open>
  C7. The transcript of an agent is exactly what its runs report: however a prompt ends, with a reply, with
  an error, after an abort or cut off, the agent's messages are the old ones followed by the messages of the
  \<^verbatim>\<open>message_end\<close> events of the run, which begin with the prompt; and once the prompt has settled the agent is
  idle. Hooks, tools and listeners may do anything but edit the transcript.
\<close>

theorem prompt_extends_transcript:
  assumes "fields_inert fs" "activeRun a = None" "prompt fuel fs input a = (r, t)"
  shows "st_messages (world t) = st_messages a @ ended_messages (trace t) \<and>
    prefix (normalizePromptInput (f_now fs a) input) (ended_messages (trace t)) \<and>
    (r \<noteq> Inl Unsettled \<longrightarrow> idle (world t))"
  using prompt_messages_synced [OF assms(1,2)] assms(2,3) by (simp add: prompt_def)

lemma prompt_extends_transcript_witness:
  "let result = prompt 5 sample_fields (PromptText ''hi'' []) (sample_agent []) in
     st_messages (world (snd result)) = st_messages (sample_agent []) @ ended_messages (trace (snd result)) \<and>
     prefix (normalizePromptInput (f_now sample_fields (sample_agent [])) (PromptText ''hi'' []))
       (ended_messages (trace (snd result))) \<and>
     (fst result \<noteq> Inl Unsettled \<longrightarrow> idle (world (snd result)))"
  unfolding Let_def
  by (rule prompt_extends_transcript [OF sample_fields_inert sample_agent_idle(2) prod.collapse [symmetric]])

text \<open>
  Continuing keeps the transcript in step in the same way, and queued messages are what it resumes with:
  when the last message is the assistant's, the run begins with the messages drained from the steering queue,
  or, if that is empty, from the follow-up queue, and if both are empty it is refused and nothing changes.
\<close>

theorem continue_resumes:
  assumes "fields_inert fs" "idle a" "continue fuel fs a = (r, t)"
  shows "st_messages (world t) = st_messages a @ ended_messages (trace t) \<and>
    (r \<noteq> Inl Unsettled \<longrightarrow> idle (world t)) \<and>
    (st_messages a \<noteq> [] \<and> role_of (last (st_messages a)) = RoleAssistant \<longrightarrow>
       (if hasItems (steeringQueue a) then prefix (fst (drain (steeringQueue a))) (ended_messages (trace t))
        else if hasItems (followUpQueue a) then prefix (fst (drain (followUpQueue a))) (ended_messages (trace t))
        else (\<exists>e. r = Inl (Thrown e)) \<and> trace t = [] \<and> st_messages (world t) = st_messages a))"
proof -
  have free: "activeRun a = None" using assms(2) by (simp add: idle_def)
  have empty: "fst (drain q) = [] \<longleftrightarrow> \<not> hasItems q" for q
    using pq.take_nothing [of q] by (cases "drain q") (auto simp: hasItems_def dest: pq.contents_take)
  obtain ss q where ss: "drain (steeringQueue a) = (ss, q)" by (cases "drain (steeringQueue a)")
  obtain fu q' where fu: "drain (followUpQueue a) = (fu, q')" by (cases "drain (followUpQueue a)")
  show ?thesis
  proof (cases "st_messages a = []")
    case True
    then show ?thesis using assms(2,3) free by (auto simp: continue_def)
  next
    case msgs: False
    show ?thesis
    proof (cases "role_of (last (st_messages a)) = RoleAssistant")
      case False
      have run: "runContinuation fuel fs a = (r, t)" using assms(3) free msgs False by (simp add: continue_def)
      let ?a = "a\<lparr>skipInitialSteeringPoll := False\<rparr>"
      have free': "activeRun ?a = None" using free by simp
      note life = lifecycle_synced [OF assms(1) free' sync.runs_keep(2) [OF agent_env_respects [OF assms(1)]
            config_respects [OF assms(1)] snapshot_respects [OF assms(1)]] run [unfolded runContinuation_def]]
      show ?thesis using life(1,2) False by simp
    next
      case True
      consider (steer) "ss \<noteq> []" | (follow) "ss = []" "fu \<noteq> []" | (none) "ss = []" "fu = []" by blast
      then show ?thesis
      proof cases
        case steer
        then have "runPromptMessages fuel fs ss True (a\<lparr>steeringQueue := q\<rparr>) = (r, t)"
          using assms(3) free msgs True ss by (simp add: continue_def)
        from prompt_messages_synced [OF assms(1) _ this] show ?thesis
          using steer free ss empty [of "steeringQueue a"] by simp
      next
        case follow
        then have "runPromptMessages fuel fs fu False (a\<lparr>steeringQueue := q, followUpQueue := q'\<rparr>) = (r, t)"
          using assms(3) free msgs True ss fu by (simp add: continue_def)
        from prompt_messages_synced [OF assms(1) _ this] show ?thesis
          using follow free ss fu empty [of "steeringQueue a"] empty [of "followUpQueue a"] by simp
      next
        case none
        then have "t = fresh_run (a\<lparr>steeringQueue := q, followUpQueue := q'\<rparr>)" "\<exists>e. r = Inl (Thrown e)"
          using assms(3) free msgs True ss fu by (auto simp: continue_def)
        then show ?thesis
          using none assms(2) ss fu empty [of "steeringQueue a"] empty [of "followUpQueue a"]
          by (auto simp: idle_def)
      qed
    qed
  qed
qed

lemma continue_resumes_witness:
  "let a = steer (UserMessage (PlainContent ''go'') 1) (sample_agent [AssistantMessage (demo_reply 0)]);
       t = snd (continue 5 sample_fields a)
   in st_messages (world t) = st_messages a @ ended_messages (trace t) \<and>
     prefix [UserMessage (PlainContent ''go'') 1] (ended_messages (trace t))"
proof -
  let ?a = "steer (UserMessage (PlainContent ''go'') 1) (sample_agent [AssistantMessage (demo_reply 0)])"
  have "idle ?a" by (simp add: sample_agent_def new_agent_def subscribe_def idle_def steer_def)
  from continue_resumes [OF sample_fields_inert this prod.collapse [symmetric], of 5]
  show ?thesis
    by (simp add: Let_def sample_agent_def new_agent_def subscribe_def steer_def enqueue_def new_queue_def
        hasItems_def drain_def or_else_def)
qed

text \<open>
  The steering and follow-up queues lose, repeat and reorder nothing: after any sequence of \<^verbatim>\<open>enqueue\<close> and
  \<^verbatim>\<open>drain\<close> calls, in either mode, what was drained followed by what is left is what was there followed by what
  was put in; and as many drains as there are messages empty the queue.
\<close>

theorem queue_in_order:
  "let result = run_queue enqueue drain ops q in queued q @ puts ops = fst result @ queued (snd result) \<and>
     run_queue enqueue drain (replicate (length (queued q)) None) q =
       (queued q, snd (run_queue enqueue drain (replicate (length (queued q)) None) q)) \<and>
     \<not> hasItems (snd (run_queue enqueue drain (replicate (length (queued q)) None) q))"
  using pq.drains_in_order [of ops q, OF prod.collapse [symmetric]]
    pq.drained_empty [of q, OF order_refl prod.collapse [symmetric]]
  by (simp add: Let_def hasItems_def prod_eq_iff)

end
