(* ===== verification/Json.thy ===== *)
theory Json
  imports Prelude "HOL-Library.Sublist"
begin

text \<open>
  JSON text, as \<^verbatim>\<open>JSON.stringify\<close> writes it and \<^verbatim>\<open>JSON.parse\<close> reads it.

  A value is a tree; a number is its JSON lexeme (\<^verbatim>\<open>JSON.stringify\<close> writes the shortest one, which reads
  back to the same double), and integers have the functions \<open>json_int\<close> and \<open>int_of_json\<close>. Text and strings are lists
  of characters with codes below 256; an escape for a larger code unit is rejected. Properties of an object
  keep their order, and of two with the same name the later value wins, as in the language. The parser has
  fuel, which the length of the text bounds (\<open>parse_json\<close>).

  \<open>parse_json_text\<close> is the round trip; \<open>torn_object\<close> says that no proper prefix of the text of an object is
  JSON, which is how a file that was cut off inside its last line is recognised.
\<close>

datatype json =
    JsonNull
  | JsonBool bool
  | JsonNumber string
  | JsonString string
  | JsonArray "json list"
  | JsonObject "(string \<times> json) list"

subsection \<open>Numbers\<close>

definition is_digit :: "char \<Rightarrow> bool" where
  "is_digit c \<longleftrightarrow> c \<in> set ''0123456789''"

definition number_char :: "char \<Rightarrow> bool" where
  "number_char c \<longleftrightarrow> c \<in> set ''0123456789+-.eE''"

definition valid_exponent :: "string \<Rightarrow> bool" where
  "valid_exponent s \<longleftrightarrow> (case s of [] \<Rightarrow> True
     | e # r \<Rightarrow> e \<in> set ''eE'' \<and>
         (let ds = (case r of c # r' \<Rightarrow> if c \<in> set ''+-'' then r' else r | [] \<Rightarrow> [])
          in ds \<noteq> [] \<and> list_all is_digit ds))"

definition valid_fraction :: "string \<Rightarrow> bool" where
  "valid_fraction s \<longleftrightarrow> (case s of c # r \<Rightarrow> if c = CHR ''.''
       then takeWhile is_digit r \<noteq> [] \<and> valid_exponent (dropWhile is_digit r) else valid_exponent s
     | [] \<Rightarrow> True)"

definition valid_number :: "string \<Rightarrow> bool" where
  "valid_number s \<longleftrightarrow>
     (let u = (case s of c # r \<Rightarrow> if c = CHR ''-'' then r else s | [] \<Rightarrow> []);
          ds = takeWhile is_digit u
      in ds \<noteq> [] \<and> (hd ds = CHR ''0'' \<longrightarrow> length ds = 1) \<and> valid_fraction (dropWhile is_digit u))"

definition digit_char :: "nat \<Rightarrow> char" where
  "digit_char n = ''0123456789'' ! n"

definition digit_value :: "char \<Rightarrow> nat" where
  "digit_value c = of_char c - 48"

fun nat_text :: "nat \<Rightarrow> string" where
  "nat_text n = (if n < 10 then [digit_char n] else nat_text (n div 10) @ [digit_char (n mod 10)])"

declare nat_text.simps [simp del]

definition text_nat :: "string \<Rightarrow> nat" where
  "text_nat ds = foldl (\<lambda>n d. 10 * n + digit_value d) 0 ds"

definition json_int :: "int \<Rightarrow> json" where
  "json_int i = JsonNumber (if i < 0 then CHR ''-'' # nat_text (nat (- i)) else nat_text (nat i))"

text \<open>The integer a value denotes, if it is an integer written without fraction and exponent.\<close>

definition int_of_json :: "json \<Rightarrow> int option" where
  "int_of_json j = (case j of
     JsonNumber (c # ds) \<Rightarrow>
       if c = CHR ''-'' then (if ds \<noteq> [] \<and> list_all is_digit ds then Some (- int (text_nat ds)) else None)
       else (if list_all is_digit (c # ds) then Some (int (text_nat (c # ds))) else None)
   | _ \<Rightarrow> None)"

lemma digit_cases: "n < 10 \<Longrightarrow> n = 0 \<or> n = 1 \<or> n = 2 \<or> n = 3 \<or> n = 4 \<or> n = 5 \<or> n = 6 \<or> n = 7 \<or> n = 8 \<or> n = (9::nat)"
  by arith

lemma digit_char_digit: "n < 10 \<Longrightarrow> is_digit (digit_char n) \<and> digit_value (digit_char n) = n"
  by (drule digit_cases) (auto simp: is_digit_def digit_char_def digit_value_def)

lemma nat_text_digits: "list_all is_digit (nat_text n) \<and> nat_text n \<noteq> []"
proof (induction n rule: nat_text.induct)
  case (1 n)
  then show ?case using digit_char_digit by (subst (1 2) nat_text.simps) auto
qed

lemma text_nat_text: "text_nat (nat_text n) = n"
proof (induction n rule: nat_text.induct)
  case (1 n)
  show ?case
  proof (cases "n < 10")
    case True
    then show ?thesis using digit_char_digit [of n] by (simp add: nat_text.simps [of n] text_nat_def)
  next
    case False
    then show ?thesis
      using 1 digit_char_digit [of "n mod 10"] by (simp add: nat_text.simps [of n] text_nat_def)
  qed
qed

lemma nat_text_leading: "nat_text n \<noteq> [] \<and> (hd (nat_text n) = CHR ''0'' \<longrightarrow> n = 0)"
proof (induction n rule: nat_text.induct)
  case (1 n)
  show ?case
  proof (cases "n < 10")
    case True
    then show ?thesis using digit_cases [OF True] by (auto simp: nat_text.simps [of n] digit_char_def)
  next
    case False
    then have "n div 10 \<noteq> 0" by simp
    with 1 [OF False] show ?thesis using False by (simp add: nat_text.simps [of n] hd_append)
  qed
qed

lemma valid_nat_text: "valid_number (nat_text n)"
proof -
  have d: "list_all is_digit (nat_text n)" "nat_text n \<noteq> []" using nat_text_digits by simp_all
  then obtain c cs where t: "nat_text n = c # cs" by (cases "nat_text n") auto
  have c: "c \<noteq> CHR ''-''" using d t by (auto simp: is_digit_def)
  have "takeWhile is_digit (nat_text n) = nat_text n" "dropWhile is_digit (nat_text n) = []"
    using d by (simp_all add: list_all_iff takeWhile_eq_all_conv dropWhile_eq_Nil_conv)
  moreover have "hd (nat_text n) = CHR ''0'' \<longrightarrow> length (nat_text n) = 1"
    using nat_text_leading [of n] nat_text.simps [of 0] by auto
  moreover have "is_digit CHR ''0''" by (simp add: is_digit_def)
  ultimately show ?thesis using c t by (auto simp: valid_number_def Let_def valid_fraction_def)
qed

lemma json_int_text: "json_int i = JsonNumber t \<Longrightarrow> valid_number t"
proof -
  have "valid_number (CHR ''-'' # nat_text n)" for n
  proof -
    have v: "valid_number (nat_text n)" by (rule valid_nat_text)
    obtain c cs where t: "nat_text n = c # cs" "is_digit c" using nat_text_digits [of n] by (cases "nat_text n") auto
    then have "c \<noteq> CHR ''-''" by (auto simp: is_digit_def)
    with v t show ?thesis by (simp add: valid_number_def)
  qed
  then show "json_int i = JsonNumber t \<Longrightarrow> valid_number t"
    using valid_nat_text by (auto simp: json_int_def split: if_splits)
qed

lemma int_of_json_int [simp]: "int_of_json (json_int i) = Some i"
proof (cases "i < 0")
  case True
  then show ?thesis
    using nat_text_digits [of "nat (- i)"] text_nat_text [of "nat (- i)"]
    by (simp add: json_int_def int_of_json_def)
next
  case False
  obtain c cs where t: "nat_text (nat i) = c # cs" "is_digit c"
    using nat_text_digits [of "nat i"] by (cases "nat_text (nat i)") auto
  then have "c \<noteq> CHR ''-''" by (auto simp: is_digit_def)
  then show ?thesis
    using False t nat_text_digits [of "nat i"] text_nat_text [of "nat i"]
    by (simp add: json_int_def int_of_json_def)
qed

subsection \<open>Strings\<close>

definition hex_char :: "nat \<Rightarrow> char" where
  "hex_char n = ''0123456789abcdef'' ! n"

definition hex_value :: "char \<Rightarrow> nat option" where
  "hex_value c = (let n = of_char c :: nat in
     if 48 \<le> n \<and> n \<le> 57 then Some (n - 48)
     else if 65 \<le> n \<and> n \<le> 70 then Some (n - 55)
     else if 97 \<le> n \<and> n \<le> 102 then Some (n - 87) else None)"

definition backslash :: char where "backslash = char_of (92 :: nat)"

definition quote :: char where "quote = char_of (34 :: nat)"

text \<open>The escapes with a letter of their own, character and letter.\<close>

definition short_escapes :: "(char \<times> char) list" where
  "short_escapes = [(quote, quote), (backslash, backslash), (char_of (8 :: nat), CHR ''b''), (char_of (9 :: nat), CHR ''t''),
     (char_of (10 :: nat), CHR ''n''), (char_of (12 :: nat), CHR ''f''), (char_of (13 :: nat), CHR ''r'')]"

definition escape_char :: "char \<Rightarrow> string" where
  "escape_char c = (case map_of short_escapes c of
     Some e \<Rightarrow> [backslash, e]
   | None \<Rightarrow> if (of_char c :: nat) < 32
       then [backslash, CHR ''u'', CHR ''0'', CHR ''0'', hex_char (of_char c div 16), hex_char (of_char c mod 16)]
       else [c])"

definition string_text :: "string \<Rightarrow> string" where
  "string_text s = quote # concat (map escape_char s) @ [quote]"

definition unescape :: "char \<Rightarrow> char option" where
  "unescape e = (if e = CHR ''/'' then Some e else map_of (map (\<lambda>(c, e). (e, c)) short_escapes) e)"

definition hex4 :: "char \<Rightarrow> char \<Rightarrow> char \<Rightarrow> char \<Rightarrow> char option" where
  "hex4 a b c d = (case (hex_value a, hex_value b, hex_value c, hex_value d) of
     (Some w, Some x, Some y, Some z) \<Rightarrow>
       (let n = ((w * 16 + x) * 16 + y) * 16 + z in if n < 256 then Some (char_of n) else None)
   | _ \<Rightarrow> None)"

definition cons_result :: "char \<Rightarrow> (string \<times> string) option \<Rightarrow> (string \<times> string) option" where
  "cons_result c = map_option (\<lambda>(cs, r). (c # cs, r))"

text \<open>The rest of a string literal after its opening quote, and the text behind its closing quote.\<close>

fun parse_string :: "string \<Rightarrow> (string \<times> string) option" where
  "parse_string [] = None"
| "parse_string (c # s) =
     (if c = quote then Some ([], s)
      else if c = backslash
      then (case s of [] \<Rightarrow> None
            | e # r \<Rightarrow>
                if e = CHR ''u''
                then (case r of h1 # h2 # h3 # h4 # r' \<Rightarrow>
                        (case hex4 h1 h2 h3 h4 of None \<Rightarrow> None | Some x \<Rightarrow> cons_result x (parse_string r'))
                      | _ \<Rightarrow> None)
                else (case unescape e of None \<Rightarrow> None | Some x \<Rightarrow> cons_result x (parse_string r)))
      else if (of_char c :: nat) < 32 then None
      else cons_result c (parse_string s))"

declare parse_string.simps(2) [simp del]

lemma cons_result_simps [simp]:
  "cons_result c None = None" "cons_result c (Some (cs, r)) = Some (c # cs, r)"
  by (simp_all add: cons_result_def)

lemma control_chars: "list_all (\<lambda>n. n \<in> {8, 9, 10, 12, 13} \<or>
    hex4 CHR ''0'' CHR ''0'' (hex_char (n div 16)) (hex_char (n mod 16)) = Some (char_of n)) [0..<32]"
  by code_simp

lemma parse_escaped: "parse_string (escape_char c @ s) = cons_result c (parse_string s)"
proof -
  have qb: "quote \<noteq> backslash" "CHR ''u'' \<noteq> quote" by (simp_all add: quote_def backslash_def char_of_def)
  show ?thesis
  proof (cases "map_of short_escapes c")
    case (Some e)
    then have "(c, e) \<in> set short_escapes" by (rule map_of_SomeD)
    then have "unescape e = Some c" "e \<noteq> CHR ''u''"
      by (auto simp: short_escapes_def unescape_def quote_def backslash_def char_of_def)
    then show ?thesis using Some qb by (simp add: escape_char_def parse_string.simps(2))
  next
    case None
    have code: "(of_char c :: nat) \<noteq> n" if "map_of short_escapes (char_of n) \<noteq> None" for n
      using None that by (metis char_of_char)
    have "of_char c \<notin> {8, 9, 10, 12, 13 :: nat}"
      using code [of 8] code [of 9] code [of 10] code [of 12] code [of 13] by (simp add: short_escapes_def)
    moreover have "c \<noteq> quote" "c \<noteq> backslash" using None by (auto simp: short_escapes_def split: if_splits)
    ultimately have n: "c \<noteq> quote" "c \<noteq> backslash" "of_char c \<notin> {8, 9, 10, 12, 13 :: nat}" by simp_all
    show ?thesis
    proof (cases "(of_char c :: nat) < 32")
      case True
      then have "hex4 CHR ''0'' CHR ''0'' (hex_char (of_char c div 16)) (hex_char (of_char c mod 16)) = Some c"
        using control_chars n(3) by (auto simp: list_all_iff dest!: bspec [of _ _ "of_char c"])
      then show ?thesis using None True qb by (simp add: escape_char_def parse_string.simps(2))
    next
      case False
      then show ?thesis using None n by (simp add: escape_char_def parse_string.simps(2))
    qed
  qed
qed

lemma parse_string_text: "parse_string (concat (map escape_char cs) @ quote # r) = Some (cs, r)"
  by (induction cs) (simp_all add: parse_escaped, simp add: parse_string.simps(2))

text \<open>What a string literal consumes does not depend on what follows it.\<close>

lemma parse_string_extend: "parse_string s = Some (cs, r) \<Longrightarrow> parse_string (s @ t) = Some (cs, r @ t)"
proof (induction s arbitrary: cs rule: parse_string.induct)
  case (2 c s)
  have cons: "\<exists>ds. cs = x # ds \<and> q = Some (ds, r)" if "cons_result x q = Some (cs, r)" for x q
    using that by (auto simp: cons_result_def)
  consider (q) "c = quote" | (b) "c \<noteq> quote" "c = backslash" | (o) "c \<noteq> quote" "c \<noteq> backslash" by blast
  then show ?case
  proof cases
    case q
    then show ?thesis using "2.prems" by (simp add: parse_string.simps(2))
  next
    case b
    then obtain e s1 where s: "s = e # s1" using "2.prems" by (cases s) (simp_all add: parse_string.simps(2))
    show ?thesis
    proof (cases "e = CHR ''u''")
      case True
      then obtain h1 h2 h3 h4 s2 x where h: "s1 = h1 # h2 # h3 # h4 # s2" "hex4 h1 h2 h3 h4 = Some x"
        "cons_result x (parse_string s2) = Some (cs, r)"
        using "2.prems" b s by (auto simp: parse_string.simps(2) split: list.splits option.splits)
      then obtain ds where "cs = x # ds" "parse_string s2 = Some (ds, r)" using cons by blast
      with "2.IH"(1) [OF b s True h(1)] h show ?thesis using b s True by (simp add: parse_string.simps(2))
    next
      case False
      then obtain x where x: "unescape e = Some x" "cons_result x (parse_string s1) = Some (cs, r)"
        using "2.prems" b s by (auto simp: parse_string.simps(2) split: option.splits)
      then obtain ds where "cs = x # ds" "parse_string s1 = Some (ds, r)" using cons by blast
      with "2.IH"(2) [OF b s False x(1)] x show ?thesis using b s False by (simp add: parse_string.simps(2))
    qed
  next
    case o
    then have x: "\<not> (of_char c :: nat) < 32" "cons_result c (parse_string s) = Some (cs, r)"
      using "2.prems" by (auto simp: parse_string.simps(2) split: if_splits)
    then obtain ds where "cs = c # ds" "parse_string s = Some (ds, r)" using cons by blast
    with "2.IH"(3) [OF o x(1)] x show ?thesis using o by (simp add: parse_string.simps(2))
  qed
qed simp

subsection \<open>Values\<close>

definition is_space :: "char \<Rightarrow> bool" where
  "is_space c \<longleftrightarrow> (of_char c :: nat) \<in> {9, 10, 13, 32}"

definition skip_ws :: "string \<Rightarrow> string" where
  "skip_ws s = dropWhile is_space s"

text \<open>\<^verbatim>\<open>JSON.stringify\<close> without indentation.\<close>

fun json_text :: "json \<Rightarrow> string"
  and elems_text :: "json list \<Rightarrow> string"
  and members_text :: "(string \<times> json) list \<Rightarrow> string" where
  "json_text JsonNull = ''null''"
| "json_text (JsonBool b) = (if b then ''true'' else ''false'')"
| "json_text (JsonNumber t) = t"
| "json_text (JsonString s) = string_text s"
| "json_text (JsonArray vs) = CHR ''['' # elems_text vs @ '']''"
| "json_text (JsonObject ms) = CHR ''{'' # members_text ms @ ''}''"
| "elems_text [] = []"
| "elems_text (v # vs) = json_text v @ (if vs = [] then [] else CHR '','' # elems_text vs)"
| "members_text [] = []"
| "members_text ((k, v) # ms) =
     string_text k @ CHR '':'' # json_text v @ (if ms = [] then [] else CHR '','' # members_text ms)"

definition after_comma :: "char \<Rightarrow> string \<Rightarrow> 'a list \<Rightarrow> (string \<Rightarrow> ('a list \<times> string) option) \<Rightarrow> ('a list \<times> string) option" where
  "after_comma stop s acc more = (case skip_ws s of
     c # r \<Rightarrow> if c = CHR '','' then map_option (\<lambda>(xs, q). (acc @ xs, q)) (more r)
       else if c = stop then Some (acc, r) else None
   | [] \<Rightarrow> None)"

definition parse_literal :: "string \<Rightarrow> (json \<times> string) option" where
  "parse_literal s =
     (if take 4 s = ''null'' then Some (JsonNull, drop 4 s)
      else if take 4 s = ''true'' then Some (JsonBool True, drop 4 s)
      else if take 5 s = ''false'' then Some (JsonBool False, drop 5 s)
      else let t = takeWhile number_char s
           in if valid_number t then Some (JsonNumber t, dropWhile number_char s) else None)"

fun object_of :: "(string \<times> json) list \<Rightarrow> (string \<times> json) list \<Rightarrow> (string \<times> json) list" where
  "object_of acc [] = acc"
| "object_of acc ((k, v) # ms) = object_of (AList.update k v acc) ms"

fun parse_value :: "nat \<Rightarrow> string \<Rightarrow> (json \<times> string) option"
  and parse_elems :: "nat \<Rightarrow> string \<Rightarrow> (json list \<times> string) option"
  and parse_members :: "nat \<Rightarrow> string \<Rightarrow> ((string \<times> json) list \<times> string) option" where
  "parse_value 0 s = None"
| "parse_value (Suc n) s =
     (case skip_ws s of [] \<Rightarrow> None
      | c # r \<Rightarrow>
          if c = quote then map_option (\<lambda>(cs, q). (JsonString cs, q)) (parse_string r)
          else if c = CHR ''['' then
            (if take 1 (skip_ws r) = '']'' then Some (JsonArray [], drop 1 (skip_ws r))
             else map_option (\<lambda>(vs, q). (JsonArray vs, q)) (parse_elems n r))
          else if c = CHR ''{'' then
            (if take 1 (skip_ws r) = ''}'' then Some (JsonObject [], drop 1 (skip_ws r))
             else map_option (\<lambda>(ms, q). (JsonObject (object_of [] ms), q)) (parse_members n r))
          else parse_literal (c # r))"
| "parse_elems 0 s = None"
| "parse_elems (Suc n) s =
     (case parse_value n s of None \<Rightarrow> None
      | Some (v, r) \<Rightarrow> after_comma CHR '']'' r [v] (parse_elems n))"
| "parse_members 0 s = None"
| "parse_members (Suc n) s =
     (case skip_ws s of [] \<Rightarrow> None
      | c # r \<Rightarrow>
          if c \<noteq> quote then None
          else (case parse_string r of None \<Rightarrow> None
           | Some (k, r1) \<Rightarrow> (case skip_ws r1 of [] \<Rightarrow> None
              | d # r2 \<Rightarrow>
                  if d \<noteq> CHR '':'' then None
                  else (case parse_value n r2 of None \<Rightarrow> None
                   | Some (v, r3) \<Rightarrow> after_comma CHR ''}'' r3 [(k, v)] (parse_members n)))))"

text \<open>\<^verbatim>\<open>JSON.parse\<close>: the whole text is one value.\<close>

definition parse_json :: "string \<Rightarrow> json option" where
  "parse_json s = (case parse_value (length s) s of
     Some (v, r) \<Rightarrow> if skip_ws r = [] then Some v else None | None \<Rightarrow> None)"

text \<open>The values \<^verbatim>\<open>JSON.stringify\<close> is given: property names are distinct, numbers are lexemes.\<close>

fun json_ok :: "json \<Rightarrow> bool" where
  "json_ok (JsonNumber t) \<longleftrightarrow> valid_number t"
| "json_ok (JsonArray vs) \<longleftrightarrow> list_all json_ok vs"
| "json_ok (JsonObject ms) \<longleftrightarrow> distinct (map fst ms) \<and> list_all (\<lambda>(k, v). json_ok v) ms"
| "json_ok _ \<longleftrightarrow> True"

subsubsection \<open>White space and characters\<close>

lemma skip_ws_append: "skip_ws s \<noteq> [] \<Longrightarrow> skip_ws (s @ t) = skip_ws s @ t"
  by (auto simp: skip_ws_def dropWhile_append dropWhile_eq_Nil_conv)

lemma skip_ws_Cons [simp]: "\<not> is_space c \<Longrightarrow> skip_ws (c # s) = c # s"
  by (simp add: skip_ws_def)

lemma marks [simp]:
  "\<not> is_space quote" "\<not> is_space CHR ''[''" "\<not> is_space CHR ''{''" "\<not> is_space CHR '',''"
  "\<not> is_space CHR '']''" "\<not> is_space CHR ''}''" "\<not> is_space CHR '':''"
  "CHR ''['' \<noteq> quote" "CHR ''{'' \<noteq> quote" "quote \<noteq> CHR ''['' " "quote \<noteq> CHR ''{''" "quote \<noteq> CHR '']''" "quote \<noteq> CHR ''}''"
  "\<not> number_char CHR '',''" "\<not> number_char CHR '']''" "\<not> number_char CHR ''}''"
  by (simp_all add: is_space_def quote_def char_of_def number_char_def)

lemma digit_number_char: "is_digit c \<Longrightarrow> number_char c"
  by (auto simp: is_digit_def number_char_def)

lemma number_char_plain:
  "number_char c \<Longrightarrow> \<not> is_space c \<and> c \<noteq> quote \<and> c \<noteq> CHR ''['' \<and> c \<noteq> CHR ''{'' \<and> c \<noteq> CHR '']'' \<and> c \<noteq> CHR ''}'' \<and>
     c \<noteq> CHR ''n'' \<and> c \<noteq> CHR ''t'' \<and> c \<noteq> CHR ''f''"
  by (auto simp: number_char_def is_space_def quote_def char_of_def)

lemma number_char_signs:
  "number_char CHR ''e''" "number_char CHR ''E''" "number_char CHR ''+''" "number_char CHR ''-''" "number_char CHR ''.''"
  by (simp_all add: number_char_def)

lemma valid_exponent_chars: "valid_exponent s \<Longrightarrow> list_all number_char s"
proof (cases s)
  case (Cons e r)
  assume "valid_exponent s"
  moreover have "list_all number_char ds" if "list_all is_digit ds" for ds
    using that digit_number_char by (simp add: list_all_iff)
  ultimately show ?thesis using Cons number_char_signs digit_number_char
    by (cases r) (auto simp: valid_exponent_def split: if_splits)
qed simp

lemma digits_chars: "list_all number_char (takeWhile is_digit s)"
  using digit_number_char by (auto simp: list_all_iff dest: set_takeWhileD)

lemma all_by_parts: "list_all P (takeWhile Q s) \<Longrightarrow> list_all P (dropWhile Q s) \<Longrightarrow> list_all P s"
  by (metis list_all_append takeWhile_dropWhile_id)

lemma valid_fraction_chars: "valid_fraction s \<Longrightarrow> list_all number_char s"
proof (cases s)
  case (Cons c r)
  assume "valid_fraction s"
  then have "(c = CHR ''.'' \<and> valid_exponent (dropWhile is_digit r)) \<or> valid_exponent s"
    using Cons by (auto simp: valid_fraction_def split: if_splits)
  then show ?thesis
  proof (elim disjE conjE)
    assume "c = CHR ''.''" "valid_exponent (dropWhile is_digit r)"
    then show ?thesis
      using Cons valid_exponent_chars digits_chars all_by_parts [of number_char is_digit r] number_char_signs by simp
  qed (rule valid_exponent_chars)
qed simp

lemma valid_number_chars: "valid_number s \<Longrightarrow> list_all number_char s"
proof (cases s)
  case (Cons c r)
  assume v: "valid_number s"
  define u where "u = (if c = CHR ''-'' then r else s)"
  have "valid_fraction (dropWhile is_digit u)" using v Cons by (simp only: valid_number_def Let_def u_def list.case)
  then have "list_all number_char u"
    using valid_fraction_chars digits_chars all_by_parts by blast
  then show ?thesis using Cons number_char_signs by (auto simp: u_def split: if_splits)
qed simp

lemma valid_number_nonempty: "valid_number s \<Longrightarrow> s \<noteq> []"
  by (auto simp: valid_number_def)

subsubsection \<open>Reading back what was written\<close>

definition stops_number :: "string \<Rightarrow> bool" where
  "stops_number s \<longleftrightarrow> (case s of [] \<Rightarrow> True | c # r \<Rightarrow> \<not> number_char c)"

lemma parse_number:
  assumes "valid_number t" and "stops_number s"
  shows "parse_value (Suc n) (t @ s) = Some (JsonNumber t, s)"
proof -
  have cs: "list_all number_char t" using assms(1) by (rule valid_number_chars)
  obtain c r where t: "t = c # r" using valid_number_nonempty [OF assms(1)] by (cases t) auto
  then have c: "number_char c" using cs by simp
  have "takeWhile number_char (t @ s) = t" "dropWhile number_char (t @ s) = s"
    using cs assms(2) by (auto simp: list_all_iff stops_number_def takeWhile_append dropWhile_append split: list.splits)
  then have "parse_literal (t @ s) = Some (JsonNumber t, s)"
    using number_char_plain [OF c] assms(1) by (auto simp: parse_literal_def t)
  then show ?thesis using number_char_plain [OF c] t by simp
qed

lemma stops_number_simps [simp]: "stops_number []" "stops_number (c # s) = (\<not> number_char c)"
  by (simp_all add: stops_number_def)

lemma length_text: "0 < length (json_text v) \<or> (\<exists>t. v = JsonNumber t)"
  by (cases v) (simp_all add: string_text_def)

lemma after_comma_simps [simp]:
  "after_comma stop (CHR '','' # s) acc more = map_option (\<lambda>(xs, q). (acc @ xs, q)) (more s)"
  "stop \<noteq> CHR '','' \<Longrightarrow> \<not> is_space stop \<Longrightarrow> after_comma stop (stop # s) acc more = Some (acc, s)"
  by (simp_all add: after_comma_def)

lemma text_start:
  assumes "json_ok v"
  shows "\<exists>c r. json_text v = c # r \<and> \<not> is_space c \<and> c \<noteq> CHR '']'' \<and> c \<noteq> CHR ''}''"
proof (cases v)
  case (JsonNumber t)
  then show ?thesis
    using assms valid_number_chars [of t] valid_number_nonempty [of t] number_char_plain
    by (cases t) auto
qed (simp_all add: string_text_def is_space_def quote_def char_of_def)

lemma object_of_distinct:
  "distinct (map fst acc @ map fst ms) \<Longrightarrow> object_of acc ms = acc @ ms"
proof (induction ms arbitrary: acc)
  case (Cons m ms)
  obtain k v where m: "m = (k, v)" by (cases m)
  then have "k \<notin> fst ` set acc" using Cons.prems by auto
  then have "AList.update k v acc = acc @ [(k, v)]" by (induction acc) auto
  then show ?case using Cons m by simp
qed simp

lemma parse_text:
  "\<And>n s. json_ok v \<Longrightarrow> length (json_text v) \<le> n \<Longrightarrow> stops_number s \<Longrightarrow>
     parse_value n (json_text v @ s) = Some (v, s)"
  "\<And>n s. list_all json_ok vs \<Longrightarrow> vs \<noteq> [] \<Longrightarrow> length (elems_text vs) < n \<Longrightarrow>
     parse_elems n (elems_text vs @ CHR '']'' # s) = Some (vs, s)"
  "\<And>n s. list_all (\<lambda>(k, v). json_ok v) ms \<Longrightarrow> ms \<noteq> [] \<Longrightarrow> length (members_text ms) < n \<Longrightarrow>
     parse_members n (members_text ms @ CHR ''}'' # s) = Some (ms, s)"
proof (induction v and vs and ms rule: json_text_elems_text_members_text.induct)
  case (1 n s)
  then show ?case by (cases n) (simp_all add: parse_literal_def is_space_def quote_def char_of_def)
next
  case (2 b n s)
  then show ?case
    by (cases n; cases b) (simp_all add: parse_literal_def is_space_def quote_def char_of_def)
next
  case (3 t n s)
  then obtain k where "n = Suc k" using valid_number_nonempty [of t] by (cases n) auto
  with 3 show ?case using parse_number by simp
next
  case (4 cs n s)
  then obtain k where "n = Suc k" by (cases n) (auto simp: string_text_def)
  then show ?case by (simp add: string_text_def parse_string_text)
next
  case (5 vs n s)
  then obtain k where n: "n = Suc k" by (cases n) auto
  show ?case
  proof (cases vs)
    case Nil
    then show ?thesis using n by simp
  next
    case (Cons v vs')
    then obtain c r where t: "json_text v = c # r" "\<not> is_space c" "c \<noteq> CHR '']''"
      using text_start [of v] 5 by auto
    have "take 1 (skip_ws (elems_text vs @ CHR '']'' # s)) \<noteq> '']''" using Cons t by simp
    moreover have "parse_elems k (elems_text vs @ CHR '']'' # s) = Some (vs, s)"
      using 5 n Cons by (intro "5.IH") auto
    ultimately show ?thesis using n by simp
  qed
next
  case (6 ms n s)
  then obtain k where n: "n = Suc k" by (cases n) auto
  show ?case
  proof (cases ms)
    case Nil
    then show ?thesis using n by simp
  next
    case (Cons m ms')
    have "take 1 (skip_ws (members_text ms @ CHR ''}'' # s)) \<noteq> ''}''"
      using Cons by (cases m) (simp add: string_text_def)
    moreover have "parse_members k (members_text ms @ CHR ''}'' # s) = Some (ms, s)"
      using 6 n Cons by (intro "6.IH") auto
    moreover have "object_of [] ms = ms" using object_of_distinct [of "[]" ms] 6 by simp
    ultimately show ?thesis using n by simp
  qed
next
  case 7
  then show ?case by simp
next
  case (8 v vs n s)
  then obtain k where n: "n = Suc k" by (cases n) auto
  have v: "parse_value k (json_text v @ (if vs = [] then [] else CHR '','' # elems_text vs) @ CHR '']'' # s) =
      Some (v, (if vs = [] then [] else CHR '','' # elems_text vs) @ CHR '']'' # s)"
    using 8 n by (intro "8.IH"(1)) auto
  show ?case
  proof (cases "vs = []")
    case False
    then have "parse_elems k (elems_text vs @ CHR '']'' # s) = Some (vs, s)"
      using 8 n by (intro "8.IH"(2)) auto
    then show ?thesis using v n False by simp
  qed (use v n in simp)
next
  case 9
  then show ?case by simp
next
  case (10 i v ms n s)
  then obtain k where n: "n = Suc k" by (cases n) auto
  have v: "parse_value k (json_text v @ (if ms = [] then [] else CHR '','' # members_text ms) @ CHR ''}'' # s) =
      Some (v, (if ms = [] then [] else CHR '','' # members_text ms) @ CHR ''}'' # s)"
    using 10 n by (intro "10.IH"(1)) auto
  show ?case
  proof (cases "ms = []")
    case False
    then have "parse_members k (members_text ms @ CHR ''}'' # s) = Some (ms, s)"
      using 10 n by (intro "10.IH"(2)) auto
    then show ?thesis using v n False by (simp add: string_text_def parse_string_text)
  qed (use v n in \<open>simp add: string_text_def parse_string_text\<close>)
qed

lemma parse_json_text: "json_ok v \<Longrightarrow> parse_json (json_text v) = Some v"
  using parse_text(1) [of v "length (json_text v)" "[]"] by (simp add: parse_json_def skip_ws_def)

subsubsection \<open>Torn text\<close>

lemma take_drop_skip: "take 1 (skip_ws r) = [c] \<Longrightarrow> skip_ws (r @ t) = skip_ws r @ t"
  by (rule skip_ws_append) auto

lemma after_comma_extend:
  assumes "after_comma stop s acc more = Some (xs, r)"
    and "\<And>q ys. more q = Some (ys, r) \<Longrightarrow> more' (q @ t) = Some (ys, r @ t)"
  shows "after_comma stop (s @ t) acc more' = Some (xs, r @ t) \<and> s \<noteq> []"
proof -
  from assms(1) obtain c q where s: "skip_ws s = c # q" by (auto simp: after_comma_def split: list.splits)
  then have "skip_ws (s @ t) = c # q @ t" "s \<noteq> []" using skip_ws_append [of s t] by (auto simp: skip_ws_def)
  with assms s show ?thesis by (auto simp: after_comma_def split: if_splits)
qed

lemma take_append_literal: "take k s = l \<Longrightarrow> length l = k \<Longrightarrow> take k (s @ t) = l \<and> drop k (s @ t) = drop k s @ t"
  by auto

lemma parse_literal_extend:
  assumes "parse_literal s = Some (v, r)" and "r \<noteq> [] \<or> (\<forall>x. v \<noteq> JsonNumber x)"
  shows "parse_literal (s @ t) = Some (v, r @ t)"
proof (cases "take 4 s = ''null'' \<or> take 4 s = ''true'' \<or> take 5 s = ''false''")
  case True
  then show ?thesis
    using assms(1) take_append_literal [of 4 s "''null''" t] take_append_literal [of 4 s "''true''" t]
      take_append_literal [of 5 s "''false''" t]
    by (auto simp: parse_literal_def)
next
  case False
  then have n: "valid_number (takeWhile number_char s)" "v = JsonNumber (takeWhile number_char s)"
    "r = dropWhile number_char s"
    using assms(1) by (auto simp: parse_literal_def Let_def split: if_splits)
  obtain c cs where s: "s = c # cs" "number_char c"
    using valid_number_nonempty [OF n(1)] valid_number_chars [OF n(1)] by (cases s) (auto split: if_splits)
  have "takeWhile number_char (s @ t) = takeWhile number_char s" "dropWhile number_char (s @ t) = r @ t"
    using n assms(2) by (auto simp: takeWhile_append dropWhile_append dropWhile_eq_Nil_conv)
  then show ?thesis using n s number_char_plain [OF s(2)] by (simp add: parse_literal_def)
qed

lemma parse_nonempty:
  "parse_value n s = Some x \<Longrightarrow> skip_ws s \<noteq> []"
  "parse_elems n s = Some y \<Longrightarrow> skip_ws s \<noteq> []"
  "parse_members n s = Some z \<Longrightarrow> skip_ws s \<noteq> []"
proof -
  have v: "skip_ws s \<noteq> []" if "parse_value n s = Some x" for n x
    using that by (cases n) (auto split: list.splits)
  then show "parse_value n s = Some x \<Longrightarrow> skip_ws s \<noteq> []" .
  show "parse_elems n s = Some y \<Longrightarrow> skip_ws s \<noteq> []"
    using v by (cases n) (auto split: option.splits)
  show "parse_members n s = Some z \<Longrightarrow> skip_ws s \<noteq> []" by (cases n) (auto split: list.splits)
qed

lemma take_skip_extend: "skip_ws s \<noteq> [] \<Longrightarrow> take 1 (skip_ws (s @ t)) = take 1 (skip_ws s)"
  by (cases "skip_ws s") (auto simp: skip_ws_append)

lemma parse_extend:
  "\<And>m v r. parse_value n s = Some (v, r) \<Longrightarrow> n \<le> m \<Longrightarrow> r \<noteq> [] \<or> (\<forall>x. v \<noteq> JsonNumber x) \<Longrightarrow>
     parse_value m (s @ t) = Some (v, r @ t)"
  "\<And>m vs r. parse_elems n s = Some (vs, r) \<Longrightarrow> n \<le> m \<Longrightarrow> parse_elems m (s @ t) = Some (vs, r @ t)"
  "\<And>m ms r. parse_members n s = Some (ms, r) \<Longrightarrow> n \<le> m \<Longrightarrow> parse_members m (s @ t) = Some (ms, r @ t)"
proof (induction n s and n s and n s rule: parse_value_parse_elems_parse_members.induct)
  case (2 n s m v r)
  obtain k where m: "m = Suc k" "n \<le> k" using 2 by (cases m) auto
  obtain c q where s: "skip_ws s = c # q" using 2 by (auto split: list.splits)
  then have st: "skip_ws (s @ t) = c # q @ t" using skip_ws_append [of s t] by simp
  consider (q) "c = quote" | (a) "c \<noteq> quote" "c = CHR ''[''" | (b) "c \<noteq> quote" "c \<noteq> CHR ''[''" "c = CHR ''{''"
    | (l) "c \<noteq> quote" "c \<noteq> CHR ''[''" "c \<noteq> CHR ''{''" by blast
  then show ?case
  proof cases
    case q
    then show ?thesis using "2.prems" s st m parse_string_extend by auto
  next
    case a
    show ?thesis
    proof (cases "take 1 (skip_ws q) = '']''")
      case True
      then show ?thesis using "2.prems" s st m a take_drop_skip [OF True, of t] by (cases "skip_ws q") auto
    next
      case False
      then obtain vs where vs: "parse_elems n q = Some (vs, r)" "v = JsonArray vs" using "2.prems" s a by auto
      then show ?thesis
        using "2.IH"(1) [OF s a False vs(1) m(2)] False take_skip_extend [OF parse_nonempty(2) [OF vs(1)], of t] st m a
        by simp
    qed
  next
    case b
    show ?thesis
    proof (cases "take 1 (skip_ws q) = ''}''")
      case True
      then show ?thesis using "2.prems" s st m b take_drop_skip [OF True, of t] by (cases "skip_ws q") auto
    next
      case False
      then obtain ms where ms: "parse_members n q = Some (ms, r)" "v = JsonObject (object_of [] ms)"
        using "2.prems" s b by auto
      then show ?thesis
        using "2.IH"(2) [OF s b False ms(1) m(2)] False take_skip_extend [OF parse_nonempty(3) [OF ms(1)], of t] st m b
        by simp
    qed
  next
    case l
    then show ?thesis using "2.prems" s st m parse_literal_extend [of "c # q" v r t] by simp
  qed
next
  case (4 n s m vs r)
  obtain k where m: "m = Suc k" "n \<le> k" using 4 by (cases m) auto
  from "4.prems" obtain v q where v: "parse_value n s = Some (v, q)"
    and r: "after_comma CHR '']'' q [v] (parse_elems n) = Some (vs, r)" by (auto split: option.splits)
  have e: "after_comma CHR '']'' (q @ t) [v] (parse_elems k) = Some (vs, r @ t) \<and> q \<noteq> []"
    using "4.IH"(2) [OF v refl] m by (intro after_comma_extend [OF r]) auto
  then have "parse_value k (s @ t) = Some (v, q @ t)" using "4.IH"(1) [OF v m(2)] by blast
  then show ?case using e m by simp
next
  case (6 n s m ms r)
  obtain k where m: "m = Suc k" "n \<le> k" using 6 by (cases m) auto
  from "6.prems" obtain q i r1 r2 v r3 where s: "skip_ws s = quote # q" and i: "parse_string q = Some (i, r1)"
    and c: "skip_ws r1 = CHR '':'' # r2" and v: "parse_value n r2 = Some (v, r3)"
    and r: "after_comma CHR ''}'' r3 [(i, v)] (parse_members n) = Some (ms, r)"
    by (auto split: list.splits option.splits if_splits)
  have e: "after_comma CHR ''}'' (r3 @ t) [(i, v)] (parse_members k) = Some (ms, r @ t) \<and> r3 \<noteq> []"
    using "6.IH"(2) [OF s _ i refl c _ v refl] m by (intro after_comma_extend [OF r]) auto
  then have "parse_value k (r2 @ t) = Some (v, r3 @ t)" using "6.IH"(1) [OF s _ i refl c _ v m(2)] by blast
  moreover have "skip_ws (s @ t) = quote # q @ t" "skip_ws (r1 @ t) = CHR '':'' # r2 @ t"
    using s c skip_ws_append [of s t] skip_ws_append [of r1 t] by simp_all
  ultimately show ?case using e m parse_string_extend [OF i, of t] by simp
qed simp_all

text \<open>A proper prefix of the text of an object, even of a text that goes on after it, is not JSON.\<close>

lemma torn_object:
  assumes "json_ok (JsonObject ms)" and "json_text (JsonObject ms) = p @ t" and "t \<noteq> []"
  shows "parse_json p = None"
proof (rule ccontr)
  assume "parse_json p \<noteq> None"
  then obtain v r where v: "parse_value (length p) p = Some (v, r)" "skip_ws r = []"
    by (auto simp: parse_json_def split: option.splits if_splits)
  then have "p \<noteq> []" using parse_nonempty(1) [OF v(1)] by (auto simp: skip_ws_def)
  then obtain p' where p: "p = CHR ''{'' # p'" using assms(2) by (cases p) auto
  have "\<forall>x. v \<noteq> JsonNumber x" using v(1) p by (auto split: if_splits)
  then have "parse_value (length (p @ t)) (p @ t) = Some (v, r @ t)"
    using v(1) by (intro parse_extend(1)) auto
  moreover have "parse_value (length (p @ t)) (p @ t) = Some (JsonObject ms, [])"
    using parse_text(1) [OF assms(1), of "length (p @ t)" "[]"] unfolding assms(2) by simp
  ultimately show False using assms(3) by simp
qed

subsubsection \<open>Written text is one line\<close>

definition newline :: char where "newline = char_of (10 :: nat)"

lemma newline_simps [simp]:
  "newline \<noteq> quote" "newline \<noteq> backslash" "newline \<noteq> CHR ''u''" "newline \<noteq> CHR ''0''" "newline \<noteq> CHR ''[''"
  "newline \<noteq> CHR '']''" "newline \<noteq> CHR ''{''" "newline \<noteq> CHR ''}''" "newline \<noteq> CHR '',''" "newline \<noteq> CHR '':''"
  "newline \<notin> set ''null''" "newline \<notin> set ''true''" "newline \<notin> set ''false''" "\<not> number_char newline"
  by code_simp+

lemma short_escape_letters: "list_all (\<lambda>(c, e). e \<noteq> newline) short_escapes"
  by code_simp

lemma hex_no_newline: "list_all (\<lambda>n. hex_char n \<noteq> newline) [0..<16]"
  by code_simp

lemma escape_no_newline: "newline \<notin> set (escape_char c)"
proof -
  have h: "hex_char n \<noteq> newline" if "n < 16" for n
    using hex_no_newline that by (simp add: list_all_iff)
  have a: "(of_char c :: nat) < 32 \<Longrightarrow> of_char c div 16 < (16 :: nat)" by simp
  have b: "c \<noteq> newline" if "map_of short_escapes c = None"
    using that by (auto simp: short_escapes_def newline_def split: if_splits)
  have d: "e \<noteq> newline" if "map_of short_escapes c = Some e" for e
    using map_of_SomeD [OF that] short_escape_letters by (auto simp: list_all_iff)
  show ?thesis
    using h [of "of_char c div 16"] h [of "of_char c mod 16"] a b d
    by (auto simp: escape_char_def simp del: of_char_of split: option.splits)
qed

lemma string_text_no_newline: "newline \<notin> set (string_text s)"
  using escape_no_newline by (auto simp: string_text_def)

lemma text_no_newline:
  "json_ok v \<Longrightarrow> newline \<notin> set (json_text v)"
  "list_all json_ok vs \<Longrightarrow> newline \<notin> set (elems_text vs)"
  "list_all (\<lambda>(k, v). json_ok v) ms \<Longrightarrow> newline \<notin> set (members_text ms)"
proof (induction v and vs and ms rule: json_text_elems_text_members_text.induct)
  case (1)
  then show ?case using newline_simps(11) by simp
next
  case (2 b)
  then show ?case using newline_simps(12,13) by simp
next
  case (3 t)
  then show ?case using valid_number_chars [of t] newline_simps(14) by (auto simp: list_all_iff)
next
  case (4 s)
  then show ?case using string_text_no_newline by simp
qed (simp_all add: string_text_no_newline)

end
