(* ===== verification/JsonlCodec.thy ===== *)
theory JsonlCodec
  imports Json SessionState
begin

text \<open>
  The lines of a session file, \<^verbatim>\<open>pi/packages/agent/src/harness/session/jsonl/codec.ts\<close>: a header and
  mutations, each one JSON object on a line. A decoder returns the value or the kind of its
  \<^verbatim>\<open>JsonlDecodeError\<close>; an absent property is \<^verbatim>\<open>undefined\<close>. An integer is one that is written without
  fraction and exponent, as \<^verbatim>\<open>JSON.stringify\<close> writes it.

  The decoder casts the properties of an entry and of a record, other than those it checks, to their
  TypeScript type without looking at them. How a payload is laid out as properties is a parameter of
  type \<open>payload_format\<close>; \<open>storable_entry\<close> and \<open>storable_record\<close> are the payloads that JSON can hold, what
  \<^verbatim>\<open>assertJsonSerializable\<close> accepts. The locale \<open>json_payloads\<close> states that a storable payload is read
  back, and \<open>PlainFormat\<close> has an instance. \<open>mutation_round_trip\<close> is the round trip of every
  mutation and \<open>torn_line\<close> the error of every proper prefix of its line.
\<close>

datatype decode_error = SyntaxKind | SchemaKind

type_synonym json_object = "(string \<times> json) list"

record payload_format =
  entry_fields :: "entry_payload \<Rightarrow> json_object"
  entry_view :: "entry_type \<Rightarrow> json_object \<Rightarrow> entry_payload"
  storable_entry :: "entry_payload \<Rightarrow> bool"
  record_fields :: "record_body \<Rightarrow> json_object"
  record_view :: "record_type \<Rightarrow> json_object \<Rightarrow> record_body"
  storable_record :: "record_body \<Rightarrow> bool"

record jsonl_header =
  header_id :: string
  header_createdAt :: int
  header_cwd :: string
  header_parentSessionId :: "string option"
  header_legacyParent :: "string option"
  header_metadata :: "json_object option"

record jsonl_metadata = session_metadata +
  meta_cwd :: string
  meta_path :: string
  modifiedAt :: int
  meta_legacyParent :: "string option"
  meta_metadata :: "json_object option"

subsection \<open>Fields\<close>

definition parseObject :: "string \<Rightarrow> decode_error + json_object" where
  "parseObject line = (case parse_json line of None \<Rightarrow> Inl SyntaxKind
     | Some (JsonObject ms) \<Rightarrow> Inr ms | Some _ \<Rightarrow> Inl SchemaKind)"

definition requireString :: "json option \<Rightarrow> decode_error + string" where
  "requireString v = (case v of Some (JsonString s) \<Rightarrow> Inr s | _ \<Rightarrow> Inl SchemaKind)"

definition safe_integer :: "json option \<Rightarrow> int option" where
  "safe_integer v = (case Option.bind v int_of_json of None \<Rightarrow> None
     | Some i \<Rightarrow> if is_safe_integer i then Some i else None)"

definition requireSequence :: "json option \<Rightarrow> decode_error + int" where
  "requireSequence v = (case safe_integer v of None \<Rightarrow> Inl SchemaKind
     | Some i \<Rightarrow> if i \<le> 0 then Inl SchemaKind else Inr i)"

definition requireTimestamp :: "json option \<Rightarrow> decode_error + int" where
  "requireTimestamp v = (case safe_integer v of None \<Rightarrow> Inl SchemaKind
     | Some i \<Rightarrow> if i < 0 then Inl SchemaKind else Inr i)"

definition requireNullableId :: "json option \<Rightarrow> decode_error + string option" where
  "requireNullableId v = (case v of Some JsonNull \<Rightarrow> Inr None | Some (JsonString s) \<Rightarrow> Inr (Some s)
     | _ \<Rightarrow> Inl SchemaKind)"

text \<open>A property that may be absent.\<close>

definition optionalString :: "json option \<Rightarrow> decode_error + string option" where
  "optionalString v = (case v of None \<Rightarrow> Inr None | Some (JsonString s) \<Rightarrow> Inr (Some s) | _ \<Rightarrow> Inl SchemaKind)"

definition optionalObject :: "json option \<Rightarrow> decode_error + json_object option" where
  "optionalObject v = (case v of None \<Rightarrow> Inr None | Some (JsonObject ms) \<Rightarrow> Inr (Some ms) | _ \<Rightarrow> Inl SchemaKind)"

definition opt_field :: "string \<Rightarrow> ('a \<Rightarrow> json) \<Rightarrow> 'a option \<Rightarrow> json_object" where
  "opt_field k f v = (case v of None \<Rightarrow> [] | Some x \<Rightarrow> [(k, f x)])"

definition nullable_id :: "string option \<Rightarrow> json" where
  "nullable_id v = (case v of None \<Rightarrow> JsonNull | Some s \<Rightarrow> JsonString s)"

subsection \<open>The header\<close>

definition decodeHeader :: "string \<Rightarrow> decode_error + jsonl_header" where
  "decodeHeader line =
     andThen (parseObject line) (\<lambda>value.
     if map_of value ''kind'' \<noteq> Some (JsonString ''header'') then Inl SchemaKind
     else if Option.bind (map_of value ''version'') int_of_json \<noteq> Some 4 then Inl SchemaKind
     else
     andThen (optionalString (map_of value ''parentSessionId'')) (\<lambda>parent.
     andThen (optionalString (map_of value ''legacyParentSessionPath'')) (\<lambda>legacy.
     if parent \<noteq> None \<and> legacy \<noteq> None then Inl SchemaKind
     else
     andThen (optionalObject (map_of value ''metadata'')) (\<lambda>meta.
     andThen (requireString (map_of value ''id'')) (\<lambda>i.
     andThen (requireTimestamp (map_of value ''createdAt'')) (\<lambda>created.
     andThen (requireString (map_of value ''cwd'')) (\<lambda>cwd.
     Inr \<lparr>header_id = i, header_createdAt = created, header_cwd = cwd, header_parentSessionId = parent,
       header_legacyParent = legacy, header_metadata = meta\<rparr>)))))))"

definition header_object :: "jsonl_header \<Rightarrow> json_object" where
  "header_object h =
     [(''kind'', JsonString ''header''), (''version'', json_int 4), (''id'', JsonString (header_id h)),
      (''createdAt'', json_int (header_createdAt h)), (''cwd'', JsonString (header_cwd h))] @
     opt_field ''parentSessionId'' JsonString (header_parentSessionId h) @
     opt_field ''legacyParentSessionPath'' JsonString (header_legacyParent h) @
     opt_field ''metadata'' JsonObject (header_metadata h)"

definition encodeHeader :: "jsonl_header \<Rightarrow> string" where
  "encodeHeader h = json_text (JsonObject (header_object h)) @ [newline]"

definition metadataFromHeader :: "jsonl_header \<Rightarrow> string \<Rightarrow> int \<Rightarrow> jsonl_metadata" where
  "metadataFromHeader h path mtime =
     \<lparr>meta_id = header_id h, createdAt = header_createdAt h, parentSessionId = header_parentSessionId h,
      meta_cwd = header_cwd h, meta_path = path, modifiedAt = mtime, meta_legacyParent = header_legacyParent h,
      meta_metadata = header_metadata h\<rparr>"

subsection \<open>Mutations\<close>

definition ENTRY_TYPES :: "(string \<times> entry_type) list" where
  "ENTRY_TYPES = [(''message'', MessageType), (''model_change'', ModelChangeType),
     (''thinking_level_change'', ThinkingLevelChangeType), (''active_tools_change'', ActiveToolsChangeType),
     (''compaction'', CompactionType), (''branch_summary'', BranchSummaryType), (''custom'', CustomType)]"

definition RECORD_TYPES :: "(string \<times> record_type) list" where
  "RECORD_TYPES = [(''operation_started'', OperationStartedType), (''abort_requested'', AbortRequestedType),
     (''operation_finished'', OperationFinishedType), (''step_attempt'', StepAttemptType),
     (''tool_started'', ToolStartedType), (''queue_enqueued'', QueueEnqueuedType),
     (''queue_cancelled'', QueueCancelledType), (''write_deferred'', WriteDeferredType), (''usage'', UsageType)]"

definition OPERATION_KINDS :: "string list" where
  "OPERATION_KINDS = [''run'', ''compaction'', ''navigation'']"

definition name_of :: "(string \<times> 'a) list \<Rightarrow> 'a \<Rightarrow> string" where
  "name_of names t = (case map_of (map (\<lambda>(n, t). (t, n)) names) t of Some n \<Rightarrow> n | None \<Rightarrow> [])"

definition base_keys :: "string list" where
  "base_keys = [''kind'', ''lane'', ''id'', ''type'', ''parentId'', ''seq'', ''timestamp'']"

definition record_keys :: "string list" where
  "record_keys = [''kind'', ''lane'', ''id'', ''type'', ''seq'', ''timestamp'']"

definition without :: "string list \<Rightarrow> json_object \<Rightarrow> json_object" where
  "without ks props = filter (\<lambda>(k, v). k \<notin> set ks) props"

definition parseEntryMutation :: "payload_format \<Rightarrow> json_object \<Rightarrow> int \<Rightarrow> decode_error + session_mutation" where
  "parseEntryMutation fmt value seq =
     andThen (optionalString (map_of value ''lane'')) (\<lambda>lane.
     andThen (requireString (map_of value ''id'')) (\<lambda>i.
     andThen (requireString (map_of value ''type'')) (\<lambda>name.
     case map_of ENTRY_TYPES name of None \<Rightarrow> Inl SchemaKind
     | Some t \<Rightarrow>
     andThen (requireNullableId (map_of value ''parentId'')) (\<lambda>parent.
     andThen (requireTimestamp (map_of value ''timestamp'')) (\<lambda>time.
     andThen (if t = CustomType then requireString (map_of value ''customType'') else Inr []) (\<lambda>_.
     Inr (EntryMutation lane \<lparr>entry_id = i, entry_payload = entry_view fmt t (without base_keys value),
       parentId = parent, entry_seq = seq, entry_timestamp = time\<rparr>)))))))"

definition parseRecordMutation :: "payload_format \<Rightarrow> json_object \<Rightarrow> int \<Rightarrow> decode_error + session_mutation" where
  "parseRecordMutation fmt value seq =
     andThen (requireString (map_of value ''id'')) (\<lambda>i.
     andThen (requireString (map_of value ''lane'')) (\<lambda>lane.
     andThen (requireString (map_of value ''type'')) (\<lambda>name.
     case map_of RECORD_TYPES name of None \<Rightarrow> Inl SchemaKind
     | Some t \<Rightarrow>
     andThen (requireTimestamp (map_of value ''timestamp'')) (\<lambda>time.
     andThen (if t = OperationStartedType
       then (case map_of value ''intent'' of
           Some (JsonObject intent) \<Rightarrow> andThen (requireString (map_of intent ''kind'')) (\<lambda>k.
             if k \<in> set OPERATION_KINDS then Inr () else Inl SchemaKind)
         | _ \<Rightarrow> Inl SchemaKind)
       else Inr ()) (\<lambda>_.
     andThen (if t = OperationFinishedType then requireString (map_of value ''runId'') else Inr []) (\<lambda>_.
     Inr (RecordMutation \<lparr>record_id = i, record_lane = lane,
       record_content = record_view fmt t (without record_keys value), record_seq = seq,
       record_timestamp = time\<rparr>)))))))"

definition parseLaneMutation :: "json_object \<Rightarrow> int \<Rightarrow> decode_error + session_mutation" where
  "parseLaneMutation value seq =
     andThen (requireString (map_of value ''lane'')) (\<lambda>lane.
     andThen (requireNullableId (map_of value ''leafId'')) (\<lambda>leaf. Inr (LaneMutation seq lane leaf)))"

definition parseFactMutation :: "json_object \<Rightarrow> int \<Rightarrow> decode_error + session_mutation" where
  "parseFactMutation value seq =
     (if map_of value ''fact'' = Some (JsonString ''name'')
      then andThen (optionalString (map_of value ''name'')) (\<lambda>n. Inr (NameMutation seq n))
      else if map_of value ''fact'' = Some (JsonString ''label'')
      then andThen (optionalString (map_of value ''label'')) (\<lambda>l.
           andThen (requireString (map_of value ''targetId'')) (\<lambda>i. Inr (LabelMutation seq i l)))
      else Inl SchemaKind)"

definition parseMutation :: "payload_format \<Rightarrow> string \<Rightarrow> decode_error + session_mutation" where
  "parseMutation fmt line =
     andThen (parseObject line) (\<lambda>value.
     andThen (requireSequence (map_of value ''seq'')) (\<lambda>seq.
       if map_of value ''kind'' = Some (JsonString ''entry'') then parseEntryMutation fmt value seq
       else if map_of value ''kind'' = Some (JsonString ''record'') then parseRecordMutation fmt value seq
       else if map_of value ''kind'' = Some (JsonString ''lane'') then parseLaneMutation value seq
       else if map_of value ''kind'' = Some (JsonString ''fact'') then parseFactMutation value seq
       else Inl SchemaKind))"

text \<open>The object that \<^verbatim>\<open>JSON.stringify\<close> is given; it leaves out the properties that are \<^verbatim>\<open>undefined\<close>.\<close>

fun mutation_object :: "payload_format \<Rightarrow> session_mutation \<Rightarrow> json_object" where
  "mutation_object fmt (EntryMutation lane e) =
     [(''kind'', JsonString ''entry'')] @ opt_field ''lane'' JsonString lane @
     [(''type'', JsonString (name_of ENTRY_TYPES (entry_type_of e))), (''id'', JsonString (entry_id e))] @
     entry_fields fmt (entry_payload e) @
     [(''parentId'', nullable_id (parentId e)), (''seq'', json_int (entry_seq e)),
      (''timestamp'', json_int (entry_timestamp e))]"
| "mutation_object fmt (RecordMutation r) =
     [(''kind'', JsonString ''record''), (''type'', JsonString (name_of RECORD_TYPES (body_type (record_content r)))),
      (''id'', JsonString (record_id r)), (''lane'', JsonString (record_lane r))] @
     record_fields fmt (record_content r) @
     [(''seq'', json_int (record_seq r)), (''timestamp'', json_int (record_timestamp r))]"
| "mutation_object fmt (LaneMutation seq lane leaf) =
     [(''kind'', JsonString ''lane''), (''seq'', json_int seq), (''lane'', JsonString lane), (''leafId'', nullable_id leaf)]"
| "mutation_object fmt (NameMutation seq n) =
     [(''kind'', JsonString ''fact''), (''seq'', json_int seq), (''fact'', JsonString ''name'')] @
     opt_field ''name'' JsonString n"
| "mutation_object fmt (LabelMutation seq i l) =
     [(''kind'', JsonString ''fact''), (''seq'', json_int seq), (''fact'', JsonString ''label''),
      (''targetId'', JsonString i)] @ opt_field ''label'' JsonString l"

definition mutation_text :: "payload_format \<Rightarrow> session_mutation \<Rightarrow> string" where
  "mutation_text fmt m = json_text (JsonObject (mutation_object fmt m))"

definition encodeMutation :: "payload_format \<Rightarrow> session_mutation \<Rightarrow> string" where
  "encodeMutation fmt m = mutation_text fmt m @ [newline]"

subsection \<open>What JSON can hold\<close>

definition kind_name :: "operation_kind \<Rightarrow> string" where
  "kind_name k = (case k of RunKind \<Rightarrow> ''run'' | CompactionKind \<Rightarrow> ''compaction'' | NavigationKind \<Rightarrow> ''navigation'')"

definition json_props :: "string list \<Rightarrow> json_object \<Rightarrow> bool" where
  "json_props reserved props \<longleftrightarrow> distinct (map fst props) \<and> list_all (\<lambda>(k, v). json_ok v) props \<and>
     list_all (\<lambda>(k, v). k \<notin> set reserved) props"

locale json_payloads =
  fixes fmt :: payload_format
  assumes entry_read_back: "storable_entry fmt p \<Longrightarrow> entry_view fmt (payload_type p) (entry_fields fmt p) = p"
    and entry_props: "storable_entry fmt p \<Longrightarrow> json_props base_keys (entry_fields fmt p)"
    and custom_type: "storable_entry fmt (CustomPayload t d) \<Longrightarrow>
      map_of (entry_fields fmt (CustomPayload t d)) ''customType'' = Some (JsonString t)"
    and record_read_back: "storable_record fmt b \<Longrightarrow> record_view fmt (body_type b) (record_fields fmt b) = b"
    and record_props: "storable_record fmt b \<Longrightarrow> json_props record_keys (record_fields fmt b)"
    and started_intent: "storable_record fmt (OperationStarted leaf i) \<Longrightarrow>
      \<exists>ms. map_of (record_fields fmt (OperationStarted leaf i)) ''intent'' = Some (JsonObject ms) \<and>
        map_of ms ''kind'' = Some (JsonString (kind_name (intent_kind i)))"
    and finished_run: "storable_record fmt (OperationFinished run out e) \<Longrightarrow>
      map_of (record_fields fmt (OperationFinished run out e)) ''runId'' = Some (JsonString run)"

definition valid_sequence :: "int \<Rightarrow> bool" where
  "valid_sequence n \<longleftrightarrow> 0 < n \<and> n \<le> MAX_SAFE_INTEGER"

definition valid_time :: "int \<Rightarrow> bool" where
  "valid_time n \<longleftrightarrow> 0 \<le> n \<and> n \<le> MAX_SAFE_INTEGER"

fun storable_mutation :: "payload_format \<Rightarrow> session_mutation \<Rightarrow> bool" where
  "storable_mutation fmt (EntryMutation lane e) \<longleftrightarrow>
     storable_entry fmt (entry_payload e) \<and> valid_sequence (entry_seq e) \<and> valid_time (entry_timestamp e)"
| "storable_mutation fmt (RecordMutation r) \<longleftrightarrow>
     storable_record fmt (record_content r) \<and> valid_sequence (record_seq r) \<and> valid_time (record_timestamp r)"
| "storable_mutation fmt m \<longleftrightarrow> valid_sequence (mutation_seq m)"

definition storable_header :: "jsonl_header \<Rightarrow> bool" where
  "storable_header h \<longleftrightarrow> valid_time (header_createdAt h) \<and>
     (header_parentSessionId h = None \<or> header_legacyParent h = None) \<and>
     (case header_metadata h of None \<Rightarrow> True | Some ms \<Rightarrow> json_ok (JsonObject ms))"

subsection \<open>Round trips\<close>

lemma field_simps [simp]:
  "requireString (Some (JsonString s)) = Inr s"
  "requireNullableId (Some (nullable_id v)) = Inr v"
  "optionalString None = Inr None"
  "optionalString (map_option JsonString v) = Inr v"
  "optionalString (Some (JsonString s)) = Inr (Some s)"
  "optionalObject None = Inr None"
  "optionalObject (Some (JsonObject ms)) = Inr (Some ms)"
  by (simp_all add: requireString_def requireNullableId_def nullable_id_def optionalString_def optionalObject_def
      split: option.split)

lemma integer_fields [simp]:
  "valid_sequence n \<Longrightarrow> requireSequence (Some (json_int n)) = Inr n"
  "valid_time n \<Longrightarrow> requireTimestamp (Some (json_int n)) = Inr n"
  by (simp_all add: requireSequence_def requireTimestamp_def safe_integer_def valid_sequence_def valid_time_def
      is_safe_integer_def)

lemma opt_field_simps [simp]: "opt_field k f None = []" "opt_field k f (Some x) = [(k, f x)]"
  by (simp_all add: opt_field_def)

lemma json_ok_fields [simp]: "json_ok (json_int n)" "json_ok (nullable_id v)"
  using json_int_text by (auto simp: json_int_def nullable_id_def split: option.split)

lemma json_propsD:
  assumes "json_props ks props" and "k \<in> set ks"
  shows "map_of props k = None"
  using assms by (fastforce simp: json_props_def list_all_iff map_of_eq_None_iff)

lemma without_append: "without ks (xs @ ys) = without ks xs @ without ks ys"
  by (simp add: without_def)

lemma without_props: "json_props ks props \<Longrightarrow> without ks props = props"
  by (auto simp: without_def json_props_def list_all_iff filter_id_conv)

lemma without_simps [simp]:
  "without ks [] = []" "without ks ((k, v) # xs) = (if k \<in> set ks then without ks xs else (k, v) # without ks xs)"
  by (simp_all add: without_def)

lemma keys_disjoint: "json_props ks props \<Longrightarrow> k \<in> set ks \<Longrightarrow> k \<notin> fst ` set props"
  by (auto simp: json_props_def list_all_iff)

lemma names [simp]:
  "map_of ENTRY_TYPES (name_of ENTRY_TYPES t) = Some t"
  "map_of RECORD_TYPES (name_of RECORD_TYPES u) = Some u"
  by (cases t; simp add: ENTRY_TYPES_def name_of_def) (cases u; simp add: RECORD_TYPES_def name_of_def)

lemma parseObject_text: "json_ok (JsonObject ms) \<Longrightarrow> parseObject (json_text (JsonObject ms)) = Inr ms"
  by (simp only: parseObject_def parse_json_text option.case json.case)

lemma header_round_trip:
  assumes "storable_header h"
  shows "decodeHeader (json_text (JsonObject (header_object h))) = Inr h"
proof -
  have ok: "json_ok (JsonObject (header_object h))"
    using assms by (auto simp: header_object_def storable_header_def opt_field_def split: option.splits)
  have int4: "int_of_json (json_int 4) = Some 4" by simp
  show ?thesis
    unfolding decodeHeader_def parseObject_text [OF ok] andThen_simps
    using assms by (cases "header_parentSessionId h"; cases "header_legacyParent h"; cases "header_metadata h")
      (simp_all add: header_object_def storable_header_def)
qed

context json_payloads
begin

lemma mutation_json:
  assumes "storable_mutation fmt m"
  shows "json_ok (JsonObject (mutation_object fmt m))"
proof (cases m)
  case (EntryMutation lane e)
  then have p: "json_props base_keys (entry_fields fmt (entry_payload e))" using assms entry_props by simp
  then show ?thesis using EntryMutation keys_disjoint [OF p]
    by (cases lane) (auto simp: json_props_def base_keys_def)
next
  case (RecordMutation r)
  then have p: "json_props record_keys (record_fields fmt (record_content r))" using assms record_props by simp
  then show ?thesis using RecordMutation keys_disjoint [OF p]
    by (auto simp: json_props_def record_keys_def)
next
  case (NameMutation s n)
  then show ?thesis by (cases n) simp_all
next
  case (LabelMutation s i l)
  then show ?thesis by (cases l) simp_all
qed simp

lemma entry_back:
  assumes "storable_mutation fmt (EntryMutation lane e)"
  shows "parseEntryMutation fmt (mutation_object fmt (EntryMutation lane e)) (entry_seq e) = Inr (EntryMutation lane e)"
proof -
  define obj where "obj = mutation_object fmt (EntryMutation lane e)"
  have p: "json_props base_keys (entry_fields fmt (entry_payload e))" using assms entry_props by simp
  have v: "entry_view fmt (entry_type_of e) (entry_fields fmt (entry_payload e)) = entry_payload e"
    using assms entry_read_back by (simp add: entry_type_of_def)
  have w: "without base_keys obj = entry_fields fmt (entry_payload e)"
    unfolding obj_def
    by (cases lane) (simp_all add: without_append without_props [OF p], simp_all add: base_keys_def)
  have none: "map_of (entry_fields fmt (entry_payload e)) k = None" if "k \<in> set base_keys" for k
    using json_propsD [OF p that] .
  have l: "map_of obj ''lane'' = map_option JsonString lane" "map_of obj ''id'' = Some (JsonString (entry_id e))"
    "map_of obj ''type'' = Some (JsonString (name_of ENTRY_TYPES (entry_type_of e)))"
    "map_of obj ''parentId'' = Some (nullable_id (parentId e))"
    "map_of obj ''timestamp'' = Some (json_int (entry_timestamp e))"
    "map_of obj ''customType'' = map_of (entry_fields fmt (entry_payload e)) ''customType''"
    using none [of "''lane''"] none [of "''id''"] none [of "''type''"] none [of "''parentId''"] none [of "''timestamp''"]
    unfolding obj_def by (cases lane; simp add: base_keys_def map_add_def split: option.split)+
  have c: "\<exists>x. requireString (map_of (entry_fields fmt (entry_payload e)) ''customType'') = Inr x"
    if c: "entry_type_of e = CustomType"
  proof -
    obtain t d where "entry_payload e = CustomPayload t d"
      using c by (cases "entry_payload e") (simp_all add: entry_type_of_def)
    then show ?thesis using assms custom_type [of t d] by simp
  qed
  have "valid_time (entry_timestamp e)" using assms by simp
  then show ?thesis
    unfolding obj_def [symmetric] parseEntryMutation_def using v w l c by (cases "entry_type_of e = CustomType") auto
qed

lemma record_back:
  assumes "storable_mutation fmt (RecordMutation r)"
  shows "parseRecordMutation fmt (mutation_object fmt (RecordMutation r)) (record_seq r) = Inr (RecordMutation r)"
proof -
  define obj where "obj = mutation_object fmt (RecordMutation r)"
  define props where "props = record_fields fmt (record_content r)"
  have p: "json_props record_keys props" using assms record_props by (simp add: props_def)
  have v: "record_view fmt (body_type (record_content r)) props = record_content r"
    using assms record_read_back by (simp add: props_def)
  have w: "without record_keys obj = props"
    unfolding obj_def
    by (simp add: without_append without_props [OF p] flip: props_def, simp add: record_keys_def)
  have none: "map_of props k = None" if "k \<in> set record_keys" for k
    using json_propsD [OF p that] .
  have l: "map_of obj ''lane'' = Some (JsonString (record_lane r))" "map_of obj ''id'' = Some (JsonString (record_id r))"
    "map_of obj ''type'' = Some (JsonString (name_of RECORD_TYPES (body_type (record_content r))))"
    "map_of obj ''timestamp'' = Some (json_int (record_timestamp r))"
    "map_of obj ''intent'' = map_of props ''intent''" "map_of obj ''runId'' = map_of props ''runId''"
    using none [of "''timestamp''"]
    unfolding obj_def
    by (simp add: record_keys_def map_add_def flip: props_def split: option.split)+
  have k: "kind_name (intent_kind i) \<in> set OPERATION_KINDS" for i
    by (cases i) (simp_all add: kind_name_def OPERATION_KINDS_def)
  have t: "valid_time (record_timestamp r)" using assms by simp
  consider (s) leaf i where "record_content r = OperationStarted leaf i"
    | (f) run out e where "record_content r = OperationFinished run out e"
    | (x) "body_type (record_content r) \<noteq> OperationStartedType" "body_type (record_content r) \<noteq> OperationFinishedType"
    by (cases "record_content r") simp_all
  then show ?thesis
  proof cases
    case s
    then obtain ms where "map_of props ''intent'' = Some (JsonObject ms)"
      "map_of ms ''kind'' = Some (JsonString (kind_name (intent_kind i)))"
      using assms started_intent [of leaf i] by (auto simp: props_def)
    moreover have "body_type (record_content r) = OperationStartedType" using s by simp
    ultimately show ?thesis
      unfolding obj_def [symmetric] parseRecordMutation_def using v w l k t by simp
  next
    case f
    then have "map_of props ''runId'' = Some (JsonString run)"
      using assms finished_run [of run out e] by (simp add: props_def)
    moreover have "body_type (record_content r) = OperationFinishedType" using f by simp
    ultimately show ?thesis
      unfolding obj_def [symmetric] parseRecordMutation_def using v w l t by simp
  next
    case x
    then show ?thesis unfolding obj_def [symmetric] parseRecordMutation_def using v w l t by simp
  qed
qed

lemma mutation_back:
  assumes "storable_mutation fmt m"
  shows "parseMutation fmt (mutation_text fmt m) = Inr m"
proof -
  have seq: "valid_sequence (mutation_seq m)" using assms by (cases m) simp_all
  have "map_of (mutation_object fmt m) ''seq'' = Some (json_int (mutation_seq m))"
  proof (cases m)
    case (EntryMutation lane e)
    then show ?thesis using assms json_propsD [OF entry_props, of "entry_payload e" "''seq''"]
      by (cases lane) (simp_all add: base_keys_def map_add_def)
  next
    case (RecordMutation r)
    then show ?thesis using assms json_propsD [OF record_props, of "record_content r" "''seq''"]
      by (simp add: record_keys_def map_add_def)
  qed simp_all
  then have *: "parseMutation fmt (mutation_text fmt m) =
      (let value = mutation_object fmt m; seq = mutation_seq m in
       if map_of value ''kind'' = Some (JsonString ''entry'') then parseEntryMutation fmt value seq
       else if map_of value ''kind'' = Some (JsonString ''record'') then parseRecordMutation fmt value seq
       else if map_of value ''kind'' = Some (JsonString ''lane'') then parseLaneMutation value seq
       else if map_of value ''kind'' = Some (JsonString ''fact'') then parseFactMutation value seq
       else Inl SchemaKind)"
    using seq unfolding parseMutation_def mutation_text_def parseObject_text [OF mutation_json [OF assms]]
    by (simp add: Let_def)
  show ?thesis
  proof (cases m)
    case (EntryMutation lane e)
    then show ?thesis using entry_back [of lane e] assms unfolding * by simp
  next
    case (RecordMutation r)
    then show ?thesis using record_back [of r] assms unfolding * by simp
  next
    case (LaneMutation s l leaf)
    then show ?thesis unfolding * by (simp add: parseLaneMutation_def)
  next
    case (NameMutation s n)
    then show ?thesis unfolding * by (cases n) (simp_all add: parseFactMutation_def)
  next
    case (LabelMutation s i l)
    then show ?thesis unfolding * by (cases l) (simp_all add: parseFactMutation_def)
  qed
qed

lemma torn_line:
  assumes "storable_mutation fmt m" and "mutation_text fmt m = p @ t" and "t \<noteq> []"
  shows "parseMutation fmt p = Inl SyntaxKind"
  using torn_object [OF mutation_json [OF assms(1)], of p t] assms(2,3)
  by (simp add: mutation_text_def parseMutation_def parseObject_def)

lemma mutation_text_line: "storable_mutation fmt m \<Longrightarrow> newline \<notin> set (mutation_text fmt m)"
  unfolding mutation_text_def by (rule text_no_newline(1) [OF mutation_json])

end

end
