(* ===== verification/FileSystem.thy ===== *)
theory FileSystem
  imports Effects AgentTypes
begin

text \<open>
  The file system a session is stored in, the operations of the interface \<^verbatim>\<open>FileSystem\<close> of
  \<^verbatim>\<open>pi/packages/agent/src/harness/types.ts\<close> that the session storage calls, with the behaviour the
  interface documents: an operation never rejects, it returns a value or a file error, a rename is
  atomic and replaces its destination, reading a missing file is \<^verbatim>\<open>not_found\<close>.

  What the outside world does is an oracle. Each call is a step; \<open>fs_fault\<close> says whether the call of a
  step works, and if not with which error and, for a write or an append, how many characters reached
  the file before it failed (\<open>None\<close>: the file was not touched). \<open>fs_time\<close> is the clock. An oracle that
  fails at one step and at all later ones without effect is a crash of the process at that step.
\<close>

datatype file_error = FileNotFound | FileFault string

datatype fault = Works | Breaks file_error "nat option"

record file_system =
  fs_files :: "(string, string \<times> int) js_map"             \<comment> \<open>content and modification time\<close>
  fs_step :: nat
  fs_fault :: "nat \<Rightarrow> fault"
  fs_time :: "nat \<Rightarrow> int"

type_synonym 'a file_op = "(file_system, file_error, 'a) eprog"
type_synonym 'a storage_op = "(file_system, session_error, 'a) eprog"

definition fs_call ::
    "(file_system \<Rightarrow> (file_error + 'a) \<times> file_system) \<Rightarrow> (nat \<Rightarrow> file_system \<Rightarrow> file_system) \<Rightarrow> 'a file_op" where
  "fs_call works partly = (\<lambda>s.
     let t = s\<lparr>fs_step := Suc (fs_step s)\<rparr> in
     case fs_fault s (fs_step s) of
       Works \<Rightarrow> works t
     | Breaks e n \<Rightarrow> (Inl e, case n of None \<Rightarrow> t | Some k \<Rightarrow> partly k t))"

definition content_of :: "file_system \<Rightarrow> string \<Rightarrow> string option" where
  "content_of s path = map_option fst (map_of (fs_files s) path)"

definition put_file :: "string \<Rightarrow> string \<Rightarrow> file_system \<Rightarrow> file_system" where
  "put_file path text s = s\<lparr>fs_files := AList.update path (text, fs_time s (fs_step s)) (fs_files s)\<rparr>"

definition readTextFile :: "string \<Rightarrow> string file_op" where
  "readTextFile path = fs_call
     (\<lambda>s. (case content_of s path of None \<Rightarrow> Inl FileNotFound | Some c \<Rightarrow> Inr c, s)) (\<lambda>k s. s)"

definition writeFile :: "string \<Rightarrow> string \<Rightarrow> unit file_op" where
  "writeFile path text = fs_call (\<lambda>s. (Inr (), put_file path text s)) (\<lambda>k s. put_file path (take k text) s)"

definition append_text :: "string \<Rightarrow> string \<Rightarrow> file_system \<Rightarrow> file_system" where
  "append_text path text s =
     put_file path ((case content_of s path of None \<Rightarrow> [] | Some c \<Rightarrow> c) @ text) s"

definition appendFile :: "string \<Rightarrow> string \<Rightarrow> unit file_op" where
  "appendFile path text = fs_call (\<lambda>s. (Inr (), append_text path text s)) (\<lambda>k s. append_text path (take k text) s)"

definition renameFile :: "string \<Rightarrow> string \<Rightarrow> unit file_op" where
  "renameFile source destination = fs_call
     (\<lambda>s. case map_of (fs_files s) source of None \<Rightarrow> (Inl FileNotFound, s)
        | Some f \<Rightarrow> (Inr (), s\<lparr>fs_files := AList.update destination f (AList.delete source (fs_files s))\<rparr>))
     (\<lambda>k s. s)"

definition file_mtime :: "string \<Rightarrow> int file_op" where
  "file_mtime path = fs_call
     (\<lambda>s. (case map_of (fs_files s) path of None \<Rightarrow> Inl FileNotFound | Some f \<Rightarrow> Inr (snd f), s)) (\<lambda>k s. s)"

definition exists_file :: "string \<Rightarrow> bool file_op" where
  "exists_file path = fs_call (\<lambda>s. (Inr (map_of (fs_files s) path \<noteq> None), s)) (\<lambda>k s. s)"

text \<open>\<^verbatim>\<open>remove(path, { force: true })\<close>\<close>

definition remove_file :: "string \<Rightarrow> unit file_op" where
  "remove_file path = fs_call (\<lambda>s. (Inr (), s\<lparr>fs_files := AList.delete path (fs_files s)\<rparr>)) (\<lambda>k s. s)"

text \<open>\<^verbatim>\<open>fileResult\<close> of \<^verbatim>\<open>session/jsonl/errors.ts\<close>: a file error becomes the error of the session.\<close>

definition fileResult :: "'a file_op \<Rightarrow> 'a storage_op" where
  "fileResult m = (\<lambda>s. case m s of
     (Inl e, t) \<Rightarrow> (Inl (if e = FileNotFound then NotFound else StorageFailure), t)
   | (Inr a, t) \<Rightarrow> (Inr a, t))"

text \<open>A \<^verbatim>\<open>try\<close> block whose handler cleans up, ignoring how that ends, and throws the error again.\<close>

definition cleanup_on_error :: "('s, 'e, 'a) eprog \<Rightarrow> ('s, 'f, 'b) eprog \<Rightarrow> ('s, 'e, 'a) eprog" where
  "cleanup_on_error m h = (\<lambda>s. case m s of (Inl e, t) \<Rightarrow> (Inl e, snd (h t)) | (Inr a, t) \<Rightarrow> (Inr a, t))"

definition liftE :: "'e + 'a \<Rightarrow> ('s, 'e, 'a) eprog" where
  "liftE r = (case r of Inl e \<Rightarrow> failA e | Inr a \<Rightarrow> returnA a)"

subsection \<open>What a call can do\<close>

lemma liftE_simps [simp]: "liftE (Inl e) = failA e" "liftE (Inr a) = returnA a"
  by (simp_all add: liftE_def)

lemma content_put [simp]: "content_of (put_file p c s) q = (if q = p then Some c else content_of s q)"
  by (simp add: content_of_def put_file_def map_of_alist_update)

lemma content_step [simp]: "content_of (s\<lparr>fs_step := n\<rparr>) q = content_of s q"
  by (simp add: content_of_def)

lemma content_append [simp]:
  "content_of (append_text p c s) q =
     (if q = p then Some ((case content_of s p of None \<Rightarrow> [] | Some d \<Rightarrow> d) @ c) else content_of s q)"
  by (simp add: append_text_def)

definition outcome_of :: "(file_error + 'a) \<Rightarrow> session_error + 'a" where
  "outcome_of r = (case r of Inl e \<Rightarrow> Inl (if e = FileNotFound then NotFound else StorageFailure) | Inr a \<Rightarrow> Inr a)"

lemma fileResult_eq: "fileResult m s = (case m s of (r, t) \<Rightarrow> (outcome_of r, t))"
  by (simp add: fileResult_def outcome_of_def split: prod.split sum.split)

lemma outcome_simps [simp]:
  "outcome_of r = Inr a \<longleftrightarrow> r = Inr a" "outcome_of (Inr a) = Inr a"
  "outcome_of (Inl FileNotFound) = Inl NotFound"
  by (auto simp: outcome_of_def split: sum.splits)

text \<open>The rest of the world stays as it is: the oracles, and every file but the one addressed.\<close>

definition only_file :: "string set \<Rightarrow> file_system \<Rightarrow> file_system \<Rightarrow> bool" where
  "only_file ps s t \<longleftrightarrow> fs_fault t = fs_fault s \<and> fs_time t = fs_time s \<and>
     (\<forall>q. q \<notin> ps \<longrightarrow> map_of (fs_files t) q = map_of (fs_files s) q)"

lemma only_file_refl [simp]: "only_file ps s s"
  by (simp add: only_file_def)

lemma only_file_trans: "only_file ps s t \<Longrightarrow> only_file ps t u \<Longrightarrow> only_file ps s u"
  by (simp add: only_file_def)

lemma only_file_mono: "only_file ps s t \<Longrightarrow> ps \<subseteq> qs \<Longrightarrow> only_file qs s t"
  by (auto simp: only_file_def)

lemma only_file_content: "only_file ps s t \<Longrightarrow> q \<notin> ps \<Longrightarrow> content_of t q = content_of s q"
  by (simp add: only_file_def content_of_def)

lemmas call_defs = fs_call_def readTextFile_def writeFile_def appendFile_def renameFile_def file_mtime_def
  exists_file_def remove_file_def

lemma call_frames:
  "only_file {} s (snd (readTextFile p s))"
  "only_file {p} s (snd (writeFile p c s))"
  "only_file {p} s (snd (appendFile p c s))"
  "only_file {p, q} s (snd (renameFile p q s))"
  "only_file {} s (snd (file_mtime p s))"
  "only_file {p} s (snd (remove_file p s))"
  by (auto simp: call_defs Let_def only_file_def put_file_def append_text_def map_of_alist_update delete_conv'
      split: fault.split option.split)

lemma readTextFile_result: "readTextFile p s = (Inr c, t) \<Longrightarrow> content_of s p = Some c"
  by (auto simp: call_defs Let_def split: fault.splits option.splits)

lemma writeFile_result: "writeFile p c s = (Inr u, t) \<Longrightarrow> content_of t p = Some c"
  by (auto simp: call_defs Let_def split: fault.splits option.splits)

text \<open>An append leaves the old content and a prefix of the new text, all of it when it succeeds.\<close>

lemma appendFile_result:
  assumes "content_of s p = Some c" and "appendFile p text s = (r, t)"
  shows "\<exists>k. content_of t p = Some (c @ take k text) \<and> (\<forall>u. r = Inr u \<longrightarrow> length text \<le> k)"
proof (cases "fs_fault s (fs_step s)")
  case Works
  then have "content_of t p = Some (c @ take (length text) text)"
    using assms by (auto simp: call_defs Let_def)
  then show ?thesis by blast
next
  case (Breaks e n)
  then have "content_of t p = Some (c @ take (case n of None \<Rightarrow> 0 | Some k \<Rightarrow> k) text)" "r = Inl e"
    using assms by (auto simp: call_defs Let_def split: option.split)
  then show ?thesis by blast
qed

lemma renameFile_result:
  assumes "renameFile p q s = (r, t)" and "p \<noteq> q"
  shows "case r of Inl e \<Rightarrow> content_of t = content_of s
    | Inr u \<Rightarrow> content_of t q = content_of s p \<and> content_of s p \<noteq> None"
proof (cases r)
  case (Inl e)
  then have "map_of (fs_files t) x = map_of (fs_files s) x" for x
    using assms by (auto simp: call_defs Let_def split: fault.splits option.splits)
  then show ?thesis using Inl by (simp add: content_of_def fun_eq_iff)
next
  case (Inr u)
  then show ?thesis using assms
    by (auto simp: call_defs Let_def content_of_def map_of_alist_update split: fault.splits option.splits)
qed

text \<open>A file system on which every call works.\<close>

definition reliable :: "file_system \<Rightarrow> bool" where
  "reliable s \<longleftrightarrow> (\<forall>n. fs_fault s n = Works)"

lemma reliable_frame: "only_file ps s t \<Longrightarrow> reliable t = reliable s"
  by (simp add: only_file_def reliable_def)

lemma reliable_calls:
  assumes "reliable s"
  shows "readTextFile p s = (case content_of s p of None \<Rightarrow> Inl FileNotFound | Some c \<Rightarrow> Inr c, s\<lparr>fs_step := Suc (fs_step s)\<rparr>)"
    and "fst (writeFile p c s) = Inr ()" and "fst (appendFile p c s) = Inr ()"
    and "content_of s p \<noteq> None \<Longrightarrow> fst (renameFile p q s) = Inr ()"
    and "content_of s p \<noteq> None \<Longrightarrow> \<exists>n. fst (file_mtime p s) = Inr n"
  using assms by (auto simp: reliable_def call_defs Let_def content_of_def split: option.split)

end
