(* ===== verification/SessionStorage.thy ===== *)
theory SessionStorage
  imports SessionState
begin

text \<open>
  The in-memory storage and repository of \<^verbatim>\<open>pi/packages/agent/src/harness/session/memory.ts\<close> and
  the \<^verbatim>\<open>Session\<close> facade of \<^verbatim>\<open>session.ts\<close>.

  A method of \<^verbatim>\<open>InMemorySessionStorage\<close> that writes returns the storage it leaves, or its error, after
  which the storage is unchanged; \<^verbatim>\<open>structuredClone\<close> is the identity on values. The clock
  (\<^verbatim>\<open>Date.now()\<close>) and fresh ids (\<^verbatim>\<open>uuidv7()\<close>, an id generator) are arguments. \<open>storage_step\<close> is one
  accepted write and \<open>reachable\<close> the storages a client can produce, forks included. In the facade the
  argument \<open>json_ok\<close> is the outcome of \<^verbatim>\<open>assertJsonSerializable\<close> on the payload.
\<close>

record memory_storage =
  metadata :: session_metadata
  store_state :: session_state

definition new_storage :: "session_metadata \<Rightarrow> memory_storage" where
  "new_storage m = \<lparr>metadata = m, store_state = initial_state\<rparr>"

definition mutate :: "session_mutation \<Rightarrow> memory_storage \<Rightarrow> session_error + memory_storage" where
  "mutate m s = andThen (applyMutation m (store_state s)) (\<lambda>st. Inr (s\<lparr>store_state := st\<rparr>))"

definition fork_storage :: "memory_storage \<Rightarrow> session_metadata \<Rightarrow> fork_options \<Rightarrow> session_error + memory_storage" where
  "fork_storage s m options =
     andThen (createForkMutations (store_state s) options) (\<lambda>ms.
     andThen (apply_all ms (store_state (new_storage m))) (\<lambda>st.
     Inr ((new_storage m)\<lparr>store_state := st\<rparr>)))"

subsection \<open>Writes\<close>

definition createLane :: "string \<Rightarrow> id option \<Rightarrow> memory_storage \<Rightarrow> session_error + memory_storage" where
  "createLane l target s =
     andThen (validateNewLane (store_state s) l) (\<lambda>_.
     andThen (validateTarget (store_state s) target) (\<lambda>_.
     mutate (LaneMutation (nextSequence (store_state s)) l target) s))"

definition moveLane :: "string \<Rightarrow> id option \<Rightarrow> memory_storage \<Rightarrow> session_error + memory_storage" where
  "moveLane l to s =
     andThen (requireLane (store_state s) l) (\<lambda>_.
     andThen (validateTarget (store_state s) to) (\<lambda>_.
     mutate (LaneMutation (nextSequence (store_state s)) l to) s))"

definition appendEntry ::
    "int \<Rightarrow> provisioned_entry \<Rightarrow> string \<Rightarrow> memory_storage \<Rightarrow> session_error + (entry \<times> memory_storage)" where
  "appendEntry now e l s =
     andThen (requireLane (store_state s) l) (\<lambda>parent.
     andThen (validateUnusedId (store_state s) (entry_id e)) (\<lambda>_.
       let new = provisioned_entry.extend e
                   \<lparr>parentId = parent, entry_seq = nextSequence (store_state s), entry_timestamp = now\<rparr>
       in andThen (mutate (EntryMutation (Some l) new) s) (\<lambda>s. Inr (new, s))))"

definition is_operation_started :: "record_body \<Rightarrow> bool" where
  "is_operation_started b \<longleftrightarrow> body_type b = OperationStartedType"

definition appendRecord :: "int \<Rightarrow> new_record \<Rightarrow> memory_storage \<Rightarrow> session_error + (lane_record \<times> memory_storage)" where
  "appendRecord now r s =
     andThen (requireLane (store_state s) (record_lane r)) (\<lambda>_.
     andThen (validateUnusedId (store_state s) (record_id r)) (\<lambda>_.
     andThen (findOpenOperations (store_state s) (record_lane r) (Some 1)) (\<lambda>ops.
       if is_operation_started (record_content r) \<and> ops \<noteq> [] then Inl StorageFailure
       else let new = new_record.extend r \<lparr>record_seq = nextSequence (store_state s), record_timestamp = now\<rparr>
            in andThen (mutate (RecordMutation new) s) (\<lambda>s. Inr (new, s)))))"

definition setName :: "string option \<Rightarrow> memory_storage \<Rightarrow> session_error + memory_storage" where
  "setName n s = mutate (NameMutation (nextSequence (store_state s)) n) s"

definition setLabel :: "id \<Rightarrow> string option \<Rightarrow> memory_storage \<Rightarrow> session_error + memory_storage" where
  "setLabel i l s =
     andThen (validateTarget (store_state s) (Some i)) (\<lambda>_.
     mutate (LabelMutation (nextSequence (store_state s)) i l) s)"

subsection \<open>The repository\<close>

type_synonym memory_repo = "(id, memory_storage) js_map"

definition requireStorage :: "memory_repo \<Rightarrow> id \<Rightarrow> session_error + memory_storage" where
  "requireStorage repo i = (case map_of repo i of None \<Rightarrow> Inl NotFound | Some s \<Rightarrow> Inr s)"

definition create_session ::
    "id \<Rightarrow> int \<Rightarrow> id option \<Rightarrow> id option \<Rightarrow> memory_repo \<Rightarrow> session_error + (memory_storage \<times> memory_repo)" where
  "create_session fresh now chosen parent repo =
     (let i = (case chosen of None \<Rightarrow> fresh | Some i \<Rightarrow> i) in
      if map_of repo i \<noteq> None then Inl AlreadyExists
      else let s = new_storage \<lparr>meta_id = i, createdAt = now, parentSessionId = parent\<rparr>
           in Inr (s, AList.update i s repo))"

definition open_session :: "session_metadata \<Rightarrow> memory_repo \<Rightarrow> session_error + memory_storage" where
  "open_session m repo = requireStorage repo (meta_id m)"

definition list_sessions :: "memory_repo \<Rightarrow> session_metadata list" where
  "list_sessions repo = map (metadata \<circ> snd) repo"

definition delete_session :: "session_metadata \<Rightarrow> memory_repo \<Rightarrow> memory_repo" where
  "delete_session m repo = AList.delete (meta_id m) repo"

definition fork_session :: "id \<Rightarrow> int \<Rightarrow> session_metadata \<Rightarrow> id option \<Rightarrow> id option \<Rightarrow> fork_options \<Rightarrow>
    memory_repo \<Rightarrow> session_error + (memory_storage \<times> memory_repo)" where
  "fork_session fresh now source chosen parent options repo =
     andThen (requireStorage repo (meta_id source)) (\<lambda>src.
       let i = (case chosen of None \<Rightarrow> fresh | Some i \<Rightarrow> i) in
       if map_of repo i \<noteq> None then Inl AlreadyExists
       else andThen (fork_storage src \<lparr>meta_id = i, createdAt = now,
                parentSessionId = Some (case parent of None \<Rightarrow> meta_id source | Some p \<Rightarrow> p)\<rparr> options)
              (\<lambda>s. Inr (s, AList.update i s repo)))"

subsection \<open>The session facade\<close>

definition getLeafIdForLane :: "memory_storage \<Rightarrow> string \<Rightarrow> session_error + id option" where
  "getLeafIdForLane s l =
     (case List.find (\<lambda>p. pointer_lane p = l) (getLanes (store_state s)) of
        None \<Rightarrow> Inl InvalidLane | Some p \<Rightarrow> Inr (pointer_leaf p))"

definition queryEntries :: "memory_storage \<Rightarrow> entry_query \<Rightarrow> int option \<Rightarrow> session_error + entry list" where
  "queryEntries s q resultLimit =
     andThen (assertValidLimit (q_limit q)) (\<lambda>_.
     andThen (assertValidCursor (q_cursor q)) (\<lambda>_.
     findEntries (store_state s) (if resultLimit = q_limit q then q else q\<lparr>q_limit := resultLimit\<rparr>)))"

definition queryBranchEntries ::
    "memory_storage \<Rightarrow> string \<Rightarrow> entry_query \<Rightarrow> branch_bounds \<Rightarrow> id option \<Rightarrow> int option \<Rightarrow> session_error + entry list" where
  "queryBranchEntries s defaultLane q b start resultLimit =
     andThen (assertValidLimit (q_limit q)) (\<lambda>_.
     andThen (assertValidCursor (q_cursor q)) (\<lambda>_.
     andThen (case start of Some i \<Rightarrow> Inr (Some i) | None \<Rightarrow> getLeafIdForLane s defaultLane) (\<lambda>start.
       case start of None \<Rightarrow> Inr []
       | Some i \<Rightarrow> findEntriesOnBranch (store_state s)
           (if resultLimit = q_limit q then q else q\<lparr>q_limit := resultLimit\<rparr>) b i)))"

definition queryRecords :: "memory_storage \<Rightarrow> record_query \<Rightarrow> session_error + lane_record list" where
  "queryRecords s q =
     andThen (assertValidLimit (rq_limit q)) (\<lambda>_.
     andThen (assertValidCursor (rq_afterSeq q)) (\<lambda>_.
       if rq_operationKind q \<noteq> None \<and> rq_type q \<noteq> Some OperationStartedType then Inl InvalidQuery
       else findRecords (store_state s) q))"

definition queryLog :: "memory_storage \<Rightarrow> log_options \<Rightarrow> session_error + log_item list" where
  "queryLog s options =
     andThen (assertValidLimit (log_limit options)) (\<lambda>_.
     andThen (assertValidCursor (log_afterSeq options)) (\<lambda>_. getLog (store_state s) options))"

definition commitEntry ::
    "bool \<Rightarrow> int \<Rightarrow> provisioned_entry \<Rightarrow> string \<Rightarrow> memory_storage \<Rightarrow> session_error + (entry \<times> memory_storage)" where
  "commitEntry json_ok now e l s = (if \<not> json_ok then Inl InvalidPayload else appendEntry now e l s)"

definition commitRecord ::
    "bool \<Rightarrow> int \<Rightarrow> new_record \<Rightarrow> memory_storage \<Rightarrow> session_error + (lane_record \<times> memory_storage)" where
  "commitRecord json_ok now r s = (if \<not> json_ok then Inl InvalidPayload else appendRecord now r s)"

definition appendMessageToLane ::
    "bool \<Rightarrow> int \<Rightarrow> id \<Rightarrow> string \<Rightarrow> agent_message \<Rightarrow> memory_storage \<Rightarrow> session_error + (id \<times> memory_storage)" where
  "appendMessageToLane json_ok now fresh l m s =
     andThen (commitEntry json_ok now \<lparr>entry_id = fresh, entry_payload = MessagePayload m False\<rparr> l s)
       (\<lambda>(e, s). Inr (entry_id e, s))"

definition appendCustomEntryToLane :: "bool \<Rightarrow> int \<Rightarrow> id \<Rightarrow> string \<Rightarrow> string \<Rightarrow> js_value option \<Rightarrow> memory_storage \<Rightarrow>
    session_error + (id \<times> memory_storage)" where
  "appendCustomEntryToLane json_ok now fresh l customType data s =
     andThen (commitEntry json_ok now \<lparr>entry_id = fresh, entry_payload = CustomPayload customType data\<rparr> l s)
       (\<lambda>(e, s). Inr (entry_id e, s))"

subsection \<open>Reachable storages\<close>

inductive storage_step :: "memory_storage \<Rightarrow> memory_storage \<Rightarrow> bool" where
  step_createLane: "createLane l target s = Inr s' \<Longrightarrow> storage_step s s'"
| step_moveLane: "moveLane l to s = Inr s' \<Longrightarrow> storage_step s s'"
| step_appendEntry: "appendEntry now e l s = Inr (new, s') \<Longrightarrow> storage_step s s'"
| step_appendRecord: "appendRecord now r s = Inr (rec, s') \<Longrightarrow> storage_step s s'"
| step_setName: "setName n s = Inr s' \<Longrightarrow> storage_step s s'"
| step_setLabel: "setLabel i l s = Inr s' \<Longrightarrow> storage_step s s'"

inductive reachable :: "memory_storage \<Rightarrow> bool" where
  reachable_new: "reachable (new_storage m)"
| reachable_step: "reachable s \<Longrightarrow> storage_step s s' \<Longrightarrow> reachable s'"
| reachable_fork: "reachable s \<Longrightarrow> fork_storage s m options = Inr s' \<Longrightarrow> reachable s'"

inductive_cases storage_stepE: "storage_step s s'"

definition storage_ok :: "memory_storage \<Rightarrow> bool" where
  "storage_ok s \<longleftrightarrow> state_ok (store_state s) \<and>
     (\<forall>l. length (open_operations_of l (records (store_state s))) \<le> 1)"

lemma mutate_Inr: "mutate m s = Inr s' \<longleftrightarrow>
    (\<exists>st. applyMutation m (store_state s) = Inr st \<and> s' = s\<lparr>store_state := st\<rparr>)"
  by (auto simp: mutate_def andThen_eq_Inr)

lemma applyMutation_records:
  "applyMutation m st = Inr st' \<Longrightarrow>
     records st' = records st @ (case m of RecordMutation r \<Rightarrow> [r] | _ \<Rightarrow> [])"
  by (auto simp: applyMutation_def apply_entry_def apply_record_def split: session_mutation.splits if_splits)

lemma mutate_storage_ok:
  assumes "storage_ok s" and "mutate m s = Inr s'" and "\<And>r. m \<noteq> RecordMutation r"
  shows "storage_ok s'"
proof -
  from assms(2) obtain st where st: "applyMutation m (store_state s) = Inr st" "s' = s\<lparr>store_state := st\<rparr>"
    by (auto simp: mutate_Inr)
  have "records st = records (store_state s)"
    using applyMutation_records [OF st(1)] by (simp add: assms(3) split: session_mutation.splits)
  with assms(1) st applyMutation_ok [OF _ st(1)] show ?thesis by (simp add: storage_ok_def)
qed

lemma findOpenOperations_eq:
  assumes "state_ok st"
  shows "findOpenOperations st l (Some 1) = Inr (take 1 (rev (map snd (open_operations_of l (records st)))))"
  using state_okD(18) [OF assms, rule_format, of l]
  by (auto simp: findOpenOperations_def assertValidLimit_def split: option.splits)

lemma appendRecord_storage_ok:
  assumes "storage_ok s" and "appendRecord now r s = Inr (new, s')"
  shows "storage_ok s'"
proof -
  have ok: "state_ok (store_state s)" using assms(1) by (simp add: storage_ok_def)
  from assms(2) have new: "record_lane new = record_lane r" "record_content new = record_content r"
    and guard: "is_operation_started (record_content r) \<longrightarrow> open_operations_of (record_lane r) (records (store_state s)) = []"
    and m: "mutate (RecordMutation new) s = Inr s'"
    by (auto simp: appendRecord_def andThen_eq_Inr findOpenOperations_eq [OF ok] Let_def new_record.defs
        split: if_splits)
  from m obtain st where st: "applyMutation (RecordMutation new) (store_state s) = Inr st" "s' = s\<lparr>store_state := st\<rparr>"
    by (auto simp: mutate_Inr)
  have recs: "records st = records (store_state s) @ [new]" using applyMutation_records [OF st(1)] by simp
  have "length (open_operations_of l (records st)) \<le> 1" for l
    using assms(1) guard new unfolding recs open_operations_of_snoc storage_ok_def
    by (auto simp: is_operation_started_def AList.delete_eq
        intro: le_trans [OF length_filter_le] split: record_body.splits)
  with applyMutation_ok [OF ok st(1)] show ?thesis by (simp add: storage_ok_def st(2))
qed

lemma storage_step_ok [inv_intros]: "storage_step s s' \<Longrightarrow> storage_ok s \<Longrightarrow> storage_ok s'"
  by (erule storage_stepE)
    (auto simp: createLane_def moveLane_def appendEntry_def setName_def setLabel_def andThen_eq_Inr Let_def
      intro: mutate_storage_ok appendRecord_storage_ok)

lemma initial_storage_ok: "storage_ok (new_storage m)"
  using initial_state_ok
  by (simp add: storage_ok_def new_storage_def) (simp add: initial_state_def open_operations_of_def)

lemma fork_storage_ok:
  assumes "storage_ok s" and "fork_storage s m options = Inr s'"
  shows "storage_ok s'"
proof -
  from assms(2) obtain ms st where ms: "createForkMutations (store_state s) options = Inr ms"
    "apply_all ms initial_state = Inr st" "s' = \<lparr>metadata = m, store_state = st\<rparr>"
    by (auto simp: fork_storage_def andThen_eq_Inr new_storage_def)
  from ms(1) obtain es pointers where src: "fork_source (store_state s) options = Inr (es, pointers)"
    "ms = number_from 1 (fork_writes (store_state s) es pointers)"
    by (auto simp: createForkMutations_def andThen_eq_Inr)
  have "state_ok (store_state s)" using assms(1) by (simp add: storage_ok_def)
  from fork_source_ok [OF this src(1)] replay_fork [of es pointers "store_state s"] ms(2) src(2)
  have "records st = []" by auto
  moreover have "state_ok st" using apply_all_ok [OF initial_state_ok ms(2)] .
  ultimately show ?thesis by (simp add: storage_ok_def ms(3) open_operations_of_def)
qed

lemma reachable_ok: "reachable s \<Longrightarrow> storage_ok s"
  by (induction rule: reachable.induct) (auto intro: initial_storage_ok storage_step_ok fork_storage_ok)

lemma nextSequence_valid: "mutation_seq m = nextSequence st \<Longrightarrow> \<not> mutation_seq m \<noteq> sequence st + 1"
  by (simp add: nextSequence_def)

lemma appendEntry_unfold:
  assumes "state_ok (store_state s)"
  shows "appendEntry now e l s =
    (case map_of (lanes (store_state s)) l of None \<Rightarrow> Inl InvalidLane
     | Some parent \<Rightarrow>
         if entry_id e \<in> usedIds (store_state s) then Inl AlreadyExists
         else let new = provisioned_entry.extend e \<lparr>parentId = parent,
                 entry_seq = nextSequence (store_state s), entry_timestamp = now\<rparr>
              in andThen (apply_entry (Some l) new (store_state s)) (\<lambda>st. Inr (new, s\<lparr>store_state := st\<rparr>)))"
  by (simp add: appendEntry_def requireLane_def validateUnusedId_def mutate_def applyMutation_def Let_def
      nextSequence_def provisioned_entry.defs andThen_assoc split: option.split)

lemma lane_leaf_known:
  assumes "state_ok st" and "map_of (lanes st) l = Some leaf"
  shows "case leaf of None \<Rightarrow> True | Some p \<Rightarrow> getEntry st p \<noteq> None"
  using state_okD(13) [OF assms(1)] map_of_SomeD [OF assms(2)] getEntry_ids [OF assms(1)]
  by (fastforce split: option.split)

lemma appendEntry_Inr:
  assumes "state_ok (store_state s)" and "map_of (lanes (store_state s)) l = Some parent"
    and "entry_id e \<notin> usedIds (store_state s)"
  shows "\<exists>new s'. appendEntry now e l s = Inr (new, s') \<and> provisioned_entry.truncate new = e \<and>
    parentId new = parent \<and> entry_seq new = nextSequence (store_state s) \<and> entry_timestamp new = now \<and>
    entries (store_state s') = entries (store_state s) @ [new] \<and>
    lanes (store_state s') = AList.update l (Some (entry_id e)) (lanes (store_state s)) \<and>
    records (store_state s') = records (store_state s) \<and> metadata s' = metadata s"
proof -
  define new where "new = provisioned_entry.extend e \<lparr>parentId = parent,
    entry_seq = nextSequence (store_state s), entry_timestamp = now\<rparr>"
  have new: "entry_id new = entry_id e" "parentId new = parent" "provisioned_entry.truncate new = e"
    "entry_seq new = nextSequence (store_state s)" "entry_timestamp new = now"
    by (simp_all add: new_def provisioned_entry.defs)
  have "appendEntry now e l s =
      andThen (apply_entry (Some l) new (store_state s)) (\<lambda>st. Inr (new, s\<lparr>store_state := st\<rparr>))"
    using assms(2,3) by (simp add: appendEntry_unfold [OF assms(1)] new_def Let_def)
  then show ?thesis
    using assms(2,3) lane_leaf_known [OF assms(1,2)] new by (simp add: apply_entry_def)
qed

lemma mutate_lane:
  "validateTarget (store_state s) leaf = Inr u \<Longrightarrow>
     mutate (LaneMutation (nextSequence (store_state s)) l leaf) s \<noteq> Inl e"
  by (auto simp: mutate_def applyMutation_def nextSequence_def validateTarget_def split: option.splits if_splits)

lemma validateTarget_Inl: "validateTarget st leaf = Inl e \<Longrightarrow> e = NotFound"
  by (auto simp: validateTarget_def split: option.splits if_splits)

text \<open>The only errors the writes of a consistent storage throw are those of their own validation.\<close>

lemma write_errors:
  assumes "state_ok (store_state s)"
  shows "createLane l t s = Inl e \<Longrightarrow> e \<in> {AlreadyExists, NotFound}"
    and "moveLane l t s = Inl e \<Longrightarrow> e \<in> {InvalidLane, NotFound}"
    and "appendEntry now p l s = Inl e \<Longrightarrow> e \<in> {InvalidLane, AlreadyExists}"
    and "appendRecord now r s = Inl e \<Longrightarrow> e \<in> {InvalidLane, AlreadyExists, StorageFailure}"
    and "setName n s \<noteq> Inl e"
    and "setLabel i x s = Inl e \<Longrightarrow> e = NotFound"
proof -
  show "createLane l t s = Inl e \<Longrightarrow> e \<in> {AlreadyExists, NotFound}"
    by (auto simp: createLane_def andThen_eq_Inl validateNewLane_def mutate_lane dest: validateTarget_Inl split: if_splits)
  show "moveLane l t s = Inl e \<Longrightarrow> e \<in> {InvalidLane, NotFound}"
    by (auto simp: moveLane_def andThen_eq_Inl requireLane_def mutate_lane dest: validateTarget_Inl
        split: option.splits)
  show "appendEntry now p l s = Inl e \<Longrightarrow> e \<in> {InvalidLane, AlreadyExists}"
  proof (cases "map_of (lanes (store_state s)) l")
    case None
    then show "appendEntry now p l s = Inl e \<Longrightarrow> e \<in> {InvalidLane, AlreadyExists}"
      by (simp add: appendEntry_unfold [OF assms])
  next
    case (Some parent)
    then show "appendEntry now p l s = Inl e \<Longrightarrow> e \<in> {InvalidLane, AlreadyExists}"
      using appendEntry_Inr [OF assms Some, of p now]
      by (cases "entry_id p \<in> usedIds (store_state s)") (auto simp: appendEntry_unfold [OF assms])
  qed
  show "appendRecord now r s = Inl e \<Longrightarrow> e \<in> {InvalidLane, AlreadyExists, StorageFailure}"
    by (auto simp: appendRecord_def andThen_eq_Inl requireLane_def validateUnusedId_def mutate_def applyMutation_def
        findOpenOperations_eq [OF assms] nextSequence_def new_record.defs apply_record_def Let_def
        split: option.splits if_splits)
  show "setName n s \<noteq> Inl e"
    by (simp add: setName_def mutate_def applyMutation_def nextSequence_def)
  show "setLabel i x s = Inl e \<Longrightarrow> e = NotFound"
    by (auto simp: setLabel_def andThen_eq_Inl validateTarget_def mutate_def applyMutation_def nextSequence_def
        split: if_splits)
qed

subsection \<open>Properties\<close>

text \<open>
  C9. On every reachable storage, forks included, each lane has at most one open operation: what
  \<^verbatim>\<open>findOpenOperations\<close> reports for a lane never has two elements, so the state the recovery treats
  as corruption is not produced by the storage's own operations.
\<close>

theorem one_open_operation_per_lane:
  assumes "reachable s" and "findOpenOperations (store_state s) l limit = Inr ops"
  shows "length ops \<le> 1"
proof -
  have ok: "state_ok (store_state s)" "length (open_operations_of l (records (store_state s))) \<le> 1"
    using reachable_ok [OF assms(1)] by (simp_all add: storage_ok_def)
  with state_okD(18) [OF ok(1), rule_format, of l] assms(2) show ?thesis
    by (auto simp: findOpenOperations_def andThen_eq_Inr Let_def split: option.splits)
qed

definition sample_start :: "id \<Rightarrow> new_record" where
  "sample_start i = \<lparr>record_id = i, record_lane = ''main'',
     record_content = OperationStarted None (RunIntent [] [] None None)\<rparr>"

definition sample_storage :: memory_storage where
  "sample_storage = new_storage \<lparr>meta_id = ''s'', createdAt = 0, parentSessionId = None\<rparr>"

definition started_storage :: memory_storage where
  "started_storage = (case appendRecord 5 (sample_start ''r1'') sample_storage of Inl e \<Rightarrow> sample_storage | Inr (r, s) \<Rightarrow> s)"

lemma started_storage: "\<exists>r. appendRecord 5 (sample_start ''r1'') sample_storage = Inr (r, started_storage)"
  by (simp add: started_storage_def sample_storage_def new_storage_def appendRecord_def requireLane_def
      validateUnusedId_def findOpenOperations_def assertValidLimit_def initial_state_def sample_start_def
      mutate_def applyMutation_def apply_record_def new_record.defs nextSequence_def Let_def)

lemma reachable_started: "reachable started_storage"
proof -
  have "reachable sample_storage" unfolding sample_storage_def by (rule reachable_new)
  then show ?thesis using started_storage by (blast intro: reachable_step step_appendRecord)
qed

lemma started_operations: "\<exists>r. findOpenOperations (store_state started_storage) ''main'' None = Inr [r]"
  by (simp add: started_storage_def sample_storage_def new_storage_def appendRecord_def requireLane_def
      validateUnusedId_def findOpenOperations_def assertValidLimit_def initial_state_def sample_start_def
      mutate_def applyMutation_def apply_record_def new_record.defs nextSequence_def Let_def
      update_open_operations_def)

theorem one_open_operation_per_lane_witness:
  "\<exists>ops. findOpenOperations (store_state started_storage) ''main'' None = Inr ops \<and> ops \<noteq> [] \<and> length ops \<le> 1"
  using started_operations one_open_operation_per_lane [OF reachable_started] by blast

text \<open>
  C24. Writes validate completely: on a reachable storage no write reaches the internal
  \<^verbatim>\<open>invalid_entry\<close> error of \<^verbatim>\<open>applyMutation\<close>; each write throws only the errors of its own
  validation, and \<^verbatim>\<open>setName\<close> throws none.
\<close>

theorem writes_never_invalid:
  assumes "reachable s"
  shows "createLane l t s \<noteq> Inl InvalidEntry \<and> moveLane l t s \<noteq> Inl InvalidEntry \<and>
    appendEntry now p l s \<noteq> Inl InvalidEntry \<and> appendRecord now r s \<noteq> Inl InvalidEntry \<and>
    setLabel i x s \<noteq> Inl InvalidEntry \<and> (\<exists>s'. setName n s = Inr s')"
proof -
  have "state_ok (store_state s)" using reachable_ok [OF assms] by (simp add: storage_ok_def)
  note errs = write_errors [OF this]
  show ?thesis
    using errs(1) [of l t InvalidEntry] errs(2) [of l t InvalidEntry] errs(3) [of now p l InvalidEntry]
      errs(4) [of now r InvalidEntry] errs(5) [of n] errs(6) [of i x InvalidEntry]
    by (cases "setName n s") auto
qed

theorem writes_never_invalid_witness: "\<exists>s'. setName (Some ''n'') started_storage = Inr s'"
  using writes_never_invalid [OF reachable_started] by blast

text \<open>
  Appending an entry: on a reachable storage, an existing lane and an unused id, the entry is
  stored with the lane's previous leaf as parent and the next sequence number, the lane moves to it,
  no other lane moves, and \<^verbatim>\<open>getEntry\<close> returns it afterwards.
\<close>

theorem appendEntry_extends_lane:
  assumes "reachable s" and "map_of (lanes (store_state s)) l = Some parent"
    and "entry_id e \<notin> usedIds (store_state s)"
  shows "\<exists>new s'. appendEntry now e l s = Inr (new, s') \<and> provisioned_entry.truncate new = e \<and>
    parentId new = parent \<and> entry_seq new = nextSequence (store_state s) \<and>
    getEntry (store_state s') (entry_id e) = Some new \<and>
    map_of (lanes (store_state s')) = (map_of (lanes (store_state s)))(l \<mapsto> Some (entry_id e)) \<and>
    entries (store_state s') = entries (store_state s) @ [new]"
proof -
  have ok: "storage_ok s" using reachable_ok [OF assms(1)] .
  then have st: "state_ok (store_state s)" by (simp add: storage_ok_def)
  from appendEntry_Inr [OF st assms(2,3), of now] obtain new s' where
    new: "appendEntry now e l s = Inr (new, s')" "provisioned_entry.truncate new = e" "parentId new = parent"
      "entry_seq new = nextSequence (store_state s)" "entries (store_state s') = entries (store_state s) @ [new]"
      "lanes (store_state s') = AList.update l (Some (entry_id e)) (lanes (store_state s))" by blast
  have "state_ok (store_state s')"
    using storage_step_ok [OF step_appendEntry [OF new(1)] ok] by (simp add: storage_ok_def)
  moreover have "entry_id new = entry_id e" using new(2) by (auto simp: provisioned_entry.defs)
  ultimately have "getEntry (store_state s') (entry_id e) = Some new" using getEntry_iff new(5) by auto
  with new show ?thesis by (auto simp: map_of_alist_update)
qed

theorem appendEntry_extends_lane_witness:
  "\<exists>new s'. appendEntry 7 \<lparr>entry_id = ''e1'', entry_payload = ThinkingLevelChange ''high''\<rparr> ''main'' started_storage =
     Inr (new, s') \<and> getEntry (store_state s') ''e1'' = Some new \<and> entry_seq new = 2"
proof -
  have "map_of (lanes (store_state started_storage)) ''main'' = Some None" "''e1'' \<notin> usedIds (store_state started_storage)"
    "nextSequence (store_state started_storage) = 2"
    by (simp_all add: started_storage_def sample_storage_def new_storage_def appendRecord_def requireLane_def
      validateUnusedId_def findOpenOperations_def assertValidLimit_def initial_state_def sample_start_def
      mutate_def applyMutation_def apply_record_def new_record.defs nextSequence_def Let_def)
  with appendEntry_extends_lane [OF reachable_started this(1),
      of "\<lparr>entry_id = ''e1'', entry_payload = ThinkingLevelChange ''high''\<rparr>" 7]
  show ?thesis by auto
qed

end
