(* ===== verification/JsonlStorage.thy ===== *)
theory JsonlStorage
  imports JsonlCodec FileSystem SessionStorage
begin

text \<open>
  The session storage in a file, \<^verbatim>\<open>pi/packages/agent/src/harness/session/jsonl/storage.ts\<close>: the class
  \<^verbatim>\<open>JsonlSessionStorage\<close> is the record \<open>jsonl_storage\<close>; its methods that write are programs on the file
  system that return the storage they leave. A method that fails leaves the storage as it was, for
  \<open>applyMutation\<close> comes last and checks before it changes anything. \<^verbatim>\<open>enqueue\<close> runs the writes one after the
  other, in the order of the calls, whether or not the earlier ones failed: \<open>serve_writes\<close>. The methods
  that read delegate to the session state. The clock is an argument.
\<close>

record jsonl_storage =
  jsonl_meta :: jsonl_metadata
  jsonl_state :: session_state

definition jsonl_path :: "jsonl_storage \<Rightarrow> string" where
  "jsonl_path s = meta_path (jsonl_meta s)"

definition new_jsonl_storage :: "jsonl_metadata \<Rightarrow> jsonl_storage" where
  "new_jsonl_storage m = \<lparr>jsonl_meta = m, jsonl_state = initial_state\<rparr>"

subsection \<open>Publishing a file\<close>

definition publishFileAtomically :: "string \<Rightarrow> (string \<Rightarrow> unit storage_op) \<Rightarrow> unit storage_op" where
  "publishFileAtomically destination populate =
     (let temp = destination @ ''.tmp'' in
      cleanup_on_error
        (thenA (populate temp) (fileResult (renameFile temp destination)))
        (remove_file temp))"

subsection \<open>Opening\<close>

fun split_lines :: "string \<Rightarrow> string list" where
  "split_lines [] = [[]]"
| "split_lines (c # s) = (if c = newline then [] # split_lines s
     else (c # hd (split_lines s)) # tl (split_lines s))"

fun join_lines :: "string list \<Rightarrow> string" where
  "join_lines [] = []"
| "join_lines (l # ls) = l @ (if ls = [] then [] else newline # join_lines ls)"

definition physical_lines :: "string \<Rightarrow> string list" where
  "physical_lines content = (let ls = split_lines content in if last ls = [] then butlast ls else ls)"

text \<open>
  The loop over the lines behind the header: the state, and whether the last line is a torn tail.
\<close>

fun replay_lines :: "payload_format \<Rightarrow> session_state \<Rightarrow> string list \<Rightarrow> session_error + session_state \<times> bool" where
  "replay_lines fmt st [] = Inr (st, False)"
| "replay_lines fmt st (line # rest) =
     (case parseMutation fmt line of
        Inl k \<Rightarrow> if rest = [] \<and> k = SyntaxKind then Inr (st, True) else Inl InvalidEntry
      | Inr m \<Rightarrow> andThen (applyMutation m st) (\<lambda>st. replay_lines fmt st rest))"

definition create_jsonl :: "string \<Rightarrow> jsonl_header \<Rightarrow> jsonl_storage storage_op" where
  "create_jsonl path header =
     thenA (fileResult (writeFile path (encodeHeader header)))
     (bindA (fileResult (file_mtime path)) (\<lambda>mtime.
      returnA (new_jsonl_storage (metadataFromHeader header path mtime))))"

text \<open>
  Drop the torn tail by publishing the lines before it, or complete a last line without its end.
\<close>

definition repair_tail :: "string \<Rightarrow> string \<Rightarrow> string list \<Rightarrow> bool \<Rightarrow> unit storage_op" where
  "repair_tail path content lines torn =
     (if torn
      then publishFileAtomically path (\<lambda>temp.
             fileResult (writeFile temp (join_lines (butlast lines) @ [newline])))
      else if content = [] \<or> last content \<noteq> newline then fileResult (appendFile path [newline])
      else returnA ())"

definition load_jsonl :: "payload_format \<Rightarrow> string \<Rightarrow> jsonl_storage storage_op" where
  "load_jsonl fmt path =
     bindA (fileResult (readTextFile path)) (\<lambda>content.
     let lines = physical_lines content in
     if lines = [] \<or> hd lines = [] then failA InvalidEntry
     else (case decodeHeader (hd lines) of
       Inl e \<Rightarrow> failA InvalidEntry
     | Inr header \<Rightarrow>
         bindA (fileResult (file_mtime path)) (\<lambda>mtime.
         let s = new_jsonl_storage (metadataFromHeader header path mtime) in
         bindA (liftE (replay_lines fmt (jsonl_state s) (tl lines))) (\<lambda>(st, torn).
           thenA (repair_tail path content lines torn) (returnA (s\<lparr>jsonl_state := st\<rparr>))))))"

subsection \<open>Writing\<close>

definition appendMutation :: "payload_format \<Rightarrow> jsonl_storage \<Rightarrow> session_mutation \<Rightarrow> unit storage_op" where
  "appendMutation fmt s m = fileResult (appendFile (jsonl_path s) (encodeMutation fmt m))"

definition commit_mutation :: "payload_format \<Rightarrow> jsonl_storage \<Rightarrow> session_mutation \<Rightarrow> jsonl_storage storage_op" where
  "commit_mutation fmt s m =
     thenA (appendMutation fmt s m)
     (bindA (liftE (applyMutation m (jsonl_state s))) (\<lambda>st. returnA (s\<lparr>jsonl_state := st\<rparr>)))"

definition jsonl_createLane ::
    "payload_format \<Rightarrow> string \<Rightarrow> id option \<Rightarrow> jsonl_storage \<Rightarrow> jsonl_storage storage_op" where
  "jsonl_createLane fmt l target s =
     thenA (liftE (validateNewLane (jsonl_state s) l))
     (thenA (liftE (validateTarget (jsonl_state s) target))
     (commit_mutation fmt s (LaneMutation (nextSequence (jsonl_state s)) l target)))"

definition jsonl_moveLane ::
    "payload_format \<Rightarrow> string \<Rightarrow> id option \<Rightarrow> jsonl_storage \<Rightarrow> jsonl_storage storage_op" where
  "jsonl_moveLane fmt l to s =
     thenA (liftE (requireLane (jsonl_state s) l))
     (thenA (liftE (validateTarget (jsonl_state s) to))
     (commit_mutation fmt s (LaneMutation (nextSequence (jsonl_state s)) l to)))"

definition jsonl_appendEntry ::
    "payload_format \<Rightarrow> int \<Rightarrow> provisioned_entry \<Rightarrow> string \<Rightarrow> jsonl_storage \<Rightarrow> (entry \<times> jsonl_storage) storage_op" where
  "jsonl_appendEntry fmt now e l s =
     bindA (liftE (requireLane (jsonl_state s) l)) (\<lambda>parent.
     thenA (liftE (validateUnusedId (jsonl_state s) (entry_id e)))
     (let new = provisioned_entry.extend e
                  \<lparr>parentId = parent, entry_seq = nextSequence (jsonl_state s), entry_timestamp = now\<rparr>
      in bindA (commit_mutation fmt s (EntryMutation (Some l) new)) (\<lambda>s'. returnA (new, s'))))"

definition jsonl_appendRecord ::
    "payload_format \<Rightarrow> int \<Rightarrow> new_record \<Rightarrow> jsonl_storage \<Rightarrow> (lane_record \<times> jsonl_storage) storage_op" where
  "jsonl_appendRecord fmt now r s =
     thenA (liftE (requireLane (jsonl_state s) (record_lane r)))
     (thenA (liftE (validateUnusedId (jsonl_state s) (record_id r)))
     (bindA (liftE (findOpenOperations (jsonl_state s) (record_lane r) (Some 1))) (\<lambda>ops.
       if is_operation_started (record_content r) \<and> ops \<noteq> [] then failA StorageFailure
       else let new = new_record.extend r \<lparr>record_seq = nextSequence (jsonl_state s), record_timestamp = now\<rparr>
            in bindA (commit_mutation fmt s (RecordMutation new)) (\<lambda>s'. returnA (new, s')))))"

definition jsonl_setName :: "payload_format \<Rightarrow> string option \<Rightarrow> jsonl_storage \<Rightarrow> jsonl_storage storage_op" where
  "jsonl_setName fmt n s = commit_mutation fmt s (NameMutation (nextSequence (jsonl_state s)) n)"

definition jsonl_setLabel ::
    "payload_format \<Rightarrow> id \<Rightarrow> string option \<Rightarrow> jsonl_storage \<Rightarrow> jsonl_storage storage_op" where
  "jsonl_setLabel fmt i l s =
     thenA (liftE (validateTarget (jsonl_state s) (Some i)))
     (commit_mutation fmt s (LabelMutation (nextSequence (jsonl_state s)) i l))"

subsection \<open>Forking\<close>

definition write_fork :: "payload_format \<Rightarrow> jsonl_header \<Rightarrow> session_mutation list \<Rightarrow> string \<Rightarrow> unit storage_op" where
  "write_fork fmt header ms temp =
     bindA (create_jsonl temp header) (\<lambda>target.
     bindA (forEachA ms target (commit_mutation fmt)) (\<lambda>_. returnA ()))"

definition fork_jsonl ::
    "payload_format \<Rightarrow> string \<Rightarrow> jsonl_header \<Rightarrow> fork_options \<Rightarrow> jsonl_storage \<Rightarrow> jsonl_storage storage_op" where
  "fork_jsonl fmt path header options s =
     bindA (liftE (createForkMutations (jsonl_state s) options)) (\<lambda>ms.
     thenA (publishFileAtomically path (write_fork fmt header ms))
     (load_jsonl fmt path))"

subsection \<open>Queued writes\<close>

datatype session_write =
    CreateLane string "id option"
  | MoveLane string "id option"
  | AppendEntry int provisioned_entry string
  | AppendRecord int new_record
  | SetName "string option"
  | SetLabel id "string option"

fun jsonl_write :: "payload_format \<Rightarrow> session_write \<Rightarrow> jsonl_storage \<Rightarrow> jsonl_storage storage_op" where
  "jsonl_write fmt (CreateLane l target) s = jsonl_createLane fmt l target s"
| "jsonl_write fmt (MoveLane l to) s = jsonl_moveLane fmt l to s"
| "jsonl_write fmt (AppendEntry now e l) s = bindA (jsonl_appendEntry fmt now e l s) (\<lambda>(new, s'). returnA s')"
| "jsonl_write fmt (AppendRecord now r) s = bindA (jsonl_appendRecord fmt now r s) (\<lambda>(new, s'). returnA s')"
| "jsonl_write fmt (SetName n) s = jsonl_setName fmt n s"
| "jsonl_write fmt (SetLabel i l) s = jsonl_setLabel fmt i l s"

text \<open>The same write on the storage in memory.\<close>

fun memory_write :: "session_write \<Rightarrow> memory_storage \<Rightarrow> session_error + memory_storage" where
  "memory_write (CreateLane l target) s = createLane l target s"
| "memory_write (MoveLane l to) s = moveLane l to s"
| "memory_write (AppendEntry now e l) s = andThen (appendEntry now e l s) (\<lambda>(new, s'). Inr s')"
| "memory_write (AppendRecord now r) s = andThen (appendRecord now r s) (\<lambda>(new, s'). Inr s')"
| "memory_write (SetName n) s = setName n s"
| "memory_write (SetLabel i l) s = setLabel i l s"

text \<open>The queue: the error of each write, if it failed, and the storage and the file system at the end.\<close>

fun serve_writes :: "payload_format \<Rightarrow> session_write list \<Rightarrow> jsonl_storage \<Rightarrow> file_system \<Rightarrow>
    session_error option list \<times> jsonl_storage \<times> file_system" where
  "serve_writes fmt [] s fs = ([], s, fs)"
| "serve_writes fmt (w # ws) s fs =
     (case jsonl_write fmt w s fs of
        (Inl e, fs') \<Rightarrow> (case serve_writes fmt ws s fs' of (rs, out) \<Rightarrow> (Some e # rs, out))
      | (Inr s', fs') \<Rightarrow> (case serve_writes fmt ws s' fs' of (rs, out) \<Rightarrow> (None # rs, out)))"

fun memory_writes :: "session_write list \<Rightarrow> memory_storage \<Rightarrow> session_error option list \<times> memory_storage" where
  "memory_writes [] s = ([], s)"
| "memory_writes (w # ws) s =
     (case memory_write w s of
        Inl e \<Rightarrow> (case memory_writes ws s of (rs, s') \<Rightarrow> (Some e # rs, s'))
      | Inr s' \<Rightarrow> (case memory_writes ws s' of (rs, s'') \<Rightarrow> (None # rs, s'')))"

definition memory_of :: "jsonl_storage \<Rightarrow> memory_storage" where
  "memory_of s = \<lparr>metadata = session_metadata.truncate (jsonl_meta s), store_state = jsonl_state s\<rparr>"

end
