(* ===== verification/JsonlRecovery.thy ===== *)
theory JsonlRecovery
  imports JsonlStorage
begin

text \<open>
  What a session file guarantees. \<open>plan_write\<close> splits a write into the mutation it decides on and the commit
  of that mutation; the storage in memory and the one in the file decide alike. \<open>stored\<close> relates a storage,
  its file and the mutations in it; \<open>session\<close> is a session that lives through writes, failures and restarts.
  An interrupted append leaves a prefix of one line, and opening the file repairs it (\<open>load_recovers\<close>).
\<close>

subsection \<open>Lines\<close>

definition lines_text :: "string list \<Rightarrow> string" where
  "lines_text ls = concat (map (\<lambda>l. l @ [newline]) ls)"

lemma lines_text_simps [simp]:
  "lines_text [] = []" "lines_text (l # ls) = l @ newline # lines_text ls"
  "lines_text (ls @ ks) = lines_text ls @ lines_text ks"
  by (simp_all add: lines_text_def)

lemma split_lines_nonempty [simp]: "split_lines s \<noteq> []"
  by (cases s) simp_all

lemma split_lines_line: "newline \<notin> set l \<Longrightarrow> split_lines (l @ newline # s) = l # split_lines s"
  by (induction l) auto

lemma split_lines_last: "newline \<notin> set l \<Longrightarrow> split_lines l = [l]"
  by (induction l) auto

lemma split_lines_text:
  "list_all (\<lambda>l. newline \<notin> set l) ls \<Longrightarrow> newline \<notin> set p \<Longrightarrow> split_lines (lines_text ls @ p) = ls @ [p]"
  by (induction ls) (simp_all add: split_lines_line split_lines_last)

lemma physical_lines_text:
  "list_all (\<lambda>l. newline \<notin> set l) ls \<Longrightarrow> newline \<notin> set p \<Longrightarrow>
     physical_lines (lines_text ls @ p) = ls @ (if p = [] then [] else [p])"
  by (simp add: physical_lines_def split_lines_text)

lemma join_lines_text: "ls \<noteq> [] \<Longrightarrow> join_lines ls @ [newline] = lines_text ls"
  by (induction ls) auto

lemma last_lines_text: "ls \<noteq> [] \<Longrightarrow> lines_text ls \<noteq> [] \<and> last (lines_text ls) = newline"
  by (induction ls rule: rev_induct) (auto simp: last_append)

subsection \<open>Deciding and committing\<close>

fun plan_write :: "session_write \<Rightarrow> session_state \<Rightarrow> session_error + session_mutation" where
  "plan_write (CreateLane l target) st =
     andThen (validateNewLane st l) (\<lambda>_. andThen (validateTarget st target) (\<lambda>_.
     Inr (LaneMutation (nextSequence st) l target)))"
| "plan_write (MoveLane l to) st =
     andThen (requireLane st l) (\<lambda>_. andThen (validateTarget st to) (\<lambda>_.
     Inr (LaneMutation (nextSequence st) l to)))"
| "plan_write (AppendEntry now e l) st =
     andThen (requireLane st l) (\<lambda>parent. andThen (validateUnusedId st (entry_id e)) (\<lambda>_.
     Inr (EntryMutation (Some l) (provisioned_entry.extend e
       \<lparr>parentId = parent, entry_seq = nextSequence st, entry_timestamp = now\<rparr>))))"
| "plan_write (AppendRecord now r) st =
     andThen (requireLane st (record_lane r)) (\<lambda>_. andThen (validateUnusedId st (record_id r)) (\<lambda>_.
     andThen (findOpenOperations st (record_lane r) (Some 1)) (\<lambda>ops.
     if is_operation_started (record_content r) \<and> ops \<noteq> [] then Inl StorageFailure
     else Inr (RecordMutation (new_record.extend r \<lparr>record_seq = nextSequence st, record_timestamp = now\<rparr>)))))"
| "plan_write (SetName n) st = Inr (NameMutation (nextSequence st) n)"
| "plan_write (SetLabel i l) st =
     andThen (validateTarget st (Some i)) (\<lambda>_. Inr (LabelMutation (nextSequence st) i l))"

lemma memory_write_plan:
  "memory_write w s = andThen (plan_write w (store_state s)) (\<lambda>m. mutate m s)"
  by (cases w)
    (auto simp: createLane_def moveLane_def appendEntry_def appendRecord_def setName_def setLabel_def
      andThen_assoc Let_def andThen_def split: sum.split)

lemma liftE_run: "bindA (liftE r) k s = (case r of Inl e \<Rightarrow> (Inl e, s) | Inr a \<Rightarrow> k a s)"
  by (cases r) (simp_all add: bindA_cases run_simps)

lemma bind_return: "bindA m returnA = m"
  by (rule ext) (simp add: bindA_cases run_simps split: prod.split sum.split)

lemma jsonl_write_plan:
  "jsonl_write fmt w s fs =
     (case plan_write w (jsonl_state s) of Inl e \<Rightarrow> (Inl e, fs) | Inr m \<Rightarrow> commit_mutation fmt s m fs)"
proof (cases w)
  case (AppendEntry now e l)
  then show ?thesis
    by (simp add: jsonl_appendEntry_def bindA_assoc liftE_run Let_def bind_return andThen_def split: sum.split)
next
  case (AppendRecord now r)
  then show ?thesis
    by (auto simp: jsonl_appendRecord_def bindA_assoc liftE_run Let_def bind_return andThen_def run_simps(2)
        split: sum.split)
qed (simp_all add: jsonl_createLane_def jsonl_moveLane_def jsonl_setName_def jsonl_setLabel_def liftE_run
    andThen_def split: sum.split)

lemma plan_applies:
  assumes "state_ok st" and "plan_write w st = Inr m"
  shows "\<exists>st'. applyMutation m st = Inr st'"
proof (cases w)
  case (AppendEntry now e l)
  with assms show ?thesis using lane_leaf_known [OF assms(1), of l]
    by (auto simp: andThen_eq_Inr requireLane_def validateUnusedId_def applyMutation_def apply_entry_def
        nextSequence_def provisioned_entry.defs split: option.splits if_splits)
next
  case (AppendRecord now r)
  with assms show ?thesis
    by (auto simp: andThen_eq_Inr requireLane_def validateUnusedId_def applyMutation_def apply_record_def
        nextSequence_def new_record.defs split: option.splits if_splits)
qed (insert assms, auto simp: andThen_eq_Inr validateTarget_def applyMutation_def nextSequence_def
    split: option.splits if_splits)

lemma plan_sequence: "plan_write w st = Inr m \<Longrightarrow> mutation_seq m = nextSequence st"
  by (cases w) (auto simp: andThen_eq_Inr provisioned_entry.defs new_record.defs split: if_splits)

text \<open>What a write hands over can be stored: its payload is JSON and its time a valid timestamp.\<close>

fun storable_write :: "payload_format \<Rightarrow> session_write \<Rightarrow> bool" where
  "storable_write fmt (AppendEntry now e l) \<longleftrightarrow> storable_entry fmt (entry_payload e) \<and> valid_time now"
| "storable_write fmt (AppendRecord now r) \<longleftrightarrow> storable_record fmt (record_content r) \<and> valid_time now"
| "storable_write fmt w \<longleftrightarrow> True"

lemma plan_storable:
  assumes "plan_write w st = Inr m" and "storable_write fmt w" and "state_ok st"
    and "nextSequence st \<le> MAX_SAFE_INTEGER"
  shows "storable_mutation fmt m"
proof -
  have "valid_sequence (nextSequence st)"
    using state_okD(1) [OF assms(3)] assms(4) by (simp add: valid_sequence_def nextSequence_def)
  then show ?thesis using assms(1,2)
    by (cases w) (auto simp: andThen_eq_Inr provisioned_entry.defs new_record.defs split: if_splits)
qed

subsection \<open>A storage and its file\<close>

definition session_lines :: "payload_format \<Rightarrow> jsonl_header \<Rightarrow> session_mutation list \<Rightarrow> string list" where
  "session_lines fmt h ms = json_text (JsonObject (header_object h)) # map (mutation_text fmt) ms"

definition session_text :: "payload_format \<Rightarrow> jsonl_header \<Rightarrow> session_mutation list \<Rightarrow> string" where
  "session_text fmt h ms = lines_text (session_lines fmt h ms)"

definition valid_session :: "payload_format \<Rightarrow> jsonl_header \<Rightarrow> session_mutation list \<Rightarrow> bool" where
  "valid_session fmt h ms \<longleftrightarrow> storable_header h \<and> list_all (storable_mutation fmt) ms"

definition stored ::
    "payload_format \<Rightarrow> jsonl_header \<Rightarrow> session_mutation list \<Rightarrow> jsonl_storage \<Rightarrow> file_system \<Rightarrow> bool" where
  "stored fmt h ms s fs \<longleftrightarrow>
     valid_session fmt h ms \<and> apply_all ms initial_state = Inr (jsonl_state s) \<and>
     (\<exists>path mtime. jsonl_meta s = metadataFromHeader h path mtime) \<and>
     content_of fs (jsonl_path s) = Some (session_text fmt h ms)"

lemma session_text_snoc: "session_text fmt h (ms @ [m]) = session_text fmt h ms @ encodeMutation fmt m"
  by (simp add: session_text_def session_lines_def encodeMutation_def)

lemma session_text_header: "session_text fmt h [] = encodeHeader h"
  by (simp add: session_text_def session_lines_def encodeHeader_def)

lemma stored_ok: "stored fmt h ms s fs \<Longrightarrow> state_ok (jsonl_state s)"
  unfolding stored_def using apply_all_ok [OF initial_state_ok] by blast

lemma path_of_metadata [simp]: "meta_path (metadataFromHeader h path mtime) = path"
  by (simp add: metadataFromHeader_def)

lemma apply_all_snoc:
  "apply_all ms st = Inr st1 \<Longrightarrow> apply_all (ms @ [m]) st = applyMutation m st1"
  by (simp add: apply_all_append andThen_def split: sum.split)

lemma create_jsonl_result:
  assumes "create_jsonl path h fs = (r, fs')"
  shows "only_file {path} fs fs' \<and>
    (\<forall>s. r = Inr s \<longrightarrow> content_of fs' path = Some (encodeHeader h) \<and>
      (\<exists>mtime. s = new_jsonl_storage (metadataFromHeader h path mtime)))"
proof -
  obtain r1 t1 where w: "writeFile path (encodeHeader h) fs = (r1, t1)" by fastforce
  obtain r2 t2 where i: "file_mtime path t1 = (r2, t2)" by fastforce
  have f1: "only_file {path} fs t1" using call_frames(2) [of path fs "encodeHeader h"] w by simp
  have f2: "only_file {} t1 t2" using call_frames(5) [of t1 path] i by simp
  have c: "r1 = Inr () \<Longrightarrow> content_of t2 path = Some (encodeHeader h)"
    using writeFile_result [of path "encodeHeader h" fs "()" t1] w only_file_content [OF f2] by simp
  show ?thesis
  proof (cases r1)
    case (Inl e)
    then show ?thesis using assms f1 w by (auto simp: create_jsonl_def fileResult_eq bindA_cases outcome_of_def)
  next
    case (Inr u)
    have "fs' = t2" using assms w i Inr
      by (auto simp: create_jsonl_def fileResult_eq bindA_cases outcome_of_def run_simps split: sum.splits)
    then show ?thesis
      using assms w i Inr c only_file_trans [OF f1 only_file_mono [OF f2]]
      by (auto simp: create_jsonl_def fileResult_eq bindA_cases outcome_of_def run_simps split: sum.splits)
  qed
qed

lemma commit_frame:
  assumes "commit_mutation fmt s m fs = (r, fs')"
  shows "only_file {jsonl_path s} fs fs'" and "r = Inr s' \<Longrightarrow>
    \<exists>st. applyMutation m (jsonl_state s) = Inr st \<and> s' = s\<lparr>jsonl_state := st\<rparr>"
proof -
  obtain r1 t1 where a: "appendFile (jsonl_path s) (encodeMutation fmt m) fs = (r1, t1)" by fastforce
  have "fs' = t1 \<and> (\<forall>s'. r = Inr s' \<longrightarrow> (\<exists>st. applyMutation m (jsonl_state s) = Inr st \<and> s' = s\<lparr>jsonl_state := st\<rparr>))"
    using assms a
    by (auto simp: commit_mutation_def appendMutation_def fileResult_eq bindA_cases outcome_of_def liftE_def run_simps
        split: sum.splits)
  then show "only_file {jsonl_path s} fs fs'" and "r = Inr s' \<Longrightarrow>
      \<exists>st. applyMutation m (jsonl_state s) = Inr st \<and> s' = s\<lparr>jsonl_state := st\<rparr>"
    using call_frames(3) [of "jsonl_path s" fs "encodeMutation fmt m"] a by auto
qed

lemma commit_result:
  assumes "content_of fs (jsonl_path s) = Some c" and "applyMutation m (jsonl_state s) = Inr st"
    and "commit_mutation fmt s m fs = (r, fs')"
  shows "only_file {jsonl_path s} fs fs'"
    and "\<exists>k. content_of fs' (jsonl_path s) = Some (c @ take k (encodeMutation fmt m)) \<and>
      (\<forall>s'. r = Inr s' \<longrightarrow> s' = s\<lparr>jsonl_state := st\<rparr> \<and> length (encodeMutation fmt m) \<le> k)"
proof -
  obtain r1 t1 where a: "appendFile (jsonl_path s) (encodeMutation fmt m) fs = (r1, t1)" by fastforce
  have t: "fs' = t1 \<and> (\<forall>s'. r = Inr s' \<longrightarrow> s' = s\<lparr>jsonl_state := st\<rparr> \<and> r1 = Inr ())"
    using assms(2,3) a
    by (auto simp: commit_mutation_def appendMutation_def fileResult_eq bindA_cases outcome_of_def run_simps
        split: sum.splits)
  then show "only_file {jsonl_path s} fs fs'"
    using call_frames(3) [of "jsonl_path s" fs "encodeMutation fmt m"] a by simp
  show "\<exists>k. content_of fs' (jsonl_path s) = Some (c @ take k (encodeMutation fmt m)) \<and>
      (\<forall>s'. r = Inr s' \<longrightarrow> s' = s\<lparr>jsonl_state := st\<rparr> \<and> length (encodeMutation fmt m) \<le> k)"
    using appendFile_result [OF assms(1) a] t by blast
qed

lemma commit_reliable:
  assumes "reliable fs" and "applyMutation m (jsonl_state s) = Inr st"
  shows "fst (commit_mutation fmt s m fs) = Inr (s\<lparr>jsonl_state := st\<rparr>)"
proof -
  obtain r1 t1 where a: "appendFile (jsonl_path s) (encodeMutation fmt m) fs = (r1, t1)" by fastforce
  then have "r1 = Inr ()" using reliable_calls(3) [OF assms(1), of "jsonl_path s" "encodeMutation fmt m"] by simp
  then show ?thesis using a assms(2)
    by (simp add: commit_mutation_def appendMutation_def fileResult_eq bindA_cases run_simps)
qed

text \<open>Publishing: the destination changes only when everything worked, and nothing else but the staging file does.\<close>

lemma publish_result:
  assumes "publishFileAtomically dest populate fs = (r, fs')"
    and frame: "\<And>s. only_file {dest @ ''.tmp''} s (snd (populate (dest @ ''.tmp'') s))"
  shows "only_file {dest, dest @ ''.tmp''} fs fs'"
    and "r = Inl e \<Longrightarrow> content_of fs' dest = content_of fs dest"
    and "r = Inr u \<Longrightarrow> \<exists>t. populate (dest @ ''.tmp'') fs = (Inr (), t) \<and>
      content_of fs' dest = content_of t (dest @ ''.tmp'')"
proof -
  let ?temp = "dest @ ''.tmp''"
  obtain r1 t1 where p: "populate ?temp fs = (r1, t1)" by fastforce
  obtain r2 t2 where n: "renameFile ?temp dest t1 = (r2, t2)" by fastforce
  have f1: "only_file {?temp} fs t1" using frame [of fs] p by simp
  have f2: "only_file {?temp, dest} t1 t2" using call_frames(4) [of ?temp dest t1] n by simp
  have f3: "only_file {?temp} t (snd (remove_file ?temp t))" for t by (rule call_frames(6))
  have keep: "content_of (snd (remove_file ?temp t)) dest = content_of t dest" for t
    using only_file_content [OF f3, of dest t] by simp
  have d1: "content_of t1 dest = content_of fs dest" using only_file_content [OF f1, of dest] by simp
  have f13: "only_file {dest, ?temp} fs (snd (remove_file ?temp t1))"
    using only_file_trans [OF f1 f3] by (rule only_file_mono) simp
  have f12: "only_file {dest, ?temp} fs t2"
    using only_file_trans [OF only_file_mono [OF f1, of "{?temp, dest}"] f2] by (simp add: insert_commute)
  have f123: "only_file {dest, ?temp} fs (snd (remove_file ?temp t2))"
    using only_file_trans [OF f12 only_file_mono [OF f3, of "{dest, ?temp}"]] by simp
  have rn: "case r2 of Inl e \<Rightarrow> content_of t2 = content_of t1
    | Inr u \<Rightarrow> content_of t2 dest = content_of t1 ?temp \<and> content_of t1 ?temp \<noteq> None"
    using renameFile_result [OF n] by simp
  consider (a) e1 where "r1 = Inl e1" "r = Inl e1" "fs' = snd (remove_file ?temp t1)"
    | (b) e2 where "r1 = Inr ()" "r2 = Inl e2" "fs' = snd (remove_file ?temp t2)" "\<exists>e. r = Inl e"
    | (c) "r1 = Inr ()" "r2 = Inr ()" "r = Inr ()" "fs' = t2"
    using assms(1) p n
    by (cases r1; cases r2)
      (auto simp: publishFileAtomically_def Let_def cleanup_on_error_def bindA_cases fileResult_eq outcome_of_def)
  then show "only_file {dest, ?temp} fs fs'" using f12 f13 f123 by cases simp_all
  show "r = Inl e \<Longrightarrow> content_of fs' dest = content_of fs dest"
    using \<open>only_file {dest, ?temp} fs fs'\<close> assms(1) p n rn keep d1
    by (cases r1; cases r2)
      (auto simp: publishFileAtomically_def Let_def cleanup_on_error_def bindA_cases fileResult_eq outcome_of_def)
  show "r = Inr u \<Longrightarrow> \<exists>t. populate ?temp fs = (Inr (), t) \<and> content_of fs' dest = content_of t ?temp"
    using assms(1) p n rn
    by (cases r1; cases r2)
      (auto simp: publishFileAtomically_def Let_def cleanup_on_error_def bindA_cases fileResult_eq outcome_of_def)
qed

lemma publish_reliable:
  assumes "reliable fs" and "only_file {dest @ ''.tmp''} fs (snd (populate (dest @ ''.tmp'') fs))"
    and "fst (populate (dest @ ''.tmp'') fs) = Inr ()"
    and "content_of (snd (populate (dest @ ''.tmp'') fs)) (dest @ ''.tmp'') \<noteq> None"
  shows "fst (publishFileAtomically dest populate fs) = Inr ()"
proof -
  let ?temp = "dest @ ''.tmp''"
  obtain t1 where p: "populate ?temp fs = (Inr (), t1)" using assms(3) by (cases "populate ?temp fs") auto
  have "reliable t1" using assms(1,2) reliable_frame p by fastforce
  then obtain t2 where "renameFile ?temp dest t1 = (Inr (), t2)"
    using reliable_calls(4) [of t1 ?temp dest] assms(4) p by (cases "renameFile ?temp dest t1") auto
  then show ?thesis using p
    by (simp add: publishFileAtomically_def Let_def cleanup_on_error_def bindA_cases fileResult_eq)
qed

subsection \<open>Opening a file\<close>

lemma header_text_nonempty: "json_text (JsonObject (header_object h)) \<noteq> []"
  by simp

lemma replay_lines_False:
  "replay_lines fmt st ls = Inr (st', False) \<Longrightarrow> replay_lines fmt st (ls @ ks) = replay_lines fmt st' ks"
  by (induction ls arbitrary: st) (auto simp: andThen_def split: sum.splits if_splits)

context json_payloads
begin

lemma replay_lines_text:
  "list_all (storable_mutation fmt) ms \<Longrightarrow> apply_all ms st = Inr st' \<Longrightarrow>
     replay_lines fmt st (map (mutation_text fmt) ms) = Inr (st', False)"
  by (induction ms arbitrary: st) (auto simp: mutation_back andThen_eq_Inr)

lemma session_lines_plain:
  assumes "valid_session fmt h ms"
  shows "list_all (\<lambda>l. newline \<notin> set l) (session_lines fmt h ms)"
proof -
  have "json_ok (JsonObject (header_object h))"
    using assms by (auto simp: valid_session_def header_object_def storable_header_def opt_field_def split: option.splits)
  from text_no_newline(1) [OF this] show ?thesis
    using assms mutation_text_line by (auto simp: session_lines_def valid_session_def list_all_iff)
qed

lemma load_lines_eq:
  assumes "valid_session fmt h ms" and "physical_lines c = session_lines fmt h ms @ ls"
    and "apply_all ms initial_state = Inr st" and "replay_lines fmt st ls = Inr (st', torn)"
    and "readTextFile path fs = (Inr c, t1)"
  shows "load_jsonl fmt path fs = bindA (fileResult (file_mtime path)) (\<lambda>mtime.
    thenA (repair_tail path c (session_lines fmt h ms @ ls) torn)
      (returnA \<lparr>jsonl_meta = metadataFromHeader h path mtime, jsonl_state = st'\<rparr>)) t1"
proof -
  have head: "hd (session_lines fmt h ms @ ks) = json_text (JsonObject (header_object h))"
    "tl (session_lines fmt h ms @ ks) = map (mutation_text fmt) ms @ ks" "session_lines fmt h ms \<noteq> []" for ks
    by (simp_all add: session_lines_def)
  have replay: "replay_lines fmt initial_state (map (mutation_text fmt) ms @ ls) = Inr (st', torn)"
    using replay_lines_False [OF replay_lines_text [of ms initial_state st]] assms(1,3,4) by (simp add: valid_session_def)
  have dec: "decodeHeader (json_text (JsonObject (header_object h))) = Inr h"
    using header_round_trip assms(1) by (simp add: valid_session_def)
  define all where "all = session_lines fmt h ms @ ls"
  have "hd all = json_text (JsonObject (header_object h))" "tl all = map (mutation_text fmt) ms @ ls"
    "all \<noteq> []" unfolding all_def using head by simp_all
  then show ?thesis
    using assms(5) unfolding load_jsonl_def all_def [symmetric]
    by (simp add: fileResult_eq Let_def assms(2) [folded all_def] dec replay new_jsonl_storage_def header_text_nonempty
        del: json_text.simps)
qed

lemma load_eq:
  assumes "valid_session fmt h ms" and "newline \<notin> set p" and "apply_all ms initial_state = Inr st"
    and "replay_lines fmt st (if p = [] then [] else [p]) = Inr (st', torn)"
    and "readTextFile path fs = (Inr (session_text fmt h ms @ p), t1)"
  shows "load_jsonl fmt path fs = bindA (fileResult (file_mtime path)) (\<lambda>mtime.
    thenA (repair_tail path (session_text fmt h ms @ p) (session_lines fmt h ms @ (if p = [] then [] else [p])) torn)
      (returnA \<lparr>jsonl_meta = metadataFromHeader h path mtime, jsonl_state = st'\<rparr>)) t1"
proof (rule load_lines_eq [OF assms(1) _ assms(3,4,5)])
  show "physical_lines (session_text fmt h ms @ p) = session_lines fmt h ms @ (if p = [] then [] else [p])"
    unfolding session_text_def by (rule physical_lines_text [OF session_lines_plain [OF assms(1)] assms(2)])
qed

text \<open>Up to the repair: reading the file and replaying its lines.\<close>

lemma load_start:
  assumes "valid_session fmt h ms" and "content_of fs path = Some (session_text fmt h ms @ p)" and "newline \<notin> set p"
    and "apply_all ms initial_state = Inr st"
    and "replay_lines fmt st (if p = [] then [] else [p]) = Inr (st', torn)"
    and "load_jsonl fmt path fs = (r, fs')"
  obtains e where "r = Inl e" "only_file {} fs fs'"
  | mtime t where "only_file {} fs t"
    "thenA (repair_tail path (session_text fmt h ms @ p) (session_lines fmt h ms @ (if p = [] then [] else [p])) torn)
       (returnA \<lparr>jsonl_meta = metadataFromHeader h path mtime, jsonl_state = st'\<rparr>) t = (r, fs')"
proof -
  obtain r1 t1 where r1: "readTextFile path fs = (r1, t1)" by fastforce
  obtain r2 t2 where r2: "file_mtime path t1 = (r2, t2)" by fastforce
  have f: "only_file {} fs t1" "only_file {} t1 t2"
    using call_frames(1) [of fs path] call_frames(5) [of t1 path] r1 r2 by simp_all
  show thesis
  proof (cases r1)
    case (Inl e)
    then have "\<exists>e. r = Inl e \<and> fs' = t1" using assms(6) r1
      by (auto simp: load_jsonl_def bindA_cases fileResult_eq outcome_of_def)
    then show ?thesis using that(1) f by blast
  next
    case (Inr c)
    then have c: "readTextFile path fs = (Inr (session_text fmt h ms @ p), t1)"
      using readTextFile_result [of path fs c t1] r1 assms(2) by simp
    note run = load_eq [OF assms(1,3,4,5) c]
    show ?thesis
    proof (cases r2)
      case (Inl e)
      then have "\<exists>e. r = Inl e \<and> fs' = t2" using assms(6) run r2
        by (auto simp: bindA_cases fileResult_eq outcome_of_def)
      then show ?thesis using that(1) only_file_trans [OF f] by blast
    next
      case (Inr mtime)
      then have m: "fileResult (file_mtime path) t1 = (Inr mtime, t2)" using r2 by (simp add: fileResult_eq)
      have "bindA (fileResult (file_mtime path)) k t1 = k mtime t2" for k :: "int \<Rightarrow> jsonl_storage storage_op"
        using m by (rule bindA_run(1))
      then show ?thesis using that(2) [OF only_file_trans [OF f], of mtime] assms(6) run by simp
    qed
  qed
qed

lemma load_exact:
  assumes "valid_session fmt h ms" and "content_of fs path = Some (session_text fmt h ms)"
    and "apply_all ms initial_state = Inr st" and "load_jsonl fmt path fs = (r, fs')"
  shows "only_file {} fs fs'"
    and "r = Inr s \<Longrightarrow> \<exists>mtime. s = \<lparr>jsonl_meta = metadataFromHeader h path mtime, jsonl_state = st\<rparr>"
proof -
  have e: "session_text fmt h ms \<noteq> []" "last (session_text fmt h ms) = newline"
    using last_lines_text [of "session_lines fmt h ms"] by (simp_all add: session_text_def session_lines_def)
  have c: "content_of fs path = Some (session_text fmt h ms @ [])" using assms(2) by simp
  have n: "newline \<notin> set []" by simp
  have rp: "replay_lines fmt st (if [] = [] then [] else [[]]) = Inr (st, False)" by simp
  have "only_file {} fs fs' \<and>
      (\<forall>s. r = Inr s \<longrightarrow> (\<exists>mtime. s = \<lparr>jsonl_meta = metadataFromHeader h path mtime, jsonl_state = st\<rparr>))"
    by (rule load_start [OF assms(1) c n assms(3) rp assms(4)]) (auto simp: repair_tail_def e run_simps)
  then show "only_file {} fs fs'"
    "r = Inr s \<Longrightarrow> \<exists>mtime. s = \<lparr>jsonl_meta = metadataFromHeader h path mtime, jsonl_state = st\<rparr>" by blast+
qed

lemma repair_torn:
  assumes "thenA (repair_tail path c (session_lines fmt h ms @ [p]) True) (returnA s) t = (r, fs')"
  shows "only_file {path, path @ ''.tmp''} t fs' \<and>
    (case r of Inl e \<Rightarrow> content_of fs' path = content_of t path
     | Inr s' \<Rightarrow> s' = s \<and> content_of fs' path = Some (session_text fmt h ms))"
proof -
  let ?w = "\<lambda>temp. fileResult (writeFile temp (session_text fmt h ms))"
  have j: "join_lines (session_lines fmt h ms) @ [newline] = session_text fmt h ms"
    using join_lines_text [of "session_lines fmt h ms"] by (simp add: session_lines_def session_text_def)
  obtain r1 t1 where p: "publishFileAtomically path ?w t = (r1, t1)" by fastforce
  have frame: "only_file {q} u (snd (?w q u))" for q u
    using call_frames(2) [of q u "session_text fmt h ms"]
    by (cases "writeFile q (session_text fmt h ms) u") (simp add: fileResult_eq)
  have r: "fs' = t1 \<and> (case r of Inl e \<Rightarrow> r1 = Inl e | Inr s' \<Rightarrow> s' = s \<and> r1 = Inr ())"
    using assms p by (cases r1) (auto simp: repair_tail_def bindA_cases run_simps j)
  have "content_of t1 path = Some (session_text fmt h ms)" if w: "r1 = Inr ()"
  proof -
    obtain u where u: "?w (path @ ''.tmp'') t = (Inr (), u)" "content_of t1 path = content_of u (path @ ''.tmp'')"
      using publish_result(3) [OF p frame w] by blast
    then have "writeFile (path @ ''.tmp'') (session_text fmt h ms) t = (Inr (), u)"
      by (auto simp: fileResult_eq split: prod.splits)
    then show ?thesis using writeFile_result u(2) by metis
  qed
  then show ?thesis
    using r publish_result(1) [OF p frame] publish_result(2) [OF p frame] by (auto split: sum.splits)
qed

lemma repair_unterminated:
  assumes "thenA (repair_tail path c ls False) (returnA s) t = (r, fs')" and "c \<noteq> []" "last c \<noteq> newline"
    and "content_of t path = Some c"
  shows "only_file {path} t fs' \<and> (\<exists>k. content_of fs' path = Some (c @ take k [newline]) \<and>
    (\<forall>s'. r = Inr s' \<longrightarrow> s' = s \<and> 1 \<le> k))"
proof -
  obtain r1 t1 where a: "appendFile path [newline] t = (r1, t1)" by fastforce
  have r: "fs' = t1 \<and> (case r of Inl e \<Rightarrow> \<exists>e. r1 = Inl e | Inr s' \<Rightarrow> s' = s \<and> r1 = Inr ())"
    using assms(1-3) a by (cases r1) (auto simp: repair_tail_def bindA_cases run_simps fileResult_eq outcome_of_def)
  have f: "only_file {path} t t1" using call_frames(3) [of path t "[newline]"] a by simp
  obtain k where "content_of t1 path = Some (c @ take k [newline])" "\<forall>u. r1 = Inr u \<longrightarrow> length [newline] \<le> k"
    using appendFile_result [OF assms(4) a] by blast
  then show ?thesis using r f by (auto split: sum.splits intro!: exI [of _ k])
qed

text \<open>
  The state a file stands for whose last line was interrupted: the line counts once its text is complete.
\<close>

lemma load_recovers:
  assumes v: "valid_session fmt h (ms @ [m])" and st: "apply_all ms initial_state = Inr st"
    and m: "applyMutation m st = Inr st'"
    and c: "content_of fs path = Some (session_text fmt h ms @ take k (encodeMutation fmt m))"
    and load: "load_jsonl fmt path fs = (r, fs')"
  shows "only_file {path, path @ ''.tmp''} fs fs' \<and>
    (case r of
       Inl e \<Rightarrow> \<exists>j. content_of fs' path = Some (session_text fmt h ms @ take j (encodeMutation fmt m)) \<and>
         (length (mutation_text fmt m) \<le> j \<longleftrightarrow> length (mutation_text fmt m) \<le> k)
     | Inr s \<Rightarrow> (\<exists>mtime. s = \<lparr>jsonl_meta = metadataFromHeader h path mtime,
           jsonl_state = (if length (mutation_text fmt m) \<le> k then st' else st)\<rparr>) \<and>
         content_of fs' path =
           Some (session_text fmt h (if length (mutation_text fmt m) \<le> k then ms @ [m] else ms)))"
    (is "?frame \<and> ?result")
proof -
  let ?t = "mutation_text fmt m"
  have v': "valid_session fmt h ms" and sm: "storable_mutation fmt m" using v by (simp_all add: valid_session_def)
  have none: "only_file {path, path @ ''.tmp''} fs fs'" if "only_file {} fs fs'"
    using only_file_mono [OF that] by simp
  have plain: "newline \<notin> set ?t" using mutation_text_line [OF sm] .
  have nonempty: "?t \<noteq> []" by (simp add: mutation_text_def)
  consider (z) "k = 0" | (t) "0 < k" "k < length ?t" | (u) "k = length ?t" | (f) "length ?t < k" by linarith
  then show ?thesis
  proof cases
    case z
    have cz: "content_of fs path = Some (session_text fmt h ms)" using c z by simp
    have f0: "only_file {} fs fs'" by (rule load_exact(1) [OF v' cz st load])
    then have "content_of fs' path = Some (session_text fmt h ms)" using cz only_file_content [OF f0, of path] by simp
    then show ?thesis
      using z none [OF f0] load_exact(2) [OF v' cz st load] nonempty
      by (auto split: sum.split intro!: exI [of _ "0::nat"])
  next
    case f
    then have cf: "content_of fs path = Some (session_text fmt h (ms @ [m]))"
      using c by (simp add: session_text_snoc encodeMutation_def)
    have st2: "apply_all (ms @ [m]) initial_state = Inr st'" using apply_all_snoc [OF st] m by simp
    have f0: "only_file {} fs fs'" by (rule load_exact(1) [OF v cf st2 load])
    then have "content_of fs' path = Some (session_text fmt h (ms @ [m]))"
      using cf only_file_content [OF f0, of path] by simp
    then show ?thesis
      using f none [OF f0] load_exact(2) [OF v cf st2 load]
      by (auto simp: session_text_snoc encodeMutation_def split: sum.split intro!: exI [of _ k])
  next
    case t
    define p where "p = take k ?t"
    have p: "p \<noteq> []" "newline \<notin> set p" "?t = p @ drop k ?t" "drop k ?t \<noteq> []"
      using t nonempty plain by (auto simp: p_def dest: in_set_takeD)
    have cp: "content_of fs path = Some (session_text fmt h ms @ p)"
      using c t by (simp add: p_def encodeMutation_def)
    have "parseMutation fmt p = Inl SyntaxKind" by (rule torn_line [OF sm p(3,4)])
    then have rp: "replay_lines fmt st (if p = [] then [] else [p]) = Inr (st, True)" using p(1) by simp
    show ?thesis
    proof (rule load_start [OF v' cp p(2) st rp load])
      fix e
      assume "r = Inl e" and f0: "only_file {} fs fs'"
      then show ?thesis using c none [OF f0] only_file_content [OF f0, of path] by auto
    next
      fix mtime t'
      assume f0: "only_file {} fs t'" and "thenA (repair_tail path (session_text fmt h ms @ p)
          (session_lines fmt h ms @ (if p = [] then [] else [p])) True)
        (returnA \<lparr>jsonl_meta = metadataFromHeader h path mtime, jsonl_state = st\<rparr>) t' = (r, fs')"
      then have "thenA (repair_tail path (session_text fmt h ms @ p) (session_lines fmt h ms @ [p]) True)
        (returnA \<lparr>jsonl_meta = metadataFromHeader h path mtime, jsonl_state = st\<rparr>) t' = (r, fs')" using p(1) by simp
      from repair_torn [OF this] show ?thesis
        using t c only_file_content [OF f0, of path] only_file_trans [OF only_file_mono [OF f0]]
        by (cases r) auto
    qed
  next
    case u
    have cu: "content_of fs path = Some (session_text fmt h ms @ ?t)" using c u by (simp add: encodeMutation_def)
    have rp: "replay_lines fmt st (if ?t = [] then [] else [?t]) = Inr (st', False)"
      using mutation_back [OF sm] m nonempty by simp
    show ?thesis
    proof (rule load_start [OF v' cu plain st rp load])
      fix e
      assume "r = Inl e" and f0: "only_file {} fs fs'"
      then show ?thesis using c none [OF f0] only_file_content [OF f0, of path] by auto
    next
      fix mtime t'
      assume f0: "only_file {} fs t'" and run: "thenA (repair_tail path (session_text fmt h ms @ ?t)
          (session_lines fmt h ms @ (if ?t = [] then [] else [?t])) False)
        (returnA \<lparr>jsonl_meta = metadataFromHeader h path mtime, jsonl_state = st'\<rparr>) t' = (r, fs')"
      have l: "session_text fmt h ms @ ?t \<noteq> []" "last (session_text fmt h ms @ ?t) \<noteq> newline"
        using nonempty plain last_in_set [OF nonempty] by (auto simp del: last_in_set)
      have ct: "content_of t' path = Some (session_text fmt h ms @ ?t)" using cu only_file_content [OF f0, of path] by simp
      from repair_unterminated [OF run l ct] obtain j where j: "only_file {path} t' fs'"
        "content_of fs' path = Some ((session_text fmt h ms @ ?t) @ take j [newline])"
        "\<And>s'. r = Inr s' \<Longrightarrow> s' = \<lparr>jsonl_meta = metadataFromHeader h path mtime, jsonl_state = st'\<rparr> \<and> 1 \<le> j" by blast
      have fr: "only_file {path, path @ ''.tmp''} fs fs'"
        using only_file_trans [OF only_file_mono [OF f0] only_file_mono [OF j(1)]] by simp
      show ?thesis
      proof (cases r)
        case (Inl e)
        have "content_of fs' path = Some (session_text fmt h ms @ take (length ?t + j) (encodeMutation fmt m))"
          using j(2) by (simp add: encodeMutation_def)
        then show ?thesis using Inl fr u by auto
      next
        case (Inr s)
        then show ?thesis using fr u j(2,3) by (auto simp: session_text_snoc encodeMutation_def)
      qed
    qed
  qed
qed

lemma repair_reliable:
  assumes "reliable t"
  shows "fst (repair_tail path c ls torn t) = Inr ()"
proof (cases torn)
  case True
  let ?w = "\<lambda>temp. fileResult (writeFile temp (join_lines (butlast ls) @ [newline]))"
  obtain u where w: "writeFile (path @ ''.tmp'') (join_lines (butlast ls) @ [newline]) t = (Inr (), u)"
    using reliable_calls(2) [OF assms] by (metis prod.collapse)
  then have "content_of u (path @ ''.tmp'') \<noteq> None" using writeFile_result by fastforce
  then have "fst (publishFileAtomically path ?w t) = Inr ()"
    using w call_frames(2) [of "path @ ''.tmp''" t "join_lines (butlast ls) @ [newline]"]
    by (intro publish_reliable [OF assms]) (simp_all add: fileResult_eq)
  then show ?thesis using True by (simp add: repair_tail_def)
next
  case False
  obtain u where "appendFile path [newline] t = (Inr (), u)"
    using reliable_calls(3) [OF assms] by (metis prod.collapse)
  then show ?thesis using False by (simp add: repair_tail_def run_simps fileResult_eq)
qed

text \<open>On a file system that works, opening succeeds.\<close>

lemma replay_tail_ok:
  assumes "storable_mutation fmt m" and "applyMutation m st = Inr st'" and "k < length (encodeMutation fmt m)"
  shows "\<exists>torn st''. replay_lines fmt st (if take k (mutation_text fmt m) = [] then [] else [take k (mutation_text fmt m)]) =
    Inr (st'', torn)"
proof (cases "take k (mutation_text fmt m) = [] \<or> length (mutation_text fmt m) \<le> k")
  case True
  then show ?thesis using mutation_back [OF assms(1)] assms(2) by auto
next
  case False
  then have "parseMutation fmt (take k (mutation_text fmt m)) = Inl SyntaxKind"
    using torn_line [OF assms(1), of "take k (mutation_text fmt m)" "drop k (mutation_text fmt m)"] by simp
  then show ?thesis using False by auto
qed

lemma load_reliable:
  assumes "valid_session fmt h ms" and "content_of fs path = Some (session_text fmt h ms @ p)" and "newline \<notin> set p"
    and "apply_all ms initial_state = Inr st"
    and "replay_lines fmt st (if p = [] then [] else [p]) = Inr (st', torn)"
    and "reliable fs"
  shows "\<exists>s. fst (load_jsonl fmt path fs) = Inr s"
proof -
  obtain t1 where r1: "readTextFile path fs = (Inr (session_text fmt h ms @ p), t1)"
    using reliable_calls(1) [OF assms(6), of path] assms(2) by simp
  obtain r2 t2 where r2: "file_mtime path t1 = (r2, t2)" by fastforce
  have f: "only_file {} fs t1" "only_file {} t1 t2"
    using call_frames(1) [of fs path] call_frames(5) [of t1 path] r1 r2 by simp_all
  have rel: "reliable t1" "reliable t2" using assms(6) reliable_frame f by blast+
  have "content_of t1 path \<noteq> None" using only_file_content [OF f(1), of path] assms(2) by simp
  then obtain mtime where r2': "r2 = Inr mtime" using reliable_calls(5) [OF rel(1), of path] r2 by auto
  define ls where "ls = session_lines fmt h ms @ (if p = [] then [] else [p])"
  define c where "c = session_text fmt h ms @ p"
  have run: "load_jsonl fmt path fs = thenA (repair_tail path c ls torn)
      (returnA \<lparr>jsonl_meta = metadataFromHeader h path mtime, jsonl_state = st'\<rparr>) t2"
    unfolding ls_def c_def load_eq [OF assms(1,3,4,5) r1]
    by (rule bindA_run(1)) (simp add: fileResult_eq r2 r2')
  have "fst (repair_tail path c ls torn t2) = Inr ()" by (rule repair_reliable [OF rel(2)])
  then show ?thesis unfolding run by (cases "repair_tail path c ls torn t2") (simp add: run_simps)
qed

end

end
