(* ===== verification/JsonlSession.thy ===== *)
theory JsonlSession
  imports JsonlRecovery
begin

text \<open>
  A session in a file over its life: \<open>reopening\<close> is opening the file until it works, \<open>session\<close> the storages and
  file systems that writes, failed writes and restarts lead to. Its histories go on after a write that succeeded,
  after a failed write that left the file as it was, and after any other failed write once the file has been opened
  again. They leave out one thing that the code allows: to go on writing with a storage whose last append failed and
  left something in the file. The file storage refines the storage in memory, and in these histories a restart
  loses nothing that was acknowledged.
\<close>

inductive reopening :: "payload_format \<Rightarrow> string \<Rightarrow> file_system \<Rightarrow> jsonl_storage \<Rightarrow> file_system \<Rightarrow> bool"
  for fmt path where
  opened: "load_jsonl fmt path (fs\<lparr>fs_fault := f\<rparr>) = (Inr s, fs') \<Longrightarrow> reopening fmt path fs s fs'"
| opened_later: "load_jsonl fmt path (fs\<lparr>fs_fault := f\<rparr>) = (Inl e, fs1) \<Longrightarrow> reopening fmt path fs1 s fs' \<Longrightarrow>
    reopening fmt path fs s fs'"

definition writable :: "payload_format \<Rightarrow> session_write \<Rightarrow> jsonl_storage \<Rightarrow> bool" where
  "writable fmt w s \<longleftrightarrow> storable_write fmt w \<and> nextSequence (jsonl_state s) \<le> MAX_SAFE_INTEGER"

inductive session :: "payload_format \<Rightarrow> jsonl_header \<Rightarrow> string \<Rightarrow> jsonl_storage \<Rightarrow> file_system \<Rightarrow> bool"
  for fmt h path where
  session_created: "storable_header h \<Longrightarrow> create_jsonl path h fs = (Inr s, fs') \<Longrightarrow> session fmt h path s fs'"
| session_written: "session fmt h path s fs \<Longrightarrow> writable fmt w s \<Longrightarrow> jsonl_write fmt w s fs = (Inr s', fs') \<Longrightarrow>
    session fmt h path s' fs'"
| session_refused: "session fmt h path s fs \<Longrightarrow> writable fmt w s \<Longrightarrow> jsonl_write fmt w s fs = (Inl e, fs') \<Longrightarrow>
    content_of fs' path = content_of fs path \<Longrightarrow> session fmt h path s fs'"
| session_reopened: "session fmt h path s fs \<Longrightarrow> writable fmt w s \<Longrightarrow> jsonl_write fmt w s fs = (r, fs1) \<Longrightarrow>
    reopening fmt path fs1 s' fs' \<Longrightarrow> session fmt h path s' fs'"

lemma content_fault [simp]: "content_of (fs\<lparr>fs_fault := f\<rparr>) p = content_of fs p"
  by (simp add: content_of_def)

lemma reliable_fault: "reliable (fs\<lparr>fs_fault := (\<lambda>_. Works)\<rparr>)"
  by (simp add: reliable_def)

lemma memory_of_state: "memory_of (s\<lparr>jsonl_state := st\<rparr>) = (memory_of s)\<lparr>store_state := st\<rparr>"
  by (simp add: memory_of_def)

lemma applyMutation_sequence: "applyMutation m st = Inr st' \<Longrightarrow> sequence st' = mutation_seq m"
  by (auto simp: applyMutation_def apply_entry_def apply_record_def split: session_mutation.splits if_splits)

lemma storedI:
  assumes "valid_session fmt h ms" and "apply_all ms initial_state = Inr (jsonl_state s)"
    and "jsonl_meta s = metadataFromHeader h path mtime" and "content_of fs path = Some (session_text fmt h ms)"
  shows "stored fmt h ms s fs"
  using assms unfolding stored_def jsonl_path_def by auto

lemma stored_created:
  assumes "storable_header h" and "create_jsonl path h fs = (Inr s, fs')"
  shows "stored fmt h [] s fs' \<and> jsonl_path s = path \<and> jsonl_state s = initial_state"
proof -
  from create_jsonl_result [OF assms(2)] obtain mtime where
    "content_of fs' path = Some (encodeHeader h)" "s = new_jsonl_storage (metadataFromHeader h path mtime)" by blast
  then show ?thesis using assms(1)
    by (auto simp: stored_def valid_session_def new_jsonl_storage_def jsonl_path_def session_text_header)
qed

context json_payloads
begin

text \<open>One write on a stored session, whatever the file system does.\<close>

lemma write_stored:
  assumes "stored fmt h ms s fs" and "writable fmt w s" and "jsonl_write fmt w s fs = (r, fs')"
  obtains (rejected) e where "r = Inl e" "fs' = fs" "memory_write w (memory_of s) = Inl e"
  | (appended) m st k where "applyMutation m (jsonl_state s) = Inr st"
      "memory_write w (memory_of s) = Inr (memory_of (s\<lparr>jsonl_state := st\<rparr>))"
      "storable_mutation fmt m" "sequence st = sequence (jsonl_state s) + 1"
      "only_file {jsonl_path s} fs fs'"
      "content_of fs' (jsonl_path s) = Some (session_text fmt h ms @ take k (encodeMutation fmt m))"
      "reliable fs \<Longrightarrow> r = Inr (s\<lparr>jsonl_state := st\<rparr>)"
      "\<And>s'. r = Inr s' \<Longrightarrow> s' = s\<lparr>jsonl_state := st\<rparr> \<and> length (encodeMutation fmt m) \<le> k \<and> stored fmt h (ms @ [m]) s' fs'"
proof (cases "plan_write w (jsonl_state s)")
  case (Inl e)
  then have "r = Inl e" "fs' = fs" "memory_write w (memory_of s) = Inl e"
    using assms(3) by (simp_all add: jsonl_write_plan memory_write_plan memory_of_def)
  then show ?thesis by (rule rejected)
next
  case (Inr m)
  have ok: "state_ok (jsonl_state s)" by (rule stored_ok [OF assms(1)])
  obtain st where st: "applyMutation m (jsonl_state s) = Inr st" using plan_applies [OF ok Inr] by blast
  have c: "content_of fs (jsonl_path s) = Some (session_text fmt h ms)" using assms(1) by (simp add: stored_def)
  have run: "commit_mutation fmt s m fs = (r, fs')" using assms(3) Inr by (simp add: jsonl_write_plan)
  obtain k where k: "content_of fs' (jsonl_path s) = Some (session_text fmt h ms @ take k (encodeMutation fmt m))"
    "\<forall>s'. r = Inr s' \<longrightarrow> s' = s\<lparr>jsonl_state := st\<rparr> \<and> length (encodeMutation fmt m) \<le> k"
    using commit_result(2) [OF c st run] by blast
  have sm: "storable_mutation fmt m"
    using plan_storable [OF Inr _ ok] assms(2) by (simp add: writable_def)
  have seq: "sequence st = sequence (jsonl_state s) + 1"
    using applyMutation_sequence [OF st] plan_sequence [OF Inr] by (simp add: nextSequence_def)
  have mem: "memory_write w (memory_of s) = Inr (memory_of (s\<lparr>jsonl_state := st\<rparr>))"
    using Inr st by (simp add: memory_write_plan mutate_def memory_of_def)
  have stored_next: "stored fmt h (ms @ [m]) s' fs'" if "r = Inr s'" for s'
    using k that assms(1) sm st apply_all_snoc [of ms initial_state "jsonl_state s" m]
    by (auto simp: stored_def valid_session_def session_text_snoc jsonl_path_def)
  have rel: "reliable fs \<Longrightarrow> r = Inr (s\<lparr>jsonl_state := st\<rparr>)"
    using commit_reliable [of fs m s st fmt] st run by simp
  show ?thesis using appended [OF st mem sm seq commit_result(1) [OF c st run] k(1) rel] k(2) stored_next by blast
qed

text \<open>Opening until it works, from a file whose last line may be incomplete.\<close>

lemma reopening_recovers:
  assumes "reopening fmt path fs s fs'" and "valid_session fmt h (ms @ [m])" and "apply_all ms initial_state = Inr st"
    and "applyMutation m st = Inr st'"
    and "content_of fs path = Some (session_text fmt h ms @ take k (encodeMutation fmt m))"
  shows "(\<exists>mtime. jsonl_meta s = metadataFromHeader h path mtime) \<and>
    jsonl_state s = (if length (mutation_text fmt m) \<le> k then st' else st) \<and>
    stored fmt h (if length (mutation_text fmt m) \<le> k then ms @ [m] else ms) s fs'"
  using assms(1,5)
proof (induction arbitrary: k rule: reopening.induct)
  case (opened f fs s fs')
  then have c: "content_of (fs\<lparr>fs_fault := f\<rparr>) path = Some (session_text fmt h ms @ take k (encodeMutation fmt m))"
    by simp
  obtain mtime where s: "s = \<lparr>jsonl_meta = metadataFromHeader h path mtime,
      jsonl_state = (if length (mutation_text fmt m) \<le> k then st' else st)\<rparr>"
    and c': "content_of fs' path = Some (session_text fmt h (if length (mutation_text fmt m) \<le> k then ms @ [m] else ms))"
    using load_recovers [OF assms(2-4) c opened(1)] by auto
  moreover have "valid_session fmt h ms" using assms(2) by (simp add: valid_session_def)
  moreover have "apply_all (ms @ [m]) initial_state = Inr st'" using apply_all_snoc [OF assms(3)] assms(4) by simp
  ultimately show ?case using assms(2,3) c' by (auto intro!: storedI)
next
  case (opened_later f fs e fs1 s fs')
  have c: "content_of (fs\<lparr>fs_fault := f\<rparr>) path = Some (session_text fmt h ms @ take k (encodeMutation fmt m))"
    using opened_later.prems by simp
  obtain j where j: "content_of fs1 path = Some (session_text fmt h ms @ take j (encodeMutation fmt m))"
    "(length (mutation_text fmt m) \<le> j) = (length (mutation_text fmt m) \<le> k)"
    using load_recovers [OF assms(2-4) c opened_later(1)] by auto
  from opened_later.IH [OF j(1)] show ?case unfolding j(2) .
qed

lemma reopening_exact:
  assumes "reopening fmt path fs s fs'" and "valid_session fmt h ms" and "apply_all ms initial_state = Inr st"
    and "content_of fs path = Some (session_text fmt h ms)"
  shows "(\<exists>mtime. jsonl_meta s = metadataFromHeader h path mtime) \<and> jsonl_state s = st \<and> stored fmt h ms s fs'"
  using assms(1,4)
proof (induction rule: reopening.induct)
  case (opened f fs s fs')
  then have c: "content_of (fs\<lparr>fs_fault := f\<rparr>) path = Some (session_text fmt h ms)" by simp
  then have "content_of fs' path = Some (session_text fmt h ms)"
    using only_file_content [OF load_exact(1) [OF assms(2) c assms(3) opened(1)], of path] by simp
  then show ?case using load_exact(2) [OF assms(2) c assms(3) opened(1)] assms(2,3)
    by (auto intro!: storedI)
next
  case (opened_later f fs e fs1 s fs')
  then have c: "content_of (fs\<lparr>fs_fault := f\<rparr>) path = Some (session_text fmt h ms)" by simp
  have "content_of fs1 path = Some (session_text fmt h ms)"
    using only_file_content [OF load_exact(1) [OF assms(2) c assms(3) opened_later(1)], of path] c by simp
  then show ?case using opened_later.IH by simp
qed

text \<open>The invariant of a session, and what a restart after a write finds.\<close>

lemma reopened_state:
  assumes "stored fmt h ms s fs" and "writable fmt w s" and "jsonl_write fmt w s fs = (r, fs1)"
    and "reopening fmt (jsonl_path s) fs1 s' fs'"
  shows "(\<exists>ms'. stored fmt h ms' s' fs') \<and> jsonl_path s' = jsonl_path s \<and>
    (case r of Inr s1 \<Rightarrow> memory_of s' = memory_of s1
     | Inl e \<Rightarrow> memory_of s' = memory_of s \<or> memory_write w (memory_of s) = Inr (memory_of s'))"
proof -
  have v: "valid_session fmt h ms" and st0: "apply_all ms initial_state = Inr (jsonl_state s)"
    and c: "content_of fs (jsonl_path s) = Some (session_text fmt h ms)"
    and meta: "\<exists>path mtime. jsonl_meta s = metadataFromHeader h path mtime"
    using assms(1) by (simp_all add: stored_def)
  have mem: "memory_of x = memory_of y \<longleftrightarrow> jsonl_state x = jsonl_state y"
    if "\<exists>p t. jsonl_meta x = metadataFromHeader h p t" "\<exists>p t. jsonl_meta y = metadataFromHeader h p t" for x y
    using that by (auto simp: memory_of_def metadataFromHeader_def session_metadata.defs)
  show ?thesis
  proof (cases rule: write_stored [OF assms(1-3)])
    case (1 e)
    then show ?thesis
      using reopening_exact [OF assms(4) v st0] c mem [of s' s] meta by (auto simp: jsonl_path_def)
  next
    case (2 m st k)
    have vm: "valid_session fmt h (ms @ [m])" using v 2 by (simp add: valid_session_def)
    note o = reopening_recovers [OF assms(4) vm st0 2(1) 2(6)]
    have meta': "\<exists>p t. jsonl_meta (s\<lparr>jsonl_state := st\<rparr>) = metadataFromHeader h p t" using meta by simp
    show ?thesis
    proof (cases r)
      case (Inl e)
      show ?thesis
      proof (cases "length (mutation_text fmt m) \<le> k")
        case True
        then have "memory_of s' = memory_of (s\<lparr>jsonl_state := st\<rparr>)"
          using o mem [of s' "s\<lparr>jsonl_state := st\<rparr>"] meta' by auto
        then show ?thesis using True o Inl 2(2) by (auto simp: jsonl_path_def)
      next
        case False
        then have "memory_of s' = memory_of s" using o mem [of s' s] meta by auto
        then show ?thesis using False o Inl by (auto simp: jsonl_path_def)
      qed
    next
      case (Inr s1)
      then have "length (mutation_text fmt m) \<le> k" "s1 = s\<lparr>jsonl_state := st\<rparr>"
        using 2(8) by (auto simp: encodeMutation_def)
      then show ?thesis using Inr o mem [of s' s1] meta' by (auto simp: jsonl_path_def)
    qed
  qed
qed

lemma session_stored: "session fmt h path s fs \<Longrightarrow> (\<exists>ms. stored fmt h ms s fs) \<and> jsonl_path s = path"
proof (induction rule: session.induct)
  case (session_created fs s fs')
  then show ?case using stored_created by blast
next
  case (session_written s fs w s' fs')
  then obtain ms where ms: "stored fmt h ms s fs" by blast
  show ?case
    by (cases rule: write_stored [OF ms session_written(2,3)])
      (use session_written in \<open>auto simp: jsonl_path_def\<close>)
next
  case (session_refused s fs w e fs')
  then show ?case by (auto simp: stored_def)
next
  case (session_reopened s fs w r fs1 s' fs')
  then obtain ms where ms: "stored fmt h ms s fs" "jsonl_path s = path" by blast
  show ?case using reopened_state [OF ms(1) session_reopened(2,3)] session_reopened ms(2) by simp
qed

text \<open>On a file system that works, the two storages stay in step and the file stays loadable.\<close>

lemma serve_refines:
  assumes "stored fmt h ms s fs" and "reliable fs" and "list_all (storable_write fmt) ws"
    and "sequence (jsonl_state s) + int (length ws) \<le> MAX_SAFE_INTEGER"
    and "serve_writes fmt ws s fs = (rs, s', fs')"
  shows "memory_writes ws (memory_of s) = (rs, memory_of s') \<and>
    (\<exists>ms'. stored fmt h ms' s' fs') \<and> reliable fs' \<and> jsonl_path s' = jsonl_path s"
  using assms
proof (induction ws arbitrary: ms s fs rs s' fs')
  case Nil
  then show ?case by auto
next
  case (Cons w ws)
  obtain r fs1 where w: "jsonl_write fmt w s fs = (r, fs1)" by fastforce
  have wr: "writable fmt w s" using Cons.prems(3,4) by (simp add: writable_def nextSequence_def)
  show ?case
  proof (cases rule: write_stored [OF Cons.prems(1) wr w])
    case (1 e)
    obtain rs1 s1 fs2 where rest: "serve_writes fmt ws s fs1 = (rs1, s1, fs2)" by (metis prod_cases3)
    have "stored fmt h ms s fs1" "reliable fs1" using Cons.prems 1 by simp_all
    from Cons.IH [OF this _ _ rest] Cons.prems 1 w rest show ?thesis by simp
  next
    case (2 m st k)
    have r: "r = Inr (s\<lparr>jsonl_state := st\<rparr>)" by (rule 2(7) [OF Cons.prems(2)])
      let ?s1 = "s\<lparr>jsonl_state := st\<rparr>"
    obtain rs1 s1 fs2 where rest: "serve_writes fmt ws ?s1 fs1 = (rs1, s1, fs2)" by (metis prod_cases3)
    have "stored fmt h (ms @ [m]) ?s1 fs1" using 2(8) r by blast
    moreover have "reliable fs1" using reliable_frame [OF 2(5)] Cons.prems(2) by simp
    moreover have "sequence (jsonl_state ?s1) + int (length ws) \<le> MAX_SAFE_INTEGER" using Cons.prems(4) 2(4) by simp
    ultimately have "memory_writes ws (memory_of ?s1) = (rs1, memory_of s1) \<and>
        (\<exists>ms'. stored fmt h ms' s1 fs2) \<and> reliable fs2 \<and> jsonl_path s1 = jsonl_path ?s1"
      using Cons.IH [OF _ _ _ _ rest] Cons.prems(3) by simp
    then show ?thesis using Cons.prems(5) w r rest 2(2) by (auto simp: jsonl_path_def)
  qed
qed

end

subsection \<open>Forking\<close>

lemma jsonl_path_state [simp]: "jsonl_path (s\<lparr>jsonl_state := st\<rparr>) = jsonl_path s"
  by (simp add: jsonl_path_def)

lemma commits_frame:
  assumes "forEachA ms s (commit_mutation fmt) fs = (r, fs')"
  shows "only_file {jsonl_path s} fs fs'"
  using assms
proof (induction ms arbitrary: s fs)
  case Nil
  then show ?case by (simp add: run_simps)
next
  case (Cons m ms)
  obtain r1 t1 where c: "commit_mutation fmt s m fs = (r1, t1)" by fastforce
  note f = commit_frame(1) [OF c]
  show ?case
  proof (cases r1)
    case (Inl e)
    then show ?thesis using Cons.prems c f by simp
  next
    case (Inr s1)
    then have "forEachA ms s1 (commit_mutation fmt) t1 = (r, fs')" using Cons.prems c by simp
    from Cons.IH [OF this] have "only_file {jsonl_path s} t1 fs'" using commit_frame(2) [OF c Inr] by auto
    then show ?thesis by (rule only_file_trans [OF f])
  qed
qed

lemma commits_text:
  assumes "forEachA ms s (commit_mutation fmt) fs = (Inr s', fs')"
    and "content_of fs (jsonl_path s) = Some c"
  shows "content_of fs' (jsonl_path s) = Some (c @ concat (map (encodeMutation fmt) ms)) \<and>
    apply_all ms (jsonl_state s) = Inr (jsonl_state s')"
  using assms
proof (induction ms arbitrary: s fs c)
  case Nil
  then show ?case by (simp add: run_simps)
next
  case (Cons m ms)
  obtain s1 t1 where m: "commit_mutation fmt s m fs = (Inr s1, t1)"
    and rest: "forEachA ms s1 (commit_mutation fmt) t1 = (Inr s', fs')"
    using Cons.prems(1) by (auto simp: bindA_eq_Inr)
  from commit_frame(2) [OF m] obtain st where
    st: "applyMutation m (jsonl_state s) = Inr st" "s1 = s\<lparr>jsonl_state := st\<rparr>" by blast
  from commit_result(2) [OF Cons.prems(2) st(1) m]
  have "content_of t1 (jsonl_path s1) = Some (c @ encodeMutation fmt m)" using st(2) by auto
  from Cons.IH [OF rest this] show ?case using st by simp
qed

lemma session_text_concat: "session_text fmt h ms = encodeHeader h @ concat (map (encodeMutation fmt) ms)"
  by (induction ms rule: rev_induct) (simp_all add: session_text_header session_text_snoc)

lemma write_fork_frame: "only_file {temp} fs (snd (write_fork fmt h ms temp fs))"
proof -
  obtain r t where c: "create_jsonl temp h fs = (r, t)" by fastforce
  have f: "only_file {temp} fs t" using create_jsonl_result [OF c] by simp
  show ?thesis
  proof (cases r)
    case (Inl e)
    then show ?thesis using c f by (simp add: write_fork_def)
  next
    case (Inr s)
    then have p: "jsonl_path s = temp"
      using create_jsonl_result [OF c] by (auto simp: new_jsonl_storage_def jsonl_path_def)
    obtain r2 t2 where m: "forEachA ms s (commit_mutation fmt) t = (r2, t2)" by fastforce
    have "snd (write_fork fmt h ms temp fs) = t2"
      using c Inr m by (cases r2) (simp_all add: write_fork_def run_simps)
    then show ?thesis using only_file_trans [OF f] commits_frame [OF m] p by simp
  qed
qed

lemma write_fork_text:
  assumes "write_fork fmt h ms temp fs = (Inr (), t)"
  shows "content_of t temp = Some (session_text fmt h ms) \<and> (\<exists>st. apply_all ms initial_state = Inr st)"
proof -
  from assms obtain s t1 s' where c: "create_jsonl temp h fs = (Inr s, t1)"
    and m: "forEachA ms s (commit_mutation fmt) t1 = (Inr s', t)"
    by (auto simp: write_fork_def bindA_eq_Inr run_simps)
  from create_jsonl_result [OF c] have "content_of t1 (jsonl_path s) = Some (encodeHeader h)" "jsonl_path s = temp"
    "jsonl_state s = initial_state"
    by (auto simp: new_jsonl_storage_def jsonl_path_def)
  with commits_text [OF m] show ?thesis by (auto simp: session_text_concat)
qed

text \<open>The mutations of a fork are storable when its source is.\<close>

lemma stored_entries:
  "list_all (storable_mutation fmt) ms \<Longrightarrow> apply_all ms initial_state = Inr st \<Longrightarrow> e \<in> set (entries st) \<Longrightarrow>
     storable_entry fmt (entry_payload e) \<and> valid_time (entry_timestamp e)"
proof (induction ms arbitrary: st rule: rev_induct)
  case Nil
  then show ?case by (auto simp: initial_state_def)
next
  case (snoc m ms)
  obtain st1 where st1: "apply_all ms initial_state = Inr st1" "applyMutation m st1 = Inr st"
    using snoc.prems(2) by (auto simp: apply_all_append andThen_eq_Inr)
  then have "entries st = entries st1 @ (case m of EntryMutation l e \<Rightarrow> [e] | _ \<Rightarrow> [])"
    by (auto simp: applyMutation_def apply_entry_def apply_record_def split: session_mutation.splits if_splits)
  then consider "e \<in> set (entries st1)" | l where "m = EntryMutation l e"
    using snoc.prems(3) by (auto split: session_mutation.splits)
  then show ?case
    using snoc.IH [OF _ st1(1)] snoc.prems(1) by cases auto
qed

lemma number_from_Suc: "set (number_from n fs) \<subseteq> {f k |f k. f \<in> set fs \<and> n \<le> k \<and> k < n + int (length fs)}"
proof (induction fs arbitrary: n)
  case (Cons f fs)
  have "f n \<in> {g k |g k. g \<in> set (f # fs) \<and> n \<le> k \<and> k < n + int (length (f # fs))}" by force
  moreover have "set (number_from (n + 1) fs) \<subseteq> {g k |g k. g \<in> set (f # fs) \<and> n \<le> k \<and> k < n + int (length (f # fs))}"
    using Cons.IH [of "n + 1"] by fastforce
  ultimately show ?case by simp
qed simp

lemma length_number_from [simp]: "length (number_from n fs) = length fs"
  by (induction fs arbitrary: n) simp_all

lemma fork_storable:
  assumes "list_all (storable_mutation fmt) ms" and "apply_all ms initial_state = Inr st"
    and "createForkMutations st options = Inr forked" and "int (length forked) \<le> MAX_SAFE_INTEGER"
  shows "list_all (storable_mutation fmt) forked"
proof -
  from assms(3) obtain es pointers where src: "fork_source st options = Inr (es, pointers)"
    and f: "forked = number_from 1 (fork_writes st es pointers)"
    by (auto simp: createForkMutations_def andThen_eq_Inr)
  have ok: "state_ok st" using apply_all_ok [OF initial_state_ok assms(2)] .
  have es: "\<forall>e\<in>set es. storable_entry fmt (entry_payload e) \<and> valid_time (entry_timestamp e)"
    using fork_source_ok [OF ok src] stored_entries [OF assms(1,2)] by blast
  have len: "int (length (fork_writes st es pointers)) \<le> MAX_SAFE_INTEGER" using assms(4) f by simp
  have "storable_mutation fmt (g k)" if "g \<in> set (fork_writes st es pointers)" "1 \<le> k"
      "k < 1 + int (length (fork_writes st es pointers))" for g k
  proof -
    have "valid_sequence k" using that(2,3) len by (simp add: valid_sequence_def)
    then show ?thesis using that(1) es by (auto simp: fork_writes_def split: option.splits)
  qed
  then show ?thesis using number_from_Suc [of 1 "fork_writes st es pointers"] unfolding f list_all_iff by blast
qed

context json_payloads
begin

lemma fork_result:
  assumes "stored fmt h0 ms0 s fs" and "storable_header h"
    and "\<And>ms. createForkMutations (jsonl_state s) options = Inr ms \<Longrightarrow> int (length ms) \<le> MAX_SAFE_INTEGER"
    and "fork_jsonl fmt path h options s fs = (r, fs')"
  shows "only_file {path, path @ ''.tmp''} fs fs'"
    and "r = Inl e \<Longrightarrow> content_of fs' path = content_of fs path \<or>
      (\<exists>ms. createForkMutations (jsonl_state s) options = Inr ms \<and> content_of fs' path = Some (session_text fmt h ms))"
    and "r = Inr s' \<Longrightarrow> \<exists>ms st mtime. createForkMutations (jsonl_state s) options = Inr ms \<and>
      apply_all ms initial_state = Inr st \<and> s' = \<lparr>jsonl_meta = metadataFromHeader h path mtime, jsonl_state = st\<rparr> \<and>
      stored fmt h ms s' fs'"
proof -
  have "only_file {path, path @ ''.tmp''} fs fs' \<and>
    (\<forall>e. r = Inl e \<longrightarrow> content_of fs' path = content_of fs path \<or>
      (\<exists>ms. createForkMutations (jsonl_state s) options = Inr ms \<and> content_of fs' path = Some (session_text fmt h ms))) \<and>
    (\<forall>s'. r = Inr s' \<longrightarrow> (\<exists>ms st mtime. createForkMutations (jsonl_state s) options = Inr ms \<and>
      apply_all ms initial_state = Inr st \<and> s' = \<lparr>jsonl_meta = metadataFromHeader h path mtime, jsonl_state = st\<rparr> \<and>
      stored fmt h ms s' fs'))"
  proof (cases "createForkMutations (jsonl_state s) options")
    case (Inl e)
    then show ?thesis using assms(4) by (auto simp: fork_jsonl_def run_simps)
  next
    case (Inr ms)
    obtain r1 t1 where p: "publishFileAtomically path (write_fork fmt h ms) fs = (r1, t1)" by fastforce
    have frame: "only_file {path @ ''.tmp''} u (snd (write_fork fmt h ms (path @ ''.tmp'') u))" for u
      by (rule write_fork_frame)
    show ?thesis
    proof (cases r1)
      case (Inl e)
      then show ?thesis
        using assms(4) Inr p publish_result(1,2) [OF p frame] by (auto simp: fork_jsonl_def)
    next
      case r1: (Inr u)
      obtain t where t: "write_fork fmt h ms (path @ ''.tmp'') fs = (Inr (), t)"
        "content_of t1 path = content_of t (path @ ''.tmp'')"
        using publish_result(3) [OF p frame r1] by blast
      obtain st where st: "apply_all ms initial_state = Inr st" and c: "content_of t1 path = Some (session_text fmt h ms)"
        using write_fork_text [OF t(1)] t(2) by auto
      have load: "load_jsonl fmt path t1 = (r, fs')" using assms(4) Inr p r1 by (simp add: fork_jsonl_def)
      have v: "valid_session fmt h ms"
        using assms(1,2) fork_storable [OF _ _ Inr assms(3) [OF Inr], of fmt ms0]
        by (auto simp: valid_session_def stored_def)
      have f: "only_file {} t1 fs'" by (rule load_exact(1) [OF v c st load])
      have c': "content_of fs' path = Some (session_text fmt h ms)" using c only_file_content [OF f, of path] by simp
      have "\<exists>mtime. s' = \<lparr>jsonl_meta = metadataFromHeader h path mtime, jsonl_state = st\<rparr> \<and> stored fmt h ms s' fs'"
        if "r = Inr s'" for s'
        using load_exact(2) [OF v c st load that] storedI [OF v _ _ c', of s'] st by auto
      then show ?thesis
        using Inr st c' only_file_trans [OF publish_result(1) [OF p frame] only_file_mono [OF f]] by blast
    qed
  qed
  then show "only_file {path, path @ ''.tmp''} fs fs'"
    and "r = Inl e \<Longrightarrow> content_of fs' path = content_of fs path \<or>
      (\<exists>ms. createForkMutations (jsonl_state s) options = Inr ms \<and> content_of fs' path = Some (session_text fmt h ms))"
    and "r = Inr s' \<Longrightarrow> \<exists>ms st mtime. createForkMutations (jsonl_state s) options = Inr ms \<and>
      apply_all ms initial_state = Inr st \<and> s' = \<lparr>jsonl_meta = metadataFromHeader h path mtime, jsonl_state = st\<rparr> \<and>
      stored fmt h ms s' fs'" by blast+
qed

text \<open>After any write, whatever went wrong in it, the file opens on a file system that works.\<close>

lemma opens_again:
  assumes "session fmt h path s fs" and "writable fmt w s" and "jsonl_write fmt w s fs = (r, fs1)"
  shows "\<exists>s' fs'. load_jsonl fmt path (fs1\<lparr>fs_fault := (\<lambda>n. Works)\<rparr>) = (Inr s', fs')"
proof -
  let ?fs = "fs1\<lparr>fs_fault := (\<lambda>n. Works)\<rparr>"
  obtain ms where ms: "stored fmt h ms s fs" "jsonl_path s = path"
    using session_stored [OF assms(1)] by blast
  then have v: "valid_session fmt h ms" "apply_all ms initial_state = Inr (jsonl_state s)"
    "content_of fs path = Some (session_text fmt h ms)" by (simp_all add: stored_def)
  note load = load_reliable [OF _ _ _ _ _ reliable_fault, where path = path]
  have exact: "\<exists>s'. fst (load_jsonl fmt path ?fs) = Inr s'"
    if "valid_session fmt h ks" "apply_all ks initial_state = Inr st" "content_of fs1 path = Some (session_text fmt h ks)"
    for ks st
    using load [OF that(1), of fs1 "[]" st st False] that by simp
  have "\<exists>s'. fst (load_jsonl fmt path ?fs) = Inr s'"
  proof (cases rule: write_stored [OF ms(1) assms(2,3)])
    case (1 e)
    then show ?thesis using exact [OF v(1,2)] v(3) by simp
  next
    case (2 m st k)
    have c: "content_of fs1 path = Some (session_text fmt h ms @ take k (encodeMutation fmt m))" using 2 ms(2) by simp
    show ?thesis
    proof (cases "k < length (encodeMutation fmt m)")
      case True
      then have p: "take k (encodeMutation fmt m) = take k (mutation_text fmt m)" by (simp add: encodeMutation_def)
      obtain torn st2 where "replay_lines fmt (jsonl_state s)
          (if take k (mutation_text fmt m) = [] then [] else [take k (mutation_text fmt m)]) = Inr (st2, torn)"
        using replay_tail_ok [OF 2(3) 2(1) True] by blast
      moreover have "newline \<notin> set (take k (mutation_text fmt m))"
        using mutation_text_line [OF 2(3)] by (auto dest: in_set_takeD)
      ultimately show ?thesis using load [OF v(1) _ _ v(2), of fs1 "take k (mutation_text fmt m)"] c p by simp
    next
      case False
      then have "content_of fs1 path = Some (session_text fmt h (ms @ [m]))" using c by (simp add: session_text_snoc)
      moreover have "valid_session fmt h (ms @ [m])" using v(1) 2(3) by (simp add: valid_session_def)
      ultimately show ?thesis using exact [of "ms @ [m]" st] apply_all_snoc [OF v(2)] 2(1) by simp
    qed
  qed
  then show ?thesis by (metis prod.collapse)
qed

text \<open>
  Writing on after a torn append: the next line is glued to the torn one, and opening the file takes both for a
  torn tail.
\<close>

lemma glued_line:
  assumes "storable_mutation fmt m"
  shows "parseMutation fmt (CHR ''{'' # mutation_text fmt m) = Inl SyntaxKind"
proof -
  obtain r where t: "mutation_text fmt m = CHR ''{'' # r" by (simp add: mutation_text_def)
  have "parse_value (length (CHR ''{'' # mutation_text fmt m)) (CHR ''{'' # mutation_text fmt m) = None"
    by (simp add: t)
  then show ?thesis by (simp add: parseMutation_def parseObject_def parse_json_def)
qed

lemma write_after_torn_is_lost:
  assumes "stored fmt h ms s fs" and "writable fmt w s"
    and "content_of fs1 (jsonl_path s) = Some (session_text fmt h ms @ [CHR ''{''])"
    and "jsonl_write fmt w s fs1 = (Inr s', fs2)" and "reliable (fs2\<lparr>fs_fault := f\<rparr>)"
  shows "\<exists>s'' fs3. load_jsonl fmt (jsonl_path s) (fs2\<lparr>fs_fault := f\<rparr>) = (Inr s'', fs3) \<and> jsonl_state s'' = jsonl_state s"
proof -
  have v: "valid_session fmt h ms" "apply_all ms initial_state = Inr (jsonl_state s)" using assms(1) by (simp_all add: stored_def)
  have ok: "state_ok (jsonl_state s)" by (rule stored_ok [OF assms(1)])
  obtain m where m: "plan_write w (jsonl_state s) = Inr m"
    using assms(4) by (auto simp: jsonl_write_plan split: sum.splits)
  obtain st where st: "applyMutation m (jsonl_state s) = Inr st" using plan_applies [OF ok m] by blast
  have sm: "storable_mutation fmt m" using plan_storable [OF m _ ok] assms(2) by (simp add: writable_def)
  have c: "content_of fs2 (jsonl_path s) = Some ((session_text fmt h ms @ [CHR ''{'']) @ encodeMutation fmt m)"
    using commit_result(2) [OF assms(3) st] assms(4) m by (fastforce simp: jsonl_write_plan)
  define bad where "bad = CHR ''{'' # mutation_text fmt m"
  define text' where "text' = (session_text fmt h ms @ [CHR ''{'']) @ encodeMutation fmt m"
  have plain: "list_all (\<lambda>l. newline \<notin> set l) (session_lines fmt h ms @ [bad])"
    using session_lines_plain [OF v(1)] mutation_text_line [OF sm] by (simp add: bad_def)
  have lines: "physical_lines text' = session_lines fmt h ms @ [bad]"
    using physical_lines_text [OF plain, of "[]"]
    by (simp add: text'_def bad_def session_text_def encodeMutation_def)
  have replay: "replay_lines fmt (jsonl_state s) [bad] = Inr (jsonl_state s, True)"
    using glued_line [OF sm] by (simp add: bad_def)
  let ?fs = "fs2\<lparr>fs_fault := f\<rparr>"
  obtain t1 where r1: "readTextFile (jsonl_path s) ?fs = (Inr text', t1)"
    using reliable_calls(1) [OF assms(5), of "jsonl_path s"] c by (simp add: text'_def)
  obtain r2 t2 where r2: "file_mtime (jsonl_path s) t1 = (r2, t2)" by fastforce
  have f: "only_file {} ?fs t1" "only_file {} t1 t2"
    using call_frames(1) [of ?fs "jsonl_path s"] call_frames(5) [of t1 "jsonl_path s"] r1 r2 by simp_all
  have rel: "reliable t1" "reliable t2" using assms(5) reliable_frame f by blast+
  have "content_of t1 (jsonl_path s) \<noteq> None" using only_file_content [OF f(1), of "jsonl_path s"] c by simp
  then obtain mtime where r2': "r2 = Inr mtime" using reliable_calls(5) [OF rel(1), of "jsonl_path s"] r2 by auto
  obtain t3 where "repair_tail (jsonl_path s) text' (session_lines fmt h ms @ [bad]) True t2 = (Inr (), t3)"
    using repair_reliable [OF rel(2)] by (metis prod.collapse)
  moreover have "fileResult (file_mtime (jsonl_path s)) t1 = (Inr mtime, t2)" using r2 r2' by (simp add: fileResult_eq)
  ultimately show ?thesis
    by (simp add: load_lines_eq [OF v(1) lines v(2) replay r1] run_simps)
qed

end

end
