(* ===== verification/PlainFormat.thy ===== *)
theory PlainFormat
  imports JsonlCodec
begin

text \<open>
  A concrete \<open>payload_format\<close>: the properties of entries and lane records as the interfaces of
  \<^verbatim>\<open>session/types.ts\<close> and \<^verbatim>\<open>messages.ts\<close> name them, for the payloads that hold neither a double nor a
  value of type \<^verbatim>\<open>unknown\<close> (\<open>plain_message\<close>, \<open>plain_payload\<close>, \<open>plain_body\<close>): messages of the user, bash
  executions, summaries, and every record but the usage. The views read the properties back; of a property that is
  missing they return a default, which no storable payload needs. The interpretation \<open>plain\<close> discharges the
  laws of \<open>json_payloads\<close>.
\<close>

subsection \<open>Reading properties\<close>

definition str_prop :: "json_object \<Rightarrow> string \<Rightarrow> string" where
  "str_prop props k = (case map_of props k of Some (JsonString s) \<Rightarrow> s | _ \<Rightarrow> [])"

definition opt_str :: "json_object \<Rightarrow> string \<Rightarrow> string option" where
  "opt_str props k = (case map_of props k of Some (JsonString s) \<Rightarrow> Some s | _ \<Rightarrow> None)"

definition int_prop :: "json_object \<Rightarrow> string \<Rightarrow> int" where
  "int_prop props k = (case Option.bind (map_of props k) int_of_json of Some i \<Rightarrow> i | None \<Rightarrow> 0)"

definition opt_int :: "json_object \<Rightarrow> string \<Rightarrow> int option" where
  "opt_int props k = Option.bind (map_of props k) int_of_json"

definition bool_prop :: "json_object \<Rightarrow> string \<Rightarrow> bool" where
  "bool_prop props k = (map_of props k = Some (JsonBool True))"

definition obj_prop :: "json_object \<Rightarrow> string \<Rightarrow> json_object" where
  "obj_prop props k = (case map_of props k of Some (JsonObject ms) \<Rightarrow> ms | _ \<Rightarrow> [])"

definition list_prop :: "json_object \<Rightarrow> string \<Rightarrow> json list" where
  "list_prop props k = (case map_of props k of Some (JsonArray vs) \<Rightarrow> vs | _ \<Rightarrow> [])"

definition string_of :: "json \<Rightarrow> string" where
  "string_of v = (case v of JsonString s \<Rightarrow> s | _ \<Rightarrow> [])"

definition object_props :: "json \<Rightarrow> json_object" where
  "object_props v = (case v of JsonObject ms \<Rightarrow> ms | _ \<Rightarrow> [])"

definition true_field :: "string \<Rightarrow> bool \<Rightarrow> json_object" where
  "true_field k b = (if b then [(k, JsonBool True)] else [])"

subsection \<open>Messages\<close>

definition user_text :: "user_content \<Rightarrow> json" where
  "user_text c = (case c of PlainContent s \<Rightarrow> JsonString s | BlockContent bs \<Rightarrow> JsonArray [])"

fun message_props :: "agent_message \<Rightarrow> json_object" where
  "message_props (UserMessage c t) =
     [(''role'', JsonString ''user''), (''content'', user_text c), (''timestamp'', json_int t)]"
| "message_props (BashExecutionMessage b) =
     [(''role'', JsonString ''bashExecution''), (''command'', JsonString (bash_command b)),
      (''output'', JsonString (bash_output b))] @
     opt_field ''exitCode'' json_int (bash_exitCode b) @
     [(''cancelled'', JsonBool (bash_cancelled b)), (''truncated'', JsonBool (bash_truncated b))] @
     opt_field ''fullOutputPath'' JsonString (bash_fullOutputPath b) @
     [(''timestamp'', json_int (bash_timestamp b))] @ true_field ''excludeFromContext'' (bash_excludeFromContext b)"
| "message_props (CustomMessage c) =
     [(''role'', JsonString ''custom''), (''customType'', JsonString (cm_customType c)),
      (''content'', user_text (cm_content c)), (''display'', JsonBool (cm_display c)),
      (''timestamp'', json_int (cm_timestamp c))]"
| "message_props (BranchSummaryMessage s i t) =
     [(''role'', JsonString ''branchSummary''), (''summary'', JsonString s), (''fromId'', JsonString i),
      (''timestamp'', json_int t)]"
| "message_props (CompactionSummaryMessage s n t) =
     [(''role'', JsonString ''compactionSummary''), (''summary'', JsonString s), (''tokensBefore'', json_int n),
      (''timestamp'', json_int t)]"
| "message_props _ = []"

definition plain_content :: "user_content \<Rightarrow> bool" where
  "plain_content c \<longleftrightarrow> (case c of PlainContent s \<Rightarrow> True | BlockContent bs \<Rightarrow> False)"

fun plain_message :: "agent_message \<Rightarrow> bool" where
  "plain_message (UserMessage c t) \<longleftrightarrow> plain_content c"
| "plain_message (CustomMessage c) \<longleftrightarrow> plain_content (cm_content c) \<and> cm_details c = None"
| "plain_message (BashExecutionMessage b) \<longleftrightarrow> True"
| "plain_message (BranchSummaryMessage s i t) \<longleftrightarrow> True"
| "plain_message (CompactionSummaryMessage s n t) \<longleftrightarrow> True"
| "plain_message _ \<longleftrightarrow> False"

definition message_view :: "json_object \<Rightarrow> agent_message" where
  "message_view o' =
     (let role = str_prop o' ''role''; t = int_prop o' ''timestamp'' in
      if role = ''bashExecution''
      then BashExecutionMessage \<lparr>bash_command = str_prop o' ''command'', bash_output = str_prop o' ''output'',
             bash_exitCode = opt_int o' ''exitCode'', bash_cancelled = bool_prop o' ''cancelled'',
             bash_truncated = bool_prop o' ''truncated'', bash_fullOutputPath = opt_str o' ''fullOutputPath'',
             bash_timestamp = t, bash_excludeFromContext = bool_prop o' ''excludeFromContext''\<rparr>
      else if role = ''custom''
      then CustomMessage \<lparr>cm_customType = str_prop o' ''customType'', cm_content = PlainContent (str_prop o' ''content''),
             cm_display = bool_prop o' ''display'', cm_details = None, cm_timestamp = t\<rparr>
      else if role = ''branchSummary'' then BranchSummaryMessage (str_prop o' ''summary'') (str_prop o' ''fromId'') t
      else if role = ''compactionSummary''
      then CompactionSummaryMessage (str_prop o' ''summary'') (int_prop o' ''tokensBefore'') t
      else UserMessage (PlainContent (str_prop o' ''content'')) t)"

subsection \<open>Entries\<close>

fun plain_fields :: "entry_payload \<Rightarrow> json_object" where
  "plain_fields (MessagePayload m t) = [(''message'', JsonObject (message_props m))] @ true_field ''terminate'' t"
| "plain_fields (ModelChange p m) = [(''provider'', JsonString p), (''modelId'', JsonString m)]"
| "plain_fields (ThinkingLevelChange l) = [(''thinkingLevel'', JsonString l)]"
| "plain_fields (ActiveToolsChange ns) = [(''activeToolNames'', JsonArray (map JsonString ns))]"
| "plain_fields (CompactionPayload c) =
     [(''summary'', JsonString (cd_summary c)),
      (''retainedTail'', JsonArray (map (JsonObject \<circ> message_props) (cd_retainedTail c))),
      (''tokensBefore'', json_int (cd_tokensBefore c))]"
| "plain_fields (BranchSummaryPayload i s d u) = [(''fromId'', JsonString i), (''summary'', JsonString s)]"
| "plain_fields (CustomPayload t d) = [(''customType'', JsonString t)]"

fun plain_payload :: "entry_payload \<Rightarrow> bool" where
  "plain_payload (MessagePayload m t) \<longleftrightarrow> plain_message m"
| "plain_payload (CompactionPayload c) \<longleftrightarrow>
     list_all plain_message (cd_retainedTail c) \<and> cd_details c = None \<and> cd_usage c = None"
| "plain_payload (BranchSummaryPayload i s d u) \<longleftrightarrow> d = None \<and> u = None"
| "plain_payload (CustomPayload t d) \<longleftrightarrow> d = None"
| "plain_payload _ \<longleftrightarrow> True"

fun plain_view :: "entry_type \<Rightarrow> json_object \<Rightarrow> entry_payload" where
  "plain_view MessageType props = MessagePayload (message_view (obj_prop props ''message'')) (bool_prop props ''terminate'')"
| "plain_view ModelChangeType props = ModelChange (str_prop props ''provider'') (str_prop props ''modelId'')"
| "plain_view ThinkingLevelChangeType props = ThinkingLevelChange (str_prop props ''thinkingLevel'')"
| "plain_view ActiveToolsChangeType props = ActiveToolsChange (map string_of (list_prop props ''activeToolNames''))"
| "plain_view CompactionType props = CompactionPayload
     \<lparr>cd_summary = str_prop props ''summary'',
      cd_retainedTail = map (message_view \<circ> object_props) (list_prop props ''retainedTail''),
      cd_tokensBefore = int_prop props ''tokensBefore'', cd_details = None, cd_usage = None\<rparr>"
| "plain_view BranchSummaryType props = BranchSummaryPayload (str_prop props ''fromId'') (str_prop props ''summary'') None None"
| "plain_view CustomType props = CustomPayload (str_prop props ''customType'') None"

definition provisioned_props :: "provisioned_entry \<Rightarrow> json_object" where
  "provisioned_props e =
     [(''type'', JsonString (name_of ENTRY_TYPES (payload_type (entry_payload e)))), (''id'', JsonString (entry_id e))] @
     plain_fields (entry_payload e)"

definition provisioned_view :: "json_object \<Rightarrow> provisioned_entry" where
  "provisioned_view props = \<lparr>entry_id = str_prop props ''id'',
     entry_payload = plain_view (case map_of ENTRY_TYPES (str_prop props ''type'') of Some t \<Rightarrow> t | None \<Rightarrow> CustomType) props\<rparr>"

lemma prop_simps [simp]:
  "map_of props k = Some (JsonString s) \<Longrightarrow> str_prop props k = s"
  "map_of props k = Some (JsonString s) \<Longrightarrow> opt_str props k = Some s"
  "map_of props k = None \<Longrightarrow> opt_str props k = None"
  "map_of props k = Some (json_int i) \<Longrightarrow> int_prop props k = i"
  "map_of props k = Some (json_int i) \<Longrightarrow> opt_int props k = Some i"
  "map_of props k = None \<Longrightarrow> opt_int props k = None"
  "map_of props k = Some (JsonBool b) \<Longrightarrow> bool_prop props k = b"
  "map_of props k = None \<Longrightarrow> bool_prop props k = False"
  "map_of props k = Some (JsonObject ms) \<Longrightarrow> obj_prop props k = ms"
  "map_of props k = Some (JsonArray vs) \<Longrightarrow> list_prop props k = vs"
  "string_of (JsonString s) = s" "object_props (JsonObject ms) = ms"
  "true_field k True = [(k, JsonBool True)]" "true_field k False = []"
  by (simp_all add: str_prop_def opt_str_def int_prop_def opt_int_def bool_prop_def obj_prop_def list_prop_def
      string_of_def object_props_def true_field_def)

lemma plain_contentE: "plain_content c \<Longrightarrow> (\<And>s. c = PlainContent s \<Longrightarrow> P) \<Longrightarrow> P"
  by (cases c) (simp_all add: plain_content_def)

lemma message_view_props [simp]:
  assumes "plain_message m"
  shows "message_view (message_props m) = m"
proof (cases m)
  case (BashExecutionMessage b)
  then show ?thesis
    by (cases "bash_exitCode b"; cases "bash_fullOutputPath b"; cases "bash_excludeFromContext b")
      (simp_all add: message_view_def Let_def)
next
  case (CustomMessage c)
  then obtain s where "cm_content c = PlainContent s" "cm_details c = None"
    using assms plain_contentE [of "cm_content c"] by auto
  then show ?thesis using CustomMessage by (simp add: message_view_def Let_def user_text_def)
next
  case (UserMessage c t)
  then obtain s where "c = PlainContent s" using assms plain_contentE [of c] by auto
  then show ?thesis using UserMessage by (simp add: message_view_def Let_def user_text_def)
qed (insert assms, simp_all add: message_view_def Let_def)

lemma message_json [simp]: "json_ok (JsonObject (message_props m))"
proof (cases m)
  case (BashExecutionMessage b)
  then show ?thesis
    by (cases "bash_exitCode b"; cases "bash_fullOutputPath b"; cases "bash_excludeFromContext b") simp_all
qed (auto simp: user_text_def split: user_content.split)

lemma message_objects [simp]:
  "list_all plain_message ms \<Longrightarrow> map (message_view \<circ> object_props \<circ> (JsonObject \<circ> message_props)) ms = ms"
  by (induction ms) simp_all

lemma json_ok_map [simp]: "(\<And>x. json_ok (f x)) \<Longrightarrow> json_ok (JsonArray (map f xs))"
  by (induction xs) simp_all

lemma plain_view_fields:
  assumes "plain_payload p" and "\<And>k. k \<in> {''message'', ''terminate'', ''provider'', ''modelId'', ''thinkingLevel'',
      ''activeToolNames'', ''summary'', ''retainedTail'', ''tokensBefore'', ''fromId'', ''customType''} \<Longrightarrow>
      map_of props k = map_of (plain_fields p) k"
  shows "plain_view (payload_type p) props = p"
proof (cases p)
  case (MessagePayload m t)
  then show ?thesis using assms(1) assms(2) [of "''message''"] assms(2) [of "''terminate''"] by (cases t) simp_all
next
  case (CompactionPayload c)
  then show ?thesis
    using assms(1) assms(2) [of "''summary''"] assms(2) [of "''retainedTail''"] assms(2) [of "''tokensBefore''"] by simp
next
  case (ActiveToolsChange ns)
  moreover have "map string_of (map JsonString ns) = ns" by (induction ns) simp_all
  ultimately show ?thesis using assms(2) [of "''activeToolNames''"] by simp
next
  case (ModelChange q m)
  then show ?thesis using assms(2) [of "''provider''"] assms(2) [of "''modelId''"] by simp
next
  case (BranchSummaryPayload i s d u)
  then show ?thesis using assms(1) assms(2) [of "''fromId''"] assms(2) [of "''summary''"] by simp
qed (insert assms(1) assms(2) [of "''thinkingLevel''"] assms(2) [of "''customType''"], simp_all)

lemma plain_fields_props: "json_props base_keys (plain_fields p)"
proof (cases p)
  case (MessagePayload m t)
  then show ?thesis by (cases t) (simp_all add: json_props_def base_keys_def del: json_ok.simps(3))
next
  case (CompactionPayload c)
  have "json_ok (JsonArray (map (JsonObject \<circ> message_props) ms))" for ms by (rule json_ok_map) (simp del: json_ok.simps)
  then show ?thesis using CompactionPayload by (simp add: json_props_def base_keys_def del: json_ok.simps(2))
next
  case (ActiveToolsChange ns)
  have "json_ok (JsonArray (map JsonString ns))" by (rule json_ok_map) simp
  then show ?thesis using ActiveToolsChange by (simp add: json_props_def base_keys_def del: json_ok.simps(2))
qed (simp_all add: json_props_def base_keys_def)

lemma provisioned_view_props [simp]: "plain_payload (entry_payload e) \<Longrightarrow> provisioned_view (provisioned_props e) = e"
proof -
  assume p: "plain_payload (entry_payload e)"
  have n: "map_of (plain_fields (entry_payload e)) k = None" if "k \<in> set base_keys" for k
    using json_propsD [OF plain_fields_props that] .
  have t: "str_prop (provisioned_props e) ''type'' = name_of ENTRY_TYPES (payload_type (entry_payload e))"
    "str_prop (provisioned_props e) ''id'' = entry_id e"
    by (simp_all add: provisioned_props_def)
  have "plain_view (payload_type (entry_payload e)) (provisioned_props e) = entry_payload e"
    using p by (rule plain_view_fields) (auto simp: provisioned_props_def)
  then show ?thesis by (simp add: provisioned_view_def t)
qed

lemma provisioned_json [simp]: "json_ok (JsonObject (provisioned_props e))"
  using plain_fields_props [of "entry_payload e"] keys_disjoint [OF plain_fields_props [of "entry_payload e"]]
  by (auto simp: provisioned_props_def json_props_def base_keys_def)

subsection \<open>Lane records\<close>

definition step_names :: "(string \<times> step_kind) list" where
  "step_names = [(''assistant'', AssistantStep), (''compaction'', CompactionStep), (''branch_summary'', BranchSummaryStep)]"

definition outcome_names :: "(string \<times> outcome) list" where
  "outcome_names = [(''completed'', OutcomeCompleted), (''aborted'', OutcomeAborted), (''failed'', OutcomeFailed),
     (''declined'', OutcomeDeclined)]"

definition reason_text :: "compaction_reason \<Rightarrow> string" where
  "reason_text r = (case r of ReasonManual \<Rightarrow> ''manual'' | ReasonThreshold \<Rightarrow> ''threshold'' | ReasonOverflow \<Rightarrow> ''overflow''
     | ReasonOther s \<Rightarrow> s)"

definition reason_of :: "string \<Rightarrow> compaction_reason" where
  "reason_of s = (if s = ''manual'' then ReasonManual else if s = ''threshold'' then ReasonThreshold
     else if s = ''overflow'' then ReasonOverflow else ReasonOther s)"

definition named :: "(string \<times> 'a) list \<Rightarrow> 'a \<Rightarrow> string \<Rightarrow> 'a" where
  "named names d s = (case map_of names s of Some t \<Rightarrow> t | None \<Rightarrow> d)"

fun intent_props :: "intent \<Rightarrow> json_object" where
  "intent_props (RunIntent p i s r) =
     [(''kind'', JsonString ''run''), (''originalPrompt'', JsonArray (map (JsonObject \<circ> message_props) p)),
      (''initialMessages'', JsonArray (map (JsonObject \<circ> provisioned_props) i))] @
     opt_field ''systemPromptOverride'' JsonString s"
| "intent_props (CompactionIntent c r) =
     [(''kind'', JsonString ''compaction'')] @ opt_field ''customInstructions'' JsonString c @
     [(''resultEntryId'', JsonString r)]"
| "intent_props (NavigationIntent t s c l e) =
     [(''kind'', JsonString ''navigation''), (''targetId'', nullable_id t), (''summarize'', JsonBool s)] @
     opt_field ''customInstructions'' JsonString c @ opt_field ''label'' JsonString l @
     opt_field ''summaryEntryId'' JsonString e"

fun plain_intent :: "intent \<Rightarrow> bool" where
  "plain_intent (RunIntent p i s r) \<longleftrightarrow>
     list_all plain_message p \<and> list_all (plain_payload \<circ> entry_payload) i \<and> r = None"
| "plain_intent _ \<longleftrightarrow> True"

definition intent_view :: "json_object \<Rightarrow> intent" where
  "intent_view props =
     (let kind = str_prop props ''kind'' in
      if kind = ''run''
      then RunIntent (map (message_view \<circ> object_props) (list_prop props ''originalPrompt''))
             (map (provisioned_view \<circ> object_props) (list_prop props ''initialMessages''))
             (opt_str props ''systemPromptOverride'') None
      else if kind = ''compaction''
      then CompactionIntent (opt_str props ''customInstructions'') (str_prop props ''resultEntryId'')
      else NavigationIntent (opt_str props ''targetId'') (bool_prop props ''summarize'')
             (opt_str props ''customInstructions'') (opt_str props ''label'') (opt_str props ''summaryEntryId''))"

fun queue_props :: "queue_kind \<Rightarrow> json_object" where
  "queue_props (SteerQueue r) = [(''queue'', JsonString ''steer''), (''runId'', JsonString r)]"
| "queue_props (FollowUpQueue r) = [(''queue'', JsonString ''followUp''), (''runId'', JsonString r)]"
| "queue_props NextRunQueue = [(''queue'', JsonString ''nextRun'')]"

fun plain_record_fields :: "record_body \<Rightarrow> json_object" where
  "plain_record_fields (OperationStarted leaf i) =
     [(''sourceLeafId'', nullable_id leaf), (''intent'', JsonObject (intent_props i))]"
| "plain_record_fields (AbortRequested r) = [(''runId'', JsonString r)]"
| "plain_record_fields (OperationFinished r out e) =
     [(''runId'', JsonString r), (''outcome'', JsonString (name_of outcome_names out))] @
     opt_field ''error'' (\<lambda>(c, m). JsonObject [(''code'', JsonString c), (''message'', JsonString m)]) e"
| "plain_record_fields (StepAttempt s) =
     [(''runId'', JsonString (sa_runId s)), (''step'', JsonString (name_of step_names (sa_step s))),
      (''attempt'', json_int (sa_attempt s)), (''resultEntryId'', JsonString (sa_resultEntryId s))] @
     opt_field ''compactionReason'' (JsonString \<circ> reason_text) (sa_compactionReason s)"
| "plain_record_fields (ToolStarted t) =
     [(''runId'', JsonString (ts_runId t)), (''assistantEntryId'', JsonString (ts_assistantEntryId t)),
      (''toolIndex'', json_int (ts_toolIndex t)), (''toolCallId'', JsonString (ts_toolCallId t)),
      (''toolName'', JsonString (ts_toolName t)), (''effectiveArgs'', JsonObject []),
      (''resultEntryId'', JsonString (ts_resultEntryId t)),
      (''replay'', JsonString (case ts_replay t of ReplayNever \<Rightarrow> ''never'' | ReplaySafe \<Rightarrow> ''safe''))]"
| "plain_record_fields (QueueEnqueued q e) = queue_props q @ [(''target'', JsonObject (provisioned_props e))]"
| "plain_record_fields (QueueCancelled r e) = opt_field ''runId'' JsonString r @ [(''entryId'', JsonString e)]"
| "plain_record_fields (WriteDeferred r e) =
     [(''runId'', JsonString r), (''target'', JsonObject (provisioned_props e))]"
| "plain_record_fields (UsageRecorded u c) = []"

fun plain_body :: "record_body \<Rightarrow> bool" where
  "plain_body (OperationStarted leaf i) \<longleftrightarrow> plain_intent i"
| "plain_body (StepAttempt s) \<longleftrightarrow> pred_option (\<lambda>r. reason_of (reason_text r) = r) (sa_compactionReason s)"
| "plain_body (ToolStarted t) \<longleftrightarrow> ts_effectiveArgs t = JObject Ordinary []"
| "plain_body (QueueEnqueued q e) \<longleftrightarrow> plain_payload (entry_payload e)"
| "plain_body (WriteDeferred r e) \<longleftrightarrow> plain_payload (entry_payload e)"
| "plain_body (UsageRecorded u c) \<longleftrightarrow> False"
| "plain_body _ \<longleftrightarrow> True"

fun plain_record_view :: "record_type \<Rightarrow> json_object \<Rightarrow> record_body" where
  "plain_record_view OperationStartedType props =
     OperationStarted (opt_str props ''sourceLeafId'') (intent_view (obj_prop props ''intent''))"
| "plain_record_view AbortRequestedType props = AbortRequested (str_prop props ''runId'')"
| "plain_record_view OperationFinishedType props =
     OperationFinished (str_prop props ''runId'') (named outcome_names OutcomeFailed (str_prop props ''outcome''))
       (if map_of props ''error'' = None then None
        else Some (str_prop (obj_prop props ''error'') ''code'', str_prop (obj_prop props ''error'') ''message''))"
| "plain_record_view StepAttemptType props = StepAttempt
     \<lparr>sa_runId = str_prop props ''runId'', sa_step = named step_names AssistantStep (str_prop props ''step''),
      sa_attempt = int_prop props ''attempt'', sa_resultEntryId = str_prop props ''resultEntryId'',
      sa_compactionReason = map_option reason_of (opt_str props ''compactionReason'')\<rparr>"
| "plain_record_view ToolStartedType props = ToolStarted
     \<lparr>ts_runId = str_prop props ''runId'', ts_assistantEntryId = str_prop props ''assistantEntryId'',
      ts_toolIndex = int_prop props ''toolIndex'', ts_toolCallId = str_prop props ''toolCallId'',
      ts_toolName = str_prop props ''toolName'', ts_effectiveArgs = JObject Ordinary [],
      ts_resultEntryId = str_prop props ''resultEntryId'',
      ts_replay = (if str_prop props ''replay'' = ''never'' then ReplayNever else ReplaySafe)\<rparr>"
| "plain_record_view QueueEnqueuedType props = QueueEnqueued
     (if str_prop props ''queue'' = ''steer'' then SteerQueue (str_prop props ''runId'')
      else if str_prop props ''queue'' = ''followUp'' then FollowUpQueue (str_prop props ''runId'') else NextRunQueue)
     (provisioned_view (obj_prop props ''target''))"
| "plain_record_view QueueCancelledType props = QueueCancelled (opt_str props ''runId'') (str_prop props ''entryId'')"
| "plain_record_view WriteDeferredType props =
     WriteDeferred (str_prop props ''runId'') (provisioned_view (obj_prop props ''target''))"
| "plain_record_view UsageType props = AbortRequested (str_prop props ''runId'')"

definition plain_format :: payload_format where
  "plain_format = \<lparr>entry_fields = plain_fields, entry_view = plain_view, storable_entry = plain_payload,
     record_fields = plain_record_fields, record_view = plain_record_view, storable_record = plain_body\<rparr>"

lemma nullable_prop [simp]: "map_of props k = Some (nullable_id v) \<Longrightarrow> opt_str props k = v"
  by (simp add: opt_str_def nullable_id_def split: option.split)

lemma provisioned_objects [simp]:
  "list_all (plain_payload \<circ> entry_payload) es \<Longrightarrow>
     map (provisioned_view \<circ> object_props \<circ> (JsonObject \<circ> provisioned_props)) es = es"
  by (induction es) simp_all

lemma intent_view_props [simp]: "plain_intent i \<Longrightarrow> intent_view (intent_props i) = i"
proof (cases i)
  case (RunIntent p es s r)
  moreover assume "plain_intent i"
  ultimately show ?thesis by (cases s) (simp_all add: intent_view_def Let_def)
next
  case (CompactionIntent c r)
  then show ?thesis by (cases c) (simp_all add: intent_view_def Let_def)
next
  case (NavigationIntent t s c l e)
  then show ?thesis by (cases c; cases l; cases e) (simp_all add: intent_view_def Let_def)
qed

lemma intent_json [simp]: "json_ok (JsonObject (intent_props i))"
proof -
  have m: "json_ok (JsonArray (map (JsonObject \<circ> message_props) ms))" for ms
    by (rule json_ok_map) (simp del: json_ok.simps)
  have p: "json_ok (JsonArray (map (JsonObject \<circ> provisioned_props) es))" for es
    by (rule json_ok_map) (simp del: json_ok.simps)
  show ?thesis
  proof (cases i)
    case (RunIntent q es s r)
    then show ?thesis using m p by (cases s) (simp_all del: json_ok.simps(2))
  next
    case (CompactionIntent c r)
    then show ?thesis by (cases c) simp_all
  next
    case (NavigationIntent t s c l e)
    then show ?thesis by (cases c; cases l; cases e) simp_all
  qed
qed

lemma named_of [simp]:
  "named outcome_names d (name_of outcome_names v) = v" "named step_names k (name_of step_names u) = u"
  by (cases v; simp add: named_def name_of_def outcome_names_def)
    (cases u; simp add: named_def name_of_def step_names_def)

lemma plain_record_back: "plain_body b \<Longrightarrow> plain_record_view (body_type b) (plain_record_fields b) = b"
proof (cases b)
  case (OperationFinished r out e)
  then show ?thesis by (cases e) auto
next
  case (StepAttempt s)
  moreover assume "plain_body b"
  ultimately show ?thesis by (cases "sa_compactionReason s") simp_all
next
  case (ToolStarted t)
  moreover assume "plain_body b"
  ultimately show ?thesis by (cases "ts_replay t") simp_all
next
  case (QueueEnqueued q e)
  moreover assume "plain_body b"
  ultimately show ?thesis by (cases q) simp_all
next
  case (QueueCancelled r e)
  then show ?thesis by (cases r) simp_all
qed simp_all

lemma plain_record_props: "json_props record_keys (plain_record_fields b)"
proof (cases b)
  case (OperationFinished r out e)
  then show ?thesis by (cases e) (auto simp: json_props_def record_keys_def)
next
  case (StepAttempt s)
  then show ?thesis by (cases "sa_compactionReason s") (simp_all add: json_props_def record_keys_def)
next
  case (QueueEnqueued q e)
  then show ?thesis by (cases q) (simp_all add: json_props_def record_keys_def del: json_ok.simps(3))
next
  case (QueueCancelled r e)
  then show ?thesis by (cases r) (simp_all add: json_props_def record_keys_def)
next
  case (OperationStarted leaf i)
  then show ?thesis by (simp add: json_props_def record_keys_def del: json_ok.simps(3))
next
  case (WriteDeferred r e)
  then show ?thesis by (simp add: json_props_def record_keys_def del: json_ok.simps(3))
qed (simp_all add: json_props_def record_keys_def)

interpretation plain: json_payloads plain_format
proof
  show "\<exists>ms. map_of (record_fields plain_format (OperationStarted leaf i)) ''intent'' = Some (JsonObject ms) \<and>
      map_of ms ''kind'' = Some (JsonString (kind_name (intent_kind i)))" for leaf i
    by (cases i) (simp_all add: plain_format_def kind_name_def)
qed (simp_all add: plain_format_def plain_view_fields plain_fields_props plain_record_back plain_record_props)

end
