(* ===== verification/Jsonl.thy ===== *)
theory Jsonl
  imports JsonlSession PlainFormat
begin

text \<open>
  The guarantees of the session storage in a file, over \<open>JsonlStorage\<close> and for every payload format: each
  line is read back and no prefix of it is; the storage refines the one in memory, so that every session
  is a \<open>reachable\<close> storage of \<open>SessionStorage\<close>; a restart finds what was acknowledged; a fork appears
  completely or not at all. \<open>acknowledged_write_lost\<close> is what a client must not do: go on writing
  after an append that failed half way.
\<close>

lemma memory_write_step: "memory_write w s = Inr s' \<Longrightarrow> storage_step s s'"
  by (cases w) (auto simp: andThen_eq_Inr intro: storage_step.intros)

lemma memory_of_new:
  "memory_of (new_jsonl_storage (metadataFromHeader h path mtime)) =
     new_storage \<lparr>meta_id = header_id h, createdAt = header_createdAt h, parentSessionId = header_parentSessionId h\<rparr>"
  by (simp add: memory_of_def new_jsonl_storage_def new_storage_def metadataFromHeader_def session_metadata.defs)

definition header_metadata_of :: "jsonl_header \<Rightarrow> session_metadata" where
  "header_metadata_of h = \<lparr>meta_id = header_id h, createdAt = header_createdAt h, parentSessionId = header_parentSessionId h\<rparr>"

lemma created_memory:
  "create_jsonl path h fs = (Inr s, fs') \<Longrightarrow> memory_of s = new_storage (header_metadata_of h)"
  using create_jsonl_result [of path h fs "Inr s" fs'] memory_of_new by (auto simp: header_metadata_of_def)

subsection \<open>A concrete session\<close>

definition working_disk :: file_system where
  "working_disk = \<lparr>fs_files = [], fs_step = 0, fs_fault = (\<lambda>_. Works), fs_time = int\<rparr>"

definition sample_header :: jsonl_header where
  "sample_header = \<lparr>header_id = ''s1'', header_createdAt = 17, header_cwd = ''/w'', header_parentSessionId = None,
     header_legacyParent = None, header_metadata = None\<rparr>"

definition created_session :: jsonl_storage where
  "created_session = new_jsonl_storage (metadataFromHeader sample_header ''/f'' 1)"

definition created_disk :: file_system where
  "created_disk = snd (create_jsonl ''/f'' sample_header working_disk)"

definition greeting :: session_write where
  "greeting = AppendEntry 20 \<lparr>entry_id = ''e1'', entry_payload = MessagePayload (UserMessage (PlainContent ''hi'') 19) False\<rparr> ''main''"

lemma sample_created: "create_jsonl ''/f'' sample_header working_disk = (Inr created_session, created_disk)"
proof -
  have "fst (create_jsonl ''/f'' sample_header working_disk) = Inr created_session" by code_simp
  then show ?thesis unfolding created_disk_def by (metis prod.collapse)
qed

lemma sample_storable: "storable_header sample_header"
  by code_simp

lemma sample_session: "session plain_format sample_header ''/f'' created_session created_disk"
  by (rule session_created [OF sample_storable sample_created])

lemma greeting_writable: "writable plain_format greeting created_session"
  by code_simp

lemma created_reliable: "reliable created_disk"
  unfolding created_disk_def reliable_frame [OF create_jsonl_result [OF surjective_pairing, THEN conjunct1]]
  by (simp add: working_disk_def reliable_def)

text \<open>The same session on a disk that fails in the middle of the next append.\<close>

definition faulty_disk :: file_system where
  "faulty_disk = working_disk\<lparr>fs_fault := (\<lambda>n. if n = 2 then Breaks (FileFault ''full'') (Some 1) else Works)\<rparr>"

definition torn_disk :: file_system where
  "torn_disk = snd (create_jsonl ''/f'' sample_header faulty_disk)"

lemma torn_session: "session plain_format sample_header ''/f'' created_session torn_disk"
proof -
  have "fst (create_jsonl ''/f'' sample_header faulty_disk) = Inr created_session" by code_simp
  then have "create_jsonl ''/f'' sample_header faulty_disk = (Inr created_session, torn_disk)"
    unfolding torn_disk_def by (metis prod.collapse)
  then show ?thesis by (rule session_created [OF sample_storable])
qed

lemma torn_step: "fs_step torn_disk = 2 \<and> fs_fault torn_disk = fs_fault faulty_disk"
  unfolding torn_disk_def
  by (simp add: create_jsonl_def call_defs fileResult_eq bindA_cases run_simps Let_def faulty_disk_def working_disk_def
      put_file_def map_of_alist_update)

lemma greeting_planned: "\<exists>m. plan_write greeting (jsonl_state created_session) = Inr m"
  by (simp add: greeting_def created_session_def new_jsonl_storage_def initial_state_def requireLane_def
      validateUnusedId_def)

lemma torn_write: "fst (jsonl_write plain_format greeting created_session torn_disk) = Inl StorageFailure"
  using greeting_planned torn_step
    by (auto simp: jsonl_write_plan commit_mutation_def appendMutation_def fileResult_eq bindA_cases call_defs Let_def
        faulty_disk_def outcome_of_def)

lemma torn_reopens: "\<exists>s' fs'. reopening plain_format ''/f'' (snd (jsonl_write plain_format greeting created_session torn_disk)) s' fs'"
  using json_payloads.opens_again [OF plain.json_payloads_axioms torn_session greeting_writable prod.collapse [symmetric]] by (blast intro: opened)

subsection \<open>Properties\<close>

text \<open>
  C30. A mutation that JSON can hold is written as one line, \<^verbatim>\<open>parseMutation\<close> reads exactly that mutation back
  from it, and reports a syntax error, the sign of a torn tail, for every proper prefix of the line.
\<close>

theorem mutation_line_round_trip:
  assumes "json_payloads fmt" and "storable_mutation fmt m"
  shows "parseMutation fmt (mutation_text fmt m) = Inr m \<and> newline \<notin> set (mutation_text fmt m) \<and>
    (\<forall>n<length (mutation_text fmt m). parseMutation fmt (take n (mutation_text fmt m)) = Inl SyntaxKind)"
proof (intro conjI allI impI)
  fix n
  assume "n < length (mutation_text fmt m)"
  then show "parseMutation fmt (take n (mutation_text fmt m)) = Inl SyntaxKind"
    using json_payloads.torn_line [OF assms, of "take n (mutation_text fmt m)" "drop n (mutation_text fmt m)"] by simp
qed (use json_payloads.mutation_back [OF assms] json_payloads.mutation_text_line [OF assms] in simp_all)

theorem mutation_line_round_trip_witness:
  "parseMutation plain_format (mutation_text plain_format (LabelMutation 7 ''e1'' (Some ''done''))) =
     Inr (LabelMutation 7 ''e1'' (Some ''done''))"
  using mutation_line_round_trip [OF plain.json_payloads_axioms, of "LabelMutation 7 ''e1'' (Some ''done'')"]
  by (simp add: valid_sequence_def MAX_SAFE_INTEGER_def)

text \<open>
  C6. The file storage refines the storage in memory: from a new session, the writes it serves on a file system
  that works fail and succeed exactly as they do in memory and leave the same state, and opening the
  file afterwards yields that state.
\<close>

theorem file_storage_refines_memory:
  assumes "json_payloads fmt" and "storable_header h" and "create_jsonl path h fs = (Inr s, fs1)" and "reliable fs1"
    and "list_all (storable_write fmt) ws" and "int (length ws) \<le> MAX_SAFE_INTEGER"
    and "serve_writes fmt ws s fs1 = (rs, s', fs2)"
  shows "memory_writes ws (new_storage (header_metadata_of h)) = (rs, memory_of s') \<and>
    (\<exists>s''. fst (load_jsonl fmt path fs2) = Inr s'' \<and> memory_of s'' = memory_of s')"
proof -
  have st: "stored fmt h [] s fs1" "jsonl_path s = path" "sequence (jsonl_state s) = 0"
    using stored_created [OF assms(2,3)] by (simp_all add: initial_state_def)
  from json_payloads.serve_refines [OF assms(1) st(1) assms(4,5) _ assms(7)] assms(6) st
  obtain ms where mem: "memory_writes ws (memory_of s) = (rs, memory_of s')" and ms: "stored fmt h ms s' fs2"
    and r: "reliable fs2" "jsonl_path s' = path" by auto
  have v: "valid_session fmt h ms" "apply_all ms initial_state = Inr (jsonl_state s')"
    "content_of fs2 path = Some (session_text fmt h ms)" using ms r(2) by (simp_all add: stored_def)
  obtain s2 where l: "fst (load_jsonl fmt path fs2) = Inr s2"
    using json_payloads.load_reliable [OF assms(1) v(1) _ _ v(2), of fs2 path "[]" "jsonl_state s'" False] v r by auto
  have "\<exists>mtime. s2 = \<lparr>jsonl_meta = metadataFromHeader h path mtime, jsonl_state = jsonl_state s'\<rparr>"
    by (rule json_payloads.load_exact(2) [OF assms(1) v(1,3,2) surjective_pairing l])
  moreover have "\<exists>p mtime. jsonl_meta s' = metadataFromHeader h p mtime" using ms by (simp add: stored_def)
  ultimately have "memory_of s2 = memory_of s'"
    by (auto simp: memory_of_def metadataFromHeader_def session_metadata.defs)
  with l mem show ?thesis using created_memory [OF assms(3)] by simp
qed

theorem file_storage_refines_memory_witness:
  "\<exists>s'' rs s' fs2. serve_writes plain_format [greeting, SetName (Some ''n''), greeting] created_session created_disk = (rs, s', fs2) \<and>
     rs = [None, None, Some AlreadyExists] \<and> fst (load_jsonl plain_format ''/f'' fs2) = Inr s'' \<and> memory_of s'' = memory_of s'"
proof -
  obtain rs s' fs2 where run:
    "serve_writes plain_format [greeting, SetName (Some ''n''), greeting] created_session created_disk = (rs, s', fs2)"
    by (metis prod_cases3)
  have storable: "list_all (storable_write plain_format) [greeting, SetName (Some ''n''), greeting]" by code_simp
  have "fst (memory_writes [greeting, SetName (Some ''n''), greeting] (new_storage (header_metadata_of sample_header))) =
      [None, None, Some AlreadyExists]" by code_simp
  with file_storage_refines_memory [OF plain.json_payloads_axioms sample_storable sample_created created_reliable
      storable _ run] run
  show ?thesis by (auto simp: MAX_SAFE_INTEGER_def)
qed

text \<open>
  C5. A restart loses nothing that was acknowledged, as long as after an append that failed and left something
  in the file nothing was written before the file had been opened again: in the histories of \<open>session\<close>, whatever the file system does during the next write and during
  the attempts to open the file again, the session that is opened is the one the write left if it succeeded, and the
  one before the write, or the one with the write, if it failed. The condition on the history is needed:
  \<open>acknowledged_write_lost\<close> below goes on after a torn append and loses a write.
\<close>

theorem restart_keeps_acknowledged:
  assumes "json_payloads fmt" and "session fmt h path s fs" and "writable fmt w s"
    and "jsonl_write fmt w s fs = (r, fs1)" and "reopening fmt path fs1 s' fs'"
  shows "case r of Inr s1 \<Rightarrow> memory_of s' = memory_of s1
    | Inl e \<Rightarrow> memory_of s' = memory_of s \<or> memory_write w (memory_of s) = Inr (memory_of s')"
proof -
  obtain ms where "stored fmt h ms s fs" "jsonl_path s = path"
    using json_payloads.session_stored [OF assms(1,2)] by blast
  then show ?thesis using json_payloads.reopened_state [OF assms(1) _ assms(3,4)] assms(5) by blast
qed

theorem restart_keeps_acknowledged_witness:
  "\<exists>s' fs'. reopening plain_format ''/f'' (snd (jsonl_write plain_format greeting created_session torn_disk)) s' fs' \<and>
     (memory_of s' = memory_of created_session \<or> memory_write greeting (memory_of created_session) = Inr (memory_of s'))"
proof -
  have w: "jsonl_write plain_format greeting created_session torn_disk =
      (Inl StorageFailure, snd (jsonl_write plain_format greeting created_session torn_disk))"
    using torn_write by (metis prod.collapse)
  obtain s' fs' where o': "reopening plain_format ''/f'' (snd (jsonl_write plain_format greeting created_session torn_disk)) s' fs'"
    using torn_reopens by blast
  from restart_keeps_acknowledged [OF plain.json_payloads_axioms torn_session greeting_writable w o'] o'
  show ?thesis by auto
qed

text \<open>
  Every session in a file, in the histories of \<open>session\<close>, is a storage that the writes of
  the in-memory storage can reach. What holds of those holds of it: its state is consistent, and
  a lane has at most one open operation.
\<close>

theorem file_session_reachable:
  assumes "json_payloads fmt" and "session fmt h path s fs"
  shows "reachable (memory_of s) \<and> storage_ok (memory_of s)"
proof -
  have "reachable (memory_of s)"
    using assms(2)
  proof (induction rule: session.induct)
    case (session_created fs s fs')
    then show ?case using created_memory reachable_new by metis
  next
    case (session_written s fs w s' fs')
    obtain ms where "stored fmt h ms s fs" using json_payloads.session_stored [OF assms(1) session_written(1)] by blast
    from json_payloads.write_stored [OF assms(1) this session_written(2,3)]
    have "memory_write w (memory_of s) = Inr (memory_of s')" by (metis Inl_Inr_False)
    then show ?case using reachable_step [OF session_written.IH] memory_write_step by blast
  next
    case (session_refused s fs w e fs')
    show ?case by (rule session_refused.IH)
  next
    case (session_reopened s fs w r fs1 s' fs')
    obtain ms where ms: "stored fmt h ms s fs" "jsonl_path s = path"
      using json_payloads.session_stored [OF assms(1) session_reopened(1)] by blast
    from json_payloads.reopened_state [OF assms(1) ms(1) session_reopened(2,3)] session_reopened(4) ms(2)
    have r: "case r of Inr s1 \<Rightarrow> memory_of s' = memory_of s1
      | Inl e \<Rightarrow> memory_of s' = memory_of s \<or> memory_write w (memory_of s) = Inr (memory_of s')" by simp
    have "memory_write w (memory_of s) = Inr (memory_of s1)" if "r = Inr s1" for s1
      using json_payloads.write_stored [OF assms(1) ms(1) session_reopened(2,3)] that by (metis Inl_Inr_False)
    with r have "memory_of s' = memory_of s \<or> memory_write w (memory_of s) = Inr (memory_of s')"
      by (auto split: sum.splits)
    then show ?case using session_reopened.IH reachable_step memory_write_step by metis
  qed
  then show ?thesis using reachable_ok by blast
qed

theorem file_session_reachable_witness:
  "reachable (memory_of created_session) \<and> storage_ok (memory_of created_session)"
  by (rule file_session_reachable [OF plain.json_payloads_axioms sample_session])

text \<open>
  C27. Opening a session succeeds again: if no earlier append has failed and left something in the file without the
  file being opened again before the next write (the histories of \<open>session\<close>), then after one more write, whatever
  goes wrong in it, a file system that works opens the file. Nothing is claimed of a storage that writes on after a
  torn append.
\<close>

theorem session_opens_again:
  assumes "json_payloads fmt" and "session fmt h path s fs" and "writable fmt w s"
    and "jsonl_write fmt w s fs = (r, fs1)"
  shows "\<exists>s' fs'. load_jsonl fmt path (fs1\<lparr>fs_fault := (\<lambda>n. Works)\<rparr>) = (Inr s', fs')"
  using json_payloads.opens_again [OF assms] .

theorem session_opens_again_witness:
  "\<exists>s' fs'. load_jsonl plain_format ''/f''
     (snd (jsonl_write plain_format greeting created_session torn_disk)\<lparr>fs_fault := (\<lambda>n. Works)\<rparr>) = (Inr s', fs')"
  by (rule session_opens_again [OF plain.json_payloads_axioms torn_session greeting_writable prod.collapse [symmetric]])

text \<open>
  C28. A fork appears completely or not at all: whatever fails, only the destination and its staging file
  can change, and the destination holds what it held before, or the complete text of the fork. A fork that succeeds
  is the fork of the storage in memory.
\<close>

theorem fork_appears_completely:
  assumes "json_payloads fmt" and "session fmt h0 path0 s fs" and "storable_header h"
    and "\<And>ms. createForkMutations (jsonl_state s) options = Inr ms \<Longrightarrow> int (length ms) \<le> MAX_SAFE_INTEGER"
    and "fork_jsonl fmt path h options s fs = (r, fs')"
  shows "only_file {path, path @ ''.tmp''} fs fs' \<and>
    (case r of
       Inl e \<Rightarrow> content_of fs' path = content_of fs path \<or>
         (\<exists>ms. createForkMutations (jsonl_state s) options = Inr ms \<and> content_of fs' path = Some (session_text fmt h ms))
     | Inr s' \<Rightarrow> fork_storage (memory_of s) (header_metadata_of h) options = Inr (memory_of s'))"
proof -
  obtain ms0 where ms0: "stored fmt h0 ms0 s fs" using json_payloads.session_stored [OF assms(1,2)] by blast
  note f = json_payloads.fork_result [OF assms(1) ms0 assms(3) assms(4) assms(5)]
  show ?thesis
  proof (cases r)
    case (Inl e)
    then show ?thesis using f(1) f(2) [OF _ Inl] by simp
  next
    case (Inr s')
    obtain ms st mtime where ms: "createForkMutations (jsonl_state s) options = Inr ms"
      "apply_all ms initial_state = Inr st" "s' = \<lparr>jsonl_meta = metadataFromHeader h path mtime, jsonl_state = st\<rparr>"
      "stored fmt h ms s' fs'"
      using f(3) [OF _ Inr] by blast
    have "fork_storage (memory_of s) (header_metadata_of h) options = Inr (memory_of s')"
      using ms by (simp add: fork_storage_def memory_of_def new_storage_def header_metadata_of_def metadataFromHeader_def
          session_metadata.defs)
    then show ?thesis using f(1) Inr by simp
  qed
qed

theorem fork_appears_completely_witness:
  "only_file {''/g'', ''/g.tmp''} created_disk
     (snd (fork_jsonl plain_format ''/g'' sample_header ForkTree created_session created_disk))"
proof -
  have m: "createForkMutations (jsonl_state created_session) ForkTree = Inr [LaneMutation 1 ''main'' None]" by code_simp
  have "int (length ms) \<le> MAX_SAFE_INTEGER"
    if "createForkMutations (jsonl_state created_session) ForkTree = Inr ms" for ms
    using that unfolding m by (auto simp: MAX_SAFE_INTEGER_def)
  from fork_appears_completely [where options = ForkTree and path = "''/g''", OF plain.json_payloads_axioms sample_session sample_storable this prod.collapse [symmetric]]
  show ?thesis by simp
qed

text \<open>
  C29. An acknowledged write can be lost: after an append that failed when its first character had reached
  the file, the storage goes on, the next write succeeds, but a session opened from the file is without it.
\<close>

theorem acknowledged_write_lost:
  "\<exists>fs1 s' fs2 s'' fs3.
     jsonl_write plain_format greeting created_session torn_disk = (Inl StorageFailure, fs1) \<and>
     jsonl_write plain_format (SetName (Some ''n'')) created_session fs1 = (Inr s', fs2) \<and>
     session_name (jsonl_state s') = Some ''n'' \<and>
     load_jsonl plain_format ''/f'' (fs2\<lparr>fs_fault := (\<lambda>n. Works)\<rparr>) = (Inr s'', fs3) \<and>
     session_name (jsonl_state s'') = None"
proof -
  obtain fs1 where w1: "jsonl_write plain_format greeting created_session torn_disk = (Inl StorageFailure, fs1)"
    using torn_write by (metis prod.collapse)
  obtain r fs2 where w2: "jsonl_write plain_format (SetName (Some ''n'')) created_session fs1 = (r, fs2)" by fastforce
  obtain ms where st: "stored plain_format sample_header ms created_session torn_disk" "jsonl_path created_session = ''/f''"
    using json_payloads.session_stored [OF plain.json_payloads_axioms torn_session] by blast
  obtain m where m: "plan_write greeting (jsonl_state created_session) = Inr m" using greeting_planned by blast
  have c: "content_of torn_disk ''/f'' = Some (session_text plain_format sample_header ms)" using st by (simp add: stored_def)
  have "take 1 (encodeMutation plain_format m) = [CHR ''{'']" by (simp add: encodeMutation_def mutation_text_def)
  then have "fs1 = append_text ''/f'' [CHR ''{''] (torn_disk\<lparr>fs_step := 3\<rparr>)"
    using w1 m torn_step st(2)
    by (auto simp: jsonl_write_plan commit_mutation_def appendMutation_def fileResult_eq bindA_cases call_defs Let_def
        faulty_disk_def outcome_of_def)
  then have fs1: "content_of fs1 ''/f'' = Some (session_text plain_format sample_header ms @ [CHR ''{''])"
    "fs_step fs1 = 3 \<and> fs_fault fs1 = fs_fault faulty_disk"
    using c torn_step by (simp_all, simp add: append_text_def put_file_def)
  have "applyMutation (NameMutation 1 (Some ''n'')) (jsonl_state created_session) =
      Inr ((jsonl_state created_session)\<lparr>sequence := 1, session_name := Some ''n'', log := [NameItem 1 (Some ''n'')]\<rparr>)"
    "nextSequence (jsonl_state created_session) = 1"
    by (simp_all add: created_session_def new_jsonl_storage_def initial_state_def applyMutation_def nextSequence_def)
  then obtain s' where s': "r = Inr s'" "session_name (jsonl_state s') = Some ''n''"
    using w2 fs1(2)
    by (auto simp: jsonl_setName_def commit_mutation_def appendMutation_def fileResult_eq bindA_cases call_defs Let_def
        faulty_disk_def run_simps)
  have "writable plain_format (SetName (Some ''n'')) created_session" by code_simp
  note lost = json_payloads.write_after_torn_is_lost [OF plain.json_payloads_axioms st(1) this _ _ reliable_fault,
    unfolded st(2), OF fs1(1) w2 [unfolded s'(1)]]
  obtain s'' fs3 where "load_jsonl plain_format ''/f'' (fs2\<lparr>fs_fault := (\<lambda>n. Works)\<rparr>) = (Inr s'', fs3)"
    "jsonl_state s'' = jsonl_state created_session" using lost by blast
  moreover have "session_name (jsonl_state created_session) = None"
    by (simp add: created_session_def new_jsonl_storage_def initial_state_def)
  ultimately show ?thesis using w1 w2 s' by auto
qed

end
