(* ===== verification/Compaction.thy ===== *)
theory Compaction
  imports SessionContext "HOL-Library.List_Lexorder"
begin

text \<open>
  Compaction of a session, \<^verbatim>\<open>pi/packages/agent/src/harness/compaction/compaction.ts\<close> and \<^verbatim>\<open>utils.ts\<close>: the
  token estimate, the choice of the cut point, the preparation that splits the context into what is
  summarised and what is retained, and the summary itself.

  Parameters: \<open>json\<close> is \<^verbatim>\<open>JSON.stringify\<close> on an \<^verbatim>\<open>unknown\<close> value (\<open>None\<close>: it throws, \<open>Some None\<close>: it returns
  \<^verbatim>\<open>undefined\<close>), and \<open>llm\<close> the model, the outcome of a summarisation request with its retries. A missing
  index (-1 in the source) is \<open>None\<close>. File paths are strings of code units; \<open>path_text\<close> writes the ones
  below 256 into the text of the summary. Budgets are integers, 0.8 and 0.5 of the reserve are exact.
\<close>

type_synonym stringify = "js_value \<Rightarrow> string option option"

subsection \<open>Token estimate\<close>

definition safeJsonStringify :: "stringify \<Rightarrow> js_value \<Rightarrow> string" where
  "safeJsonStringify json v =
     (case json v of None \<Rightarrow> ''[unserializable]'' | Some None \<Rightarrow> ''undefined'' | Some (Some t) \<Rightarrow> t)"

definition or_nonzero :: "int \<Rightarrow> int \<Rightarrow> int" where
  "or_nonzero a b = (if a \<noteq> 0 then a else b)"

definition calculateContextTokens :: "usage \<Rightarrow> int" where
  "calculateContextTokens u =
     or_nonzero (u_totalTokens u) (u_input u + u_output u + u_cacheRead u + u_cacheWrite u)"

definition getAssistantUsage :: "agent_message \<Rightarrow> usage option" where
  "getAssistantUsage m = (case m of
     AssistantMessage a \<Rightarrow>
       if am_stopReason a \<noteq> Aborted \<and> am_stopReason a \<noteq> ErrorStop \<and> calculateContextTokens (am_usage a) > 0
       then Some (am_usage a) else None
   | _ \<Rightarrow> None)"

text \<open>The loop from the end of the entries.\<close>

fun last_usage :: "entry list \<Rightarrow> usage option" where
  "last_usage [] = None"
| "last_usage (e # es) =
     (case entry_payload e of
        MessagePayload m t \<Rightarrow> (case getAssistantUsage m of Some u \<Rightarrow> Some u | None \<Rightarrow> last_usage es)
      | _ \<Rightarrow> last_usage es)"

definition getLastAssistantUsage :: "entry list \<Rightarrow> usage option" where
  "getLastAssistantUsage es = last_usage (rev es)"

definition ESTIMATED_IMAGE_CHARS :: nat where "ESTIMATED_IMAGE_CHARS = 4800"

fun block_chars :: "content_block list \<Rightarrow> nat" where
  "block_chars [] = 0"
| "block_chars (TextContent t s # bs) = length t + block_chars bs"
| "block_chars (ImageContent d m # bs) = ESTIMATED_IMAGE_CHARS + block_chars bs"
| "block_chars (_ # bs) = block_chars bs"

definition estimateTextAndImageContentChars :: "user_content \<Rightarrow> nat" where
  "estimateTextAndImageContentChars c = (case c of PlainContent s \<Rightarrow> length s | BlockContent bs \<Rightarrow> block_chars bs)"

fun assistant_chars :: "stringify \<Rightarrow> content_block list \<Rightarrow> nat" where
  "assistant_chars json [] = 0"
| "assistant_chars json (TextContent t s # bs) = length t + assistant_chars json bs"
| "assistant_chars json (ThinkingContent t s r # bs) = length t + assistant_chars json bs"
| "assistant_chars json (ToolCallContent c # bs) =
     length (call_name c) + length (safeJsonStringify json (call_arguments c)) + assistant_chars json bs"
| "assistant_chars json (ImageContent d m # bs) = assistant_chars json bs"

text \<open>\<^verbatim>\<open>Math.ceil(chars / 4)\<close>\<close>

definition quarter :: "nat \<Rightarrow> int" where
  "quarter chars = int ((chars + 3) div 4)"

fun estimateTokens :: "stringify \<Rightarrow> agent_message \<Rightarrow> int" where
  "estimateTokens json (UserMessage c t) = quarter (estimateTextAndImageContentChars c)"
| "estimateTokens json (AssistantMessage a) = quarter (assistant_chars json (am_content a))"
| "estimateTokens json (CustomMessage c) = quarter (estimateTextAndImageContentChars (cm_content c))"
| "estimateTokens json (ToolResultMessage r) = quarter (block_chars (tr_content r))"
| "estimateTokens json (BashExecutionMessage b) = quarter (length (bash_command b) + length (bash_output b))"
| "estimateTokens json (BranchSummaryMessage s i t) = quarter (length s)"
| "estimateTokens json (CompactionSummaryMessage s n t) = quarter (length s)"
| "estimateTokens json (ForeignMessage r v) = 0"

record context_estimate =
  ce_tokens :: int
  ce_usageTokens :: int
  ce_trailingTokens :: int
  ce_lastUsageIndex :: "nat option"

fun usage_info :: "agent_message list \<Rightarrow> nat \<Rightarrow> (usage \<times> nat) option" where
  "usage_info ms 0 = None"
| "usage_info ms (Suc i) = (case getAssistantUsage (ms ! i) of Some u \<Rightarrow> Some (u, i) | None \<Rightarrow> usage_info ms i)"

definition getLastAssistantUsageInfo :: "agent_message list \<Rightarrow> (usage \<times> nat) option" where
  "getLastAssistantUsageInfo ms = usage_info ms (length ms)"

definition total_tokens :: "stringify \<Rightarrow> agent_message list \<Rightarrow> int" where
  "total_tokens json ms = sum_list (map (estimateTokens json) ms)"

definition estimateContextTokens :: "stringify \<Rightarrow> agent_message list \<Rightarrow> context_estimate" where
  "estimateContextTokens json ms =
     (case getLastAssistantUsageInfo ms of
        None \<Rightarrow> \<lparr>ce_tokens = total_tokens json ms, ce_usageTokens = 0, ce_trailingTokens = total_tokens json ms,
                 ce_lastUsageIndex = None\<rparr>
      | Some (u, i) \<Rightarrow>
          let usageTokens = calculateContextTokens u; trailing = total_tokens json (drop (i + 1) ms)
          in \<lparr>ce_tokens = usageTokens + trailing, ce_usageTokens = usageTokens, ce_trailingTokens = trailing,
              ce_lastUsageIndex = Some i\<rparr>)"

record compaction_settings =
  cs_enabled :: bool
  cs_reserveTokens :: int
  cs_keepRecentTokens :: int

definition DEFAULT_COMPACTION_SETTINGS :: compaction_settings where
  "DEFAULT_COMPACTION_SETTINGS = \<lparr>cs_enabled = True, cs_reserveTokens = 16384, cs_keepRecentTokens = 20000\<rparr>"

definition shouldCompact :: "int \<Rightarrow> int \<Rightarrow> compaction_settings \<Rightarrow> bool" where
  "shouldCompact contextTokens contextWindow settings \<longleftrightarrow>
     (if \<not> cs_enabled settings then False else contextTokens > contextWindow - cs_reserveTokens settings)"

subsection \<open>The cut point\<close>

definition is_message :: "entry \<Rightarrow> bool" where
  "is_message e \<longleftrightarrow> (case entry_payload e of MessagePayload m t \<Rightarrow> True | _ \<Rightarrow> False)"

definition message_role_of :: "entry \<Rightarrow> message_role option" where
  "message_role_of e = (case entry_payload e of MessagePayload m t \<Rightarrow> Some (role_of m) | _ \<Rightarrow> None)"

definition is_cut_point :: "entry \<Rightarrow> bool" where
  "is_cut_point e \<longleftrightarrow>
     message_role_of e \<in> Some ` {RoleBash, RoleCustom, RoleBranchSummary, RoleCompactionSummary, RoleUser, RoleAssistant} \<or>
     entry_type_of e = BranchSummaryType"

definition findValidCutPoints :: "entry list \<Rightarrow> nat \<Rightarrow> nat \<Rightarrow> nat list" where
  "findValidCutPoints es start stop = filter (\<lambda>i. is_cut_point (es ! i)) [start..<stop]"

definition starts_turn :: "entry \<Rightarrow> bool" where
  "starts_turn e \<longleftrightarrow> entry_type_of e = BranchSummaryType \<or> message_role_of e = Some RoleUser \<or> message_role_of e = Some RoleBash"

text \<open>The loops count down; their argument is one more than the index of the source.\<close>

fun turn_start :: "entry list \<Rightarrow> nat \<Rightarrow> nat \<Rightarrow> nat option" where
  "turn_start es start 0 = None"
| "turn_start es start (Suc i) =
     (if i < start then None else if starts_turn (es ! i) then Some i else turn_start es start i)"

definition findTurnStartIndex :: "entry list \<Rightarrow> nat \<Rightarrow> nat \<Rightarrow> nat option" where
  "findTurnStartIndex es entryIndex start = turn_start es start (entryIndex + 1)"

definition entry_tokens :: "stringify \<Rightarrow> entry \<Rightarrow> int" where
  "entry_tokens json e = (case entry_payload e of MessagePayload m t \<Rightarrow> estimateTokens json m | _ \<Rightarrow> 0)"

text \<open>The entry at which the messages behind it first use up the budget.\<close>

fun budget_index :: "stringify \<Rightarrow> entry list \<Rightarrow> nat \<Rightarrow> int \<Rightarrow> int \<Rightarrow> nat \<Rightarrow> nat option" where
  "budget_index json es start keep accumulated 0 = None"
| "budget_index json es start keep accumulated (Suc i) =
     (if i < start then None
      else if \<not> is_message (es ! i) then budget_index json es start keep accumulated i
      else let accumulated = accumulated + entry_tokens json (es ! i)
           in if keep \<le> accumulated then Some i else budget_index json es start keep accumulated i)"

fun skip_back :: "entry list \<Rightarrow> nat \<Rightarrow> nat \<Rightarrow> nat" where
  "skip_back es start 0 = 0"
| "skip_back es start (Suc c) =
     (if \<not> start < Suc c then Suc c
      else if entry_type_of (es ! c) = CompactionType \<or> is_message (es ! c) then Suc c
      else skip_back es start c)"

record cut_point =
  firstKeptEntryIndex :: nat
  turnStartIndex :: "nat option"
  isSplitTurn :: bool

definition chosen_cut :: "stringify \<Rightarrow> entry list \<Rightarrow> nat \<Rightarrow> nat \<Rightarrow> int \<Rightarrow> nat list \<Rightarrow> nat" where
  "chosen_cut json es start stop keep cutPoints =
     (case budget_index json es start keep 0 stop of
        None \<Rightarrow> hd cutPoints
      | Some i \<Rightarrow> (case List.find (\<lambda>c. i \<le> c) cutPoints of Some c \<Rightarrow> c | None \<Rightarrow> hd cutPoints))"

definition findCutPoint :: "stringify \<Rightarrow> entry list \<Rightarrow> nat \<Rightarrow> nat \<Rightarrow> int \<Rightarrow> cut_point" where
  "findCutPoint json es start stop keep =
     (let cutPoints = findValidCutPoints es start stop in
      if cutPoints = [] then \<lparr>firstKeptEntryIndex = start, turnStartIndex = None, isSplitTurn = False\<rparr>
      else
        let cutIndex = skip_back es start (chosen_cut json es start stop keep cutPoints);
            isUserMessage = (message_role_of (es ! cutIndex) = Some RoleUser);
            turn = (if isUserMessage then None else findTurnStartIndex es cutIndex start)
        in \<lparr>firstKeptEntryIndex = cutIndex, turnStartIndex = turn,
            isSplitTurn = (\<not> isUserMessage \<and> turn \<noteq> None)\<rparr>)"

subsection \<open>File operations\<close>

record file_ops =
  fo_read :: "js_string list"
  fo_written :: "js_string list"
  fo_edited :: "js_string list"

definition createFileOps :: file_ops where
  "createFileOps = \<lparr>fo_read = [], fo_written = [], fo_edited = []\<rparr>"

text \<open>\<^verbatim>\<open>Set.add\<close>: a set keeps the order of insertion.\<close>

definition set_add :: "'a \<Rightarrow> 'a list \<Rightarrow> 'a list" where
  "set_add x xs = (if x \<in> set xs then xs else xs @ [x])"

definition path_text :: "js_string \<Rightarrow> string" where
  "path_text p = map (\<lambda>u. char_of (unat u)) p"

definition property_of :: "js_value \<Rightarrow> string \<Rightarrow> js_value option" where
  "property_of v k = (case v of JObject sh ps \<Rightarrow> map_of ps (units k) | _ \<Rightarrow> None)"

definition call_path :: "tool_call \<Rightarrow> js_string option" where
  "call_path c = (case property_of (call_arguments c) ''path'' of
     Some (JString p) \<Rightarrow> if p = [] then None else Some p | _ \<Rightarrow> None)"

definition add_call :: "tool_call \<Rightarrow> file_ops \<Rightarrow> file_ops" where
  "add_call c ops = (case call_path c of None \<Rightarrow> ops
     | Some p \<Rightarrow>
         if call_name c = ''read'' then ops\<lparr>fo_read := set_add p (fo_read ops)\<rparr>
         else if call_name c = ''write'' then ops\<lparr>fo_written := set_add p (fo_written ops)\<rparr>
         else if call_name c = ''edit'' then ops\<lparr>fo_edited := set_add p (fo_edited ops)\<rparr>
         else ops)"

definition extractFileOpsFromMessage :: "agent_message \<Rightarrow> file_ops \<Rightarrow> file_ops" where
  "extractFileOpsFromMessage m ops = (case m of
     AssistantMessage a \<Rightarrow> fold add_call (tool_calls (am_content a)) ops | _ \<Rightarrow> ops)"

text \<open>The strings of a list property; other elements are not paths and do not occur in details written here.\<close>

definition paths_of :: "js_value option \<Rightarrow> js_string list" where
  "paths_of v = (case v of
     Some (JArray vs) \<Rightarrow> List.map_filter (\<lambda>x. case x of JString s \<Rightarrow> Some s | _ \<Rightarrow> None) vs | _ \<Rightarrow> [])"

definition extractFileOperations :: "agent_message list \<Rightarrow> compaction_data option \<Rightarrow> file_ops" where
  "extractFileOperations ms prev =
     (let ops = (case Option.bind prev cd_details of None \<Rightarrow> createFileOps
        | Some d \<Rightarrow> createFileOps\<lparr>fo_read := fold set_add (paths_of (property_of d ''readFiles'')) [],
            fo_edited := fold set_add (paths_of (property_of d ''modifiedFiles'')) []\<rparr>)
      in fold extractFileOpsFromMessage ms ops)"

definition computeFileLists :: "file_ops \<Rightarrow> js_string list \<times> js_string list" where
  "computeFileLists ops =
     (let modified = fold set_add (fo_written ops) (fo_edited ops)
      in (sort (filter (\<lambda>f. f \<notin> set modified) (fo_read ops)), sort modified))"

definition join_with :: "string \<Rightarrow> string list \<Rightarrow> string" where
  "join_with sep xs = (case xs of [] \<Rightarrow> [] | y # ys \<Rightarrow> y @ concat (map (\<lambda>z. sep @ z) ys))"

definition formatFileOperations :: "js_string list \<Rightarrow> js_string list \<Rightarrow> string" where
  "formatFileOperations readFiles modifiedFiles =
     (let sections =
        (if readFiles = [] then []
         else [''<read-files>'' @ newline @ join_with newline (map path_text readFiles) @ newline @ ''</read-files>'']) @
        (if modifiedFiles = [] then []
         else [''<modified-files>'' @ newline @ join_with newline (map path_text modifiedFiles) @ newline @ ''</modified-files>''])
      in if sections = [] then [] else newline @ newline @ join_with (newline @ newline) sections)"

subsection \<open>The text of a conversation\<close>

definition text_blocks :: "content_block list \<Rightarrow> string list" where
  "text_blocks bs = List.map_filter (\<lambda>b. case b of TextContent t s \<Rightarrow> Some t | _ \<Rightarrow> None) bs"

definition contentText :: "user_content \<Rightarrow> string \<Rightarrow> string" where
  "contentText c sep = (case c of PlainContent s \<Rightarrow> s | BlockContent bs \<Rightarrow> join_with sep (text_blocks bs))"

definition TOOL_RESULT_MAX_CHARS :: nat where "TOOL_RESULT_MAX_CHARS = 2000"

definition truncateForSummary :: "string \<Rightarrow> nat \<Rightarrow> string" where
  "truncateForSummary text maxChars =
     (if length text \<le> maxChars then text
      else take maxChars text @ newline @ newline @ ''[... '' @ decimal (length text - maxChars) @
             '' more characters truncated]'')"

definition call_text :: "stringify \<Rightarrow> tool_call \<Rightarrow> string" where
  "call_text json c = call_name c @ ''('' @
     join_with '', '' (case call_arguments c of
         JObject sh ps \<Rightarrow> map (\<lambda>(k, v). path_text k @ ''='' @ safeJsonStringify json v) ps | _ \<Rightarrow> []) @ '')''"

definition assistant_parts :: "stringify \<Rightarrow> content_block list \<Rightarrow> string list" where
  "assistant_parts json bs =
     (let thinking = List.map_filter (\<lambda>b. case b of ThinkingContent t s r \<Rightarrow> Some t | _ \<Rightarrow> None) bs;
          calls = map (call_text json) (tool_calls bs)
      in (if thinking = [] then [] else [''[Assistant thinking]: '' @ join_with newline thinking]) @
         (if text_blocks bs = [] then [] else [''[Assistant]: '' @ join_with newline (text_blocks bs)]) @
         (if calls = [] then [] else [''[Assistant tool calls]: '' @ join_with ''; '' calls]))"

definition message_parts :: "stringify \<Rightarrow> agent_message \<Rightarrow> string list" where
  "message_parts json m = (case m of
     UserMessage c t \<Rightarrow> (let content = contentText c [] in if content = [] then [] else [''[User]: '' @ content])
   | AssistantMessage a \<Rightarrow> assistant_parts json (am_content a)
   | ToolResultMessage r \<Rightarrow>
       (let content = join_with [] (text_blocks (tr_content r))
        in if content = [] then [] else [''[Tool result]: '' @ truncateForSummary content TOOL_RESULT_MAX_CHARS])
   | _ \<Rightarrow> [])"

definition serializeConversation :: "stringify \<Rightarrow> agent_message list \<Rightarrow> string" where
  "serializeConversation json ms = join_with (newline @ newline) (concat (map (message_parts json) ms))"

subsection \<open>Summaries\<close>

definition SUMMARIZATION_SYSTEM_PROMPT :: string where
  "SUMMARIZATION_SYSTEM_PROMPT = join_with newline
   [''You are a context summarization assistant. Your task is to read a conversation between a user and an AI assistant, then produce a structured summary following the exact format specified.'',
    [],
    ''Do NOT continue the conversation. Do NOT respond to any questions in the conversation. ONLY output the structured summary.'']"

definition SUMMARIZATION_PROMPT :: string where
  "SUMMARIZATION_PROMPT = join_with newline
   [''The messages above are a conversation to summarize. Create a structured context checkpoint summary that another LLM will use to continue the work.'',
    [],
    ''Use this EXACT format:'',
    [],
    ''## Goal'',
    ''[What is the user trying to accomplish? Can be multiple items if the session covers different tasks.]'',
    [],
    ''## Constraints & Preferences'',
    ''- [Any constraints, preferences, or requirements mentioned by user]'',
    ''- [Or \"(none)\" if none were mentioned]'',
    [],
    ''## Progress'',
    ''### Done'',
    ''- [x] [Completed tasks/changes]'',
    [],
    ''### In Progress'',
    ''- [ ] [Current work]'',
    [],
    ''### Blocked'',
    ''- [Issues preventing progress, if any]'',
    [],
    ''## Key Decisions'',
    ''- **[Decision]**: [Brief rationale]'',
    [],
    ''## Next Steps'',
    ''1. [Ordered list of what should happen next]'',
    [],
    ''## Critical Context'',
    ''- [Any data, examples, or references needed to continue]'',
    ''- [Or \"(none)\" if not applicable]'',
    [],
    ''Keep each section concise. Preserve exact file paths, function names, and error messages.'']"

definition UPDATE_SUMMARIZATION_PROMPT :: string where
  "UPDATE_SUMMARIZATION_PROMPT = join_with newline
   [''The messages above are NEW conversation messages to incorporate into the existing summary provided in <previous-summary> tags.'',
    [],
    ''Update the existing structured summary with new information. RULES:'',
    ''- PRESERVE all existing information from the previous summary'',
    ''- ADD new progress, decisions, and context from the new messages'',
    ''- UPDATE the Progress section: move items from \"In Progress\" to \"Done\" when completed'',
    ''- UPDATE \"Next Steps\" based on what was accomplished'',
    ''- PRESERVE exact file paths, function names, and error messages'',
    ''- If something is no longer relevant, you may remove it'',
    [],
    ''Use this EXACT format:'',
    [],
    ''## Goal'',
    ''[Preserve existing goals, add new ones if the task expanded]'',
    [],
    ''## Constraints & Preferences'',
    ''- [Preserve existing, add new ones discovered]'',
    [],
    ''## Progress'',
    ''### Done'',
    ''- [x] [Include previously done items AND newly completed items]'',
    [],
    ''### In Progress'',
    ''- [ ] [Current work - update based on progress]'',
    [],
    ''### Blocked'',
    ''- [Current blockers - remove if resolved]'',
    [],
    ''## Key Decisions'',
    ''- **[Decision]**: [Brief rationale] (preserve all previous, add new)'',
    [],
    ''## Next Steps'',
    ''1. [Update based on current state]'',
    [],
    ''## Critical Context'',
    ''- [Preserve important context, add new if needed]'',
    [],
    ''Keep each section concise. Preserve exact file paths, function names, and error messages.'']"

definition TURN_PREFIX_SUMMARIZATION_PROMPT :: string where
  "TURN_PREFIX_SUMMARIZATION_PROMPT = join_with newline
   [''This is the PREFIX of a turn that was too large to keep. The SUFFIX (recent work) is retained.'',
    [],
    ''Summarize the prefix to provide context for the retained suffix:'',
    [],
    ''## Original Request'',
    ''[What did the user ask for in this turn?]'',
    [],
    ''## Early Progress'',
    ''- [Key decisions and work done in the prefix]'',
    [],
    ''## Context for Suffix'',
    ''- [Information needed to understand the retained recent work]'',
    [],
    ''Be concise. Focus on what's needed to understand the kept suffix.'']"

datatype compaction_code = CompactionAborted | SummarizationFailed

datatype compaction_error = CompactionError compaction_code string

record summary_model =
  sm_maxTokens :: int
  sm_reasoning :: bool

record summary_request =
  sr_system :: string
  sr_prompt :: string
  sr_maxTokens :: int
  sr_reasoning :: "string option"

type_synonym completion = "summary_request \<Rightarrow> assistant_message"

definition capped :: "int \<Rightarrow> summary_model \<Rightarrow> int" where
  "capped tokens model = (if sm_maxTokens model > 0 then min tokens (sm_maxTokens model) else tokens)"

definition reasoning_option :: "summary_model \<Rightarrow> string option \<Rightarrow> string option" where
  "reasoning_option model thinkingLevel =
     (case thinkingLevel of None \<Rightarrow> None
      | Some l \<Rightarrow> if sm_reasoning model \<and> l \<noteq> [] \<and> l \<noteq> ''off'' then Some l else None)"

definition given_text :: "string option \<Rightarrow> bool" where
  "given_text t \<longleftrightarrow> t \<noteq> None \<and> t \<noteq> Some []"

definition summary_prompt :: "stringify \<Rightarrow> agent_message list \<Rightarrow> string option \<Rightarrow> string option \<Rightarrow> string" where
  "summary_prompt json ms customInstructions previousSummary =
     ''<conversation>'' @ newline @ serializeConversation json (convertToLlm ms) @ newline @ ''</conversation>'' @
     newline @ newline @
     (if given_text previousSummary
      then ''<previous-summary>'' @ newline @ the previousSummary @ newline @ ''</previous-summary>'' @ newline @ newline
      else []) @
     (if given_text previousSummary then UPDATE_SUMMARIZATION_PROMPT else SUMMARIZATION_PROMPT) @
     (if given_text customInstructions then newline @ newline @ ''Additional focus: '' @ the customInstructions else [])"

definition message_or :: "string option \<Rightarrow> string \<Rightarrow> string" where
  "message_or t fallback = (if given_text t then the t else fallback)"

definition summary_result :: "string \<Rightarrow> assistant_message \<Rightarrow> compaction_error + (string \<times> usage)" where
  "summary_result what response =
     (if am_stopReason response = Aborted
      then Inl (CompactionError CompactionAborted (message_or (am_errorMessage response) (what @ '' aborted'')))
      else if am_stopReason response = ErrorStop
      then Inl (CompactionError SummarizationFailed
             (what @ '' failed: '' @ message_or (am_errorMessage response) ''Unknown error''))
      else Inr (join_with newline (text_blocks (am_content response)), am_usage response))"

definition generateSummaryWithUsage :: "stringify \<Rightarrow> completion \<Rightarrow> agent_message list \<Rightarrow> summary_model \<Rightarrow> int \<Rightarrow>
    string option \<Rightarrow> string option \<Rightarrow> string option \<Rightarrow> compaction_error + (string \<times> usage)" where
  "generateSummaryWithUsage json llm ms model reserveTokens customInstructions previousSummary thinkingLevel =
     summary_result ''Summarization'' (llm
       \<lparr>sr_system = SUMMARIZATION_SYSTEM_PROMPT,
        sr_prompt = summary_prompt json ms customInstructions previousSummary,
        sr_maxTokens = capped (8 * reserveTokens div 10) model,
        sr_reasoning = reasoning_option model thinkingLevel\<rparr>)"

definition generateTurnPrefixSummary :: "stringify \<Rightarrow> completion \<Rightarrow> agent_message list \<Rightarrow> summary_model \<Rightarrow> int \<Rightarrow>
    string option \<Rightarrow> compaction_error + (string \<times> usage)" where
  "generateTurnPrefixSummary json llm ms model reserveTokens thinkingLevel =
     summary_result ''Turn prefix summarization'' (llm
       \<lparr>sr_system = SUMMARIZATION_SYSTEM_PROMPT,
        sr_prompt = ''<conversation>'' @ newline @ serializeConversation json (convertToLlm ms) @ newline @
          ''</conversation>'' @ newline @ newline @ TURN_PREFIX_SUMMARIZATION_PROMPT,
        sr_maxTokens = capped (reserveTokens div 2) model,
        sr_reasoning = reasoning_option model thinkingLevel\<rparr>)"

definition generateSummary :: "stringify \<Rightarrow> completion \<Rightarrow> agent_message list \<Rightarrow> summary_model \<Rightarrow> int \<Rightarrow>
    string option \<Rightarrow> string option \<Rightarrow> string option \<Rightarrow> compaction_error + string" where
  "generateSummary json llm ms model reserveTokens customInstructions previousSummary thinkingLevel =
     andThen (generateSummaryWithUsage json llm ms model reserveTokens customInstructions previousSummary thinkingLevel)
       (\<lambda>(text, usage). Inr text)"

definition add_optional :: "int option \<Rightarrow> int option \<Rightarrow> int option" where
  "add_optional a b = (if a = None \<and> b = None then None
     else Some ((case a of None \<Rightarrow> 0 | Some x \<Rightarrow> x) + (case b of None \<Rightarrow> 0 | Some y \<Rightarrow> y)))"

definition combineUsage :: "usage \<Rightarrow> usage \<Rightarrow> usage" where
  "combineUsage a b =
     \<lparr>u_input = u_input a + u_input b, u_output = u_output a + u_output b, u_cacheRead = u_cacheRead a + u_cacheRead b,
      u_cacheWrite = u_cacheWrite a + u_cacheWrite b, u_cacheWrite1h = add_optional (u_cacheWrite1h a) (u_cacheWrite1h b),
      u_reasoning = add_optional (u_reasoning a) (u_reasoning b), u_totalTokens = u_totalTokens a + u_totalTokens b,
      usage_cost = \<lparr>cost_input = cost_input (usage_cost a) + cost_input (usage_cost b),
        cost_output = cost_output (usage_cost a) + cost_output (usage_cost b),
        cost_cacheRead = cost_cacheRead (usage_cost a) + cost_cacheRead (usage_cost b),
        cost_cacheWrite = cost_cacheWrite (usage_cost a) + cost_cacheWrite (usage_cost b),
        cost_total = cost_total (usage_cost a) + cost_total (usage_cost b)\<rparr>\<rparr>"

subsection \<open>Preparing and running a compaction\<close>

record compaction_preparation =
  messagesToSummarize :: "agent_message list"
  turnPrefixMessages :: "agent_message list"
  prep_retainedTail :: "agent_message list"
  prep_isSplitTurn :: bool
  prep_tokensBefore :: int
  prep_previousSummary :: "string option"
  prep_fileOps :: file_ops
  prep_settings :: compaction_settings

definition getMessageFromEntry :: "entry \<Rightarrow> agent_message option" where
  "getMessageFromEntry e = (case entry_payload e of
     MessagePayload m t \<Rightarrow> Some m
   | BranchSummaryPayload fromId summary d u \<Rightarrow> Some (createBranchSummaryMessage summary fromId (entry_timestamp e))
   | CompactionPayload c \<Rightarrow> Some (createCompactionSummaryMessage (cd_summary c) (cd_tokensBefore c) (entry_timestamp e))
   | _ \<Rightarrow> None)"

definition getMessageFromEntryForCompaction :: "entry \<Rightarrow> agent_message option" where
  "getMessageFromEntryForCompaction e = (if entry_type_of e = CompactionType then None else getMessageFromEntry e)"

text \<open>\<^verbatim>\<open>message.timestamp\<close>; nothing reads the one of a foreign message.\<close>

fun message_timestamp :: "agent_message \<Rightarrow> int" where
  "message_timestamp (UserMessage c t) = t"
| "message_timestamp (AssistantMessage a) = am_timestamp a"
| "message_timestamp (ToolResultMessage r) = tr_timestamp r"
| "message_timestamp (BashExecutionMessage b) = bash_timestamp b"
| "message_timestamp (CustomMessage c) = cm_timestamp c"
| "message_timestamp (BranchSummaryMessage s i t) = t"
| "message_timestamp (CompactionSummaryMessage s n t) = t"
| "message_timestamp (ForeignMessage r v) = (case property_of v ''timestamp'' of Some (JNumber (Integral i)) \<Rightarrow> i | _ \<Rightarrow> 0)"

definition retained_id :: "id \<Rightarrow> nat \<Rightarrow> id" where
  "retained_id i index = i @ '':retained:'' @ decimal index"

definition retained_entry :: "entry \<Rightarrow> agent_message \<Rightarrow> nat \<Rightarrow> entry" where
  "retained_entry prev m index =
     \<lparr>entry_id = retained_id (entry_id prev) index, entry_payload = MessagePayload m False,
      parentId = Some (if index = 0 then entry_id prev else retained_id (entry_id prev) (index - 1)),
      entry_seq = entry_seq prev, entry_timestamp = message_timestamp m\<rparr>"

definition compaction_of :: "entry \<Rightarrow> compaction_data option" where
  "compaction_of e = (case entry_payload e of CompactionPayload c \<Rightarrow> Some c | _ \<Rightarrow> None)"

definition previous_compaction :: "entry list \<Rightarrow> (nat \<times> compaction_data) option" where
  "previous_compaction path = (case find_compaction path (length path) of None \<Rightarrow> None
     | Some i \<Rightarrow> (case compaction_of (path ! i) of None \<Rightarrow> None | Some c \<Rightarrow> Some (i, c)))"

definition compactable_entries :: "entry list \<Rightarrow> entry list" where
  "compactable_entries path = (case previous_compaction path of None \<Rightarrow> path
     | Some (i, c) \<Rightarrow>
         map (\<lambda>k. retained_entry (path ! i) (cd_retainedTail c ! k) k) [0..<length (cd_retainedTail c)] @ drop (i + 1) path)"

text \<open>The messages of the entries from one index up to another.\<close>

definition messages_between :: "entry list \<Rightarrow> nat \<Rightarrow> nat \<Rightarrow> agent_message list" where
  "messages_between es i j = List.map_filter getMessageFromEntryForCompaction (drop i (take j es))"

definition prepareCompaction :: "stringify \<Rightarrow> entry list \<Rightarrow> compaction_settings \<Rightarrow> compaction_preparation option" where
  "prepareCompaction json path settings =
     (if path = [] \<or> entry_type_of (last path) = CompactionType then None
      else
        let prev = previous_compaction path;
            es = compactable_entries path;
            cut = findCutPoint json es 0 (length es) (cs_keepRecentTokens settings);
            historyEnd = (if isSplitTurn cut then the (turnStartIndex cut) else firstKeptEntryIndex cut);
            history = messages_between es 0 historyEnd;
            prefix = (if isSplitTurn cut then messages_between es (the (turnStartIndex cut)) (firstKeptEntryIndex cut) else []);
            ops = extractFileOperations history (map_option snd prev)
        in Some \<lparr>messagesToSummarize = history, turnPrefixMessages = prefix,
             prep_retainedTail = messages_between es (firstKeptEntryIndex cut) (length es),
             prep_isSplitTurn = isSplitTurn cut,
             prep_tokensBefore = ce_tokens (estimateContextTokens json (ctx_messages (buildSessionContext path default_options))),
             prep_previousSummary = map_option (cd_summary \<circ> snd) prev,
             prep_fileOps = (if isSplitTurn cut then fold extractFileOpsFromMessage prefix ops else ops),
             prep_settings = settings\<rparr>)"

definition file_details :: "js_string list \<Rightarrow> js_string list \<Rightarrow> js_value" where
  "file_details readFiles modifiedFiles =
     JObject Ordinary [(units ''readFiles'', JArray (map JString readFiles)),
       (units ''modifiedFiles'', JArray (map JString modifiedFiles))]"

text \<open>The summary text and its usage.\<close>

definition compaction_summary :: "stringify \<Rightarrow> completion \<Rightarrow> compaction_preparation \<Rightarrow> summary_model \<Rightarrow> string option \<Rightarrow> string option \<Rightarrow>
    compaction_error + (string \<times> usage)" where
  "compaction_summary json llm p model customInstructions thinkingLevel =
     (let reserve = cs_reserveTokens (prep_settings p) in
      if prep_isSplitTurn p \<and> turnPrefixMessages p \<noteq> []
      then andThen
        (if messagesToSummarize p \<noteq> []
         then andThen (generateSummaryWithUsage json llm (messagesToSummarize p) model reserve customInstructions
                (prep_previousSummary p) thinkingLevel) (\<lambda>(text, usage). Inr (text, Some usage))
         else Inr (''No prior history.'', None)) (\<lambda>(historyText, historyUsage).
        andThen (generateTurnPrefixSummary json llm (turnPrefixMessages p) model reserve thinkingLevel) (\<lambda>(prefixText, prefixUsage).
        Inr (historyText @ newline @ newline @ ''---'' @ newline @ newline @ ''**Turn Context (split turn):**'' @
               newline @ newline @ prefixText,
             case historyUsage of None \<Rightarrow> prefixUsage | Some u \<Rightarrow> combineUsage u prefixUsage)))
      else generateSummaryWithUsage json llm (messagesToSummarize p) model reserve customInstructions
             (prep_previousSummary p) thinkingLevel)"

definition compact :: "stringify \<Rightarrow> completion \<Rightarrow> compaction_preparation \<Rightarrow> summary_model \<Rightarrow> string option \<Rightarrow> string option \<Rightarrow>
    compaction_error + compaction_data" where
  "compact json llm p model customInstructions thinkingLevel =
     andThen (compaction_summary json llm p model customInstructions thinkingLevel) (\<lambda>(summary, usage).
       let (readFiles, modifiedFiles) = computeFileLists (prep_fileOps p)
       in Inr \<lparr>cd_summary = summary @ formatFileOperations readFiles modifiedFiles,
            cd_retainedTail = prep_retainedTail p, cd_tokensBefore = prep_tokensBefore p,
            cd_details = Some (file_details readFiles modifiedFiles), cd_usage = Some usage\<rparr>)"

subsection \<open>Where a cut lies\<close>

lemma turn_start_Some:
  "turn_start es start n = Some i \<Longrightarrow> start \<le> i \<and> i < n \<and> starts_turn (es ! i)"
  by (induction n) (auto split: if_splits)

lemma findTurnStartIndex_le: "findTurnStartIndex es k start = Some i \<Longrightarrow> i \<le> k"
  by (auto simp: findTurnStartIndex_def dest!: turn_start_Some simp del: turn_start.simps)

lemma skip_back_le: "skip_back es start c \<le> c"
  by (induction c) auto

lemma skip_back_start: "start \<le> c \<Longrightarrow> start \<le> skip_back es start c"
  by (induction c) auto

lemma skip_back_skips:
  "skip_back es start c \<le> j \<Longrightarrow> j < c \<Longrightarrow> \<not> is_message (es ! j) \<and> entry_type_of (es ! j) \<noteq> CompactionType"
proof (induction c)
  case (Suc c)
  then show ?case by (cases "j = c") (auto split: if_splits)
qed simp

lemma find_first:
  "List.find P xs = Some x \<Longrightarrow> x \<in> set xs \<and> P x"
  by (auto simp: find_Some_iff)

lemma chosen_cut_valid:
  "cutPoints \<noteq> [] \<Longrightarrow> chosen_cut json es start stop keep cutPoints \<in> set cutPoints"
  by (auto simp: chosen_cut_def dest: find_first split: option.split)

lemma findValidCutPoints_iff:
  "c \<in> set (findValidCutPoints es start stop) \<longleftrightarrow> start \<le> c \<and> c < stop \<and> is_cut_point (es ! c)"
  by (auto simp: findValidCutPoints_def)

lemma findValidCutPoints_sorted: "sorted (findValidCutPoints es start stop)"
  by (simp add: findValidCutPoints_def sorted_wrt_filter)

text \<open>The chosen cut point, the entries skipped before it, and the start of the turn it splits.\<close>

lemma findCutPoint_shape:
  assumes "findValidCutPoints es start stop \<noteq> []"
  obtains c where "c = chosen_cut json es start stop keep (findValidCutPoints es start stop)"
    and "start \<le> c" and "c < stop" and "is_cut_point (es ! c)"
    and "firstKeptEntryIndex (findCutPoint json es start stop keep) = skip_back es start c"
proof
  let ?c = "chosen_cut json es start stop keep (findValidCutPoints es start stop)"
  show "start \<le> ?c" "?c < stop" "is_cut_point (es ! ?c)"
    using chosen_cut_valid [OF assms, of json es start stop keep] by (simp_all add: findValidCutPoints_iff)
  show "firstKeptEntryIndex (findCutPoint json es start stop keep) = skip_back es start ?c"
    using assms by (simp add: findCutPoint_def Let_def)
qed simp

lemma findCutPoint_bounds:
  assumes "start \<le> stop"
  shows "start \<le> firstKeptEntryIndex (findCutPoint json es start stop keep)"
    and "firstKeptEntryIndex (findCutPoint json es start stop keep) \<le> stop"
proof -
  have "start \<le> firstKeptEntryIndex (findCutPoint json es start stop keep) \<and>
    firstKeptEntryIndex (findCutPoint json es start stop keep) \<le> stop"
  proof (cases "findValidCutPoints es start stop = []")
    case True
    then show ?thesis using assms by (simp add: findCutPoint_def)
  next
    case False
    then obtain c where "start \<le> c" "c < stop"
      "firstKeptEntryIndex (findCutPoint json es start stop keep) = skip_back es start c"
      by (rule findCutPoint_shape)
    then show ?thesis using skip_back_le [of es start c] skip_back_start [of start c es] by simp
  qed
  then show "start \<le> firstKeptEntryIndex (findCutPoint json es start stop keep)"
    and "firstKeptEntryIndex (findCutPoint json es start stop keep) \<le> stop" by simp_all
qed

lemma findCutPoint_turn:
  assumes "isSplitTurn (findCutPoint json es start stop keep)"
  shows "the (turnStartIndex (findCutPoint json es start stop keep)) \<le> firstKeptEntryIndex (findCutPoint json es start stop keep)"
  using assms findTurnStartIndex_le by (fastforce simp: findCutPoint_def Let_def split: if_splits)

subsection \<open>What a preparation splits\<close>

lemma messages_between_append:
  "i \<le> j \<Longrightarrow> j \<le> k \<Longrightarrow> messages_between es i j @ messages_between es j k = messages_between es i k"
proof -
  assume "i \<le> j" "j \<le> k"
  then have "take k es = take j es @ drop j (take k es)"
    by (metis append_take_drop_id min.absorb1 take_take)
  then have "drop i (take k es) = drop i (take j es) @ drop (i - length (take j es)) (drop j (take k es))"
    by (metis drop_append)
  also have "drop (i - length (take j es)) (drop j (take k es)) = drop j (take k es)"
    using \<open>i \<le> j\<close> by (cases "j \<le> length es") auto
  finally show ?thesis by (simp add: messages_between_def map_filter_def)
qed

lemma messages_between_all: "messages_between es 0 (length es) = List.map_filter getMessageFromEntryForCompaction es"
  by (simp add: messages_between_def)

lemma prepareCompaction_Some:
  assumes "prepareCompaction json path settings = Some p"
  defines "es \<equiv> compactable_entries path"
  defines "kept \<equiv> findCutPoint json es 0 (length es) (cs_keepRecentTokens settings)"
  shows "prep_retainedTail p = messages_between es (firstKeptEntryIndex kept) (length es)"
    and "messagesToSummarize p @ turnPrefixMessages p = messages_between es 0 (firstKeptEntryIndex kept)"
    and "prep_isSplitTurn p = isSplitTurn kept"
    and "prep_settings p = settings"
proof -
  have path: "path \<noteq> []" "entry_type_of (last path) \<noteq> CompactionType"
    using assms(1) by (auto simp: prepareCompaction_def split: if_splits)
  have p_def: "p = the (prepareCompaction json path settings)" using assms(1) by simp
  define history where "history = messages_between es 0 (if isSplitTurn kept then the (turnStartIndex kept) else firstKeptEntryIndex kept)"
  define prefix where "prefix =
    (if isSplitTurn kept then messages_between es (the (turnStartIndex kept)) (firstKeptEntryIndex kept) else [])"
  have p: "prep_retainedTail p = messages_between es (firstKeptEntryIndex kept) (length es)"
    "prep_isSplitTurn p = isSplitTurn kept" "prep_settings p = settings"
    "messagesToSummarize p = history" "turnPrefixMessages p = prefix"
    unfolding history_def prefix_def es_def kept_def p_def
    using path by (simp_all add: prepareCompaction_def Let_def)
  then show "prep_retainedTail p = messages_between es (firstKeptEntryIndex kept) (length es)"
    "prep_isSplitTurn p = isSplitTurn kept" "prep_settings p = settings" by simp_all
  have "isSplitTurn kept \<Longrightarrow> the (turnStartIndex kept) \<le> firstKeptEntryIndex kept"
    unfolding kept_def by (rule findCutPoint_turn)
  then show "messagesToSummarize p @ turnPrefixMessages p = messages_between es 0 (firstKeptEntryIndex kept)"
    by (simp add: p history_def prefix_def messages_between_append)
qed

lemma preparation_partitions:
  assumes "prepareCompaction json path settings = Some p"
  shows "messagesToSummarize p @ turnPrefixMessages p @ prep_retainedTail p =
    List.map_filter getMessageFromEntryForCompaction (compactable_entries path)"
  unfolding append_assoc [symmetric] prepareCompaction_Some(1,2) [OF assms]
  by (simp add: messages_between_append findCutPoint_bounds messages_between_all)

end
