(* ===== verification/CompactionSafety.thy ===== *)
theory CompactionSafety
  imports Compaction
begin

text \<open>
  What compaction promises of a session: the context is split without loss and rebuilt as the summary
  followed by the retained tail, the retained tail never starts behind the call of one of its tool
  results, and it exceeds the budget by at most the entry it starts with; and the cases in which the code retains everything, keeps a
  deferred response, or drops the previous summary.
\<close>

subsection \<open>The context before and after\<close>

text \<open>Entries whose contribution to the context does not depend on compaction: no deferred response, no
  blank branch summary.\<close>

definition settled_entry :: "entry \<Rightarrow> bool" where
  "settled_entry e \<longleftrightarrow> (case entry_payload e of
     MessagePayload (AssistantMessage a) t \<Rightarrow> am_stopReason a \<noteq> Deferred
   | BranchSummaryPayload fromId summary d u \<Rightarrow> summary \<noteq> []
   | _ \<Rightarrow> True)"

abbreviation contribution :: "entry \<Rightarrow> agent_message list" where
  "contribution e \<equiv> sessionEntryToContextMessages e 0 [] default_options"

definition previous_summary_messages :: "entry list \<Rightarrow> agent_message list" where
  "previous_summary_messages path = (case previous_compaction path of None \<Rightarrow> []
     | Some (i, c) \<Rightarrow> [CompactionSummaryMessage (cd_summary c) (cd_tokensBefore c) (entry_timestamp (path ! i))])"

lemma contribution_settled:
  "settled_entry e \<Longrightarrow> entry_type_of e \<noteq> CompactionType \<Longrightarrow>
   contribution e = (case getMessageFromEntryForCompaction e of None \<Rightarrow> [] | Some m \<Rightarrow> [m])"
  by (cases "entry_payload e")
     (auto simp: settled_entry_def sessionEntryToContextMessages_def getMessageFromEntryForCompaction_def
       getMessageFromEntry_def default_options_def entry_type_of_def split: agent_message.splits)

lemma map_filter_append: "List.map_filter f (xs @ ys) = List.map_filter f xs @ List.map_filter f ys"
  by (simp add: List.map_filter_def)

lemma contribution_compaction:
  "entry_payload e = CompactionPayload c \<Longrightarrow>
   contribution e = CompactionSummaryMessage (cd_summary c) (cd_tokensBefore c) (entry_timestamp e) # cd_retainedTail c"
  by (simp add: sessionEntryToContextMessages_def createCompactionSummaryMessage_def)

lemma contributions_settled:
  "list_all settled_entry es \<Longrightarrow> \<forall>e\<in>set es. entry_type_of e \<noteq> CompactionType \<Longrightarrow>
   concat (map contribution es) = List.map_filter getMessageFromEntryForCompaction es"
  by (induction es) (auto simp: contribution_settled map_filter_simps split: option.split)

lemma find_compaction_Some:
  "find_compaction path n = Some i \<Longrightarrow> n \<le> length path \<Longrightarrow>
   i < n \<and> entry_type_of (path ! i) = CompactionType \<and> (\<forall>e\<in>set (drop (Suc i) (take n path)). entry_type_of e \<noteq> CompactionType)"
proof (induction n)
  case (Suc n)
  then show ?case
    by (cases "entry_type_of (path ! n) = CompactionType") (auto simp: take_Suc_conv_app_nth)
qed simp

lemma compaction_type: "entry_type_of e = CompactionType \<longleftrightarrow> (\<exists>c. entry_payload e = CompactionPayload c)"
  by (cases "entry_payload e") (auto simp: entry_type_of_def)

lemma previous_compaction_cases:
  obtains (none) "previous_compaction path = None" and "find_compaction path (length path) = None"
    and "\<forall>e\<in>set path. entry_type_of e \<noteq> CompactionType"
  | (some) i c where "previous_compaction path = Some (i, c)" and "find_compaction path (length path) = Some i"
    and "i < length path" and "entry_payload (path ! i) = CompactionPayload c"
    and "\<forall>e\<in>set (drop (Suc i) path). entry_type_of e \<noteq> CompactionType"
proof (cases "find_compaction path (length path)")
  case None
  with none show ?thesis using find_compaction_None [of "length path" path] by (simp add: previous_compaction_def)
next
  case (Some i)
  from find_compaction_Some [OF this] obtain c where c: "entry_payload (path ! i) = CompactionPayload c"
    and i: "i < length path" and rest: "\<forall>e\<in>set (drop (Suc i) path). entry_type_of e \<noteq> CompactionType"
    by (auto simp: compaction_type)
  with Some have "previous_compaction path = Some (i, c)" by (simp add: previous_compaction_def compaction_of_def)
  with Some c i rest some show ?thesis by blast
qed

lemma compactable_messages:
  assumes "list_all settled_entry path"
  shows "ctx_messages (buildSessionContext path default_options) =
    previous_summary_messages path @ List.map_filter getMessageFromEntryForCompaction (compactable_entries path)"
proof (cases path rule: previous_compaction_cases)
  case none
  then show ?thesis using assms
    by (simp add: build_messages defaultContextEntryTransform_def previous_summary_messages_def compactable_entries_def
        contributions_settled)
next
  case (some i c)
  have virtual: "List.map_filter getMessageFromEntryForCompaction
      (map (\<lambda>k. retained_entry (path ! i) (cd_retainedTail c ! k) k) [0..<length (cd_retainedTail c)]) = cd_retainedTail c"
    by (simp add: List.map_filter_def retained_entry_def getMessageFromEntryForCompaction_def getMessageFromEntry_def
        entry_type_of_def comp_def map_nth)
  from assms have "list_all settled_entry (drop (Suc i) path)"
    by (auto simp: list_all_iff dest: in_set_dropD)
  with some virtual show ?thesis
    by (simp add: build_messages defaultContextEntryTransform_def previous_summary_messages_def compactable_entries_def
        map_filter_append contributions_settled contribution_compaction)
qed

lemma compact_Inr:
  assumes "compact json llm p model customInstructions thinkingLevel = Inr c"
  shows "cd_retainedTail c = prep_retainedTail p" and "cd_tokensBefore c = prep_tokensBefore p"
  using assms by (auto simp: compact_def andThen_eq_Inr Let_def case_prod_unfold)

lemma context_after_compaction:
  assumes "entry_payload e = CompactionPayload c"
  shows "ctx_messages (buildSessionContext (path @ [e]) default_options) =
    CompactionSummaryMessage (cd_summary c) (cd_tokensBefore c) (entry_timestamp e) # cd_retainedTail c"
  using context_cut [OF assms, of "[]" path] assms
  by (simp add: build_messages contribution_compaction)

text \<open>
  C31. Compaction replaces exactly what it summarises. The context of the branch is the previous summary
  (if any), the messages to summarise, the turn prefix and the retained tail, in this order; once the
  compaction entry is appended, the context is the new summary followed by the same retained tail.
\<close>

theorem compaction_replaces_history:
  assumes "prepareCompaction json path settings = Some p"
    and "compact json llm p model customInstructions thinkingLevel = Inr c"
    and "entry_payload e = CompactionPayload c"
    and "list_all settled_entry path"
  shows "ctx_messages (buildSessionContext path default_options) =
      previous_summary_messages path @ messagesToSummarize p @ turnPrefixMessages p @ prep_retainedTail p \<and>
    ctx_messages (buildSessionContext (path @ [e]) default_options) =
      CompactionSummaryMessage (cd_summary c) (prep_tokensBefore p) (entry_timestamp e) # prep_retainedTail p"
  using compactable_messages [OF assms(4)] preparation_partitions [OF assms(1)] compact_Inr [OF assms(2)]
    context_after_compaction [OF assms(3), of path]
  by simp

subsection \<open>Tool results stay with their calls\<close>

text \<open>Every tool result answers a call of the assistant message before it; a message that is not part of
  the model's conversation does not come between.\<close>

fun results_answer :: "id list \<Rightarrow> agent_message list \<Rightarrow> bool" where
  "results_answer pending [] \<longleftrightarrow> True"
| "results_answer pending (m # ms) \<longleftrightarrow> (case m of
     AssistantMessage a \<Rightarrow> results_answer (map call_id (tool_calls (am_content a))) ms
   | ToolResultMessage r \<Rightarrow> tr_toolCallId r \<in> set pending \<and> results_answer pending ms
   | ForeignMessage f v \<Rightarrow> results_answer pending ms
   | _ \<Rightarrow> results_answer [] ms)"

definition begins_group :: "agent_message \<Rightarrow> bool" where
  "begins_group m \<longleftrightarrow> (case m of ToolResultMessage r \<Rightarrow> False | ForeignMessage f v \<Rightarrow> False | _ \<Rightarrow> True)"

lemma results_answer_suffix:
  "results_answer pending (xs @ ys) \<Longrightarrow> \<exists>pending'. results_answer pending' ys"
  by (induction xs arbitrary: pending) (auto split: agent_message.splits)

lemma results_answer_restart:
  "begins_group m \<Longrightarrow> results_answer pending (m # ms) \<longleftrightarrow> results_answer [] (m # ms)"
  by (cases m) (simp_all add: begins_group_def)

lemma cut_point_begins_group:
  "is_cut_point e \<Longrightarrow> \<exists>m. getMessageFromEntryForCompaction e = Some m \<and> begins_group m"
proof (cases "entry_payload e")
  case (MessagePayload m t)
  then show "is_cut_point e \<Longrightarrow> ?thesis"
    by (cases m) (auto simp: is_cut_point_def message_role_of_def entry_type_of_def getMessageFromEntryForCompaction_def
        getMessageFromEntry_def begins_group_def)
qed (auto simp: is_cut_point_def message_role_of_def entry_type_of_def getMessageFromEntryForCompaction_def
        getMessageFromEntry_def begins_group_def createBranchSummaryMessage_def)

lemma skipped_begins_group:
  "\<not> is_message e \<Longrightarrow> getMessageFromEntryForCompaction e = Some m \<Longrightarrow> begins_group m"
  by (cases "entry_payload e")
     (auto simp: is_message_def getMessageFromEntryForCompaction_def getMessageFromEntry_def entry_type_of_def
       begins_group_def createBranchSummaryMessage_def)

lemma first_message_begins_group:
  "d < length es \<Longrightarrow> is_cut_point (es ! d) \<Longrightarrow> \<forall>j<d. \<not> is_message (es ! j) \<Longrightarrow>
   \<exists>m ms. List.map_filter getMessageFromEntryForCompaction es = m # ms \<and> begins_group m"
proof (induction es arbitrary: d)
  case (Cons e es)
  show ?case
  proof (cases d)
    case 0
    then show ?thesis using cut_point_begins_group [of e] Cons.prems by (auto simp: map_filter_simps)
  next
    case (Suc d')
    then have "\<exists>m ms. List.map_filter getMessageFromEntryForCompaction es = m # ms \<and> begins_group m"
      using Cons.prems by (intro Cons.IH [of d']) auto
    moreover have "\<not> is_message e" using Cons.prems Suc by auto
    ultimately show ?thesis using skipped_begins_group [of e]
      by (cases "getMessageFromEntryForCompaction e") (auto simp: map_filter_simps)
  qed
qed simp

lemma retained_begins_group:
  assumes "findValidCutPoints es 0 (length es) \<noteq> []"
  shows "\<exists>m ms. messages_between es (firstKeptEntryIndex (findCutPoint json es 0 (length es) keep)) (length es) = m # ms \<and>
    begins_group m"
proof -
  obtain c where c: "c < length es" "is_cut_point (es ! c)"
    and k: "firstKeptEntryIndex (findCutPoint json es 0 (length es) keep) = skip_back es 0 c"
    using assms by (rule findCutPoint_shape)
  let ?k = "skip_back es 0 c"
  have "?k \<le> c" by (rule skip_back_le)
  moreover have "\<not> is_message (es ! (?k + j))" if "j < c - ?k" for j
    using skip_back_skips [of es 0 c "?k + j"] that by simp
  ultimately have "\<exists>m ms. List.map_filter getMessageFromEntryForCompaction (drop ?k es) = m # ms \<and> begins_group m"
    using c by (intro first_message_begins_group [of "c - ?k"]) simp_all
  then show ?thesis by (simp add: k messages_between_def)
qed

text \<open>
  C32. No orphaned tool results: when every tool result of the context answers a call of the assistant
  message before it, the same holds of the tail a compaction retains, so the model is never shown a
  result whose call was summarised away.
\<close>

theorem retained_results_answer:
  assumes "prepareCompaction json path settings = Some p"
    and "results_answer [] (messagesToSummarize p @ turnPrefixMessages p @ prep_retainedTail p)"
  shows "results_answer [] (prep_retainedTail p)"
proof (cases "findValidCutPoints (compactable_entries path) 0 (length (compactable_entries path)) = []")
  case True
  then have "firstKeptEntryIndex (findCutPoint json (compactable_entries path) 0 (length (compactable_entries path))
      (cs_keepRecentTokens settings)) = 0" by (simp add: findCutPoint_def)
  with assms show ?thesis using prepareCompaction_Some(1,2) [OF assms(1)] by (simp add: messages_between_def)
next
  case False
  from results_answer_suffix [of "[]" "messagesToSummarize p @ turnPrefixMessages p" "prep_retainedTail p"] assms(2)
  obtain pending where "results_answer pending (prep_retainedTail p)" by auto
  with retained_begins_group [OF False] prepareCompaction_Some(1) [OF assms(1)] show ?thesis
    by (metis results_answer_restart)
qed

subsection \<open>The budget\<close>

abbreviation entries_tokens :: "stringify \<Rightarrow> entry list \<Rightarrow> int" where
  "entries_tokens json es \<equiv> sum_list (map (entry_tokens json) es)"

lemma entry_tokens_nonneg: "0 \<le> entry_tokens json e"
proof (cases "entry_payload e")
  case (MessagePayload m t)
  then show ?thesis by (cases m) (simp_all add: entry_tokens_def quarter_def)
qed (simp_all add: entry_tokens_def)

lemma entries_tokens_nonneg: "0 \<le> entries_tokens json es"
  by (intro sum_list_nonneg) (auto simp: entry_tokens_nonneg)

lemma entry_tokens_not_message: "\<not> is_message e \<Longrightarrow> entry_tokens json e = 0"
  by (cases "entry_payload e") (simp_all add: is_message_def entry_tokens_def)

lemma drop_take_Suc: "i \<le> n \<Longrightarrow> n < length es \<Longrightarrow> drop i (take (Suc n) es) = drop i (take n es) @ [es ! n]"
  by (simp add: take_Suc_conv_app_nth)

lemma budget_index_Some:
  "budget_index json es 0 keep spent n = Some i \<Longrightarrow> n \<le> length es \<Longrightarrow> spent < keep \<Longrightarrow>
   i < n \<and> spent + entries_tokens json (drop (Suc i) (take n es)) < keep \<and>
   keep \<le> spent + entries_tokens json (drop i (take n es))"
proof (induction n arbitrary: spent)
  case (Suc n)
  show ?case
  proof (cases "is_message (es ! n) \<and> keep \<le> spent + entry_tokens json (es ! n)")
    case True
    with Suc.prems show ?thesis by (auto simp: drop_take_Suc)
  next
    case False
    let ?spent = "spent + entry_tokens json (es ! n)"
    from False have "budget_index json es 0 keep ?spent n = Some i" "?spent < keep"
      using Suc.prems by (auto simp: entry_tokens_not_message Let_def split: if_splits)
    with Suc.IH [of ?spent] Suc.prems show ?thesis by (auto simp: drop_take_Suc)
  qed
qed simp

lemma budget_index_reached:
  "q \<le> n \<Longrightarrow> n \<le> length es \<Longrightarrow> spent < keep \<Longrightarrow> keep \<le> spent + entries_tokens json (drop q (take n es)) \<Longrightarrow>
   \<exists>i\<ge>q. budget_index json es 0 keep spent n = Some i"
proof (induction n arbitrary: spent)
  case (Suc n)
  show ?case
  proof (cases "is_message (es ! n) \<and> keep \<le> spent + entry_tokens json (es ! n)")
    case True
    moreover have "q \<le> n"
    proof (rule ccontr)
      assume "\<not> q \<le> n"
      with Suc.prems show False by simp
    qed
    ultimately show ?thesis by auto
  next
    case False
    let ?spent = "spent + entry_tokens json (es ! n)"
    have "q \<le> n" using Suc.prems by (cases "q = Suc n") auto
    moreover have spent: "?spent < keep" using False Suc.prems by (auto simp: entry_tokens_not_message)
    ultimately have "\<exists>i\<ge>q. budget_index json es 0 keep ?spent n = Some i"
      using Suc.prems by (intro Suc.IH) (simp_all add: drop_take_Suc algebra_simps)
    with False show ?thesis by (auto simp: entry_tokens_not_message Let_def)
  qed
qed simp

lemma find_least:
  "sorted xs \<Longrightarrow> List.find P xs = Some x \<Longrightarrow> y \<in> set xs \<Longrightarrow> P y \<Longrightarrow> x \<le> y"
  by (induction xs) (auto split: if_splits)

lemma budget_sum_mono: "i \<le> j \<Longrightarrow> entries_tokens json (drop j es) \<le> entries_tokens json (drop i es)"
proof -
  assume "i \<le> j"
  then have "drop i es = take (j - i) (drop i es) @ drop j es"
    by (metis append_take_drop_id drop_drop le_add_diff_inverse2)
  then have "entries_tokens json (drop i es) = entries_tokens json (take (j - i) (drop i es)) + entries_tokens json (drop j es)"
    by (metis map_append sum_list_append)
  with entries_tokens_nonneg [of json "take (j - i) (drop i es)"] show ?thesis by simp
qed

lemma skipped_tokens: "entries_tokens json (drop (skip_back es 0 c) es) = entries_tokens json (drop c es)"
proof (induction c)
  case (Suc c)
  have "entries_tokens json (drop c es) = entries_tokens json (drop (Suc c) es)" if "\<not> is_message (es ! c)"
  proof (cases "c < length es")
    case True
    then show ?thesis by (simp add: entry_tokens_not_message [OF that] flip: Cons_nth_drop_Suc)
  qed simp
  with Suc.IH show ?case by simp
qed simp

text \<open>
  C33. The budget decides the cut. When some valid cut point lies at or behind the entry \<open>i\<close> at which the recent
  messages use up the budget, the kept part starts, after skipped entries that are no messages and cost nothing, at
  the first such cut point \<open>c\<close>. It holds less than the budget and the entry at \<open>c\<close>: only that entry, when it is the one
  that uses up the budget, can take the kept part over the budget. Starting at any earlier valid cut point would
  have kept at least the budget.
\<close>

theorem cut_point_near_budget:
  assumes "0 < keep" and "budget_index json es 0 keep 0 (length es) = Some i"
    and "\<exists>c\<in>set (findValidCutPoints es 0 (length es)). i \<le> c"
    and "f = firstKeptEntryIndex (findCutPoint json es 0 (length es) keep)"
  shows "\<exists>c. f \<le> c \<and> i \<le> c \<and> c < length es \<and> is_cut_point (es ! c) \<and>
    (\<forall>j<c. f \<le> j \<longrightarrow> \<not> is_message (es ! j)) \<and>
    entries_tokens json (drop f es) < keep + entry_tokens json (es ! c) \<and>
    (c \<noteq> i \<longrightarrow> entries_tokens json (drop f es) < keep) \<and>
    (\<forall>c'<c. is_cut_point (es ! c') \<longrightarrow> c' < i \<and> keep \<le> entries_tokens json (drop c' es))"
proof -
  let ?cuts = "findValidCutPoints es 0 (length es)"
  from assms(3) have "?cuts \<noteq> []" by auto
  then obtain c where c: "c = chosen_cut json es 0 (length es) keep ?cuts" "c < length es" "is_cut_point (es ! c)"
    and k: "f = skip_back es 0 c"
    unfolding assms(4) by (rule findCutPoint_shape)
  from assms(3) obtain found where found: "List.find (\<lambda>c. i \<le> c) ?cuts = Some found"
    by (cases "List.find (\<lambda>c. i \<le> c) ?cuts") (auto simp: find_None_iff)
  with c(1) assms(2) have c_found: "c = found" by (simp add: chosen_cut_def)
  with found have "i \<le> c" by (auto dest: find_first)
  from budget_index_Some [OF assms(2)] assms(1)
  have budget: "entries_tokens json (drop (Suc i) es) < keep" "keep \<le> entries_tokens json (drop i es)" by simp_all
  have earlier: "c' < i \<and> keep \<le> entries_tokens json (drop c' es)" if "c' < c" "is_cut_point (es ! c')" for c'
  proof -
    have "c' \<in> set ?cuts" using that c(2) by (simp add: findValidCutPoints_iff)
    with find_least [OF findValidCutPoints_sorted found] that c_found have "c' < i" by (meson leD leI)
    with budget(2) budget_sum_mono [of c' i json es] show ?thesis by simp
  qed
  have kept: "entries_tokens json (drop f es) = entry_tokens json (es ! c) + entries_tokens json (drop (Suc c) es)"
    unfolding k skipped_tokens using c(2) by (simp flip: Cons_nth_drop_Suc)
  have "entries_tokens json (drop (Suc c) es) < keep"
    using budget(1) budget_sum_mono [of "Suc i" "Suc c" json es] \<open>i \<le> c\<close> by simp
  then have over: "entries_tokens json (drop f es) < keep + entry_tokens json (es ! c)" using kept by simp
  have within: "entries_tokens json (drop f es) < keep" if "c \<noteq> i"
    unfolding k skipped_tokens using budget(1) budget_sum_mono [of "Suc i" c json es] \<open>i \<le> c\<close> that by simp
  have "\<forall>j<c. f \<le> j \<longrightarrow> \<not> is_message (es ! j)" unfolding k by (auto dest: skip_back_skips)
  then show ?thesis using c k skip_back_le [of es 0 c] \<open>i \<le> c\<close> earlier over within by (intro exI [of _ c]) simp
qed

text \<open>
  C34. When the tool results at the end of the branch alone use up the budget, no valid cut point lies
  behind them and the search falls back to the first cut point of the branch: nothing is summarised and
  the whole context is retained, so the compaction does not shrink it.
\<close>

theorem trailing_results_prevent_compaction:
  assumes "prepareCompaction json path settings = Some p"
    and "compactable_entries path = first # older @ results"
    and "is_cut_point first" and "list_all (\<lambda>e. \<not> is_cut_point e) results"
    and "0 < cs_keepRecentTokens settings" and "cs_keepRecentTokens settings \<le> entries_tokens json results"
  shows "messagesToSummarize p @ turnPrefixMessages p = [] \<and>
    prep_retainedTail p = List.map_filter getMessageFromEntryForCompaction (compactable_entries path)"
proof -
  let ?es = "compactable_entries path"
  let ?cuts = "findValidCutPoints ?es 0 (length ?es)"
  obtain i where i: "Suc (length older) \<le> i" "budget_index json ?es 0 (cs_keepRecentTokens settings) 0 (length ?es) = Some i"
    using budget_index_reached [of "Suc (length older)" "length ?es" ?es 0 "cs_keepRecentTokens settings" json] assms(2,5,6)
    by auto
  have cuts: "?cuts = 0 # tl ?cuts"
  proof -
    have "is_cut_point (?es ! 0)" "0 < length ?es" using assms(2,3) by simp_all
    then have "is_cut_point (?es ! 0)" "[0..<length ?es] = 0 # [1..<length ?es]" by (simp_all add: upt_conv_Cons)
    then show ?thesis by (simp only: findValidCutPoints_def filter.simps simp_thms if_True list.sel)
  qed
  have "\<not> i \<le> c" if "c \<in> set ?cuts" for c
  proof
    assume "i \<le> c"
    then obtain k where k: "c = Suc (length older) + k" using i(1) by (metis le_Suc_ex le_trans)
    have "length ?es = Suc (length older) + length results" "?es ! (Suc (length older) + k) = results ! k"
      by (simp_all add: assms(2))
    moreover have "c < length ?es" "is_cut_point (?es ! c)" using that by (simp_all add: findValidCutPoints_iff)
    ultimately have "k < length results" "is_cut_point (results ! k)" unfolding k by simp_all
    with assms(4) show False by (simp add: list_all_length)
  qed
  then have "List.find (\<lambda>c. i \<le> c) ?cuts = None" by (simp add: find_None_iff)
  then have "chosen_cut json ?es 0 (length ?es) (cs_keepRecentTokens settings) ?cuts = 0"
    using i(2) arg_cong [OF cuts, of hd] by (simp add: chosen_cut_def)
  moreover have "?cuts \<noteq> []" using cuts by auto
  ultimately have "firstKeptEntryIndex (findCutPoint json ?es 0 (length ?es) (cs_keepRecentTokens settings)) = 0"
    by (simp add: findCutPoint_def Let_def)
  then show ?thesis using prepareCompaction_Some(1,2) [OF assms(1)]
    by (simp only: messages_between_all) (simp add: messages_between_def)
qed

subsection \<open>What a compaction loses or brings back\<close>

definition NO_HISTORY :: string where "NO_HISTORY = ''No prior history.''"

text \<open>
  C35. A split turn without older messages forgets the previous summary: the text of the new summary
  starts with "No prior history.", whatever the previous summary says, and the result of the
  compaction is the same for every previous summary, although the new entry replaces the old one.
\<close>

theorem split_turn_forgets_previous_summary:
  assumes "prepareCompaction json path settings = Some p"
    and "prep_isSplitTurn p" and "messagesToSummarize p = []" and "turnPrefixMessages p \<noteq> []"
    and "compact json llm p model customInstructions thinkingLevel = Inr c"
  shows "take (length NO_HISTORY) (cd_summary c) = NO_HISTORY \<and>
    compact json llm (p\<lparr>prep_previousSummary := older\<rparr>) model customInstructions thinkingLevel = Inr c"
proof
  show "take (length NO_HISTORY) (cd_summary c) = NO_HISTORY"
    using assms(2-5) by (auto simp: compact_def compaction_summary_def andThen_eq_Inr Let_def case_prod_unfold NO_HISTORY_def)
  show "compact json llm (p\<lparr>prep_previousSummary := older\<rparr>) model customInstructions thinkingLevel = Inr c"
    using assms(2-5) by (simp add: compact_def compaction_summary_def)
qed

lemma context_undeferred:
  assumes "find_compaction path (length path) = None" and "m \<in> set (ctx_messages (buildSessionContext path default_options))"
  shows "case m of AssistantMessage a \<Rightarrow> am_stopReason a \<noteq> Deferred | _ \<Rightarrow> True"
proof -
  have "\<forall>e\<in>set path. entry_type_of e \<noteq> CompactionType" using assms(1) by (simp add: find_compaction_None)
  moreover from assms obtain e where "e \<in> set path" "m \<in> set (contribution e)"
    by (auto simp: build_messages defaultContextEntryTransform_def)
  ultimately show ?thesis
    by (cases "entry_payload e")
       (auto simp: sessionEntryToContextMessages_def default_options_def entry_type_of_def createBranchSummaryMessage_def
         split: agent_message.splits if_splits)
qed

text \<open>
  A deferred response comes back: the context of a branch holds no deferred response, but one that
  lies in the retained tail is in the context once the compaction entry is appended.
\<close>

theorem compaction_restores_deferred:
  assumes "prepareCompaction json path settings = Some p"
    and "compact json llm p model customInstructions thinkingLevel = Inr c"
    and "entry_payload e = CompactionPayload c" and "find_compaction path (length path) = None"
    and "AssistantMessage a \<in> set (prep_retainedTail p)" and "am_stopReason a = Deferred"
  shows "AssistantMessage a \<notin> set (ctx_messages (buildSessionContext path default_options)) \<and>
    AssistantMessage a \<in> set (ctx_messages (buildSessionContext (path @ [e]) default_options))"
  using context_undeferred [OF assms(4), of "AssistantMessage a"] assms(5,6) compact_Inr [OF assms(2)]
    context_after_compaction [OF assms(3), of path]
  by auto

subsection \<open>Sample compactions\<close>

definition sample_turn :: "content_block list \<Rightarrow> stop_reason \<Rightarrow> assistant_message" where
  "sample_turn content reason =
     \<lparr>am_content = content, am_api = ''api'', am_provider = ''p'', am_model = ''m'', am_responseModel = None,
      am_responseId = None, am_diagnostics = None, am_usage = \<lparr>u_input = 0, u_output = 0, u_cacheRead = 0,
        u_cacheWrite = 0, u_cacheWrite1h = None, u_reasoning = None, u_totalTokens = 0,
        usage_cost = \<lparr>cost_input = 0, cost_output = 0, cost_cacheRead = 0, cost_cacheWrite = 0, cost_total = 0\<rparr>\<rparr>,
      am_stopReason = reason, am_deferred = None, am_errorMessage = None, am_rawStopReason = None,
      am_endTurn = None, am_timestamp = 2\<rparr>"

definition sample_ask :: "string \<Rightarrow> agent_message" where "sample_ask t = UserMessage (PlainContent t) 1"

definition sample_reply :: agent_message where
  "sample_reply = AssistantMessage (sample_turn [TextContent ''done'' None] Stop)"

definition sample_calling :: agent_message where
  "sample_calling = AssistantMessage (sample_turn
     [ToolCallContent \<lparr>call_id = ''c'', call_name = ''read'', call_arguments = JObject Ordinary [], call_thoughtSignature = None, call_namespace = None\<rparr>] ToolUse)"

definition sample_result :: "string \<Rightarrow> agent_message" where
  "sample_result t = ToolResultMessage \<lparr>tr_toolCallId = ''c'', tr_toolName = ''read'', tr_content = [TextContent t None],
     tr_details = None, tr_usage = None, tr_addedToolNames = None, tr_isError = False, tr_timestamp = 3\<rparr>"

definition message_entries :: "agent_message list \<Rightarrow> entry list" where
  "message_entries ms = map (\<lambda>m. sample_entry ''e'' (MessagePayload m False)) ms"

definition sample_json :: stringify where "sample_json v = Some None"

definition sample_settings :: "int \<Rightarrow> compaction_settings" where
  "sample_settings keep = \<lparr>cs_enabled = True, cs_reserveTokens = 100, cs_keepRecentTokens = keep\<rparr>"

definition sample_history :: "agent_message list" where
  "sample_history = [sample_ask ''old'', sample_reply, sample_ask ''new'', sample_calling, sample_result ''ok'']"

definition sample_model :: summary_model where "sample_model = \<lparr>sm_maxTokens = 0, sm_reasoning = False\<rparr>"

definition sample_llm :: completion where "sample_llm r = sample_turn [TextContent ''sum'' None] Stop"

definition prepared :: "entry list \<Rightarrow> int \<Rightarrow> compaction_preparation" where
  "prepared path keep = the (prepareCompaction sample_json path (sample_settings keep))"

definition compacted :: "compaction_preparation \<Rightarrow> compaction_data" where
  "compacted p = projr (compact sample_json sample_llm p sample_model None None)"

lemma prepared: "path \<noteq> [] \<Longrightarrow> entry_type_of (last path) \<noteq> CompactionType \<Longrightarrow>
    prepareCompaction sample_json path (sample_settings keep) = Some (prepared path keep)"
  by (simp add: prepared_def prepareCompaction_def Let_def)

lemma compacted: "compact sample_json sample_llm p sample_model None None = Inr (compacted p)"
  by (simp add: compacted_def compact_def compaction_summary_def generateSummaryWithUsage_def generateTurnPrefixSummary_def
      sample_llm_def sample_turn_def summary_result_def case_prod_unfold Let_def)

lemmas sample_defs = message_entries_def sample_history_def sample_ask_def sample_reply_def sample_calling_def
  sample_result_def sample_turn_def sample_entry_def

lemma sample_prepared:
  "messagesToSummarize (prepared (message_entries sample_history) 2) = take 2 sample_history"
  "turnPrefixMessages (prepared (message_entries sample_history) 2) = [sample_ask ''new'']"
  "prep_retainedTail (prepared (message_entries sample_history) 2) = drop 3 sample_history"
  by code_simp+

abbreviation sample_compacted :: "compaction_preparation \<Rightarrow> entry" where
  "sample_compacted p \<equiv> sample_entry ''k'' (CompactionPayload (compacted p))"

theorem compaction_replaces_history_witness:
  "ctx_messages (buildSessionContext (message_entries sample_history) default_options) = sample_history \<and>
   ctx_messages (buildSessionContext (message_entries sample_history @
       [sample_compacted (prepared (message_entries sample_history) 2)]) default_options) =
     CompactionSummaryMessage (cd_summary (compacted (prepared (message_entries sample_history) 2)))
       (prep_tokensBefore (prepared (message_entries sample_history) 2)) 9 # drop 3 sample_history"
proof -
  have "prepareCompaction sample_json (message_entries sample_history) (sample_settings 2) =
      Some (prepared (message_entries sample_history) 2)"
    by (rule prepared) (simp_all add: sample_defs entry_type_of_def)
  moreover have "list_all settled_entry (message_entries sample_history)" by code_simp
  moreover have "previous_summary_messages (message_entries sample_history) = []" by code_simp
  ultimately show ?thesis
    using compaction_replaces_history [OF _ compacted, of "message_entries sample_history" "sample_settings 2"
        "prepared (message_entries sample_history) 2" "sample_compacted (prepared (message_entries sample_history) 2)"]
    by (simp add: sample_prepared sample_entry_def) (simp add: sample_history_def)
qed

theorem retained_results_answer_witness:
  "results_answer [] (drop 3 sample_history) \<and> \<not> results_answer [] (drop 4 sample_history)"
proof
  have "prepareCompaction sample_json (message_entries sample_history) (sample_settings 2) =
      Some (prepared (message_entries sample_history) 2)"
    by (rule prepared) (simp_all add: sample_defs entry_type_of_def)
  moreover have "results_answer [] sample_history" by code_simp
  then have "results_answer [] (take 2 sample_history @ [sample_ask ''new''] @ drop 3 sample_history)"
    by (simp add: sample_history_def)
  ultimately show "results_answer [] (drop 3 sample_history)"
    using retained_results_answer [of sample_json "message_entries sample_history" "sample_settings 2"
        "prepared (message_entries sample_history) 2"] by (simp only: sample_prepared)
qed code_simp

theorem cut_point_near_budget_witness:
  "firstKeptEntryIndex (findCutPoint sample_json (message_entries sample_history) 0 5 2) = 3 \<and>
   (\<exists>c\<ge>3. c < 5 \<and> is_cut_point (message_entries sample_history ! c) \<and>
     entries_tokens sample_json (drop 3 (message_entries sample_history)) <
       2 + entry_tokens sample_json (message_entries sample_history ! c) \<and>
     (\<forall>c'<c. is_cut_point (message_entries sample_history ! c') \<longrightarrow>
        2 \<le> entries_tokens sample_json (drop c' (message_entries sample_history))))"
proof -
  have len: "length (message_entries sample_history) = 5" by code_simp
  have kept: "firstKeptEntryIndex (findCutPoint sample_json (message_entries sample_history) 0 5 2) = 3" by code_simp
  have "budget_index sample_json (message_entries sample_history) 0 2 0 5 = Some 3" by code_simp
  moreover have "\<exists>c\<in>set (findValidCutPoints (message_entries sample_history) 0 5). 3 \<le> c" by code_simp
  ultimately obtain c where "3 \<le> c" "c < 5" "is_cut_point (message_entries sample_history ! c)"
    "entries_tokens sample_json (drop 3 (message_entries sample_history)) <
       2 + entry_tokens sample_json (message_entries sample_history ! c)"
    "\<forall>c'<c. is_cut_point (message_entries sample_history ! c') \<longrightarrow>
       c' < 3 \<and> 2 \<le> entries_tokens sample_json (drop c' (message_entries sample_history))"
    using cut_point_near_budget [of 2 sample_json "message_entries sample_history" 3 3, unfolded len, OF _ _ _ kept [symmetric]]
    by fastforce
  then show ?thesis by (intro conjI kept exI [of _ c]) simp_all
qed

definition large_results :: "agent_message list" where
  "large_results = [sample_ask ''old'', sample_calling, sample_result ''long text'']"

theorem trailing_results_prevent_compaction_witness:
  "messagesToSummarize (prepared (message_entries large_results) 2) @ turnPrefixMessages (prepared (message_entries large_results) 2) = [] \<and>
   prep_retainedTail (prepared (message_entries large_results) 2) = large_results"
proof -
  let ?path = "message_entries large_results"
  have p: "prepareCompaction sample_json ?path (sample_settings 2) = Some (prepared ?path 2)"
    by (rule prepared) (simp_all add: sample_defs large_results_def entry_type_of_def)
  have split: "compactable_entries ?path = hd ?path # [?path ! 1] @ [?path ! 2]" by code_simp
  have "is_cut_point (hd ?path)" "list_all (\<lambda>e. \<not> is_cut_point e) [?path ! 2]"
    "2 \<le> entries_tokens sample_json [?path ! 2]" by code_simp+
  moreover have "List.map_filter getMessageFromEntryForCompaction (compactable_entries ?path) = large_results" by code_simp
  ultimately show ?thesis
    using trailing_results_prevent_compaction [OF p split] by (simp add: sample_settings_def)
qed

definition split_path :: "entry list" where
  "split_path = sample_entry ''k'' (CompactionPayload sample_compaction) # message_entries [sample_reply]"

theorem split_turn_forgets_previous_summary_witness:
  "prep_previousSummary (prepared split_path 1) = Some ''sum'' \<and>
   take (length NO_HISTORY) (cd_summary (compacted (prepared split_path 1))) = NO_HISTORY \<and>
   compact sample_json sample_llm (prepared split_path 1 \<lparr>prep_previousSummary := None\<rparr>) sample_model None None =
     Inr (compacted (prepared split_path 1))"
proof (intro conjI)
  have "prepareCompaction sample_json split_path (sample_settings 1) = Some (prepared split_path 1)"
    by (rule prepared) (simp_all add: sample_defs split_path_def entry_type_of_def)
  moreover have "prep_isSplitTurn (prepared split_path 1)" "messagesToSummarize (prepared split_path 1) = []"
    "turnPrefixMessages (prepared split_path 1) \<noteq> []" by code_simp+
  ultimately show "take (length NO_HISTORY) (cd_summary (compacted (prepared split_path 1))) = NO_HISTORY"
    "compact sample_json sample_llm (prepared split_path 1 \<lparr>prep_previousSummary := None\<rparr>) sample_model None None =
       Inr (compacted (prepared split_path 1))"
    using split_turn_forgets_previous_summary [OF _ _ _ _ compacted] by blast+
  show "prep_previousSummary (prepared split_path 1) = Some ''sum''" by code_simp
qed

definition deferred_reply :: assistant_message where "deferred_reply = sample_turn [] Deferred"

definition deferred_history :: "agent_message list" where
  "deferred_history = [sample_ask ''old'', sample_reply, sample_ask ''new'', AssistantMessage deferred_reply, sample_reply]"

theorem compaction_restores_deferred_witness:
  "AssistantMessage deferred_reply \<notin> set (ctx_messages (buildSessionContext (message_entries deferred_history) default_options)) \<and>
   AssistantMessage deferred_reply \<in> set (ctx_messages (buildSessionContext (message_entries deferred_history @
     [sample_compacted (prepared (message_entries deferred_history) 2)]) default_options))"
proof -
  let ?path = "message_entries deferred_history"
  have "prepareCompaction sample_json ?path (sample_settings 2) = Some (prepared ?path 2)"
    by (rule prepared) (simp_all add: sample_defs deferred_history_def entry_type_of_def)
  moreover have "find_compaction ?path (length ?path) = None" by code_simp
  moreover have "prep_retainedTail (prepared ?path 2) = drop 2 deferred_history" by code_simp
  ultimately show ?thesis
    using compaction_restores_deferred [OF _ compacted, of ?path "sample_settings 2" "prepared ?path 2"
        "sample_compacted (prepared ?path 2)" deferred_reply]
    by (simp add: sample_entry_def deferred_history_def) (simp add: deferred_reply_def sample_turn_def)
qed

end
