(* ===== verification/Schemas.thy ===== *)
theory Schemas
  imports Codec
begin

text \<open>
  The schemas of the protocol, \<^verbatim>\<open>pi/packages/protocol/src/schemas.ts\<close>, as data, and the client and
  server half of \<^verbatim>\<open>codec.ts\<close>, which validates with them.

  \<^verbatim>\<open>Check\<close> of the package typebox is not part of the repository. The codec operations take it as the
  argument \<open>check_schema\<close>; \<open>conforms\<close> states its documented meaning, that of JSON Schema with
  an optional property also allowed to be \<^verbatim>\<open>undefined\<close>, and the theorems assume that the two agree on
  protocol values (\<open>checks_schemas\<close>). Minimum lengths are 0 or 1, so they do not depend on how
  characters are counted.
\<close>

datatype literal = LitString string | LitInt int | LitBool bool

datatype schema =
    SNull
  | SBoolean
  | SNumber "int option"                              \<comment> \<open>minimum\<close>
  | SInteger "int option"                             \<comment> \<open>minimum\<close>
  | SString nat                                       \<comment> \<open>minimum length\<close>
  | SLiteral literal
  | SArray nat schema                                 \<comment> \<open>minimum number of items\<close>
  | SRecord schema
  | SUnion "schema list"
  | SStrict "(string \<times> bool \<times> schema) list"          \<comment> \<open>name, optional, schema of each property\<close>
  | SJsonValue                                        \<comment> \<open>the recursive schema \<^verbatim>\<open>JsonValue\<close>\<close>

subsection \<open>Meaning\<close>

fun literal_value :: "literal \<Rightarrow> js_value" where
  "literal_value (LitString s) = JString (units s)"
| "literal_value (LitInt i) = JNumber (Integral i)"
| "literal_value (LitBool b) = JBool b"

text \<open>The largest integer not above a number.\<close>

definition fraction_floor :: "64 word \<Rightarrow> int" where
  "fraction_floor b =
     (let fraction = int (unat (take_bit 52 b)); exponent = unat (take_bit 11 (drop_bit 52 b));
          mantissa = (if exponent = 0 then fraction else 2 ^ 52 + fraction);
          scale = (if exponent = 0 then 1074 else 1075 - exponent)
      in (if bit b 63 then - mantissa else mantissa) div 2 ^ scale)"

fun js_floor :: "js_number \<Rightarrow> int option" where
  "js_floor (Integral i) = Some i"
| "js_floor NegativeZero = Some 0"
| "js_floor (Fractional b) = Some (fraction_floor b)"
| "js_floor NonFinite = None"

fun is_integer :: "js_number \<Rightarrow> bool" where
  "is_integer (Integral i) \<longleftrightarrow> True"
| "is_integer NegativeZero \<longleftrightarrow> True"
| "is_integer _ \<longleftrightarrow> False"

text \<open>An integer bounds a number from below when it bounds its floor.\<close>

definition at_least :: "int option \<Rightarrow> js_number \<Rightarrow> bool" where
  "at_least minimum n \<longleftrightarrow> (case js_floor n of None \<Rightarrow> False
     | Some f \<Rightarrow> (case minimum of None \<Rightarrow> True | Some m \<Rightarrow> m \<le> f))"

fun is_json_value :: "js_value \<Rightarrow> bool" where
  "is_json_value JNull \<longleftrightarrow> True"
| "is_json_value (JBool b) \<longleftrightarrow> True"
| "is_json_value (JNumber n) \<longleftrightarrow> n \<noteq> NonFinite"
| "is_json_value (JString s) \<longleftrightarrow> True"
| "is_json_value (JArray vs) \<longleftrightarrow> list_all is_json_value vs"
| "is_json_value (JObject shape es) \<longleftrightarrow> list_all (\<lambda>(k, v). is_json_value v) es"
| "is_json_value _ \<longleftrightarrow> False"

text \<open>A value of an object against the property of its name; each property is a name, whether it is
  optional, and the check of its value.\<close>

definition strict_entries :: "(string \<times> bool \<times> (js_value \<Rightarrow> bool)) list \<Rightarrow> (js_string \<times> js_value) list \<Rightarrow> bool" where
  "strict_entries ps es \<longleftrightarrow>
     list_all (\<lambda>(k, v). list_ex (\<lambda>(name, optional, ok). units name = k \<and> (optional \<and> v = JUndefined \<or> ok v)) ps) es \<and>
     list_all (\<lambda>(name, optional, ok). optional \<or> units name \<in> set (map fst es)) ps"

primrec conforms :: "schema \<Rightarrow> js_value \<Rightarrow> bool" where
  "conforms SNull = (\<lambda>v. v = JNull)"
| "conforms SBoolean = (\<lambda>v. case v of JBool b \<Rightarrow> True | _ \<Rightarrow> False)"
| "conforms (SNumber minimum) = (\<lambda>v. case v of JNumber n \<Rightarrow> at_least minimum n | _ \<Rightarrow> False)"
| "conforms (SInteger minimum) = (\<lambda>v. case v of JNumber n \<Rightarrow> is_integer n \<and> at_least minimum n | _ \<Rightarrow> False)"
| "conforms (SString minLength) = (\<lambda>v. case v of JString s \<Rightarrow> minLength \<le> length s | _ \<Rightarrow> False)"
| "conforms (SLiteral l) = (\<lambda>v. v = literal_value l)"
| "conforms (SArray minItems s) =
     (\<lambda>v. case v of JArray vs \<Rightarrow> minItems \<le> length vs \<and> list_all (conforms s) vs | _ \<Rightarrow> False)"
| "conforms (SRecord s) = (\<lambda>v. case v of JObject shape es \<Rightarrow> list_all (\<lambda>(k, v). conforms s v) es | _ \<Rightarrow> False)"
| "conforms (SUnion ss) = (\<lambda>v. list_ex (\<lambda>ok. ok v) (map conforms ss))"
| "conforms (SStrict ps) = (\<lambda>v. case v of
     JObject shape es \<Rightarrow> strict_entries (map (map_prod id (map_prod id conforms)) ps) es | _ \<Rightarrow> False)"
| "conforms SJsonValue = is_json_value"

subsection \<open>Values without undefined properties\<close>

lemma is_json_value_stored: "is_json_value v \<Longrightarrow> is_json_value (stored v)"
proof (induction v)
  case (JObject shape es)
  then show ?case by (fastforce simp: list_all_iff defined_entries_def)
qed (auto simp: list_all_iff)

lemma conforms_undefined: "\<not> conforms s JUndefined"
proof (induction s)
  case (SUnion ss)
  then show ?case by (auto simp: list_ex_iff)
next
  case (SLiteral l)
  then show ?case by (cases l) simp_all
qed simp_all

lemma stored_undefined [simp]: "stored v = JUndefined \<longleftrightarrow> v = JUndefined"
  by (cases v) simp_all

lemma strict_entries_stored:
  assumes "strict_entries ps es"
    and "\<And>name optional ok v. (name, optional, ok) \<in> set ps \<Longrightarrow> ok v \<Longrightarrow> ok (stored v)"
    and "\<And>name optional ok. (name, optional, ok) \<in> set ps \<Longrightarrow> \<not> ok JUndefined"
    and "distinct (map fst ps)"
  shows "strict_entries ps (map (\<lambda>(k, v). (k, stored v)) (defined_entries es))"
  unfolding strict_entries_def
proof
  show "list_all (\<lambda>(k, v). list_ex (\<lambda>(name, optional, ok). units name = k \<and> (optional \<and> v = JUndefined \<or> ok v)) ps)
      (map (\<lambda>(k, v). (k, stored v)) (defined_entries es))"
    using assms(1,2) unfolding strict_entries_def list_all_iff list_ex_iff defined_entries_def by fastforce
  have "units name \<in> set (map fst (defined_entries es))"
    if p: "(name, False, ok) \<in> set ps" for name ok
  proof -
    obtain v where v: "(units name, v) \<in> set es" using assms(1) p
      by (fastforce simp: strict_entries_def list_all_iff)
    with assms(1) obtain optional' ok' where "(name, optional', ok') \<in> set ps" "optional' \<and> v = JUndefined \<or> ok' v"
      by (fastforce simp: strict_entries_def list_all_iff list_ex_iff)
    moreover from this(1) p(1) assms(4) have "(optional', ok') = (False, ok)"
      by (metis eq_key_imp_eq_value)
    ultimately have "v \<noteq> JUndefined" using assms(3) p by auto
    with v show ?thesis by (force simp: defined_entries_def)
  qed
  then show "list_all (\<lambda>(name, optional, ok). optional \<or>
      units name \<in> set (map fst (map (\<lambda>(k, v). (k, stored v)) (defined_entries es)))) ps"
    by (fastforce simp: list_all_iff comp_def case_prod_unfold)
qed

text \<open>No object schema names a property twice.\<close>

primrec named_once :: "schema \<Rightarrow> bool" where
  "named_once SNull \<longleftrightarrow> True"
| "named_once SBoolean \<longleftrightarrow> True"
| "named_once (SNumber m) \<longleftrightarrow> True"
| "named_once (SInteger m) \<longleftrightarrow> True"
| "named_once (SString n) \<longleftrightarrow> True"
| "named_once (SLiteral l) \<longleftrightarrow> True"
| "named_once (SArray n s) \<longleftrightarrow> named_once s"
| "named_once (SRecord s) \<longleftrightarrow> named_once s"
| "named_once (SUnion ss) \<longleftrightarrow> list_all id (map named_once ss)"
| "named_once (SStrict ps) \<longleftrightarrow> distinct (map fst ps) \<and> list_all (\<lambda>(n, o', ok). ok) (map (map_prod id (map_prod id named_once)) ps)"
| "named_once SJsonValue \<longleftrightarrow> True"

lemma conforms_stored: "named_once s \<Longrightarrow> conforms s v \<Longrightarrow> conforms s (stored v)"
proof (induction s arbitrary: v)
  case (SLiteral l)
  then show ?case by (cases l) simp_all
next
  case (SArray n s)
  then show ?case by (cases v) (auto simp: list_all_iff)
next
  case (SRecord s)
  then show ?case by (cases v) (fastforce simp: list_all_iff defined_entries_def)+
next
  case (SUnion ss)
  then show ?case by (auto simp: list_ex_iff list_all_iff)
next
  case (SStrict ps)
  then obtain shape es where v: "v = JObject shape es" by (cases v) auto
  have "strict_entries (map (map_prod id (map_prod id conforms)) ps)
      (map (\<lambda>(k, v). (k, stored v)) (defined_entries es))"
  proof (rule strict_entries_stored)
    show "strict_entries (map (map_prod id (map_prod id conforms)) ps) es" using SStrict.prems(2) v by simp
    show "distinct (map fst (map (map_prod id (map_prod id conforms)) ps))" using SStrict.prems(1) by (simp add: comp_def)
    show "\<not> ok JUndefined" if "(name, optional, ok) \<in> set (map (map_prod id (map_prod id conforms)) ps)" for name optional ok
      using that conforms_undefined by auto
    show "ok (stored w)" if "(name, optional, ok) \<in> set (map (map_prod id (map_prod id conforms)) ps)" "ok w" for name optional ok w
    proof -
      from that(1) obtain s where s: "(name, optional, s) \<in> set ps" "ok = conforms s" by auto
      with SStrict.prems(1) have "named_once s" by (fastforce simp: list_all_iff)
      with SStrict.IH [OF s(1), of "(optional, s)" s w] s(2) that(2) show ?thesis by simp
    qed
  qed
  then show ?case by (simp add: v)
next
  case SJsonValue
  then show ?case by (simp add: is_json_value_stored)
qed (auto split: js_value.splits)

subsection \<open>The schemas\<close>

definition required :: "string \<Rightarrow> schema \<Rightarrow> string \<times> bool \<times> schema" where
  "required name s = (name, False, s)"

definition opt :: "string \<Rightarrow> schema \<Rightarrow> string \<times> bool \<times> schema" where
  "opt name s = (name, True, s)"

definition IdSchema :: schema where
  "IdSchema = SString 1"

definition TimestampSchema :: schema where
  "TimestampSchema = SInteger (Some 0)"

definition JsonValueSchema :: schema where
  "JsonValueSchema = SJsonValue"

definition ThinkingLevelSchema :: schema where
  "ThinkingLevelSchema = SUnion (map (SLiteral \<circ> LitString) [''off'', ''minimal'', ''low'', ''medium'', ''high'', ''xhigh'', ''max''])"

definition SessionPhaseSchema :: schema where
  "SessionPhaseSchema = SUnion (map (SLiteral \<circ> LitString) [''idle'', ''turn'', ''compaction'', ''branch_summary'', ''retry''])"

definition ModelRefSchema :: schema where
  "ModelRefSchema = SStrict
     [required ''provider'' IdSchema,
      required ''id'' IdSchema]"

definition ModelCostSchema :: schema where
  "ModelCostSchema = SStrict
     [required ''input'' (SNumber (Some 0)),
      required ''output'' (SNumber (Some 0)),
      required ''cacheRead'' (SNumber (Some 0)),
      required ''cacheWrite'' (SNumber (Some 0))]"

definition ModelMetadataSchema :: schema where
  "ModelMetadataSchema = SStrict
     [required ''provider'' IdSchema,
      required ''id'' IdSchema,
      required ''name'' (SString 1),
      required ''api'' IdSchema,
      required ''reasoning'' SBoolean,
      required ''input'' (SArray 0 (SUnion [SLiteral (LitString ''text''), SLiteral (LitString ''image'')])),
      required ''contextWindow'' (SInteger (Some 1)),
      required ''maxTokens'' (SInteger (Some 1)),
      required ''cost'' ModelCostSchema,
      required ''supportedThinkingLevels'' (SArray 1 ThinkingLevelSchema),
      required ''authenticated'' SBoolean]"

definition TextContentSchema :: schema where
  "TextContentSchema = SStrict
     [required ''type'' (SLiteral (LitString ''text'')),
      required ''text'' (SString 0)]"

definition ThinkingContentSchema :: schema where
  "ThinkingContentSchema = SStrict
     [required ''type'' (SLiteral (LitString ''thinking'')),
      required ''thinking'' (SString 0),
      opt ''redacted'' SBoolean]"

definition ImageContentSchema :: schema where
  "ImageContentSchema = SStrict
     [required ''type'' (SLiteral (LitString ''image'')),
      required ''data'' (SString 0),
      required ''mimeType'' (SString 1)]"

definition ToolCallContentSchema :: schema where
  "ToolCallContentSchema = SStrict
     [required ''type'' (SLiteral (LitString ''toolCall'')),
      required ''toolCallId'' IdSchema,
      required ''toolName'' IdSchema,
      required ''input'' JsonValueSchema]"

definition UserContentSchema :: schema where
  "UserContentSchema = SUnion [TextContentSchema, ImageContentSchema]"

definition AssistantContentSchema :: schema where
  "AssistantContentSchema = SUnion [TextContentSchema, ThinkingContentSchema, ToolCallContentSchema]"

definition ToolContentSchema :: schema where
  "ToolContentSchema = SUnion [TextContentSchema, ImageContentSchema]"

definition UsageSchema :: schema where
  "UsageSchema = SStrict
     [required ''input'' (SInteger (Some 0)),
      required ''output'' (SInteger (Some 0)),
      required ''cacheRead'' (SInteger (Some 0)),
      required ''cacheWrite'' (SInteger (Some 0)),
      opt ''reasoning'' (SInteger (Some 0)),
      required ''totalTokens'' (SInteger (Some 0)),
      required ''cost'' (SStrict (map (\<lambda>n. required n (SNumber (Some 0))) [''input'', ''output'', ''cacheRead'', ''cacheWrite'', ''total'']))]"

definition UserTranscriptItemSchema :: schema where
  "UserTranscriptItemSchema = SStrict
     [required ''id'' IdSchema,
      required ''role'' (SLiteral (LitString ''user'')),
      required ''content'' (SArray 0 UserContentSchema),
      required ''timestamp'' TimestampSchema]"

definition AssistantTranscriptItemProperties :: "(string \<times> bool \<times> schema) list" where
  "AssistantTranscriptItemProperties = 
     [required ''id'' IdSchema,
      required ''role'' (SLiteral (LitString ''assistant'')),
      required ''content'' (SArray 0 AssistantContentSchema),
      required ''model'' ModelRefSchema,
      opt ''responseModel'' (SString 1),
      opt ''usage'' UsageSchema,
      required ''timestamp'' TimestampSchema]"

definition StreamingAssistantTranscriptItemSchema :: schema where
  "StreamingAssistantTranscriptItemSchema = SStrict (AssistantTranscriptItemProperties @
     [required ''status'' (SLiteral (LitString ''streaming''))])"

definition CompleteAssistantTranscriptItemSchema :: schema where
  "CompleteAssistantTranscriptItemSchema = SStrict (AssistantTranscriptItemProperties @
     [required ''status'' (SLiteral (LitString ''complete'')), required ''stopReason'' (SUnion (map (SLiteral \<circ> LitString) [''stop'', ''length'', ''toolUse'']))])"

definition ErrorAssistantTranscriptItemSchema :: schema where
  "ErrorAssistantTranscriptItemSchema = SStrict (AssistantTranscriptItemProperties @
     [required ''status'' (SLiteral (LitString ''error'')), required ''stopReason'' (SLiteral (LitString ''error'')), opt ''errorMessage'' (SString 1)])"

definition AbortedAssistantTranscriptItemSchema :: schema where
  "AbortedAssistantTranscriptItemSchema = SStrict (AssistantTranscriptItemProperties @
     [required ''status'' (SLiteral (LitString ''aborted'')), required ''stopReason'' (SLiteral (LitString ''aborted'')), opt ''errorMessage'' (SString 0)])"

definition AssistantTranscriptItemSchema :: schema where
  "AssistantTranscriptItemSchema = SUnion
     [StreamingAssistantTranscriptItemSchema, CompleteAssistantTranscriptItemSchema, ErrorAssistantTranscriptItemSchema, AbortedAssistantTranscriptItemSchema]"

definition ToolTranscriptItemProperties :: "(string \<times> bool \<times> schema) list" where
  "ToolTranscriptItemProperties = 
     [required ''id'' IdSchema,
      required ''role'' (SLiteral (LitString ''tool'')),
      required ''toolCallId'' IdSchema,
      required ''toolName'' IdSchema,
      required ''input'' JsonValueSchema,
      required ''content'' (SArray 0 ToolContentSchema),
      opt ''details'' JsonValueSchema,
      opt ''usage'' UsageSchema,
      required ''timestamp'' TimestampSchema]"

definition RunningToolTranscriptItemSchema :: schema where
  "RunningToolTranscriptItemSchema = SStrict (ToolTranscriptItemProperties @
     [required ''status'' (SLiteral (LitString ''running'')), required ''isError'' (SLiteral (LitBool False))])"

definition CompleteToolTranscriptItemSchema :: schema where
  "CompleteToolTranscriptItemSchema = SStrict (ToolTranscriptItemProperties @
     [required ''status'' (SLiteral (LitString ''complete'')), required ''isError'' (SLiteral (LitBool False))])"

definition ErrorToolTranscriptItemSchema :: schema where
  "ErrorToolTranscriptItemSchema = SStrict (ToolTranscriptItemProperties @
     [required ''status'' (SLiteral (LitString ''error'')), required ''isError'' (SLiteral (LitBool True))])"

definition ToolTranscriptItemSchema :: schema where
  "ToolTranscriptItemSchema = SUnion
     [RunningToolTranscriptItemSchema, CompleteToolTranscriptItemSchema, ErrorToolTranscriptItemSchema]"

definition TranscriptItemSchema :: schema where
  "TranscriptItemSchema = SUnion
     [UserTranscriptItemSchema, AssistantTranscriptItemSchema, ToolTranscriptItemSchema]"

definition TranscriptProgressSchema :: schema where
  "TranscriptProgressSchema = SUnion
   [SStrict [required ''type'' (SLiteral (LitString ''item_started'')), required ''item'' TranscriptItemSchema],
    SStrict [required ''type'' (SLiteral (LitString ''assistant_delta'')), required ''messageId'' IdSchema, required ''contentIndex'' (SInteger (Some 0)), 
      required ''kind'' (SUnion (map (SLiteral \<circ> LitString) [''text'', ''thinking'', ''toolCall''])), required ''delta'' (SString 0)],
    SStrict [required ''type'' (SLiteral (LitString ''item_updated'')), required ''item'' (SUnion [AssistantTranscriptItemSchema, ToolTranscriptItemSchema])],
    SStrict [required ''type'' (SLiteral (LitString ''item_finished'')), required ''item'' (SUnion
      [CompleteAssistantTranscriptItemSchema, ErrorAssistantTranscriptItemSchema, AbortedAssistantTranscriptItemSchema,
       CompleteToolTranscriptItemSchema, ErrorToolTranscriptItemSchema])]]"

definition SessionMetadataSchema :: schema where
  "SessionMetadataSchema = SStrict
     [required ''id'' IdSchema,
      required ''createdAt'' TimestampSchema,
      opt ''updatedAt'' TimestampSchema,
      opt ''parentSessionId'' IdSchema,
      opt ''sessionName'' (SString 0),
      opt ''cwd'' (SString 1)]"

definition SessionSnapshotSchema :: schema where
  "SessionSnapshotSchema = SStrict
     [required ''id'' IdSchema,
      opt ''name'' (SString 0),
      required ''cwd'' (SString 1),
      required ''createdAt'' TimestampSchema,
      required ''updatedAt'' TimestampSchema,
      required ''phase'' SessionPhaseSchema,
      required ''model'' ModelRefSchema,
      required ''thinkingLevel'' ThinkingLevelSchema,
      required ''attached'' SBoolean,
      required ''locked'' SBoolean,
      required ''revision'' (SInteger (Some 0)),
      required ''transcript'' (SArray 0 TranscriptItemSchema),
      required ''queuedSteer'' (SArray 0 UserTranscriptItemSchema),
      required ''queuedSteerCount'' (SInteger (Some 0))]"

definition ServerSnapshotSchema :: schema where
  "ServerSnapshotSchema = SStrict
     [required ''serverId'' IdSchema,
      required ''protocolVersion'' (SLiteral (LitInt PROTOCOL_VERSION)),
      required ''revision'' (SInteger (Some 0)),
      required ''sessions'' (SArray 0 SessionMetadataSchema),
      required ''models'' (SArray 0 ModelMetadataSchema)]"

definition ProtocolErrorCodeSchema :: schema where
  "ProtocolErrorCodeSchema = SUnion (map (SLiteral \<circ> LitString) [''version'', ''busy'', ''session_locked'', ''not_found'', ''invalid_request'', ''not_implemented'', ''internal_error''])"

definition ProtocolErrorSchema :: schema where
  "ProtocolErrorSchema = SStrict
     [required ''code'' ProtocolErrorCodeSchema,
      required ''message'' (SString 0),
      opt ''details'' JsonValueSchema]"

definition PromptPayloadProperties :: "(string \<times> bool \<times> schema) list" where
  "PromptPayloadProperties = [required ''sessionId'' IdSchema, required ''text'' (SString 0)]"

definition ListCommandSchema :: schema where
  "ListCommandSchema = SStrict [required ''command'' (SLiteral (LitString ''list''))]"

definition CreateCommandSchema :: schema where
  "CreateCommandSchema = SStrict
     [required ''command'' (SLiteral (LitString ''create'')),
      opt ''cwd'' (SString 1),
      opt ''name'' (SString 0),
      opt ''model'' ModelRefSchema,
      opt ''thinkingLevel'' ThinkingLevelSchema]"

definition AttachCommandSchema :: schema where
  "AttachCommandSchema = SStrict [required ''command'' (SLiteral (LitString ''attach'')), required ''sessionId'' IdSchema]"

definition DetachCommandSchema :: schema where
  "DetachCommandSchema = SStrict [required ''command'' (SLiteral (LitString ''detach'')), required ''sessionId'' IdSchema]"

definition PromptCommandSchema :: schema where
  "PromptCommandSchema = SStrict (required ''command'' (SLiteral (LitString ''prompt'')) # PromptPayloadProperties)"

definition SteerCommandSchema :: schema where
  "SteerCommandSchema = SStrict (required ''command'' (SLiteral (LitString ''steer'')) # PromptPayloadProperties)"

definition AbortCommandSchema :: schema where
  "AbortCommandSchema = SStrict [required ''command'' (SLiteral (LitString ''abort'')), required ''sessionId'' IdSchema]"

definition SetModelCommandSchema :: schema where
  "SetModelCommandSchema = SStrict [required ''command'' (SLiteral (LitString ''set_model'')), required ''sessionId'' IdSchema, required ''model'' ModelRefSchema]"

definition SetThinkingCommandSchema :: schema where
  "SetThinkingCommandSchema = SStrict
     [required ''command'' (SLiteral (LitString ''set_thinking'')), required ''sessionId'' IdSchema, required ''thinkingLevel'' ThinkingLevelSchema]"

definition CommandSchema :: schema where
  "CommandSchema = SUnion
     [ListCommandSchema, CreateCommandSchema, AttachCommandSchema, DetachCommandSchema,
      PromptCommandSchema, SteerCommandSchema, AbortCommandSchema, SetModelCommandSchema,
      SetThinkingCommandSchema]"

definition CreateResultSchema :: schema where
  "CreateResultSchema = SStrict [required ''command'' (SLiteral (LitString ''create'')), required ''session'' SessionSnapshotSchema]"

definition AttachResultSchema :: schema where
  "AttachResultSchema = SStrict [required ''command'' (SLiteral (LitString ''attach'')), required ''session'' SessionSnapshotSchema]"

definition PromptResultSchema :: schema where
  "PromptResultSchema = SStrict [required ''command'' (SLiteral (LitString ''prompt'')), required ''session'' SessionSnapshotSchema]"

definition SteerResultSchema :: schema where
  "SteerResultSchema = SStrict [required ''command'' (SLiteral (LitString ''steer'')), required ''session'' SessionSnapshotSchema]"

definition AbortResultSchema :: schema where
  "AbortResultSchema = SStrict [required ''command'' (SLiteral (LitString ''abort'')), required ''session'' SessionSnapshotSchema]"

definition SetModelResultSchema :: schema where
  "SetModelResultSchema = SStrict [required ''command'' (SLiteral (LitString ''set_model'')), required ''session'' SessionSnapshotSchema]"

definition SetThinkingResultSchema :: schema where
  "SetThinkingResultSchema = SStrict [required ''command'' (SLiteral (LitString ''set_thinking'')), required ''session'' SessionSnapshotSchema]"

definition ListResultSchema :: schema where
  "ListResultSchema = SStrict [required ''command'' (SLiteral (LitString ''list'')), required ''sessions'' (SArray 0 SessionMetadataSchema)]"

definition DetachResultSchema :: schema where
  "DetachResultSchema = SStrict [required ''command'' (SLiteral (LitString ''detach'')), required ''sessionId'' IdSchema]"

definition CommandResultSchema :: schema where
  "CommandResultSchema = SUnion
     [ListResultSchema, CreateResultSchema, AttachResultSchema, DetachResultSchema,
      PromptResultSchema, SteerResultSchema, AbortResultSchema, SetModelResultSchema,
      SetThinkingResultSchema]"

definition ClientHelloSchema :: schema where
  "ClientHelloSchema = SStrict [required ''type'' (SLiteral (LitString ''hello'')), required ''version'' (SInteger (Some 0))]"

definition RequestEnvelopeSchema :: schema where
  "RequestEnvelopeSchema = SStrict [required ''type'' (SLiteral (LitString ''request'')), required ''id'' IdSchema, required ''request'' CommandSchema]"

definition ClientMessageSchema :: schema where
  "ClientMessageSchema = SUnion [ClientHelloSchema, RequestEnvelopeSchema]"

definition ServerEventSchema :: schema where
  "ServerEventSchema = SUnion
   [SStrict [required ''type'' (SLiteral (LitString ''server_snapshot'')), required ''snapshot'' ServerSnapshotSchema],
    SStrict [required ''type'' (SLiteral (LitString ''session_snapshot'')), required ''snapshot'' SessionSnapshotSchema],
    SStrict [required ''type'' (SLiteral (LitString ''session_progress'')), required ''sessionId'' IdSchema, required ''progress'' TranscriptProgressSchema],
    SStrict [required ''type'' (SLiteral (LitString ''session_removed'')), required ''sessionId'' IdSchema]]"

definition ServerHelloSchema :: schema where
  "ServerHelloSchema = SStrict
     [required ''type'' (SLiteral (LitString ''hello'')),
      required ''version'' (SLiteral (LitInt PROTOCOL_VERSION)),
      required ''connectionId'' IdSchema,
      required ''snapshot'' ServerSnapshotSchema]"

definition ServerHelloErrorSchema :: schema where
  "ServerHelloErrorSchema = SStrict [required ''type'' (SLiteral (LitString ''hello_error'')), required ''error'' ProtocolErrorSchema]"

definition ResponseEnvelopeSchema :: schema where
  "ResponseEnvelopeSchema = SUnion
   [SStrict [required ''type'' (SLiteral (LitString ''response'')), required ''id'' IdSchema, required ''ok'' (SLiteral (LitBool True)), required ''result'' CommandResultSchema],
    SStrict [required ''type'' (SLiteral (LitString ''response'')), required ''id'' IdSchema, required ''ok'' (SLiteral (LitBool False)), required ''error'' ProtocolErrorSchema]]"

definition EventEnvelopeSchema :: schema where
  "EventEnvelopeSchema = SStrict [required ''type'' (SLiteral (LitString ''event'')), required ''event'' ServerEventSchema]"

definition ServerMessageSchema :: schema where
  "ServerMessageSchema = SUnion [ServerHelloSchema, ServerHelloErrorSchema, ResponseEnvelopeSchema, EventEnvelopeSchema]"

lemmas schema_defs = required_def opt_def
  IdSchema_def TimestampSchema_def JsonValueSchema_def
  ThinkingLevelSchema_def SessionPhaseSchema_def ModelRefSchema_def
  ModelCostSchema_def ModelMetadataSchema_def TextContentSchema_def
  ThinkingContentSchema_def ImageContentSchema_def ToolCallContentSchema_def
  UserContentSchema_def AssistantContentSchema_def ToolContentSchema_def
  UsageSchema_def UserTranscriptItemSchema_def AssistantTranscriptItemProperties_def
  StreamingAssistantTranscriptItemSchema_def CompleteAssistantTranscriptItemSchema_def ErrorAssistantTranscriptItemSchema_def
  AbortedAssistantTranscriptItemSchema_def AssistantTranscriptItemSchema_def ToolTranscriptItemProperties_def
  RunningToolTranscriptItemSchema_def CompleteToolTranscriptItemSchema_def ErrorToolTranscriptItemSchema_def
  ToolTranscriptItemSchema_def TranscriptItemSchema_def TranscriptProgressSchema_def
  SessionMetadataSchema_def SessionSnapshotSchema_def ServerSnapshotSchema_def
  ProtocolErrorCodeSchema_def ProtocolErrorSchema_def PromptPayloadProperties_def
  ListCommandSchema_def CreateCommandSchema_def AttachCommandSchema_def
  DetachCommandSchema_def PromptCommandSchema_def SteerCommandSchema_def
  AbortCommandSchema_def SetModelCommandSchema_def SetThinkingCommandSchema_def
  CommandSchema_def CreateResultSchema_def AttachResultSchema_def
  PromptResultSchema_def SteerResultSchema_def AbortResultSchema_def
  SetModelResultSchema_def SetThinkingResultSchema_def ListResultSchema_def
  DetachResultSchema_def CommandResultSchema_def ClientHelloSchema_def
  RequestEnvelopeSchema_def ClientMessageSchema_def ServerEventSchema_def
  ServerHelloSchema_def ServerHelloErrorSchema_def ResponseEnvelopeSchema_def
  EventEnvelopeSchema_def ServerMessageSchema_def

lemma named_once_schemas: "named_once ClientMessageSchema" "named_once ServerMessageSchema"
  by code_simp+

subsection \<open>Client and server messages\<close>

type_synonym schema_checker = "schema \<Rightarrow> js_value \<Rightarrow> bool"

text \<open>The documented behaviour of \<^verbatim>\<open>Check\<close>.\<close>

definition checks_schemas :: "schema_checker \<Rightarrow> bool" where
  "checks_schemas check_schema \<longleftrightarrow> (\<forall>s v. isProtocolValue False v \<longrightarrow> check_schema s v = conforms s v)"

definition parseClientMessage :: "schema_checker \<Rightarrow> message_parser" where
  "parseClientMessage check_schema = parse_message (check_schema ClientMessageSchema)"

definition parseServerMessage :: "schema_checker \<Rightarrow> message_parser" where
  "parseServerMessage check_schema = parse_message (check_schema ServerMessageSchema)"

definition encodeClientMessage :: "schema_checker \<Rightarrow> js_value \<Rightarrow> int option \<Rightarrow> codec_error + byte list" where
  "encodeClientMessage check_schema v options = encodeProtocolMessage v (parseClientMessage check_schema) options"

definition encodeServerMessage :: "schema_checker \<Rightarrow> js_value \<Rightarrow> int option \<Rightarrow> codec_error + byte list" where
  "encodeServerMessage check_schema v options = encodeProtocolMessage v (parseServerMessage check_schema) options"

text \<open>The two decoder classes push and end a validated decoder.\<close>

definition push_client :: "schema_checker \<Rightarrow> message_decoder \<Rightarrow> byte list \<Rightarrow> (codec_error + js_value list) \<times> message_decoder" where
  "push_client check_schema = push_messages (parseClientMessage check_schema)"

definition push_server :: "schema_checker \<Rightarrow> message_decoder \<Rightarrow> byte list \<Rightarrow> (codec_error + js_value list) \<times> message_decoder" where
  "push_server check_schema = push_messages (parseServerMessage check_schema)"

lemma checks_stored:
  "checks_schemas check_schema \<Longrightarrow> named_once s \<Longrightarrow> isProtocolValue False v \<Longrightarrow> check_schema s v \<Longrightarrow> check_schema s (stored v)"
  by (simp add: checks_schemas_def conforms_stored isProtocolValue_stored)

text \<open>
  C36. The wire is faithful in both directions: client messages that encode are delivered by the server's
  decoder, and server messages that encode by the client's decoder, in order and however their bytes
  are cut into chunks, without their undefined properties; the end of the stream is accepted.
\<close>

theorem protocol_messages_arrive:
  assumes "checks_schemas check_schema" and "new_message_decoder options = Inr d"
    and "list_all2 (\<lambda>v f. proper v \<and> encodeClientMessage check_schema v options = Inr f) requests fs"
    and "list_all2 (\<lambda>v f. proper v \<and> encodeServerMessage check_schema v options = Inr f) responses gs"
    and "concat cs = concat fs" and "concat ds = concat gs"
  shows "fst (feed_all (push_client check_schema) d cs) = Inr (map stored requests) \<and>
    fst (end_messages (snd (feed_all (push_client check_schema) d cs))) = Inr () \<and>
    fst (feed_all (push_server check_schema) d ds) = Inr (map stored responses) \<and>
    fst (end_messages (snd (feed_all (push_server check_schema) d ds))) = Inr ()"
  using message_stream_roundtrip [OF assms(2) _ assms(3) [unfolded encodeClientMessage_def parseClientMessage_def] assms(5)]
    message_stream_roundtrip [OF assms(2) _ assms(4) [unfolded encodeServerMessage_def parseServerMessage_def] assms(6)]
    checks_stored [OF assms(1)] named_once_schemas
  unfolding push_client_def push_server_def parseClientMessage_def parseServerMessage_def by blast

definition sample_request :: js_value where
  "sample_request = JObject Ordinary [(units ''type'', JString (units ''hello'')), (units ''version'', JNumber (Integral 1))]"

definition sample_response :: js_value where
  "sample_response = JObject Ordinary [(units ''type'', JString (units ''hello_error'')),
     (units ''error'', JObject Ordinary [(units ''code'', JString (units ''busy'')), (units ''message'', JString []),
       (units ''details'', JUndefined)])]"

definition sample_frame :: "js_value \<Rightarrow> byte list" where
  "sample_frame v = projr (encodeFrame (projr (encodeCbor v (byte_limit 64))))"

theorem protocol_messages_arrive_witness:
  "fst (feed_all (push_client conforms) sample_decoder [sample_frame sample_request]) = Inr [sample_request] \<and>
   fst (feed_all (push_server conforms) sample_decoder [sample_frame sample_response]) = Inr [stored sample_response]"
proof -
  have req: "proper sample_request" "encodeClientMessage conforms sample_request (Some 64) = Inr (sample_frame sample_request)"
    "stored sample_request = sample_request" by code_simp+
  have resp: "proper sample_response" "encodeServerMessage conforms sample_response (Some 64) = Inr (sample_frame sample_response)"
    by code_simp+
  have "checks_schemas conforms" by (simp add: checks_schemas_def)
  from protocol_messages_arrive [OF this sample_decoder, of "[sample_request]" "[sample_frame sample_request]"
      "[sample_response]" "[sample_frame sample_response]" "[sample_frame sample_request]" "[sample_frame sample_response]"]
    req resp show ?thesis by simp
qed

end
