(* ===== verification/ServerProtocol.thy ===== *)
theory ServerProtocol
  imports Schemas SessionContext
begin

text \<open>
  The conversion of agent messages and model metadata to protocol values,
  \<^verbatim>\<open>pi/packages/server/src/protocol.ts\<close>, with \<^verbatim>\<open>getSupportedThinkingLevels\<close> of
  \<^verbatim>\<open>pi/packages/ai/src/models.ts\<close>.

  A \<^verbatim>\<open>TypeError\<close> is a value of \<open>conversion_error\<close>. Arguments: \<open>double\<close> is the number a cost is
  stored as, and \<open>foreign\<close> the text or nothing that \<^verbatim>\<open>sanitizeProtocolDetails\<close> makes of a value that is
  no JSON value and no array or plain object (a bigint, a function, a date, a non-finite number).
  An assignment \<^verbatim>\<open>result[key] = value\<close> to the key \<^verbatim>\<open>__proto__\<close> sets the prototype, as in the language.
\<close>

datatype conversion_error =
    EmptyIdentifier
  | BadTimestamp
  | NonFiniteNumber
  | UnsupportedJson
  | CircularJson
  | NotPlainObject
  | DeferredMessage
  | EmptyErrorMessage
  | CallIdMismatch
  | CallNameMismatch

subsection \<open>Scalars\<close>

definition nonNegativeInteger :: "js_number option \<Rightarrow> js_number option" where
  "nonNegativeInteger n = (case n of None \<Rightarrow> None
     | Some x \<Rightarrow> (case js_floor x of None \<Rightarrow> None | Some f \<Rightarrow> Some (Integral (max 0 f))))"

definition nonNegativeNumber :: "js_number \<Rightarrow> js_number" where
  "nonNegativeNumber n = (case js_floor n of None \<Rightarrow> Integral 0
     | Some f \<Rightarrow> if f < 0 \<or> n = NegativeZero then Integral 0 else n)"

definition identifier_text :: "string \<Rightarrow> conversion_error + js_value" where
  "identifier_text s = (if s = [] then Inl EmptyIdentifier else Inr (JString (units s)))"

definition timestamp_value :: "int \<Rightarrow> conversion_error + js_value" where
  "timestamp_value t = (if \<not> is_safe_integer t \<or> t < 0 then Inl BadTimestamp else Inr (JNumber (Integral t)))"

subsection \<open>JSON values\<close>

definition proto_key :: js_string where "proto_key = units ''__proto__''"

text \<open>Assigning \<^verbatim>\<open>result[key] = value\<close> for the entries of an object in order: the entries that become properties
  and the prototype the result ends with.\<close>

datatype prototype = ObjectPrototype | NoPrototype | OtherPrototype

fun assigned_prototype :: "(js_string \<times> js_value) list \<Rightarrow> prototype \<Rightarrow> prototype" where
  "assigned_prototype [] p = p"
| "assigned_prototype ((k, v) # es) p =
     assigned_prototype es (if k \<noteq> proto_key then p
       else case v of JNull \<Rightarrow> NoPrototype | JObject shape fs \<Rightarrow> OtherPrototype | JArray vs \<Rightarrow> OtherPrototype
         | JUnsupported \<Rightarrow> OtherPrototype | _ \<Rightarrow> p)"

text \<open>An object whose prototype is neither \<^verbatim>\<open>Object.prototype\<close> nor null is no plain object. Once the prototype
  is not \<^verbatim>\<open>Object.prototype\<close>, the accessor \<^verbatim>\<open>__proto__\<close> is gone or inherited all the same; a second
  entry of the same key does not occur.\<close>

definition assign_all :: "(js_string \<times> js_value) list \<Rightarrow> js_value" where
  "assign_all es =
     (let own = filter (\<lambda>(k, v). k \<noteq> proto_key) es
      in case assigned_prototype es ObjectPrototype of
           ObjectPrototype \<Rightarrow> JObject Ordinary own
         | NoPrototype \<Rightarrow> JObject NullPrototype own
         | OtherPrototype \<Rightarrow> JUnsupported)"

fun map_results :: "('a \<Rightarrow> 'e + 'b) \<Rightarrow> 'a list \<Rightarrow> 'e + 'b list" where
  "map_results f [] = Inr []"
| "map_results f (x # xs) = andThen (f x) (\<lambda>y. andThen (map_results f xs) (\<lambda>ys. Inr (y # ys)))"

lemma map_results_cong [fundef_cong]:
  "xs = ys \<Longrightarrow> (\<And>x. x \<in> set ys \<Longrightarrow> f x = g x) \<Longrightarrow> map_results f xs = map_results g ys"
  by (induction xs arbitrary: ys) auto

fun toProtocolJsonValue :: "js_value \<Rightarrow> conversion_error + js_value" where
  "toProtocolJsonValue JNull = Inr JNull"
| "toProtocolJsonValue (JString s) = Inr (JString s)"
| "toProtocolJsonValue (JBool b) = Inr (JBool b)"
| "toProtocolJsonValue (JNumber n) = (if n = NonFinite then Inl NonFiniteNumber else Inr (JNumber n))"
| "toProtocolJsonValue JUndefined = Inl UnsupportedJson"
| "toProtocolJsonValue JBackref = Inl CircularJson"
| "toProtocolJsonValue JUnsupported = Inl NotPlainObject"
| "toProtocolJsonValue (JBytes bs) = Inl NotPlainObject"
| "toProtocolJsonValue (JArray vs) = andThen (map_results toProtocolJsonValue vs) (\<lambda>ws. Inr (JArray ws))"
| "toProtocolJsonValue (JObject shape es) =
     andThen (map_results (\<lambda>(k, v). andThen (toProtocolJsonValue v) (\<lambda>w. Inr (k, w))) es)
       (\<lambda>fs. Inr (assign_all fs))"

definition index_entries :: "byte list \<Rightarrow> (js_string \<times> js_value) list" where
  "index_entries bs = map (\<lambda>i. (units (decimal i), JNumber (Integral (int (unat (bs ! i)))))) [0..<length bs]"

fun sanitizeProtocolDetails :: "(js_value \<Rightarrow> js_string option) \<Rightarrow> js_value \<Rightarrow> js_value option" where
  "sanitizeProtocolDetails foreign JNull = Some JNull"
| "sanitizeProtocolDetails foreign (JString s) = Some (JString s)"
| "sanitizeProtocolDetails foreign (JBool b) = Some (JBool b)"
| "sanitizeProtocolDetails foreign (JNumber n) =
     (if n = NonFinite then map_option JString (foreign (JNumber n)) else Some (JNumber n))"
| "sanitizeProtocolDetails foreign JUndefined = None"
| "sanitizeProtocolDetails foreign JBackref = Some (JString (units ''[Circular]''))"
| "sanitizeProtocolDetails foreign JUnsupported = map_option JString (foreign JUnsupported)"
| "sanitizeProtocolDetails foreign (JBytes bs) = Some (JObject Ordinary (index_entries bs))"
| "sanitizeProtocolDetails foreign (JArray vs) =
     Some (JArray (map (\<lambda>v. case sanitizeProtocolDetails foreign v of None \<Rightarrow> JNull | Some w \<Rightarrow> w) vs))"
| "sanitizeProtocolDetails foreign (JObject shape es) =
     Some (assign_all (concat (map (\<lambda>(k, v). case sanitizeProtocolDetails foreign v of
       None \<Rightarrow> [] | Some w \<Rightarrow> [(k, w)]) es)))"

subsection \<open>Usage and models\<close>

text \<open>A property of an object literal, and one spread in only when it is present.\<close>

definition own_field :: "string \<Rightarrow> js_value \<Rightarrow> js_string \<times> js_value" where
  "own_field name v = (units name, v)"

definition optional_field :: "string \<Rightarrow> js_value option \<Rightarrow> (js_string \<times> js_value) list" where
  "optional_field name v = (case v of None \<Rightarrow> [] | Some w \<Rightarrow> [(units name, w)])"

definition count_field :: "string \<Rightarrow> int \<Rightarrow> js_string \<times> js_value" where
  "count_field name i = own_field name (JNumber (case nonNegativeInteger (Some (Integral i)) of None \<Rightarrow> Integral 0 | Some n \<Rightarrow> n))"

definition toProtocolUsage :: "(rat \<Rightarrow> js_number) \<Rightarrow> usage option \<Rightarrow> js_value option" where
  "toProtocolUsage double u = (case u of None \<Rightarrow> None
     | Some usage \<Rightarrow>
         let cost = usage_cost usage; amount = (\<lambda>name x. own_field name (JNumber (nonNegativeNumber (double x))))
         in Some (JObject Ordinary
           ([count_field ''input'' (u_input usage), count_field ''output'' (u_output usage),
             count_field ''cacheRead'' (u_cacheRead usage), count_field ''cacheWrite'' (u_cacheWrite usage)] @
            optional_field ''reasoning'' (map_option JNumber (nonNegativeInteger (map_option Integral (u_reasoning usage)))) @
            [count_field ''totalTokens'' (u_totalTokens usage),
             own_field ''cost'' (JObject Ordinary
               [amount ''input'' (cost_input cost), amount ''output'' (cost_output cost),
                amount ''cacheRead'' (cost_cacheRead cost), amount ''cacheWrite'' (cost_cacheWrite cost),
                amount ''total'' (cost_total cost)])])))"

record ai_model =
  aim_id :: string
  aim_name :: string
  aim_api :: string
  aim_provider :: string
  aim_reasoning :: bool
  aim_thinkingLevelMap :: "string \<Rightarrow> string option option"   \<comment> \<open>\<open>Some None\<close>: mapped to null\<close>
  aim_inputImage :: "bool list"                                 \<comment> \<open>image or text\<close>
  aim_cost_input :: js_number
  aim_cost_output :: js_number
  aim_cost_cacheRead :: js_number
  aim_cost_cacheWrite :: js_number
  aim_contextWindow :: js_number
  aim_maxTokens :: js_number

definition EXTENDED_THINKING_LEVELS :: "string list" where
  "EXTENDED_THINKING_LEVELS = [''off'', ''minimal'', ''low'', ''medium'', ''high'', ''xhigh'', ''max'']"

definition getSupportedThinkingLevels :: "ai_model \<Rightarrow> string list" where
  "getSupportedThinkingLevels m =
     (if \<not> aim_reasoning m then [''off'']
      else filter (\<lambda>level.
        let mapped = aim_thinkingLevelMap m level in
        if mapped = Some None then False
        else if level = ''xhigh'' \<or> level = ''max'' then mapped \<noteq> None
        else True) EXTENDED_THINKING_LEVELS)"

text \<open>\<^verbatim>\<open>Math.max(1, Math.floor(n))\<close>\<close>

definition positive_floor :: "js_number \<Rightarrow> js_number" where
  "positive_floor n = (case js_floor n of None \<Rightarrow> NonFinite | Some f \<Rightarrow> Integral (max 1 f))"

definition toProtocolModelMetadata :: "ai_model \<Rightarrow> bool \<Rightarrow> conversion_error + js_value" where
  "toProtocolModelMetadata m authenticated =
     andThen (identifier_text (aim_provider m)) (\<lambda>provider.
     andThen (identifier_text (aim_id m)) (\<lambda>i.
     andThen (identifier_text (aim_name m)) (\<lambda>name.
     andThen (identifier_text (aim_api m)) (\<lambda>api.
     Inr (JObject Ordinary
       [own_field ''provider'' provider, own_field ''id'' i, own_field ''name'' name, own_field ''api'' api,
        own_field ''reasoning'' (JBool (aim_reasoning m)),
        own_field ''input'' (JArray (map (\<lambda>image. JString (units (if image then ''image'' else ''text''))) (aim_inputImage m))),
        own_field ''contextWindow'' (JNumber (positive_floor (aim_contextWindow m))),
        own_field ''maxTokens'' (JNumber (positive_floor (aim_maxTokens m))),
        own_field ''cost'' (JObject Ordinary
          [own_field ''input'' (JNumber (nonNegativeNumber (aim_cost_input m))),
           own_field ''output'' (JNumber (nonNegativeNumber (aim_cost_output m))),
           own_field ''cacheRead'' (JNumber (nonNegativeNumber (aim_cost_cacheRead m))),
           own_field ''cacheWrite'' (JNumber (nonNegativeNumber (aim_cost_cacheWrite m)))]),
        own_field ''supportedThinkingLevels'' (JArray (map (JString \<circ> units) (getSupportedThinkingLevels m))),
        own_field ''authenticated'' (JBool authenticated)])))))"

subsection \<open>Messages\<close>

definition content_part :: "content_block \<Rightarrow> js_value" where
  "content_part b = (case b of
     TextContent t s \<Rightarrow> JObject Ordinary [own_field ''type'' (JString (units ''text'')), own_field ''text'' (JString (units t))]
   | ImageContent d m \<Rightarrow> JObject Ordinary [own_field ''type'' (JString (units ''image'')),
       own_field ''data'' (JString (units d)), own_field ''mimeType'' (JString (units m))]
   | _ \<Rightarrow> JUndefined)"

definition toProtocolUserContent :: "user_content \<Rightarrow> js_value" where
  "toProtocolUserContent c = (case c of
     PlainContent t \<Rightarrow> JArray [content_part (TextContent t None)]
   | BlockContent bs \<Rightarrow> JArray (map content_part bs))"

definition toProtocolUserMessage :: "user_content \<Rightarrow> int \<Rightarrow> string \<Rightarrow> conversion_error + js_value" where
  "toProtocolUserMessage content time i =
     andThen (identifier_text i) (\<lambda>ident.
     andThen (timestamp_value time) (\<lambda>t.
     Inr (JObject Ordinary
       [own_field ''id'' ident, own_field ''role'' (JString (units ''user'')),
        own_field ''content'' (toProtocolUserContent content), own_field ''timestamp'' t])))"

definition assistant_part :: "content_block \<Rightarrow> conversion_error + js_value" where
  "assistant_part b = (case b of
     ThinkingContent t s redacted \<Rightarrow> Inr (JObject Ordinary
       ([own_field ''type'' (JString (units ''thinking'')), own_field ''thinking'' (JString (units t))] @
        (if redacted then [own_field ''redacted'' (JBool True)] else [])))
   | ToolCallContent c \<Rightarrow>
       andThen (identifier_text (call_id c)) (\<lambda>callId.
       andThen (identifier_text (call_name c)) (\<lambda>name.
       andThen (toProtocolJsonValue (call_arguments c)) (\<lambda>args.
       Inr (JObject Ordinary [own_field ''type'' (JString (units ''toolCall'')), own_field ''toolCallId'' callId,
         own_field ''toolName'' name, own_field ''input'' args]))))
   | _ \<Rightarrow> Inr (content_part b))"

definition toProtocolAssistantContent :: "content_block list \<Rightarrow> conversion_error + js_value" where
  "toProtocolAssistantContent bs = andThen (map_results assistant_part bs) (\<lambda>ps. Inr (JArray ps))"

definition error_text_field :: "string option \<Rightarrow> (js_string \<times> js_value) list" where
  "error_text_field t = optional_field ''errorMessage'' (map_option (\<lambda>m. JString (units m)) t)"

text \<open>The fields every assistant item has, and those the stop reason adds.\<close>

definition assistant_common :: "(rat \<Rightarrow> js_number) \<Rightarrow> assistant_message \<Rightarrow> string \<Rightarrow>
    conversion_error + (js_string \<times> js_value) list" where
  "assistant_common double m i =
     andThen (identifier_text i) (\<lambda>ident.
     andThen (toProtocolAssistantContent (am_content m)) (\<lambda>content.
     andThen (identifier_text (am_provider m)) (\<lambda>provider.
     andThen (identifier_text (am_model m)) (\<lambda>modelId.
     andThen (case am_responseModel m of None \<Rightarrow> Inr None
              | Some r \<Rightarrow> andThen (identifier_text r) (\<lambda>v. Inr (Some v))) (\<lambda>responseModel.
     andThen (timestamp_value (am_timestamp m)) (\<lambda>t.
     Inr ([own_field ''id'' ident, own_field ''role'' (JString (units ''assistant'')), own_field ''content'' content,
           own_field ''model'' (JObject Ordinary [own_field ''provider'' provider, own_field ''id'' modelId])] @
          optional_field ''responseModel'' responseModel @
          optional_field ''usage'' (toProtocolUsage double (Some (am_usage m))) @
          [own_field ''timestamp'' t])))))))"

definition stop_text :: "stop_reason \<Rightarrow> string" where
  "stop_text r = (case r of Pending \<Rightarrow> ''pending'' | Stop \<Rightarrow> ''stop'' | Length \<Rightarrow> ''length'' | ToolUse \<Rightarrow> ''toolUse''
     | ErrorStop \<Rightarrow> ''error'' | Aborted \<Rightarrow> ''aborted'' | Deferred \<Rightarrow> ''deferred'')"

definition status_fields :: "assistant_message \<Rightarrow> conversion_error + (js_string \<times> js_value) list" where
  "status_fields m = (let status = (\<lambda>s. own_field ''status'' (JString (units s)));
       reason = own_field ''stopReason'' (JString (units (stop_text (am_stopReason m)))) in
     case am_stopReason m of
       Pending \<Rightarrow> Inr [status ''streaming'']
     | Deferred \<Rightarrow> Inl DeferredMessage
     | ErrorStop \<Rightarrow> if am_errorMessage m = Some [] then Inl EmptyErrorMessage
         else Inr ([status ''error'', reason] @ error_text_field (am_errorMessage m))
     | Aborted \<Rightarrow> Inr ([status ''aborted'', reason] @ error_text_field (am_errorMessage m))
     | _ \<Rightarrow> Inr [status ''complete'', reason])"

definition toProtocolAssistantMessage :: "(rat \<Rightarrow> js_number) \<Rightarrow> assistant_message \<Rightarrow> string \<Rightarrow>
    conversion_error + js_value" where
  "toProtocolAssistantMessage double m i =
     andThen (assistant_common double m i) (\<lambda>common.
     andThen (status_fields m) (\<lambda>status. Inr (JObject Ordinary (common @ status))))"

definition toProtocolToolContent :: "content_block list \<Rightarrow> js_value" where
  "toProtocolToolContent bs = JArray (map content_part bs)"

definition toProtocolToolResultMessage :: "(rat \<Rightarrow> js_number) \<Rightarrow> (js_value \<Rightarrow> js_string option) \<Rightarrow>
    tool_result_message \<Rightarrow> string \<Rightarrow> tool_call \<Rightarrow> conversion_error + js_value" where
  "toProtocolToolResultMessage double foreign m i call =
     andThen (identifier_text (call_id call)) (\<lambda>callId.
     andThen (identifier_text (call_name call)) (\<lambda>callName.
     andThen (identifier_text (tr_toolCallId m)) (\<lambda>resultId.
     if resultId \<noteq> callId then Inl CallIdMismatch else
     andThen (identifier_text (tr_toolName m)) (\<lambda>resultName.
     if resultName \<noteq> callName then Inl CallNameMismatch else
     let details = (case tr_details m of None \<Rightarrow> None | Some d \<Rightarrow> sanitizeProtocolDetails foreign d) in
     andThen (identifier_text i) (\<lambda>ident.
     andThen (toProtocolJsonValue (call_arguments call)) (\<lambda>args.
     andThen (timestamp_value (tr_timestamp m)) (\<lambda>t.
     Inr (JObject Ordinary
       ([own_field ''id'' ident, own_field ''role'' (JString (units ''tool'')), own_field ''toolCallId'' callId,
         own_field ''toolName'' callName, own_field ''input'' args,
         own_field ''content'' (toProtocolToolContent (tr_content m))] @
        optional_field ''details'' details @
        optional_field ''usage'' (toProtocolUsage double (tr_usage m)) @
        [own_field ''timestamp'' t,
         own_field ''status'' (JString (units (if tr_isError m then ''error'' else ''complete''))),
         own_field ''isError'' (JBool (tr_isError m))])))))))))"

end
