(* ===== verification/ServerProtocolTypes.thy ===== *)
theory ServerProtocolTypes
  imports ServerProtocol
begin

text \<open>
  The conversions produce values of their schemas: what the server puts into a snapshot or an event
  passes the validation that encodes it. The conditions are those the conversions do not check
  themselves: mime types are not empty, context sizes are finite, and no object has a property
  \<^verbatim>\<open>__proto__\<close>; for the last one the validation fails, which the server answers by closing the
  connection.
\<close>

definition wire_value :: "schema \<Rightarrow> js_value \<Rightarrow> bool" where
  "wire_value s v \<longleftrightarrow> isProtocolValue False v \<and> conforms s v"

lemma protocol_property: "isProtocolValue False v \<Longrightarrow> isProtocolValue True v"
  by (cases v) simp_all

subsection \<open>Scalars and fields\<close>

lemma at_least_Integral [simp]: "at_least (Some m) (Integral i) \<longleftrightarrow> m \<le> i"
  by (simp add: at_least_def)

lemma nonNegativeNumber_at_least [simp]: "at_least (Some 0) (nonNegativeNumber n)"
  by (cases "js_floor n") (auto simp: nonNegativeNumber_def at_least_def)

lemma nonNegativeInteger_cases:
  "nonNegativeInteger n = Some k \<Longrightarrow> \<exists>i\<ge>0. k = Integral i"
  by (auto simp: nonNegativeInteger_def split: option.splits)

lemma count_field [simp]: "count_field name i = own_field name (JNumber (Integral (max 0 i)))"
  by (simp add: count_field_def nonNegativeInteger_def)

lemma identifier_text_Inr [simp]: "identifier_text s = Inr v \<longleftrightarrow> s \<noteq> [] \<and> v = JString (units s)"
  by (auto simp: identifier_text_def)

lemma timestamp_value_Inr [simp]:
  "timestamp_value t = Inr v \<longleftrightarrow> is_safe_integer t \<and> 0 \<le> t \<and> v = JNumber (Integral t)"
  by (auto simp: timestamp_value_def)


lemma nonempty_length: "s \<noteq> [] \<Longrightarrow> Suc 0 \<le> length s" by (cases s) simp_all

lemmas object_simps = strict_entries_def own_field_def optional_field_def required_def opt_def

subsection \<open>JSON values\<close>

fun plain_keys :: "js_value \<Rightarrow> bool" where
  "plain_keys (JArray vs) \<longleftrightarrow> list_all plain_keys vs"
| "plain_keys (JObject shape es) \<longleftrightarrow> list_all (\<lambda>(k, v). k \<noteq> proto_key \<and> plain_keys v) es"
| "plain_keys v \<longleftrightarrow> True"

lemma assigned_prototype_plain: "proto_key \<notin> fst ` set es \<Longrightarrow> assigned_prototype es p = p"
  by (induction es p rule: assigned_prototype.induct) auto

lemma assign_all_plain: "proto_key \<notin> fst ` set es \<Longrightarrow> assign_all es = JObject Ordinary es"
  by (force simp: assign_all_def assigned_prototype_plain filter_id_conv)

lemma map_results_Inr: "map_results f xs = Inr ys \<Longrightarrow> list_all2 (\<lambda>x y. f x = Inr y) xs ys"
  by (induction xs arbitrary: ys) (auto simp: andThen_eq_Inr)

definition json_ok :: "js_value \<Rightarrow> bool" where
  "json_ok v \<longleftrightarrow> is_json_value v \<and> isProtocolValue False v"

lemma json_ok_object:
  "(\<And>k v. (k, v) \<in> set es \<Longrightarrow> json_ok v) \<Longrightarrow> json_ok (JObject Ordinary es)"
  by (fastforce simp: json_ok_def list_all_iff protocol_property)

lemma json_ok_array: "\<forall>v\<in>set vs. json_ok v \<Longrightarrow> json_ok (JArray vs)"
  by (simp add: json_ok_def list_all_iff)

lemma list_all2_right: "list_all2 P xs ys \<Longrightarrow> y \<in> set ys \<Longrightarrow> \<exists>x\<in>set xs. P x y"
  by (metis in_set_conv_nth list_all2_conv_all_nth)

lemma toProtocolJsonValue_ok: "toProtocolJsonValue v = Inr w \<Longrightarrow> plain_keys v \<Longrightarrow> json_ok w"
proof (induction v arbitrary: w)
  case (JArray vs)
  then obtain ws where w: "w = JArray ws" "list_all2 (\<lambda>x y. toProtocolJsonValue x = Inr y) vs ws"
    by (auto simp: andThen_eq_Inr dest: map_results_Inr)
  have "json_ok y" if "y \<in> set ws" for y
    using list_all2_right [OF w(2) that] JArray by (auto simp: list_all_iff)
  then show ?case using w(1) json_ok_array by simp
next
  case (JObject shape es)
  then obtain fs where w: "w = assign_all fs"
    "list_all2 (\<lambda>x y. (case x of (k, v) \<Rightarrow> andThen (toProtocolJsonValue v) (\<lambda>w. Inr (k, w))) = Inr y) es fs"
    by (auto simp: andThen_eq_Inr dest: map_results_Inr)
  have fs: "\<exists>v. (k, v) \<in> set es \<and> toProtocolJsonValue v = Inr y" if "(k, y) \<in> set fs" for k y
    using list_all2_right [OF w(2) that] by (auto simp: andThen_eq_Inr)
  with JObject.prems(2) have "assign_all fs = JObject Ordinary fs"
    by (intro assign_all_plain) (fastforce simp: list_all_iff)
  moreover have "json_ok y" if "(k, y) \<in> set fs" for k y
    using fs [OF that] JObject by (fastforce simp: list_all_iff)
  ultimately show ?case using w(1) json_ok_object [of fs] by metis
qed (auto simp: json_ok_def split: if_splits)

lemma proto_key_text: "proto_key \<noteq> units (decimal i)"
proof -
  have "CHR ''_'' \<notin> set (decimal n)" for n
    by (induction n rule: decimal.induct) (subst decimal.simps, auto simp: nth_Cons' split: if_splits)
  then have "''__proto__'' \<noteq> decimal i" by (metis list.set_intros(1))
  then show ?thesis by (simp add: proto_key_def)
qed

lemma sanitizeProtocolDetails_ok: "sanitizeProtocolDetails foreign v = Some w \<Longrightarrow> plain_keys v \<Longrightarrow> json_ok w"
proof (induction v arbitrary: w)
  case (JArray vs)
  have "json_ok (case sanitizeProtocolDetails foreign v of None \<Rightarrow> JNull | Some w \<Rightarrow> w)" if "v \<in> set vs" for v
    using that JArray by (auto simp: list_all_iff json_ok_def split: option.split)
  then show ?case using JArray.prems(1) json_ok_array by auto
next
  case (JObject shape es)
  define fs where "fs = concat (map (\<lambda>(k, v). case sanitizeProtocolDetails foreign v of
       None \<Rightarrow> [] | Some w \<Rightarrow> [(k, w)]) es)"
  have fs: "\<exists>v. (k, v) \<in> set es \<and> sanitizeProtocolDetails foreign v = Some y" if "(k, y) \<in> set fs" for k y
    using that by (auto simp: fs_def split: option.splits)
  with JObject.prems(2) have "assign_all fs = JObject Ordinary fs"
    by (intro assign_all_plain) (fastforce simp: list_all_iff)
  moreover have "json_ok y" if "(k, y) \<in> set fs" for k y
    using fs [OF that] JObject by (fastforce simp: list_all_iff)
  moreover have "w = assign_all fs" using JObject.prems(1) by (simp add: fs_def)
  ultimately show ?case using json_ok_object [of fs] by metis
next
  case (JBytes bs)
  then show ?case by (auto simp: index_entries_def intro!: json_ok_object) (simp add: json_ok_def)
qed (auto simp: json_ok_def split: if_splits)

subsection \<open>Usage, models and content\<close>

lemma usage_ok: "toProtocolUsage double u = Some v \<Longrightarrow> wire_value UsageSchema v"
  by (cases u; cases "u_reasoning (the u)")
    (auto simp: toProtocolUsage_def wire_value_def Let_def UsageSchema_def object_simps
      dest!: nonNegativeInteger_cases split: option.split)

lemma supported_levels: "set (getSupportedThinkingLevels m) \<subseteq> set EXTENDED_THINKING_LEVELS"
  by (auto simp: getSupportedThinkingLevels_def EXTENDED_THINKING_LEVELS_def)

lemma thinking_level_conforms: "l \<in> set EXTENDED_THINKING_LEVELS \<Longrightarrow> conforms ThinkingLevelSchema (JString (units l))"
  by (auto simp: EXTENDED_THINKING_LEVELS_def ThinkingLevelSchema_def)

lemma positive_floor_ok: "n \<noteq> NonFinite \<Longrightarrow> \<exists>i\<ge>1. positive_floor n = Integral i"
  by (cases n) (auto simp: positive_floor_def)

lemma model_metadata_ok:
  assumes "toProtocolModelMetadata m authenticated = Inr v"
    and "aim_contextWindow m \<noteq> NonFinite" and "aim_maxTokens m \<noteq> NonFinite" and "getSupportedThinkingLevels m \<noteq> []"
  shows "wire_value ModelMetadataSchema v"
proof -
  from positive_floor_ok [OF assms(2)] positive_floor_ok [OF assms(3)] obtain i j
    where ij: "positive_floor (aim_contextWindow m) = Integral i" "1 \<le> i" "positive_floor (aim_maxTokens m) = Integral j" "1 \<le> j"
    by blast
  have levels: "list_all (conforms ThinkingLevelSchema) (map (JString \<circ> units) (getSupportedThinkingLevels m))"
    using supported_levels [of m] thinking_level_conforms by (fastforce simp: list_all_iff)
  have "list_all (conforms (SUnion [SLiteral (LitString ''text''), SLiteral (LitString ''image'')]))
      (map (\<lambda>image. JString (units (if image then ''image'' else ''text''))) (aim_inputImage m))"
    by (auto simp: list_all_iff)
  moreover have "conforms ModelCostSchema (JObject Ordinary
          [own_field ''input'' (JNumber (nonNegativeNumber (aim_cost_input m))),
           own_field ''output'' (JNumber (nonNegativeNumber (aim_cost_output m))),
           own_field ''cacheRead'' (JNumber (nonNegativeNumber (aim_cost_cacheRead m))),
           own_field ''cacheWrite'' (JNumber (nonNegativeNumber (aim_cost_cacheWrite m)))])"
    by (simp add: ModelCostSchema_def object_simps)
  moreover have "Suc 0 \<le> length (getSupportedThinkingLevels m)" using assms(4) by (cases "getSupportedThinkingLevels m") simp_all
  ultimately show ?thesis using assms(1) ij levels
    by (auto simp: toProtocolModelMetadata_def andThen_eq_Inr wire_value_def ModelMetadataSchema_def IdSchema_def
        strict_entries_def own_field_def required_def nonempty_length list_all_iff simp del: conforms.simps(9))
qed

text \<open>Content of a user message or a tool result; content of an assistant message.\<close>

definition shown_block :: "content_block \<Rightarrow> bool" where
  "shown_block b \<longleftrightarrow> (case b of TextContent t s \<Rightarrow> True | ImageContent d m \<Rightarrow> m \<noteq> [] | _ \<Rightarrow> False)"

definition assistant_block :: "content_block \<Rightarrow> bool" where
  "assistant_block b \<longleftrightarrow> (case b of ImageContent d m \<Rightarrow> False | ToolCallContent c \<Rightarrow> plain_keys (call_arguments c) | _ \<Rightarrow> True)"

lemma content_part_ok: "shown_block b \<Longrightarrow> wire_value UserContentSchema (content_part b)"
  by (cases b) (auto simp: shown_block_def content_part_def wire_value_def object_simps UserContentSchema_def
      TextContentSchema_def ImageContentSchema_def nonempty_length)

lemma assistant_part_ok: "assistant_part b = Inr v \<Longrightarrow> assistant_block b \<Longrightarrow> wire_value AssistantContentSchema v"
  by (cases b) (auto simp: assistant_block_def assistant_part_def content_part_def wire_value_def object_simps
      AssistantContentSchema_def TextContentSchema_def ThinkingContentSchema_def ToolCallContentSchema_def
      JsonValueSchema_def IdSchema_def nonempty_length andThen_eq_Inr json_ok_def protocol_property
      dest: toProtocolJsonValue_ok)

subsection \<open>Transcript items\<close>

lemma parts_ok:
  "list_all2 (\<lambda>b v. assistant_part b = Inr v) bs ps \<Longrightarrow> list_all assistant_block bs \<Longrightarrow>
   list_all (wire_value AssistantContentSchema) ps"
  by (induction rule: list_all2_induct) (auto intro: assistant_part_ok)

lemma assistant_content_ok:
  "toProtocolAssistantContent bs = Inr v \<Longrightarrow> list_all assistant_block bs \<Longrightarrow> wire_value (SArray 0 AssistantContentSchema) v"
  by (auto simp: toProtocolAssistantContent_def andThen_eq_Inr wire_value_def list_all_iff
      dest!: map_results_Inr dest: parts_ok)

lemma shown_content_ok:
  "list_all shown_block bs \<Longrightarrow> wire_value (SArray 0 UserContentSchema) (JArray (map content_part bs))"
  by (auto simp: wire_value_def list_all_iff dest!: content_part_ok)

text \<open>The properties common to all assistant items conform, and each kind of item adds those of its stop reason.\<close>

lemma assistant_common_ok:
  assumes "assistant_common double m i = Inr common" and "list_all assistant_block (am_content m)"
  obtains content usage where "common =
      [(units ''id'', JString (units i)), (units ''role'', JString (units ''assistant'')), (units ''content'', content),
       (units ''model'', JObject Ordinary [(units ''provider'', JString (units (am_provider m))), (units ''id'', JString (units (am_model m)))])] @
      optional_field ''responseModel'' (map_option (\<lambda>r. JString (units r)) (am_responseModel m)) @
      [(units ''usage'', usage), (units ''timestamp'', JNumber (Integral (am_timestamp m)))]"
    and "i \<noteq> []" and "am_provider m \<noteq> []" and "am_model m \<noteq> []" and "0 \<le> am_timestamp m" and "am_responseModel m \<noteq> Some []"
    and "wire_value (SArray 0 AssistantContentSchema) content" and "wire_value UsageSchema usage"
proof -
  obtain usage where u: "toProtocolUsage double (Some (am_usage m)) = Some usage"
    by (simp add: toProtocolUsage_def Let_def)
  from assms(1) obtain content where c: "toProtocolAssistantContent (am_content m) = Inr content"
    by (auto simp: assistant_common_def andThen_eq_Inr)
  show thesis
  proof (rule that)
    show "common =
      [(units ''id'', JString (units i)), (units ''role'', JString (units ''assistant'')), (units ''content'', content),
       (units ''model'', JObject Ordinary [(units ''provider'', JString (units (am_provider m))), (units ''id'', JString (units (am_model m)))])] @
      optional_field ''responseModel'' (map_option (\<lambda>r. JString (units r)) (am_responseModel m)) @
      [(units ''usage'', usage), (units ''timestamp'', JNumber (Integral (am_timestamp m)))]"
      using assms(1) u c
      by (auto simp: assistant_common_def andThen_eq_Inr own_field_def optional_field_def split: option.splits)
    show "i \<noteq> []" "am_provider m \<noteq> []" "am_model m \<noteq> []" "0 \<le> am_timestamp m" "am_responseModel m \<noteq> Some []"
      using assms(1) by (auto simp: assistant_common_def andThen_eq_Inr split: option.splits)
    show "wire_value UsageSchema usage" by (rule usage_ok [OF u])
    show "wire_value (SArray 0 AssistantContentSchema) content" by (rule assistant_content_ok [OF c assms(2)])
  qed
qed

lemma strict_entries_append:
  assumes "strict_entries ps es" and "strict_entries qs fs"
  shows "strict_entries (ps @ qs) (es @ fs)"
proof -
  have "list_ex (\<lambda>(name, optional, ok). units name = k \<and> (optional \<and> v = JUndefined \<or> ok v)) (ps @ qs)"
    if "(k, v) \<in> set es \<or> (k, v) \<in> set fs" for k v
    using that assms unfolding strict_entries_def list_all_iff list_ex_append by blast
  moreover have "optional \<or> units name \<in> set (map fst (es @ fs))"
    if "(name, optional, ok) \<in> set ps \<or> (name, optional, ok) \<in> set qs" for name optional ok
    using that assms unfolding strict_entries_def list_all_iff by fastforce
  ultimately show ?thesis unfolding strict_entries_def list_all_iff by fastforce
qed

lemma strict_append:
  "conforms (SStrict ps) (JObject sh es) \<Longrightarrow> conforms (SStrict qs) (JObject sh' fs) \<Longrightarrow>
   conforms (SStrict (ps @ qs)) (JObject sh'' (es @ fs))"
  by (simp add: strict_entries_append)

lemma protocol_append:
  "isProtocolValue False (JObject Ordinary (es @ fs)) \<longleftrightarrow>
   isProtocolValue False (JObject Ordinary es) \<and> isProtocolValue False (JObject Ordinary fs)"
  by simp

lemma assistant_common_wire:
  assumes "assistant_common double m i = Inr common" and "list_all assistant_block (am_content m)"
  shows "wire_value (SStrict AssistantTranscriptItemProperties) (JObject Ordinary common)"
  using assms
proof (rule assistant_common_ok)
  fix content usage
  assume common: "common =
      [(units ''id'', JString (units i)), (units ''role'', JString (units ''assistant'')), (units ''content'', content),
       (units ''model'', JObject Ordinary [(units ''provider'', JString (units (am_provider m))), (units ''id'', JString (units (am_model m)))])] @
      optional_field ''responseModel'' (map_option (\<lambda>r. JString (units r)) (am_responseModel m)) @
      [(units ''usage'', usage), (units ''timestamp'', JNumber (Integral (am_timestamp m)))]"
    and ids: "i \<noteq> []" "am_provider m \<noteq> []" "am_model m \<noteq> []" "0 \<le> am_timestamp m" "am_responseModel m \<noteq> Some []"
    and parts: "wire_value (SArray 0 AssistantContentSchema) content" "wire_value UsageSchema usage"
  from parts have proto: "isProtocolValue True content" "isProtocolValue True usage"
    and conf: "conforms (SArray 0 AssistantContentSchema) content" "conforms UsageSchema usage"
    by (simp_all add: wire_value_def protocol_property)
  have model: "conforms ModelRefSchema (JObject Ordinary
      [(units ''provider'', JString (units (am_provider m))), (units ''id'', JString (units (am_model m)))])"
    using ids by (simp add: ModelRefSchema_def IdSchema_def object_simps nonempty_length)
  have "conforms (SStrict AssistantTranscriptItemProperties) (JObject Ordinary common)"
    using ids conf model unfolding common
    by (cases "am_responseModel m")
      (simp_all add: AssistantTranscriptItemProperties_def IdSchema_def TimestampSchema_def object_simps nonempty_length
        del: conforms.simps(7))
  moreover have "isProtocolValue False (JObject Ordinary common)"
    using proto unfolding common by (cases "am_responseModel m") (simp_all add: optional_field_def)
  ultimately show ?thesis by (simp add: wire_value_def)
qed

definition status_properties :: "(string \<times> bool \<times> schema) list list" where
  "status_properties =
     [[required ''status'' (SLiteral (LitString ''streaming''))],
      [required ''status'' (SLiteral (LitString ''complete'')), required ''stopReason'' (SUnion (map (SLiteral \<circ> LitString) [''stop'', ''length'', ''toolUse'']))],
      [required ''status'' (SLiteral (LitString ''error'')), required ''stopReason'' (SLiteral (LitString ''error'')), opt ''errorMessage'' (SString 1)],
      [required ''status'' (SLiteral (LitString ''aborted'')), required ''stopReason'' (SLiteral (LitString ''aborted'')), opt ''errorMessage'' (SString 0)]]"

lemma assistant_schema_properties:
  "AssistantTranscriptItemSchema = SUnion (map (\<lambda>qs. SStrict (AssistantTranscriptItemProperties @ qs)) status_properties)"
  by (simp add: AssistantTranscriptItemSchema_def StreamingAssistantTranscriptItemSchema_def status_properties_def
      CompleteAssistantTranscriptItemSchema_def ErrorAssistantTranscriptItemSchema_def AbortedAssistantTranscriptItemSchema_def)

definition status_index :: "stop_reason \<Rightarrow> nat" where
  "status_index r = (case r of Pending \<Rightarrow> 0 | ErrorStop \<Rightarrow> 2 | Aborted \<Rightarrow> 3 | _ \<Rightarrow> 1)"

lemma status_wire:
  "status_fields m = Inr status \<Longrightarrow> wire_value (SStrict (status_properties ! status_index (am_stopReason m))) (JObject Ordinary status)"
  by (cases "am_stopReason m"; cases "am_errorMessage m")
     (simp_all add: status_fields_def Let_def error_text_field_def stop_text_def wire_value_def status_properties_def
       status_index_def object_simps nonempty_length split: if_splits, auto simp: strict_entries_def nonempty_length object_simps)

lemma status_index_less: "status_index r < length status_properties"
  by (cases r) (simp_all add: status_index_def status_properties_def)

text \<open>
  C37. Every assistant message the server converts is a valid transcript item of the protocol, whatever
  its stop reason: the result passes the validation of the item's schema, provided no tool-call argument
  has a property \<^verbatim>\<open>__proto__\<close>.
\<close>

theorem assistant_items_conform:
  assumes "toProtocolAssistantMessage double m i = Inr v" and "list_all assistant_block (am_content m)"
  shows "wire_value AssistantTranscriptItemSchema v"
proof -
  from assms(1) obtain common status where v: "assistant_common double m i = Inr common" "status_fields m = Inr status"
    "v = JObject Ordinary (common @ status)"
    by (auto simp: toProtocolAssistantMessage_def andThen_eq_Inr)
  from status_wire [OF v(2)] obtain qs where qs: "qs \<in> set status_properties" "wire_value (SStrict qs) (JObject Ordinary status)"
    using status_index_less nth_mem by blast
  with assistant_common_wire [OF v(1) assms(2)] have "wire_value (SStrict (AssistantTranscriptItemProperties @ qs)) v"
    unfolding v(3) wire_value_def by (meson protocol_append strict_append)
  with qs(1) show ?thesis
    by (auto simp: wire_value_def assistant_schema_properties list_ex_iff simp del: conforms.simps(10))
qed

lemma user_items_conform:
  assumes "toProtocolUserMessage content time i = Inr v"
    and "case content of PlainContent t \<Rightarrow> True | BlockContent bs \<Rightarrow> list_all shown_block bs"
  shows "wire_value UserTranscriptItemSchema v"
proof -
  define bs where "bs = (case content of PlainContent t \<Rightarrow> [TextContent t None] | BlockContent bs \<Rightarrow> bs)"
  have "list_all shown_block bs" using assms(2) by (cases content) (simp_all add: bs_def shown_block_def)
  from shown_content_ok [OF this] have parts: "isProtocolValue True (JArray (map content_part bs))"
    "conforms (SArray 0 UserContentSchema) (JArray (map content_part bs))"
    by (simp_all add: wire_value_def del: conforms.simps(7) isProtocolValue.simps) (simp add: list_all_iff)
  moreover have "toProtocolUserContent content = JArray (map content_part bs)"
    by (cases content) (simp_all add: toProtocolUserContent_def bs_def)
  ultimately show ?thesis using assms(1)
    by (auto simp: toProtocolUserMessage_def andThen_eq_Inr wire_value_def UserTranscriptItemSchema_def IdSchema_def
        TimestampSchema_def object_simps nonempty_length simp del: conforms.simps(7))
qed

text \<open>
  Every tool result the server converts for its call is a valid transcript item of the protocol,
  with its sanitized details, provided images name their type and neither the arguments of the call nor
  the details have a property \<^verbatim>\<open>__proto__\<close>.
\<close>

theorem tool_items_conform:
  assumes "toProtocolToolResultMessage double foreign m i call = Inr v"
    and "list_all shown_block (tr_content m)" and "plain_keys (call_arguments call)"
    and "\<forall>d. tr_details m = Some d \<longrightarrow> plain_keys d"
  shows "wire_value ToolTranscriptItemSchema v \<and> tr_toolCallId m = call_id call \<and> tr_toolName m = call_name call"
proof -
  define details where "details = (case tr_details m of None \<Rightarrow> None | Some d \<Rightarrow> sanitizeProtocolDetails foreign d)"
  have details: "details = Some d \<Longrightarrow> json_ok d" for d
    using assms(4) sanitizeProtocolDetails_ok by (auto simp: details_def split: option.splits)
  from assms(1) obtain args where args: "toProtocolJsonValue (call_arguments call) = Inr args"
    and ids: "i \<noteq> []" "call_id call \<noteq> []" "call_name call \<noteq> []" "0 \<le> tr_timestamp m"
      "tr_toolCallId m = call_id call" "tr_toolName m = call_name call"
    and v: "v = JObject Ordinary
       (([(units ''id'', JString (units i)), (units ''role'', JString (units ''tool'')), (units ''toolCallId'', JString (units (call_id call))),
         (units ''toolName'', JString (units (call_name call))), (units ''input'', args),
         (units ''content'', toProtocolToolContent (tr_content m))] @
        optional_field ''details'' details @
        optional_field ''usage'' (toProtocolUsage double (tr_usage m)) @
        [(units ''timestamp'', JNumber (Integral (tr_timestamp m)))]) @
        [(units ''status'', JString (units (if tr_isError m then ''error'' else ''complete''))),
         (units ''isError'', JBool (tr_isError m))])"
    by (auto simp: toProtocolToolResultMessage_def andThen_eq_Inr details_def own_field_def split: if_splits)
  from toProtocolJsonValue_ok [OF args assms(3)] have input: "is_json_value args" "isProtocolValue True args"
    by (simp_all add: json_ok_def protocol_property)
  from shown_content_ok [OF assms(2)] have content: "conforms (SArray 0 ToolContentSchema) (toProtocolToolContent (tr_content m))"
    "isProtocolValue True (toProtocolToolContent (tr_content m))"
    by (simp_all add: wire_value_def toProtocolToolContent_def ToolContentSchema_def UserContentSchema_def
        del: conforms.simps(7) isProtocolValue.simps) (simp add: list_all_iff)
  have usage: "\<forall>u. toProtocolUsage double (tr_usage m) = Some u \<longrightarrow> conforms UsageSchema u \<and> isProtocolValue True u"
    using usage_ok by (auto simp: wire_value_def protocol_property)
  let ?common = "[(units ''id'', JString (units i)), (units ''role'', JString (units ''tool'')), (units ''toolCallId'', JString (units (call_id call))),
         (units ''toolName'', JString (units (call_name call))), (units ''input'', args),
         (units ''content'', toProtocolToolContent (tr_content m))] @
        optional_field ''details'' details @
        optional_field ''usage'' (toProtocolUsage double (tr_usage m)) @
        [(units ''timestamp'', JNumber (Integral (tr_timestamp m)))]"
  let ?status = "[(units ''status'', JString (units (if tr_isError m then ''error'' else ''complete''))),
         (units ''isError'', JBool (tr_isError m))]"
  have "wire_value (SStrict ToolTranscriptItemProperties) (JObject Ordinary ?common)"
    using ids input content usage details
    by (cases details; cases "toProtocolUsage double (tr_usage m)")
      (simp_all add: wire_value_def ToolTranscriptItemProperties_def IdSchema_def TimestampSchema_def JsonValueSchema_def
        object_simps nonempty_length json_ok_def protocol_property del: conforms.simps(7))
  moreover have "wire_value (SStrict [required ''status'' (SLiteral (LitString (if tr_isError m then ''error'' else ''complete''))),
      required ''isError'' (SLiteral (LitBool (tr_isError m)))]) (JObject Ordinary ?status)"
    by (simp add: wire_value_def object_simps)
  ultimately have "wire_value (SStrict (ToolTranscriptItemProperties @
      [required ''status'' (SLiteral (LitString (if tr_isError m then ''error'' else ''complete''))),
       required ''isError'' (SLiteral (LitBool (tr_isError m)))])) v"
    unfolding v wire_value_def by (meson protocol_append strict_append)
  then have "wire_value ToolTranscriptItemSchema v"
    by (cases "tr_isError m")
      (auto simp: wire_value_def ToolTranscriptItemSchema_def CompleteToolTranscriptItemSchema_def
        ErrorToolTranscriptItemSchema_def simp del: conforms.simps(10))
  with ids show ?thesis by simp
qed

subsection \<open>The key \<^verbatim>\<open>__proto__\<close>\<close>

lemma toProtocolJsonValue_object:
  "toProtocolJsonValue (JObject shape es) = Inr w \<Longrightarrow> (\<exists>sh fs. w = JObject sh fs) \<or> w = JUnsupported"
  by (auto simp: andThen_eq_Inr assign_all_def Let_def split: prototype.splits) (metis prototype.exhaust)

lemma assigned_prototype_once:
  "distinct (map fst es) \<Longrightarrow> (proto_key, JObject sh fs) \<in> set es \<or> (proto_key, JUnsupported) \<in> set es \<Longrightarrow>
   assigned_prototype es p = OtherPrototype"
proof (induction es arbitrary: p)
  case (Cons e es)
  obtain k v where e: "e = (k, v)" by (cases e)
  show ?case
  proof (cases "k = proto_key")
    case True
    with Cons.prems e have "v = JUnsupported \<or> (\<exists>sh fs. v = JObject sh fs)" and "proto_key \<notin> fst ` set es" by force+
    then show ?thesis using True e by (auto simp: assigned_prototype_plain)
  next
    case False
    then show ?thesis using Cons e by auto
  qed
qed simp

lemma proto_object_unsupported:
  assumes "toProtocolJsonValue (JObject shape es) = Inr w" and "(proto_key, JObject sh fs) \<in> set es" and "distinct (map fst es)"
  shows "w = JUnsupported"
proof -
  let ?convert = "\<lambda>(k, v). andThen (toProtocolJsonValue v) (\<lambda>w. Inr (k, w))"
  from assms(1) obtain gs where w: "w = assign_all gs" and gs: "list_all2 (\<lambda>x y. ?convert x = Inr y) es gs"
    by (auto simp: andThen_eq_Inr dest: map_results_Inr)
  from gs have "map fst gs = map fst es"
    by (induction rule: list_all2_induct) (auto simp: andThen_eq_Inr)
  with assms(3) have "distinct (map fst gs)" by simp
  moreover from gs assms(2) obtain x where "(proto_key, x) \<in> set gs" "toProtocolJsonValue (JObject sh fs) = Inr x"
    by (induction rule: list_all2_induct) (auto simp: andThen_eq_Inr)
  with toProtocolJsonValue_object have "(\<exists>sh fs. (proto_key, JObject sh fs) \<in> set gs) \<or> (proto_key, JUnsupported) \<in> set gs"
    by blast
  ultimately have "assigned_prototype gs ObjectPrototype = OtherPrototype" using assigned_prototype_once by blast
  then show ?thesis by (simp add: w assign_all_def)
qed

definition item_event :: "string \<Rightarrow> js_value \<Rightarrow> js_value" where
  "item_event sessionId item =
     JObject Ordinary [own_field ''type'' (JString (units ''event'')), own_field ''event''
       (JObject Ordinary [own_field ''type'' (JString (units ''session_progress'')), own_field ''sessionId'' (JString (units sessionId)),
         own_field ''progress'' (JObject Ordinary [own_field ''type'' (JString (units ''item_finished'')), own_field ''item'' item])])]"

text \<open>
  C38. A tool call with an argument named \<^verbatim>\<open>__proto__\<close> cannot be shown: when a message has a call whose
  arguments hold an object under that key, its conversion succeeds, but the event that carries the
  item can no longer be encoded, whatever the schema checker says.
\<close>

theorem proto_argument_breaks_event:
  assumes "toProtocolAssistantMessage double m i = Inr v" and "ToolCallContent c \<in> set (am_content m)"
    and "call_arguments c = JObject shape es" and "(proto_key, JObject sh fs) \<in> set es" and "distinct (map fst es)"
  shows "encodeServerMessage check_schema (item_event sessionId v) options = Inl InvalidMessage"
proof -
  from assms(1) obtain content common status where content: "toProtocolAssistantContent (am_content m) = Inr content"
    and common: "assistant_common double m i = Inr common" and v: "v = JObject Ordinary (common @ status)"
    by (auto simp: toProtocolAssistantMessage_def assistant_common_def andThen_eq_Inr)
  from common content have member: "(units ''content'', content) \<in> set common"
    by (auto simp: assistant_common_def andThen_eq_Inr own_field_def split: option.splits)
  from content obtain ps where ps: "content = JArray ps" "list_all2 (\<lambda>x y. assistant_part x = Inr y) (am_content m) ps"
    by (auto simp: toProtocolAssistantContent_def andThen_eq_Inr dest: map_results_Inr)
  from ps(2) assms(2) obtain part where part: "part \<in> set ps" "assistant_part (ToolCallContent c) = Inr part"
    by (induction rule: list_all2_induct) auto
  from part(2) obtain args where "toProtocolJsonValue (call_arguments c) = Inr args"
    and shape: "(units ''input'', args) \<in> set (case part of JObject s es \<Rightarrow> es | _ \<Rightarrow> [])" "\<exists>es. part = JObject Ordinary es"
    by (auto simp: assistant_part_def andThen_eq_Inr own_field_def)
  with proto_object_unsupported assms(3-5) have "args = JUnsupported" by metis
  with shape have "\<not> isProtocolValue False part" by (fastforce simp: list_all_iff)
  with part(1) ps(1) have "\<not> isProtocolValue True content" using protocol_property by (cases part) (auto simp: list_all_iff)
  with member have "\<not> isProtocolValue True v" unfolding v by (fastforce simp: list_all_iff)
  then show ?thesis
    by (simp add: encodeServerMessage_def encodeProtocolMessage_def parseServerMessage_def parse_message_def item_event_def
        own_field_def)
qed

subsection \<open>Samples\<close>

definition sample_costs :: usage where
  "sample_costs = \<lparr>u_input = -1, u_output = 2, u_cacheRead = 0, u_cacheWrite = 0, u_cacheWrite1h = None,
     u_reasoning = Some 3, u_totalTokens = 2,
     usage_cost = \<lparr>cost_input = 0, cost_output = 0, cost_cacheRead = 0, cost_cacheWrite = 0, cost_total = 0\<rparr>\<rparr>"

definition sample_arguments :: "js_string \<Rightarrow> js_value" where
  "sample_arguments k = JObject Ordinary [(k, JObject Ordinary [])]"

definition sample_tool_call :: "js_string \<Rightarrow> tool_call" where
  "sample_tool_call k = \<lparr>call_id = ''c'', call_name = ''t'', call_arguments = sample_arguments k,
     call_thoughtSignature = None, call_namespace = None\<rparr>"

definition sample_assistant :: "js_string \<Rightarrow> assistant_message" where
  "sample_assistant k = \<lparr>am_content = [TextContent ''hi'' None, ToolCallContent (sample_tool_call k)], am_api = ''a'',
     am_provider = ''p'', am_model = ''m'', am_responseModel = Some ''r'', am_responseId = None, am_diagnostics = None,
     am_usage = sample_costs, am_stopReason = ToolUse, am_deferred = None, am_errorMessage = None, am_rawStopReason = None,
     am_endTurn = None, am_timestamp = 5\<rparr>"

definition sample_double :: "rat \<Rightarrow> js_number" where "sample_double r = NonFinite"

definition sample_item :: "js_string \<Rightarrow> js_value" where
  "sample_item k = projr (toProtocolAssistantMessage sample_double (sample_assistant k) ''i'')"

lemma sample_item:
  "toProtocolAssistantMessage sample_double (sample_assistant k) ''i'' = Inr (sample_item k)"
  by (simp add: sample_item_def toProtocolAssistantMessage_def assistant_common_def sample_assistant_def
      toProtocolAssistantContent_def assistant_part_def sample_tool_call_def sample_arguments_def identifier_text_def
      timestamp_value_def is_safe_integer_def MAX_SAFE_INTEGER_def status_fields_def Let_def)

theorem assistant_items_conform_witness: "wire_value AssistantTranscriptItemSchema (sample_item (units ''path''))"
proof -
  have "list_all assistant_block (am_content (sample_assistant (units ''path'')))" by code_simp
  with assistant_items_conform [OF sample_item] show ?thesis by blast
qed

theorem proto_argument_breaks_event_witness:
  "encodeServerMessage conforms (item_event ''s'' (sample_item proto_key)) None = Inl InvalidMessage"
  by (rule proto_argument_breaks_event [OF sample_item, where c = "sample_tool_call proto_key" and es = "[(proto_key, JObject Ordinary [])]"])
     (simp_all add: sample_assistant_def sample_tool_call_def sample_arguments_def)

definition sample_tool_result :: tool_result_message where
  "sample_tool_result = \<lparr>tr_toolCallId = ''c'', tr_toolName = ''t'', tr_content = [ImageContent ''d'' ''m''],
     tr_details = Some (JArray [JUndefined, JBackref]), tr_usage = None, tr_addedToolNames = None, tr_isError = True, tr_timestamp = 6\<rparr>"

theorem tool_items_conform_witness:
  "\<exists>v. toProtocolToolResultMessage sample_double (\<lambda>v. None) sample_tool_result ''i'' (sample_tool_call (units ''path'')) = Inr v \<and>
     wire_value ToolTranscriptItemSchema v"
proof -
  let ?r = "toProtocolToolResultMessage sample_double (\<lambda>v. None) sample_tool_result ''i'' (sample_tool_call (units ''path''))"
  have r: "?r = Inr (projr ?r)" by code_simp
  moreover have "list_all shown_block (tr_content sample_tool_result)" "plain_keys (call_arguments (sample_tool_call (units ''path'')))"
    by code_simp+
  moreover have "\<forall>d. tr_details sample_tool_result = Some d \<longrightarrow> plain_keys d" by (simp add: sample_tool_result_def)
  ultimately show ?thesis using tool_items_conform by blast
qed

end
