(* ===== verification/ClientState.thy ===== *)
theory ClientState
  imports Schemas SessionContext
begin

text \<open>
  The messages the client exchanges and the state it keeps of the server,
  \<^verbatim>\<open>pi/packages/client/src/state.ts\<close> with the types of \<^verbatim>\<open>pi/packages/protocol/src/schemas.ts\<close>.

  A message is a datatype; \<open>read_server_message\<close> reads it from the validated value and
  \<open>command_value\<close> writes a command. A snapshot keeps the fields the client looks at and the value
  as received. Listeners are numbers; a notification is the listener and what it is given. A listener that
  throws changes nothing, and listeners do not call the client while they are notified.
\<close>

type_synonym sid = js_string

subsection \<open>Messages\<close>

record session_snapshot =
  ss_id :: sid
  ss_revision :: int
  ss_attached :: bool
  ss_value :: js_value

record server_snapshot =
  sv_revision :: int
  sv_value :: js_value

datatype command =
    ListCommand
  | CreateCommand "(js_string \<times> js_value) list"
  | AttachCommand sid
  | DetachCommand sid
  | PromptCommand sid js_string
  | SteerCommand sid js_string
  | AbortCommand sid
  | SetModelCommand sid js_value
  | SetThinkingCommand sid js_string

datatype command_result =
    ListResult js_value
  | DetachResult sid
  | SessionResult js_string session_snapshot            \<comment> \<open>command, session\<close>

datatype server_event =
    ServerSnapshotEvent server_snapshot
  | SessionSnapshotEvent session_snapshot
  | SessionProgressEvent sid js_value
  | SessionRemovedEvent sid

datatype server_message =
    HelloMessage server_snapshot
  | HelloErrorMessage js_value
  | ResponseMessage js_string "js_value + command_result"
  | EventMessage server_event

fun command_name :: "command \<Rightarrow> js_string" where
  "command_name ListCommand = units ''list''"
| "command_name (CreateCommand options) = units ''create''"
| "command_name (AttachCommand s) = units ''attach''"
| "command_name (DetachCommand s) = units ''detach''"
| "command_name (PromptCommand s t) = units ''prompt''"
| "command_name (SteerCommand s t) = units ''steer''"
| "command_name (AbortCommand s) = units ''abort''"
| "command_name (SetModelCommand s m) = units ''set_model''"
| "command_name (SetThinkingCommand s l) = units ''set_thinking''"

fun result_command :: "command_result \<Rightarrow> js_string" where
  "result_command (ListResult sessions) = units ''list''"
| "result_command (DetachResult s) = units ''detach''"
| "result_command (SessionResult name session) = name"

definition command_fields :: "command \<Rightarrow> (js_string \<times> js_value) list" where
  "command_fields c = (case c of
     ListCommand \<Rightarrow> []
   | CreateCommand options \<Rightarrow> options
   | AttachCommand s \<Rightarrow> [(units ''sessionId'', JString s)]
   | DetachCommand s \<Rightarrow> [(units ''sessionId'', JString s)]
   | PromptCommand s t \<Rightarrow> [(units ''sessionId'', JString s), (units ''text'', JString t)]
   | SteerCommand s t \<Rightarrow> [(units ''sessionId'', JString s), (units ''text'', JString t)]
   | AbortCommand s \<Rightarrow> [(units ''sessionId'', JString s)]
   | SetModelCommand s m \<Rightarrow> [(units ''sessionId'', JString s), (units ''model'', m)]
   | SetThinkingCommand s l \<Rightarrow> [(units ''sessionId'', JString s), (units ''thinkingLevel'', JString l)])"

definition command_value :: "command \<Rightarrow> js_value" where
  "command_value c = JObject Ordinary ((units ''command'', JString (command_name c)) # command_fields c)"

definition hello_value :: js_value where
  "hello_value = JObject Ordinary [(units ''type'', JString (units ''hello'')),
     (units ''version'', JNumber (Integral PROTOCOL_VERSION))]"

definition request_value :: "js_string \<Rightarrow> command \<Rightarrow> js_value" where
  "request_value i c = JObject Ordinary [(units ''type'', JString (units ''request'')), (units ''id'', JString i),
     (units ''request'', command_value c)]"

subsection \<open>Reading a validated message\<close>

definition member :: "string \<Rightarrow> js_value \<Rightarrow> js_value" where
  "member name v = (case v of JObject shape es \<Rightarrow> (case map_of es (units name) of None \<Rightarrow> JUndefined | Some w \<Rightarrow> w) | _ \<Rightarrow> JUndefined)"

definition text_member :: "string \<Rightarrow> js_value \<Rightarrow> js_string" where
  "text_member name v = (case member name v of JString s \<Rightarrow> s | _ \<Rightarrow> [])"

definition number_member :: "string \<Rightarrow> js_value \<Rightarrow> int" where
  "number_member name v = (case member name v of JNumber (Integral i) \<Rightarrow> i | _ \<Rightarrow> 0)"

definition read_session :: "js_value \<Rightarrow> session_snapshot" where
  "read_session v = \<lparr>ss_id = text_member ''id'' v, ss_revision = number_member ''revision'' v,
     ss_attached = (member ''attached'' v = JBool True), ss_value = v\<rparr>"

definition read_server :: "js_value \<Rightarrow> server_snapshot" where
  "read_server v = \<lparr>sv_revision = number_member ''revision'' v, sv_value = v\<rparr>"

definition read_result :: "js_value \<Rightarrow> command_result" where
  "read_result v = (let command = text_member ''command'' v in
     if command = units ''list'' then ListResult (member ''sessions'' v)
     else if command = units ''detach'' then DetachResult (text_member ''sessionId'' v)
     else SessionResult command (read_session (member ''session'' v)))"

definition read_event :: "js_value \<Rightarrow> server_event" where
  "read_event v = (let kind = text_member ''type'' v in
     if kind = units ''server_snapshot'' then ServerSnapshotEvent (read_server (member ''snapshot'' v))
     else if kind = units ''session_snapshot'' then SessionSnapshotEvent (read_session (member ''snapshot'' v))
     else if kind = units ''session_progress'' then SessionProgressEvent (text_member ''sessionId'' v) (member ''progress'' v)
     else SessionRemovedEvent (text_member ''sessionId'' v))"

definition read_server_message :: "js_value \<Rightarrow> server_message" where
  "read_server_message v = (let kind = text_member ''type'' v in
     if kind = units ''hello'' then HelloMessage (read_server (member ''snapshot'' v))
     else if kind = units ''hello_error'' then HelloErrorMessage (member ''error'' v)
     else if kind = units ''response''
     then ResponseMessage (text_member ''id'' v)
       (if member ''ok'' v = JBool True then Inr (read_result (member ''result'' v)) else Inl (member ''error'' v))
     else EventMessage (read_event (member ''event'' v)))"

subsection \<open>State\<close>

datatype notification =
    SnapshotNotice nat server_snapshot
  | EventNotice nat server_event
  | SessionNotice nat session_snapshot
  | SessionEventNotice nat server_event

text \<open>The listener sets of the sessions are objects: a set has a reference, and the map holds the reference
  of the set a session has now. Unsubscribing works on the set the subscription was made in.\<close>

record listener_map =
  lm_sets :: "nat \<Rightarrow> nat list"
  lm_by_id :: "sid \<Rightarrow> nat option"
  lm_next :: nat

record client_state =
  cs_snapshot :: "server_snapshot option"
  cs_sessions :: "sid \<Rightarrow> session_snapshot option"
  cs_attached :: "sid set"
  snapshotListeners :: "nat list"
  eventListeners :: "nat list"
  sessionSnapshotListeners :: listener_map
  sessionEventListeners :: listener_map
  notices :: "notification list"

definition no_listeners :: listener_map where
  "no_listeners = \<lparr>lm_sets = (\<lambda>r. []), lm_by_id = Map.empty, lm_next = 0\<rparr>"

definition clear_listeners :: "listener_map \<Rightarrow> listener_map" where
  "clear_listeners m = m\<lparr>lm_by_id := Map.empty\<rparr>"

definition session_listeners :: "listener_map \<Rightarrow> sid \<Rightarrow> nat list" where
  "session_listeners m i = (case lm_by_id m i of None \<Rightarrow> [] | Some r \<Rightarrow> lm_sets m r)"

definition new_client_state :: client_state where
  "new_client_state = \<lparr>cs_snapshot = None, cs_sessions = Map.empty, cs_attached = {}, snapshotListeners = [],
     eventListeners = [], sessionSnapshotListeners = no_listeners, sessionEventListeners = no_listeners, notices = []\<rparr>"

definition reset_state :: "client_state \<Rightarrow> client_state" where
  "reset_state s = s\<lparr>cs_snapshot := None, cs_sessions := Map.empty, cs_attached := {}\<rparr>"

definition clearAttachments :: "client_state \<Rightarrow> client_state" where
  "clearAttachments s = s\<lparr>cs_attached := {}\<rparr>"

definition dispose_state :: "client_state \<Rightarrow> client_state" where
  "dispose_state s = (reset_state s)\<lparr>snapshotListeners := [], eventListeners := [],
     sessionSnapshotListeners := clear_listeners (sessionSnapshotListeners s),
     sessionEventListeners := clear_listeners (sessionEventListeners s)\<rparr>"

definition forgetSessionSnapshot :: "sid \<Rightarrow> client_state \<Rightarrow> session_snapshot option \<times> client_state" where
  "forgetSessionSnapshot i s = (cs_sessions s i, s\<lparr>cs_sessions := (cs_sessions s)(i := None)\<rparr>)"

definition restoreSessionSnapshot :: "session_snapshot \<Rightarrow> client_state \<Rightarrow> client_state" where
  "restoreSessionSnapshot snap s =
     (if cs_sessions s (ss_id snap) = None then s\<lparr>cs_sessions := (cs_sessions s)(ss_id snap \<mapsto> snap)\<rparr> else s)"

text \<open>A set of listeners keeps the order of insertion.\<close>

definition add_listener :: "nat \<Rightarrow> nat list \<Rightarrow> nat list" where
  "add_listener l ls = (if l \<in> set ls then ls else ls @ [l])"

definition subscribe_snapshots :: "nat \<Rightarrow> client_state \<Rightarrow> client_state" where
  "subscribe_snapshots l s = s\<lparr>snapshotListeners := add_listener l (snapshotListeners s)\<rparr>"

definition unsubscribe_snapshots :: "nat \<Rightarrow> client_state \<Rightarrow> client_state" where
  "unsubscribe_snapshots l s = s\<lparr>snapshotListeners := removeAll l (snapshotListeners s)\<rparr>"

definition subscribe_events :: "nat \<Rightarrow> client_state \<Rightarrow> client_state" where
  "subscribe_events l s = s\<lparr>eventListeners := add_listener l (eventListeners s)\<rparr>"

definition unsubscribe_events :: "nat \<Rightarrow> client_state \<Rightarrow> client_state" where
  "unsubscribe_events l s = s\<lparr>eventListeners := removeAll l (eventListeners s)\<rparr>"

definition addMappedListener :: "sid \<Rightarrow> nat \<Rightarrow> listener_map \<Rightarrow> nat \<times> listener_map" where
  "addMappedListener i l m = (case lm_by_id m i of
     None \<Rightarrow> (let r = lm_next m
       in (r, m\<lparr>lm_sets := (lm_sets m)(r := [l]), lm_by_id := (lm_by_id m)(i \<mapsto> r), lm_next := r + 1\<rparr>))
   | Some r \<Rightarrow> (r, m\<lparr>lm_sets := (lm_sets m)(r := add_listener l (lm_sets m r))\<rparr>))"

text \<open>The function a subscription returns, for its set \<open>r\<close>.\<close>

definition removeMappedListener :: "sid \<Rightarrow> nat \<Rightarrow> nat \<Rightarrow> listener_map \<Rightarrow> listener_map" where
  "removeMappedListener i r l m =
     (let m = m\<lparr>lm_sets := (lm_sets m)(r := removeAll l (lm_sets m r))\<rparr>
      in if lm_sets m r = [] then m\<lparr>lm_by_id := (lm_by_id m)(i := None)\<rparr> else m)"

definition subscribeSession :: "sid \<Rightarrow> nat \<Rightarrow> client_state \<Rightarrow> nat \<times> client_state" where
  "subscribeSession i l s = (let (r, m) = addMappedListener i l (sessionSnapshotListeners s)
     in (r, s\<lparr>sessionSnapshotListeners := m\<rparr>))"

definition onSessionEvent :: "sid \<Rightarrow> nat \<Rightarrow> client_state \<Rightarrow> nat \<times> client_state" where
  "onSessionEvent i l s = (let (r, m) = addMappedListener i l (sessionEventListeners s)
     in (r, s\<lparr>sessionEventListeners := m\<rparr>))"

definition unsubscribeSession :: "sid \<Rightarrow> nat \<Rightarrow> nat \<Rightarrow> client_state \<Rightarrow> client_state" where
  "unsubscribeSession i r l s = s\<lparr>sessionSnapshotListeners := removeMappedListener i r l (sessionSnapshotListeners s)\<rparr>"

definition offSessionEvent :: "sid \<Rightarrow> nat \<Rightarrow> nat \<Rightarrow> client_state \<Rightarrow> client_state" where
  "offSessionEvent i r l s = s\<lparr>sessionEventListeners := removeMappedListener i r l (sessionEventListeners s)\<rparr>"

definition notify_all :: "(nat \<Rightarrow> notification) \<Rightarrow> nat list \<Rightarrow> client_state \<Rightarrow> client_state" where
  "notify_all notice ls s = s\<lparr>notices := notices s @ map notice ls\<rparr>"

definition applyServerSnapshot :: "server_snapshot \<Rightarrow> client_state \<Rightarrow> client_state" where
  "applyServerSnapshot snap s =
     (case cs_snapshot s of
        Some current \<Rightarrow> if sv_revision snap < sv_revision current then s
          else notify_all (\<lambda>l. SnapshotNotice l snap) (snapshotListeners s) (s\<lparr>cs_snapshot := Some snap\<rparr>)
      | None \<Rightarrow> notify_all (\<lambda>l. SnapshotNotice l snap) (snapshotListeners s) (s\<lparr>cs_snapshot := Some snap\<rparr>))"

definition applySessionSnapshot :: "session_snapshot \<Rightarrow> bool \<Rightarrow> client_state \<Rightarrow> client_state" where
  "applySessionSnapshot snap force s =
     (if \<not> force \<and> (case cs_sessions s (ss_id snap) of None \<Rightarrow> False | Some current \<Rightarrow> ss_revision snap < ss_revision current)
      then s
      else notify_all (\<lambda>l. SessionNotice l snap) (session_listeners (sessionSnapshotListeners s) (ss_id snap))
        (s\<lparr>cs_sessions := (cs_sessions s)(ss_id snap \<mapsto> snap),
           cs_attached := (if ss_attached snap then insert (ss_id snap) (cs_attached s)
             else cs_attached s - {ss_id snap})\<rparr>))"

definition applyResult :: "command_result \<Rightarrow> client_state \<Rightarrow> client_state" where
  "applyResult r s = (case r of
     ListResult sessions \<Rightarrow> s
   | DetachResult i \<Rightarrow>
       let s = s\<lparr>cs_attached := cs_attached s - {i}\<rparr> in
       (case cs_sessions s i of None \<Rightarrow> s
        | Some snap \<Rightarrow> applySessionSnapshot (snap\<lparr>ss_attached := False\<rparr>) True s)
   | SessionResult name snap \<Rightarrow> applySessionSnapshot snap False s)"

definition getEventSessionId :: "server_event \<Rightarrow> sid option" where
  "getEventSessionId e = (case e of
     SessionSnapshotEvent snap \<Rightarrow> Some (ss_id snap)
   | SessionProgressEvent i p \<Rightarrow> Some i
   | SessionRemovedEvent i \<Rightarrow> Some i
   | ServerSnapshotEvent snap \<Rightarrow> None)"

definition applyEvent :: "server_event \<Rightarrow> client_state \<Rightarrow> client_state" where
  "applyEvent e s =
     (let s = (case e of
          ServerSnapshotEvent snap \<Rightarrow> applyServerSnapshot snap s
        | SessionSnapshotEvent snap \<Rightarrow> applySessionSnapshot snap False s
        | SessionRemovedEvent i \<Rightarrow> s\<lparr>cs_sessions := (cs_sessions s)(i := None), cs_attached := cs_attached s - {i}\<rparr>
        | SessionProgressEvent i p \<Rightarrow> s);
          s = notify_all (\<lambda>l. EventNotice l e) (eventListeners s) s
      in case getEventSessionId e of None \<Rightarrow> s
         | Some i \<Rightarrow> if i = [] then s else notify_all (\<lambda>l. SessionEventNotice l e) (session_listeners (sessionEventListeners s) i) s)"

end
