(* ===== verification/Client.thy ===== *)
theory Client
  imports ClientState
begin

text \<open>
  The connection of a client and the requests over it: \<^verbatim>\<open>pi/packages/client/src/connection.ts\<close>,
  the synchronous part of \<^verbatim>\<open>client.ts\<close> and \<^verbatim>\<open>errors.ts\<close>.

  One record holds the fields of the client and of its connection; what the outside gets to see (a
  promise settled, bytes sent, a listener told) is appended to \<open>effects\<close>. A promise is named by the number
  of its connection or request, a transport by a reference. The codec is an argument, with the state of
  its decoder as type parameter; theory \<open>ClientProtocol\<close> gives the one of the protocol package. A call of the
  transport that throws is an argument of the step.
\<close>

subsection \<open>Errors\<close>

datatype client_error =
    PiDisconnectedError string
  | DisconnectedBy client_error                         \<comment> \<open>\<^verbatim>\<open>PiDisconnectedError\<close> with the message of a cause\<close>
  | PiServerError js_value
  | ProtocolValidationError string
  | ResponseMismatch js_string js_string                \<comment> \<open>\<^verbatim>\<open>ProtocolValidationError\<close> that names the two commands\<close>
  | CodecFailure codec_error
  | TransportFailure string
  | PiClientDisposedError
  | PiSessionOwnershipError sid string                  \<comment> \<open>session, what it already has\<close>

definition toDisconnectedError :: "client_error \<Rightarrow> client_error" where
  "toDisconnectedError e = (case e of PiDisconnectedError m \<Rightarrow> e | DisconnectedBy c \<Rightarrow> e | _ \<Rightarrow> DisconnectedBy e)"

definition client_disconnected :: client_error where
  "client_disconnected = PiDisconnectedError ''Pi client is disconnected''"

subsection \<open>State\<close>

record 'd codec =
  new_decoder :: 'd
  decode_chunk :: "'d \<Rightarrow> byte list \<Rightarrow> (client_error + server_message list) \<times> 'd"
  end_decoding :: "'d \<Rightarrow> client_error option"
  encode_message :: "js_value \<Rightarrow> client_error + byte list"

datatype 'd lifecycle =
    Disconnected
  | Connecting nat 'd "nat option"                      \<comment> \<open>connection, decoder, transport\<close>
  | Connected nat 'd nat bool                           \<comment> \<open>connection, decoder, transport, handshake pending\<close>

datatype connection_state = StateDisconnected | StateConnecting | StateConnected

datatype effect =
    OpensTransport nat
  | SendsHello nat nat "byte list"                      \<comment> \<open>connection, transport, bytes\<close>
  | SendsFrame nat "byte list"                          \<comment> \<open>transport, bytes\<close>
  | ClosesTransport nat
  | ConnectRefused client_error
  | HandshakeResolved nat server_snapshot
  | HandshakeRejected nat client_error
  | RequestIssued nat command
  | RequestRefused client_error
  | RequestResolved nat command_result
  | RequestRejected nat client_error
  | StateChanged nat connection_state "client_error option"  \<comment> \<open>listener, state, error\<close>

datatype lease_mode = SharedLease | ExclusiveLease

record 'd client =
  lifecycle :: "'d lifecycle"
  sequence :: nat
  cstate :: client_state
  pendingRequests :: "(nat \<times> command) list"
  requestSequence :: nat
  disposed :: bool
  leaseCounts :: "sid \<Rightarrow> nat option"
  exclusiveLeases :: "sid \<Rightarrow> nat option"
  leaseGenerations :: "sid \<Rightarrow> nat"
  cleanupRequired :: "sid set"
  leaseTokens :: nat
  changeListeners :: "nat list"
  effects :: "effect list"

definition new_client :: "'d client" where
  "new_client = \<lparr>lifecycle = Disconnected, sequence = 0, cstate = new_client_state, pendingRequests = [],
     requestSequence = 0, disposed = False, leaseCounts = Map.empty, exclusiveLeases = Map.empty,
     leaseGenerations = (\<lambda>s. 0), cleanupRequired = {}, leaseTokens = 0, changeListeners = [], effects = []\<rparr>"

definition emit_effect :: "effect \<Rightarrow> 'd client \<Rightarrow> 'd client" where
  "emit_effect x c = c\<lparr>effects := effects c @ [x]\<rparr>"

definition connection_state :: "'d client \<Rightarrow> connection_state" where
  "connection_state c = (case lifecycle c of Disconnected \<Rightarrow> StateDisconnected
     | Connecting i d t \<Rightarrow> StateConnecting | Connected i d t h \<Rightarrow> StateConnected)"

fun state_text :: "connection_state \<Rightarrow> string" where
  "state_text StateDisconnected = ''disconnected''"
| "state_text StateConnecting = ''connecting''"
| "state_text StateConnected = ''connected''"

definition isCurrent :: "nat \<Rightarrow> 'd client \<Rightarrow> bool" where
  "isCurrent i c \<longleftrightarrow> (case lifecycle c of Disconnected \<Rightarrow> False | Connecting j d t \<Rightarrow> j = i | Connected j d t h \<Rightarrow> j = i)"

subsection \<open>Requests and leases\<close>

definition request_id :: "nat \<Rightarrow> js_string" where
  "request_id n = units (''request-'' @ decimal n)"

definition takePendingRequest :: "js_string \<Rightarrow> 'd client \<Rightarrow> (nat \<times> command) option \<times> 'd client" where
  "takePendingRequest i c = (case List.find (\<lambda>(n, q). request_id n = i) (pendingRequests c) of
     None \<Rightarrow> (None, c)
   | Some (n, q) \<Rightarrow> (Some (n, q), c\<lparr>pendingRequests := filter (\<lambda>(k, r). k \<noteq> n) (pendingRequests c)\<rparr>))"

definition rejectPendingRequests :: "client_error \<Rightarrow> 'd client \<Rightarrow> 'd client" where
  "rejectPendingRequests e c =
     c\<lparr>pendingRequests := [], effects := effects c @ map (\<lambda>(n, q). RequestRejected n e) (pendingRequests c)\<rparr>"

definition reserveSessionLease :: "sid \<Rightarrow> lease_mode \<Rightarrow> 'd client \<Rightarrow> (client_error + nat) \<times> 'd client" where
  "reserveSessionLease i mode c =
     (let count = (case leaseCounts c i of None \<Rightarrow> 0 | Some n \<Rightarrow> n) in
      if mode = ExclusiveLease \<and> count > 0 then (Inl (PiSessionOwnershipError i ''already has an active lease''), c)
      else if mode = SharedLease \<and> exclusiveLeases c i \<noteq> None then (Inl (PiSessionOwnershipError i ''has an exclusive lease''), c)
      else let token = leaseTokens c in
        (Inr token, c\<lparr>leaseTokens := token + 1, leaseCounts := (leaseCounts c)(i \<mapsto> count + 1),
           exclusiveLeases := (if mode = ExclusiveLease then (exclusiveLeases c)(i \<mapsto> token) else exclusiveLeases c)\<rparr>))"

definition releaseSessionLease :: "sid \<Rightarrow> nat \<Rightarrow> 'd client \<Rightarrow> 'd client" where
  "releaseSessionLease i token c =
     (let count = (case leaseCounts c i of None \<Rightarrow> 0 | Some n \<Rightarrow> n) in
      c\<lparr>leaseCounts := (leaseCounts c)(i := if count \<le> 1 then None else Some (count - 1)),
        exclusiveLeases := (if exclusiveLeases c i = Some token then (exclusiveLeases c)(i := None) else exclusiveLeases c)\<rparr>)"

definition invalidateSessionLeases :: "sid \<Rightarrow> 'd client \<Rightarrow> 'd client" where
  "invalidateSessionLeases i c =
     c\<lparr>leaseCounts := (leaseCounts c)(i := None), exclusiveLeases := (exclusiveLeases c)(i := None),
       cleanupRequired := cleanupRequired c - {i}, leaseGenerations := (leaseGenerations c)(i := leaseGenerations c i + 1)\<rparr>"

text \<open>The loop over the sessions that have a lease count.\<close>

definition invalidateAllSessionLeases :: "'d client \<Rightarrow> 'd client" where
  "invalidateAllSessionLeases c =
     c\<lparr>leaseCounts := Map.empty,
       exclusiveLeases := (\<lambda>i. if leaseCounts c i = None then exclusiveLeases c i else None),
       leaseGenerations := (\<lambda>i. if leaseCounts c i = None then leaseGenerations c i else leaseGenerations c i + 1),
       cleanupRequired := {}\<rparr>"

subsection \<open>Failing\<close>

definition notifyConnectionStateListeners :: "connection_state \<Rightarrow> client_error option \<Rightarrow> 'd client \<Rightarrow> 'd client" where
  "notifyConnectionStateListeners s e c = c\<lparr>effects := effects c @ map (\<lambda>l. StateChanged l s e) (changeListeners c)\<rparr>"

definition handleConnectionStateChange :: "connection_state \<Rightarrow> client_error option \<Rightarrow> 'd client \<Rightarrow> 'd client" where
  "handleConnectionStateChange s e c =
     notifyConnectionStateListeners s e
       (if s = StateDisconnected
        then rejectPendingRequests (case e of Some x \<Rightarrow> x | None \<Rightarrow> client_disconnected)
          (invalidateAllSessionLeases (c\<lparr>cstate := clearAttachments (cstate c)\<rparr>))
        else c)"

definition handshake_of :: "'d lifecycle \<Rightarrow> nat option" where
  "handshake_of l = (case l of Disconnected \<Rightarrow> None | Connecting i d t \<Rightarrow> Some i
     | Connected i d t h \<Rightarrow> if h then Some i else None)"

definition transport_of :: "'d lifecycle \<Rightarrow> nat option" where
  "transport_of l = (case l of Disconnected \<Rightarrow> None | Connecting i d t \<Rightarrow> t | Connected i d t h \<Rightarrow> Some t)"

definition fail_connection :: "client_error \<Rightarrow> 'd client \<Rightarrow> 'd client" where
  "fail_connection e c =
     (if lifecycle c = Disconnected then c
      else let d = c\<lparr>lifecycle := Disconnected\<rparr>;
             d = (case handshake_of (lifecycle c) of None \<Rightarrow> d | Some i \<Rightarrow> emit_effect (HandshakeRejected i e) d)
        in handleConnectionStateChange StateDisconnected (Some e) d)"

definition failAndClose :: "client_error \<Rightarrow> 'd client \<Rightarrow> 'd client" where
  "failAndClose e c =
     (let d = fail_connection e c in
      case transport_of (lifecycle c) of None \<Rightarrow> d | Some t \<Rightarrow> emit_effect (ClosesTransport t) d)"

subsection \<open>Messages\<close>

definition handleClientMessage :: "server_message \<Rightarrow> 'd client \<Rightarrow> 'd client" where
  "handleClientMessage m c = (case m of
     EventMessage e \<Rightarrow>
       let c = (case e of SessionRemovedEvent i \<Rightarrow> invalidateSessionLeases i c | _ \<Rightarrow> c)
       in c\<lparr>cstate := applyEvent e (cstate c)\<rparr>
   | ResponseMessage i outcome \<Rightarrow> (case takePendingRequest i c of
       (None, c) \<Rightarrow> failAndClose (ProtocolValidationError ''Response has no matching request'') c
     | (Some (n, q), c) \<Rightarrow> (case outcome of
           Inl e \<Rightarrow> emit_effect (RequestRejected n (PiServerError e)) c
         | Inr r \<Rightarrow>
             if result_command r \<noteq> command_name q
             then let e = ResponseMismatch (result_command r) (command_name q)
               in failAndClose e (emit_effect (RequestRejected n e) c)
             else emit_effect (RequestResolved n r) (c\<lparr>cstate := applyResult r (cstate c)\<rparr>)))
   | _ \<Rightarrow> c)"

definition handleMessage :: "server_message \<Rightarrow> 'd client \<Rightarrow> 'd client" where
  "handleMessage m c = (case lifecycle c of
     Disconnected \<Rightarrow> c
   | Connecting i d transport \<Rightarrow> (case m of
       HelloErrorMessage e \<Rightarrow> failAndClose (PiServerError e) c
     | HelloMessage snap \<Rightarrow> (case transport of
         None \<Rightarrow> failAndClose (ProtocolValidationError ''Received server hello before the client hello was sent'') c
       | Some t \<Rightarrow>
           let c = c\<lparr>lifecycle := Connected i d t True\<rparr>;
               c = c\<lparr>cstate := applyServerSnapshot snap (cstate c)\<rparr>;
               c = handleConnectionStateChange StateConnected None c
           in emit_effect (HandshakeResolved i snap) (c\<lparr>lifecycle := Connected i d t False\<rparr>))
     | _ \<Rightarrow> failAndClose (ProtocolValidationError ''Expected server hello as first message'') c)
   | Connected i d t h \<Rightarrow> (case m of
       HelloMessage snap \<Rightarrow> failAndClose (ProtocolValidationError ''Unexpected handshake message'') c
     | HelloErrorMessage e \<Rightarrow> failAndClose (ProtocolValidationError ''Unexpected handshake message'') c
     | _ \<Rightarrow> handleClientMessage m c))"

fun handle_messages :: "server_message list \<Rightarrow> 'd client \<Rightarrow> 'd client" where
  "handle_messages [] c = c"
| "handle_messages (m # ms) c = (if lifecycle c = Disconnected then c else handle_messages ms (handleMessage m c))"

definition set_decoder :: "'d \<Rightarrow> 'd lifecycle \<Rightarrow> 'd lifecycle" where
  "set_decoder d l = (case l of Disconnected \<Rightarrow> Disconnected | Connecting i d' t \<Rightarrow> Connecting i d t
     | Connected i d' t h \<Rightarrow> Connected i d t h)"

definition receive_chunk :: "'d codec \<Rightarrow> 'd \<Rightarrow> byte list \<Rightarrow> 'd client \<Rightarrow> 'd client" where
  "receive_chunk codec d chunk c =
     (let (result, d') = decode_chunk codec d chunk; c = c\<lparr>lifecycle := set_decoder d' (lifecycle c)\<rparr>
      in case result of Inl e \<Rightarrow> failAndClose e c | Inr ms \<Rightarrow> handle_messages ms c)"

definition handleData :: "'d codec \<Rightarrow> nat \<Rightarrow> byte list \<Rightarrow> 'd client \<Rightarrow> 'd client" where
  "handleData codec i chunk c = (case lifecycle c of
     Disconnected \<Rightarrow> c
   | Connecting j d t \<Rightarrow>
       if j \<noteq> i then c
       else if t = None then failAndClose (ProtocolValidationError ''Received server data before the client hello was sent'') c
       else receive_chunk codec d chunk c
   | Connected j d t h \<Rightarrow> if j \<noteq> i then c else receive_chunk codec d chunk c)"

definition handleClose :: "'d codec \<Rightarrow> 'd client \<Rightarrow> 'd client" where
  "handleClose codec c = (let closed = PiDisconnectedError ''Byte transport closed'' in
     case lifecycle c of
       Disconnected \<Rightarrow> c
     | Connecting j d t \<Rightarrow> fail_connection (case end_decoding codec d of Some e \<Rightarrow> e | None \<Rightarrow> closed) c
     | Connected j d t h \<Rightarrow> fail_connection (case end_decoding codec d of Some e \<Rightarrow> e | None \<Rightarrow> closed) c)"

subsection \<open>Calls and callbacks\<close>

definition connect_call :: "'d codec \<Rightarrow> 'd client \<Rightarrow> 'd client" where
  "connect_call codec c =
     (if disposed c then emit_effect (ConnectRefused PiClientDisposedError) c
      else if lifecycle c \<noteq> Disconnected
      then emit_effect (ConnectRefused (PiDisconnectedError (''PiClient is already '' @ state_text (connection_state c)))) c
      else let c = c\<lparr>cstate := reset_state (cstate c)\<rparr>; i = sequence c + 1;
             c = c\<lparr>sequence := i, lifecycle := Connecting i (new_decoder codec) None\<rparr>
        in emit_effect (OpensTransport i) (handleConnectionStateChange StateConnecting None c))"

definition disconnect_call :: "client_error \<Rightarrow> 'd client \<Rightarrow> 'd client" where
  "disconnect_call e c = (if lifecycle c = Disconnected then c else failAndClose e c)"

text \<open>\<^verbatim>\<open>#openTransport\<close>: the factory delivers a transport, or fails; the hello is sent on it.\<close>

definition transport_opened :: "'d codec \<Rightarrow> nat \<Rightarrow> nat \<Rightarrow> 'd client \<Rightarrow> 'd client" where
  "transport_opened codec i t c = (case lifecycle c of
     Connecting j d old \<Rightarrow>
       if j \<noteq> i then emit_effect (ClosesTransport t) c
       else let c = c\<lparr>lifecycle := Connecting j d (Some t)\<rparr> in
         (case encode_message codec hello_value of
            Inl e \<Rightarrow> failAndClose (toDisconnectedError e) c
          | Inr frame \<Rightarrow> emit_effect (SendsHello i t frame) c)
   | _ \<Rightarrow> emit_effect (ClosesTransport t) c)"

definition transport_failed :: "nat \<Rightarrow> client_error \<Rightarrow> 'd client \<Rightarrow> 'd client" where
  "transport_failed i e c = (if isCurrent i c then fail_connection (toDisconnectedError e) c else c)"

text \<open>The hello could not be sent, or the transport reports an error.\<close>

definition transport_error :: "nat \<Rightarrow> client_error \<Rightarrow> 'd client \<Rightarrow> 'd client" where
  "transport_error i e c = (if isCurrent i c then failAndClose (toDisconnectedError e) c else c)"

definition transport_closed :: "'d codec \<Rightarrow> nat \<Rightarrow> 'd client \<Rightarrow> 'd client" where
  "transport_closed codec i c = (if isCurrent i c then handleClose codec c else c)"

text \<open>The promise of a sent frame is rejected.\<close>

definition send_failed :: "nat \<Rightarrow> client_error \<Rightarrow> 'd client \<Rightarrow> 'd client" where
  "send_failed t e c = (if transport_of (lifecycle c) = Some t then failAndClose (toDisconnectedError e) c else c)"

text \<open>\<^verbatim>\<open>Connection.send\<close>; \<open>throws\<close> is what the transport throws, if anything.\<close>

definition send_frame :: "client_error option \<Rightarrow> byte list \<Rightarrow> 'd client \<Rightarrow> 'd client" where
  "send_frame throws frame c = (case lifecycle c of
     Connected i d t h \<Rightarrow> (case throws of
         Some e \<Rightarrow> failAndClose (toDisconnectedError e) c
       | None \<Rightarrow> emit_effect (SendsFrame t frame) c)
   | _ \<Rightarrow> c)"

definition request_call :: "'d codec \<Rightarrow> command \<Rightarrow> client_error option \<Rightarrow> 'd client \<Rightarrow> 'd client" where
  "request_call codec q throws c =
     (if disposed c then emit_effect (RequestRefused PiClientDisposedError) c
      else if connection_state c \<noteq> StateConnected then emit_effect (RequestRefused client_disconnected) c
      else let n = requestSequence c + 1;
             c = emit_effect (RequestIssued n q) (c\<lparr>requestSequence := n, pendingRequests := pendingRequests c @ [(n, q)]\<rparr>)
        in case encode_message codec (request_value (request_id n) q) of
             Inl e \<Rightarrow> (case takePendingRequest (request_id n) c of
                 (None, c) \<Rightarrow> c | (Some p, c) \<Rightarrow> emit_effect (RequestRejected (fst p) e) c)
           | Inr frame \<Rightarrow> send_frame throws frame c)"

definition dispose_call :: "'d client \<Rightarrow> 'd client" where
  "dispose_call c =
     (if disposed c then c
      else let c = rejectPendingRequests PiClientDisposedError (c\<lparr>disposed := True\<rparr>);
             c = disconnect_call PiClientDisposedError c;
             c = invalidateAllSessionLeases (c\<lparr>cstate := dispose_state (cstate c)\<rparr>)
        in c\<lparr>changeListeners := []\<rparr>)"

definition onConnectionStateChange :: "nat \<Rightarrow> 'd client \<Rightarrow> 'd client" where
  "onConnectionStateChange l c = (if disposed c then c else c\<lparr>changeListeners := add_listener l (changeListeners c)\<rparr>)"

datatype client_input =
    ConnectCall
  | DisconnectCall string
  | RequestCall command "client_error option"
  | DisposeCall
  | ListenCall nat
  | ReserveLease sid lease_mode
  | ReleaseLease sid nat
  | TransportOpened nat nat
  | TransportFailed nat client_error
  | HelloFailed nat client_error
  | SendFailed nat client_error
  | DataReceived nat "byte list"
  | TransportClosed nat
  | TransportErrored nat client_error

definition client_step :: "'d codec \<Rightarrow> client_input \<Rightarrow> 'd client \<Rightarrow> 'd client" where
  "client_step codec i c = (case i of
     ConnectCall \<Rightarrow> connect_call codec c
   | DisconnectCall reason \<Rightarrow> disconnect_call (PiDisconnectedError reason) c
   | RequestCall q throws \<Rightarrow> request_call codec q throws c
   | DisposeCall \<Rightarrow> dispose_call c
   | ListenCall l \<Rightarrow> onConnectionStateChange l c
   | ReserveLease s mode \<Rightarrow> snd (reserveSessionLease s mode c)
   | ReleaseLease s token \<Rightarrow> releaseSessionLease s token c
   | TransportOpened j t \<Rightarrow> transport_opened codec j t c
   | TransportFailed j e \<Rightarrow> transport_failed j e c
   | HelloFailed j e \<Rightarrow> transport_error j e c
   | SendFailed t e \<Rightarrow> send_failed t e c
   | DataReceived j chunk \<Rightarrow> handleData codec j chunk c
   | TransportClosed j \<Rightarrow> transport_closed codec j c
   | TransportErrored j e \<Rightarrow> transport_error j e c)"

definition client_run :: "'d codec \<Rightarrow> client_input list \<Rightarrow> 'd client" where
  "client_run codec is = fold (client_step codec) is new_client"

end
