(* ===== verification/ClientSafety.thy ===== *)
theory ClientSafety
  imports Client "HOL-Library.Sublist"
begin

text \<open>
  What holds of a client after any calls and any behaviour of the transport and the server: each
  request is settled exactly once or still pending on the established connection, with a result of its
  own command; snapshots never go back; nothing is sent before the handshake but the hello; and what
  belongs to an old connection has no effect.
\<close>

subsection \<open>Request identifiers\<close>

lemma decimal_nonempty: "decimal n \<noteq> []"
  by (subst decimal.simps) simp

lemma digit_inject: "a < 10 \<Longrightarrow> b < 10 \<Longrightarrow> ''0123456789'' ! a = ''0123456789'' ! b \<Longrightarrow> a = b"
proof -
  have d: "distinct ''0123456789''" by simp
  show "a < 10 \<Longrightarrow> b < 10 \<Longrightarrow> ''0123456789'' ! a = ''0123456789'' ! b \<Longrightarrow> a = b"
    using nth_eq_iff_index_eq [OF d, of a b] by simp
qed

lemma decimal_inject: "decimal n = decimal m \<Longrightarrow> n = m"
proof (induction n arbitrary: m rule: decimal.induct)
  case (1 n)
  show ?case
  proof (cases "n < 10")
    case True
    then have n: "decimal n = [''0123456789'' ! n]" by (subst decimal.simps) simp
    have "m < 10"
    proof (rule ccontr)
      assume "\<not> m < 10"
      then have "decimal m = decimal (m div 10) @ [''0123456789'' ! (m mod 10)]" by (subst decimal.simps) simp
      with n 1(2) decimal_nonempty [of "m div 10"] show False by simp
    qed
    moreover from this have "decimal m = [''0123456789'' ! m]" by (subst decimal.simps) simp
    ultimately show ?thesis using True n 1(2) digit_inject by simp
  next
    case False
    then have n: "decimal n = decimal (n div 10) @ [''0123456789'' ! (n mod 10)]" by (subst decimal.simps) simp
    have "\<not> m < 10"
    proof
      assume "m < 10"
      then have "decimal m = [''0123456789'' ! m]" by (subst decimal.simps) simp
      with n 1(2) decimal_nonempty [of "n div 10"] show False by simp
    qed
    then have "decimal m = decimal (m div 10) @ [''0123456789'' ! (m mod 10)]" by (subst decimal.simps) simp
    with n 1(2) have "decimal (n div 10) = decimal (m div 10)" "''0123456789'' ! (n mod 10) = ''0123456789'' ! (m mod 10)"
      by simp_all
    with 1(1) [OF False] digit_inject [of "n mod 10" "m mod 10"] have "n div 10 = m div 10" "n mod 10 = m mod 10" by simp_all
    then show ?thesis by (metis div_mult_mod_eq)
  qed
qed

lemma request_id_inject [simp]: "request_id n = request_id m \<longleftrightarrow> n = m"
  by (auto simp: request_id_def dest: decimal_inject)

subsection \<open>The invariant\<close>

definition settles :: "nat \<Rightarrow> effect \<Rightarrow> bool" where
  "settles n x \<longleftrightarrow> (case x of RequestResolved m r \<Rightarrow> m = n | RequestRejected m e \<Rightarrow> m = n | _ \<Rightarrow> False)"

definition issues :: "nat \<Rightarrow> effect \<Rightarrow> bool" where
  "issues n x \<longleftrightarrow> (case x of RequestIssued m q \<Rightarrow> m = n | _ \<Rightarrow> False)"

abbreviation times :: "('a \<Rightarrow> bool) \<Rightarrow> 'a list \<Rightarrow> nat" where
  "times P xs \<equiv> length (filter P xs)"

text \<open>Every request is issued once, and since then pending or settled.\<close>

definition balanced :: "'d client \<Rightarrow> bool" where
  "balanced c \<longleftrightarrow> (\<forall>n.
     times (settles n) (effects c) + times (\<lambda>(k, q). k = n) (pendingRequests c) = times (issues n) (effects c) \<and>
     times (issues n) (effects c) = (if 1 \<le> n \<and> n \<le> requestSequence c then 1 else 0)) \<and>
   (\<forall>(n, q)\<in>set (pendingRequests c). RequestIssued n q \<in> set (effects c))"

definition answered :: "'d client \<Rightarrow> bool" where
  "answered c \<longleftrightarrow> (\<forall>n r. RequestResolved n r \<in> set (effects c) \<longrightarrow>
     (\<exists>q. RequestIssued n q \<in> set (effects c) \<and> result_command r = command_name q))"

definition is_connected :: "'d lifecycle \<Rightarrow> bool" where
  "is_connected l \<longleftrightarrow> (case l of Connected i d t h \<Rightarrow> True | _ \<Rightarrow> False)"

definition quiet :: "'d client \<Rightarrow> bool" where
  "quiet c \<longleftrightarrow> (\<not> is_connected (lifecycle c) \<longrightarrow> pendingRequests c = [] \<and> cs_attached (cstate c) = {}) \<and>
     (disposed c \<longrightarrow> lifecycle c = Disconnected)"

definition client_inv :: "'d client \<Rightarrow> bool" where
  "client_inv c \<longleftrightarrow> balanced c \<and> answered c \<and> quiet c"

lemma is_connected_simps [simp]:
  "\<not> is_connected Disconnected" "\<not> is_connected (Connecting i d t')" "is_connected (Connected i d t h)"
  "is_connected (set_decoder d l) = is_connected l"
  by (simp_all add: is_connected_def set_decoder_def split: lifecycle.split)

lemma set_decoder_Disconnected [simp]: "set_decoder d l = Disconnected \<longleftrightarrow> l = Disconnected"
  by (cases l) (simp_all add: set_decoder_def)

text \<open>Effects and fields that do not concern requests.\<close>

definition unrelated :: "effect \<Rightarrow> bool" where
  "unrelated x \<longleftrightarrow> (case x of RequestIssued n q \<Rightarrow> False | RequestResolved n r \<Rightarrow> False | RequestRejected n e \<Rightarrow> False | _ \<Rightarrow> True)"

lemma unrelated_times: "list_all unrelated xs \<Longrightarrow> times (settles n) xs = 0 \<and> times (issues n) xs = 0"
  by (induction xs) (auto simp: unrelated_def settles_def issues_def split: effect.splits)

lemma balanced_unrelated:
  "balanced c \<Longrightarrow> list_all unrelated xs \<Longrightarrow> effects c' = effects c @ xs \<Longrightarrow> pendingRequests c' = pendingRequests c \<Longrightarrow>
   requestSequence c' = requestSequence c \<Longrightarrow> balanced c'"
  unfolding balanced_def using unrelated_times by fastforce

lemma answered_unrelated:
  "answered c \<Longrightarrow> list_all unrelated xs \<Longrightarrow> effects c' = effects c @ xs \<Longrightarrow> answered c'"
  unfolding answered_def by (fastforce simp: list_all_iff unrelated_def)

lemma balanced_reject_all:
  assumes "balanced c"
  shows "balanced (rejectPendingRequests e c)"
proof -
  have "times (settles n) (map (\<lambda>(k, q). RequestRejected k e) ps) = times (\<lambda>(k, q). k = n) ps"
    "times (issues n) (map (\<lambda>(k, q). RequestRejected k e) ps) = 0" for n and ps :: "(nat \<times> command) list"
    by (induction ps) (auto simp: settles_def issues_def filter_map comp_def)
  with assms show ?thesis by (simp add: balanced_def rejectPendingRequests_def)
qed

lemma answered_reject_all: "answered c \<Longrightarrow> answered (rejectPendingRequests e c)"
  by (fastforce simp: answered_def rejectPendingRequests_def)

lemma notify_unrelated: "list_all unrelated (map (\<lambda>l. StateChanged l s e) ls)"
  by (simp add: list_all_iff unrelated_def)

subsection \<open>Every operation keeps the invariant\<close>

lemma balanced_fields:
  "balanced c \<Longrightarrow> effects c' = effects c \<Longrightarrow> pendingRequests c' = pendingRequests c \<Longrightarrow>
   requestSequence c' = requestSequence c \<Longrightarrow> balanced c'"
  by (simp add: balanced_def)

lemma answered_fields: "answered c \<Longrightarrow> effects c' = effects c \<Longrightarrow> answered c'"
  by (simp add: answered_def)

lemma inv_emit: "client_inv c \<Longrightarrow> unrelated x \<Longrightarrow> client_inv (emit_effect x c)"
  unfolding client_inv_def emit_effect_def
  by (auto intro: balanced_unrelated [where xs = "[x]"] answered_unrelated [where xs = "[x]"] simp: quiet_def)

text \<open>A change of fields other than the effects, the requests and the connection.\<close>

lemma inv_fields:
  "client_inv c \<Longrightarrow> effects c' = effects c \<Longrightarrow> pendingRequests c' = pendingRequests c \<Longrightarrow>
   requestSequence c' = requestSequence c \<Longrightarrow> lifecycle c' = lifecycle c \<Longrightarrow> disposed c' = disposed c \<Longrightarrow>
   (\<not> is_connected (lifecycle c) \<Longrightarrow> cs_attached (cstate c') = {}) \<Longrightarrow> client_inv c'"
  unfolding client_inv_def using balanced_fields answered_fields by (fastforce simp: quiet_def)

lemma balanced_notify: "balanced c \<Longrightarrow> balanced (notifyConnectionStateListeners s e c)"
  by (rule balanced_unrelated [OF _ notify_unrelated]) (simp_all add: notifyConnectionStateListeners_def)

lemma answered_notify: "answered c \<Longrightarrow> answered (notifyConnectionStateListeners s e c)"
  by (rule answered_unrelated [OF _ notify_unrelated]) (simp_all add: notifyConnectionStateListeners_def)

lemma inv_disconnected:
  assumes "balanced c" and "answered c" and "lifecycle c = Disconnected"
  shows "client_inv (handleConnectionStateChange StateDisconnected e c)"
proof -
  let ?c = "invalidateAllSessionLeases (c\<lparr>cstate := clearAttachments (cstate c)\<rparr>)"
  let ?e = "case e of Some x \<Rightarrow> x | None \<Rightarrow> client_disconnected"
  have "balanced ?c" "answered ?c" using assms(1,2) by (auto simp: invalidateAllSessionLeases_def balanced_def answered_def)
  then have r: "balanced (rejectPendingRequests ?e ?c)" "answered (rejectPendingRequests ?e ?c)"
    by (auto intro: balanced_reject_all answered_reject_all)
  show ?thesis
    unfolding client_inv_def
  proof (intro conjI)
    show "balanced (handleConnectionStateChange StateDisconnected e c)"
      using balanced_notify [OF r(1)] by (simp add: handleConnectionStateChange_def)
    show "answered (handleConnectionStateChange StateDisconnected e c)"
      using answered_notify [OF r(2)] by (simp add: handleConnectionStateChange_def)
    show "quiet (handleConnectionStateChange StateDisconnected e c)"
      using assms(3) by (simp add: quiet_def handleConnectionStateChange_def notifyConnectionStateListeners_def rejectPendingRequests_def
          invalidateAllSessionLeases_def clearAttachments_def)
  qed
qed

text \<open>Failing only needs the requests to be accounted for.\<close>

lemma inv_fail:
  assumes "balanced c" and "answered c" and "lifecycle c \<noteq> Disconnected \<or> client_inv c"
  shows "client_inv (fail_connection e c)"
proof (cases "lifecycle c = Disconnected")
  case True
  then show ?thesis using assms(3) by (simp add: fail_connection_def)
next
  case False
  define d where "d = (case handshake_of (lifecycle c) of None \<Rightarrow> c\<lparr>lifecycle := Disconnected\<rparr>
    | Some i \<Rightarrow> emit_effect (HandshakeRejected i e) (c\<lparr>lifecycle := Disconnected\<rparr>))"
  define xs where "xs = (case handshake_of (lifecycle c) of None \<Rightarrow> [] | Some i \<Rightarrow> [HandshakeRejected i e])"
  have xs: "list_all unrelated xs" "effects d = effects c @ xs" "pendingRequests d = pendingRequests c"
    "requestSequence d = requestSequence c" "lifecycle d = Disconnected"
    by (auto simp: xs_def d_def emit_effect_def unrelated_def split: option.split)
  have d: "balanced d" "answered d" "lifecycle d = Disconnected"
    using balanced_unrelated [OF assms(1) xs(1-4)] answered_unrelated [OF assms(2) xs(1,2)] xs(5) by simp_all
  have "fail_connection e c = handleConnectionStateChange StateDisconnected (Some e) d"
    using False by (simp add: fail_connection_def d_def Let_def)
  then show ?thesis using inv_disconnected [OF d] by simp
qed

lemma inv_fail_close:
  assumes "balanced c" and "answered c" and "lifecycle c \<noteq> Disconnected \<or> client_inv c"
  shows "client_inv (failAndClose e c)"
  using inv_fail [OF assms] by (auto simp: failAndClose_def Let_def unrelated_def intro: inv_emit split: option.split)

lemma inv_parts: "client_inv c \<Longrightarrow> balanced c" "client_inv c \<Longrightarrow> answered c" "client_inv c \<Longrightarrow> quiet c"
  by (simp_all add: client_inv_def)

lemma inv_fail_close' [intro]: "client_inv c \<Longrightarrow> client_inv (failAndClose e c)"
  and inv_fail' [intro]: "client_inv c \<Longrightarrow> client_inv (fail_connection e c)"
  by (auto intro: inv_fail_close inv_fail dest: inv_parts)

text \<open>Taking a pending request out and settling it with an answer of its own.\<close>

lemma take_pending:
  assumes "takePendingRequest i c = (Some (n, q), d)"
  shows "(n, q) \<in> set (pendingRequests c)" and "request_id n = i"
    and "d = c\<lparr>pendingRequests := filter (\<lambda>(k, r). k \<noteq> n) (pendingRequests c)\<rparr>"
  using assms by (auto simp: takePendingRequest_def find_Some_iff in_set_conv_nth split: option.splits)

lemma take_pending_None: "takePendingRequest i c = (None, d) \<Longrightarrow> d = c"
  by (auto simp: takePendingRequest_def split: option.splits prod.splits)

lemma times_split: "times P xs = times (\<lambda>x. P x \<and> Q x) xs + times (\<lambda>x. P x \<and> \<not> Q x) xs"
  by (induction xs) auto

lemma balanced_settle:
  assumes "balanced c" and "takePendingRequest i c = (Some (n, q), d)" and "settles n x" and "\<And>m. issues m x = False"
  shows "balanced (emit_effect x d)"
proof -
  note d = take_pending [OF assms(2)]
  have once: "times (\<lambda>(k, r). k = n) (pendingRequests c) = 1"
  proof -
    have "times (\<lambda>(k, r). k = n) (pendingRequests c) \<le> 1"
      using assms(1) unfolding balanced_def by (metis (no_types, lifting) le_add2 zero_le_one le_zero_eq)
    moreover have "filter (\<lambda>(k, r). k = n) (pendingRequests c) \<noteq> []"
      using d(1) by (auto simp: filter_empty_conv)
    ultimately show ?thesis by (cases "filter (\<lambda>(k, r). k = n) (pendingRequests c)") auto
  qed
  have other: "settles m x \<Longrightarrow> m = n" for m
    using assms(3) by (cases x) (auto simp: settles_def)
  have left: "times (\<lambda>(k, r). k = m) (filter (\<lambda>(k, r). k \<noteq> n) (pendingRequests c)) =
      (if m = n then 0 else times (\<lambda>(k, r). k = m) (pendingRequests c))" for m
  proof (cases "m = n")
    case False
    then have "filter (\<lambda>(k, r). k = m) (filter (\<lambda>(k, r). k \<noteq> n) (pendingRequests c)) = filter (\<lambda>(k, r). k = m) (pendingRequests c)"
      by (auto simp: filter_filter intro!: filter_cong)
    with False show ?thesis by simp
  qed (auto simp: filter_empty_conv)
  have e: "effects (emit_effect x d) = effects c @ [x]" "requestSequence (emit_effect x d) = requestSequence c"
    "pendingRequests (emit_effect x d) = filter (\<lambda>(k, r). k \<noteq> n) (pendingRequests c)"
    by (simp_all add: d(3) emit_effect_def)
  show ?thesis
    unfolding balanced_def e
  proof (intro conjI allI)
    fix m
    have m: "times (settles m) (effects c) + times (\<lambda>(k, q). k = m) (pendingRequests c) = times (issues m) (effects c)"
      "times (issues m) (effects c) = (if 1 \<le> m \<and> m \<le> requestSequence c then 1 else 0)"
      using assms(1) by (auto simp: balanced_def)
    show "times (settles m) (effects c @ [x]) + times (\<lambda>(k, q). k = m) (filter (\<lambda>(k, r). k \<noteq> n) (pendingRequests c)) =
        times (issues m) (effects c @ [x])"
    proof (cases "m = n")
      case True
      then show ?thesis using m(1) once assms(3,4) unfolding left by simp
    next
      case False
      then have "\<not> settles m x" using other by blast
      with False show ?thesis using m(1) assms(4) unfolding left by simp
    qed
    show "times (issues m) (effects c @ [x]) = (if 1 \<le> m \<and> m \<le> requestSequence c then 1 else 0)"
      using m(2) assms(4) by (simp only: filter_append filter.simps list.size append_Nil2 if_False)
  next
    show "\<forall>(k, r)\<in>set (filter (\<lambda>(k, r). k \<noteq> n) (pendingRequests c)). RequestIssued k r \<in> set (effects c @ [x])"
      using assms(1) by (auto simp: balanced_def)
  qed
qed

lemma answered_settle:
  assumes "answered c" and "takePendingRequest i c = (Some (n, q), d)" and "balanced c"
    and "\<And>m r. x = RequestResolved m r \<Longrightarrow> m = n \<and> result_command r = command_name q"
  shows "answered (emit_effect x d)"
proof -
  have "RequestIssued n q \<in> set (effects c)"
    using assms(3) take_pending(1) [OF assms(2)] by (auto simp: balanced_def)
  with assms(1,4) take_pending(3) [OF assms(2)] show ?thesis
    by (fastforce simp: answered_def emit_effect_def)
qed

lemma quiet_settle:
  "quiet c \<Longrightarrow> takePendingRequest i c = (Some (n, q), d) \<Longrightarrow> quiet (emit_effect x d)"
  by (drule take_pending(3)) (auto simp: quiet_def emit_effect_def)

lemma applied_fields [simp]:
  "lifecycle (c\<lparr>cstate := s\<rparr>) = lifecycle c" "disposed (c\<lparr>cstate := s\<rparr>) = disposed c" by simp_all

lemma inv_cstate: "client_inv c \<Longrightarrow> is_connected (lifecycle c) \<Longrightarrow> client_inv (c\<lparr>cstate := s\<rparr>)"
  by (erule inv_fields) simp_all

lemma inv_leases:
  assumes "client_inv c"
  shows "client_inv (invalidateSessionLeases i c)" and "client_inv (invalidateAllSessionLeases c)"
    and "client_inv (releaseSessionLease i token c)" and "client_inv (snd (reserveSessionLease i mode c))"
  by (rule inv_fields [OF assms]; use inv_parts(3) [OF assms] in
      \<open>simp add: invalidateSessionLeases_def invalidateAllSessionLeases_def releaseSessionLease_def
        reserveSessionLease_def quiet_def Let_def\<close>)+

lemma inv_client_message:
  assumes "client_inv c" and "is_connected (lifecycle c)"
  shows "client_inv (handleClientMessage m c)"
proof (cases m)
  case (EventMessage e)
  have "client_inv (invalidateSessionLeases i c)" for i using assms(1) by (rule inv_leases)
  with assms show ?thesis
    by (auto simp: handleClientMessage_def EventMessage invalidateSessionLeases_def intro!: inv_cstate split: server_event.split)
next
  case (ResponseMessage i outcome)
  obtain taken d where t: "takePendingRequest i c = (taken, d)" by fastforce
  show ?thesis
  proof (cases taken)
    case None
    with t take_pending_None [of i c d] assms(1) show ?thesis
      by (auto simp: handleClientMessage_def ResponseMessage)
  next
    case (Some p)
    then obtain n q where t: "takePendingRequest i c = (Some (n, q), d)" using t by (cases p) auto
    note d = take_pending(3) [OF t]
    have settle: "client_inv (emit_effect x d)" if "settles n x" "\<And>m. issues m x = False"
      "\<And>m r. x = RequestResolved m r \<Longrightarrow> m = n \<and> result_command r = command_name q" for x
      using that assms(1) t unfolding client_inv_def
      by (auto intro: balanced_settle answered_settle quiet_settle)
    have rejected: "client_inv (emit_effect (RequestRejected n e) d)" for e
      by (rule settle) (simp_all add: settles_def issues_def)
    show ?thesis
    proof (cases outcome)
      case (Inl e)
      with rejected show ?thesis by (simp add: handleClientMessage_def ResponseMessage t)
    next
      case (Inr r)
      show ?thesis
      proof (cases "result_command r = command_name q")
        case True
        have "client_inv (emit_effect (RequestResolved n r) d)"
          by (rule settle) (simp_all add: settles_def issues_def True)
        then have "client_inv ((emit_effect (RequestResolved n r) d)\<lparr>cstate := applyResult r (cstate d)\<rparr>)"
          using assms(2) by (intro inv_cstate) (simp_all add: emit_effect_def d)
        moreover have "handleClientMessage m c = (emit_effect (RequestResolved n r) d)\<lparr>cstate := applyResult r (cstate d)\<rparr>"
          using True by (simp add: handleClientMessage_def ResponseMessage t Inr emit_effect_def)
        ultimately show ?thesis by simp
      next
        case False
        with rejected show ?thesis by (auto simp: handleClientMessage_def ResponseMessage t Inr Let_def)
      qed
    qed
  qed
qed (use assms in \<open>simp_all add: handleClientMessage_def\<close>)

lemma inv_state_change_connecting:
  assumes "s \<noteq> StateDisconnected" and "client_inv c"
  shows "client_inv (handleConnectionStateChange s e c)"
proof -
  have "quiet (notifyConnectionStateListeners s e c)"
    using inv_parts(3) [OF assms(2)] by (simp add: quiet_def notifyConnectionStateListeners_def)
  then have "client_inv (notifyConnectionStateListeners s e c)"
    using inv_parts(1,2) [OF assms(2)] balanced_notify answered_notify by (auto simp: client_inv_def)
  with assms(1) show ?thesis by (simp add: handleConnectionStateChange_def)
qed

lemma quiet_connected: "client_inv c \<Longrightarrow> lifecycle c \<noteq> Disconnected \<Longrightarrow> client_inv (c\<lparr>lifecycle := Connected i d t h\<rparr>)"
  by (auto simp: client_inv_def quiet_def intro: balanced_fields answered_fields)

lemma inv_message:
  assumes "client_inv c"
  shows "client_inv (handleMessage m c)"
proof (cases "lifecycle c")
  case (Connecting i d transport)
  show ?thesis
  proof (cases "\<exists>snap t. m = HelloMessage snap \<and> transport = Some t")
    case True
    then obtain snap t where m: "m = HelloMessage snap" "transport = Some t" by blast
    let ?c = "handleConnectionStateChange StateConnected None
      ((c\<lparr>lifecycle := Connected i d t True\<rparr>)\<lparr>cstate := applyServerSnapshot snap (cstate c)\<rparr>)"
    have "client_inv (c\<lparr>lifecycle := Connected i d t True\<rparr>)" using assms Connecting by (simp add: quiet_connected)
    then have "client_inv ?c" by (intro inv_state_change_connecting inv_cstate) simp_all
    moreover have "lifecycle ?c \<noteq> Disconnected"
      by (simp add: handleConnectionStateChange_def notifyConnectionStateListeners_def)
    ultimately have "client_inv (emit_effect (HandshakeResolved i snap) (?c\<lparr>lifecycle := Connected i d t False\<rparr>))"
      by (intro inv_emit quiet_connected) (simp_all add: unrelated_def)
    then show ?thesis by (simp add: handleMessage_def Connecting m Let_def)
  next
    case False
    then show ?thesis using assms by (auto simp: handleMessage_def Connecting split: server_message.split option.split)
  qed
next
  case (Connected i d t h)
  then show ?thesis using assms inv_client_message [OF assms]
    by (auto simp: handleMessage_def split: server_message.split)
qed (use assms in \<open>simp add: handleMessage_def\<close>)

lemma inv_messages: "client_inv c \<Longrightarrow> client_inv (handle_messages ms c)"
  by (induction ms arbitrary: c) (simp_all add: inv_message)

lemma inv_receive:
  assumes "client_inv c"
  shows "client_inv (receive_chunk codec d chunk c)"
proof -
  obtain result d' where r: "decode_chunk codec d chunk = (result, d')" by fastforce
  have "client_inv (c\<lparr>lifecycle := set_decoder d' (lifecycle c)\<rparr>)"
    using assms by (auto simp: client_inv_def quiet_def intro: balanced_fields answered_fields)
  then show ?thesis by (auto simp: receive_chunk_def r Let_def intro: inv_messages split: sum.split)
qed

lemma inv_data: "client_inv c \<Longrightarrow> client_inv (handleData codec i chunk c)"
  by (auto simp: handleData_def intro: inv_receive split: lifecycle.split)

lemma inv_close: "client_inv c \<Longrightarrow> client_inv (handleClose codec c)"
  by (auto simp: handleClose_def Let_def split: lifecycle.split)

lemma inv_send: "client_inv c \<Longrightarrow> client_inv (send_frame throws frame c)"
  by (auto simp: send_frame_def unrelated_def intro: inv_emit split: lifecycle.split option.split)

lemma inv_connect: "client_inv c \<Longrightarrow> client_inv (connect_call codec c)"
proof -
  assume c: "client_inv c"
  have "client_inv (c\<lparr>cstate := reset_state (cstate c), sequence := sequence c + 1,
      lifecycle := Connecting (sequence c + 1) (new_decoder codec) None\<rparr>)" if "\<not> disposed c" "lifecycle c = Disconnected"
    using c that by (auto simp: client_inv_def quiet_def reset_state_def intro: balanced_fields answered_fields)
  with c show ?thesis
    by (auto simp: connect_call_def Let_def unrelated_def intro!: inv_emit inv_state_change_connecting)
qed

lemma inv_opened: "client_inv c \<Longrightarrow> client_inv (transport_opened codec i t c)"
proof -
  assume c: "client_inv c"
  have "client_inv (c\<lparr>lifecycle := Connecting j d (Some t)\<rparr>)" if "lifecycle c = Connecting j d old" for j d old
    using c that by (auto simp: client_inv_def quiet_def intro: balanced_fields answered_fields)
  with c show ?thesis
    by (auto simp: transport_opened_def unrelated_def Let_def intro: inv_emit split: lifecycle.split sum.split)
qed

lemma inv_issue:
  assumes "client_inv c" and "is_connected (lifecycle c)"
  shows "client_inv (emit_effect (RequestIssued (requestSequence c + 1) q)
    (c\<lparr>requestSequence := requestSequence c + 1, pendingRequests := pendingRequests c @ [(requestSequence c + 1, q)]\<rparr>))"
    (is "client_inv ?c")
proof -
  have b: "times (settles n) (effects c) + times (\<lambda>(k, q). k = n) (pendingRequests c) = times (issues n) (effects c)"
    "times (issues n) (effects c) = (if 1 \<le> n \<and> n \<le> requestSequence c then 1 else 0)" for n
    using inv_parts(1) [OF assms(1)] by (auto simp: balanced_def)
  have "balanced ?c"
    using inv_parts(1) [OF assms(1)] b
    by (auto simp: balanced_def emit_effect_def settles_def issues_def)
  moreover have "answered ?c" using inv_parts(2) [OF assms(1)] by (fastforce simp: answered_def emit_effect_def)
  moreover have "quiet ?c" using inv_parts(3) [OF assms(1)] assms(2) by (simp add: quiet_def emit_effect_def)
  ultimately show ?thesis by (simp add: client_inv_def)
qed

lemma inv_request:
  assumes "client_inv c"
  shows "client_inv (request_call codec q throws c)"
proof (cases "disposed c \<or> connection_state c \<noteq> StateConnected")
  case True
  then show ?thesis using assms by (auto simp: request_call_def unrelated_def intro: inv_emit)
next
  case False
  then have conn: "is_connected (lifecycle c)" by (cases "lifecycle c") (simp_all add: connection_state_def)
  define n where "n = requestSequence c + 1"
  define d where "d = emit_effect (RequestIssued n q) (c\<lparr>requestSequence := n, pendingRequests := pendingRequests c @ [(n, q)]\<rparr>)"
  have d: "client_inv d" unfolding d_def n_def by (rule inv_issue [OF assms conn])
  have call: "request_call codec q throws c = (case encode_message codec (request_value (request_id n) q) of
      Inl e \<Rightarrow> (case takePendingRequest (request_id n) d of (None, c) \<Rightarrow> c | (Some p, c) \<Rightarrow> emit_effect (RequestRejected (fst p) e) c)
    | Inr frame \<Rightarrow> send_frame throws frame d)"
  proof -
    have "disposed c = False" "(connection_state c \<noteq> StateConnected) = False" using False by simp_all
    then show ?thesis by (simp only: request_call_def Let_def if_False d_def n_def)
  qed
  show ?thesis
  proof (cases "encode_message codec (request_value (request_id n) q)")
    case (Inr frame)
    with d show ?thesis by (simp add: call inv_send)
  next
    case (Inl e)
    obtain taken d' where t: "takePendingRequest (request_id n) d = (taken, d')" by fastforce
    have "client_inv (case taken of None \<Rightarrow> d' | Some p \<Rightarrow> emit_effect (RequestRejected (fst p) e) d')"
    proof (cases taken)
      case None
      with t take_pending_None [of "request_id n" d d'] d show ?thesis by simp
    next
      case (Some p)
      then have t: "takePendingRequest (request_id n) d = (Some (fst p, snd p), d')" using t by simp
      then show ?thesis using inv_parts [OF d] Some unfolding client_inv_def
        by (auto intro!: balanced_settle [OF _ t] answered_settle [OF _ t] quiet_settle [OF _ t] simp: settles_def issues_def)
    qed
    with Inl t show ?thesis by (auto simp: call split: option.split)
  qed
qed

lemma lifecycle_fail [simp]: "lifecycle (fail_connection e c) = Disconnected"
proof (cases "lifecycle c = Disconnected")
  case False
  have "lifecycle (handleConnectionStateChange StateDisconnected x d) = lifecycle d" for x and d :: "'a client"
    by (simp add: handleConnectionStateChange_def notifyConnectionStateListeners_def rejectPendingRequests_def
        invalidateAllSessionLeases_def)
  with False show ?thesis by (auto simp: fail_connection_def Let_def emit_effect_def split: option.split)
qed (simp add: fail_connection_def)

lemma lifecycle_fail_close [simp]: "lifecycle (failAndClose e c) = Disconnected"
  by (simp add: failAndClose_def Let_def emit_effect_def split: option.split)

lemma inv_dispose:
  assumes "client_inv c"
  shows "client_inv (dispose_call c)"
proof (cases "disposed c")
  case False
  let ?r = "rejectPendingRequests PiClientDisposedError (c\<lparr>disposed := True\<rparr>)"
  let ?d = "disconnect_call PiClientDisposedError ?r"
  have r: "balanced ?r" "answered ?r"
    using inv_parts [OF assms] by (auto intro!: balanced_reject_all answered_reject_all intro: balanced_fields answered_fields)
  have "client_inv ?r" if "lifecycle ?r = Disconnected"
    using r that inv_parts(3) [OF assms] by (auto simp: client_inv_def quiet_def rejectPendingRequests_def)
  then have "client_inv ?d"
    using inv_fail_close [OF r] by (auto simp: disconnect_call_def)
  moreover have "lifecycle ?d = Disconnected"
    by (simp add: disconnect_call_def)
  ultimately have d: "client_inv ?d" "lifecycle ?d = Disconnected" by simp_all
  have dispose: "client_inv (x\<lparr>cstate := dispose_state (cstate x)\<rparr>)" if "client_inv x" for x :: "'a client"
    by (rule inv_fields [OF that]) (simp_all add: dispose_state_def reset_state_def)
  have listeners: "client_inv (x\<lparr>changeListeners := []\<rparr>)" if "client_inv x" for x :: "'a client"
    by (rule inv_fields [OF that]) (use inv_parts(3) [OF that] in \<open>simp_all add: quiet_def\<close>)
  have "dispose_call c = (invalidateAllSessionLeases (?d\<lparr>cstate := dispose_state (cstate ?d)\<rparr>))\<lparr>changeListeners := []\<rparr>"
    using False by (simp only: dispose_call_def Let_def if_False)
  with listeners [OF inv_leases(2) [OF dispose [OF d(1)]]] show ?thesis by simp
qed (use assms in \<open>simp add: dispose_call_def\<close>)

lemma inv_step: "client_inv c \<Longrightarrow> client_inv (client_step codec i c)"
proof (cases i)
  case (ListenCall l)
  assume c: "client_inv c"
  have "client_inv (onConnectionStateChange l c)"
    by (rule inv_fields [OF c]) (use inv_parts(3) [OF c] in \<open>simp_all add: onConnectionStateChange_def quiet_def\<close>)
  with ListenCall show ?thesis by (simp add: client_step_def)
qed (auto simp: client_step_def disconnect_call_def transport_failed_def transport_error_def transport_closed_def send_failed_def
    intro: inv_connect inv_request inv_dispose inv_leases inv_opened inv_data inv_close)

lemma inv_run: "client_inv (client_run codec is)"
proof -
  have "client_inv (fold (client_step codec) is c)" if "client_inv c" for c
    using that by (induction "is" arbitrary: c) (simp_all add: inv_step)
  moreover have "client_inv new_client"
    by (simp add: client_inv_def balanced_def answered_def quiet_def new_client_def new_client_state_def)
  ultimately show ?thesis by (simp add: client_run_def)
qed

subsection \<open>Requests\<close>

text \<open>
  C12. A request is settled once and with its own answer. After any calls and any behaviour of transport and
  server, a request that was issued is either still pending, unsettled, on an established connection,
  or it has been settled exactly once; a result it was resolved with is one of its own command.
\<close>

theorem requests_settle_once:
  assumes "RequestIssued n q \<in> set (effects (client_run codec is))"
  shows "(n, q) \<in> set (pendingRequests (client_run codec is)) \<and> is_connected (lifecycle (client_run codec is)) \<and>
      times (settles n) (effects (client_run codec is)) = 0 \<or>
    n \<notin> fst ` set (pendingRequests (client_run codec is)) \<and> times (settles n) (effects (client_run codec is)) = 1 \<and>
      {r. RequestResolved n r \<in> set (effects (client_run codec is))} \<subseteq> {r. result_command r = command_name q}"
proof -
  define c where "c = client_run codec is"
  have c: "balanced c" "answered c" "quiet c" using inv_run [of codec "is"] by (simp_all add: client_inv_def c_def)
  have issued: "RequestIssued n q \<in> set (effects c)" using assms by (simp add: c_def)
  have sum: "times (settles n) (effects c) + times (\<lambda>(k, q). k = n) (pendingRequests c) = times (issues n) (effects c)"
    and once: "times (issues n) (effects c) \<le> 1"
    using c(1) by (auto simp: balanced_def)
  have same: "q' = q" if "RequestIssued n q' \<in> set (effects c)" for q'
  proof -
    let ?xs = "filter (issues n) (effects c)"
    have "RequestIssued n q \<in> set ?xs" "RequestIssued n q' \<in> set ?xs" using issued that by (simp_all add: issues_def)
    with once show ?thesis by (cases ?xs; cases "tl ?xs") auto
  qed
  have "times (issues n) (effects c) = 1"
    using once issued by (cases "filter (issues n) (effects c)") (auto simp: filter_empty_conv issues_def)
  then consider "times (settles n) (effects c) = 0" "times (\<lambda>(k, q). k = n) (pendingRequests c) = 1"
    | "times (settles n) (effects c) = 1" "times (\<lambda>(k, q). k = n) (pendingRequests c) = 0"
    using sum by linarith
  then show ?thesis
    unfolding c_def [symmetric]
  proof cases
    case 1
    then have "filter (\<lambda>(k, q). k = n) (pendingRequests c) \<noteq> []" by auto
    then obtain q' where p: "(n, q') \<in> set (pendingRequests c)" by (auto simp: filter_empty_conv)
    then have "q' = q" using c(1) same by (auto simp: balanced_def)
    moreover have "is_connected (lifecycle c)" using c(3) p by (auto simp: quiet_def)
    ultimately show "(n, q) \<in> set (pendingRequests c) \<and> is_connected (lifecycle c) \<and> times (settles n) (effects c) = 0 \<or>
      n \<notin> fst ` set (pendingRequests c) \<and> times (settles n) (effects c) = 1 \<and>
      {r. RequestResolved n r \<in> set (effects c)} \<subseteq> {r. result_command r = command_name q}" using p 1 by simp
  next
    case 2
    then have "n \<notin> fst ` set (pendingRequests c)" by (auto simp: filter_empty_conv)
    moreover have "result_command r = command_name q" if "RequestResolved n r \<in> set (effects c)" for r
      using c(2) that same by (fastforce simp: answered_def)
    ultimately show "(n, q) \<in> set (pendingRequests c) \<and> is_connected (lifecycle c) \<and> times (settles n) (effects c) = 0 \<or>
      n \<notin> fst ` set (pendingRequests c) \<and> times (settles n) (effects c) = 1 \<and>
      {r. RequestResolved n r \<in> set (effects c)} \<subseteq> {r. result_command r = command_name q}" using 2 by auto
  qed
qed

text \<open>
  A client that is not connected owes nothing: no request is pending and no session counts as attached
  whenever the connection is not established, and a disposed client is disconnected for good.
\<close>

theorem disconnected_client_is_quiet:
  "(if is_connected (lifecycle (client_run codec is)) then \<not> disposed (client_run codec is)
    else pendingRequests (client_run codec is) = [] \<and> cs_attached (cstate (client_run codec is)) = {})"
  using inv_parts(3) [OF inv_run [of codec "is"]] by (auto simp: quiet_def is_connected_def)

subsection \<open>Snapshots\<close>

lemma fail_cstate [simp]:
  "cs_snapshot (cstate (fail_connection e c)) = cs_snapshot (cstate c)"
  "cs_sessions (cstate (fail_connection e c)) = cs_sessions (cstate c)"
  by (simp_all add: fail_connection_def Let_def handleConnectionStateChange_def notifyConnectionStateListeners_def
      rejectPendingRequests_def invalidateAllSessionLeases_def clearAttachments_def emit_effect_def split: option.split)

lemma fail_close_cstate [simp]:
  "cs_snapshot (cstate (failAndClose e c)) = cs_snapshot (cstate c)"
  "cs_sessions (cstate (failAndClose e c)) = cs_sessions (cstate c)"
  by (simp_all add: failAndClose_def Let_def emit_effect_def split: option.split)

definition not_older :: "client_state \<Rightarrow> client_state \<Rightarrow> bool" where
  "not_older s t \<longleftrightarrow>
     (case cs_snapshot s of None \<Rightarrow> True
      | Some x \<Rightarrow> (case cs_snapshot t of None \<Rightarrow> False | Some y \<Rightarrow> sv_revision x \<le> sv_revision y)) \<and>
     (\<forall>i. case cs_sessions s i of None \<Rightarrow> True
      | Some x \<Rightarrow> (case cs_sessions t i of None \<Rightarrow> False | Some y \<Rightarrow> ss_revision x \<le> ss_revision y))"

lemma not_older_same: "cs_snapshot t = cs_snapshot s \<Longrightarrow> cs_sessions t = cs_sessions s \<Longrightarrow> not_older s t"
  by (auto simp: not_older_def split: option.split)

lemma not_older_notify: "not_older s t \<Longrightarrow> not_older s (notify_all f ls t)"
  by (simp add: not_older_def notify_all_def cong: option.case_cong)

lemma not_older_server: "not_older s (applyServerSnapshot snap s)"
  by (auto simp: applyServerSnapshot_def not_older_def notify_all_def split: option.split)

lemma not_older_session: "not_older s (applySessionSnapshot snap False s)"
  by (auto simp: applySessionSnapshot_def not_older_def notify_all_def split: option.split)

lemma not_older_result: "(case r of DetachResult i \<Rightarrow> (case cs_sessions s i of None \<Rightarrow> True | Some x \<Rightarrow> ss_id x = i) | _ \<Rightarrow> True) \<Longrightarrow>
    not_older s (applyResult r s)"
  by (cases r)
     (auto simp: applyResult_def not_older_session not_older_same applySessionSnapshot_def Let_def not_older_def notify_all_def
       split: option.splits)

text \<open>Snapshots are stored under their own id.\<close>

definition keyed :: "client_state \<Rightarrow> bool" where
  "keyed s \<longleftrightarrow> (\<forall>i x. cs_sessions s i = Some x \<longrightarrow> ss_id x = i)"

lemma keyed_same: "keyed s \<Longrightarrow> cs_sessions t = cs_sessions s \<Longrightarrow> keyed t"
  by (simp add: keyed_def)

lemma keyed_server: "keyed s \<Longrightarrow> keyed (applyServerSnapshot snap s)"
  by (auto simp: keyed_def applyServerSnapshot_def notify_all_def split: option.split)

lemma keyed_session: "keyed s \<Longrightarrow> keyed (applySessionSnapshot snap force s)"
  by (auto simp: keyed_def applySessionSnapshot_def notify_all_def)

lemma keyed_result: "keyed s \<Longrightarrow> keyed (applyResult r s)"
proof -
  assume s: "keyed s"
  then have "keyed (s\<lparr>cs_attached := a\<rparr>)" for a by (simp add: keyed_def)
  with s show ?thesis
    by (auto simp: applyResult_def Let_def keyed_session split: command_result.split option.split)
qed

lemma keyed_event: "keyed s \<Longrightarrow> keyed (applyEvent e s)"
proof -
  assume s: "keyed s"
  have notify: "keyed (notify_all f ls t) = keyed t" for f ls t by (simp add: keyed_def notify_all_def)
  from s show ?thesis
    by (auto simp: applyEvent_def Let_def notify keyed_server keyed_session split: option.split server_event.split)
       (auto simp: keyed_def)
qed

lemma sessions_simps [simp]:
  "cs_sessions (cstate (emit_effect x c)) = cs_sessions (cstate c)"
  "cs_sessions (cstate (invalidateSessionLeases i c)) = cs_sessions (cstate c)"
  "cs_sessions (cstate (invalidateAllSessionLeases c)) = cs_sessions (cstate c)"
  "cs_sessions (cstate (releaseSessionLease i token c)) = cs_sessions (cstate c)"
  "cs_sessions (cstate (snd (reserveSessionLease i mode c))) = cs_sessions (cstate c)"
  "cs_sessions (cstate (rejectPendingRequests e c)) = cs_sessions (cstate c)"
  "cs_sessions (cstate (handleConnectionStateChange s e' c)) = cs_sessions (cstate c)"
  "cs_sessions (cstate (send_frame throws frame c)) = cs_sessions (cstate c)"
  by (simp_all add: emit_effect_def invalidateSessionLeases_def invalidateAllSessionLeases_def releaseSessionLease_def
      reserveSessionLease_def rejectPendingRequests_def handleConnectionStateChange_def notifyConnectionStateListeners_def
      clearAttachments_def send_frame_def Let_def split: lifecycle.split option.split)

lemma keyed_simps [simp]:
  "keyed (cstate (emit_effect x c)) = keyed (cstate c)"
  "keyed (cstate (failAndClose e c)) = keyed (cstate c)"
  "keyed (cstate (fail_connection e c)) = keyed (cstate c)"
  "keyed (cstate (handleConnectionStateChange st e' c)) = keyed (cstate c)"
  by (simp_all add: keyed_def)

lemma take_pending_sessions: "takePendingRequest i c = (p, d) \<Longrightarrow> cstate d = cstate c"
  by (auto simp: takePendingRequest_def split: option.splits prod.splits)

lemma keyed_message: "keyed (cstate c) \<Longrightarrow> keyed (cstate (handleMessage m c))"
proof -
  assume c: "keyed (cstate c)"
  have client: "keyed (cstate (handleClientMessage m c))"
  proof (cases m)
    case (ResponseMessage i outcome)
    obtain p d where t: "takePendingRequest i c = (p, d)" by fastforce
    note d = take_pending_sessions [OF t]
    show ?thesis
    proof (cases p)
      case None
      then show ?thesis using c d by (simp add: handleClientMessage_def ResponseMessage t)
    next
      case (Some nq)
      then show ?thesis using c d
        by (cases nq; cases outcome) (simp_all add: handleClientMessage_def ResponseMessage t Let_def keyed_result)
    qed
  next
    case (EventMessage e)
    then show ?thesis using c
      by (simp add: handleClientMessage_def invalidateSessionLeases_def keyed_event split: server_event.split)
  qed (use c in \<open>simp_all add: handleClientMessage_def\<close>)
  show ?thesis
  proof (cases "lifecycle c")
    case (Connecting i d t)
    then show ?thesis using c keyed_server [OF c]
      by (auto simp: handleMessage_def Let_def split: server_message.split option.split)
  next
    case (Connected i d t h)
    then show ?thesis using client c by (auto simp: handleMessage_def split: server_message.split)
  qed (use c in \<open>simp add: handleMessage_def\<close>)
qed

lemma keyed_step: "keyed (cstate c) \<Longrightarrow> keyed (cstate (client_step codec i c))"
proof -
  assume c: "keyed (cstate c)"
  have messages: "keyed (cstate (handle_messages ms d))" if "keyed (cstate d)" for ms and d :: "'a client"
    using that by (induction ms arbitrary: d) (simp_all add: keyed_message)
  have receive: "keyed (cstate (receive_chunk codec d chunk c))" for d chunk
    using c by (auto simp: receive_chunk_def Let_def intro!: messages split: prod.split sum.split)
  have request: "keyed (cstate (request_call codec q throws c))" for q throws
  proof -
    have "cs_sessions (cstate (request_call codec q throws c)) = cs_sessions (cstate c)"
      by (auto simp: request_call_def Let_def split: sum.split prod.split option.split dest!: take_pending_sessions)
    with c show ?thesis by (rule keyed_same)
  qed
  have dispose: "keyed (cstate (dispose_call c))"
    using c by (simp add: dispose_call_def Let_def dispose_state_def reset_state_def keyed_def)
  have connect: "keyed (cstate (connect_call codec c))"
    using c by (simp add: connect_call_def Let_def reset_state_def keyed_def)
  show ?thesis
  proof (cases i)
    case (ReserveLease sess mode)
    then show ?thesis using c keyed_same [of "cstate c"] by (simp add: client_step_def)
  next
    case (ReleaseLease sess token)
    then show ?thesis using c keyed_same [of "cstate c"] by (simp add: client_step_def)
  qed (use c receive request dispose connect in
      \<open>auto simp: client_step_def disconnect_call_def transport_failed_def transport_error_def transport_closed_def
        send_failed_def transport_opened_def handleData_def handleClose_def onConnectionStateChange_def Let_def
        split: lifecycle.split sum.split\<close>)
qed

lemma keyed_run: "keyed (cstate (client_run codec is))"
proof -
  have "keyed (cstate (fold (client_step codec) is c))" if "keyed (cstate c)" for c
    using that by (induction "is" arbitrary: c) (simp_all add: keyed_step)
  moreover have "keyed (cstate new_client)" by (simp add: new_client_def new_client_state_def keyed_def)
  ultimately show ?thesis by (simp add: client_run_def)
qed

definition keeps_sessions :: "server_message \<Rightarrow> bool" where
  "keeps_sessions m \<longleftrightarrow> (case m of EventMessage e \<Rightarrow> (case e of SessionRemovedEvent i \<Rightarrow> False | _ \<Rightarrow> True) | _ \<Rightarrow> True)"

lemma not_older_cong:
  "cs_snapshot t = cs_snapshot t' \<Longrightarrow> cs_sessions t = cs_sessions t' \<Longrightarrow> not_older s t = not_older s t'"
  by (simp add: not_older_def cong: option.case_cong)

lemma snapshot_simps [simp]:
  "cs_snapshot (cstate (emit_effect x c)) = cs_snapshot (cstate c)"
  "cs_snapshot (cstate (handleConnectionStateChange st e' c)) = cs_snapshot (cstate c)"
  by (simp_all add: emit_effect_def handleConnectionStateChange_def notifyConnectionStateListeners_def
      rejectPendingRequests_def invalidateAllSessionLeases_def clearAttachments_def)

lemma not_older_simps [simp]:
  "not_older s (cstate (emit_effect x c)) = not_older s (cstate c)"
  "not_older s (cstate (failAndClose e c)) = not_older s (cstate c)"
  "not_older s (cstate (handleConnectionStateChange st e' c)) = not_older s (cstate c)"
  by (rule not_older_cong; simp)+

lemma not_older_event:
  "\<forall>i. e \<noteq> SessionRemovedEvent i \<Longrightarrow> not_older s (applyEvent e s)"
  by (cases e)
     (auto simp: applyEvent_def Let_def not_older_server not_older_session not_older_same intro!: not_older_notify split: option.split)

lemma not_older_message:
  assumes "keyed (cstate c)" and "keeps_sessions m"
  shows "not_older (cstate c) (cstate (handleMessage m c))"
proof -
  have same: "not_older (cstate c) (cstate c)" by (simp add: not_older_same)
  have client: "not_older (cstate c) (cstate (handleClientMessage m c))"
  proof (cases m)
    case (ResponseMessage i outcome)
    obtain p d where t: "takePendingRequest i c = (p, d)" by fastforce
    note d = take_pending_sessions [OF t]
    have "not_older (cstate c) (applyResult r (cstate c))" for r
      using assms(1) by (intro not_older_result) (auto simp: keyed_def split: command_result.split option.split)
    then show ?thesis using same d
      by (cases p; cases outcome) (auto simp: handleClientMessage_def ResponseMessage t Let_def)
  next
    case (EventMessage e)
    then show ?thesis using assms(2) not_older_event [of e "cstate c"]
      by (auto simp: handleClientMessage_def keeps_sessions_def split: server_event.splits)
  qed (use same in \<open>simp_all add: handleClientMessage_def\<close>)
  show ?thesis
  proof (cases "lifecycle c")
    case (Connecting i d t)
    then show ?thesis using same not_older_server
      by (auto simp: handleMessage_def Let_def split: server_message.split option.split)
  next
    case (Connected i d t h)
    then show ?thesis using client same by (auto simp: handleMessage_def split: server_message.split)
  qed (use same in \<open>simp add: handleMessage_def\<close>)
qed

text \<open>
  C39. Snapshots never go back. Whatever message arrives, except that a session was removed, the server snapshot
  and every session snapshot of the client are still there afterwards and at least as new as before.
\<close>

theorem snapshots_never_go_back:
  assumes "keeps_sessions m"
  shows "not_older (cstate (client_run codec is)) (cstate (handleMessage m (client_run codec is)))"
  by (rule not_older_message [OF keyed_run assms])

subsection \<open>Nothing but the hello before the handshake\<close>

definition is_frame :: "effect \<Rightarrow> bool" where
  "is_frame x \<longleftrightarrow> (case x of SendsFrame t f \<Rightarrow> True | _ \<Rightarrow> False)"

definition greeted :: "nat \<Rightarrow> nat \<Rightarrow> effect list \<Rightarrow> bool" where
  "greeted i t xs \<longleftrightarrow> (\<exists>h snap. subseq [SendsHello i t h, HandshakeResolved i snap] xs)"

definition gated :: "'d client \<Rightarrow> bool" where
  "gated c \<longleftrightarrow>
     (\<forall>xs t f ys. effects c = xs @ SendsFrame t f # ys \<longrightarrow> (\<exists>i. greeted i t xs)) \<and>
     (case lifecycle c of Disconnected \<Rightarrow> True
      | Connecting i d t \<Rightarrow> (case t of None \<Rightarrow> True | Some t \<Rightarrow> \<exists>h. SendsHello i t h \<in> set (effects c))
      | Connected i d t h \<Rightarrow> greeted i t (effects c))"

lemma greeted_append: "greeted i t xs \<Longrightarrow> greeted i t (xs @ ys)"
  unfolding greeted_def by (meson prefixI prefix_imp_subseq subseq_order.trans)

text \<open>An operation that appends effects other than frames and keeps the connection or drops it.\<close>

definition frameless :: "'d client \<Rightarrow> 'd client \<Rightarrow> bool" where
  "frameless c c' \<longleftrightarrow> (\<exists>xs. effects c' = effects c @ xs \<and> list_all (\<lambda>x. \<not> is_frame x) xs) \<and>
     (lifecycle c' = lifecycle c \<or> lifecycle c' = Disconnected)"

lemma frameless_refl [simp]: "frameless c c" by (simp add: frameless_def)

lemma frameless_trans: "frameless c d \<Longrightarrow> frameless d e \<Longrightarrow> frameless c e"
  unfolding frameless_def by (metis (no_types, lifting) append.assoc list_all_append)

lemma frame_split:
  "xs @ zs = us @ SendsFrame t f # vs \<Longrightarrow> list_all (\<lambda>x. \<not> is_frame x) zs \<Longrightarrow> \<exists>vs'. xs = us @ SendsFrame t f # vs'"
  by (induction xs arbitrary: us)
     (auto simp: Cons_eq_append_conv is_frame_def append_eq_Cons_conv)

lemma gated_frameless:
  assumes "gated c" and "frameless c c'"
  shows "gated c'"
proof -
  obtain zs where zs: "effects c' = effects c @ zs" "list_all (\<lambda>x. \<not> is_frame x) zs"
    using assms(2) by (auto simp: frameless_def)
  have "\<exists>i. greeted i t xs" if "effects c' = xs @ SendsFrame t f # ys" for xs t f ys
    using frame_split [of "effects c" zs xs t f ys] that zs assms(1) by (auto simp: gated_def)
  moreover have "case lifecycle c' of Disconnected \<Rightarrow> True
      | Connecting i d t \<Rightarrow> (case t of None \<Rightarrow> True | Some t \<Rightarrow> \<exists>h. SendsHello i t h \<in> set (effects c'))
      | Connected i d t h \<Rightarrow> greeted i t (effects c')"
  proof (cases "lifecycle c' = Disconnected")
    case False
    then have "lifecycle c' = lifecycle c" using assms(2) by (auto simp: frameless_def)
    then show ?thesis using assms(1) zs(1)
      by (cases "lifecycle c") (auto simp: gated_def greeted_append split: option.split)
  qed simp
  ultimately show ?thesis by (simp add: gated_def)
qed

lemma frameless_emit: "\<not> is_frame x \<Longrightarrow> frameless c (emit_effect x c)"
  by (simp add: frameless_def emit_effect_def)

lemma frameless_fields: "effects c' = effects c \<Longrightarrow> lifecycle c' = lifecycle c \<Longrightarrow> frameless c c'"
  by (simp add: frameless_def)

lemma frameless_change: "frameless c (handleConnectionStateChange s e c)"
  by (auto simp: frameless_def handleConnectionStateChange_def notifyConnectionStateListeners_def rejectPendingRequests_def
      invalidateAllSessionLeases_def list_all_iff is_frame_def)

lemma frameless_fail: "frameless c (fail_connection e c)"
proof -
  define d where "d = (case handshake_of (lifecycle c) of None \<Rightarrow> c\<lparr>lifecycle := Disconnected\<rparr>
    | Some i \<Rightarrow> emit_effect (HandshakeRejected i e) (c\<lparr>lifecycle := Disconnected\<rparr>))"
  have "frameless c d"
    by (auto simp: d_def frameless_def emit_effect_def is_frame_def split: option.split)
  moreover have "frameless d (handleConnectionStateChange StateDisconnected (Some e) d)" by (rule frameless_change)
  ultimately show ?thesis
    using frameless_trans by (auto simp: fail_connection_def Let_def d_def)
qed

lemma frameless_fail_close: "frameless c (failAndClose e c)"
proof -
  have "frameless d (emit_effect (ClosesTransport t) d)" for t and d :: "'a client"
    by (rule frameless_emit) (simp add: is_frame_def)
  with frameless_fail [of c e] show ?thesis
    by (auto simp: failAndClose_def Let_def intro: frameless_trans split: option.split)
qed

lemma frameless_take: "takePendingRequest i c = (p, d) \<Longrightarrow> frameless c d"
  by (auto simp: takePendingRequest_def intro: frameless_fields split: option.splits prod.splits)

lemma frameless_outcomes [simp]:
  "\<not> is_frame (RequestRejected n e)" "\<not> is_frame (RequestResolved n r)" "\<not> is_frame (RequestIssued n q)"
  "\<not> is_frame (RequestRefused e)" "\<not> is_frame (ConnectRefused e)" "\<not> is_frame (OpensTransport i)"
  "\<not> is_frame (ClosesTransport t)" "\<not> is_frame (HandshakeResolved i snap)" "\<not> is_frame (SendsHello i t h)"
  by (simp_all add: is_frame_def)

lemma frameless_after: "frameless c d \<Longrightarrow> \<not> is_frame x \<Longrightarrow> frameless c (emit_effect x d)"
  "frameless c d \<Longrightarrow> frameless c (failAndClose e d)"
  "frameless c d \<Longrightarrow> frameless c (d\<lparr>cstate := s\<rparr>)"
    apply (erule frameless_trans, erule frameless_emit)
   apply (erule frameless_trans, rule frameless_fail_close)
  apply (erule frameless_trans, simp add: frameless_def)
  done

lemma frameless_client_message: "frameless c (handleClientMessage m c)"
proof (cases m)
  case (ResponseMessage i outcome)
  obtain p d where t: "takePendingRequest i c = (p, d)" by fastforce
  note d = frameless_take [OF t]
  show ?thesis
    by (cases p; cases outcome) (auto simp: handleClientMessage_def ResponseMessage t Let_def intro!: frameless_after d)
next
  case (EventMessage e)
  show ?thesis
    by (auto simp: handleClientMessage_def EventMessage invalidateSessionLeases_def frameless_def split: server_event.split)
qed (simp_all add: handleClientMessage_def)

lemma gated_message:
  assumes "gated c"
  shows "gated (handleMessage m c)"
proof (cases "lifecycle c")
  case (Connecting i d transport)
  show ?thesis
  proof (cases "\<exists>snap t. m = HelloMessage snap \<and> transport = Some t")
    case True
    then obtain snap t where m: "m = HelloMessage snap" "transport = Some t" by blast
    define c1 where "c1 = handleConnectionStateChange StateConnected None
      ((c\<lparr>lifecycle := Connected i d t True\<rparr>)\<lparr>cstate := applyServerSnapshot snap (cstate c)\<rparr>)"
    have result: "handleMessage m c = emit_effect (HandshakeResolved i snap) (c1\<lparr>lifecycle := Connected i d t False\<rparr>)"
      by (simp add: handleMessage_def Connecting m Let_def c1_def)
    obtain zs where zs: "effects c1 = effects c @ zs" "list_all (\<lambda>x. \<not> is_frame x) zs"
      using frameless_change [of "(c\<lparr>lifecycle := Connected i d t True\<rparr>)\<lparr>cstate := applyServerSnapshot snap (cstate c)\<rparr>" StateConnected None]
      by (auto simp: frameless_def c1_def)
    obtain h where h: "SendsHello i t h \<in> set (effects c)" using assms Connecting m(2) by (auto simp: gated_def)
    then have "subseq [SendsHello i t h] (effects c @ zs)" by (simp add: subseq_singleton_left)
    then have "subseq ([SendsHello i t h] @ [HandshakeResolved i snap]) ((effects c @ zs) @ [HandshakeResolved i snap])"
      by (intro list_emb_append_mono) auto
    then have "greeted i t (effects (handleMessage m c))" by (auto simp: greeted_def result emit_effect_def zs(1))
    moreover have "\<exists>j. greeted j t' xs" if "effects (handleMessage m c) = xs @ SendsFrame t' f # ys" for xs t' f ys
      using frame_split [of "effects c" "zs @ [HandshakeResolved i snap]" xs t' f ys] that zs assms
      by (auto simp: result emit_effect_def gated_def is_frame_def)
    moreover have "lifecycle (handleMessage m c) = Connected i d t False" by (simp add: result emit_effect_def)
    ultimately show ?thesis by (simp add: gated_def)
  next
    case False
    then have "frameless c (handleMessage m c)"
      by (auto simp: handleMessage_def Connecting frameless_fail_close split: server_message.split option.split)
    with assms show ?thesis by (rule gated_frameless)
  qed
next
  case (Connected i d t h)
  then have "frameless c (handleMessage m c)"
    by (auto simp: handleMessage_def frameless_fail_close frameless_client_message split: server_message.split)
  with assms show ?thesis by (rule gated_frameless)
qed (use assms in \<open>simp add: handleMessage_def\<close>)

lemma gated_receive: "gated c \<Longrightarrow> gated (receive_chunk codec d chunk c)"
proof -
  assume c: "gated c"
  have messages: "gated (handle_messages ms x)" if "gated x" for ms and x :: "'a client"
    using that by (induction ms arbitrary: x) (simp_all add: gated_message)
  have "gated (c\<lparr>lifecycle := set_decoder d' (lifecycle c)\<rparr>)" for d'
    using c by (cases "lifecycle c") (auto simp: gated_def set_decoder_def)
  then show ?thesis
    by (auto simp: receive_chunk_def Let_def intro: messages gated_frameless [OF _ frameless_fail_close]
        split: prod.split sum.split)
qed

lemma frameless_leases:
  "frameless c (invalidateAllSessionLeases c)" "frameless c (releaseSessionLease i token c)"
  "frameless c (snd (reserveSessionLease i mode c))" "frameless c (onConnectionStateChange l c)"
  by (auto simp: invalidateAllSessionLeases_def releaseSessionLease_def reserveSessionLease_def onConnectionStateChange_def
      Let_def intro: frameless_fields)

lemma gated_connect: "gated c \<Longrightarrow> gated (connect_call codec c)"
proof -
  assume c: "gated c"
  define d where "d = c\<lparr>cstate := reset_state (cstate c), sequence := sequence c + 1,
    lifecycle := Connecting (sequence c + 1) (new_decoder codec) None\<rparr>"
  have "gated d" using c by (simp add: gated_def d_def)
  moreover have "frameless d (emit_effect (OpensTransport i) (handleConnectionStateChange StateConnecting None d))" for i
    by (intro frameless_after frameless_change) simp
  ultimately have "gated (emit_effect (OpensTransport i) (handleConnectionStateChange StateConnecting None d))" for i
    by (rule gated_frameless)
  moreover have "gated (emit_effect (ConnectRefused e) c)" for e
    using c by (rule gated_frameless) (simp add: frameless_emit)
  ultimately show ?thesis by (simp add: connect_call_def Let_def d_def)
qed

lemma gated_opened: "gated c \<Longrightarrow> gated (transport_opened codec i t c)"
proof (cases "\<exists>d old f. lifecycle c = Connecting i d old \<and> encode_message codec hello_value = Inr f")
  case True
  assume c: "gated c"
  from True obtain d old f where l: "lifecycle c = Connecting i d old" "encode_message codec hello_value = Inr f" by blast
  have "\<exists>j. greeted j t' xs" if "effects c @ [SendsHello i t f] = xs @ SendsFrame t' f' # ys" for xs t' f' ys
    using frame_split [of "effects c" "[SendsHello i t f]" xs t' f' ys] that c by (auto simp: gated_def)
  with l show ?thesis by (auto simp: transport_opened_def Let_def gated_def emit_effect_def)
next
  case False
  assume c: "gated c"
  have "frameless (c\<lparr>lifecycle := l\<rparr>) (failAndClose e (c\<lparr>lifecycle := l\<rparr>))" for l e by (rule frameless_fail_close)
  then have "frameless c (failAndClose e (c\<lparr>lifecycle := l\<rparr>))" for l e
    by (auto simp: frameless_def)
  then have "frameless c (transport_opened codec i t c)" using False
    by (auto simp: transport_opened_def Let_def frameless_emit split: lifecycle.split sum.split)
  with c show ?thesis by (rule gated_frameless)
qed

lemma gated_send: "gated c \<Longrightarrow> gated (send_frame throws f c)"
proof (cases "\<exists>i d t h. lifecycle c = Connected i d t h \<and> throws = None")
  case True
  assume c: "gated c"
  from True obtain i d t h where l: "lifecycle c = Connected i d t h" "throws = None" by blast
  have greeted: "greeted i t (effects c)" using c l by (simp add: gated_def)
  have "\<exists>j. greeted j t' xs" if e: "effects c @ [SendsFrame t f] = xs @ SendsFrame t' f' # ys" for xs t' f' ys
  proof (cases ys rule: rev_cases)
    case Nil
    with e greeted show ?thesis by auto
  next
    case (snoc zs z)
    with e have "effects c = xs @ SendsFrame t' f' # zs" by simp
    with c show ?thesis by (auto simp: gated_def)
  qed
  with l greeted show ?thesis by (simp add: send_frame_def gated_def emit_effect_def greeted_append)
next
  case False
  assume c: "gated c"
  have "frameless c (send_frame throws f c)" using False
    by (auto simp: send_frame_def frameless_fail_close split: lifecycle.split option.split)
  with c show ?thesis by (rule gated_frameless)
qed

lemma gated_request: "gated c \<Longrightarrow> gated (request_call codec q throws c)"
proof -
  assume c: "gated c"
  let ?d = "\<lambda>n. emit_effect (RequestIssued n q) (c\<lparr>requestSequence := n, pendingRequests := pendingRequests c @ [(n, q)]\<rparr>)"
  have d: "frameless c (?d n)" for n by (intro frameless_after frameless_fields) simp_all
  have "gated (case takePendingRequest i (?d n) of (None, x) \<Rightarrow> x | (Some p, x) \<Rightarrow> emit_effect (RequestRejected (fst p) e) x)" for i n e
  proof (rule gated_frameless [OF c])
    obtain p x where t: "takePendingRequest i (?d n) = (p, x)" by fastforce
    from frameless_trans [OF d frameless_take [OF t]] have "frameless c x" .
    then show "frameless c (case takePendingRequest i (?d n) of (None, x) \<Rightarrow> x | (Some p, x) \<Rightarrow> emit_effect (RequestRejected (fst p) e) x)"
      unfolding t by (cases p) (simp_all add: frameless_after)
  qed
  moreover have "gated (emit_effect (RequestRefused e) c)" for e
    using c by (rule gated_frameless) (simp add: frameless_emit)
  moreover have "gated (send_frame throws f (?d n))" for f n
    by (rule gated_send, rule gated_frameless [OF c d])
  ultimately show ?thesis by (simp add: request_call_def Let_def split: sum.split)
qed

lemma frameless_dispose: "frameless c (dispose_call c)"
proof -
  have reject: "frameless c (rejectPendingRequests e (c\<lparr>disposed := True\<rparr>))" for e
    by (auto simp: frameless_def rejectPendingRequests_def list_all_iff is_frame_def)
  have "frameless c (disconnect_call e x)" if "frameless c x" for e x
    using that by (simp add: disconnect_call_def frameless_after)
  note d = this [OF reject]
  have all: "frameless c (invalidateAllSessionLeases x)" if "frameless c x" for x
    by (rule frameless_trans [OF that frameless_leases(1)])
  have listeners: "frameless c (x\<lparr>changeListeners := []\<rparr>)" if "frameless c x" for x
    by (rule frameless_trans [OF that frameless_fields]) simp_all
  show ?thesis
    unfolding dispose_call_def Let_def
    by (simp add: listeners [OF all [OF frameless_after(3) [OF d]]])
qed

lemma gated_step: "gated c \<Longrightarrow> gated (client_step codec i c)"
  by (cases i)
     (auto simp: client_step_def disconnect_call_def transport_failed_def transport_error_def transport_closed_def
       send_failed_def handleData_def handleClose_def Let_def split: lifecycle.split
       intro: gated_connect gated_request gated_opened gated_receive gated_frameless [OF _ frameless_dispose]
         gated_frameless [OF _ frameless_fail_close] gated_frameless [OF _ frameless_fail]
         gated_frameless [OF _ frameless_leases(2)] gated_frameless [OF _ frameless_leases(3)]
         gated_frameless [OF _ frameless_leases(4)])

text \<open>
  C14. Nothing but the hello before the handshake: every request frame the client sends on a transport is
  preceded by the client's hello on that transport and, after it, by the server's hello that established
  the connection.
\<close>

theorem frames_follow_handshake:
  assumes "effects (client_run codec is) = before @ SendsFrame t f # after"
  shows "\<exists>i h snap. subseq [SendsHello i t h, HandshakeResolved i snap] before"
proof -
  have "gated (fold (client_step codec) is c)" if "gated c" for c
    using that by (induction "is" arbitrary: c) (simp_all add: gated_step)
  moreover have "gated new_client" by (simp add: gated_def new_client_def)
  ultimately have "gated (client_run codec is)" by (simp add: client_run_def)
  with assms show ?thesis by (fastforce simp: gated_def greeted_def)
qed

subsection \<open>Listeners of a session\<close>

text \<open>
  Unsubscribing twice silences others: when the last listener of a session has unsubscribed and another one
  subscribed since, calling the first unsubscribe function again removes the new listener's set, and
  no notification of the session reaches it any more.
\<close>

theorem second_unsubscribe_silences_others:
  assumes "subscribeSession i l s = (r, s1)" and "lm_by_id (sessionSnapshotListeners s) i = None"
    and "subscribeSession i l' (unsubscribeSession i r l s1) = (r', s2)"
  shows "session_listeners (sessionSnapshotListeners s2) i = [l'] \<and>
    session_listeners (sessionSnapshotListeners (unsubscribeSession i r l s2)) i = []"
  using assms
  by (auto simp: subscribeSession_def unsubscribeSession_def addMappedListener_def removeMappedListener_def Let_def
      session_listeners_def)

subsection \<open>A sample run\<close>

definition sample_server :: server_snapshot where "sample_server = \<lparr>sv_revision = 3, sv_value = JNull\<rparr>"

definition sample_session :: session_snapshot where
  "sample_session = \<lparr>ss_id = [115], ss_revision = 1, ss_attached = True, ss_value = JNull\<rparr>"

definition sample_inbound :: "byte list \<Rightarrow> server_message list" where
  "sample_inbound chunk = (if chunk = [1] then [HelloMessage sample_server]
     else if chunk = [2] then [ResponseMessage (request_id 1) (Inr (SessionResult (units ''attach'') sample_session))] else [])"

definition sample_codec :: "unit codec" where
  "sample_codec = \<lparr>new_decoder = (), decode_chunk = (\<lambda>d chunk. (Inr (sample_inbound chunk), d)), end_decoding = (\<lambda>d. None),
     encode_message = (\<lambda>v. Inr [7])\<rparr>"

definition sample_inputs :: "client_input list" where
  "sample_inputs = [ConnectCall, TransportOpened 1 5, DataReceived 1 [1], RequestCall (AttachCommand [115]) None,
     DataReceived 1 [2], RequestCall ListCommand None]"

lemma sample_effects:
  "effects (client_run sample_codec sample_inputs) =
    [OpensTransport 1, SendsHello 1 5 [7], HandshakeResolved 1 sample_server, RequestIssued 1 (AttachCommand [115]),
     SendsFrame 5 [7], RequestResolved 1 (SessionResult (units ''attach'') sample_session), RequestIssued 2 ListCommand, SendsFrame 5 [7]]"
  "pendingRequests (client_run sample_codec sample_inputs) = [(2, ListCommand)]"
  by code_simp+

theorem requests_settle_once_witness:
  "times (settles 1) (effects (client_run sample_codec sample_inputs)) = 1 \<and>
   (2, ListCommand) \<in> set (pendingRequests (client_run sample_codec sample_inputs))"
  using requests_settle_once [of 1 "AttachCommand [115]" sample_codec sample_inputs]
  by (auto simp: sample_effects)

theorem frames_follow_handshake_witness:
  "\<exists>i h snap. subseq [SendsHello i 5 h, HandshakeResolved i snap]
     [OpensTransport 1, SendsHello 1 5 [7], HandshakeResolved 1 sample_server, RequestIssued 1 (AttachCommand [115])]"
  by (rule frames_follow_handshake [of sample_codec sample_inputs _ 5 "[7]"]) (simp add: sample_effects)

theorem snapshots_never_go_back_witness:
  "not_older (cstate (client_run sample_codec sample_inputs))
     (cstate (handleMessage (EventMessage (ServerSnapshotEvent (sample_server\<lparr>sv_revision := 2\<rparr>))) (client_run sample_codec sample_inputs)))"
  by (rule snapshots_never_go_back) (simp add: keeps_sessions_def)

theorem second_unsubscribe_silences_others_witness:
  "session_listeners (sessionSnapshotListeners (unsubscribeSession [115] 0 1 (snd (subscribeSession [115] 2
     (unsubscribeSession [115] 0 1 (snd (subscribeSession [115] 1 new_client_state))))))) [115] = []"
proof -
  let ?s1 = "snd (subscribeSession [115] 1 new_client_state)"
  have "subscribeSession [115] 1 new_client_state = (0, ?s1)"
    by (simp add: new_client_state_def no_listeners_def subscribeSession_def addMappedListener_def Let_def)
  moreover have "lm_by_id (sessionSnapshotListeners new_client_state) [115] = None"
    by (simp add: new_client_state_def no_listeners_def)
  ultimately show ?thesis
    using second_unsubscribe_silences_others [OF _ _ prod.collapse [symmetric]] by blast
qed

end
