(* ===== verification/ClientProtocol.thy ===== *)
theory ClientProtocol
  imports ClientSafety
begin

text \<open>
  The client over the codec of the protocol package. \<open>new_connection\<close> is the check of the constructor of
  \<^verbatim>\<open>Connection\<close>; \<open>protocol_codec\<close> makes the argument of the client model from the decoder and the encoder of
  \<^verbatim>\<open>protocol/src/codec.ts\<close>. The theorem composes the two packages: what the server encodes, the client handles,
  message by message.
\<close>

subsection \<open>The codec of a connection\<close>

definition new_connection :: "int option \<Rightarrow> client_error + int" where
  "new_connection options =
     (let n = or_default options (int DEFAULT_MAX_FRAME_LENGTH) in
      if n \<le> 0 \<or> n > int MAX_UINT32
      then Inl (TransportFailure ''PiClient maxFrameLength must be an integer between 1 and 4294967295'') else Inr n)"

text \<open>\<open>decoder\<close> is a new decoder with the frame limit of the connection.\<close>

definition protocol_codec :: "schema_checker \<Rightarrow> int \<Rightarrow> message_decoder \<Rightarrow> message_decoder codec" where
  "protocol_codec check_schema limit decoder =
     \<lparr>new_decoder = decoder,
      decode_chunk = (\<lambda>d chunk. let (result, d') = push_server check_schema d chunk
        in (map_error CodecFailure (map_sum id (map read_server_message) result), d')),
      end_decoding = (\<lambda>d. case fst (end_messages d) of Inl e \<Rightarrow> Some (CodecFailure e) | Inr u \<Rightarrow> None),
      encode_message = (\<lambda>v. map_error CodecFailure (encodeClientMessage check_schema v (Some limit)))\<rparr>"

subsection \<open>Messages do not look at the decoder\<close>

definition put_decoder :: "'d \<Rightarrow> 'd client \<Rightarrow> 'd client" where
  "put_decoder d c = c\<lparr>lifecycle := set_decoder d (lifecycle c)\<rparr>"

lemma set_decoder_simps [simp]:
  "set_decoder d Disconnected = Disconnected" "set_decoder d (Connecting i d' o') = Connecting i d o'"
  "set_decoder d (Connected i d' t h) = Connected i d t h" "set_decoder d l = Disconnected \<longleftrightarrow> l = Disconnected"
  "handshake_of (set_decoder d l) = handshake_of l" "transport_of (set_decoder d l) = transport_of l"
  "set_decoder d (set_decoder d' l) = set_decoder d l"
  by (cases l; simp add: set_decoder_def handshake_of_def transport_of_def)+

lemma put_decoder_simps [simp]:
  "put_decoder d (put_decoder d' c) = put_decoder d c"
  "lifecycle (put_decoder d c) = set_decoder d (lifecycle c)"
  "cstate (put_decoder d c) = cstate c" "pendingRequests (put_decoder d c) = pendingRequests c"
  "emit_effect x (put_decoder d c) = put_decoder d (emit_effect x c)"
  "(put_decoder d c)\<lparr>cstate := s\<rparr> = put_decoder d (c\<lparr>cstate := s\<rparr>)"
  "put_decoder d (c\<lparr>lifecycle := l\<rparr>) = c\<lparr>lifecycle := set_decoder d l\<rparr>"
  by (simp_all add: put_decoder_def emit_effect_def)

lemma put_decoder_state_change:
  "handleConnectionStateChange s e (put_decoder d c) = put_decoder d (handleConnectionStateChange s e c)"
  by (rule client.equality)
     (simp_all add: put_decoder_def handleConnectionStateChange_def notifyConnectionStateListeners_def
       rejectPendingRequests_def invalidateAllSessionLeases_def cong: if_cong)

lemma put_decoder_disconnected: "lifecycle c = Disconnected \<Longrightarrow> put_decoder d c = c"
  by (simp add: put_decoder_def)

lemma state_change_lifecycle [simp]: "lifecycle (handleConnectionStateChange s e c) = lifecycle c"
  by (simp add: handleConnectionStateChange_def notifyConnectionStateListeners_def
      rejectPendingRequests_def invalidateAllSessionLeases_def)

lemma put_decoder_fail:
  "fail_connection e (put_decoder d c) = put_decoder d (fail_connection e c)"
  "failAndClose e (put_decoder d c) = put_decoder d (failAndClose e c)"
proof -
  have d: "(put_decoder d c)\<lparr>lifecycle := Disconnected\<rparr> = c\<lparr>lifecycle := Disconnected\<rparr>" by (simp add: put_decoder_def)
  show f: "fail_connection e (put_decoder d c) = put_decoder d (fail_connection e c)"
    by (subst put_decoder_disconnected, simp) (simp add: fail_connection_def d put_decoder_disconnected)
  show "failAndClose e (put_decoder d c) = put_decoder d (failAndClose e c)"
    by (subst put_decoder_disconnected, simp)
       (simp add: failAndClose_def f put_decoder_disconnected [of "fail_connection e c"])
qed

lemma put_decoder_client_message:
  "handleClientMessage m (put_decoder d c) = put_decoder d (handleClientMessage m c)"
proof (cases m)
  case (ResponseMessage i outcome)
  obtain p c' where t: "takePendingRequest i c = (p, c')" by fastforce
  then have "takePendingRequest i (put_decoder d c) = (p, put_decoder d c')"
    by (auto simp: takePendingRequest_def put_decoder_def split: option.splits)
  with t show ?thesis
    by (cases p; cases outcome) (auto simp: handleClientMessage_def ResponseMessage Let_def put_decoder_fail)
next
  case (EventMessage e)
  have "invalidateSessionLeases i (put_decoder d c) = put_decoder d (invalidateSessionLeases i c)" for i
    by (rule client.equality) (simp_all add: invalidateSessionLeases_def put_decoder_def)
  then show ?thesis
    by (auto simp: handleClientMessage_def EventMessage Let_def split: server_event.split)
qed (simp_all add: handleClientMessage_def)

lemma put_decoder_message: "handleMessage m (put_decoder d c) = put_decoder d (handleMessage m c)"
proof (cases "lifecycle c")
  case Disconnected
  then show ?thesis by (simp add: handleMessage_def)
next
  case (Connecting i d' t)
  have "handleMessage (HelloMessage snap) (put_decoder d c) = put_decoder d (handleMessage (HelloMessage snap) c)" for snap
  proof (cases t)
    case None
    with Connecting show ?thesis by (simp add: handleMessage_def put_decoder_fail)
  next
    case (Some r)
    with Connecting show ?thesis
      by (simp add: handleMessage_def handleConnectionStateChange_def notifyConnectionStateListeners_def emit_effect_def
          put_decoder_def Let_def)
  qed
  then show ?thesis using Connecting
    by (cases m) (simp_all add: handleMessage_def put_decoder_fail)
next
  case (Connected i d' t h)
  then show ?thesis
    by (auto simp: handleMessage_def put_decoder_fail put_decoder_client_message split: server_message.split)
qed

lemma put_decoder_messages: "handle_messages ms (put_decoder d c) = put_decoder d (handle_messages ms c)"
  by (induction ms arbitrary: c) (simp_all add: put_decoder_message)

subsection \<open>The connection of a client stays until it is lost\<close>

text \<open>A client that has this decoder on this connection with its transport.\<close>

definition receiving :: "nat \<Rightarrow> 'd \<Rightarrow> 'd client \<Rightarrow> bool" where
  "receiving i d c \<longleftrightarrow> (case lifecycle c of Disconnected \<Rightarrow> False
     | Connecting j d' t \<Rightarrow> j = i \<and> d' = d \<and> t \<noteq> None | Connected j d' t h \<Rightarrow> j = i \<and> d' = d)"

lemma receiving_client_message:
  assumes "receiving i d c"
  shows "lifecycle (handleClientMessage m c) = Disconnected \<or> receiving i d (handleClientMessage m c)"
proof (cases m)
  case (ResponseMessage k outcome)
  obtain p c' where t: "takePendingRequest k c = (p, c')" by fastforce
  then have "lifecycle c' = lifecycle c" by (auto simp: takePendingRequest_def split: option.splits)
  with t assms show ?thesis
    by (cases p; cases outcome) (auto simp: handleClientMessage_def ResponseMessage Let_def receiving_def emit_effect_def)
next
  case (EventMessage e)
  with assms show ?thesis
    by (auto simp: handleClientMessage_def Let_def receiving_def invalidateSessionLeases_def split: server_event.split)
qed (use assms in \<open>simp_all add: handleClientMessage_def\<close>)

lemma receiving_message:
  "receiving i d c \<Longrightarrow> lifecycle (handleMessage m c) = Disconnected \<or> receiving i d (handleMessage m c)"
  using receiving_client_message [of i d c m]
  by (cases "lifecycle c")
     (auto simp: handleMessage_def Let_def receiving_def emit_effect_def handleConnectionStateChange_def
       notifyConnectionStateListeners_def split: server_message.split)

lemma receiving_messages:
  "receiving i d c \<Longrightarrow> lifecycle (handle_messages ms c) = Disconnected \<or> receiving i d (handle_messages ms c)"
proof (induction ms arbitrary: c)
  case (Cons m ms)
  from receiving_message [OF Cons.prems, of m] Cons.IH [of "handleMessage m c"] Cons.prems show ?case
    by (cases ms) auto
qed simp

lemma handle_messages_append: "handle_messages (ms @ ns) c = handle_messages ns (handle_messages ms c)"
proof (induction ms arbitrary: c)
  case (Cons m ms)
  then show ?case by (cases ns) auto
qed simp

lemma handle_messages_disconnected: "lifecycle c = Disconnected \<Longrightarrow> handle_messages ms c = c"
  by (cases ms) simp_all

lemma handleData_receiving:
  assumes "receiving i d c" and "push_server check_schema d chunk = (Inr vs, d')"
  shows "handleData (protocol_codec check_schema limit d0) i chunk c =
    put_decoder d' (handle_messages (map read_server_message vs) c)"
proof -
  have "receive_chunk (protocol_codec check_schema limit d0) d chunk c =
      handle_messages (map read_server_message vs) (put_decoder d' c)"
    using assms(2) by (simp add: receive_chunk_def protocol_codec_def put_decoder_def map_error_def)
  with assms(1) show ?thesis
    by (auto simp: receiving_def handleData_def put_decoder_messages split: lifecycle.splits)
qed

lemma handleData_stream:
  assumes "receiving i d c \<or> lifecycle c = Disconnected" and "feed_all (push_server check_schema) d cs = (Inr vs, d')"
  shows "fold (handleData (protocol_codec check_schema limit d0) i) cs c =
    put_decoder d' (handle_messages (map read_server_message vs) c)"
  using assms
proof (induction cs arbitrary: c d vs)
  case Nil
  then show ?case by (auto simp: receiving_def put_decoder_def split: lifecycle.splits)
next
  case (Cons chunk cs)
  from Cons.prems(2) obtain us d1 ws where p: "push_server check_schema d chunk = (Inr us, d1)"
    "feed_all (push_server check_schema) d1 cs = (Inr ws, d')" "vs = us @ ws"
    by (auto split: sum.splits prod.splits)
  show ?case
  proof (cases "lifecycle c = Disconnected")
    case True
    then have "fold (handleData codec i) xs c = c" for codec and xs
      by (induction xs) (simp_all add: handleData_def)
    from this [of _ "chunk # cs"] True show ?thesis
      by (simp add: handle_messages_disconnected put_decoder_disconnected)
  next
    case False
    define x where "x = put_decoder d1 (handle_messages (map read_server_message us) c)"
    have c: "receiving i d c" using False Cons.prems(1) by simp
    have "receiving i d1 x \<or> lifecycle x = Disconnected"
      using receiving_messages [OF c, of "map read_server_message us"]
      by (auto simp: x_def receiving_def split: lifecycle.splits)
    from Cons.IH [OF this p(2)] show ?thesis
      by (simp add: handleData_receiving [OF c p(1)] x_def [symmetric] p(3) handle_messages_append)
         (simp add: x_def put_decoder_messages)
  qed
qed

subsection \<open>The composition\<close>

text \<open>
  C13. The client sees what the server sent: when a client whose connection has a new decoder receives the frames
  of messages the server encoded, cut into any chunks, it ends as if each message had been handled by itself,
  in order, up to the state of the decoder; this includes the messages that make it disconnect.
\<close>

theorem client_handles_server_messages:
  assumes "checks_schemas check_schema" and "new_message_decoder (Some limit) = Inr d"
    and "list_all2 (\<lambda>v f. proper v \<and> encodeServerMessage check_schema v (Some limit) = Inr f) vs fs"
    and "concat chunks = concat fs" and "receiving i d c"
  shows "\<exists>d'. fold (handleData (protocol_codec check_schema limit d) i) chunks c =
    put_decoder d' (handle_messages (map (\<lambda>v. read_server_message (stored v)) vs) c)"
proof -
  have "fst (feed_all (push_server check_schema) d chunks) = Inr (map stored vs)"
    using message_stream_roundtrip [OF assms(2) _ assms(3) [unfolded encodeServerMessage_def parseServerMessage_def] assms(4)]
      checks_stored [OF assms(1)] named_once_schemas
    unfolding push_server_def parseServerMessage_def by blast
  then obtain d' where "feed_all (push_server check_schema) d chunks = (Inr (map stored vs), d')"
    by (cases "feed_all (push_server check_schema) d chunks") simp
  from handleData_stream [OF _ this] assms(5) show ?thesis by (auto simp: comp_def)
qed

definition sample_connecting :: "message_decoder client" where
  "sample_connecting = client_run (protocol_codec conforms 64 sample_decoder) [ConnectCall, TransportOpened 1 5]"

theorem client_handles_server_messages_witness:
  "\<exists>d'. handleData (protocol_codec conforms 64 sample_decoder) 1 (sample_frame sample_response) sample_connecting =
    put_decoder d' (handle_messages [read_server_message (stored sample_response)] sample_connecting)"
proof -
  have resp: "proper sample_response" "encodeServerMessage conforms sample_response (Some 64) = Inr (sample_frame sample_response)"
    by code_simp+
  have "encodeClientMessage conforms hello_value (Some 64) = Inr (sample_frame sample_request)" by code_simp
  then have c: "receiving 1 sample_decoder sample_connecting"
    by (simp add: sample_connecting_def client_run_def client_step_def connect_call_def transport_opened_def protocol_codec_def
        new_client_def handleConnectionStateChange_def notifyConnectionStateListeners_def emit_effect_def Let_def receiving_def)
  have "checks_schemas conforms" by (simp add: checks_schemas_def)
  from client_handles_server_messages [OF this sample_decoder _ _ c, of "[sample_response]" "[sample_frame sample_response]"
      "[sample_frame sample_response]"] resp show ?thesis by simp
qed

end
