(* ===== verification/CborReference.thy ===== *)
theory CborReference
  imports Codec
begin

text \<open>
  What the CBOR encoder of \<^verbatim>\<open>pi/packages/protocol/src/cbor.ts\<close> accepts and writes. \<open>cbor_bytes\<close> is the encoding of a
  value as one expression, without a buffer, a cursor or errors; \<open>encodable\<close> says which values have one under given
  limits. The encoder, which writes into a buffer that grows, is shown to be this function.
\<close>

subsection \<open>The encoding of a value\<close>

definition text_bytes :: "js_string \<Rightarrow> byte list" where
  "text_bytes s = argument_bytes 3 (length (text_encode s)) @ text_encode s"

definition number_bytes :: "js_number \<Rightarrow> byte list" where
  "number_bytes n = (case n of
     Integral i \<Rightarrow> if 0 \<le> i then argument_bytes 0 (nat i) else argument_bytes 1 (nat (-1 - i))
   | NegativeZero \<Rightarrow> 0xfb # be_bytes64 negative_zero_bits
   | Fractional bits \<Rightarrow> 0xfb # be_bytes64 bits
   | NonFinite \<Rightarrow> [])"

fun cbor_bytes :: "js_value \<Rightarrow> byte list" where
  "cbor_bytes JNull = [0xf6]"
| "cbor_bytes (JBool b) = [if b then 0xf5 else 0xf4]"
| "cbor_bytes (JNumber n) = number_bytes n"
| "cbor_bytes (JString s) = text_bytes s"
| "cbor_bytes (JBytes bs) = argument_bytes 2 (length bs) @ bs"
| "cbor_bytes (JArray vs) = argument_bytes 4 (length vs) @ concat (map cbor_bytes vs)"
| "cbor_bytes (JObject shape es) =
     argument_bytes 5 (length (defined_entries es)) @ concat (map (\<lambda>(k, v). text_bytes k @ cbor_bytes v) (defined_entries es))"
| "cbor_bytes v = []"

definition encodable_text :: "resolved_options \<Rightarrow> js_string \<Rightarrow> bool" where
  "encodable_text r s \<longleftrightarrow> well_formed s \<and> length (text_encode s) \<le> maxByteLength r"

definition encodable_number :: "js_number \<Rightarrow> bool" where
  "encodable_number n \<longleftrightarrow> (case n of NonFinite \<Rightarrow> False | Integral i \<Rightarrow> is_safe_integer i | _ \<Rightarrow> True)"

fun encodable :: "resolved_options \<Rightarrow> nat \<Rightarrow> js_value \<Rightarrow> bool" where
  "encodable r d JNull \<longleftrightarrow> d \<le> maxDepth r"
| "encodable r d (JBool b) \<longleftrightarrow> d \<le> maxDepth r"
| "encodable r d (JNumber n) \<longleftrightarrow> d \<le> maxDepth r \<and> encodable_number n"
| "encodable r d (JString s) \<longleftrightarrow> d \<le> maxDepth r \<and> encodable_text r s"
| "encodable r d (JBytes bs) \<longleftrightarrow> d \<le> maxDepth r \<and> length bs \<le> maxByteLength r"
| "encodable r d (JArray vs) \<longleftrightarrow> d \<le> maxDepth r \<and> length vs \<le> maxContainerLength r \<and> list_all (encodable r (d + 1)) vs"
| "encodable r d (JObject shape es) \<longleftrightarrow> d \<le> maxDepth r \<and> shape \<noteq> SymbolKeyed \<and>
     length (defined_entries es) \<le> maxContainerLength r \<and>
     list_all (\<lambda>(k, v). encodable_text r k \<and> encodable r (d + 1) v) (defined_entries es)"
| "encodable r d JUndefined \<longleftrightarrow> False"
| "encodable r d JBackref \<longleftrightarrow> False"
| "encodable r d JUnsupported \<longleftrightarrow> False"

subsection \<open>The encoder writes it\<close>

definition writes :: "cbor_writer \<Rightarrow> bool \<Rightarrow> byte list \<Rightarrow> cbor_error + cbor_writer \<Rightarrow> bool" where
  "writes w ok bs r \<longleftrightarrow> (if ok then appends w bs r else \<exists>e. r = Inl e)"

lemma writes_appends: "appends w bs r \<Longrightarrow> writes w True bs r"
  by (simp add: writes_def)

lemma writes_fails [simp]: "writes w False bs (Inl e)"
  by (simp add: writes_def)

lemma writes_andThen:
  assumes "writes w ok bs r" and "\<And>w'. writer_ok w' \<Longrightarrow> writes w' ok' cs (f w')"
  shows "writes w (ok \<and> ok') (bs @ cs) (andThen r f)"
proof (cases ok)
  case False
  with assms(1) show ?thesis by (auto simp: writes_def)
next
  case True
  with assms(1) have a: "appends w bs r" by (simp add: writes_def)
  show ?thesis
  proof (cases ok')
    case True
    with \<open>ok\<close> appends_andThen [OF a] assms(2) show ?thesis by (simp add: writes_def)
  next
    case False
    have "\<exists>e. andThen r f = Inl e"
    proof (cases r)
      case (Inr w')
      with a have "writer_ok w'" by (auto simp: appends_def split: if_splits)
      with assms(2) [of w'] False Inr show ?thesis by (simp add: writes_def)
    qed simp
    with False show ?thesis by (simp add: writes_def)
  qed
qed

lemma writes_text: "writer_ok w \<Longrightarrow> writes w (encodable_text r s) (text_bytes s) (encodeText w s r)"
  by (auto simp: writes_def encodable_text_def text_bytes_def encodeText_def Let_def text_roundtrip_iff
      intro: appends_andThen appends_writeArgument appends_writeBytes)

lemma writes_number: "writer_ok w \<Longrightarrow> writes w (encodable_number n) (number_bytes n) (encode_number w n)"
  by (auto simp: writes_def encodable_number_def number_bytes_def encode_number_def
      intro: appends_writeArgument appends_writeFloat64 split: js_number.split)

lemma defined_entries_simps [simp]:
  "defined_entries [] = []" "defined_entries ((k, v) # es) = (if v = JUndefined then [] else [(k, v)]) @ defined_entries es"
  by (simp_all add: defined_entries_def)

lemma writes_value:
  "writer_ok w \<Longrightarrow> writes w (encodable r d v) (cbor_bytes v) (encode_value r w v d)"
  "writer_ok w \<Longrightarrow> writes w (list_all (encodable r d) vs) (concat (map cbor_bytes vs)) (encode_items r w vs d)"
  "writer_ok w \<Longrightarrow> writes w (list_all (\<lambda>(k, v). encodable_text r k \<and> encodable r d v) (defined_entries es))
     (concat (map (\<lambda>(k, v). text_bytes k @ cbor_bytes v) (defined_entries es))) (encode_entries r w es d)"
proof (induction r w v d and r w vs d and r w es d
    rule: encode_value_encode_items_encode_entries.induct)
  case (1 r w v d)
  show ?case
  proof (cases "d \<le> maxDepth r")
    case False
    then have "\<not> encodable r d v" by (cases v) auto
    with False show ?thesis by (simp add: encode_value.simps)
  next
    case True
    then have d: "\<not> maxDepth r < d" by simp
    show ?thesis
    proof (cases v)
      case (JArray vs)
      show ?thesis
      proof (cases "length vs \<le> maxContainerLength r")
        case n: True
        have "writes w (True \<and> list_all (encodable r (d + 1)) vs) (argument_bytes 4 (length vs) @ concat (map cbor_bytes vs))
            (andThen (writeArgument w 4 (length vs)) (\<lambda>w. encode_items r w vs (d + 1)))"
          by (rule writes_andThen [OF writes_appends [OF appends_writeArgument [OF "1.prems"]]])
            (use "1.IH"(1) [OF d JArray] n in simp)
        with d n JArray show ?thesis by (simp add: encode_value.simps)
      qed (use d JArray in \<open>simp add: encode_value.simps\<close>)
    next
      case (JObject shape es)
      show ?thesis
      proof (cases "shape \<noteq> SymbolKeyed \<and> length (defined_entries es) \<le> maxContainerLength r")
        case n: True
        have "writes w (True \<and> list_all (\<lambda>(k, v). encodable_text r k \<and> encodable r (d + 1) v) (defined_entries es))
            (argument_bytes 5 (length (defined_entries es)) @ concat (map (\<lambda>(k, v). text_bytes k @ cbor_bytes v) (defined_entries es)))
            (andThen (writeArgument w 5 (length (defined_entries es))) (\<lambda>w. encode_entries r w es (d + 1)))"
          by (rule writes_andThen [OF writes_appends [OF appends_writeArgument [OF "1.prems"]]])
            (use "1.IH"(2) [OF d JObject _ refl] n in simp)
        with d n JObject show ?thesis by (simp add: encode_value.simps)
      qed (use d JObject in \<open>auto simp: encode_value.simps\<close>)
    next
      case (JBytes bs)
      have "writes w (True \<and> True) (argument_bytes 2 (length bs) @ bs) (andThen (writeArgument w 2 (length bs)) (\<lambda>w. writeBytes w bs))"
        by (intro writes_andThen writes_appends appends_writeArgument appends_writeBytes "1.prems")
      with d JBytes show ?thesis by (simp add: encode_value.simps)
    next
      case (JBool b)
      with d writes_appends [OF appends_writeByte [OF "1.prems", of "if b then 0xf5 else 0xf4"]] show ?thesis
        by (simp add: encode_value.simps split: if_splits)
    next
      case JNull
      with d writes_appends [OF appends_writeByte [OF "1.prems", of "0xf6"]] show ?thesis by (simp add: encode_value.simps)
    qed (use d writes_text [OF "1.prems"] writes_number [OF "1.prems"] in \<open>simp_all add: encode_value.simps\<close>)
  qed
next
  case (2 r w d)
  then show ?case by (auto simp: writes_def appends_def writer_ok_def)
next
  case (3 r w v vs d)
  show ?case
  proof (cases "v = JUndefined")
    case False
    with writes_andThen [OF "3.IH"(1) [OF False "3.prems"] "3.IH"(2) [OF False]] show ?thesis by simp
  qed simp
next
  case (4 r w d)
  then show ?case by (auto simp: writes_def appends_def writer_ok_def)
next
  case (5 r w k v es d)
  show ?case
  proof (cases "v = JUndefined")
    case True
    with 5 show ?thesis by simp
  next
    case False
    with writes_andThen [OF writes_text [OF "5.prems"] writes_andThen [OF "5.IH"(2) [OF False] "5.IH"(3) [OF False]]]
    show ?thesis by simp
  qed
qed

lemma encodeCbor_reference:
  "encodeCbor v options = Inr bs \<longleftrightarrow>
    (\<exists>r. resolveOptions options = Inr r \<and> encodable r 0 v \<and> bs = cbor_bytes v \<and> length bs \<le> maxByteLength r)"
proof -
  have "writes (new_writer (maxByteLength r)) (encodable r 0 v) (cbor_bytes v) (encode_value r (new_writer (maxByteLength r)) v 0)" for r
    by (rule writes_value(1) [OF new_writer_ok(1)])
  then have W: "if encodable r 0 v then appends (new_writer (maxByteLength r)) (cbor_bytes v) (encode_value r (new_writer (maxByteLength r)) v 0)
      else \<exists>e. encode_value r (new_writer (maxByteLength r)) v 0 = Inl e" for r by (simp add: writes_def)
  have w: "encode_value r (new_writer (maxByteLength r)) v 0 = Inr w' \<Longrightarrow>
      encodable r 0 v \<and> finish w' = cbor_bytes v \<and> length (cbor_bytes v) \<le> maxByteLength r"
    "encodable r 0 v \<Longrightarrow> length (cbor_bytes v) \<le> maxByteLength r \<Longrightarrow>
      \<exists>w'. encode_value r (new_writer (maxByteLength r)) v 0 = Inr w' \<and> finish w' = cbor_bytes v" for r w'
    using W [of r] by (auto simp: appends_def new_writer_ok split: if_splits)
  show ?thesis
  proof (cases "resolveOptions options")
    case (Inr r)
    then have e: "encodeCbor v options = andThen (encode_value r (new_writer (maxByteLength r)) v 0) (\<lambda>w. Inr (finish w))"
      by (simp add: encodeCbor_def)
    show ?thesis using w [of r] by (auto simp: e Inr andThen_eq_Inr)
  qed (simp add: encodeCbor_def)
qed

text \<open>
  C18. The encoder computes a pure function: under any options it answers with bytes exactly when the value is
  encodable within the resolved limits and its encoding is no longer than the byte limit, and then it answers
  with that encoding. In every other case it answers with an error; nothing encodable is refused.
\<close>

theorem encodeCbor_is_reference:
  "encodeCbor v options = Inr bs \<longleftrightarrow>
    (\<exists>r. resolveOptions options = Inr r \<and> encodable r 0 v \<and> bs = cbor_bytes v \<and> length bs \<le> maxByteLength r)"
  by (rule encodeCbor_reference)

text \<open>A message that passes validation and fits is encoded, as one frame around its reference encoding.\<close>

definition message_options :: "nat \<Rightarrow> resolved_options" where
  "message_options limit = \<lparr>maxByteLength = limit, maxContainerLength = nat DEFAULT_MAX_CBOR_CONTAINER_LENGTH,
     maxDepth = nat DEFAULT_MAX_CBOR_DEPTH\<rparr>"

lemma message_encodes:
  assumes "isProtocolValue False v" and "check v" and "encodable (message_options limit) 0 v"
    and "length (cbor_bytes v) \<le> limit" and "0 < limit" and "limit \<le> MAX_UINT32"
  shows "encodeProtocolMessage v (parse_message check) (Some (int limit)) =
    Inr (be_bytes32 (length (cbor_bytes v)) @ cbor_bytes v)"
proof -
  have r: "resolveOptions (byte_limit (int limit)) = Inr (message_options limit)"
    using assms(6) by (simp add: resolveOptions_def byte_limit_def or_default_def resolveLimit_def message_options_def MAX_UINT32_def
        CBOR_MAX_UINT32_def DEFAULT_MAX_CBOR_CONTAINER_LENGTH_def DEFAULT_MAX_CBOR_DEPTH_def MAX_CONFIGURED_DEPTH_def)
  then have e: "encodeCbor v (byte_limit (int limit)) = Inr (cbor_bytes v)"
    using assms(3,4) by (simp add: encodeCbor_reference message_options_def)
  have f: "encodeFrame (cbor_bytes v) = Inr (be_bytes32 (length (cbor_bytes v)) @ cbor_bytes v)"
    using assms(4,6) by (simp add: encodeFrame_def)
  have "be_value32 (be_bytes32 (length (cbor_bytes v)) @ cbor_bytes v) = length (cbor_bytes v)"
    using assms(4,6) by (simp add: MAX_UINT32_def)
  then have a: "assertCompleteFrame (be_bytes32 (length (cbor_bytes v)) @ cbor_bytes v) (Some (int limit)) = Inr ()"
    using assms(4-6) by (simp add: assertCompleteFrame_def FRAME_HEADER_LENGTH_def resolveMaxFrameLength_def or_default_def Let_def)
  show ?thesis
    using assms(1,2) e f a by (simp add: encodeProtocolMessage_def parse_message_def or_default_def Let_def)
qed

subsection \<open>A bound for the size\<close>

fun cbor_bound :: "js_value \<Rightarrow> nat" where
  "cbor_bound (JString s) = 9 + 3 * length s"
| "cbor_bound (JBytes bs) = 9 + length bs"
| "cbor_bound (JArray vs) = 9 + sum_list (map cbor_bound vs)"
| "cbor_bound (JObject shape es) = 9 + sum_list (map (\<lambda>(k, v). 9 + 3 * length k + cbor_bound v) (defined_entries es))"
| "cbor_bound v = 9"

lemma text_encode_length: "length (text_encode s) \<le> 3 * length s"
proof -
  have "length (concat (map utf8_bytes (code_points s))) \<le> 3 * length s"
  proof (induction s rule: code_points.induct)
    case (3 u v us)
    have "unat u < 0x10000" using unsigned_less [of u] by simp
    with 3 show ?case by (auto simp: utf8_bytes_def)
  next
    case (2 u)
    have "unat u < 0x10000" using unsigned_less [of u] by simp
    then show ?case by (auto simp: utf8_bytes_def)
  qed simp
  then show ?thesis by (simp add: text_encode_def)
qed

lemma argument_bytes_length: "length (argument_bytes m v) \<le> 9"
  by (simp add: argument_bytes_def be_bytes32_def Let_def)

lemma text_bytes_length: "length (text_bytes s) \<le> 9 + 3 * length s"
  using argument_bytes_length [of 3 "length (text_encode s)"] text_encode_length [of s] by (simp add: text_bytes_def)

lemma cbor_bound: "length (cbor_bytes v) \<le> cbor_bound v"
proof (induction v rule: cbor_bytes.induct)
  case (3 n)
  show ?case using argument_bytes_length by (simp add: number_bytes_def split: js_number.split)
next
  case (4 s)
  show ?case using text_bytes_length by simp
next
  case (5 bs)
  show ?case using argument_bytes_length [of 2 "length bs"] by simp
next
  case (6 vs)
  have "length (concat (map cbor_bytes vs)) \<le> sum_list (map cbor_bound vs)"
    using 6 by (induction vs) (auto intro: add_mono)
  then show ?case using argument_bytes_length [of 4 "length vs"] by simp
next
  case (7 shape es)
  have "length (concat (map (\<lambda>(k, v). text_bytes k @ cbor_bytes v) ds)) \<le> sum_list (map (\<lambda>(k, v). 9 + 3 * length k + cbor_bound v) ds)"
    if "\<And>k v. (k, v) \<in> set ds \<Longrightarrow> length (cbor_bytes v) \<le> cbor_bound v" for ds
    using that
  proof (induction ds)
    case (Cons d ds)
    obtain k v where d: "d = (k, v)" by fastforce
    have "length (concat (map (\<lambda>(k, v). text_bytes k @ cbor_bytes v) ds)) \<le> sum_list (map (\<lambda>(k, v). 9 + 3 * length k + cbor_bound v) ds)"
      using Cons by auto
    moreover have "length (cbor_bytes v) \<le> cbor_bound v" using Cons.prems [of k v] d by simp
    ultimately show ?case using text_bytes_length [of k] by (simp add: d)
  qed simp
  from this [of "defined_entries es"] 7 show ?case
    using argument_bytes_length [of 5 "length (defined_entries es)"] by fastforce
qed simp_all

lemma unit_not_surrogate: "\<not> high_surrogate (of_nat (of_char c))" "\<not> low_surrogate (of_nat (of_char c))"
proof -
  have c: "(of_char c :: nat) < 256" by simp
  have "unat (of_nat (of_char c) :: u16) = of_char c"
    using less_trans [OF c, of 65536] by (simp add: unat_of_nat)
  with c have "unat (of_nat (of_char c) :: u16) < 256" by (simp only:)
  then show "\<not> high_surrogate (of_nat (of_char c))" "\<not> low_surrogate (of_nat (of_char c))"
    unfolding high_surrogate_def low_surrogate_def by linarith+
qed

lemma well_formed_units [simp]: "well_formed (units s)"
  unfolding units_def by (induction s rule: induct_list012) (simp_all add: unit_not_surrogate)

lemma encodable_units: "3 * length s \<le> maxByteLength r \<Longrightarrow> encodable_text r (units s)"
  using text_encode_length [of "units s"] by (simp add: encodable_text_def units_def [of s] well_formed_units [unfolded units_def])

end
