(* ===== verification/Server.thy ===== *)
theory Server
  imports ClientState ServerProtocol
begin

text \<open>
  The session server: \<^verbatim>\<open>pi/packages/server/src/server.ts\<close>, \<^verbatim>\<open>sessions.ts\<close>, \<^verbatim>\<open>snapshots.ts\<close>, \<^verbatim>\<open>connection.ts\<close> and
  \<^verbatim>\<open>errors.ts\<close>.

  The server is one thread that runs many asynchronous functions. A call of one is a \<open>task\<close>: it holds the place
  where the function waits and the locals it still needs. A step takes one event, something from outside or the
  continuation of a task, and runs the code up to the next \<^verbatim>\<open>await\<close>; any waiting task may be next. The order in
  which the runtime of JavaScript takes them is one of these orders.

  Objects are named by their place in a list: connections, live sessions and tasks. A runtime is named by
  the task that acquired it. What the service and its runtimes answer comes with the event. \<open>effects\<close> is what the
  server does outside: frames, calls of the service and reports.
\<close>

subsection \<open>Messages\<close>

datatype client_message = ClientHello js_number | ClientRequest js_string command

definition read_command :: "js_value \<Rightarrow> command" where
  "read_command v = (let name = text_member ''command'' v; i = text_member ''sessionId'' v in
     if name = units ''list'' then ListCommand
     else if name = units ''create'' then CreateCommand (map (\<lambda>k. (units k, member k v)) [''cwd'', ''name'', ''model'', ''thinkingLevel''])
     else if name = units ''attach'' then AttachCommand i
     else if name = units ''detach'' then DetachCommand i
     else if name = units ''prompt'' then PromptCommand i (text_member ''text'' v)
     else if name = units ''steer'' then SteerCommand i (text_member ''text'' v)
     else if name = units ''abort'' then AbortCommand i
     else if name = units ''set_model'' then SetModelCommand i (member ''model'' v)
     else SetThinkingCommand i (text_member ''thinkingLevel'' v))"

definition read_client_message :: "js_value \<Rightarrow> client_message" where
  "read_client_message v =
     (if text_member ''type'' v = units ''hello''
      then ClientHello (case member ''version'' v of JNumber n \<Rightarrow> n | _ \<Rightarrow> Integral 0)
      else ClientRequest (text_member ''id'' v) (read_command (member ''request'' v)))"

datatype server_error =
    ServiceError string string "js_value option"          \<comment> \<open>\<^verbatim>\<open>PiServerError\<close>: code, message, details\<close>
  | InternalServerError                                 \<comment> \<open>its cause is reported\<close>
  | ValidationError codec_error                         \<comment> \<open>\<^verbatim>\<open>ProtocolValidationError\<close>\<close>
  | OtherError string

datatype error_text = FixedText string | TextOf codec_error

record protocol_error =
  pe_code :: string
  pe_text :: error_text
  pe_details :: "js_value option"

definition INTERNAL_SERVER_ERROR_MESSAGE :: string where
  "INTERNAL_SERVER_ERROR_MESSAGE = ''Internal server error''"

definition NOT_IMPLEMENTED_MESSAGE :: string where
  "NOT_IMPLEMENTED_MESSAGE = ''Operation is not implemented''"

definition protocol_error_of :: "string \<Rightarrow> string \<Rightarrow> protocol_error" where
  "protocol_error_of code message = \<lparr>pe_code = code, pe_text = FixedText message, pe_details = None\<rparr>"

text \<open>The error for the client, and whether the server reports one itself.\<close>

definition toProtocolError :: "server_error \<Rightarrow> protocol_error \<times> bool" where
  "toProtocolError e = (case e of
     InternalServerError \<Rightarrow> (protocol_error_of ''internal_error'' INTERNAL_SERVER_ERROR_MESSAGE, True)
   | ServiceError code message details \<Rightarrow>
       if code = ''not_implemented'' then (protocol_error_of ''not_implemented'' NOT_IMPLEMENTED_MESSAGE, False)
       else (\<lparr>pe_code = code, pe_text = FixedText message, pe_details = details\<rparr>, False)
   | ValidationError c \<Rightarrow> (\<lparr>pe_code = ''invalid_request'', pe_text = TextOf c, pe_details = None\<rparr>, False)
   | OtherError m \<Rightarrow> (protocol_error_of ''internal_error'' INTERNAL_SERVER_ERROR_MESSAGE, True))"

datatype out_result = OutList "js_value list" | OutDetach sid | OutSession js_string js_value

datatype out_event = OutServerSnapshot js_value | OutSessionSnapshot js_value | OutProgress sid js_value

datatype out_message =
    OutHello js_string js_value                          \<comment> \<open>connection id, snapshot\<close>
  | OutHelloError protocol_error
  | OutResponse js_string "protocol_error + out_result"
  | OutEvent out_event

text \<open>\<open>texts\<close> gives the message of an error of the codec.\<close>

definition object_value :: "(string \<times> js_value) list \<Rightarrow> js_value" where
  "object_value es = JObject Ordinary (map (\<lambda>(k, v). (units k, v)) es)"

definition error_value :: "(codec_error \<Rightarrow> js_string) \<Rightarrow> protocol_error \<Rightarrow> js_value" where
  "error_value texts e = object_value
     ([(''code'', JString (units (pe_code e))),
       (''message'', JString (case pe_text e of FixedText t \<Rightarrow> units t | TextOf c \<Rightarrow> texts c))] @
      (case pe_details e of None \<Rightarrow> [] | Some d \<Rightarrow> [(''details'', d)]))"

fun result_value :: "out_result \<Rightarrow> js_value" where
  "result_value (OutList sessions) = object_value [(''command'', JString (units ''list'')), (''sessions'', JArray sessions)]"
| "result_value (OutDetach i) = object_value [(''command'', JString (units ''detach'')), (''sessionId'', JString i)]"
| "result_value (OutSession name session) = object_value [(''command'', JString name), (''session'', session)]"

fun event_value :: "out_event \<Rightarrow> js_value" where
  "event_value (OutServerSnapshot v) = object_value [(''type'', JString (units ''server_snapshot'')), (''snapshot'', v)]"
| "event_value (OutSessionSnapshot v) = object_value [(''type'', JString (units ''session_snapshot'')), (''snapshot'', v)]"
| "event_value (OutProgress i v) = object_value [(''type'', JString (units ''session_progress'')), (''sessionId'', JString i), (''progress'', v)]"

fun server_value :: "(codec_error \<Rightarrow> js_string) \<Rightarrow> out_message \<Rightarrow> js_value" where
  "server_value texts (OutHello i snapshot) = object_value
     [(''type'', JString (units ''hello'')), (''version'', JNumber (Integral PROTOCOL_VERSION)), (''connectionId'', JString i), (''snapshot'', snapshot)]"
| "server_value texts (OutHelloError e) = object_value [(''type'', JString (units ''hello_error'')), (''error'', error_value texts e)]"
| "server_value texts (OutResponse i outcome) = object_value
     ([(''type'', JString (units ''response'')), (''id'', JString i)] @
      (case outcome of Inl e \<Rightarrow> [(''ok'', JBool False), (''error'', error_value texts e)]
       | Inr r \<Rightarrow> [(''ok'', JBool True), (''result'', result_value r)]))"
| "server_value texts (OutEvent e) = object_value [(''type'', JString (units ''event'')), (''event'', event_value e)]"

subsection \<open>State\<close>

datatype stage = AwaitingHello | Handshaking | Ready | Closing | Closed

record connection =
  con_id :: js_string
  con_decoder :: message_decoder
  con_sessions :: "sid list"
  con_stage :: stage
  con_disconnected :: bool
  con_closed :: bool                                     \<comment> \<open>the flag of the transport\<close>
  con_handshakeComplete :: bool
  con_handshake :: "nat option"                          \<comment> \<open>task\<close>
  con_waiting :: "(js_string \<times> command) list"           \<comment> \<open>requests that wait for the handshake\<close>
  con_timer :: bool

definition isTerminalConnection :: "connection \<Rightarrow> bool" where
  "isTerminalConnection c \<longleftrightarrow> con_disconnected c \<or> con_stage c = Closing \<or> con_stage c = Closed"

datatype disposal = NotDisposing | DisposePending | DisposeSettled "server_error option"

record live_session =
  live_id :: sid
  live_runtime :: nat
  live_connections :: "nat list"
  live_subscribed :: bool
  operationCount :: nat
  live_ready :: bool
  live_terminal :: bool
  live_disposing :: disposal

datatype opening_call = CreateSession "(js_string \<times> js_value) list" | OpenSession

datatype wait = NoWait | WaitLive nat | WaitTask nat

datatype snap_pc = SnapCalled | SnapNormal js_value | SnapSent js_value

datatype list_pc = StoredCalled | LiveCalled "js_value list" "(nat \<times> js_value option) list"

datatype get_pc = GetList list_pc | GetModels "js_value list" | GetDone "js_value list" "js_value list"

datatype request_pc =
    AcquireDisposing opening_call sid nat                \<comment> \<open>waits for the disposal of a live session\<close>
  | AcquireOpening opening_call sid nat bool             \<comment> \<open>waits for an opening task, its own or not\<close>
  | AcquireDone nat
  | AttachRefused wait
  | AttachDone nat
  | AttachSnapshot nat snap_pc
  | OperationCalled nat
  | OperationSnapshot nat snap_pc
  | DetachSnapshot nat snap_pc
  | DetachDispose wait sid
  | Listing list_pc
  | Responding "server_error + out_result"

datatype handshake_pc = HelloGet nat get_pc | HelloSent nat | HelloRefresh nat get_pc | HelloRefreshed

datatype create_pc = CreateCalled opening_call | CreateLate | CreateSnapshot | CreateCleanup server_error

datatype broadcast_pc = BroadcastModels nat "nat list" | BroadcastList nat "nat list" "js_value list" list_pc
  | BroadcastSend js_value "nat list"

datatype terminate_pc = TerminateClose "nat list" | TerminateDisconnect "wait list" | TerminateDispose wait

datatype close_pc = CloseListeners | CloseConnections "nat list" | CloseDisconnect "wait list"
  | CloseOpening "nat list" | CloseRuntimes

datatype task =
    TaskDone
  | TaskFailed server_error
  | TaskOpened nat                                       \<comment> \<open>live session\<close>
  | Handshake nat handshake_pc
  | Request nat js_string js_string request_pc           \<comment> \<open>connection, request id, command\<close>
  | Create sid create_pc
  | DisposeRuntime nat
  | NotifyDisposed nat
  | ReportFailure wait
  | RuntimeSnapshot nat snap_pc
  | ClosingConnection nat
  | Disconnecting "wait list" bool
  | Terminate nat terminate_pc
  | Broadcast broadcast_pc
  | ClosingServer close_pc

datatype out_effect =
    Sends nat out_message "byte list"
  | Closes nat "out_message option"
  | Opens sid nat opening_call                           \<comment> \<open>session, runtime\<close>
  | Subscribes nat
  | Unsubscribes nat
  | Disposes nat                                         \<comment> \<open>runtime\<close>
  | Released sid                                         \<comment> \<open>no runtime of this opening is left\<close>
  | Executes nat js_string command
  | Operates nat command                                 \<comment> \<open>runtime\<close>
  | RefusesConnection
  | Reports server_error

record server =
  connections :: "connection list"
  lives :: "live_session list"
  liveSessions :: "(sid, nat) js_map"
  openingSessions :: "(sid, nat) js_map"
  tasks :: "task list"
  phases :: "nat \<Rightarrow> js_string"                            \<comment> \<open>of the runtimes\<close>
  closing :: bool
  revision :: nat
  broadcastQueue :: nat
  broadcasting :: bool
  uuids :: nat
  out :: "out_effect list"

record server_config =
  cfg_check :: schema_checker
  cfg_maxFrameLength :: int
  cfg_serverId :: js_string
  cfg_decoder :: message_decoder
  cfg_uuid :: "nat \<Rightarrow> js_string"
  cfg_texts :: "codec_error \<Rightarrow> js_string"

definition new_server :: server where
  "new_server = \<lparr>connections = [], lives = [], liveSessions = [], openingSessions = [], tasks = [],
     phases = (\<lambda>r. units ''idle''), closing = False, revision = 0, broadcastQueue = 0, broadcasting = False, uuids = 0, out = []\<rparr>"

definition emit_out :: "out_effect \<Rightarrow> server \<Rightarrow> server" where
  "emit_out x s = s\<lparr>out := out s @ [x]\<rparr>"

definition change_connection :: "nat \<Rightarrow> (connection \<Rightarrow> connection) \<Rightarrow> server \<Rightarrow> server" where
  "change_connection c f s = s\<lparr>connections := (connections s)[c := f (connections s ! c)]\<rparr>"

definition change_live :: "nat \<Rightarrow> (live_session \<Rightarrow> live_session) \<Rightarrow> server \<Rightarrow> server" where
  "change_live r f s = s\<lparr>lives := (lives s)[r := f (lives s ! r)]\<rparr>"

definition set_task :: "nat \<Rightarrow> task \<Rightarrow> server \<Rightarrow> server" where
  "set_task t x s = s\<lparr>tasks := (tasks s)[t := x]\<rparr>"

definition spawn :: "task \<Rightarrow> server \<Rightarrow> server" where
  "spawn x s = s\<lparr>tasks := tasks s @ [x]\<rparr>"

definition reportError :: "server_error \<Rightarrow> server \<Rightarrow> server" where
  "reportError e s = emit_out (Reports e) s"

text \<open>\<^verbatim>\<open>snapshots.broadcast\<close>: one more broadcast in the queue.\<close>

definition queue_broadcast :: "server \<Rightarrow> server" where
  "queue_broadcast s = s\<lparr>broadcastQueue := broadcastQueue s + 1\<rparr>"

subsection \<open>Snapshots\<close>

text \<open>An object literal that spreads \<open>v\<close> and then gives members.\<close>

definition override :: "js_value \<Rightarrow> (string \<times> js_value) list \<Rightarrow> js_value" where
  "override v es = JObject Ordinary (fold (\<lambda>(k, w). AList.update (units k) w) es (case v of JObject shape vs \<Rightarrow> vs | _ \<Rightarrow> []))"

definition normalizedSnapshot :: "nat \<Rightarrow> js_value \<Rightarrow> server \<Rightarrow> server_error + js_value" where
  "normalizedSnapshot r v s = (let l = lives s ! r in
     if member ''id'' v \<noteq> JString (live_id l) then Inl (ServiceError ''invalid_request'' ''Runtime session ID changed'' None)
     else Inr (override v [(''phase'', JString (phases s (live_runtime l))),
       (''attached'', JBool (live_connections l \<noteq> [])), (''locked'', JBool True)]))"

definition forConnection :: "js_value \<Rightarrow> nat \<Rightarrow> server \<Rightarrow> js_value" where
  "forConnection v c s = override v [(''attached'', JBool (text_member ''id'' v \<in> set (con_sessions (connections s ! c))))]"

definition toMetadata :: "js_value \<Rightarrow> (string \<times> js_value) list" where
  "toMetadata v = [(''id'', member ''id'' v), (''createdAt'', member ''createdAt'' v), (''updatedAt'', member ''updatedAt'' v),
     (''sessionName'', member ''name'' v), (''cwd'', member ''cwd'' v)]"

text \<open>The stored sessions with what their live snapshots say, then the live sessions that are not stored.\<close>

fun merge_metadata :: "js_value list \<Rightarrow> (sid, js_value) js_map \<Rightarrow> js_value list" where
  "merge_metadata [] live = map (\<lambda>(i, v). object_value (toMetadata v)) live"
| "merge_metadata (x # xs) live = (case map_of live (text_member ''id'' x) of
     None \<Rightarrow> x # merge_metadata xs live
   | Some v \<Rightarrow> override x (toMetadata v) # merge_metadata xs (AList.delete (text_member ''id'' x) live))"

text \<open>What answers a call.\<close>

datatype answer = Continue | Fails server_error | Gives js_value | GivesList "js_value list" | GivesAt nat js_value

definition list_done :: "list_pc \<Rightarrow> bool" where
  "list_done pc \<longleftrightarrow> (case pc of StoredCalled \<Rightarrow> False | LiveCalled vs xs \<Rightarrow> list_all (\<lambda>(r, v). v \<noteq> None) xs)"

definition list_result :: "list_pc \<Rightarrow> server \<Rightarrow> js_value list" where
  "list_result pc s = (case pc of StoredCalled \<Rightarrow> []
     | LiveCalled vs xs \<Rightarrow> merge_metadata vs (map (\<lambda>(r, v). (live_id (lives s ! r), the v)) xs))"

definition list_advance :: "list_pc \<Rightarrow> answer \<Rightarrow> server \<Rightarrow> (server_error + list_pc) option" where
  "list_advance pc a s = (case pc of
     StoredCalled \<Rightarrow> (case a of
         Fails e \<Rightarrow> Some (Inl e)
       | GivesList vs \<Rightarrow> Some (Inr (LiveCalled vs
           (map (\<lambda>(i, r). (r, None)) (filter (\<lambda>(i, r). live_disposing (lives s ! r) = NotDisposing) (liveSessions s)))))
       | _ \<Rightarrow> None)
   | LiveCalled vs xs \<Rightarrow> (case a of
         Fails e \<Rightarrow> if list_done pc then None else Some (Inl e)
       | GivesAt r v \<Rightarrow> if map_of xs r \<noteq> Some None then None
           else (case normalizedSnapshot r v s of Inl e \<Rightarrow> Some (Inl e)
             | Inr n \<Rightarrow> Some (Inr (LiveCalled vs (AList.update r (Some n) xs))))
       | _ \<Rightarrow> None))"

text \<open>\<^verbatim>\<open>ServerSnapshotPublisher.get\<close>; the caller keeps the revision it read.\<close>

definition get_advance :: "get_pc \<Rightarrow> answer \<Rightarrow> server \<Rightarrow> (server_error + get_pc) option" where
  "get_advance pc a s = (case pc of
     GetList l \<Rightarrow> if list_done l then (if a = Continue then Some (Inr (GetModels (list_result l s))) else None)
       else map_option (map_sum id GetList) (list_advance l a s)
   | GetModels sessions \<Rightarrow> (case a of Fails e \<Rightarrow> Some (Inl e) | GivesList ms \<Rightarrow> Some (Inr (GetDone sessions ms)) | _ \<Rightarrow> None)
   | GetDone sessions models \<Rightarrow> None)"

definition snapshot_value :: "server_config \<Rightarrow> nat \<Rightarrow> js_value list \<Rightarrow> js_value list \<Rightarrow> js_value" where
  "snapshot_value cfg n sessions models = object_value
     [(''serverId'', JString (cfg_serverId cfg)), (''protocolVersion'', JNumber (Integral PROTOCOL_VERSION)),
      (''revision'', JNumber (Integral (int n))), (''sessions'', JArray sessions), (''models'', JArray models)]"

subsection \<open>Sending, disposing and disconnecting\<close>

definition frame_of :: "server_config \<Rightarrow> out_message \<Rightarrow> codec_error + byte list" where
  "frame_of cfg m = encodeServerMessage (cfg_check cfg) (server_value (cfg_texts cfg) m) (Some (cfg_maxFrameLength cfg))"

text \<open>\<^verbatim>\<open>closeConnection\<close> followed by \<^verbatim>\<open>disconnect\<close>.\<close>

definition close_connection :: "nat \<Rightarrow> out_message option \<Rightarrow> server \<Rightarrow> server" where
  "close_connection c ending s = spawn (ClosingConnection c) (emit_out (Closes c ending) s)"

definition sendMessage :: "server_config \<Rightarrow> nat \<Rightarrow> out_message \<Rightarrow> server \<Rightarrow> bool \<times> server" where
  "sendMessage cfg c m s =
     (if con_disconnected (connections s ! c) \<or> con_closed (connections s ! c) then (False, s)
      else case frame_of cfg m of
        Inl e \<Rightarrow> (False, close_connection c None (reportError (ValidationError e) s))
      | Inr f \<Rightarrow> (True, emit_out (Sends c m f) s))"

definition send_all :: "server_config \<Rightarrow> nat list \<Rightarrow> out_message \<Rightarrow> server \<Rightarrow> server" where
  "send_all cfg cs m s = fold (\<lambda>c s. snd (sendMessage cfg c m s)) cs s"

definition unsubscribe_live :: "nat \<Rightarrow> server \<Rightarrow> server" where
  "unsubscribe_live r s = emit_out (Unsubscribes r) (change_live r (\<lambda>l. l\<lparr>live_subscribed := False\<rparr>) s)"

text \<open>The guard of \<^verbatim>\<open>maybeDispose\<close>; a reference always names a live session, which is its first conjunct.\<close>

definition disposable :: "nat \<Rightarrow> server \<Rightarrow> bool" where
  "disposable r s \<longleftrightarrow> r < length (lives s) \<and> (let l = lives s ! r in
     \<not> closing s \<and> live_ready l \<and> live_disposing l = NotDisposing \<and> live_connections l = [] \<and> operationCount l = 0 \<and>
     (live_terminal l \<or> phases s (live_runtime l) = units ''idle''))"

definition maybeDispose :: "nat \<Rightarrow> server \<Rightarrow> wait \<times> server" where
  "maybeDispose r s =
     (if \<not> disposable r s then (if live_disposing (lives s ! r) = NotDisposing then NoWait else WaitLive r, s)
      else let s = change_live r (\<lambda>l. l\<lparr>live_disposing := DisposePending\<rparr>) (unsubscribe_live r s);
             s = spawn (DisposeRuntime r) (emit_out (Disposes (live_runtime (lives s ! r))) s)
        in (WaitTask (length (tasks s)), spawn (NotifyDisposed r) s))"

definition scheduleMaybeDispose :: "nat \<Rightarrow> server \<Rightarrow> server" where
  "scheduleMaybeDispose r s = (let (w, s) = maybeDispose r s in spawn (ReportFailure w) s)"

fun maybe_dispose_all :: "nat list \<Rightarrow> server \<Rightarrow> wait list \<times> server" where
  "maybe_dispose_all [] s = ([], s)"
| "maybe_dispose_all (r # rs) s = (let (w, s) = maybeDispose r s; (ws, s) = maybe_dispose_all rs s in (w # ws, s))"

definition task_at :: "server \<Rightarrow> nat \<Rightarrow> task" where
  "task_at s t = (if t < length (tasks s) then tasks s ! t else TaskDone)"

text \<open>How the promise somebody waits for has been settled, if it is: with an error or without one.\<close>

definition wait_result :: "wait \<Rightarrow> server \<Rightarrow> server_error option option" where
  "wait_result w s = (case w of
     NoWait \<Rightarrow> Some None
   | WaitLive r \<Rightarrow> (case live_disposing (lives s ! r) of DisposeSettled e \<Rightarrow> Some e | _ \<Rightarrow> None)
   | WaitTask t \<Rightarrow> (case task_at s t of TaskDone \<Rightarrow> Some None | TaskFailed e \<Rightarrow> Some (Some e) | _ \<Rightarrow> None))"

definition drop_connection :: "nat \<Rightarrow> nat \<Rightarrow> server \<Rightarrow> server" where
  "drop_connection c r = change_live r (\<lambda>l. l\<lparr>live_connections := removeAll c (live_connections l)\<rparr>)"

definition attached_lives :: "nat \<Rightarrow> server \<Rightarrow> nat list" where
  "attached_lives c s = List.map_filter (map_of (liveSessions s)) (con_sessions (connections s ! c))"

definition disconnect :: "nat \<Rightarrow> server \<Rightarrow> wait \<times> server" where
  "disconnect c s =
     (if con_disconnected (connections s ! c) then (NoWait, s)
      else let handshaken = con_handshakeComplete (connections s ! c);
             rs = attached_lives c s;
             s = change_connection c (\<lambda>k. k\<lparr>con_disconnected := True, con_stage := Closed, con_timer := False, con_sessions := []\<rparr>) s;
             (ws, s) = maybe_dispose_all rs (fold (drop_connection c) rs s)
        in (WaitTask (length (tasks s)), spawn (Disconnecting ws handshaken) s))"

fun disconnect_all :: "nat list \<Rightarrow> server \<Rightarrow> wait list \<times> server" where
  "disconnect_all [] s = ([], s)"
| "disconnect_all (c # cs) s = (let (w, s) = disconnect c s; (ws, s) = disconnect_all cs s in (w # ws, s))"

definition failProtocol :: "server_config \<Rightarrow> nat \<Rightarrow> protocol_error \<Rightarrow> server \<Rightarrow> server" where
  "failProtocol cfg c e s =
     (if isTerminalConnection (connections s ! c) then s
      else let s = change_connection c (\<lambda>k. k\<lparr>con_stage := Closing, con_timer := False\<rparr>) s
        in case frame_of cfg (OutHelloError e) of
             Inl x \<Rightarrow> close_connection c None (reportError (ValidationError x) s)
           | Inr f \<Rightarrow> close_connection c (Some (OutHelloError e)) s)"

definition report_if :: "bool \<Rightarrow> server_error \<Rightarrow> server \<Rightarrow> server" where
  "report_if b e s = (if b then reportError e s else s)"

definition fail_with :: "server_config \<Rightarrow> nat \<Rightarrow> server_error \<Rightarrow> server \<Rightarrow> server" where
  "fail_with cfg c e s = (let (p, reported) = toProtocolError e in failProtocol cfg c p (report_if reported e s))"

definition report_failures :: "wait list \<Rightarrow> server \<Rightarrow> server" where
  "report_failures ws s = fold (\<lambda>w s'. case wait_result w s of Some (Some e) \<Rightarrow> reportError e s' | _ \<Rightarrow> s') ws s"

subsection \<open>Commands\<close>

definition locked_error :: server_error where
  "locked_error = ServiceError ''session_locked'' ''Session runtime is terminating'' None"

definition invalid_request :: "string \<Rightarrow> server_error" where
  "invalid_request m = ServiceError ''invalid_request'' m None"

text \<open>The loop of \<^verbatim>\<open>acquire\<close> up to its next \<^verbatim>\<open>await\<close>.\<close>

definition acquire :: "opening_call \<Rightarrow> sid \<Rightarrow> server \<Rightarrow> request_pc \<times> server" where
  "acquire call i s = (case map_of (liveSessions s) i of
     Some r \<Rightarrow>
       if live_terminal (lives s ! r) then (Responding (Inl locked_error), s)
       else if live_disposing (lives s ! r) \<noteq> NotDisposing then (AcquireDisposing call i r, s)
       else (AcquireDone r, s)
   | None \<Rightarrow> (case map_of (openingSessions s) i of
       Some t \<Rightarrow> (AcquireOpening call i t False, s)
     | None \<Rightarrow> let t = length (tasks s); s = spawn (Create i (CreateCalled call)) (emit_out (Opens i t call) s)
         in (AcquireOpening call i t True, s\<lparr>openingSessions := AList.update i t (openingSessions s)\<rparr>)))"

definition requireAttached :: "nat \<Rightarrow> sid \<Rightarrow> server \<Rightarrow> server_error + nat" where
  "requireAttached c i s =
     (if i \<notin> set (con_sessions (connections s ! c)) then Inl (invalid_request ''Connection is not attached to session'')
      else case map_of (liveSessions s) i of
        None \<Rightarrow> Inl (ServiceError ''not_found'' ''Session is not live'' None)
      | Some r \<Rightarrow>
          if live_terminal (lives s ! r) \<or> live_disposing (lives s ! r) \<noteq> NotDisposing
          then Inl (ServiceError ''not_found'' ''Session is not live'' None) else Inr r)"

definition start_operation :: "nat \<Rightarrow> sid \<Rightarrow> command \<Rightarrow> server \<Rightarrow> request_pc \<times> server" where
  "start_operation c i q s = (case requireAttached c i s of
     Inl e \<Rightarrow> (Responding (Inl e), s)
   | Inr r \<Rightarrow> (OperationCalled r, emit_out (Operates (live_runtime (lives s ! r)) q)
       (change_live r (\<lambda>l. l\<lparr>operationCount := operationCount l + 1\<rparr>) s)))"

definition start_detach :: "nat \<Rightarrow> sid \<Rightarrow> server \<Rightarrow> request_pc \<times> server" where
  "start_detach c i s =
     (if i \<notin> set (con_sessions (connections s ! c)) then (Responding (Inr (OutDetach i)), s)
      else let s = change_connection c (\<lambda>k. k\<lparr>con_sessions := removeAll i (con_sessions k)\<rparr>) s
        in case map_of (liveSessions s) i of
          None \<Rightarrow> (Responding (Inr (OutDetach i)), queue_broadcast s)
        | Some r \<Rightarrow> let s = drop_connection c r s; l = lives s ! r in
            if live_connections l \<noteq> [] \<and> \<not> live_terminal l \<and> live_disposing l = NotDisposing
            then (DetachSnapshot r SnapCalled, s)
            else let (w, s) = maybeDispose r s in (DetachDispose w i, s))"

text \<open>\<^verbatim>\<open>executeCommand\<close> up to its first \<^verbatim>\<open>await\<close>.\<close>

definition start_command :: "server_config \<Rightarrow> nat \<Rightarrow> command \<Rightarrow> server \<Rightarrow> request_pc \<times> server" where
  "start_command cfg c q s = (case q of
     ListCommand \<Rightarrow> (Listing StoredCalled, s)
   | CreateCommand options \<Rightarrow>
       acquire (CreateSession options) (cfg_uuid cfg (uuids s)) (s\<lparr>uuids := uuids s + 1\<rparr>)
   | AttachCommand i \<Rightarrow> acquire OpenSession i s
   | DetachCommand i \<Rightarrow> start_detach c i s
   | PromptCommand i t \<Rightarrow> start_operation c i q s
   | SteerCommand i t \<Rightarrow> start_operation c i q s
   | AbortCommand i \<Rightarrow> start_operation c i q s
   | SetModelCommand i m \<Rightarrow> start_operation c i q s
   | SetThinkingCommand i l \<Rightarrow> start_operation c i q s)"

definition handleRequest :: "server_config \<Rightarrow> nat \<Rightarrow> js_string \<Rightarrow> command \<Rightarrow> server \<Rightarrow> server" where
  "handleRequest cfg c i q s =
     (let (pc, s) = start_command cfg c q (emit_out (Executes c i q) s) in spawn (Request c i (command_name q) pc) s)"

text \<open>\<^verbatim>\<open>attach\<close>, called when the live session has been acquired.\<close>

definition attach :: "nat \<Rightarrow> nat \<Rightarrow> server \<Rightarrow> request_pc \<times> server" where
  "attach c r s = (let k = connections s ! c in
     if con_disconnected k \<or> con_stage k \<noteq> Ready \<or> con_closed k
     then let (w, s) = maybeDispose r s in (AttachRefused w, s)
     else (AttachDone r,
       change_live r (\<lambda>l. l\<lparr>live_connections := List.insert c (live_connections l)\<rparr>)
         (change_connection c (\<lambda>k. k\<lparr>con_sessions := List.insert (live_id (lives s ! r)) (con_sessions k)\<rparr>) s)))"

definition broadcast_session :: "server_config \<Rightarrow> nat \<Rightarrow> js_value \<Rightarrow> server \<Rightarrow> server" where
  "broadcast_session cfg r v s = send_all cfg (live_connections (lives s ! r)) (OutEvent (OutSessionSnapshot v)) s"

text \<open>\<^verbatim>\<open>broadcastSnapshot\<close> until it returns: the next place, or the error.\<close>

definition snap_advance :: "server_config \<Rightarrow> nat \<Rightarrow> snap_pc \<Rightarrow> answer \<Rightarrow> server \<Rightarrow> ((server_error + snap_pc) \<times> server) option" where
  "snap_advance cfg r pc a s = (case pc of
     SnapCalled \<Rightarrow> (case a of
         Fails e \<Rightarrow> Some (Inl e, s)
       | Gives v \<Rightarrow> Some (map_sum id SnapNormal (normalizedSnapshot r v s), s)
       | _ \<Rightarrow> None)
   | SnapNormal v \<Rightarrow> if a = Continue then Some (Inr (SnapSent v), broadcast_session cfg r v s) else None
   | SnapSent v \<Rightarrow> None)"

text \<open>The \<^verbatim>\<open>finally\<close> block of \<^verbatim>\<open>runOperation\<close>.\<close>

definition finish_operation :: "nat \<Rightarrow> server \<Rightarrow> server" where
  "finish_operation r s = scheduleMaybeDispose r (change_live r (\<lambda>l. l\<lparr>operationCount := operationCount l - 1\<rparr>) s)"

definition forget_opening :: "sid \<Rightarrow> nat \<Rightarrow> bool \<Rightarrow> server \<Rightarrow> server" where
  "forget_opening i t own s =
     (if own \<and> map_of (openingSessions s) i = Some t then s\<lparr>openingSessions := AList.delete i (openingSessions s)\<rparr> else s)"

definition answer_request :: "server_config \<Rightarrow> nat \<Rightarrow> js_string \<Rightarrow> server_error + out_result \<Rightarrow> server \<Rightarrow> server" where
  "answer_request cfg c i outcome s = (case outcome of
     Inr r \<Rightarrow> snd (sendMessage cfg c (OutResponse i (Inr r)) s)
   | Inl e \<Rightarrow> let (p, reported) = toProtocolError e in snd (sendMessage cfg c (OutResponse i (Inl p)) (report_if reported e s)))"

text \<open>The next step of a request: where it waits then, or nothing when it has ended.\<close>

definition request_step :: "server_config \<Rightarrow> nat \<Rightarrow> js_string \<Rightarrow> js_string \<Rightarrow> request_pc \<Rightarrow> answer \<Rightarrow> server \<Rightarrow>
    (request_pc option \<times> server) option" where
  "request_step cfg c i name pc a s = (case pc of
     AcquireDisposing call j r \<Rightarrow> (case wait_result (WaitLive r) s of
         None \<Rightarrow> None
       | Some None \<Rightarrow> Some (let (pc, s) = acquire call j s in (Some pc, s))
       | Some (Some e) \<Rightarrow> Some (Some (Responding (Inl e)), s))
   | AcquireOpening call j t own \<Rightarrow> (case task_at s t of
         TaskOpened r \<Rightarrow> Some (Some (AcquireDone r), forget_opening j t own s)
       | TaskFailed e \<Rightarrow> Some (Some (Responding (Inl e)), forget_opening j t own s)
       | _ \<Rightarrow> None)
   | AcquireDone r \<Rightarrow> Some (let (pc, s) = attach c r s in (Some pc, s))
   | AttachRefused w \<Rightarrow> (case wait_result w s of
         None \<Rightarrow> None
       | Some None \<Rightarrow> Some (Some (Responding (Inl (invalid_request ''Connection closed while attaching to a session''))), s)
       | Some (Some e) \<Rightarrow> Some (Some (Responding (Inl e)), s))
   | AttachDone r \<Rightarrow> Some (Some (AttachSnapshot r SnapCalled), s)
   | AttachSnapshot r (SnapSent v) \<Rightarrow>
       Some (Some (Responding (Inr (OutSession name (forConnection v c s)))), queue_broadcast s)
   | AttachSnapshot r p \<Rightarrow> (case snap_advance cfg r p a s of
         None \<Rightarrow> None
       | Some (Inl e, s) \<Rightarrow> Some (Some (Responding (Inl e)), s)
       | Some (Inr p, s) \<Rightarrow> Some (Some (AttachSnapshot r p), s))
   | OperationCalled r \<Rightarrow> (case a of
         Continue \<Rightarrow> Some (Some (OperationSnapshot r SnapCalled), s)
       | Fails e \<Rightarrow> Some (Some (Responding (Inl e)), finish_operation r s)
       | _ \<Rightarrow> None)
   | OperationSnapshot r (SnapSent v) \<Rightarrow>
       Some (Some (Responding (Inr (OutSession name (forConnection v c s)))), finish_operation r s)
   | OperationSnapshot r p \<Rightarrow> (case snap_advance cfg r p a s of
         None \<Rightarrow> None
       | Some (Inl e, s) \<Rightarrow> Some (Some (Responding (Inl e)), finish_operation r s)
       | Some (Inr p, s) \<Rightarrow> Some (Some (OperationSnapshot r p), s))
   | DetachSnapshot r (SnapSent v) \<Rightarrow> Some (let (w, s) = maybeDispose r s in (Some (DetachDispose w (live_id (lives s ! r))), s))
   | DetachSnapshot r p \<Rightarrow> (case snap_advance cfg r p a s of
         None \<Rightarrow> None
       | Some (Inl e, s) \<Rightarrow> Some (Some (Responding (Inl e)), s)
       | Some (Inr p, s) \<Rightarrow> Some (Some (DetachSnapshot r p), s))
   | DetachDispose w j \<Rightarrow> (case wait_result w s of
         None \<Rightarrow> None
       | Some None \<Rightarrow> Some (Some (Responding (Inr (OutDetach j))), queue_broadcast s)
       | Some (Some e) \<Rightarrow> Some (Some (Responding (Inl e)), s))
   | Listing l \<Rightarrow>
       if list_done l then Some (Some (Responding (Inr (OutList (list_result l s)))), s)
       else map_option (\<lambda>x. (Some (case x of Inl e \<Rightarrow> Responding (Inl e) | Inr l \<Rightarrow> Listing l), s)) (list_advance l a s)
   | Responding outcome \<Rightarrow> Some (None, answer_request cfg c i outcome s))"

subsection \<open>Runtimes\<close>

definition open_live :: "sid \<Rightarrow> nat \<Rightarrow> live_session" where
  "open_live i t = \<lparr>live_id = i, live_runtime = t, live_connections = [], live_subscribed = True, operationCount = 0,
     live_ready = True, live_terminal = False, live_disposing = NotDisposing\<rparr>"

text \<open>\<^verbatim>\<open>create\<close>, the task \<open>t\<close>: the service answers, then the runtime with its first snapshot.\<close>

definition create_step :: "nat \<Rightarrow> sid \<Rightarrow> create_pc \<Rightarrow> answer \<Rightarrow> server \<Rightarrow> (task \<times> server) option" where
  "create_step t i pc a s = (case pc of
     CreateCalled call \<Rightarrow> (case a of
         Fails e \<Rightarrow> Some (TaskFailed e, emit_out (Released i) s)
       | Continue \<Rightarrow> if closing s then Some (Create i CreateLate, emit_out (Disposes t) s) else Some (Create i CreateSnapshot, s)
       | _ \<Rightarrow> None)
   | CreateLate \<Rightarrow> (case a of
         Fails e \<Rightarrow> Some (TaskFailed e, emit_out (Released i) s)
       | Continue \<Rightarrow> Some (TaskFailed (OtherError ''PiServer closed while acquiring a session runtime''), emit_out (Released i) s)
       | _ \<Rightarrow> None)
   | CreateSnapshot \<Rightarrow> (case a of
         Fails e \<Rightarrow> Some (Create i (CreateCleanup e), emit_out (Disposes t) s)
       | Gives v \<Rightarrow>
           if member ''id'' v \<noteq> JString i
           then Some (Create i (CreateCleanup (invalid_request ''Service returned another session'')), emit_out (Disposes t) s)
           else let r = length (lives s) in
             Some (TaskOpened r, emit_out (Subscribes r) (s\<lparr>lives := lives s @ [open_live i t],
               liveSessions := AList.update i r (liveSessions s)\<rparr>))
       | _ \<Rightarrow> None)
   | CreateCleanup e \<Rightarrow> (case a of
         Fails d \<Rightarrow> Some (TaskFailed e, emit_out (Released i) (reportError d s))
       | Continue \<Rightarrow> Some (TaskFailed e, emit_out (Released i) s)
       | _ \<Rightarrow> None))"

text \<open>\<^verbatim>\<open>live.disposing\<close> settles.\<close>

definition finish_disposal :: "nat \<Rightarrow> server_error option \<Rightarrow> server \<Rightarrow> server" where
  "finish_disposal r e s = (let i = live_id (lives s ! r); s = change_live r (\<lambda>l. l\<lparr>live_disposing := DisposeSettled e\<rparr>) s in
     emit_out (Released i)
       (if map_of (liveSessions s) i = Some r then s\<lparr>liveSessions := AList.delete i (liveSessions s)\<rparr> else s))"

datatype runtime_event = RuntimeSnapshotEvent | RuntimeProgress js_value | RuntimeError server_error

definition handleRuntimeEvent :: "server_config \<Rightarrow> nat \<Rightarrow> runtime_event \<Rightarrow> server \<Rightarrow> server" where
  "handleRuntimeEvent cfg r ev s = (case ev of
     RuntimeError e \<Rightarrow>
       if live_terminal (lives s ! r) then s
       else let s = change_live r (\<lambda>l. l\<lparr>live_terminal := True\<rparr>) s;
              s = unsubscribe_live r (reportError e s);
              cs = live_connections (lives s ! r);
              s = fold (\<lambda>c. emit_out (Closes c None)) cs s
         in spawn (Terminate r (TerminateClose cs)) s
   | RuntimeProgress v \<Rightarrow>
       scheduleMaybeDispose r (send_all cfg (live_connections (lives s ! r)) (OutEvent (OutProgress (live_id (lives s ! r)) v)) s)
   | RuntimeSnapshotEvent \<Rightarrow> scheduleMaybeDispose r (spawn (RuntimeSnapshot r SnapCalled) s))"

definition terminate_step :: "nat \<Rightarrow> terminate_pc \<Rightarrow> answer \<Rightarrow> server \<Rightarrow> (task \<times> server) option" where
  "terminate_step r pc a s = (case pc of
     TerminateClose cs \<Rightarrow> (case a of
         Continue \<Rightarrow> Some (let (ws, s) = disconnect_all cs s in (Terminate r (TerminateDisconnect ws), s))
       | Fails e \<Rightarrow> Some (Terminate r pc, reportError e s)
       | _ \<Rightarrow> None)
   | TerminateDisconnect ws \<Rightarrow>
       if list_all (\<lambda>w. wait_result w s \<noteq> None) ws
       then Some (let (w, s) = maybeDispose r s in (Terminate r (TerminateDispose w), s)) else None
   | TerminateDispose w \<Rightarrow> (case wait_result w s of
         None \<Rightarrow> None
       | Some e \<Rightarrow> Some (TaskDone, report_failures [w] s)))"

subsection \<open>Connections\<close>

definition accept_connection :: "server_config \<Rightarrow> server \<Rightarrow> server" where
  "accept_connection cfg s =
     (if closing s then emit_out RefusesConnection s
      else s\<lparr>uuids := uuids s + 1, connections := connections s @
        [\<lparr>con_id = cfg_uuid cfg (uuids s), con_decoder = cfg_decoder cfg, con_sessions = [], con_stage = AwaitingHello,
          con_disconnected = False, con_closed = False, con_handshakeComplete = False, con_handshake = None,
          con_waiting = [], con_timer = True\<rparr>]\<rparr>)"

definition start_handshake :: "server_config \<Rightarrow> nat \<Rightarrow> js_number \<Rightarrow> server \<Rightarrow> server" where
  "start_handshake cfg c version s =
     (let s = change_connection c (\<lambda>k. k\<lparr>con_stage := Handshaking\<rparr>) s;
          s = (if isSupportedProtocolVersion version
            then spawn (Handshake c (HelloGet (revision s) (GetList StoredCalled))) s
            else spawn TaskDone (failProtocol cfg c (protocol_error_of ''version'' ''Unsupported protocol version'') s))
      in change_connection c (\<lambda>k. k\<lparr>con_handshake := Some (length (tasks s) - 1)\<rparr>) s)"

definition dispatchMessage :: "server_config \<Rightarrow> nat \<Rightarrow> client_message \<Rightarrow> server \<Rightarrow> server" where
  "dispatchMessage cfg c m s =
     (if con_stage (connections s ! c) = AwaitingHello
      then (case m of
          ClientHello version \<Rightarrow> start_handshake cfg c version s
        | ClientRequest i q \<Rightarrow> failProtocol cfg c (protocol_error_of ''invalid_request'' ''The first client message must be hello'') s)
      else (case m of
          ClientHello version \<Rightarrow> failProtocol cfg c (protocol_error_of ''invalid_request'' ''hello may only be sent as the first message'') s
        | ClientRequest i q \<Rightarrow>
            if con_stage (connections s ! c) = Ready then handleRequest cfg c i q s
            else if con_stage (connections s ! c) = Handshaking \<and> con_handshake (connections s ! c) \<noteq> None
            then change_connection c (\<lambda>k. k\<lparr>con_waiting := con_waiting k @ [(i, q)]\<rparr>) s else s))"

fun dispatch_all :: "server_config \<Rightarrow> nat \<Rightarrow> client_message list \<Rightarrow> server \<Rightarrow> server" where
  "dispatch_all cfg c [] s = s"
| "dispatch_all cfg c (m # ms) s =
     (if isTerminalConnection (connections s ! c) then s else dispatch_all cfg c ms (dispatchMessage cfg c m s))"

definition receive :: "server_config \<Rightarrow> nat \<Rightarrow> byte list \<Rightarrow> server \<Rightarrow> server" where
  "receive cfg c chunk s =
     (if isTerminalConnection (connections s ! c) then s
      else let (result, d) = push_client (cfg_check cfg) (con_decoder (connections s ! c)) chunk;
             s = change_connection c (\<lambda>k. k\<lparr>con_decoder := d\<rparr>) s
        in case result of
             Inl e \<Rightarrow> fail_with cfg c (ValidationError e) s
           | Inr vs \<Rightarrow> dispatch_all cfg c (map read_client_message vs) s)"

definition transportClosed :: "nat \<Rightarrow> server \<Rightarrow> server" where
  "transportClosed c s = (let k = connections s ! c; (result, d) = end_messages (con_decoder k) in
     snd (disconnect c
       (if con_disconnected k \<or> con_stage k = Closing then s
        else let s = change_connection c (\<lambda>k. k\<lparr>con_decoder := d\<rparr>) s
          in case result of Inl e \<Rightarrow> reportError (ValidationError e) s | Inr u \<Rightarrow> s)))"

text \<open>A request that waited for the handshake.\<close>

definition dequeue_request :: "server_config \<Rightarrow> nat \<Rightarrow> server \<Rightarrow> server option" where
  "dequeue_request cfg c s = (let k = connections s ! c in
     case (con_waiting k, con_handshake k) of
       ((i, q) # rest, Some t) \<Rightarrow>
         if task_at s t \<noteq> TaskDone then None
         else let s = change_connection c (\<lambda>k. k\<lparr>con_waiting := rest\<rparr>) s
           in Some (if con_stage k = Ready \<and> \<not> con_disconnected k then handleRequest cfg c i q s else s)
     | _ \<Rightarrow> None)"

definition finish_hello :: "nat \<Rightarrow> nat \<Rightarrow> server \<Rightarrow> task \<times> server" where
  "finish_hello c n s = (let k = connections s ! c in
     if con_disconnected k \<or> con_stage k \<noteq> Handshaking then (TaskDone, s)
     else let s = change_connection c (\<lambda>k. k\<lparr>con_handshakeComplete := True, con_stage := Ready, con_timer := False\<rparr>) s
       in (if n \<noteq> revision s then Handshake c (HelloRefresh (revision s) (GetList StoredCalled)) else TaskDone, s))"

text \<open>A promise of a sent frame is rejected: the last part of \<^verbatim>\<open>sendMessage\<close>.\<close>

definition send_rejected :: "nat \<Rightarrow> server_error \<Rightarrow> server \<Rightarrow> server" where
  "send_rejected c e s = close_connection c None (reportError e s)"

definition handshake_step :: "server_config \<Rightarrow> nat \<Rightarrow> handshake_pc \<Rightarrow> answer \<Rightarrow> server \<Rightarrow> (task \<times> server) option" where
  "handshake_step cfg c pc a s = (case pc of
     HelloGet n (GetDone sessions models) \<Rightarrow> (let k = connections s ! c in
       if closing s \<or> con_disconnected k \<or> con_stage k \<noteq> Handshaking \<or> con_closed k then Some (TaskDone, s)
       else let (sent, s) = sendMessage cfg c (OutHello (con_id k) (snapshot_value cfg n sessions models)) s
         in Some (if sent then Handshake c (HelloSent n) else TaskDone, s))
   | HelloGet n g \<Rightarrow> (case get_advance g a s of
         None \<Rightarrow> None
       | Some (Inl e) \<Rightarrow> Some (TaskDone, fail_with cfg c e s)
       | Some (Inr g) \<Rightarrow> Some (Handshake c (HelloGet n g), s))
   | HelloSent n \<Rightarrow> (case a of
         Continue \<Rightarrow> Some (finish_hello c n s)
       | Fails e \<Rightarrow> Some (TaskDone, send_rejected c e s)
       | _ \<Rightarrow> None)
   | HelloRefresh n (GetDone sessions models) \<Rightarrow>
       (let (sent, s) = sendMessage cfg c (OutEvent (OutServerSnapshot (snapshot_value cfg n sessions models))) s
        in Some (if sent then Handshake c HelloRefreshed else TaskDone, s))
   | HelloRefresh n g \<Rightarrow> (case get_advance g a s of
         None \<Rightarrow> None
       | Some (Inl e) \<Rightarrow> Some (TaskDone, fail_with cfg c e s)
       | Some (Inr g) \<Rightarrow> Some (Handshake c (HelloRefresh n g), s))
   | HelloRefreshed \<Rightarrow> (case a of
         Continue \<Rightarrow> Some (TaskDone, s)
       | Fails e \<Rightarrow> Some (TaskDone, send_rejected c e s)
       | _ \<Rightarrow> None))"

subsection \<open>Server snapshots and closing\<close>

text \<open>The next broadcast of the queue starts: \<^verbatim>\<open>performBroadcast\<close>.\<close>

definition start_broadcast :: "server \<Rightarrow> server option" where
  "start_broadcast s =
     (if broadcastQueue s = 0 \<or> broadcasting s then None
      else let s = s\<lparr>broadcastQueue := broadcastQueue s - 1\<rparr>;
             ready = filter (\<lambda>c. con_stage (connections s ! c) = Ready \<and> \<not> con_disconnected (connections s ! c)) [0..<length (connections s)]
        in Some (if ready = [] \<or> closing s then s
          else spawn (Broadcast (BroadcastModels (revision s + 1) ready)) (s\<lparr>revision := revision s + 1, broadcasting := True\<rparr>)))"

definition broadcast_step :: "server_config \<Rightarrow> broadcast_pc \<Rightarrow> answer \<Rightarrow> server \<Rightarrow> (task \<times> server) option" where
  "broadcast_step cfg pc a s = (case pc of
     BroadcastModels n cs \<Rightarrow> (case a of
         Fails e \<Rightarrow> Some (TaskDone, reportError e (s\<lparr>broadcasting := False\<rparr>))
       | GivesList models \<Rightarrow> Some (Broadcast (BroadcastList n cs models StoredCalled), s)
       | _ \<Rightarrow> None)
   | BroadcastList n cs models l \<Rightarrow>
       if list_done l
       then Some (Broadcast (BroadcastSend (snapshot_value cfg n (list_result l s) models) cs), s)
       else (case list_advance l a s of
           None \<Rightarrow> None
         | Some (Inl e) \<Rightarrow> Some (TaskDone, reportError e (s\<lparr>broadcasting := False\<rparr>))
         | Some (Inr l) \<Rightarrow> Some (Broadcast (BroadcastList n cs models l), s))
   | BroadcastSend v [] \<Rightarrow> Some (TaskDone, s\<lparr>broadcasting := False\<rparr>)
   | BroadcastSend v (c # cs) \<Rightarrow> Some (Broadcast (BroadcastSend v cs), snd (sendMessage cfg c (OutEvent (OutServerSnapshot v)) s)))"

text \<open>\<^verbatim>\<open>LiveSessionManager.close\<close> disposes what is not being disposed.\<close>

definition close_live :: "nat \<Rightarrow> server \<Rightarrow> server" where
  "close_live r s = (if live_disposing (lives s ! r) \<noteq> NotDisposing then s
     else emit_out (Disposes (live_runtime (lives s ! r))) (unsubscribe_live r s))"

definition close_step :: "close_pc \<Rightarrow> answer \<Rightarrow> server \<Rightarrow> (task \<times> server) option" where
  "close_step pc a s = (case pc of
     CloseListeners \<Rightarrow>
       (let cs = filter (\<lambda>c. \<not> con_disconnected (connections s ! c)) [0..<length (connections s)];
            s = fold (\<lambda>c. change_connection c (\<lambda>k. k\<lparr>con_stage := Closing, con_timer := False\<rparr>)) cs s
        in Some (ClosingServer (CloseConnections cs), fold (\<lambda>c. emit_out (Closes c None)) cs s))
   | CloseConnections cs \<Rightarrow> (case a of
         Continue \<Rightarrow> Some (let (ws, s) = disconnect_all cs s in (ClosingServer (CloseDisconnect ws), s))
       | Fails e \<Rightarrow> Some (ClosingServer pc, reportError e s)
       | _ \<Rightarrow> None)
   | CloseDisconnect ws \<Rightarrow>
       if list_all (\<lambda>w. wait_result w s \<noteq> None) ws
       then Some (ClosingServer (CloseOpening (map snd (openingSessions s))), s) else None
   | CloseOpening ts \<Rightarrow>
       if list_all (\<lambda>t. case task_at s t of TaskOpened r \<Rightarrow> True | TaskFailed e \<Rightarrow> True | _ \<Rightarrow> False) ts
       then (let s1 = fold (\<lambda>t s'. case task_at s t of TaskFailed e \<Rightarrow> reportError e s' | _ \<Rightarrow> s') ts s;
                 rs = map snd (liveSessions s)
             in Some (ClosingServer CloseRuntimes, fold close_live rs (s1\<lparr>liveSessions := []\<rparr>)))
       else None
   | CloseRuntimes \<Rightarrow> Some (TaskDone, s))"

subsection \<open>Steps\<close>

datatype server_event_in =
    Accepts
  | Receives nat "byte list"
  | TransportCloses nat
  | TransportFails nat server_error
  | FlagsClosed nat
  | SendRejected nat server_error
  | HandshakeTimesOut nat
  | Dequeues nat
  | RuntimeEmits nat runtime_event
  | PhaseIs nat js_string
  | Resumes nat answer
  | StartsBroadcast
  | CloseCalled

text \<open>A task goes on, with what its place got for an answer.\<close>

definition task_step :: "server_config \<Rightarrow> nat \<Rightarrow> answer \<Rightarrow> server \<Rightarrow> (task \<times> server) option" where
  "task_step cfg t a s = (case tasks s ! t of
     Handshake c pc \<Rightarrow> handshake_step cfg c pc a s
   | Request c i name pc \<Rightarrow> map_option (\<lambda>(pc, s). (case pc of None \<Rightarrow> TaskDone | Some pc \<Rightarrow> Request c i name pc, s))
       (request_step cfg c i name pc a s)
   | Create i pc \<Rightarrow> create_step t i pc a s
   | DisposeRuntime r \<Rightarrow> (case a of
       Continue \<Rightarrow> Some (TaskDone, finish_disposal r None s) | Fails e \<Rightarrow> Some (TaskDone, finish_disposal r (Some e) s) | _ \<Rightarrow> None)
   | NotifyDisposed r \<Rightarrow> (case wait_result (WaitLive r) s of
       None \<Rightarrow> None
     | Some None \<Rightarrow> Some (TaskDone, if closing s then s else queue_broadcast s)
     | Some (Some e) \<Rightarrow> Some (TaskFailed e, s))
   | ReportFailure w \<Rightarrow> if wait_result w s = None then None else Some (TaskDone, report_failures [w] s)
   | RuntimeSnapshot r (SnapSent v) \<Rightarrow> Some (TaskDone, s)
   | RuntimeSnapshot r pc \<Rightarrow> (case snap_advance cfg r pc a s of
       None \<Rightarrow> None
     | Some (Inl e, s) \<Rightarrow> Some (TaskDone, reportError e s)
     | Some (Inr pc, s) \<Rightarrow> Some (RuntimeSnapshot r pc, s))
   | ClosingConnection c \<Rightarrow> (case a of
       Continue \<Rightarrow> Some (TaskDone, snd (disconnect c s))
     | Fails e \<Rightarrow> Some (TaskDone, snd (disconnect c (reportError e s)))
     | _ \<Rightarrow> None)
   | Disconnecting ws handshaken \<Rightarrow>
       if list_all (\<lambda>w. wait_result w s \<noteq> None) ws
       then Some (TaskDone, (if \<not> closing s \<and> handshaken then queue_broadcast else id) (report_failures ws s)) else None
   | Terminate r pc \<Rightarrow> terminate_step r pc a s
   | Broadcast pc \<Rightarrow> broadcast_step cfg pc a s
   | ClosingServer pc \<Rightarrow> close_step pc a s
   | _ \<Rightarrow> None)"

definition resume :: "server_config \<Rightarrow> nat \<Rightarrow> answer \<Rightarrow> server \<Rightarrow> server option" where
  "resume cfg t a s = map_option (\<lambda>(x, s). set_task t x s) (task_step cfg t a s)"

definition server_step :: "server_config \<Rightarrow> server_event_in \<Rightarrow> server \<Rightarrow> server option" where
  "server_step cfg ev s = (case ev of
     Accepts \<Rightarrow> Some (accept_connection cfg s)
   | Receives c chunk \<Rightarrow> if c < length (connections s) then Some (receive cfg c chunk s) else None
   | TransportCloses c \<Rightarrow> if c < length (connections s) then Some (transportClosed c s) else None
   | TransportFails c e \<Rightarrow> if c < length (connections s) then Some (close_connection c None (reportError e s)) else None
   | FlagsClosed c \<Rightarrow> if c < length (connections s) then Some (change_connection c (\<lambda>k. k\<lparr>con_closed := True\<rparr>) s) else None
   | SendRejected c e \<Rightarrow> if c < length (connections s) then Some (send_rejected c e s) else None
   | HandshakeTimesOut c \<Rightarrow>
       if c < length (connections s) \<and> con_timer (connections s ! c)
       then Some (failProtocol cfg c (protocol_error_of ''invalid_request'' ''Handshake timeout'')
         (change_connection c (\<lambda>k. k\<lparr>con_timer := False\<rparr>) s)) else None
   | Dequeues c \<Rightarrow> if c < length (connections s) then dequeue_request cfg c s else None
   | RuntimeEmits r ev \<Rightarrow> if r < length (lives s) \<and> live_subscribed (lives s ! r) then Some (handleRuntimeEvent cfg r ev s) else None
   | PhaseIs r phase \<Rightarrow> Some (s\<lparr>phases := (phases s)(r := phase)\<rparr>)
   | Resumes t a \<Rightarrow> if t < length (tasks s) then resume cfg t a s else None
   | StartsBroadcast \<Rightarrow> start_broadcast s
   | CloseCalled \<Rightarrow> Some (if closing s then s else spawn (ClosingServer CloseListeners) (s\<lparr>closing := True\<rparr>)))"

fun server_run :: "server_config \<Rightarrow> server_event_in list \<Rightarrow> server \<Rightarrow> server option" where
  "server_run cfg [] s = Some s"
| "server_run cfg (ev # evs) s = Option.bind (server_step cfg ev s) (server_run cfg evs)"

text \<open>The states of a server.\<close>

inductive server_reachable :: "server_config \<Rightarrow> server \<Rightarrow> bool" for cfg where
  new: "server_reachable cfg new_server"
| step: "server_reachable cfg s \<Longrightarrow> server_step cfg ev s = Some s' \<Longrightarrow> server_reachable cfg s'"

lemma server_run_reachable: "server_reachable cfg s \<Longrightarrow> server_run cfg evs s = Some s' \<Longrightarrow> server_reachable cfg s'"
  by (induction evs arbitrary: s) (auto simp: Option.bind_eq_Some_conv intro: server_reachable.step)

definition resolve_server_options :: "js_string option \<Rightarrow> int option \<Rightarrow> int option \<Rightarrow> string + int \<times> int" where
  "resolve_server_options serverId frameLength timeoutMs =
     (let frame = or_default frameLength (int DEFAULT_MAX_FRAME_LENGTH); timeout = or_default timeoutMs 5000 in
      if serverId = Some [] then Inl ''PiServer serverId must not be empty''
      else if frame \<le> 0 \<or> frame > int MAX_UINT32
      then Inl ''PiServer maxFrameLength must be an integer between 1 and 4294967295''
      else if timeout \<le> 0 \<or> timeout > 2147483647
      then Inl ''PiServer handshakeTimeoutMs must be an integer between 1 and 2147483647''
      else Inr (frame, timeout))"

end
