(* ===== verification/ServerSafety.thy ===== *)
theory ServerSafety
  imports Server "HOL-Library.Sublist"
begin

text \<open>
  What holds of a server in every order of its tasks and whatever the clients, the transports and the service do.
\<close>

subsection \<open>Runtimes are opened one at a time\<close>

definition settled :: "disposal \<Rightarrow> bool" where
  "settled d \<longleftrightarrow> (case d of DisposeSettled e \<Rightarrow> True | _ \<Rightarrow> False)"

lemma settled_simps [simp]: "\<not> settled NotDisposing" "\<not> settled DisposePending" "settled (DisposeSettled e)"
  by (simp_all add: settled_def)

definition creating :: "server \<Rightarrow> sid \<Rightarrow> nat \<Rightarrow> bool" where
  "creating s i t \<longleftrightarrow> t < length (tasks s) \<and> (\<exists>pc. tasks s ! t = Create i pc)"

definition opens :: "sid \<Rightarrow> out_effect \<Rightarrow> bool" where
  "opens i x \<longleftrightarrow> (case x of Opens j t call \<Rightarrow> j = i | _ \<Rightarrow> False)"

text \<open>Openings and releases of a session alternate; \<open>h\<close> says whether there is a runtime.\<close>

fun alternate :: "sid \<Rightarrow> bool \<Rightarrow> out_effect list \<Rightarrow> bool" where
  "alternate i h [] \<longleftrightarrow> True"
| "alternate i h (x # xs) \<longleftrightarrow>
     (if opens i x then \<not> h \<and> alternate i True xs else if x = Released i then h \<and> alternate i False xs else alternate i h xs)"

fun held :: "sid \<Rightarrow> bool \<Rightarrow> out_effect list \<Rightarrow> bool" where
  "held i h [] \<longleftrightarrow> h"
| "held i h (x # xs) \<longleftrightarrow> (if opens i x then held i True xs else if x = Released i then held i False xs else held i h xs)"

lemma alternate_append [simp]: "alternate i h (xs @ ys) \<longleftrightarrow> alternate i h xs \<and> alternate i (held i h xs) ys"
  and held_append [simp]: "held i h (xs @ ys) = held i (held i h xs) ys"
  by (induction xs arbitrary: h) auto

lemma update_nth: "j < length xs \<Longrightarrow> xs[r := f (xs ! r)] ! j = (if j = r then f (xs ! j) else xs ! j)"
  by (cases "r < length xs") auto

definition no_opening :: "out_effect \<Rightarrow> bool" where
  "no_opening x \<longleftrightarrow> (case x of Opens i t call \<Rightarrow> False | Released i \<Rightarrow> False | _ \<Rightarrow> True)"

lemma no_opening_same: "list_all no_opening xs \<Longrightarrow> alternate i h xs \<and> held i h xs = h"
  by (induction xs arbitrary: h) (auto simp: no_opening_def opens_def split: out_effect.splits)

definition plain_task :: "task \<Rightarrow> bool" where
  "plain_task x \<longleftrightarrow> (case x of Create i pc \<Rightarrow> False | DisposeRuntime r \<Rightarrow> False | ClosingServer pc \<Rightarrow> False | _ \<Rightarrow> True)"

definition spawned :: "task \<Rightarrow> bool" where
  "spawned x \<longleftrightarrow> (case x of Create i pc \<Rightarrow> False | ClosingServer pc \<Rightarrow> False | _ \<Rightarrow> True)"

definition opening_task :: "task \<Rightarrow> bool" where
  "opening_task x \<longleftrightarrow> (case x of Create i pc \<Rightarrow> True | TaskOpened r \<Rightarrow> True | TaskFailed e \<Rightarrow> True | _ \<Rightarrow> False)"

definition going :: "task \<Rightarrow> bool" where
  "going x \<longleftrightarrow> plain_task x \<and> \<not> opening_task x"

definition pending :: "server \<Rightarrow> nat \<Rightarrow> bool" where
  "pending s r \<longleftrightarrow> r < length (lives s) \<and> live_disposing (lives s ! r) = DisposePending"

definition one_disposal :: "server \<Rightarrow> bool" where
  "one_disposal s \<longleftrightarrow> (\<forall>r. count_list (tasks s) (DisposeRuntime r) = (if pending s r then 1 else 0))"

definition holds :: "server \<Rightarrow> sid \<Rightarrow> bool" where
  "holds s i \<longleftrightarrow> (\<exists>t. creating s i t) \<or> (\<exists>r<length (lives s). live_id (lives s ! r) = i \<and> \<not> settled (live_disposing (lives s ! r)))"

text \<open>
  The runtime of a live session is the one its opening task made, and a runtime that has been disposed is that of a
  session whose disposal has begun or of an opening that is being undone or has failed.
\<close>

definition disposed_for :: "live_session list \<Rightarrow> task \<Rightarrow> bool" where
  "disposed_for ls x \<longleftrightarrow> (case x of TaskOpened r \<Rightarrow> r < length ls \<and> live_disposing (ls ! r) \<noteq> NotDisposing
     | Create i pc \<Rightarrow> (\<exists>e. pc = CreateCleanup e) | TaskFailed e \<Rightarrow> True | _ \<Rightarrow> False)"

definition disposals_ok :: "task list \<Rightarrow> live_session list \<Rightarrow> out_effect list \<Rightarrow> bool" where
  "disposals_ok ts ls os \<longleftrightarrow>
     (\<forall>r<length ls. live_runtime (ls ! r) < length ts \<and> ts ! live_runtime (ls ! r) = TaskOpened r) \<and>
     (\<forall>k. Disposes k \<in> set os \<longrightarrow> k < length ts \<and> disposed_for ls (ts ! k))"

definition one_runtime :: "server \<Rightarrow> bool" where
  "one_runtime s \<longleftrightarrow>
     (\<forall>i t. creating s i t \<longrightarrow> map_of (openingSessions s) i = Some t \<and> map_of (liveSessions s) i = None) \<and>
     (\<forall>r<length (lives s). \<not> settled (live_disposing (lives s ! r)) \<longrightarrow> map_of (liveSessions s) (live_id (lives s ! r)) = Some r) \<and>
     (\<forall>i r. map_of (liveSessions s) i = Some r \<longrightarrow>
        r < length (lives s) \<and> live_id (lives s ! r) = i \<and> \<not> settled (live_disposing (lives s ! r))) \<and>
     (\<forall>i t. map_of (openingSessions s) i = Some t \<longrightarrow> t < length (tasks s) \<and> opening_task (tasks s ! t)) \<and>
     one_disposal s \<and> (\<forall>pc. ClosingServer pc \<notin> set (tasks s)) \<and>
     (\<forall>i. alternate i False (out s) \<and> held i False (out s) = holds s i) \<and>
     disposals_ok (tasks s) (lives s) (out s)"

lemma disposals_okI:
  assumes "\<And>r. r < length ls \<Longrightarrow> live_runtime (ls ! r) < length ts \<and> ts ! live_runtime (ls ! r) = TaskOpened r"
    and "\<And>k. Disposes k \<in> set os \<Longrightarrow> k < length ts \<and> disposed_for ls (ts ! k)"
  shows "disposals_ok ts ls os"
  using assms by (simp add: disposals_ok_def)

lemma disposals_okD:
  assumes "disposals_ok ts ls os"
  shows "r < length ls \<Longrightarrow> live_runtime (ls ! r) < length ts \<and> ts ! live_runtime (ls ! r) = TaskOpened r"
    and "Disposes k \<in> set os \<Longrightarrow> k < length ts \<and> disposed_for ls (ts ! k)"
  using assms by (simp_all add: disposals_ok_def)

lemma disposed_for_live:
  assumes "disposed_for ls x" and "length ls' = length ls"
    and "\<And>r. r < length ls \<Longrightarrow> live_disposing (ls ! r) \<noteq> NotDisposing \<Longrightarrow> live_disposing (ls' ! r) \<noteq> NotDisposing"
  shows "disposed_for ls' x"
  using assms by (auto simp: disposed_for_def split: task.splits)

text \<open>New tasks, effects that dispose nothing, changes of sessions that take back no disposal.\<close>

lemma disposals_more:
  assumes d: "disposals_ok ts ls os" and "length ls' = length ls"
    and l: "\<And>r. r < length ls \<Longrightarrow> live_runtime (ls' ! r) = live_runtime (ls ! r)"
      "\<And>r. r < length ls \<Longrightarrow> live_disposing (ls ! r) \<noteq> NotDisposing \<Longrightarrow> live_disposing (ls' ! r) \<noteq> NotDisposing"
    and o: "\<And>k. Disposes k \<in> set os' \<Longrightarrow>
      Disposes k \<in> set os \<or> (\<exists>r<length ls. k = live_runtime (ls ! r) \<and> live_disposing (ls' ! r) \<noteq> NotDisposing)"
  shows "disposals_ok (ts @ us) ls' os'"
proof (rule disposals_okI)
  show "live_runtime (ls' ! r) < length (ts @ us) \<and> (ts @ us) ! live_runtime (ls' ! r) = TaskOpened r" if "r < length ls'" for r
    using disposals_okD(1) [OF d, of r] that l(1) [of r] assms(2) by (simp add: nth_append)
  show "k < length (ts @ us) \<and> disposed_for ls' ((ts @ us) ! k)" if "Disposes k \<in> set os'" for k
    using o [OF that]
  proof
    assume "Disposes k \<in> set os"
    from disposals_okD(2) [OF d this] disposed_for_live [OF _ assms(2) l(2)] show ?thesis by (auto simp: nth_append)
  next
    assume "\<exists>r<length ls. k = live_runtime (ls ! r) \<and> live_disposing (ls' ! r) \<noteq> NotDisposing"
    with disposals_okD(1) [OF d] assms(2) show ?thesis by (auto simp: nth_append disposed_for_def)
  qed
qed

lemmas disposals_same = disposals_more [where us = "[]", simplified]

lemma disposals_task:
  assumes "disposals_ok ts ls os" and "t < length ts" "\<not> opening_task (ts ! t)"
  shows "disposals_ok (ts[t := x]) ls os"
proof -
  have ne: "k \<noteq> t" if "k < length ts" "ts ! k = TaskOpened r \<or> disposed_for ls (ts ! k)" for k r
    using that assms(3) by (auto simp: opening_task_def disposed_for_def split: task.splits)
  show ?thesis
    using disposals_okD [OF assms(1)] ne by (intro disposals_okI) fastforce+
qed

text \<open>An opening goes on: it may dispose its own runtime.\<close>

lemma disposals_create:
  assumes d: "disposals_ok ts ls os" and t: "t < length ts" "ts ! t = Create i pc"
    and "disposed_for ls x \<or> (Disposes t \<notin> set os' \<and> (\<forall>r. x \<noteq> TaskOpened r))"
    and o: "\<And>k. Disposes k \<in> set os' \<Longrightarrow> Disposes k \<in> set os \<or> k = t"
  shows "disposals_ok (ts[t := x]) ls os'"
proof (rule disposals_okI)
  show "live_runtime (ls ! r) < length (ts[t := x]) \<and> ts[t := x] ! live_runtime (ls ! r) = TaskOpened r" if "r < length ls" for r
    using disposals_okD(1) [OF d that] t(2) by (cases "live_runtime (ls ! r) = t") auto
  show "k < length (ts[t := x]) \<and> disposed_for ls (ts[t := x] ! k)" if "Disposes k \<in> set os'" for k
    using disposals_okD(2) [OF d, of k] o [OF that] that assms(4) t(1) by (cases "k = t") auto
qed

lemma disposals_opened:
  assumes d: "disposals_ok ts ls os" and t: "t < length ts" "ts ! t = Create i CreateSnapshot"
    and l: "live_runtime l = t" and o: "\<And>k. Disposes k \<in> set os' \<Longrightarrow> Disposes k \<in> set os"
  shows "disposals_ok (ts[t := TaskOpened (length ls)]) (ls @ [l]) os'"
proof (rule disposals_okI)
  fix r assume r: "r < length (ls @ [l])"
  show "live_runtime ((ls @ [l]) ! r) < length (ts[t := TaskOpened (length ls)]) \<and>
      ts[t := TaskOpened (length ls)] ! live_runtime ((ls @ [l]) ! r) = TaskOpened r"
  proof (cases "r < length ls")
    case True
    with disposals_okD(1) [OF d True] t show ?thesis by (cases "live_runtime (ls ! r) = t") (auto simp: nth_append)
  next
    case False
    with r t l show ?thesis by (auto simp: nth_append less_Suc_eq)
  qed
next
  fix k assume "Disposes k \<in> set os'"
  then have k: "k < length ts" "disposed_for ls (ts ! k)" using disposals_okD(2) [OF d o] by simp_all
  then have "k \<noteq> t" using t(2) by (auto simp: disposed_for_def)
  moreover have "disposed_for (ls @ [l]) (ts ! k)"
    using k(2) by (auto simp: disposed_for_def nth_append split: task.splits)
  ultimately show "k < length (ts[t := TaskOpened (length ls)]) \<and> disposed_for (ls @ [l]) (ts[t := TaskOpened (length ls)] ! k)"
    using k(1) by simp
qed

text \<open>A step that opens and releases nothing.\<close>

definition keeps_openings :: "server \<Rightarrow> server \<Rightarrow> bool" where
  "keeps_openings s s' \<longleftrightarrow>
     liveSessions s' = liveSessions s \<and> openingSessions s' = openingSessions s \<and> closing s' = closing s \<and>
     length (lives s') = length (lives s) \<and>
     (\<forall>r<length (lives s). live_id (lives s' ! r) = live_id (lives s ! r) \<and>
        settled (live_disposing (lives s' ! r)) = settled (live_disposing (lives s ! r))) \<and>
     (\<exists>ts. tasks s' = tasks s @ ts \<and> list_all spawned ts) \<and>
     (\<exists>ds. out s' = out s @ ds \<and> list_all no_opening ds) \<and>
     (one_disposal s \<longrightarrow> one_disposal s') \<and>
     (disposals_ok (tasks s) (lives s) (out s) \<longrightarrow> disposals_ok (tasks s') (lives s') (out s'))"

lemma keeps_refl [simp]: "keeps_openings s s"
  by (auto simp: keeps_openings_def)

lemma keeps_parts:
  assumes "keeps_openings s s'"
  shows "liveSessions s' = liveSessions s" "openingSessions s' = openingSessions s" "closing s' = closing s"
    "length (lives s') = length (lives s)"
    "r < length (lives s) \<Longrightarrow> live_id (lives s' ! r) = live_id (lives s ! r)"
    "r < length (lives s) \<Longrightarrow> settled (live_disposing (lives s' ! r)) = settled (live_disposing (lives s ! r))"
    "\<exists>ts. tasks s' = tasks s @ ts \<and> list_all spawned ts"
    "\<exists>ds. out s' = out s @ ds \<and> list_all no_opening ds"
    "one_disposal s \<Longrightarrow> one_disposal s'"
    "disposals_ok (tasks s) (lives s) (out s) \<Longrightarrow> disposals_ok (tasks s') (lives s') (out s')"
  using assms by (simp_all add: keeps_openings_def)

lemma keeps_trans:
  assumes a: "keeps_openings s s'" and b: "keeps_openings s' s''"
  shows "keeps_openings s s''"
proof -
  from keeps_parts(7) [OF a] obtain ts where ts: "tasks s' = tasks s @ ts" "list_all spawned ts"
    by blast
  from keeps_parts(7) [OF b] obtain us where us: "tasks s'' = tasks s' @ us" "list_all spawned us"
    by blast
  from keeps_parts(8) [OF a] obtain ds where ds: "out s' = out s @ ds" "list_all no_opening ds" by blast
  from keeps_parts(8) [OF b] obtain es where es: "out s'' = out s' @ es" "list_all no_opening es" by blast
  have "\<exists>ts. tasks s'' = tasks s @ ts \<and> list_all spawned ts"
    using ts us by (intro exI [of _ "ts @ us"]) auto
  moreover have "\<exists>ds. out s'' = out s @ ds \<and> list_all no_opening ds"
    using ds es by (intro exI [of _ "ds @ es"]) simp
  ultimately show ?thesis
    using keeps_parts(1-6,9,10) [OF a] keeps_parts(1-6,9,10) [OF b]
    unfolding keeps_openings_def by (intro conjI allI impI) (assumption | simp)+
qed

definition plain_effect :: "out_effect \<Rightarrow> bool" where
  "plain_effect x \<longleftrightarrow> (case x of Opens i t call \<Rightarrow> False | Released i \<Rightarrow> False | Disposes k \<Rightarrow> False | _ \<Rightarrow> True)"

lemma kept_emit: "plain_effect x \<Longrightarrow> keeps_openings s (emit_out x s)"
  by (auto simp: keeps_openings_def emit_out_def one_disposal_def pending_def no_opening_def plain_effect_def
      split: out_effect.splits elim!: disposals_same)

lemma keeps_spawn: "plain_task x \<Longrightarrow> keeps_openings s (spawn x s)"
  by (auto simp: keeps_openings_def spawn_def one_disposal_def pending_def plain_task_def spawned_def split: task.splits
      elim!: disposals_more)

lemma keeps_connection: "keeps_openings s (change_connection c f s)"
  by (auto simp: keeps_openings_def change_connection_def one_disposal_def pending_def)

lemma keeps_live:
  assumes "\<And>l. live_id (f l) = live_id l \<and> live_runtime (f l) = live_runtime l \<and> live_disposing (f l) = live_disposing l"
  shows "keeps_openings s (change_live r f s)"
  using assms by (auto simp: keeps_openings_def change_live_def one_disposal_def pending_def update_nth elim!: disposals_same split: if_splits)

lemma keeps_fields:
  "keeps_openings s (queue_broadcast s)"
  "keeps_openings s (s\<lparr>uuids := n\<rparr>)" "keeps_openings s (s\<lparr>phases := p\<rparr>)" "keeps_openings s (s\<lparr>broadcasting := b\<rparr>)"
  "keeps_openings s (s\<lparr>broadcastQueue := q\<rparr>)" "keeps_openings s (s\<lparr>revision := v\<rparr>)" "keeps_openings s (s\<lparr>connections := k\<rparr>)"
  by (auto simp: keeps_openings_def queue_broadcast_def one_disposal_def pending_def)

lemma keeps_fold: "(\<And>x s. keeps_openings s (f x s)) \<Longrightarrow> keeps_openings s (fold f xs s)"
  by (induction xs arbitrary: s) (auto intro: keeps_trans)

lemma keeps_report [simp]: "keeps_openings s (reportError e s)" "keeps_openings s (report_if b e s)"
  by (simp_all add: report_if_def reportError_def kept_emit plain_effect_def)

lemma keeps_close_connection: "keeps_openings s (close_connection c ending s)"
  unfolding close_connection_def
  by (rule keeps_trans [OF kept_emit keeps_spawn]) (simp_all add: plain_effect_def plain_task_def)

lemma keeps_sendMessage: "keeps_openings s (snd (sendMessage cfg c m s))"
  by (auto simp: sendMessage_def plain_effect_def intro: kept_emit keeps_trans [OF keeps_report(1) keeps_close_connection] split: sum.split)

lemma keeps_send_all: "keeps_openings s (send_all cfg cs m s)"
  unfolding send_all_def by (rule keeps_fold) (rule keeps_sendMessage)

lemma keeps_unsubscribe: "keeps_openings s (unsubscribe_live r s)"
  unfolding unsubscribe_live_def
  by (rule keeps_trans [OF keeps_live kept_emit]) (simp_all add: plain_effect_def)

lemma count_list_append: "count_list (xs @ ys) x = count_list xs x + count_list ys x"
  by (induction xs) simp_all

lemma keeps_maybeDispose: "keeps_openings s (snd (maybeDispose r s))"
proof (cases "disposable r s")
  case True
  define d where "d = (lives s ! r)\<lparr>live_subscribed := False, live_disposing := DisposePending\<rparr>"
  from True have r: "r < length (lives s)" and not: "live_disposing (lives s ! r) = NotDisposing"
    by (simp_all add: disposable_def Let_def)
  have s': "snd (maybeDispose r s) = s\<lparr>lives := (lives s)[r := d],
      tasks := tasks s @ [DisposeRuntime r, NotifyDisposed r], out := out s @ [Unsubscribes r, Disposes (live_runtime (lives s ! r))]\<rparr>"
    using True r by (simp add: maybeDispose_def Let_def unsubscribe_live_def emit_out_def change_live_def spawn_def d_def)
  have "one_disposal s \<Longrightarrow> one_disposal (snd (maybeDispose r s))"
    using r not by (auto simp: s' one_disposal_def pending_def count_list_append nth_list_update d_def)
  moreover have "disposals_ok (tasks s) (lives s) (out s) \<Longrightarrow> disposals_ok (tasks s') (lives s') (out s')"
    if "s' = snd (maybeDispose r s)" for s'
    unfolding that s' using r by (auto elim!: disposals_more simp: nth_list_update d_def split: if_splits)
  ultimately show ?thesis
    using r not by (auto simp: keeps_openings_def s' nth_list_update d_def no_opening_def spawned_def)
qed (simp add: maybeDispose_def)

lemma keeps_schedule: "keeps_openings s (scheduleMaybeDispose r s)"
  unfolding scheduleMaybeDispose_def
  using keeps_trans [OF keeps_maybeDispose [of s r] keeps_spawn [of "ReportFailure (fst (maybeDispose r s))"]]
  by (simp add: plain_task_def split_beta)

lemma keeps_dispose_all: "keeps_openings s (snd (maybe_dispose_all rs s))"
  by (induction rs arbitrary: s) (auto simp: split_beta Let_def intro: keeps_trans [OF keeps_maybeDispose])

lemma keeps_drop: "keeps_openings s (drop_connection c r s)"
  by (simp add: drop_connection_def keeps_live)

lemma keeps_disconnect: "keeps_openings s (snd (disconnect c s))"
proof (cases "con_disconnected (connections s ! c)")
  case False
  show ?thesis
    using False by (simp add: disconnect_def Let_def split_beta)
      (rule keeps_trans [OF keeps_trans [OF keeps_trans [OF keeps_connection keeps_fold [OF keeps_drop]] keeps_dispose_all] keeps_spawn],
        simp add: plain_task_def)
qed (simp add: disconnect_def)

lemma keeps_disconnect_all: "keeps_openings s (snd (disconnect_all cs s))"
  by (induction cs arbitrary: s) (auto simp: split_beta Let_def intro: keeps_trans [OF keeps_disconnect])

lemma keeps_failProtocol: "keeps_openings s (failProtocol cfg c e s)"
  by (auto simp: failProtocol_def Let_def split: sum.split
      intro: keeps_trans [OF keeps_connection keeps_close_connection]
        keeps_trans [OF keeps_trans [OF keeps_connection keeps_report(1)] keeps_close_connection])

lemma keeps_fail_with: "keeps_openings s (fail_with cfg c e s)"
  by (auto simp: fail_with_def split_beta intro: keeps_trans [OF keeps_report(2) keeps_failProtocol])

lemma keeps_report_failures: "keeps_openings s (report_failures ws s)"
proof -
  have "keeps_openings s' (case wait_result w s of Some (Some e) \<Rightarrow> reportError e s' | _ \<Rightarrow> s')" for w s'
    by (auto split: option.split)
  then show ?thesis unfolding report_failures_def by (rule keeps_fold)
qed

lemma one_runtime_parts:
  assumes "one_runtime s"
  shows "creating s i t \<Longrightarrow> map_of (openingSessions s) i = Some t \<and> map_of (liveSessions s) i = None"
    "r < length (lives s) \<Longrightarrow> \<not> settled (live_disposing (lives s ! r)) \<Longrightarrow> map_of (liveSessions s) (live_id (lives s ! r)) = Some r"
    "map_of (liveSessions s) i = Some r \<Longrightarrow> r < length (lives s) \<and> live_id (lives s ! r) = i \<and> \<not> settled (live_disposing (lives s ! r))"
    "map_of (openingSessions s) i = Some t \<Longrightarrow> t < length (tasks s) \<and> opening_task (tasks s ! t)"
    "one_disposal s" "ClosingServer pc \<notin> set (tasks s)"
    "alternate i False (out s) \<and> held i False (out s) = holds s i"
    "disposals_ok (tasks s) (lives s) (out s)"
  using assms by (auto simp: one_runtime_def)

lemma one_runtimeI:
  assumes "\<And>i t. creating s i t \<Longrightarrow> map_of (openingSessions s) i = Some t \<and> map_of (liveSessions s) i = None"
    "\<And>r. r < length (lives s) \<Longrightarrow> \<not> settled (live_disposing (lives s ! r)) \<Longrightarrow> map_of (liveSessions s) (live_id (lives s ! r)) = Some r"
    "\<And>i r. map_of (liveSessions s) i = Some r \<Longrightarrow> r < length (lives s) \<and> live_id (lives s ! r) = i \<and> \<not> settled (live_disposing (lives s ! r))"
    "\<And>i t. map_of (openingSessions s) i = Some t \<Longrightarrow> t < length (tasks s) \<and> opening_task (tasks s ! t)"
    "one_disposal s" "\<And>pc. ClosingServer pc \<notin> set (tasks s)"
    "\<And>i. alternate i False (out s) \<and> held i False (out s) = holds s i"
    "disposals_ok (tasks s) (lives s) (out s)"
  shows "one_runtime s"
  using assms by (simp add: one_runtime_def)

lemma creating_keeps: "keeps_openings s s' \<Longrightarrow> creating s' i t = creating s i t"
proof -
  assume "keeps_openings s s'"
  from keeps_parts(7) [OF this] obtain ts where ts: "tasks s' = tasks s @ ts" "list_all spawned ts" by blast
  have "ts ! k \<noteq> Create i pc" if "k < length ts" for k pc
    using ts(2) that by (auto simp: list_all_length spawned_def split: task.splits)
  then show ?thesis by (auto simp: creating_def ts(1) nth_append)
qed

lemma one_runtime_keeps:
  assumes s: "one_runtime s" and k: "keeps_openings s s'"
  shows "one_runtime s'"
proof -
  note p = keeps_parts [OF k] and o = one_runtime_parts [OF s]
  from p(7) obtain ts where ts: "tasks s' = tasks s @ ts" "list_all spawned ts" by blast
  from p(8) obtain ds where ds: "out s' = out s @ ds" "list_all no_opening ds" by blast
  have holds: "holds s' i = holds s i" for i
    using p(4-6) by (simp add: holds_def creating_keeps [OF k] cong: conj_cong)
  show ?thesis
    unfolding one_runtime_def
  proof (intro conjI allI impI)
    show "ClosingServer pc \<notin> set (tasks s')" for pc
      using ts o(6) by (auto simp: list_all_iff spawned_def split: task.splits)
    show "disposals_ok (tasks s') (lives s') (out s')" using p(10) [OF o(8)] .
  qed (use o(1-4,7) p(1,2,4-6) p(9) [OF o(5)] ds(1) no_opening_same [OF ds(2)] in
      \<open>fastforce simp: creating_keeps [OF k] holds ts(1) nth_append\<close>)+
qed

lemma creating_set_task:
  "t < length (tasks s) \<Longrightarrow> creating (set_task t x s) i k = (if k = t then (\<exists>pc. x = Create i pc) else creating s i k)"
  by (auto simp: creating_def set_task_def)

lemma count_list_update: "t < length xs \<Longrightarrow> xs ! t \<noteq> y \<Longrightarrow> x \<noteq> y \<Longrightarrow> count_list (xs[t := x]) y = count_list xs y"
proof (induction xs arbitrary: t)
  case (Cons a xs)
  then show ?case by (cases t) auto
qed simp

lemma one_runtime_set_task:
  assumes s: "one_runtime s" and t: "t < length (tasks s)" "going (tasks s ! t)" "plain_task x"
  shows "one_runtime (set_task t x s)"
proof -
  note o = one_runtime_parts [OF s]
  have c: "creating (set_task t x s) i k = creating s i k" for i k
    unfolding creating_set_task [OF t(1)]
    using t(2,3) by (auto simp: creating_def going_def opening_task_def plain_task_def)
  have "tasks s ! t \<noteq> DisposeRuntime r" "x \<noteq> DisposeRuntime r" for r
    using t(2,3) by (auto simp: going_def opening_task_def plain_task_def)
  then have d: "one_disposal (set_task t x s)"
    using o(5) t(1) by (simp add: one_disposal_def set_task_def pending_def count_list_update)
  show ?thesis
  proof (rule one_runtimeI)
    show "disposals_ok (tasks (set_task t x s)) (lives (set_task t x s)) (out (set_task t x s))"
      using disposals_task [OF o(8) t(1)] t(2) by (simp add: set_task_def going_def)
    show "ClosingServer pc \<notin> set (tasks (set_task t x s))" for pc
      using o(6) t(3) set_update_subset_insert [of "tasks s" t x] by (auto simp: set_task_def plain_task_def)
    show "alternate i False (out (set_task t x s)) \<and> held i False (out (set_task t x s)) = holds (set_task t x s) i" for i
      using o(7) by (simp add: holds_def c) (simp add: set_task_def)
    show "k < length (tasks (set_task t x s)) \<and> opening_task (tasks (set_task t x s) ! k)"
      if "map_of (openingSessions (set_task t x s)) i = Some k" for i k
    proof -
      have k: "k < length (tasks s)" "opening_task (tasks s ! k)" using o(4) [of i k] that by (simp_all add: set_task_def)
      with t(2) have "k \<noteq> t" by (auto simp: going_def)
      with k show ?thesis by (simp add: set_task_def)
    qed
  qed (use o(1-3) d in \<open>simp_all add: c\<close>, simp_all add: set_task_def)
qed

lemma one_runtime_forget:
  assumes s: "one_runtime s" and t: "\<not> (\<exists>j pc. tasks s ! t = Create j pc)"
  shows "one_runtime (forget_opening i t own s)"
proof (cases "own \<and> map_of (openingSessions s) i = Some t")
  case True
  note o = one_runtime_parts [OF s]
  let ?s = "s\<lparr>openingSessions := AList.delete i (openingSessions s)\<rparr>"
  have c: "creating ?s j k = creating s j k" and h: "holds ?s j = holds s j" for j k
    by (simp_all add: creating_def holds_def)
  have "one_runtime ?s"
  proof (rule one_runtimeI)
    show "map_of (openingSessions ?s) j = Some k \<and> map_of (liveSessions ?s) j = None" if "creating ?s j k" for j k
      using o(1) [OF that [unfolded c]] that t True by (cases "j = i") (auto simp: creating_def delete_conv')
    show "k < length (tasks ?s) \<and> opening_task (tasks ?s ! k)" if "map_of (openingSessions ?s) j = Some k" for j k
      using o(4) [of j k] that by (cases "j = i") (simp_all add: delete_conv')
    show "one_disposal ?s" using o(5) by (simp add: one_disposal_def pending_def)
  qed (use o(2,3,6-8) in \<open>simp_all add: h\<close>)
  with True show ?thesis by (simp add: forget_opening_def)
qed (use s in \<open>auto simp: forget_opening_def\<close>)

lemma one_runtime_open:
  assumes s: "one_runtime s" and i: "map_of (liveSessions s) i = None" "map_of (openingSessions s) i = None"
  shows "one_runtime (s\<lparr>out := out s @ [Opens i t call], tasks := tasks s @ [Create i pc],
    openingSessions := AList.update i (length (tasks s)) (openingSessions s)\<rparr>)" (is "one_runtime ?s")
proof -
  note o = one_runtime_parts [OF s]
  have c: "creating ?s j k \<longleftrightarrow> (j = i \<and> k = length (tasks s)) \<or> creating s j k" for j k
    by (auto simp: creating_def nth_append)
  have not: "\<not> holds s i" using o(1,2) i by (fastforce simp: holds_def)
  have h: "holds ?s j \<longleftrightarrow> j = i \<or> holds s j" for j by (auto simp: holds_def c)
  have ne: "creating s j k \<Longrightarrow> j \<noteq> i" for j k using o(1) i by fastforce
  show ?thesis
  proof (rule one_runtimeI)
    show "map_of (openingSessions ?s) j = Some k \<and> map_of (liveSessions ?s) j = None" if "creating ?s j k" for j k
      using that [unfolded c] o(1) [of j k] i ne [of j k] by (auto simp: update_conv')
    show "k < length (tasks ?s) \<and> opening_task (tasks ?s ! k)" if "map_of (openingSessions ?s) j = Some k" for j k
      using o(4) [of j k] that by (cases "j = i") (auto simp: update_conv' nth_append going_def opening_task_def plain_task_def)
    show "one_disposal ?s" using o(5) by (simp add: one_disposal_def pending_def count_list_append)
    show "alternate j False (out ?s) \<and> held j False (out ?s) = holds ?s j" for j
      using o(7) [of j] not by (auto simp: h opens_def)
    show "disposals_ok (tasks ?s) (lives ?s) (out ?s)" by (simp) (rule disposals_more [OF o(8)]; simp)
  qed (use o(2,3,6) in simp_all)
qed

lemma one_runtime_acquire: "one_runtime s \<Longrightarrow> one_runtime (snd (acquire call i s))"
  using one_runtime_open [of s i "CreateCalled call" "length (tasks s)" call]
  by (auto simp: acquire_def Let_def spawn_def emit_out_def split: option.split)

lemma one_runtime_release_create:
  assumes s: "one_runtime s" and t: "creating s i t"
  shows "one_runtime (set_task t (TaskFailed e) (emit_out (Released i) s))" (is "one_runtime ?s")
proof -
  note o = one_runtime_parts [OF s]
  have len: "t < length (tasks s)" and not_dispose: "tasks s ! t \<noteq> DisposeRuntime r" for r
    using t by (auto simp: creating_def)
  have c: "creating ?s j k \<longleftrightarrow> creating s j k \<and> k \<noteq> t" for j k
    using len by (cases "k = t") (auto simp: creating_def set_task_def emit_out_def)
  have one: "creating s i k \<Longrightarrow> k = t" for k using o(1) [of i k] o(1) [OF t] by simp
  have i: "\<And>j. creating s j t \<Longrightarrow> j = i" using t by (auto simp: creating_def)
  have no_live: "r < length (lives s) \<Longrightarrow> live_id (lives s ! r) = i \<Longrightarrow> settled (live_disposing (lives s ! r))" for r
    using o(1) [OF t] o(2) [of r] by auto
  have h: "holds ?s j \<longleftrightarrow> holds s j \<and> j \<noteq> i" for j
  proof -
    have "(\<exists>k. creating ?s j k) \<longleftrightarrow> (\<exists>k. creating s j k) \<and> j \<noteq> i" unfolding c using one i by metis
    then show ?thesis using no_live by (auto simp: holds_def) (auto simp: set_task_def emit_out_def)
  qed
  have held: "held i False (out s)" using o(7) [of i] t by (auto simp: holds_def)
  show ?thesis
  proof (rule one_runtimeI)
    show "map_of (openingSessions ?s) j = Some k \<and> map_of (liveSessions ?s) j = None" if "creating ?s j k" for j k
      using o(1) [of j k] that [unfolded c] by (simp add: set_task_def emit_out_def)
    show "k < length (tasks ?s) \<and> opening_task (tasks ?s ! k)" if "map_of (openingSessions ?s) j = Some k" for j k
      using o(4) [of j k] that len by (cases "k = t") (auto simp: set_task_def emit_out_def going_def opening_task_def)
    show "one_disposal ?s"
      using o(5) len not_dispose by (simp add: one_disposal_def set_task_def emit_out_def pending_def count_list_update)
    show "alternate j False (out ?s) \<and> held j False (out ?s) = holds ?s j" for j
      using o(7) [of j] held by (auto simp: h opens_def) (auto simp: set_task_def emit_out_def opens_def)
    show "ClosingServer pc \<notin> set (tasks ?s)" for pc
      using o(6) set_update_subset_insert [of "tasks s" t "TaskFailed e"] by (auto simp: set_task_def emit_out_def)
    obtain pc where "tasks s ! t = Create i pc" using t by (auto simp: creating_def)
    from disposals_create [OF o(8) len this, of "TaskFailed e" "out s @ [Released i]"]
    show "disposals_ok (tasks ?s) (lives ?s) (out ?s)" by (simp add: set_task_def emit_out_def disposed_for_def)
  qed (use o(2,3) in \<open>simp_all add: set_task_def emit_out_def\<close>)
qed

lemma one_runtime_create_stays:
  assumes s: "one_runtime s" and t: "creating s i t" and x: "x = Create i pc"
    and ds: "list_all no_opening ds" and d: "disposals_ok ((tasks s)[t := x]) (lives s) (out s @ ds)"
  shows "one_runtime (set_task t x (s\<lparr>out := out s @ ds\<rparr>))" (is "one_runtime ?s")
proof -
  note o = one_runtime_parts [OF s]
  have len: "t < length (tasks s)" and not_dispose: "tasks s ! t \<noteq> DisposeRuntime r" for r
    using t by (auto simp: creating_def)
  have c: "creating ?s j k = creating s j k" for j k
    using len t x by (cases "k = t") (auto simp: creating_def set_task_def)
  show ?thesis
  proof (rule one_runtimeI)
    show "k < length (tasks ?s) \<and> opening_task (tasks ?s ! k)" if "map_of (openingSessions ?s) j = Some k" for j k
      using o(4) [of j k] that len x by (cases "k = t") (auto simp: set_task_def going_def opening_task_def plain_task_def)
    show "one_disposal ?s"
      using o(5) len not_dispose x by (simp add: one_disposal_def set_task_def pending_def count_list_update)
    show "alternate j False (out ?s) \<and> held j False (out ?s) = holds ?s j" for j
      using o(7) [of j] no_opening_same [OF ds] by (simp add: holds_def c) (simp add: set_task_def)
    show "ClosingServer pc' \<notin> set (tasks ?s)" for pc'
      using o(6) x set_update_subset_insert [of "tasks s" t "Create i pc"] by (auto simp: set_task_def)
  qed (use o(1-3) d in \<open>simp_all add: c\<close>, simp_all add: set_task_def)
qed

lemma open_live_simps [simp]: "live_id (open_live i t) = i" "live_disposing (open_live i t) = NotDisposing" "live_runtime (open_live i t) = t"
  by (simp_all add: open_live_def)

lemma ex_index: "(\<exists>r<length xs. P (xs ! r)) \<longleftrightarrow> (\<exists>x\<in>set xs. P x)"
  by (metis in_set_conv_nth)

lemma one_runtime_opened:
  assumes s: "one_runtime s" and t: "creating s i t" and at: "tasks s ! t = Create i CreateSnapshot"
    and f: "lives s' = lives s @ [open_live i t]" "out s' = out s @ [Subscribes (length (lives s))]"
    "liveSessions s' = AList.update i (length (lives s)) (liveSessions s)" "openingSessions s' = openingSessions s"
    "tasks s' = (tasks s)[t := TaskOpened (length (lives s))]"
  shows "one_runtime s'"
proof -
  note o = one_runtime_parts [OF s]
  have len: "t < length (tasks s)" and not_dispose: "tasks s ! t \<noteq> DisposeRuntime r" for r
    using t by (auto simp: creating_def)
  have c: "creating s' j k \<longleftrightarrow> creating s j k \<and> k \<noteq> t" for j k
    using len by (cases "k = t") (auto simp: creating_def f)
  have one: "creating s i k \<Longrightarrow> k = t" for k using o(1) [of i k] o(1) [OF t] by simp
  have i: "\<And>j. creating s j t \<Longrightarrow> j = i" using t by (auto simp: creating_def)
  have free: "map_of (liveSessions s) i = None" using o(1) [OF t] by simp
  have h: "holds s' j \<longleftrightarrow> holds s j" for j
  proof -
    have "(\<exists>k. creating s' j k) \<longleftrightarrow> (\<exists>k. creating s j k) \<and> j \<noteq> i" unfolding c using one i by metis
    moreover have "(\<exists>r<length (lives s'). live_id (lives s' ! r) = j \<and> \<not> settled (live_disposing (lives s' ! r))) \<longleftrightarrow>
        j = i \<or> (\<exists>r<length (lives s). live_id (lives s ! r) = j \<and> \<not> settled (live_disposing (lives s ! r)))"
      unfolding f(1) ex_index [of _ "\<lambda>l. live_id l = j \<and> \<not> settled (live_disposing l)"] by auto
    ultimately have "holds s' j \<longleftrightarrow> ((\<exists>k. creating s j k) \<and> j \<noteq> i) \<or> j = i \<or>
        (\<exists>r<length (lives s). live_id (lives s ! r) = j \<and> \<not> settled (live_disposing (lives s ! r)))"
      by (simp only: holds_def)
    then show ?thesis using t by (cases "j = i") (auto simp: holds_def)
  qed
  show ?thesis
  proof (rule one_runtimeI)
    show "map_of (openingSessions s') j = Some k \<and> map_of (liveSessions s') j = None" if "creating s' j k" for j k
      using o(1) [of j k] that [unfolded c] one by (auto simp: f update_conv')
    show "map_of (liveSessions s') (live_id (lives s' ! r)) = Some r"
      if "r < length (lives s')" "\<not> settled (live_disposing (lives s' ! r))" for r
      using o(2) [of r] that free by (auto simp: f nth_append update_conv' less_Suc_eq split: if_splits)
    show "r < length (lives s') \<and> live_id (lives s' ! r) = j \<and> \<not> settled (live_disposing (lives s' ! r))"
      if "map_of (liveSessions s') j = Some r" for j r
      using o(3) [of j r] that by (auto simp: f nth_append update_conv' split: if_splits)
    show "k < length (tasks s') \<and> opening_task (tasks s' ! k)" if "map_of (openingSessions s') j = Some k" for j k
      using o(4) [of j k] that len by (cases "k = t") (auto simp: f going_def opening_task_def)
    have "pending s' r = pending s r" for r by (auto simp: pending_def f nth_append)
    then show "one_disposal s'"
      using o(5) len not_dispose by (simp add: one_disposal_def f count_list_update)
    show "alternate j False (out s') \<and> held j False (out s') = holds s' j" for j
      using o(7) [of j] by (simp add: h f opens_def)
    show "ClosingServer pc' \<notin> set (tasks s')" for pc'
      using o(6) set_update_subset_insert [of "tasks s" t "TaskOpened (length (lives s))"] by (auto simp: f)
    show "disposals_ok (tasks s') (lives s') (out s')"
      unfolding f by (rule disposals_opened [OF o(8) len at]) simp_all
  qed
qed

lemma count_list_drop:
  "t < length xs \<Longrightarrow> xs ! t = y \<Longrightarrow> x \<noteq> y \<Longrightarrow> count_list (xs[t := x]) y = count_list xs y - 1 \<and> 0 < count_list xs y"
proof (induction xs arbitrary: t)
  case (Cons a xs)
  show ?case
  proof (cases t)
    case (Suc k)
    with Cons.IH [of k] Cons.prems show ?thesis by auto
  qed (use Cons.prems in simp)
qed simp

lemma one_runtime_finish:
  assumes s: "one_runtime s" and t: "t < length (tasks s)" "tasks s ! t = DisposeRuntime r"
    and f: "lives s' = (lives s)[r := (lives s ! r)\<lparr>live_disposing := DisposeSettled e\<rparr>]" "out s' = out s @ [Released i]"
    "liveSessions s' = (if map_of (liveSessions s) i = Some r then AList.delete i (liveSessions s) else liveSessions s)"
    "openingSessions s' = openingSessions s" "tasks s' = (tasks s)[t := TaskDone]"
    and i: "i = live_id (lives s ! r)"
  shows "one_runtime s'"
proof -
  note o = one_runtime_parts [OF s]
  have drop: "count_list ((tasks s)[t := TaskDone]) (DisposeRuntime r) = count_list (tasks s) (DisposeRuntime r) - 1"
    "0 < count_list (tasks s) (DisposeRuntime r)"
    using count_list_drop [of t "tasks s" "DisposeRuntime r" TaskDone] t by simp_all
  then have pend: "pending s r" using o(5) by (simp add: one_disposal_def split: if_splits)
  then have r: "r < length (lives s)" and live: "map_of (liveSessions s) i = Some r"
    using o(2) [of r] by (simp_all add: pending_def i)
  then have f': "liveSessions s' = AList.delete i (liveSessions s)" using f(3) by simp
  have c: "creating s' j k \<longleftrightarrow> creating s j k" for j k
    using t by (cases "k = t") (auto simp: creating_def f)
  have id: "k < length (lives s) \<Longrightarrow> live_id (lives s' ! k) = live_id (lives s ! k)" for k
    using r by (cases "k = r") (simp_all add: f)
  have set: "k < length (lives s) \<Longrightarrow> settled (live_disposing (lives s' ! k)) \<longleftrightarrow> k = r \<or> settled (live_disposing (lives s ! k))" for k
    using r by (cases "k = r") (simp_all add: f)
  have only: "k = r" if "k < length (lives s)" "live_id (lives s ! k) = i" "\<not> settled (live_disposing (lives s ! k))" for k
    using o(2) [OF that(1,3)] that(2) live by simp
  have not_creating: "\<not> creating s i k" for k using o(1) [of i k] live by auto
  have h: "holds s' j \<longleftrightarrow> holds s j \<and> j \<noteq> i" for j
  proof -
    have "(\<exists>k<length (lives s'). live_id (lives s' ! k) = j \<and> \<not> settled (live_disposing (lives s' ! k))) \<longleftrightarrow>
        (\<exists>k<length (lives s). live_id (lives s ! k) = j \<and> \<not> settled (live_disposing (lives s ! k))) \<and> j \<noteq> i"
      using only i by (auto simp: f(1) [THEN arg_cong [of _ _ length]] id set cong: conj_cong)
    then show ?thesis using not_creating by (auto simp: holds_def c)
  qed
  have "holds s i" unfolding holds_def using pend i by (intro disjI2 exI [of _ r]) (simp add: pending_def)
  then have held: "held i False (out s)" using o(7) [of i] by simp
  show ?thesis
  proof (rule one_runtimeI)
    show "map_of (openingSessions s') j = Some k \<and> map_of (liveSessions s') j = None" if "creating s' j k" for j k
      using o(1) [of j k] that [unfolded c] by (auto simp: f delete_conv')
    show "map_of (liveSessions s') (live_id (lives s' ! k)) = Some k"
      if "k < length (lives s')" "\<not> settled (live_disposing (lives s' ! k))" for k
      using o(2) [of k] that id [of k] set [of k] only [of k] by (auto simp: f(1,3) delete_conv')
    show "k < length (lives s') \<and> live_id (lives s' ! k) = j \<and> \<not> settled (live_disposing (lives s' ! k))"
      if "map_of (liveSessions s') j = Some k" for j k
    proof -
      from that have j: "map_of (liveSessions s) j = Some k" "j \<noteq> i" by (auto simp: f' delete_conv' split: if_splits)
      with o(3) [OF j(1)] i have "k \<noteq> r" by auto
      with o(3) [OF j(1)] id [of k] set [of k] show ?thesis by (simp add: f(1) [THEN arg_cong [of _ _ length]])
    qed
    show "k < length (tasks s') \<and> opening_task (tasks s' ! k)" if "map_of (openingSessions s') j = Some k" for j k
      using o(4) [of j k] that t by (cases "k = t") (auto simp: f going_def opening_task_def plain_task_def)
    have "pending s' k \<longleftrightarrow> pending s k \<and> k \<noteq> r" for k
      using r by (cases "k = r") (auto simp: pending_def f(1))
    moreover have "count_list ((tasks s)[t := TaskDone]) (DisposeRuntime k) =
        (if k = r then 0 else count_list (tasks s) (DisposeRuntime k))" for k
      using o(5) t drop(1) pend by (simp add: count_list_update one_disposal_def)
    ultimately show "one_disposal s'"
      using o(5) by (simp add: one_disposal_def f(5))
    show "alternate j False (out s') \<and> held j False (out s') = holds s' j" for j
      using o(7) [of j] held by (auto simp: h f opens_def)
    show "ClosingServer pc' \<notin> set (tasks s')" for pc'
      using o(6) set_update_subset_insert [of "tasks s" t TaskDone] by (auto simp: f)
    have "disposals_ok (tasks s) (lives s') (out s')"
      using r by (auto simp: f(1,2) nth_list_update intro!: disposals_same [OF o(8)] split: if_splits)
    then show "disposals_ok (tasks s') (lives s') (out s')"
      using disposals_task [OF _ t(1)] t(2) by (simp add: f(5) opening_task_def)
  qed
qed

text \<open>A step of the server while it is open.\<close>

definition open_ok :: "server \<Rightarrow> bool" where
  "open_ok s \<longleftrightarrow> closing s \<or> one_runtime s"

lemma open_ok_keeps: "open_ok s \<Longrightarrow> keeps_openings s s' \<Longrightarrow> open_ok s'"
  using one_runtime_keeps keeps_parts(3) by (auto simp: open_ok_def)

lemma keeps_task: "keeps_openings s s' \<Longrightarrow> t < length (tasks s) \<Longrightarrow> tasks s' ! t = tasks s ! t \<and> t < length (tasks s')"
  using keeps_parts(7) by (fastforce simp: nth_append)

lemma open_ok_task:
  assumes "open_ok s" and "keeps_openings s s'" and "t < length (tasks s)" "going (tasks s ! t)" "plain_task x"
  shows "open_ok (set_task t x s')"
proof (cases "closing s'")
  case False
  with assms(1,2) have "one_runtime s'" using one_runtime_keeps keeps_parts(3) by (auto simp: open_ok_def)
  from one_runtime_set_task [OF this _ _ assms(5), of t] keeps_task [OF assms(2,3)] assms(4) show ?thesis
    by (simp add: open_ok_def)
qed (simp add: open_ok_def set_task_def)

lemma keeps_start_operation: "keeps_openings s (snd (start_operation c i q s))"
  by (auto simp: start_operation_def split: sum.split intro!: keeps_trans [OF keeps_live kept_emit] simp: plain_effect_def)

lemma keeps_start_detach: "keeps_openings s (snd (start_detach c i s))"
proof -
  have k: "keeps_openings s (drop_connection c r (change_connection c f s))" for r f
    by (rule keeps_trans [OF keeps_connection keeps_drop])
  show ?thesis
    by (auto simp: start_detach_def Let_def split_beta split: option.split
        intro: k keeps_trans [OF k keeps_maybeDispose] keeps_trans [OF keeps_connection keeps_fields(1)])
qed

lemma keeps_attach: "keeps_openings s (snd (attach c r s))"
  by (auto simp: attach_def Let_def split_beta intro: keeps_maybeDispose keeps_trans [OF keeps_connection keeps_live])

lemma keeps_snap: "snap_advance cfg r pc a s = Some (x, s') \<Longrightarrow> keeps_openings s s'"
  by (auto simp: snap_advance_def broadcast_session_def keeps_send_all split: snap_pc.splits answer.splits if_splits)

lemma keeps_finish_operation: "keeps_openings s (finish_operation r s)"
  unfolding finish_operation_def by (rule keeps_trans [OF keeps_live keeps_schedule]) simp

lemma keeps_answer: "keeps_openings s (answer_request cfg c i outcome s)"
  by (auto simp: answer_request_def split_beta keeps_sendMessage split: sum.split
      intro: keeps_trans [OF keeps_report(2) keeps_sendMessage])

lemma open_ok_acquire: "open_ok s \<Longrightarrow> open_ok (snd (acquire call i s))"
  using one_runtime_acquire [of s call i]
  by (auto simp: open_ok_def acquire_def Let_def spawn_def emit_out_def split: option.splits)

lemma open_ok_start_command: "open_ok s \<Longrightarrow> open_ok (snd (start_command cfg c q s))"
  by (auto simp: start_command_def split: command.split
      intro: open_ok_acquire open_ok_keeps [OF _ keeps_start_operation] open_ok_keeps [OF _ keeps_start_detach]
        open_ok_acquire [OF open_ok_keeps [OF _ keeps_fields(2)]])

lemma open_ok_handleRequest: "open_ok s \<Longrightarrow> open_ok (handleRequest cfg c i q s)"
  unfolding handleRequest_def split_beta Let_def
  by (rule open_ok_keeps [OF open_ok_start_command [OF open_ok_keeps [OF _ kept_emit]] keeps_spawn])
     (simp_all add: plain_effect_def plain_task_def)

lemma tasks_acquire: "t < length (tasks s) \<Longrightarrow> tasks (snd (acquire call i s)) ! t = tasks s ! t \<and> t < length (tasks (snd (acquire call i s)))"
  by (auto simp: acquire_def Let_def spawn_def emit_out_def nth_append split: option.split)

lemma open_ok_set_going:
  "open_ok s \<Longrightarrow> t < length (tasks s) \<Longrightarrow> going (tasks s ! t) \<Longrightarrow> plain_task x \<Longrightarrow> open_ok (set_task t x s)"
  by (rule open_ok_task [OF _ keeps_refl])

lemma request_step_openings:
  assumes "request_step cfg c i name pc a s = Some (x, s')"
  shows "keeps_openings s s' \<or> (\<exists>call j. s' = snd (acquire call j s)) \<or>
    (\<exists>call j t own. s' = forget_opening j t own s \<and> (\<nexists>k p. tasks s ! t = Create k p))"
proof (cases pc)
  case (AcquireDisposing call j r)
  with assms show ?thesis
    by (auto simp: request_step_def split_beta split: option.splits)
next
  case (AcquireOpening call j t own)
  with assms have "s' = forget_opening j t own s \<and> (\<nexists>k p. tasks s ! t = Create k p)"
    by (auto simp: request_step_def task_at_def split: task.splits if_splits)
  then show ?thesis by blast
next
  case (AttachSnapshot r p)
  with assms show ?thesis
    by (cases p) (auto simp: request_step_def split: option.splits sum.splits intro: keeps_snap keeps_fields(1))
next
  case (OperationSnapshot r p)
  with assms show ?thesis
    by (cases p) (auto simp: request_step_def split: option.splits sum.splits
        intro: keeps_snap keeps_trans [OF keeps_snap keeps_finish_operation] keeps_finish_operation)
next
  case (DetachSnapshot r p)
  with assms show ?thesis
    by (cases p) (auto simp: request_step_def split_beta split: option.splits sum.splits intro: keeps_snap keeps_maybeDispose)
next
  case (Listing l)
  with assms show ?thesis by (auto simp: request_step_def split: if_splits)
next
  case (OperationCalled r)
  with assms show ?thesis by (auto simp: request_step_def split: answer.splits intro: keeps_finish_operation)
next
  case (AcquireDone r)
  with assms show ?thesis by (auto simp: request_step_def split_beta keeps_attach)
qed (use assms in \<open>auto simp: request_step_def keeps_fields keeps_answer split: option.splits\<close>)

lemma open_ok_request:
  assumes s: "open_ok s" and t: "t < length (tasks s)" "going (tasks s ! t)" and x: "plain_task x"
    and step: "request_step cfg c i name pc a s = Some (p, s')"
  shows "open_ok (set_task t x s')"
proof -
  from request_step_openings [OF step] consider "keeps_openings s s'" | call j where "s' = snd (acquire call j s)"
    | j k own where "s' = forget_opening j k own s" "\<nexists>l q. tasks s ! k = Create l q"
    by (elim disjE exE conjE) auto
  then show ?thesis
  proof cases
    case 1
    from open_ok_task [OF s 1 t x] show ?thesis .
  next
    case 2
    with open_ok_acquire [OF s] tasks_acquire [OF t(1)] t(2) x show ?thesis by (auto intro: open_ok_set_going)
  next
    case 3
    then have "open_ok s'" using s one_runtime_forget [of s k j own] by (auto simp: open_ok_def forget_opening_def)
    moreover have "tasks s' = tasks s" using 3 by (simp add: forget_opening_def)
    ultimately show ?thesis using t x by (auto intro: open_ok_set_going)
  qed
qed

lemma open_ok_create:
  assumes s: "open_ok s" and t: "t < length (tasks s)" "tasks s ! t = Create i pc"
    and step: "create_step t i pc a s = Some (x, s')"
  shows "open_ok (set_task t x s')"
proof (cases "closing s")
  case True
  then have "closing (set_task t x s')" using step
    by (auto simp: create_step_def set_task_def emit_out_def reportError_def Let_def
        split: create_pc.splits answer.splits if_splits)
  then show ?thesis by (simp add: open_ok_def)
next
  case False
  then have o: "one_runtime s" using s by (simp add: open_ok_def)
  have c: "creating s i t" using t by (auto simp: creating_def)
  have c': "creating s' i t" "one_runtime s'" if "keeps_openings s s'" for s'
    using that c o one_runtime_keeps by (simp_all add: creating_keeps)
  note d = disposals_create [OF one_runtime_parts(8) [OF o] t] and stays = one_runtime_create_stays [OF o c refl]
  have undo: "one_runtime (set_task t (Create i (CreateCleanup e)) (emit_out (Disposes t) s))" for e
    using stays [of "[Disposes t]", OF _ d [of "Create i (CreateCleanup e)"]] by (auto simp: no_opening_def disposed_for_def emit_out_def)
  have "Disposes t \<notin> set (out s)" if "pc = CreateCalled call" for call
    using disposals_okD(2) [OF one_runtime_parts(8) [OF o], of t] t that by (auto simp: disposed_for_def)
  then have on: "one_runtime (set_task t (Create i CreateSnapshot) s)" if "pc = CreateCalled call" for call
    using that stays [of "[]", OF _ d, of CreateSnapshot] by simp
  note release = one_runtime_release_create [OF c'(2,1)]
  show ?thesis
    using step False release [OF keeps_refl] release [OF keeps_report(1)] one_runtime_opened [OF o c] undo on t(2)
    by (auto simp: create_step_def open_ok_def Let_def split: create_pc.splits answer.splits if_splits)
       (auto simp: set_task_def emit_out_def)
qed

lemma list_task_plain: "plain_task (Request c i name pc)" "plain_task (Handshake c h)" "plain_task TaskDone" "plain_task (TaskFailed e)"
  "plain_task (Terminate r tp)" "plain_task (Broadcast bp)" "plain_task (RuntimeSnapshot r sp)" "plain_task (NotifyDisposed r)"
  "plain_task (ReportFailure w)" "plain_task (ClosingConnection c)" "plain_task (Disconnecting ws b)"
  by (simp_all add: plain_task_def)

lemma handshake_openings:
  "handshake_step cfg c pc a s = Some (x, s') \<Longrightarrow> keeps_openings s s' \<and> plain_task x"
  by (cases pc)
     (auto simp: handshake_step_def Let_def split_beta finish_hello_def send_rejected_def list_task_plain
       split: get_pc.splits answer.splits option.splits sum.splits if_splits
       intro: keeps_sendMessage keeps_fail_with keeps_connection keeps_trans [OF keeps_report(1) keeps_close_connection])

lemma broadcast_openings:
  "broadcast_step cfg pc a s = Some (x, s') \<Longrightarrow> keeps_openings s s' \<and> plain_task x"
  by (cases pc)
     (auto simp: broadcast_step_def list_task_plain keeps_fields split: answer.splits option.splits sum.splits if_splits list.splits
       intro: keeps_sendMessage keeps_trans [OF keeps_fields(4) keeps_report(1)])

lemma terminate_openings:
  "terminate_step r pc a s = Some (x, s') \<Longrightarrow> keeps_openings s s' \<and> plain_task x"
  by (cases pc)
     (auto simp: terminate_step_def split_beta list_task_plain split: answer.splits option.splits if_splits
       intro: keeps_disconnect_all keeps_maybeDispose keeps_report_failures)

lemma open_ok_finish:
  assumes s: "open_ok s" and t: "t < length (tasks s)" "tasks s ! t = DisposeRuntime r"
  shows "open_ok (set_task t TaskDone (finish_disposal r e s))"
proof (cases "closing s")
  case True
  then show ?thesis
    by (simp add: open_ok_def set_task_def finish_disposal_def emit_out_def change_live_def Let_def)
next
  case False
  with s have o: "one_runtime s" by (simp add: open_ok_def)
  have "one_runtime (set_task t TaskDone (finish_disposal r e s))"
    by (rule one_runtime_finish [OF o t, where e = e])
       (simp_all add: set_task_def finish_disposal_def emit_out_def change_live_def Let_def)
  then show ?thesis by (simp add: open_ok_def)
qed

lemma open_ok_closing: "closing s \<Longrightarrow> close_step pc a s = Some (x, s') \<Longrightarrow> closing s'"
proof -
  have fold: "closing (fold f xs s) = closing s" if "\<And>x s. closing (f x s) = closing s" for f :: "'b \<Rightarrow> server \<Rightarrow> server" and xs s
    using that by (induction xs arbitrary: s) simp_all
  have all: "closing (snd (disconnect_all cs s)) = closing s" for cs s
    using keeps_parts(3) [OF keeps_disconnect_all] .
  show "closing s \<Longrightarrow> close_step pc a s = Some (x, s') \<Longrightarrow> closing s'"
    using fold [of "\<lambda>c. emit_out (Closes c None)"] fold [of "\<lambda>c. change_connection c (\<lambda>k. k\<lparr>con_stage := Closing, con_timer := False\<rparr>)"]
      fold [of "\<lambda>t s'. case task_at s t of TaskFailed e \<Rightarrow> reportError e s' | _ \<Rightarrow> s'"] fold [of close_live]
    by (cases pc)
       (auto simp: close_step_def Let_def split_beta all reportError_def emit_out_def change_connection_def close_live_def
         unsubscribe_live_def change_live_def split: answer.splits if_splits task.split)
qed

lemma open_ok_resume:
  assumes s: "open_ok s" and t: "t < length (tasks s)" and step: "resume cfg t a s = Some s'"
  shows "open_ok s'"
proof -
  from step obtain x s1 where x: "task_step cfg t a s = Some (x, s1)" "s' = set_task t x s1"
    by (auto simp: resume_def)
  have plain: "open_ok s'" if "keeps_openings s s1 \<and> plain_task x" "going (tasks s ! t)"
    using open_ok_task [OF s _ t that(2)] that(1) x(2) by blast
  show ?thesis
  proof (cases "tasks s ! t")
    case (Handshake c pc)
    then show ?thesis using x(1) handshake_openings plain by (simp add: task_step_def going_def plain_task_def opening_task_def)
  next
    case (Request c i name pc)
    then obtain p where p: "request_step cfg c i name pc a s = Some (p, s1)"
      "x = (case p of None \<Rightarrow> TaskDone | Some pc \<Rightarrow> Request c i name pc)"
      using x(1) by (auto simp: task_step_def)
    have "plain_task x" using p(2) by (simp add: list_task_plain split: option.split)
    with open_ok_request [OF s t _ _ p(1)] Request x(2) show ?thesis
      by (simp add: going_def plain_task_def opening_task_def)
  next
    case (Create i pc)
    with open_ok_create [OF s t] x show ?thesis by (simp add: task_step_def)
  next
    case (DisposeRuntime r)
    with open_ok_finish [OF s t] x show ?thesis by (auto simp: task_step_def split: answer.splits)
  next
    case (NotifyDisposed r)
    with x(1) have "keeps_openings s s1 \<and> plain_task x"
      by (auto simp: task_step_def keeps_fields list_task_plain split: option.splits)
    then show ?thesis using NotifyDisposed by (intro plain) (auto simp: going_def plain_task_def opening_task_def)
  next
    case (ReportFailure w)
    with x(1) have "keeps_openings s s1 \<and> plain_task x"
      by (auto simp: task_step_def keeps_report_failures list_task_plain split: if_splits)
    then show ?thesis using ReportFailure by (intro plain) (auto simp: going_def plain_task_def opening_task_def)
  next
    case (RuntimeSnapshot r pc)
    with x(1) have "keeps_openings s s1 \<and> plain_task x"
      by (cases pc) (auto simp: task_step_def list_task_plain split: option.splits sum.splits
        intro: keeps_snap keeps_trans [OF keeps_snap keeps_report(1)])
    then show ?thesis using RuntimeSnapshot by (intro plain) (auto simp: going_def plain_task_def opening_task_def)
  next
    case (ClosingConnection c)
    with x(1) have "keeps_openings s s1 \<and> plain_task x"
      by (auto simp: task_step_def list_task_plain split: answer.splits
        intro: keeps_disconnect keeps_trans [OF keeps_report(1) keeps_disconnect])
    then show ?thesis using ClosingConnection by (intro plain) (auto simp: going_def plain_task_def opening_task_def)
  next
    case (Disconnecting ws b)
    with x(1) have "keeps_openings s s1 \<and> plain_task x"
      by (auto simp: task_step_def list_task_plain split: if_splits
        intro: keeps_report_failures keeps_trans [OF keeps_report_failures keeps_fields(1)])
    then show ?thesis using Disconnecting by (intro plain) (auto simp: going_def plain_task_def opening_task_def)
  next
    case (Terminate r pc)
    then show ?thesis using x(1) terminate_openings plain by (simp add: task_step_def going_def plain_task_def opening_task_def)
  next
    case (Broadcast pc)
    then show ?thesis using x(1) broadcast_openings plain by (simp add: task_step_def going_def plain_task_def opening_task_def)
  next
    case (ClosingServer pc)
    then have "closing s" using s one_runtime_parts(6) [of s pc] t by (auto simp: open_ok_def) (metis nth_mem)
    then show ?thesis using open_ok_closing x ClosingServer by (auto simp: task_step_def open_ok_def set_task_def)
  qed (use x(1) in \<open>simp_all add: task_step_def\<close>)
qed

lemma open_ok_dispatch: "open_ok s \<Longrightarrow> open_ok (dispatchMessage cfg c m s)"
proof -
  assume s: "open_ok s"
  have k: "keeps_openings s (start_handshake cfg c v s)" for v
    unfolding start_handshake_def Let_def
    by (auto simp: list_task_plain intro: keeps_trans [OF keeps_trans [OF keeps_connection keeps_spawn] keeps_connection]
        keeps_trans [OF keeps_trans [OF keeps_trans [OF keeps_connection keeps_failProtocol] keeps_spawn] keeps_connection])
  show ?thesis using s
    by (auto simp: dispatchMessage_def split: client_message.split
        intro: open_ok_keeps [OF _ k] open_ok_keeps [OF _ keeps_failProtocol] open_ok_keeps [OF _ keeps_connection] open_ok_handleRequest)
qed

lemma open_ok_receive: "open_ok s \<Longrightarrow> open_ok (receive cfg c chunk s)"
proof -
  have all: "open_ok s \<Longrightarrow> open_ok (dispatch_all cfg c ms s)" for ms s
    by (induction ms arbitrary: s) (simp_all add: open_ok_dispatch)
  show "open_ok s \<Longrightarrow> open_ok (receive cfg c chunk s)"
    by (auto simp: receive_def Let_def split_beta split: sum.split
        intro!: all intro: open_ok_keeps [OF _ keeps_connection] open_ok_keeps [OF open_ok_keeps [OF _ keeps_connection] keeps_fail_with])
qed

lemma keeps_transportClosed: "keeps_openings s (transportClosed c s)"
  by (auto simp: transportClosed_def Let_def split_beta split: sum.split
      intro: keeps_disconnect keeps_trans [OF keeps_connection keeps_disconnect]
        keeps_trans [OF keeps_trans [OF keeps_connection keeps_report(1)] keeps_disconnect])

lemma keeps_runtime_event: "keeps_openings s (handleRuntimeEvent cfg r ev s)"
proof (cases ev)
  case (RuntimeError e)
  have "keeps_openings s' (fold (\<lambda>c. emit_out (Closes c None)) cs s')" for cs s'
    by (rule keeps_fold) (rule kept_emit, simp add: plain_effect_def)
  note f = this
  show ?thesis
    unfolding handleRuntimeEvent_def RuntimeError runtime_event.case Let_def
    by (auto intro: keeps_trans [OF keeps_trans [OF keeps_trans [OF keeps_trans [OF keeps_live keeps_report(1)] keeps_unsubscribe] f] keeps_spawn]
        simp: list_task_plain)
qed (auto simp: handleRuntimeEvent_def list_task_plain intro: keeps_trans [OF keeps_spawn keeps_schedule] keeps_trans [OF keeps_send_all keeps_schedule])

lemma open_ok_step: "open_ok s \<Longrightarrow> server_step cfg ev s = Some s' \<Longrightarrow> open_ok s'"
proof (cases ev)
  case Accepts
  moreover have "keeps_openings s (accept_connection cfg s)"
    by (auto simp: accept_connection_def kept_emit plain_effect_def intro: keeps_trans [OF keeps_fields(2) keeps_fields(7)])
  ultimately show "open_ok s \<Longrightarrow> server_step cfg ev s = Some s' \<Longrightarrow> open_ok s'"
    using open_ok_keeps by (auto simp: server_step_def)
next
  case (Dequeues c)
  then show "open_ok s \<Longrightarrow> server_step cfg ev s = Some s' \<Longrightarrow> open_ok s'"
    by (auto simp: server_step_def dequeue_request_def Let_def split: if_splits list.splits option.splits prod.splits
        intro: open_ok_keeps [OF _ keeps_connection] open_ok_handleRequest)
next
  case StartsBroadcast
  moreover have "keeps_openings s (spawn (Broadcast pc) (s\<lparr>broadcastQueue := q, revision := v, broadcasting := True\<rparr>))" for pc q v
    by (rule keeps_trans [OF keeps_trans [OF keeps_trans [OF keeps_fields(5) keeps_fields(6)] keeps_fields(4)] keeps_spawn])
       (simp add: list_task_plain)
  ultimately show "open_ok s \<Longrightarrow> server_step cfg ev s = Some s' \<Longrightarrow> open_ok s'"
    using open_ok_keeps [OF _ keeps_fields(5)] open_ok_keeps by (auto simp: server_step_def start_broadcast_def Let_def split: if_splits)
next
  case CloseCalled
  then show "open_ok s \<Longrightarrow> server_step cfg ev s = Some s' \<Longrightarrow> open_ok s'"
    by (auto simp: server_step_def open_ok_def spawn_def)
next
  case (HandshakeTimesOut c)
  then show "open_ok s \<Longrightarrow> server_step cfg ev s = Some s' \<Longrightarrow> open_ok s'"
    by (auto simp: server_step_def split: if_splits intro: open_ok_keeps [OF _ keeps_trans [OF keeps_connection keeps_failProtocol]])
qed (auto simp: server_step_def send_rejected_def keeps_fields split: if_splits
      intro: open_ok_receive open_ok_resume open_ok_keeps [OF _ keeps_transportClosed] open_ok_keeps [OF _ keeps_connection]
        open_ok_keeps [OF _ keeps_runtime_event] open_ok_keeps [OF _ keeps_fields(3)]
        open_ok_keeps [OF _ keeps_trans [OF keeps_report(1) keeps_close_connection]])

lemma open_ok_reachable: "server_reachable cfg s \<Longrightarrow> open_ok s"
proof (induction rule: server_reachable.induct)
  case new
  show ?case
    by (simp add: open_ok_def one_runtime_def new_server_def creating_def holds_def one_disposal_def pending_def disposals_ok_def)
qed (rule open_ok_step)

text \<open>
  C15. A session never has two runtimes: while the server is open, between two calls of the service that open a
  runtime of the same session the first one has been released, that is, its opening failed or it has been disposed.
\<close>

theorem runtimes_are_exclusive:
  assumes "server_reachable cfg s" and "\<not> closing s"
    and "out s = before @ Opens i t call # between @ Opens i t' call' # after"
  shows "Released i \<in> set between"
proof -
  have "alternate i False (out s)"
    using open_ok_reachable [OF assms(1)] assms(2) one_runtime_parts(7) [of s i] by (simp add: open_ok_def)
  then have "alternate i True (between @ Opens i t' call' # after)"
    by (simp add: assms(3) opens_def split: if_splits)
  then have "\<not> held i True between" by (simp add: opens_def)
  moreover have "held i True xs" if "Released i \<notin> set xs" for xs
    using that by (induction xs) auto
  ultimately show ?thesis by blast
qed

end
