(* ===== verification/ServerRequests.thy ===== *)
theory ServerRequests
  imports ServerSafety
begin

text \<open>
  Requests, attachments and the handshake of the server: one relation \<open>background\<close> holds of everything that runs
  beside the requests, and the invariants that it keeps are then checked at the few steps that are not background.
\<close>

subsection \<open>Background steps\<close>

definition live_cons :: "server \<Rightarrow> nat set" where
  "live_cons s = (\<Union>l\<in>set (lives s). set (live_connections l))"

definition background_task :: "task \<Rightarrow> bool" where
  "background_task x \<longleftrightarrow> (case x of Request c i name pc \<Rightarrow> False | Handshake c pc \<Rightarrow> False | Broadcast pc \<Rightarrow> False
     | TaskOpened r \<Rightarrow> False | RuntimeSnapshot r pc \<Rightarrow> False | _ \<Rightarrow> True)"

definition background_effect :: "nat set \<Rightarrow> out_effect \<Rightarrow> bool" where
  "background_effect cs x \<longleftrightarrow> (case x of Sends c m f \<Rightarrow> c \<in> cs \<and> (\<exists>e. m = OutEvent e)
     | Executes c i q \<Rightarrow> False | _ \<Rightarrow> True)"

definition lives_le :: "live_session list \<Rightarrow> live_session list \<Rightarrow> bool" where
  "lives_le ls ls' \<longleftrightarrow> length ls' = length ls \<and> (\<forall>r<length ls.
     live_id (ls' ! r) = live_id (ls ! r) \<and> operationCount (ls' ! r) = operationCount (ls ! r) \<and>
     set (live_connections (ls' ! r)) \<subseteq> set (live_connections (ls ! r)) \<and>
     (live_disposing (ls ! r) \<noteq> NotDisposing \<longrightarrow> live_disposing (ls' ! r) \<noteq> NotDisposing) \<and>
     (live_disposing (ls' ! r) \<noteq> NotDisposing \<longrightarrow> live_disposing (ls ! r) \<noteq> NotDisposing \<or> operationCount (ls ! r) = 0))"

definition cons_le :: "connection list \<Rightarrow> connection list \<Rightarrow> bool" where
  "cons_le cs cs' \<longleftrightarrow> length cs' = length cs \<and> (\<forall>c<length cs. con_stage (cs' ! c) = Ready \<longrightarrow> con_stage (cs ! c) = Ready)"

definition attach_ok :: "server \<Rightarrow> bool" where
  "attach_ok s \<longleftrightarrow> (\<forall>i r c. map_of (liveSessions s) i = Some r \<and> c \<in> set (live_connections (lives s ! r)) \<longrightarrow>
     c < length (connections s) \<and> \<not> con_disconnected (connections s ! c) \<and> i \<in> set (con_sessions (connections s ! c)))"

definition dispose_ok :: "server \<Rightarrow> bool" where
  "dispose_ok s \<longleftrightarrow> (\<forall>r. DisposeRuntime r \<in> set (tasks s) \<longrightarrow> r < length (lives s) \<and> live_disposing (lives s ! r) \<noteq> NotDisposing)"

definition live_ok :: "server \<Rightarrow> bool" where
  "live_ok s \<longleftrightarrow> (\<forall>i r. map_of (liveSessions s) i = Some r \<longrightarrow> r < length (lives s) \<and> live_id (lives s ! r) = i)"

definition background :: "server \<Rightarrow> server \<Rightarrow> bool" where
  "background s s' \<longleftrightarrow>
     (\<exists>ts. tasks s' = tasks s @ ts \<and> list_all background_task ts) \<and>
     (\<exists>ds. out s' = out s @ ds \<and> list_all (background_effect (live_cons s)) ds) \<and>
     map_of (liveSessions s') \<subseteq>\<^sub>m map_of (liveSessions s) \<and>
     lives_le (lives s) (lives s') \<and> cons_le (connections s) (connections s') \<and>
     (live_ok s \<and> attach_ok s \<longrightarrow> attach_ok s') \<and> (dispose_ok s \<longrightarrow> dispose_ok s')"

lemma lives_le_refl [simp]: "lives_le ls ls"
  by (simp add: lives_le_def)

lemma lives_le_trans: "lives_le a b \<Longrightarrow> lives_le b c \<Longrightarrow> lives_le a c"
  unfolding lives_le_def by fastforce

lemma cons_le_refl [simp]: "cons_le cs cs"
  by (simp add: cons_le_def)

lemma cons_le_trans: "cons_le a b \<Longrightarrow> cons_le b c \<Longrightarrow> cons_le a c"
  by (simp add: cons_le_def)

lemma lives_le_cons: "lives_le (lives s) (lives s') \<Longrightarrow> live_cons s' \<subseteq> live_cons s"
  by (fastforce simp: lives_le_def live_cons_def in_set_conv_nth)

lemma background_effect_mono: "cs \<subseteq> cs' \<Longrightarrow> background_effect cs x \<Longrightarrow> background_effect cs' x"
  by (auto simp: background_effect_def split: out_effect.splits)

lemma live_ok_le: "map_of (liveSessions s') \<subseteq>\<^sub>m map_of (liveSessions s) \<Longrightarrow> lives_le (lives s) (lives s') \<Longrightarrow> live_ok s \<Longrightarrow> live_ok s'"
  unfolding live_ok_def lives_le_def by (metis domIff map_le_def option.distinct(1))

lemma backgroundI:
  assumes "tasks s' = tasks s @ ts" "list_all background_task ts" "out s' = out s @ ds" "list_all (background_effect (live_cons s)) ds"
    "map_of (liveSessions s') \<subseteq>\<^sub>m map_of (liveSessions s)" "lives_le (lives s) (lives s')" "cons_le (connections s) (connections s')"
    "live_ok s \<Longrightarrow> attach_ok s \<Longrightarrow> attach_ok s'" "dispose_ok s \<Longrightarrow> dispose_ok s'"
  shows "background s s'"
  using assms by (auto simp: background_def)

lemma backgroundE:
  assumes "background s s'"
  obtains ts ds where "tasks s' = tasks s @ ts" "list_all background_task ts" "out s' = out s @ ds"
    "list_all (background_effect (live_cons s)) ds" "map_of (liveSessions s') \<subseteq>\<^sub>m map_of (liveSessions s)" "lives_le (lives s) (lives s')"
    "cons_le (connections s) (connections s')" "live_ok s \<Longrightarrow> attach_ok s \<Longrightarrow> attach_ok s'" "dispose_ok s \<Longrightarrow> dispose_ok s'"
  using assms by (auto simp: background_def)

lemma background_refl [simp]: "background s s"
  by (rule backgroundI [of _ _ "[]" "[]"]) simp_all

lemma background_trans: "background s s' \<Longrightarrow> background s' s'' \<Longrightarrow> background s s''"
proof -
  assume a: "background s s'" and b: "background s' s''"
  from a obtain ts ds where a': "tasks s' = tasks s @ ts" "list_all background_task ts" "out s' = out s @ ds"
    "list_all (background_effect (live_cons s)) ds" "map_of (liveSessions s') \<subseteq>\<^sub>m map_of (liveSessions s)" "lives_le (lives s) (lives s')"
    "cons_le (connections s) (connections s')" "live_ok s \<Longrightarrow> attach_ok s \<Longrightarrow> attach_ok s'" "dispose_ok s \<Longrightarrow> dispose_ok s'"
    by (blast elim: backgroundE)
  from b obtain us es where b': "tasks s'' = tasks s' @ us" "list_all background_task us" "out s'' = out s' @ es"
    "list_all (background_effect (live_cons s')) es" "map_of (liveSessions s'') \<subseteq>\<^sub>m map_of (liveSessions s')" "lives_le (lives s') (lives s'')"
    "cons_le (connections s') (connections s'')" "live_ok s' \<Longrightarrow> attach_ok s' \<Longrightarrow> attach_ok s''" "dispose_ok s' \<Longrightarrow> dispose_ok s''"
    by (blast elim: backgroundE)
  have "list_all (background_effect (live_cons s)) es"
    using b'(4) background_effect_mono [OF lives_le_cons [OF a'(6)]] by (auto simp: list_all_iff)
  then show ?thesis
    using a' b' live_ok_le [OF a'(5,6)] lives_le_trans cons_le_trans map_le_trans
    by (intro backgroundI [of s'' s "ts @ us" "ds @ es"]) auto
qed

lemma background_emit: "background_effect (live_cons s) x \<Longrightarrow> background s (emit_out x s)"
  by (rule backgroundI [of _ _ "[]" "[x]"]) (auto simp: emit_out_def attach_ok_def dispose_ok_def)

lemma background_spawn:
  "background_task x \<Longrightarrow> (\<And>r. x = DisposeRuntime r \<Longrightarrow> r < length (lives s) \<and> live_disposing (lives s ! r) \<noteq> NotDisposing) \<Longrightarrow>
    background s (spawn x s)"
  by (rule backgroundI [of _ _ "[x]" "[]"]) (auto simp: spawn_def attach_ok_def dispose_ok_def)

lemma background_connection:
  assumes "\<And>k. con_sessions (f k) = con_sessions k \<and> con_disconnected (f k) = con_disconnected k \<and> (con_stage (f k) = Ready \<longrightarrow> con_stage k = Ready)"
  shows "background s (change_connection c f s)"
  by (rule backgroundI [of _ _ "[]" "[]"])
     (use assms in \<open>auto simp: change_connection_def cons_le_def attach_ok_def dispose_ok_def update_nth\<close>)

lemma background_live:
  assumes "\<And>l. live_id (f l) = live_id l \<and> operationCount (f l) = operationCount l \<and>
      set (live_connections (f l)) \<subseteq> set (live_connections l) \<and> live_disposing (f l) = live_disposing l"
  shows "background s (change_live r f s)"
proof (rule backgroundI [of _ _ "[]" "[]"])
  show "attach_ok (change_live r f s)" if "live_ok s" "attach_ok s"
    unfolding attach_ok_def
  proof (intro allI impI)
    fix i k c assume k: "map_of (liveSessions (change_live r f s)) i = Some k \<and> c \<in> set (live_connections (lives (change_live r f s) ! k))"
    then have m: "map_of (liveSessions s) i = Some k" and l: "k < length (lives s)"
      using that(1) by (auto simp: change_live_def live_ok_def)
    with k assms [of "lives s ! k"] have "c \<in> set (live_connections (lives s ! k))"
      by (auto simp: change_live_def update_nth split: if_splits)
    with that(2) m show "c < length (connections (change_live r f s)) \<and> \<not> con_disconnected (connections (change_live r f s) ! c) \<and>
        i \<in> set (con_sessions (connections (change_live r f s) ! c))"
      by (auto simp: attach_ok_def change_live_def)
  qed
qed (use assms in \<open>auto simp: change_live_def lives_le_def dispose_ok_def update_nth\<close>)

lemma background_fields:
  "background s (queue_broadcast s)" "background s (s\<lparr>uuids := n\<rparr>)" "background s (s\<lparr>phases := p\<rparr>)"
  "background s (s\<lparr>broadcasting := b\<rparr>)" "background s (s\<lparr>broadcastQueue := q\<rparr>)" "background s (s\<lparr>revision := v\<rparr>)"
  "background s (s\<lparr>closing := w\<rparr>)" "background s (s\<lparr>openingSessions := op\<rparr>)"
  by (rule backgroundI [of _ _ "[]" "[]"]; auto simp: queue_broadcast_def attach_ok_def dispose_ok_def)+

lemma background_fold: "(\<And>x s. background s (f x s)) \<Longrightarrow> background s (fold f xs s)"
  by (induction xs arbitrary: s) (auto intro: background_trans)

lemma background_report [simp]: "background s (reportError e s)" "background s (report_if b e s)"
  by (simp_all add: report_if_def reportError_def background_emit background_effect_def)

lemma background_close_connection: "background s (close_connection c ending s)"
  unfolding close_connection_def
  by (rule background_trans [OF background_emit background_spawn]) (simp_all add: background_effect_def background_task_def)

lemma background_sendMessage: "c \<in> live_cons s \<Longrightarrow> background s (snd (sendMessage cfg c (OutEvent e) s))"
  by (auto simp: sendMessage_def background_effect_def intro: background_emit background_trans [OF background_report(1) background_close_connection] split: sum.split)

lemma sendMessage_lives: "lives (snd (sendMessage cfg c m s)) = lives s"
  by (auto simp: sendMessage_def close_connection_def reportError_def emit_out_def spawn_def split: sum.split)

lemma background_send_all: "set cs \<subseteq> live_cons s \<Longrightarrow> background s (send_all cfg cs (OutEvent e) s)"
proof (induction cs arbitrary: s)
  case (Cons c cs)
  have "live_cons (snd (sendMessage cfg c (OutEvent e) s)) = live_cons s" by (simp add: live_cons_def sendMessage_lives)
  then have "background (snd (sendMessage cfg c (OutEvent e) s)) (send_all cfg cs (OutEvent e) (snd (sendMessage cfg c (OutEvent e) s)))"
    using Cons by simp
  from background_trans [OF background_sendMessage this] Cons.prems show ?case by (simp add: send_all_def)
qed (simp add: send_all_def)

lemma background_unsubscribe: "background s (unsubscribe_live r s)"
  unfolding unsubscribe_live_def
  by (rule background_trans [OF background_live background_emit]) (simp_all add: background_effect_def)

lemma background_maybeDispose: "background s (snd (maybeDispose r s))"
proof (cases "disposable r s")
  case True
  define d where "d = (lives s ! r)\<lparr>live_subscribed := False, live_disposing := DisposePending\<rparr>"
  from True have r: "r < length (lives s)" and not: "live_disposing (lives s ! r) = NotDisposing" "operationCount (lives s ! r) = 0"
    by (simp_all add: disposable_def Let_def)
  have s': "snd (maybeDispose r s) = s\<lparr>lives := (lives s)[r := d],
      tasks := tasks s @ [DisposeRuntime r, NotifyDisposed r], out := out s @ [Unsubscribes r, Disposes (live_runtime (lives s ! r))]\<rparr>"
    using True r by (simp add: maybeDispose_def Let_def unsubscribe_live_def emit_out_def change_live_def spawn_def d_def)
  have conns: "live_connections ((lives s)[r := d] ! k) = live_connections (lives s ! k)" for k
    using r by (cases "k = r") (simp_all add: d_def)
  show ?thesis
  proof (rule backgroundI [of _ _ "[DisposeRuntime r, NotifyDisposed r]" "[Unsubscribes r, Disposes (live_runtime (lives s ! r))]"])
    show "lives_le (lives s) (lives (snd (maybeDispose r s)))"
      using r not by (auto simp: s' lives_le_def nth_list_update d_def)
    show "attach_ok s \<Longrightarrow> attach_ok (snd (maybeDispose r s))"
      by (auto simp: s' attach_ok_def conns)
    show "dispose_ok s \<Longrightarrow> dispose_ok (snd (maybeDispose r s))"
      using r by (auto simp: s' dispose_ok_def nth_list_update d_def)
  qed (simp_all add: s' background_task_def background_effect_def)
qed (simp add: maybeDispose_def)

lemma background_schedule: "background s (scheduleMaybeDispose r s)"
  unfolding scheduleMaybeDispose_def
  using background_trans [OF background_maybeDispose [of s r] background_spawn [of "ReportFailure (fst (maybeDispose r s))"]]
  by (simp add: background_task_def split_beta)

lemma background_dispose_all: "background s (snd (maybe_dispose_all rs s))"
  by (induction rs arbitrary: s) (auto simp: split_beta Let_def intro: background_trans [OF background_maybeDispose])

lemma background_drop: "background s (drop_connection c r s)"
  unfolding drop_connection_def by (rule background_live) auto

lemma fold_drop:
  "r < length (lives s) \<Longrightarrow> set (live_connections (lives (fold (drop_connection c) rs s) ! r)) =
     set (live_connections (lives s ! r)) - (if r \<in> set rs then {c} else {})"
proof (induction rs arbitrary: s)
  case (Cons k rs)
  then have "r < length (lives (drop_connection c k s))" by (simp add: drop_connection_def change_live_def)
  from Cons.IH [OF this] Cons.prems show ?case
    by (auto simp: drop_connection_def change_live_def update_nth)
qed simp

lemma fold_drop_same:
  "connections (fold (drop_connection c) rs s) = connections s" "liveSessions (fold (drop_connection c) rs s) = liveSessions s"
  "length (lives (fold (drop_connection c) rs s)) = length (lives s)"
  by (induction rs arbitrary: s) (simp_all add: drop_connection_def change_live_def)

lemma background_detached:
  defines "f \<equiv> \<lambda>k. k\<lparr>con_disconnected := True, con_stage := Closed, con_timer := False, con_sessions := []\<rparr>"
  shows "background s (fold (drop_connection c) (attached_lives c s) (change_connection c f s))" (is "background s ?t")
proof -
  have drop: "background (change_connection c f s) ?t" by (rule background_fold) (rule background_drop)
  then obtain ts ds where d: "tasks ?t = tasks (change_connection c f s) @ ts" "list_all background_task ts"
    "out ?t = out (change_connection c f s) @ ds" "list_all (background_effect (live_cons (change_connection c f s))) ds"
    "lives_le (lives (change_connection c f s)) (lives ?t)" "dispose_ok (change_connection c f s) \<Longrightarrow> dispose_ok ?t"
    by (blast elim: backgroundE)
  show ?thesis
  proof (rule backgroundI)
    show "tasks ?t = tasks s @ ts" "list_all background_task ts" "out ?t = out s @ ds" "list_all (background_effect (live_cons s)) ds"
      "lives_le (lives s) (lives ?t)" using d by (simp_all add: change_connection_def live_cons_def)
    show "map_of (liveSessions ?t) \<subseteq>\<^sub>m map_of (liveSessions s)" by (simp add: fold_drop_same change_connection_def)
    show "cons_le (connections s) (connections ?t)"
      by (cases "c < length (connections s)") (auto simp: fold_drop_same change_connection_def cons_le_def nth_list_update f_def)
    show "dispose_ok ?t" if "dispose_ok s" using d(6) that by (simp add: dispose_ok_def change_connection_def)
    show "attach_ok ?t" if ok: "live_ok s" "attach_ok s"
      unfolding attach_ok_def
    proof (intro allI impI)
      fix i r k assume k: "map_of (liveSessions ?t) i = Some r \<and> k \<in> set (live_connections (lives ?t ! r))"
      then have m: "map_of (liveSessions s) i = Some r" by (simp add: fold_drop_same change_connection_def)
      then have r: "r < length (lives s)" using ok(1) by (auto simp: live_ok_def)
      then have k': "k \<in> set (live_connections (lives s ! r)) - (if r \<in> set (attached_lives c s) then {c} else {})"
        using k fold_drop [of r "change_connection c f s"] by (simp add: change_connection_def)
      then have a: "k < length (connections s)" "\<not> con_disconnected (connections s ! k)" "i \<in> set (con_sessions (connections s ! k))"
        using ok(2) m by (auto simp: attach_ok_def)
      have "k \<noteq> c"
      proof
        assume "k = c"
        with a(3) m have "r \<in> set (attached_lives c s)"
          by (force simp: attached_lives_def map_filter_def)
        with k' \<open>k = c\<close> show False by simp
      qed
      with a show "k < length (connections ?t) \<and> \<not> con_disconnected (connections ?t ! k) \<and> i \<in> set (con_sessions (connections ?t ! k))"
        by (simp add: fold_drop_same change_connection_def)
    qed
  qed
qed

lemma background_disconnect: "background s (snd (disconnect c s))"
proof (cases "con_disconnected (connections s ! c)")
  case False
  show ?thesis
    using False by (simp add: disconnect_def Let_def split_beta)
      (rule background_trans [OF background_trans [OF background_detached background_dispose_all] background_spawn],
        simp_all add: background_task_def)
qed (simp add: disconnect_def)

lemma background_disconnect_all: "background s (snd (disconnect_all cs s))"
  by (induction cs arbitrary: s) (auto simp: split_beta Let_def intro: background_trans [OF background_disconnect])

lemma background_failProtocol: "background s (failProtocol cfg c e s)"
proof -
  have k: "background s (change_connection c (\<lambda>k. k\<lparr>con_stage := Closing, con_timer := False\<rparr>) s)"
    by (rule background_connection) simp
  show ?thesis
    by (auto simp: failProtocol_def Let_def split: sum.split
        intro: background_trans [OF k background_close_connection]
          background_trans [OF background_trans [OF k background_report(1)] background_close_connection])
qed

lemma background_fail_with: "background s (fail_with cfg c e s)"
  by (auto simp: fail_with_def split_beta intro: background_trans [OF background_report(2) background_failProtocol])

lemma background_report_failures: "background s (report_failures ws s)"
proof -
  have "background s' (case wait_result w s of Some (Some e) \<Rightarrow> reportError e s' | _ \<Rightarrow> s')" for w s'
    by (auto split: option.split)
  then show ?thesis unfolding report_failures_def by (rule background_fold)
qed

lemma live_cons_member: "r < length (lives s) \<Longrightarrow> set (live_connections (lives s ! r)) \<subseteq> live_cons s"
  unfolding live_cons_def by (meson UN_upper nth_mem)

lemma background_snap:
  assumes "r < length (lives s)" "snap_advance cfg r pc a s = Some (x, s')"
  shows "background s s'"
  using assms background_send_all [OF live_cons_member [OF assms(1)]]
  by (auto simp: snap_advance_def broadcast_session_def split: snap_pc.splits answer.splits if_splits)

lemma background_terminate_step: "terminate_step r pc a s = Some (x, s') \<Longrightarrow> background s s' \<and> (\<exists>pc. x = Terminate r pc \<or> x = TaskDone)"
  by (cases pc)
     (auto simp: terminate_step_def split_beta split: answer.splits option.splits if_splits
       intro: background_disconnect_all background_maybeDispose background_report_failures)

lemma background_transportClosed: "background s (transportClosed c s)"
proof -
  have k: "background s (change_connection c (\<lambda>k. k\<lparr>con_decoder := d\<rparr>) s)" for d by (rule background_connection) simp
  show ?thesis
    by (auto simp: transportClosed_def Let_def split_beta split: sum.split
        intro: background_disconnect background_trans [OF k background_disconnect]
          background_trans [OF background_trans [OF k background_report(1)] background_disconnect])
qed

lemma background_runtime_event:
  assumes "r < length (lives s)" "ev \<noteq> RuntimeSnapshotEvent"
  shows "background s (handleRuntimeEvent cfg r ev s)"
proof (cases ev)
  case (RuntimeError e)
  have f: "background s' (fold (\<lambda>c. emit_out (Closes c None)) cs s')" for cs s'
    by (rule background_fold) (rule background_emit, simp add: background_effect_def)
  have t: "background s (change_live r (\<lambda>l. l\<lparr>live_terminal := True\<rparr>) s)" by (rule background_live) simp
  show ?thesis
    unfolding handleRuntimeEvent_def RuntimeError runtime_event.case Let_def
    by (auto intro!: background_trans [OF background_trans [OF background_trans [OF background_trans [OF t background_report(1)] background_unsubscribe] f] background_spawn]
        simp: background_task_def)
next
  case (RuntimeProgress v)
  then show ?thesis
    using background_trans [OF background_send_all [OF live_cons_member [OF assms(1)]] background_schedule]
    by (simp add: handleRuntimeEvent_def)
qed (use assms(2) in simp)

lemma background_finish:
  assumes t: "DisposeRuntime r \<in> set (tasks s)" and ok: "dispose_ok s"
  shows "background s (finish_disposal r e s)"
proof -
  have r: "r < length (lives s)" "live_disposing (lives s ! r) \<noteq> NotDisposing" using t ok by (auto simp: dispose_ok_def)
  define m where "m = (if map_of (liveSessions s) (live_id (lives s ! r)) = Some r
    then AList.delete (live_id (lives s ! r)) (liveSessions s) else liveSessions s)"
  have s': "finish_disposal r e s = s\<lparr>lives := (lives s)[r := (lives s ! r)\<lparr>live_disposing := DisposeSettled e\<rparr>], liveSessions := m,
      out := out s @ [Released (live_id (lives s ! r))]\<rparr>"
    by (simp add: finish_disposal_def emit_out_def change_live_def Let_def m_def)
  have sub: "map_of m \<subseteq>\<^sub>m map_of (liveSessions s)"
    by (auto simp: m_def map_le_def delete_conv')
  have conns: "live_connections ((lives s)[r := (lives s ! r)\<lparr>live_disposing := DisposeSettled e\<rparr>] ! k) = live_connections (lives s ! k)" for k
    using r by (cases "k = r") simp_all
  show ?thesis
  proof (rule backgroundI [of _ _ "[]" "[Released (live_id (lives s ! r))]"])
    show "lives_le (lives s) (lives (finish_disposal r e s))" using r by (auto simp: s' lives_le_def nth_list_update)
    have "map_of (liveSessions s) i = Some k" if "map_of m i = Some k" for i k
      using sub that by (metis domI map_le_def)
    then show "attach_ok (finish_disposal r e s)" if "attach_ok s"
      using that by (fastforce simp: s' attach_ok_def conns)
    have "live_disposing ((lives s)[r := (lives s ! r)\<lparr>live_disposing := DisposeSettled e\<rparr>] ! k) \<noteq> NotDisposing"
      if "live_disposing (lives s ! k) \<noteq> NotDisposing" for k
      using that r by (cases "k = r") simp_all
    then show "dispose_ok (finish_disposal r e s)" using ok by (simp add: s' dispose_ok_def)
  qed (simp_all add: s' sub background_effect_def)
qed

subsection \<open>The invariant\<close>

definition greeted_on :: "nat \<Rightarrow> out_effect list \<Rightarrow> bool" where
  "greeted_on c xs \<longleftrightarrow> (\<exists>i v f. Sends c (OutHello i v) f \<in> set xs)"

definition is_hello :: "out_message \<Rightarrow> bool" where
  "is_hello m \<longleftrightarrow> (case m of OutHello i v \<Rightarrow> True | _ \<Rightarrow> False)"

text \<open>Everything sent on a connection comes behind its hello.\<close>

definition hello_first :: "out_effect list \<Rightarrow> bool" where
  "hello_first xs \<longleftrightarrow> (\<forall>ys c m f zs. xs = ys @ Sends c m f # zs \<longrightarrow> is_hello m \<or> greeted_on c ys)"

text \<open>The connections a task is going to send to, the live sessions it uses, and the one it runs an operation of.\<close>

definition task_cons :: "task \<Rightarrow> nat set" where
  "task_cons x = (case x of Request c i name pc \<Rightarrow> {c}
     | Handshake c pc \<Rightarrow> (case pc of HelloGet n g \<Rightarrow> {} | _ \<Rightarrow> {c})
     | Broadcast pc \<Rightarrow> (case pc of BroadcastModels n cs \<Rightarrow> set cs | BroadcastList n cs ms l \<Rightarrow> set cs | BroadcastSend v cs \<Rightarrow> set cs)
     | _ \<Rightarrow> {})"

definition request_lives :: "request_pc \<Rightarrow> nat set" where
  "request_lives pc = (case pc of AcquireDone r \<Rightarrow> {r} | AttachDone r \<Rightarrow> {r} | AttachSnapshot r p \<Rightarrow> {r} | OperationCalled r \<Rightarrow> {r}
     | OperationSnapshot r p \<Rightarrow> {r} | DetachSnapshot r p \<Rightarrow> {r} | _ \<Rightarrow> {})"

definition task_lives :: "task \<Rightarrow> nat set" where
  "task_lives x = (case x of Request c i name pc \<Rightarrow> request_lives pc | TaskOpened r \<Rightarrow> {r} | RuntimeSnapshot r p \<Rightarrow> {r} | _ \<Rightarrow> {})"

definition operates_on :: "nat \<Rightarrow> task \<Rightarrow> bool" where
  "operates_on r x \<longleftrightarrow> (case x of Request c i name pc \<Rightarrow>
     (case pc of OperationCalled k \<Rightarrow> k = r | OperationSnapshot k p \<Rightarrow> k = r | _ \<Rightarrow> False) | _ \<Rightarrow> False)"

abbreviation occurs :: "('x \<Rightarrow> bool) \<Rightarrow> 'x list \<Rightarrow> nat" where
  "occurs P xs \<equiv> length (filter P xs)"

definition answers :: "nat \<Rightarrow> js_string \<Rightarrow> out_effect \<Rightarrow> bool" where
  "answers c i x \<longleftrightarrow> (case x of Sends k m f \<Rightarrow> k = c \<and> (\<exists>r. m = OutResponse i r) | _ \<Rightarrow> False)"

definition asks :: "nat \<Rightarrow> js_string \<Rightarrow> out_effect \<Rightarrow> bool" where
  "asks c i x \<longleftrightarrow> (case x of Executes k j q \<Rightarrow> k = c \<and> j = i | _ \<Rightarrow> False)"

definition open_request :: "nat \<Rightarrow> js_string \<Rightarrow> task \<Rightarrow> bool" where
  "open_request c i x \<longleftrightarrow> (case x of Request k j name pc \<Rightarrow> k = c \<and> j = i | _ \<Rightarrow> False)"

definition ready_cons :: "server \<Rightarrow> nat set" where
  "ready_cons s = {c. c < length (connections s) \<and> con_stage (connections s ! c) = Ready}"

definition server_inv :: "server \<Rightarrow> bool" where
  "server_inv s \<longleftrightarrow> live_ok s \<and> attach_ok s \<and> dispose_ok s \<and>
     (\<forall>x\<in>set (tasks s). \<forall>r\<in>task_lives x. r < length (lives s)) \<and>
     (\<forall>r<length (lives s). operationCount (lives s ! r) = occurs (operates_on r) (tasks s) \<and>
        (live_disposing (lives s ! r) \<noteq> NotDisposing \<longrightarrow> operationCount (lives s ! r) = 0)) \<and>
     hello_first (out s) \<and>
     (\<forall>c\<in>ready_cons s \<union> live_cons s \<union> (\<Union>x\<in>set (tasks s). task_cons x). greeted_on c (out s)) \<and>
     (\<forall>x\<in>set (tasks s). \<forall>c i name pc. x = Request c i name pc \<longrightarrow> c < length (connections s)) \<and>
     (\<forall>c i. occurs (answers c i) (out s) + occurs (open_request c i) (tasks s) \<le> occurs (asks c i) (out s))"

lemma server_invD:
  assumes "server_inv s"
  shows "live_ok s" "attach_ok s" "dispose_ok s"
    "x \<in> set (tasks s) \<Longrightarrow> r \<in> task_lives x \<Longrightarrow> r < length (lives s)"
    "r < length (lives s) \<Longrightarrow> operationCount (lives s ! r) = occurs (operates_on r) (tasks s)"
    "r < length (lives s) \<Longrightarrow> live_disposing (lives s ! r) \<noteq> NotDisposing \<Longrightarrow> operationCount (lives s ! r) = 0"
    "hello_first (out s)"
    "c \<in> ready_cons s \<Longrightarrow> greeted_on c (out s)" "c \<in> live_cons s \<Longrightarrow> greeted_on c (out s)"
    "x \<in> set (tasks s) \<Longrightarrow> c \<in> task_cons x \<Longrightarrow> greeted_on c (out s)"
    "Request c i name pc \<in> set (tasks s) \<Longrightarrow> c < length (connections s)"
    "occurs (answers c i) (out s) + occurs (open_request c i) (tasks s) \<le> occurs (asks c i) (out s)"
  using assms by (auto simp: server_inv_def)

lemma server_invI:
  assumes "live_ok s" "attach_ok s" "dispose_ok s"
    "\<And>x r. x \<in> set (tasks s) \<Longrightarrow> r \<in> task_lives x \<Longrightarrow> r < length (lives s)"
    "\<And>r. r < length (lives s) \<Longrightarrow> operationCount (lives s ! r) = occurs (operates_on r) (tasks s)"
    "\<And>r. r < length (lives s) \<Longrightarrow> live_disposing (lives s ! r) \<noteq> NotDisposing \<Longrightarrow> operationCount (lives s ! r) = 0"
    "hello_first (out s)"
    "\<And>c. c \<in> ready_cons s \<Longrightarrow> greeted_on c (out s)" "\<And>c. c \<in> live_cons s \<Longrightarrow> greeted_on c (out s)"
    "\<And>x c. x \<in> set (tasks s) \<Longrightarrow> c \<in> task_cons x \<Longrightarrow> greeted_on c (out s)"
    "\<And>c i name pc. Request c i name pc \<in> set (tasks s) \<Longrightarrow> c < length (connections s)"
    "\<And>c i. occurs (answers c i) (out s) + occurs (open_request c i) (tasks s) \<le> occurs (asks c i) (out s)"
  shows "server_inv s"
  using assms unfolding server_inv_def by blast

lemma greeted_on_append [simp]: "greeted_on c xs \<Longrightarrow> greeted_on c (xs @ ys)"
  by (auto simp: greeted_on_def)

lemma hello_first_append:
  assumes "hello_first xs" and "\<And>c m f. Sends c m f \<in> set ds \<Longrightarrow> is_hello m \<or> greeted_on c xs"
  shows "hello_first (xs @ ds)"
  unfolding hello_first_def
proof (intro allI impI)
  fix ys c m f zs assume e: "xs @ ds = ys @ Sends c m f # zs"
  then consider us where "xs = ys @ us" "us @ ds = Sends c m f # zs" | us where "ys = xs @ us" "ds = us @ Sends c m f # zs"
    by (auto simp: append_eq_append_conv2)
  then show "is_hello m \<or> greeted_on c ys"
  proof cases
    case 1
    then show ?thesis
    proof (cases us)
      case Nil
      with 1 assms(2) [of c m f] show ?thesis by auto
    next
      case (Cons u us')
      with 1 assms(1) show ?thesis by (auto simp: hello_first_def)
    qed
  next
    case 2
    with assms(2) [of c m f] show ?thesis by auto
  qed
qed

lemma background_task_none:
  assumes "list_all background_task ts"
  shows "\<Union> (task_lives ` set ts) = {}" "\<Union> (task_cons ` set ts) = {}" "occurs (operates_on r) ts = 0"
    "occurs (open_request c i) ts = 0" "Request c i name pc \<notin> set ts"
  using assms
  by (auto simp: background_task_def task_lives_def task_cons_def operates_on_def open_request_def list_all_iff filter_empty_conv
      split: task.splits)

lemma background_effect_none:
  assumes "list_all (background_effect cs) ds"
  shows "occurs (answers c i) ds = 0" "occurs (asks c i) ds = 0"
  using assms
  by (auto simp: background_effect_def answers_def asks_def list_all_iff filter_empty_conv split: out_effect.splits)

lemma srv_background:
  assumes s: "server_inv s" and b: "background s s'"
  shows "server_inv s'"
proof -
  note i = server_invD [OF s]
  from b obtain ts ds where b: "tasks s' = tasks s @ ts" "list_all background_task ts" "out s' = out s @ ds"
    "list_all (background_effect (live_cons s)) ds" "map_of (liveSessions s') \<subseteq>\<^sub>m map_of (liveSessions s)" "lives_le (lives s) (lives s')"
    "cons_le (connections s) (connections s')" "live_ok s \<Longrightarrow> attach_ok s \<Longrightarrow> attach_ok s'" "dispose_ok s \<Longrightarrow> dispose_ok s'"
    by (blast elim: backgroundE)
  note t = background_task_none [OF b(2)] and e = background_effect_none [OF b(4)]
  have len: "length (lives s') = length (lives s)" "length (connections s') = length (connections s)"
    using b(6,7) by (simp_all add: lives_le_def cons_le_def)
  show ?thesis
  proof (rule server_invI)
    show "live_ok s'" using live_ok_le [OF b(5,6) i(1)] .
    show "attach_ok s'" using b(8) [OF i(1,2)] .
    show "dispose_ok s'" using b(9) [OF i(3)] .
    show "r < length (lives s')" if "x \<in> set (tasks s')" "r \<in> task_lives x" for x r
      using that i(4) t(1) by (auto simp: b(1) len)
    show "operationCount (lives s' ! r) = occurs (operates_on r) (tasks s')" if "r < length (lives s')" for r
      using that i(5) [of r] t(3) b(6) by (simp add: b(1) lives_le_def)
    show "operationCount (lives s' ! r) = 0" if "r < length (lives s')" "live_disposing (lives s' ! r) \<noteq> NotDisposing" for r
      using that i(6) [of r] b(6) by (auto simp: lives_le_def)
    show "hello_first (out s')"
      unfolding b(3) using i(7)
    proof (rule hello_first_append)
      fix c m f assume "Sends c m f \<in> set ds"
      then have "c \<in> live_cons s" using b(4) by (auto simp: list_all_iff background_effect_def)
      then show "is_hello m \<or> greeted_on c (out s)" using i(9) by blast
    qed
    show "greeted_on c (out s')" if "c \<in> ready_cons s'" for c
      using that i(8) [of c] b(7) by (auto simp: ready_cons_def cons_le_def b(3))
    show "greeted_on c (out s')" if "c \<in> live_cons s'" for c
      using that i(9) [of c] lives_le_cons [OF b(6)] by (auto simp: b(3))
    show "greeted_on c (out s')" if "x \<in> set (tasks s')" "c \<in> task_cons x" for x c
      using that i(10) [of x c] t(2) by (auto simp: b(1,3))
    show "c < length (connections s')" if "Request c j name pc \<in> set (tasks s')" for c j name pc
      using that i(11) t(5) by (auto simp: b(1) len)
    show "occurs (answers c j) (out s') + occurs (open_request c j) (tasks s') \<le> occurs (asks c j) (out s')" for c j
      using i(12) [of c j] by (simp add: b(1,3) t(4) e)
  qed
qed

subsection \<open>Steps that are not background\<close>

lemma filter_update:
  "t < length xs \<Longrightarrow> occurs P (xs[t := x]) + (if P (xs ! t) then 1 else 0) = occurs P xs + (if P x then 1 else 0)"
proof (induction xs arbitrary: t)
  case (Cons a xs)
  then show ?case by (cases t) auto
qed simp

lemma set_task_member: "t < length (tasks s) \<Longrightarrow> y \<in> set (tasks (set_task t x s)) \<Longrightarrow> y = x \<or> y \<in> set (tasks s)"
  using set_update_subset_insert [of "tasks s" t x] by (auto simp: set_task_def)

text \<open>A task goes on.\<close>

lemma srv_set_task:
  assumes s: "server_inv s" and t: "t < length (tasks s)"
    and x: "\<And>r. r \<in> task_lives x \<Longrightarrow> r < length (lives s)" "\<And>c. c \<in> task_cons x \<Longrightarrow> greeted_on c (out s)"
      "\<And>r. operates_on r x = operates_on r (tasks s ! t)" "\<And>c i. open_request c i x \<Longrightarrow> open_request c i (tasks s ! t)"
      "\<And>c i name pc. x = Request c i name pc \<Longrightarrow> c < length (connections s)"
      "\<And>r. x \<noteq> DisposeRuntime r"
  shows "server_inv (set_task t x s)"
proof -
  note i = server_invD [OF s] and m = set_task_member [OF t]
  have f: "lives (set_task t x s) = lives s" "out (set_task t x s) = out s" "connections (set_task t x s) = connections s"
    "liveSessions (set_task t x s) = liveSessions s" "tasks (set_task t x s) = (tasks s)[t := x]"
    by (simp_all add: set_task_def)
  show ?thesis
  proof (rule server_invI)
    show "operationCount (lives (set_task t x s) ! r) = occurs (operates_on r) (tasks (set_task t x s))"
      if "r < length (lives (set_task t x s))" for r
      using i(5) [of r] that x(3) [of r] filter_update [OF t, of "operates_on r" x] by (simp add: f split: if_splits)
    show "occurs (answers c j) (out (set_task t x s)) + occurs (open_request c j) (tasks (set_task t x s)) \<le>
        occurs (asks c j) (out (set_task t x s))" for c j
      using i(12) [of c j] x(4) [of c j] filter_update [OF t, of "open_request c j" x] by (auto simp: f split: if_splits)
    have "DisposeRuntime r \<in> set (tasks s)" if "DisposeRuntime r \<in> set (tasks (set_task t x s))" for r
      using m [OF that] x(6) by metis
    then show "dispose_ok (set_task t x s)" using i(3) by (simp add: dispose_ok_def f(1))
    show "r < length (lives (set_task t x s))" if "y \<in> set (tasks (set_task t x s))" "r \<in> task_lives y" for y r
      using m [OF that(1)] that(2) i(4) x(1) by (auto simp: f)
    show "greeted_on c (out (set_task t x s))" if "y \<in> set (tasks (set_task t x s))" "c \<in> task_cons y" for y c
      using m [OF that(1)] that(2) i(10) x(2) by (auto simp: f)
    show "c < length (connections (set_task t x s))" if "Request c j name pc \<in> set (tasks (set_task t x s))" for c j name pc
      using m [OF that] i(11) x(5) by (auto simp: f)
  qed (use i(1,2,6-9) in \<open>auto simp: live_ok_def attach_ok_def ready_cons_def live_cons_def f\<close>)
qed

definition may_answer :: "nat \<Rightarrow> js_string \<Rightarrow> server \<Rightarrow> bool" where
  "may_answer c i s \<longleftrightarrow> occurs (answers c i) (out s) + occurs (open_request c i) (tasks s) < occurs (asks c i) (out s)"

lemma may_answer_background: "may_answer c i s \<Longrightarrow> background s s' \<Longrightarrow> may_answer c i s'"
  by (elim backgroundE) (simp add: may_answer_def background_task_none background_effect_none)

lemma srv_spawn:
  assumes s: "server_inv s" and x: "\<And>r. r \<in> task_lives x \<Longrightarrow> r < length (lives s)" "\<And>c. c \<in> task_cons x \<Longrightarrow> greeted_on c (out s)"
    "\<And>r. \<not> operates_on r x" "\<And>c i name pc. x = Request c i name pc \<Longrightarrow> c < length (connections s) \<and> may_answer c i s"
    "\<And>r. x \<noteq> DisposeRuntime r"
  shows "server_inv (spawn x s)"
proof -
  note i = server_invD [OF s]
  have f: "lives (spawn x s) = lives s" "out (spawn x s) = out s" "connections (spawn x s) = connections s"
    "liveSessions (spawn x s) = liveSessions s" "tasks (spawn x s) = tasks s @ [x]"
    by (simp_all add: spawn_def)
  show ?thesis
  proof (rule server_invI)
    show "operationCount (lives (spawn x s) ! r) = occurs (operates_on r) (tasks (spawn x s))" if "r < length (lives (spawn x s))" for r
      using i(5) [of r] that x(3) by (simp add: f)
    show "occurs (answers c j) (out (spawn x s)) + occurs (open_request c j) (tasks (spawn x s)) \<le> occurs (asks c j) (out (spawn x s))" for c j
      using i(12) [of c j] x(4) by (auto simp: f open_request_def may_answer_def split: task.splits)
    show "dispose_ok (spawn x s)" using i(3) x(5) by (auto simp: dispose_ok_def f)
  qed (use i(1,2,4,6-11) x in \<open>auto simp: live_ok_def attach_ok_def ready_cons_def live_cons_def f\<close>)
qed

text \<open>A message is sent.\<close>

lemma srv_emit_send:
  assumes s: "server_inv s" and m: "is_hello m \<or> greeted_on c (out s)" "\<And>i r. m = OutResponse i r \<Longrightarrow> may_answer c i s"
  shows "server_inv (emit_out (Sends c m f) s)"
proof -
  note i = server_invD [OF s]
  have f: "lives (emit_out (Sends c m f) s) = lives s" "out (emit_out (Sends c m f) s) = out s @ [Sends c m f]"
    "connections (emit_out (Sends c m f) s) = connections s" "liveSessions (emit_out (Sends c m f) s) = liveSessions s"
    "tasks (emit_out (Sends c m f) s) = tasks s"
    by (simp_all add: emit_out_def)
  show ?thesis
  proof (rule server_invI)
    show "hello_first (out (emit_out (Sends c m f) s))"
      unfolding f by (rule hello_first_append [OF i(7)]) (use m(1) in auto)
    show "occurs (answers k j) (out (emit_out (Sends c m f) s)) + occurs (open_request k j) (tasks (emit_out (Sends c m f) s)) \<le>
        occurs (asks k j) (out (emit_out (Sends c m f) s))" for k j
      using i(12) [of k j] m(2) [of j] by (auto simp: f answers_def asks_def may_answer_def)
  qed (use i(1-6,8-11) in \<open>auto simp: live_ok_def attach_ok_def dispose_ok_def ready_cons_def live_cons_def f\<close>)
qed

lemma sendMessage_cases:
  "sendMessage cfg c m s = (b, s') \<Longrightarrow> (\<not> b \<and> background s s') \<or> (b \<and> (\<exists>f. s' = emit_out (Sends c m f) s))"
  by (auto simp: sendMessage_def split: if_splits sum.splits intro: background_trans [OF background_report(1) background_close_connection])

lemma srv_send:
  assumes "server_inv s" "is_hello m \<or> greeted_on c (out s)" "\<And>i r. m = OutResponse i r \<Longrightarrow> may_answer c i s"
  shows "server_inv (snd (sendMessage cfg c m s))"
  using sendMessage_cases [of cfg c m s "fst (sendMessage cfg c m s)" "snd (sendMessage cfg c m s)"]
    srv_background [OF assms(1)] srv_emit_send [OF assms] by auto

text \<open>A request is executed.\<close>

lemma srv_executes:
  assumes s: "server_inv s"
  shows "server_inv (emit_out (Executes c i q) s)" "may_answer c i (emit_out (Executes c i q) s)"
proof -
  note i = server_invD [OF s]
  have f: "lives (emit_out (Executes c i q) s) = lives s" "out (emit_out (Executes c i q) s) = out s @ [Executes c i q]"
    "connections (emit_out (Executes c i q) s) = connections s" "liveSessions (emit_out (Executes c i q) s) = liveSessions s"
    "tasks (emit_out (Executes c i q) s) = tasks s"
    by (simp_all add: emit_out_def)
  show "may_answer c i (emit_out (Executes c i q) s)"
    using i(12) [of c i] by (simp add: may_answer_def f answers_def asks_def)
  show "server_inv (emit_out (Executes c i q) s)"
  proof (rule server_invI)
    show "hello_first (out (emit_out (Executes c i q) s))"
      unfolding f by (rule hello_first_append [OF i(7)]) auto
    show "occurs (answers k j) (out (emit_out (Executes c i q) s)) + occurs (open_request k j) (tasks (emit_out (Executes c i q) s)) \<le>
        occurs (asks k j) (out (emit_out (Executes c i q) s))" for k j
      using i(12) [of k j] by (auto simp: f answers_def asks_def)
  qed (use i(1-6,8-11) in \<open>auto simp: live_ok_def attach_ok_def dispose_ok_def ready_cons_def live_cons_def f\<close>)
qed

lemma background_acquire: "background s (snd (acquire call i s))"
proof -
  have "background s (s\<lparr>out := out s @ [Opens i t call], tasks := tasks s @ [Create i pc], openingSessions := m\<rparr>)" for t pc m
    by (rule background_trans [OF background_trans [OF background_emit [of s "Opens i t call"] background_spawn [of "Create i pc"]] background_fields(8) [of _ m],
          unfolded emit_out_def spawn_def, simplified])
       (simp_all add: background_effect_def background_task_def)
  then show ?thesis
    by (auto simp: acquire_def Let_def spawn_def emit_out_def split: option.split)
qed

lemma acquire_pc:
  "live_ok s \<Longrightarrow> r \<in> request_lives (fst (acquire call i s)) \<Longrightarrow> r < length (lives s)"
  by (auto simp: acquire_def request_lives_def live_ok_def Let_def split: option.splits if_splits)

lemma acquire_not_operating: "\<not> operates_on r (Request c i name (fst (acquire call j s)))"
  by (auto simp: acquire_def operates_on_def Let_def split: option.splits if_splits)

lemma background_detach:
  assumes "con_sessions \<circ> f = removeAll i \<circ> con_sessions" "con_disconnected \<circ> f = con_disconnected" "con_stage \<circ> f = con_stage"
    and r: "map_of (liveSessions s) i = None \<or> map_of (liveSessions s) i = Some r"
  shows "background s (drop_connection c r (change_connection c f s))" (is "background s ?t")
proof -
  have f: "con_sessions (f k) = removeAll i (con_sessions k)" "con_disconnected (f k) = con_disconnected k" "con_stage (f k) = con_stage k" for k
    using assms(1-3) by (simp_all add: fun_eq_iff)
  have t: "tasks ?t = tasks s" "out ?t = out s" "liveSessions ?t = liveSessions s"
    "lives ?t = (lives s)[r := (lives s ! r)\<lparr>live_connections := removeAll c (live_connections (lives s ! r))\<rparr>]"
    "connections ?t = (connections s)[c := f (connections s ! c)]"
    by (simp_all add: drop_connection_def change_live_def change_connection_def)
  have len: "length (lives ?t) = length (lives s)" by (simp add: t)
  have con: "k < length (connections s) \<Longrightarrow> connections ?t ! k = (if k = c then f (connections s ! k) else connections s ! k)" for k
    by (simp add: t update_nth)
  have live: "k < length (lives s) \<Longrightarrow> lives ?t ! k = (if k = r then (lives s ! k)\<lparr>live_connections := removeAll c (live_connections (lives s ! k))\<rparr> else lives s ! k)" for k
    by (cases "k = r") (simp_all add: t)
  show ?thesis
  proof (rule backgroundI [of _ _ "[]" "[]"])
    show "lives_le (lives s) (lives ?t)" by (auto simp: lives_le_def live) (simp_all add: t)
    show "cons_le (connections s) (connections ?t)" by (auto simp: cons_le_def con f split: if_splits) (simp add: t)
    show "dispose_ok s \<Longrightarrow> dispose_ok ?t" by (auto simp: dispose_ok_def live t(1) len)
    show "attach_ok ?t" if ok: "live_ok s" "attach_ok s"
      unfolding attach_ok_def
    proof (intro allI impI)
      fix j k d assume m: "map_of (liveSessions ?t) j = Some k \<and> d \<in> set (live_connections (lives ?t ! k))"
      then have k: "k < length (lives s)" "map_of (liveSessions s) j = Some k" using ok(1) by (auto simp: live_ok_def t)
      then have d: "d \<in> set (live_connections (lives s ! k))" "k = r \<Longrightarrow> d \<noteq> c" using m by (auto simp: live split: if_splits)
      then have a: "d < length (connections s)" "\<not> con_disconnected (connections s ! d)" "j \<in> set (con_sessions (connections s ! d))"
        using ok(2) k(2) by (auto simp: attach_ok_def)
      have "d = c \<Longrightarrow> j \<noteq> i" using d(2) k(2) r by auto
      with a show "d < length (connections ?t) \<and> \<not> con_disconnected (connections ?t ! d) \<and> j \<in> set (con_sessions (connections ?t ! d))"
        by (auto simp: con f) (simp_all add: t)
    qed
  qed (simp_all add: t)
qed

lemma drop_nobody: "length (lives s) \<le> r \<Longrightarrow> drop_connection c r s = s"
  by (simp add: drop_connection_def change_live_def list_update_beyond)

lemma background_start_detach:
  assumes "live_ok s"
  shows "background s (snd (start_detach c i s))"
proof -
  let ?f = "\<lambda>k. k\<lparr>con_sessions := removeAll i (con_sessions k)\<rparr>"
  have some: "background s (drop_connection c r (change_connection c ?f s))" if "map_of (liveSessions s) i = Some r" for r
    by (rule background_detach [where i = i]) (use that in \<open>auto simp: fun_eq_iff\<close>)
  have none: "background s (change_connection c ?f s)" if "map_of (liveSessions s) i = None"
    using background_detach [of ?f i s "length (lives s)" c] that drop_nobody [of "change_connection c ?f s" "length (lives s)" c]
    by (simp add: fun_eq_iff) (simp add: change_connection_def)
  have ls: "liveSessions (change_connection c ?f s) = liveSessions s" by (simp add: change_connection_def)
  show ?thesis
    by (cases "map_of (liveSessions s) i")
       (auto simp: start_detach_def Let_def split_beta ls
        intro: some background_trans [OF some background_maybeDispose] background_trans [OF none background_fields(1)])
qed

lemma start_detach_pc:
  assumes "live_ok s"
  shows "r \<in> request_lives (fst (start_detach c i s)) \<Longrightarrow> r < length (lives s)"
    "\<not> operates_on r (Request c' j name (fst (start_detach c i s)))"
  using assms
  by (auto simp: start_detach_def Let_def split_beta request_lives_def operates_on_def live_ok_def change_connection_def
      split: option.splits if_splits)

lemma live_cons_nth: "live_cons s = (\<Union>r<length (lives s). set (live_connections (lives s ! r)))"
proof -
  have "(\<lambda>l. set (live_connections l)) ` set (lives s) = (\<lambda>r. set (live_connections (lives s ! r))) ` {..<length (lives s)}"
    by (auto simp: set_conv_nth image_iff)
  then show ?thesis by (simp add: live_cons_def)
qed

lemma live_cons_eq:
  "length (lives t) = length (lives s) \<Longrightarrow> (\<And>k. live_connections (lives t ! k) = live_connections (lives s ! k)) \<Longrightarrow>
    live_cons t = live_cons s"
  by (simp add: live_cons_nth)

text \<open>An operation starts: it is counted and its request is spawned.\<close>

lemma srv_start_operation:
  assumes s: "server_inv s" and r: "r < length (lives s)" "live_disposing (lives s ! r) = NotDisposing"
    and c: "c < length (connections s)" "greeted_on c (out s)" "may_answer c i s"
    and f: "lives u = (lives s)[r := (lives s ! r)\<lparr>operationCount := operationCount (lives s ! r) + 1\<rparr>]"
      "out u = out s @ [Operates rt q]" "connections u = connections s" "liveSessions u = liveSessions s"
      "tasks u = tasks s @ [Request c i name (OperationCalled r)]"
  shows "server_inv u"
proof -
  note i = server_invD [OF s]
  have l: "lives u ! k = (if k = r then (lives s ! k)\<lparr>operationCount := operationCount (lives s ! k) + 1\<rparr> else lives s ! k)" for k
    unfolding f using r by (cases "k = r") simp_all
  have len: "length (lives u) = length (lives s)" unfolding f by simp
  have cons: "live_cons u = live_cons s"
    by (rule live_cons_eq [OF len]) (simp add: l)
  show ?thesis
  proof (rule server_invI)
    show "operationCount (lives u ! k) = occurs (operates_on k) (tasks u)" if "k < length (lives u)" for k
      using i(5) [of k] that by (auto simp: l len f(5)) (simp_all add: operates_on_def)
    show "operationCount (lives u ! k) = 0" if "k < length (lives u)" "live_disposing (lives u ! k) \<noteq> NotDisposing" for k
      using i(6) [of k] that r by (auto simp: l len split: if_splits)
    show "hello_first (out u)" unfolding f by (rule hello_first_append [OF i(7)]) auto
    show "occurs (answers k j) (out u) + occurs (open_request k j) (tasks u) \<le> occurs (asks k j) (out u)" for k j
      using i(12) [of k j] c(3) by (auto simp: f answers_def asks_def open_request_def may_answer_def)
    show "greeted_on k (out u)" if "x \<in> set (tasks u)" "k \<in> task_cons x" for x k
      using that i(10) [of x k] c(2) by (auto simp: f task_cons_def)
    show "k < length (lives u)" if "x \<in> set (tasks u)" "k \<in> task_lives x" for x k
      using that i(4) [of x k] r(1) by (auto simp: f task_lives_def request_lives_def)
    show "k < length (connections u)" if "Request k j name' pc \<in> set (tasks u)" for k j name' pc
      using that i(11) c(1) by (auto simp: f)
    show "dispose_ok u" using i(3) by (auto simp: dispose_ok_def l len f(5))
    show "attach_ok u" using i(2) by (auto simp: attach_ok_def l f(3,4))
    show "live_ok u" using i(1) by (auto simp: live_ok_def l len f(4))
  qed (use i(8,9) in \<open>auto simp: ready_cons_def cons f(2,3)\<close>)
qed

lemma set_task_schedule:
  "t < length (tasks s) \<Longrightarrow> set_task t x (scheduleMaybeDispose r s) = scheduleMaybeDispose r (set_task t x s)"
  by (simp add: scheduleMaybeDispose_def maybeDispose_def disposable_def set_task_def spawn_def emit_out_def unsubscribe_live_def
      change_live_def Let_def list_update_append split: prod.split)

text \<open>An operation ends.\<close>

lemma srv_finish_operation:
  assumes s: "server_inv s" and t: "t < length (tasks s)" "tasks s ! t = Request c i name pc" "operates_on r (tasks s ! t)"
  shows "server_inv (set_task t (Request c i name (Responding outcome)) (finish_operation r s))"
proof -
  note v = server_invD [OF s]
  define u where "u = set_task t (Request c i name (Responding outcome))
    (change_live r (\<lambda>l. l\<lparr>operationCount := operationCount l - 1\<rparr>) s)"
  have f: "lives u = (lives s)[r := (lives s ! r)\<lparr>operationCount := operationCount (lives s ! r) - 1\<rparr>]"
    "out u = out s" "connections u = connections s" "liveSessions u = liveSessions s"
    "tasks u = (tasks s)[t := Request c i name (Responding outcome)]"
    by (simp_all add: u_def set_task_def change_live_def)
  have mem: "Request c i name pc \<in> set (tasks s)" using t by (metis nth_mem)
  have r: "r < length (lives s)"
    using v(4) [OF mem, of r] t(2,3) by (auto simp: operates_on_def task_lives_def request_lives_def split: request_pc.splits)
  have l: "lives u ! k = (if k = r then (lives s ! k)\<lparr>operationCount := operationCount (lives s ! k) - 1\<rparr> else lives s ! k)" for k
    using r by (cases "k = r") (simp_all add: f)
  have len: "length (lives u) = length (lives s)" by (simp add: f)
  have cons: "live_cons u = live_cons s"
    by (rule live_cons_eq [OF len]) (simp add: l)
  have m: "x \<in> set (tasks u) \<Longrightarrow> x = Request c i name (Responding outcome) \<or> x \<in> set (tasks s)" for x
    using set_update_subset_insert [of "tasks s" t "Request c i name (Responding outcome)"] by (auto simp: f(5))
  have only: "operates_on k (tasks s ! t) \<longleftrightarrow> k = r" for k
    using t(2,3) by (auto simp: operates_on_def split: request_pc.splits)
  have "server_inv u"
  proof (rule server_invI)
    show "operationCount (lives u ! k) = occurs (operates_on k) (tasks u)" if "k < length (lives u)" for k
      using v(5) [of k] that filter_update [OF t(1), of "operates_on k" "Request c i name (Responding outcome)"] only [of k]
      by (simp add: l len f(5)) (simp add: operates_on_def split: if_splits)
    show "operationCount (lives u ! k) = 0" if "k < length (lives u)" "live_disposing (lives u ! k) \<noteq> NotDisposing" for k
      using v(6) [of k] that by (auto simp: l len split: if_splits)
    show "occurs (answers k j) (out u) + occurs (open_request k j) (tasks u) \<le> occurs (asks k j) (out u)" for k j
      using v(12) [of k j] filter_update [OF t(1), of "open_request k j" "Request c i name (Responding outcome)"] t(2)
      by (simp add: f) (simp add: open_request_def split: if_splits)
    show "greeted_on k (out u)" if "x \<in> set (tasks u)" "k \<in> task_cons x" for x k
      using m [OF that(1)] that(2) v(10) [of x k] v(10) [OF mem] by (auto simp: f(2) task_cons_def)
    show "k < length (lives u)" if "x \<in> set (tasks u)" "k \<in> task_lives x" for x k
      using m [OF that(1)] that(2) v(4) [of x k] by (auto simp: len task_lives_def request_lives_def)
    show "k < length (connections u)" if "Request k j name' p \<in> set (tasks u)" for k j name' p
      using m [OF that] v(11) mem by (auto simp: f(3))
    have "DisposeRuntime k \<in> set (tasks s)" if "DisposeRuntime k \<in> set (tasks u)" for k using m [OF that] by simp
    then show "dispose_ok u" using v(3) by (simp add: dispose_ok_def l len)
    show "attach_ok u" using v(2) by (auto simp: attach_ok_def l f(3,4))
    show "live_ok u" using v(1) by (auto simp: live_ok_def l len f(4))
  qed (use v(7-9) in \<open>auto simp: ready_cons_def cons f(2,3)\<close>)
  moreover have "set_task t (Request c i name (Responding outcome)) (finish_operation r s) = scheduleMaybeDispose r u"
    using t(1) by (simp add: finish_operation_def set_task_schedule u_def change_live_def)
  ultimately show ?thesis using srv_background [OF _ background_schedule] by simp
qed

text \<open>A connection is attached to a live session.\<close>

lemma srv_attach:
  assumes s: "server_inv s" and c: "c < length (connections s)" and r: "r < length (lives s)"
  shows "server_inv (snd (attach c r s))"
proof (cases "con_disconnected (connections s ! c) \<or> con_stage (connections s ! c) \<noteq> Ready \<or> con_closed (connections s ! c)")
  case True
  then show ?thesis using srv_background [OF s background_maybeDispose] by (simp add: attach_def Let_def split_beta)
next
  case False
  note v = server_invD [OF s]
  define u where "u = snd (attach c r s)"
  have f: "lives u = (lives s)[r := (lives s ! r)\<lparr>live_connections := List.insert c (live_connections (lives s ! r))\<rparr>]"
    "connections u = (connections s)[c := (connections s ! c)\<lparr>con_sessions := List.insert (live_id (lives s ! r)) (con_sessions (connections s ! c))\<rparr>]"
    "out u = out s" "liveSessions u = liveSessions s" "tasks u = tasks s"
    using False by (simp_all add: u_def attach_def Let_def change_live_def change_connection_def)
  have l: "lives u ! k = (if k = r then (lives s ! k)\<lparr>live_connections := List.insert c (live_connections (lives s ! k))\<rparr> else lives s ! k)" for k
    using r by (cases "k = r") (simp_all add: f)
  have k: "connections u ! k = (if k = c then (connections s ! k)\<lparr>con_sessions := List.insert (live_id (lives s ! r)) (con_sessions (connections s ! k))\<rparr>
      else connections s ! k)" for k
    using c by (cases "k = c") (simp_all add: f)
  have len: "length (lives u) = length (lives s)" "length (connections u) = length (connections s)" by (simp_all add: f)
  have ready: "ready_cons u = ready_cons s" by (auto simp: ready_cons_def k len)
  have cons: "live_cons u \<subseteq> insert c (live_cons s)"
    by (auto simp: live_cons_nth len l split: if_splits)
  have "c \<in> ready_cons s" using False c by (simp add: ready_cons_def)
  have "server_inv u"
  proof (rule server_invI)
    show "live_ok u" using v(1) by (auto simp: live_ok_def l len f(4))
    show "dispose_ok u" using v(3) by (auto simp: dispose_ok_def l len f(5))
    show "attach_ok u"
      unfolding attach_ok_def
    proof (intro allI impI)
      fix i q d assume m: "map_of (liveSessions u) i = Some q \<and> d \<in> set (live_connections (lives u ! q))"
      then have q: "live_id (lives s ! q) = i" "map_of (liveSessions s) i = Some q" using v(1) by (auto simp: live_ok_def f(4))
      show "d < length (connections u) \<and> \<not> con_disconnected (connections u ! d) \<and> i \<in> set (con_sessions (connections u ! d))"
      proof (cases "q = r \<and> d = c")
        case True
        then show ?thesis using False c q by (simp add: k len)
      next
        case no: False
        then have "d \<in> set (live_connections (lives s ! q))" using m by (auto simp: l split: if_splits)
        then show ?thesis using v(2) q(2) by (auto simp: attach_ok_def k len)
      qed
    qed
    show "operationCount (lives u ! q) = occurs (operates_on q) (tasks u)" if "q < length (lives u)" for q
      using v(5) [of q] that by (auto simp: l len f(5))
    show "operationCount (lives u ! q) = 0" if "q < length (lives u)" "live_disposing (lives u ! q) \<noteq> NotDisposing" for q
      using v(6) [of q] that by (auto simp: l len split: if_splits)
    show "greeted_on d (out u)" if "d \<in> live_cons u" for d
      using that cons v(8) [OF \<open>c \<in> ready_cons s\<close>] v(9) by (auto simp: f(3))
  qed (use v(4,7,8,10-12) in \<open>auto simp: f(3,5) len ready\<close>)
  then show ?thesis by (simp add: u_def)
qed

lemma attach_tasks: "\<exists>ts. tasks (snd (attach c r s)) = tasks s @ ts"
proof (cases "con_disconnected (connections s ! c) \<or> con_stage (connections s ! c) \<noteq> Ready \<or> con_closed (connections s ! c)")
  case True
  then have "snd (attach c r s) = snd (maybeDispose r s)" by (simp add: attach_def Let_def split_beta)
  with background_maybeDispose [of s r] show ?thesis by (auto elim: backgroundE)
qed (simp add: attach_def Let_def change_live_def change_connection_def)

text \<open>A request starts.\<close>

lemma srv_handleRequest:
  assumes s: "server_inv s" and c: "c < length (connections s)" "greeted_on c (out s)"
  shows "server_inv (handleRequest cfg c i q s)"
proof -
  define s0 where "s0 = emit_out (Executes c i q) s"
  have s0: "server_inv s0" "may_answer c i s0" using srv_executes [OF s] by (simp_all add: s0_def)
  have c0: "c < length (connections s0)" "greeted_on c (out s0)" using c by (simp_all add: s0_def emit_out_def)
  have result: "handleRequest cfg c i q s =
      spawn (Request c i (command_name q) (fst (start_command cfg c q s0))) (snd (start_command cfg c q s0))"
    by (simp add: handleRequest_def split_beta s0_def)
  have bg: "server_inv (spawn (Request c i name pc) s1)"
    if "background s0 s1" "\<And>r. r \<in> request_lives pc \<Longrightarrow> r < length (lives s1)" "\<And>r. \<not> operates_on r (Request c i name pc)" for s1 name pc
  proof (rule srv_spawn)
    show "server_inv s1" using srv_background [OF s0(1) that(1)] .
    from that(1) have "length (connections s1) = length (connections s0)" "\<exists>ds. out s1 = out s0 @ ds"
      by (auto elim: backgroundE simp: cons_le_def)
    then have "c < length (connections s1)" "greeted_on c (out s1)" using c0 by auto
    moreover have "may_answer c i s1" using may_answer_background [OF s0(2) that(1)] .
    ultimately show "\<And>k j n p. Request c i name pc = Request k j n p \<Longrightarrow> k < length (connections s1) \<and> may_answer k j s1"
      "\<And>k. k \<in> task_cons (Request c i name pc) \<Longrightarrow> greeted_on k (out s1)"
      by (auto simp: task_cons_def)
  qed (use that in \<open>auto simp: task_lives_def\<close>)
  have live: "live_ok s0" using server_invD(1) [OF s0(1)] .
  have lens: "background s0 s1 \<Longrightarrow> length (lives s1) = length (lives s0)" for s1
    by (auto elim: backgroundE simp: lives_le_def)
  have acq: "server_inv (spawn (Request c i name (fst (acquire call j (s0\<lparr>uuids := n\<rparr>)))) (snd (acquire call j (s0\<lparr>uuids := n\<rparr>))))" for call j name n
  proof (rule bg)
    show b: "background s0 (snd (acquire call j (s0\<lparr>uuids := n\<rparr>)))"
      by (rule background_trans [OF background_fields(2) background_acquire])
    show "r \<in> request_lives (fst (acquire call j (s0\<lparr>uuids := n\<rparr>))) \<Longrightarrow> r < length (lives (snd (acquire call j (s0\<lparr>uuids := n\<rparr>))))" for r
      using acquire_pc [of "s0\<lparr>uuids := n\<rparr>" r call j] live lens [OF b] by (simp add: live_ok_def)
  qed (rule acquire_not_operating)
  have acq': "server_inv (spawn (Request c i name (fst (acquire call j s0))) (snd (acquire call j s0)))" for call j name
    using acq [of name call j "uuids s0"] by simp
  have det: "server_inv (spawn (Request c i name (fst (start_detach c j s0))) (snd (start_detach c j s0)))" for j name
  proof (rule bg)
    show b: "background s0 (snd (start_detach c j s0))" by (rule background_start_detach [OF live])
    show "r \<in> request_lives (fst (start_detach c j s0)) \<Longrightarrow> r < length (lives (snd (start_detach c j s0)))" for r
      using start_detach_pc(1) [OF live] lens [OF b] by simp
  qed (rule start_detach_pc(2) [OF live])
  have op: "server_inv (spawn (Request c i name (fst (start_operation c j q' s0))) (snd (start_operation c j q' s0)))" for j name q'
  proof (cases "requireAttached c j s0")
    case (Inl e)
    then show ?thesis using bg [of s0 "Responding (Inl e)" name] by (simp add: start_operation_def request_lives_def operates_on_def)
  next
    case (Inr r)
    then have "r < length (lives s0)" "live_disposing (lives s0 ! r) = NotDisposing"
      using live by (auto simp: requireAttached_def live_ok_def split: if_splits option.splits)
    from srv_start_operation [OF s0(1) this c0 s0(2)] Inr show ?thesis
      by (simp add: start_operation_def spawn_def emit_out_def change_live_def)
  qed
  show ?thesis
    unfolding result start_command_def
    by (cases q) (auto simp: acq acq' det op intro!: bg, auto simp: request_lives_def operates_on_def)
qed

subsection \<open>Every step\<close>

lemma background_task_at: "background s s' \<Longrightarrow> t < length (tasks s) \<Longrightarrow> t < length (tasks s') \<and> tasks s' ! t = tasks s ! t"
  by (auto elim!: backgroundE simp: nth_append)

text \<open>A request goes on without an operation: its place changes, and what it does is background.\<close>

lemma srv_request_moves:
  assumes s: "server_inv s" and b: "background s s'" and t: "t < length (tasks s)" "tasks s ! t = Request c i name pc"
    and pc: "\<And>r. \<not> operates_on r (tasks s ! t)" "\<And>r. r \<in> request_lives pc' \<Longrightarrow> r < length (lives s)"
      "\<And>r. \<not> operates_on r (Request c i name pc')"
  shows "server_inv (set_task t (Request c i name pc') s')"
proof -
  have mem: "Request c i name pc \<in> set (tasks s)" using t by (metis nth_mem)
  have s': "server_inv s'" using srv_background [OF s b] .
  have t': "t < length (tasks s')" "tasks s' ! t = Request c i name pc" using background_task_at [OF b t(1)] t(2) by simp_all
  then have mem': "Request c i name pc \<in> set (tasks s')" by (metis nth_mem)
  have "length (lives s') = length (lives s)" using b by (auto elim: backgroundE simp: lives_le_def)
  then show ?thesis
    using pc t(2) server_invD(10,11) [OF s'] mem'
    by (intro srv_set_task [OF s' t'(1)])
       (auto simp: t'(2) task_lives_def task_cons_def open_request_def)
qed

lemma srv_answer:
  assumes s: "server_inv s" and t: "t < length (tasks s)" "tasks s ! t = Request c i name pc" "\<And>r. \<not> operates_on r (tasks s ! t)"
  shows "server_inv (set_task t TaskDone (answer_request cfg c i outcome s))"
proof -
  define m where "m = (case outcome of Inr r \<Rightarrow> OutResponse i (Inr r) | Inl e \<Rightarrow> OutResponse i (Inl (fst (toProtocolError e))))"
  define s0 where "s0 = (case outcome of Inr r \<Rightarrow> s | Inl e \<Rightarrow> report_if (snd (toProtocolError e)) e s)"
  have a: "answer_request cfg c i outcome s = snd (sendMessage cfg c m s0)"
    by (simp add: answer_request_def m_def s0_def split_beta split: sum.split)
  have b0: "background s s0" by (simp add: s0_def split: sum.split)
  have s0: "server_inv s0" by (rule srv_background [OF s b0])
  have t0: "t < length (tasks s0)" "tasks s0 ! t = Request c i name pc" using background_task_at [OF b0 t(1)] t(2) by simp_all
  have mem: "Request c i name pc \<in> set (tasks s0)" using t0 by (metis nth_mem)
  have finished: "server_inv (set_task t TaskDone s')" if "server_inv s'" "t < length (tasks s')" "tasks s' ! t = Request c i name pc" for s'
    by (rule srv_set_task [OF that(1,2)])
       (use t(2,3) that(3) in \<open>auto simp: task_lives_def task_cons_def open_request_def operates_on_def\<close>)
  consider "background s0 (snd (sendMessage cfg c m s0))" | f where "snd (sendMessage cfg c m s0) = emit_out (Sends c m f) s0"
    using sendMessage_cases [of cfg c m s0] by (metis prod.collapse)
  then show ?thesis
  proof cases
    case 1
    with finished [OF srv_background [OF s0 1]] background_task_at [OF 1 t0(1)] t0(2) show ?thesis by (simp add: a)
  next
    case 2
    let ?u = "set_task t TaskDone s0"
    have u: "server_inv ?u" by (rule finished [OF s0 t0])
    have "greeted_on c (out ?u)" using server_invD(10) [OF s0 mem] by (simp add: task_cons_def set_task_def)
    moreover have "may_answer c i ?u"
      using server_invD(12) [OF s0, of c i] filter_update [OF t0(1), of "open_request c i" TaskDone] t0(2)
      by (simp add: may_answer_def set_task_def open_request_def)
    ultimately have "server_inv (emit_out (Sends c m f) ?u)"
      by (intro srv_emit_send [OF u]) (auto simp: m_def split: sum.splits)
    moreover have "emit_out (Sends c m f) ?u = set_task t TaskDone (emit_out (Sends c m f) s0)"
      by (simp add: emit_out_def set_task_def)
    ultimately show ?thesis by (simp add: a 2)
  qed
qed

lemma srv_request:
  assumes s: "server_inv s" and t: "t < length (tasks s)" "tasks s ! t = Request c i name pc"
    and step: "request_step cfg c i name pc a s = Some (p, s')"
  shows "server_inv (set_task t (case p of None \<Rightarrow> TaskDone | Some pc \<Rightarrow> Request c i name pc) s')"
proof -
  note v = server_invD [OF s]
  have mem: "Request c i name pc \<in> set (tasks s)" using t by (metis nth_mem)
  have r: "r < length (lives s)" if "r \<in> request_lives pc" for r using v(4) [OF mem, of r] that by (simp add: task_lives_def)
  have c: "c < length (connections s)" using v(11) [OF mem] .
  note moves = srv_request_moves [OF s _ t]
  have forget: "background s (forget_opening j k own s)" for j k own
    by (simp add: forget_opening_def background_fields(8))
  show ?thesis
  proof (cases pc)
    case (AcquireDisposing call j q)
    have "(p = Some (fst (acquire call j s)) \<and> s' = snd (acquire call j s)) \<or> (\<exists>e. p = Some (Responding (Inl e)) \<and> s' = s)"
      using step AcquireDisposing by (auto simp: request_step_def split_beta split: option.splits)
    then consider "p = Some (fst (acquire call j s))" "s' = snd (acquire call j s)" | e where "p = Some (Responding (Inl e))" "s' = s"
      by blast
    then show ?thesis
    proof cases
      case 1
      have "server_inv (set_task t (Request c i name (fst (acquire call j s))) (snd (acquire call j s)))"
      proof (rule moves [OF background_acquire])
        show "\<not> operates_on q (tasks s ! t)" for q by (simp add: t(2) AcquireDisposing operates_on_def)
      qed (rule acquire_pc [OF v(1)], assumption, rule acquire_not_operating)
      with 1 show ?thesis by simp
    next
      case 2
      then show ?thesis using AcquireDisposing t(2) by (simp, intro moves) (auto simp: operates_on_def request_lives_def)
    qed
  next
    case (AcquireOpening call j k own)
    have "q < length (lives s)" if "task_at s k = TaskOpened q" for q
      using that v(4) [of "TaskOpened q" q] by (auto simp: task_at_def task_lives_def split: if_splits) (metis nth_mem)
    then show ?thesis using step AcquireOpening t(2)
      by (auto simp: request_step_def split: task.splits intro!: moves [OF forget] simp: operates_on_def request_lives_def)
  next
    case (AcquireDone q)
    then have q: "q < length (lives s)" using r by (simp add: request_lives_def)
    have st: "p = Some (fst (attach c q s))" "s' = snd (attach c q s)"
      using step by (auto simp: request_step_def AcquireDone split_beta)
    obtain ts where ts: "tasks s' = tasks s @ ts" using attach_tasks [of c q s] st(2) by auto
    then have t': "t < length (tasks s')" "tasks s' ! t = Request c i name pc" using t by (auto simp: nth_append)
    then have mem': "Request c i name pc \<in> set (tasks s')" by (metis nth_mem)
    have s': "server_inv s'" using srv_attach [OF s c q] st(2) by simp
    have "q < length (lives s')"
      using server_invD(4) [OF s' mem', of q] AcquireDone by (simp add: task_lives_def request_lives_def)
    then show ?thesis
      using st(1) server_invD(10,11) [OF s'] mem' AcquireDone
      by (simp, intro srv_set_task [OF s' t'(1)])
         (auto simp: t'(2) attach_def Let_def split_beta task_lives_def task_cons_def request_lives_def open_request_def operates_on_def split: if_splits)
  next
    case (AttachRefused w)
    then show ?thesis using step t(2)
      by (auto simp: request_step_def split: option.splits intro!: moves simp: operates_on_def request_lives_def)
  next
    case (AttachDone q)
    then show ?thesis using step t(2) r
      by (auto simp: request_step_def intro!: moves simp: operates_on_def request_lives_def)
  next
    case (AttachSnapshot q sp)
    then have q: "q < length (lives s)" using r by (simp add: request_lives_def)
    show ?thesis using step t(2) r AttachSnapshot
      by (cases sp) (auto simp: request_step_def split: option.splits sum.splits
        intro!: moves [OF background_fields(1)] moves [OF background_snap [OF q]] simp: operates_on_def request_lives_def)
  next
    case (DetachSnapshot q sp)
    then have q: "q < length (lives s)" using r by (simp add: request_lives_def)
    show ?thesis using step t(2) r DetachSnapshot
      by (cases sp) (auto simp: request_step_def split_beta split: option.splits sum.splits
        intro!: moves [OF background_maybeDispose] moves [OF background_snap [OF q]] simp: operates_on_def request_lives_def)
  next
    case (DetachDispose w j)
    then show ?thesis using step t(2)
      by (auto simp: request_step_def split: option.splits intro!: moves moves [OF background_fields(1)] simp: operates_on_def request_lives_def)
  next
    case (Listing l)
    have "\<exists>pc'. p = Some pc' \<and> s' = s \<and> request_lives pc' = {} \<and> (\<forall>r. \<not> operates_on r (Request c i name pc'))"
    proof (cases "list_done l")
      case False
      then obtain x where "p = Some (case x of Inl e \<Rightarrow> Responding (Inl e) | Inr l \<Rightarrow> Listing l)" "s' = s"
        using step Listing by (auto simp: request_step_def)
      then show ?thesis by (cases x) (auto simp: request_lives_def operates_on_def)
    qed (use step Listing in \<open>auto simp: request_step_def request_lives_def operates_on_def\<close>)
    then obtain pc' where "p = Some pc'" "s' = s" "request_lives pc' = {}" "\<And>r. \<not> operates_on r (Request c i name pc')" by blast
    moreover have "\<not> operates_on r (tasks s ! t)" for r by (simp add: t(2) Listing operates_on_def)
    ultimately show ?thesis using moves [of s pc'] by simp
  next
    case (Responding outcome)
    then show ?thesis using step srv_answer [OF s t] t(2) by (auto simp: request_step_def operates_on_def)
  next
    case (OperationCalled q)
    then have op: "operates_on q (tasks s ! t)" using t(2) by (simp add: operates_on_def)
    have "(p = Some (OperationSnapshot q SnapCalled) \<and> s' = s) \<or> (\<exists>e. p = Some (Responding (Inl e)) \<and> s' = finish_operation q s)"
      using step OperationCalled by (auto simp: request_step_def split: answer.splits)
    then consider "p = Some (OperationSnapshot q SnapCalled)" "s' = s"
      | e where "p = Some (Responding (Inl e))" "s' = finish_operation q s"
      by blast
    then show ?thesis
    proof cases
      case 1
      then show ?thesis
        using r c v(10) [OF mem] OperationCalled
        by (simp, intro srv_set_task [OF s t(1)])
           (auto simp: t(2) task_lives_def task_cons_def request_lives_def open_request_def operates_on_def)
    next
      case 2
      with srv_finish_operation [OF s t op] show ?thesis by simp
    qed
  next
    case (OperationSnapshot q sp)
    then have op: "operates_on q (tasks s ! t)" and q: "q < length (lives s)"
      using t(2) r by (simp_all add: operates_on_def request_lives_def)
    have moved: "server_inv (set_task t (Request c i name (OperationSnapshot q sp')) s')" if "background s s'" for sp' s'
    proof -
      have s': "server_inv s'" using srv_background [OF s that] .
      have t': "t < length (tasks s')" "tasks s' ! t = Request c i name pc" using background_task_at [OF that t(1)] t(2) by simp_all
      then have mem': "Request c i name pc \<in> set (tasks s')" by (metis nth_mem)
      show ?thesis
        using server_invD(4,10,11) [OF s' mem'] OperationSnapshot server_invD(11) [OF s'] mem'
        by (intro srv_set_task [OF s' t'(1)])
           (auto simp: t'(2) task_lives_def task_cons_def request_lives_def open_request_def operates_on_def)
    qed
    have ended: "server_inv (set_task t (Request c i name (Responding outcome)) (finish_operation q s'))" if "background s s'" for outcome s'
      using srv_finish_operation [OF srv_background [OF s that], of t c i name pc q outcome] background_task_at [OF that t(1)] t(2) op by simp
    show ?thesis using step OperationSnapshot
      by (cases sp) (auto simp: request_step_def split: option.splits sum.splits
        intro!: moved ended [OF background_refl] ended [OF background_snap [OF q]] background_snap [OF q])
  qed
qed

text \<open>A runtime is opened.\<close>

lemma srv_opened:
  assumes s: "server_inv s"
    and f: "lives u = lives s @ [open_live i k]" "out u = out s @ [Subscribes r]" "connections u = connections s"
    "liveSessions u = AList.update i (length (lives s)) (liveSessions s)" "tasks u = tasks s"
  shows "server_inv u"
proof -
  note v = server_invD [OF s]
  have new: "operationCount (open_live i k) = 0" "live_connections (open_live i k) = []" by (simp_all add: open_live_def)
  have cons: "live_cons u = live_cons s" by (simp add: live_cons_def f(1) new)
  have none: "occurs (operates_on (length (lives s))) (tasks s) = 0"
  proof -
    have "length (lives s) \<in> task_lives x" if "operates_on (length (lives s)) x" for x
      using that by (auto simp: operates_on_def task_lives_def request_lives_def split: task.splits request_pc.splits)
    then show ?thesis using v(4) by (fastforce simp: filter_empty_conv)
  qed
  show ?thesis
  proof (rule server_invI)
    show "live_ok u" using v(1) by (auto simp: live_ok_def f update_conv' nth_append less_Suc_eq)
    show "attach_ok u" using v(1,2) by (auto simp: attach_ok_def live_ok_def f update_conv' nth_append new)
    show "dispose_ok u" using v(3) by (auto simp: dispose_ok_def f nth_append)
    show "operationCount (lives u ! q) = occurs (operates_on q) (tasks u)" if "q < length (lives u)" for q
      using that v(5) [of q] none new by (auto simp: f nth_append less_Suc_eq)
    show "operationCount (lives u ! q) = 0" if "q < length (lives u)" "live_disposing (lives u ! q) \<noteq> NotDisposing" for q
      using that v(6) [of q] by (auto simp: f nth_append less_Suc_eq new)
    show "hello_first (out u)" unfolding f by (rule hello_first_append [OF v(7)]) auto
    show "occurs (answers c j) (out u) + occurs (open_request c j) (tasks u) \<le> occurs (asks c j) (out u)" for c j
      using v(12) [of c j] by (simp add: f answers_def asks_def)
    show "q < length (lives u)" if "x \<in> set (tasks u)" "q \<in> task_lives x" for x q
      using v(4) [of x q] that by (simp add: f)
    show "greeted_on c (out u)" if "x \<in> set (tasks u)" "c \<in> task_cons x" for x c
      using v(10) [of x c] that by (simp add: f)
  qed (use v(8,9,11) in \<open>auto simp: ready_cons_def cons f(2,3,5)\<close>)
qed

lemma srv_plain_task:
  assumes s: "server_inv s" and b: "background s s'" and t: "t < length (tasks s)"
    and x: "task_lives x = {}" "task_cons x = {}" "\<And>r. \<not> operates_on r x" "\<And>c i. \<not> open_request c i x" "\<And>r. x \<noteq> DisposeRuntime r"
    and old: "\<And>r. \<not> operates_on r (tasks s ! t)"
  shows "server_inv (set_task t x s')"
proof -
  have "x \<noteq> Request c i name pc" for c i name pc using x(4) [of c i] by (auto simp: open_request_def)
  then show ?thesis
    using background_task_at [OF b t] x old by (intro srv_set_task [OF srv_background [OF s b]]) auto
qed

lemma srv_create:
  assumes s: "server_inv s" and t: "t < length (tasks s)" "tasks s ! t = Create i pc"
    and step: "create_step t i pc a s = Some (x, s')"
  shows "server_inv (set_task t x s')"
proof (cases "\<exists>r. x = TaskOpened r")
  case True
  then obtain u where u: "x = TaskOpened (length (lives s))" "s' = emit_out (Subscribes (length (lives s)))
      (s\<lparr>lives := lives s @ [open_live i t], liveSessions := AList.update i (length (lives s)) (liveSessions s)\<rparr>)"
    using step by (auto simp: create_step_def Let_def split: create_pc.splits answer.splits if_splits)
  have "server_inv s'"
    by (rule srv_opened [OF s, of _ i t "length (lives s)"]) (simp_all add: u emit_out_def)
  then show ?thesis
    using t by (intro srv_set_task) (auto simp: u emit_out_def task_lives_def task_cons_def operates_on_def open_request_def)
next
  case False
  have e: "background s (emit_out (Disposes t) s)" "background s (emit_out (Released i) s)"
    "background s (emit_out (Released i) (reportError d s))" for d
    by (auto simp: background_effect_def intro: background_emit background_trans [OF background_report(1) background_emit])
  have "background s s' \<and> ((\<exists>pc. x = Create i pc) \<or> (\<exists>e. x = TaskFailed e))"
    using step False e by (auto simp: create_step_def Let_def split: create_pc.splits answer.splits if_splits)
  then show ?thesis
    using t by (intro srv_plain_task [OF s]) (auto simp: task_lives_def task_cons_def operates_on_def open_request_def)
qed

lemma nothing_simps [simp]:
  "task_lives (Handshake c h) = {}" "task_lives (Broadcast bp) = {}" "task_lives TaskDone = {}" "task_lives (TaskFailed e) = {}"
  "task_lives (Terminate r tp) = {}" "task_lives (ClosingServer cp) = {}" "task_lives (Create i pc) = {}"
  "task_cons TaskDone = {}" "task_cons (TaskFailed e) = {}" "task_cons (Terminate r tp) = {}" "task_cons (ClosingServer cp) = {}"
  "task_cons (RuntimeSnapshot r sp) = {}" "task_cons (Create i pc) = {}"
  "\<not> operates_on k (Handshake c h)" "\<not> operates_on k (Broadcast bp)" "\<not> operates_on k TaskDone" "\<not> operates_on k (TaskFailed e)"
  "\<not> operates_on k (Terminate r tp)" "\<not> operates_on k (ClosingServer cp)" "\<not> operates_on k (RuntimeSnapshot r sp)" "\<not> operates_on k (Create i pc)"
  "\<not> open_request d j (Handshake c h)" "\<not> open_request d j (Broadcast bp)" "\<not> open_request d j TaskDone" "\<not> open_request d j (TaskFailed e)"
  "\<not> open_request d j (Terminate r tp)" "\<not> open_request d j (ClosingServer cp)" "\<not> open_request d j (RuntimeSnapshot r sp)" "\<not> open_request d j (Create i pc)"
  by (simp_all add: task_lives_def task_cons_def operates_on_def open_request_def)

text \<open>A message of a task that is no answer is sent, and the task goes on.\<close>

lemma srv_send_task:
  assumes s: "server_inv s" and t: "t < length (tasks s)" "\<And>r. \<not> operates_on r (tasks s ! t)" "\<And>c i. \<not> open_request c i (tasks s ! t)"
    and m: "is_hello m \<or> greeted_on c (out s)" "\<And>i r. m \<noteq> OutResponse i r"
    and x: "task_lives x = {}" "\<And>r. \<not> operates_on r x" "\<And>c i. \<not> open_request c i x" "\<And>r. x \<noteq> DisposeRuntime r"
      "\<And>d. d \<in> task_cons x \<Longrightarrow> greeted_on d (out s) \<or> fst (sendMessage cfg c m s) \<and> is_hello m \<and> d = c"
  shows "server_inv (set_task t x (snd (sendMessage cfg c m s)))"
proof -
  let ?u = "snd (sendMessage cfg c m s)"
  have u: "server_inv ?u" by (rule srv_send [OF s m(1)]) (use m(2) in simp)
  have cs: "\<not> fst (sendMessage cfg c m s) \<and> background s ?u \<or> fst (sendMessage cfg c m s) \<and> (\<exists>f. ?u = emit_out (Sends c m f) s)"
    by (rule sendMessage_cases) simp
  have t': "t < length (tasks ?u)" "tasks ?u ! t = tasks s ! t" and ds: "\<exists>ds. out ?u = out s @ ds"
  proof -
    have "t < length (tasks ?u) \<and> tasks ?u ! t = tasks s ! t \<and> (\<exists>ds. out ?u = out s @ ds)"
      using cs
    proof (elim disjE conjE exE)
      assume "background s ?u"
      then show ?thesis using background_task_at [OF _ t(1)] by (blast elim: backgroundE)
    next
      fix f assume e: "?u = emit_out (Sends c m f) s"
      show ?thesis unfolding e using t(1) by (simp add: emit_out_def)
    qed
    then show "t < length (tasks ?u)" "tasks ?u ! t = tasks s ! t" "\<exists>ds. out ?u = out s @ ds" by simp_all
  qed
  from ds have grows: "greeted_on d (out s) \<Longrightarrow> greeted_on d (out ?u)" for d by auto
  have hello: "greeted_on c (out ?u)" if "fst (sendMessage cfg c m s)" "is_hello m"
  proof -
    from cs that(1) obtain f where "?u = emit_out (Sends c m f) s" by blast
    then have "out ?u = out s @ [Sends c m f]" by (simp add: emit_out_def)
    with that(2) show ?thesis by (cases m) (auto simp: greeted_on_def is_hello_def)
  qed
  have "x \<noteq> Request k i name pc" for k i name pc using x(3) [of k i] by (auto simp: open_request_def)
  then show ?thesis
    using x(1-4) t(2,3)
  proof (intro srv_set_task [OF u t'(1)])
    show "greeted_on d (out ?u)" if "d \<in> task_cons x" for d
      using x(5) [OF that] grows [of d] hello by blast
  qed (auto simp: t'(2))
qed

lemma srv_ready:
  assumes s: "server_inv s" and c: "greeted_on c (out s)"
  shows "server_inv (change_connection c (\<lambda>k. k\<lparr>con_handshakeComplete := True, con_stage := Ready, con_timer := False\<rparr>) s)" (is "server_inv ?u")
proof -
  note v = server_invD [OF s]
  have f: "lives ?u = lives s" "out ?u = out s" "liveSessions ?u = liveSessions s" "tasks ?u = tasks s"
    "length (connections ?u) = length (connections s)"
    by (simp_all add: change_connection_def)
  have k: "con_disconnected (connections ?u ! d) = con_disconnected (connections s ! d)" "con_sessions (connections ?u ! d) = con_sessions (connections s ! d)"
    for d
    unfolding change_connection_def by (cases "c < length (connections s)"; cases "d = c"; simp add: list_update_beyond)+
  have r: "d \<in> ready_cons ?u \<Longrightarrow> d = c \<or> d \<in> ready_cons s" for d
  proof (cases "d = c")
    case False
    then have "connections ?u ! d = connections s ! d" by (simp add: change_connection_def)
    then show "d \<in> ready_cons ?u \<Longrightarrow> ?thesis" by (simp add: ready_cons_def f(5))
  qed simp
  show ?thesis
  proof (rule server_invI)
    show "live_ok ?u" using v(1) by (simp add: live_ok_def f)
    show "attach_ok ?u" using v(2) by (auto simp: attach_ok_def f k)
    show "dispose_ok ?u" using v(3) by (simp add: dispose_ok_def f)
    show "greeted_on d (out ?u)" if "d \<in> ready_cons ?u" for d using r [OF that] v(8) c by (auto simp: f)
    show "greeted_on d (out ?u)" if "d \<in> live_cons ?u" for d using that v(9) by (simp add: live_cons_def f)
    show "q < length (lives ?u)" if "x \<in> set (tasks ?u)" "q \<in> task_lives x" for x q using v(4) [of x q] that by (simp add: f)
    show "greeted_on d (out ?u)" if "x \<in> set (tasks ?u)" "d \<in> task_cons x" for x d using v(10) [of x d] that by (simp add: f)
    show "d < length (connections ?u)" if "Request d i name pc \<in> set (tasks ?u)" for d i name pc using v(11) that by (simp add: f)
  qed (use v(5-7,12) in \<open>simp_all add: f\<close>)
qed

lemma srv_handshake:
  assumes s: "server_inv s" and t: "t < length (tasks s)" "tasks s ! t = Handshake c pc"
    and step: "handshake_step cfg c pc a s = Some (x, s')"
  shows "server_inv (set_task t x s')"
proof -
  have mem: "Handshake c pc \<in> set (tasks s)" using t by (metis nth_mem)
  have g: "greeted_on c (out s)" if "\<And>n h. pc \<noteq> HelloGet n h"
    using server_invD(10) [OF s mem, of c] that by (cases pc) (auto simp: task_cons_def)
  note plain = srv_plain_task [OF s _ t(1)]
  have reject: "background s (send_rejected c e s)" for e
    unfolding send_rejected_def by (rule background_trans [OF background_report(1) background_close_connection])
  have keep: "server_inv (set_task t (Handshake c pc') s)" if "(\<forall>n h. pc' \<noteq> HelloGet n h) \<Longrightarrow> greeted_on c (out s)" for pc'
    using that t by (intro srv_set_task [OF s t(1)]) (auto simp: task_cons_def split: handshake_pc.splits)
  have get: "server_inv (set_task t (Handshake c (HelloGet n g)) s)" for n g using keep [of "HelloGet n g"] by blast
  have refresh: "server_inv (set_task t (Handshake c (HelloRefresh n g)) s)" if "greeted_on c (out s)" for n g
    using keep [of "HelloRefresh n g"] that by blast
  have failed: "server_inv (set_task t TaskDone (fail_with cfg c e s))" for e
    using plain [OF background_fail_with, of TaskDone] t(2) by simp
  show ?thesis
  proof (cases pc)
    case (HelloGet n h)
    show ?thesis
    proof (cases h)
      case (GetDone sessions models)
      let ?m = "OutHello (con_id (connections s ! c)) (snapshot_value cfg n sessions models)"
      have "handshake_step cfg c pc a s = (if closing s \<or> con_disconnected (connections s ! c) \<or>
          con_stage (connections s ! c) \<noteq> Handshaking \<or> con_closed (connections s ! c) then Some (TaskDone, s)
        else Some (if fst (sendMessage cfg c ?m s) then Handshake c (HelloSent n) else TaskDone, snd (sendMessage cfg c ?m s)))"
        by (simp add: handshake_step_def HelloGet GetDone Let_def split_beta)
      then consider "x = TaskDone" "s' = s"
        | "x = (if fst (sendMessage cfg c ?m s) then Handshake c (HelloSent n) else TaskDone)" "s' = snd (sendMessage cfg c ?m s)"
        using step by (cases "closing s \<or> con_disconnected (connections s ! c) \<or>
          con_stage (connections s ! c) \<noteq> Handshaking \<or> con_closed (connections s ! c)") simp_all
      then show ?thesis
      proof cases
        case 1
        then show ?thesis using plain [of s TaskDone] t(2) by simp
      next
        case 2
        have "server_inv (set_task t x (snd (sendMessage cfg c ?m s)))"
          by (rule srv_send_task [OF s t(1)]) (auto simp: t(2) is_hello_def 2(1) task_cons_def split: if_splits)
        then show ?thesis by (simp add: 2(2))
      qed
    qed (use step HelloGet t(2) get failed in \<open>auto simp: handshake_step_def split: option.splits sum.splits\<close>)
  next
    case (HelloSent n)
    then have "greeted_on c (out s)" using g by simp
    from step HelloSent consider e where "x = TaskDone" "s' = send_rejected c e s" | "x = TaskDone" "s' = s"
      | "s' = change_connection c (\<lambda>k. k\<lparr>con_handshakeComplete := True, con_stage := Ready, con_timer := False\<rparr>) s"
        "x = TaskDone \<or> (\<exists>h. x = Handshake c (HelloRefresh (revision s') h))"
      by (auto simp: handshake_step_def finish_hello_def Let_def split: answer.splits if_splits)
    then show ?thesis
    proof cases
      case 3
      have "tasks s' = tasks s" "out s' = out s" by (simp_all add: 3(1) change_connection_def)
      with 3 srv_ready [OF s \<open>greeted_on c (out s)\<close>] t \<open>greeted_on c (out s)\<close> show ?thesis
        by (intro srv_set_task) (auto simp: task_cons_def)
    qed (use plain [of _ TaskDone] reject t(2) in simp_all)
  next
    case (HelloRefresh n h)
    then have gr: "greeted_on c (out s)" using g by simp
    show ?thesis
    proof (cases h)
      case (GetDone sessions models)
      let ?m = "OutEvent (OutServerSnapshot (snapshot_value cfg n sessions models))"
      have x: "x = (if fst (sendMessage cfg c ?m s) then Handshake c HelloRefreshed else TaskDone)" "s' = snd (sendMessage cfg c ?m s)"
        using step HelloRefresh GetDone by (auto simp: handshake_step_def Let_def split_beta)
      have "server_inv (set_task t x (snd (sendMessage cfg c ?m s)))"
        by (rule srv_send_task [OF s t(1)]) (use gr in \<open>auto simp: t(2) x(1) task_cons_def split: if_splits\<close>)
      then show ?thesis by (simp add: x(2))
    qed (use step HelloRefresh t(2) refresh [OF gr] failed in \<open>auto simp: handshake_step_def split: option.splits sum.splits\<close>)
  next
    case HelloRefreshed
    then show ?thesis using step t(2) plain [of _ TaskDone] reject by (auto simp: handshake_step_def split: answer.splits)
  qed
qed

end
