(* ===== verification/ServerInvariant.thy ===== *)
theory ServerInvariant
  imports ServerRequests
begin

text \<open>
  The invariant \<open>server_inv\<close> holds in every state of a server, and what it says about requests, the handshake,
  operations and attachments.
\<close>

subsection \<open>Broadcasts, closing and runtimes\<close>

lemma srv_broadcast:
  assumes s: "server_inv s" and t: "t < length (tasks s)" "tasks s ! t = Broadcast pc"
    and step: "broadcast_step cfg pc a s = Some (x, s')"
  shows "server_inv (set_task t x s')"
proof -
  have mem: "Broadcast pc \<in> set (tasks s)" using t by (metis nth_mem)
  have g: "greeted_on c (out s)" if "c \<in> task_cons (Broadcast pc)" for c
    using server_invD(10) [OF s mem that] .
  have failed: "server_inv (set_task t TaskDone (reportError e (s\<lparr>broadcasting := False\<rparr>)))" for e
    by (rule srv_plain_task [OF s background_trans [OF background_fields(4) background_report(1)] t(1)]) (simp_all add: t(2))
  have ended: "server_inv (set_task t TaskDone (s\<lparr>broadcasting := False\<rparr>))"
    by (rule srv_plain_task [OF s background_fields(4) t(1)]) (simp_all add: t(2))
  have on: "server_inv (set_task t (Broadcast pc') s)" if "task_cons (Broadcast pc') \<subseteq> task_cons (Broadcast pc)" for pc'
    using that t(2) g by (intro srv_set_task [OF s t(1)]) auto
  show ?thesis
  proof (cases pc)
    case (BroadcastModels n cs)
    have "server_inv (set_task t (Broadcast (BroadcastList n cs ms l)) s)" for ms l
      by (rule on) (simp add: task_cons_def BroadcastModels)
    then show ?thesis using step failed BroadcastModels
      by (auto simp: broadcast_step_def split: answer.splits)
  next
    case (BroadcastList n cs models l)
    have "server_inv (set_task t (Broadcast (BroadcastList n cs ms l)) s)" "server_inv (set_task t (Broadcast (BroadcastSend v cs)) s)" for ms l v
      by (rule on; simp add: task_cons_def BroadcastList)+
    then show ?thesis using step failed BroadcastList
      by (auto simp: broadcast_step_def split: if_splits option.splits sum.splits)
  next
    case (BroadcastSend v cs)
    show ?thesis
    proof (cases cs)
      case Nil
      then show ?thesis using step BroadcastSend ended by (simp add: broadcast_step_def)
    next
      case (Cons c ds)
      let ?m = "OutEvent (OutServerSnapshot v)"
      have "server_inv (set_task t (Broadcast (BroadcastSend v ds)) (snd (sendMessage cfg c ?m s)))"
        by (rule srv_send_task [OF s t(1)]) (use g in \<open>auto simp: t(2) BroadcastSend Cons task_cons_def\<close>)
      then show ?thesis using step BroadcastSend Cons by (simp add: broadcast_step_def)
    qed
  qed
qed

lemma background_forget_all: "background s (s\<lparr>liveSessions := []\<rparr>)"
  by (rule backgroundI [of _ _ "[]" "[]"]) (auto simp: attach_ok_def dispose_ok_def)

lemma background_close_live: "background s (close_live r s)"
  unfolding close_live_def
  by (auto intro: background_trans [OF background_unsubscribe background_emit] simp: background_effect_def)

lemma background_close_step:
  assumes "close_step pc a s = Some (x, s')"
  shows "background s s' \<and> ((\<exists>pc. x = ClosingServer pc) \<or> x = TaskDone)"
proof (cases pc)
  case CloseListeners
  have c: "background u (fold (\<lambda>c. change_connection c (\<lambda>k. k\<lparr>con_stage := Closing, con_timer := False\<rparr>)) cs u)" for cs u
    by (rule background_fold) (rule background_connection, simp)
  have e: "background u (fold (\<lambda>c. emit_out (Closes c None)) cs u)" for cs u
    by (rule background_fold) (rule background_emit, simp add: background_effect_def)
  show ?thesis using assms CloseListeners
    by (auto simp: close_step_def Let_def intro: background_trans [OF c e])
next
  case (CloseOpening ts)
  have r: "background u (fold (\<lambda>t s'. case task_at s t of TaskFailed e \<Rightarrow> reportError e s' | _ \<Rightarrow> s') ts u)" for u
    by (rule background_fold) (auto split: task.split)
  have l: "background u (fold close_live rs u)" for rs u
    by (rule background_fold) (rule background_close_live)
  show ?thesis using assms CloseOpening
    by (auto simp: close_step_def Let_def split: if_splits
        intro: background_trans [OF background_trans [OF r background_forget_all] l])
qed (use assms in \<open>auto simp: close_step_def split_beta split: answer.splits if_splits intro: background_disconnect_all\<close>)

lemma nothing_more [simp]:
  "task_lives (DisposeRuntime r) = {}" "task_lives (NotifyDisposed r) = {}" "task_lives (ReportFailure w) = {}"
  "task_lives (ClosingConnection c) = {}" "task_lives (Disconnecting ws b) = {}"
  "\<not> operates_on k (DisposeRuntime r)" "\<not> operates_on k (NotifyDisposed r)" "\<not> operates_on k (ReportFailure w)"
  "\<not> operates_on k (ClosingConnection c)" "\<not> operates_on k (Disconnecting ws b)" "\<not> operates_on k (TaskOpened r)"
  by (simp_all add: task_lives_def operates_on_def)

lemma srv_runtime_snapshot:
  assumes s: "server_inv s" and t: "t < length (tasks s)" "tasks s ! t = RuntimeSnapshot r pc"
    and step: "snap_advance cfg r pc a s = Some (x, s')"
  shows "server_inv (set_task t (case x of Inl e \<Rightarrow> TaskDone | Inr pc \<Rightarrow> RuntimeSnapshot r pc)
    (case x of Inl e \<Rightarrow> reportError e s' | Inr pc \<Rightarrow> s'))"
proof -
  have mem: "RuntimeSnapshot r pc \<in> set (tasks s)" using t by (metis nth_mem)
  then have r: "r < length (lives s)" using server_invD(4) [OF s mem] by (simp add: task_lives_def)
  have b: "background s s'" by (rule background_snap [OF r step])
  have len: "length (lives s') = length (lives s)" using b by (auto elim: backgroundE simp: lives_le_def)
  show ?thesis
  proof (cases x)
    case (Inl e)
    have "server_inv (set_task t TaskDone (reportError e s'))"
      by (rule srv_plain_task [OF s background_trans [OF b background_report(1)] t(1)]) (simp_all add: t(2))
    with Inl show ?thesis by simp
  next
    case (Inr pc')
    have "server_inv (set_task t (RuntimeSnapshot r pc') s')"
      using background_task_at [OF b t(1)] t(2) r len
      by (intro srv_set_task [OF srv_background [OF s b]]) (auto simp: task_lives_def)
    with Inr show ?thesis by simp
  qed
qed

subsection \<open>A task goes on\<close>

lemma task_step_plain:
  assumes s: "server_inv s" and t: "t < length (tasks s)" and step: "task_step cfg t a s = Some (x, s')"
    and kind: "\<exists>r w c ws b pc. tasks s ! t \<in> {DisposeRuntime r, NotifyDisposed r, ReportFailure w, ClosingConnection c,
      Disconnecting ws b, Terminate r pc}"
  shows "background s s' \<and> (x = TaskDone \<or> (\<exists>e. x = TaskFailed e) \<or> (\<exists>r pc. x = Terminate r pc))"
proof -
  have fin: "background s (finish_disposal r e s)" if "tasks s ! t = DisposeRuntime r" for r e
    using that t server_invD(3) [OF s] by (intro background_finish) (metis nth_mem)
  have dis: "background u (snd (disconnect c (reportError e u)))" for u c e
    by (rule background_trans [OF background_report(1) background_disconnect])
  have rep: "background u (queue_broadcast (report_failures ws u))" for u ws
    by (rule background_trans [OF background_report_failures background_fields(1)])
  show ?thesis
  proof (cases "\<exists>r pc. tasks s ! t = Terminate r pc")
    case True
    then obtain r pc where "terminate_step r pc a s = Some (x, s')" using step by (auto simp: task_step_def)
    from background_terminate_step [OF this] show ?thesis by blast
  next
    case False
    with kind step fin dis rep background_disconnect background_report_failures background_fields(1) show ?thesis
      by (auto simp: task_step_def split: answer.splits option.splits if_splits)
  qed
qed

lemma srv_resume:
  assumes s: "server_inv s" and t: "t < length (tasks s)" and step: "resume cfg t a s = Some s'"
  shows "server_inv s'"
proof -
  obtain x u where u: "task_step cfg t a s = Some (x, u)" "s' = set_task t x u"
    using step by (auto simp: resume_def)
  have plain: "server_inv s'" if "\<exists>r w c ws b pc. tasks s ! t \<in> {DisposeRuntime r, NotifyDisposed r, ReportFailure w, ClosingConnection c,
      Disconnecting ws b, Terminate r pc}"
  proof -
    have "(\<forall>r. \<not> operates_on r (tasks s ! t))" using that by auto
    with task_step_plain [OF s t u(1) that] show ?thesis
      unfolding u(2) by (intro srv_plain_task [OF s _ t]) auto
  qed
  show ?thesis
  proof (cases "tasks s ! t")
    case (Handshake c pc)
    then show ?thesis using u srv_handshake [OF s t Handshake] by (simp add: task_step_def)
  next
    case (Request c i name pc)
    with u obtain p where p: "request_step cfg c i name pc a s = Some (p, u)"
      and x: "x = (case p of None \<Rightarrow> TaskDone | Some pc \<Rightarrow> Request c i name pc)"
      by (auto simp: task_step_def)
    show ?thesis using srv_request [OF s t Request p] by (simp add: u(2) x)
  next
    case (Create i pc)
    then show ?thesis using u srv_create [OF s t Create] by (simp add: task_step_def)
  next
    case (RuntimeSnapshot r pc)
    show ?thesis
    proof (cases "\<exists>v. pc = SnapSent v")
      case True
      then show ?thesis using u RuntimeSnapshot srv_plain_task [OF s background_refl t, of TaskDone] by (auto simp: task_step_def)
    next
      case False
      then obtain y w where y: "snap_advance cfg r pc a s = Some (y, w)"
        and xu: "x = (case y of Inl e \<Rightarrow> TaskDone | Inr pc \<Rightarrow> RuntimeSnapshot r pc)" "u = (case y of Inl e \<Rightarrow> reportError e w | Inr pc \<Rightarrow> w)"
        using u(1) RuntimeSnapshot by (cases pc) (auto simp: task_step_def split: option.splits sum.splits)
      show ?thesis using srv_runtime_snapshot [OF s t RuntimeSnapshot y] by (simp add: u(2) xu)
    qed
  next
    case (Broadcast pc)
    then show ?thesis using u srv_broadcast [OF s t Broadcast] by (simp add: task_step_def)
  next
    case (ClosingServer pc)
    with u background_close_step [of pc a s x u] have "background s u" "(\<exists>pc. x = ClosingServer pc) \<or> x = TaskDone"
      by (simp_all add: task_step_def)
    then show ?thesis unfolding u(2) by (intro srv_plain_task [OF s _ t]) (auto simp: ClosingServer)
  qed (use u in \<open>simp add: task_step_def\<close>; fail | rule plain, simp)+
qed

subsection \<open>Connections and events\<close>

lemma srv_accept:
  assumes s: "server_inv s"
  shows "server_inv (accept_connection cfg s)"
proof (cases "closing s")
  case True
  then show ?thesis by (simp add: accept_connection_def srv_background [OF s background_emit] background_effect_def)
next
  case False
  note v = server_invD [OF s]
  obtain k where k: "connections (accept_connection cfg s) = connections s @ [k]" "con_stage k = AwaitingHello"
    using False by (simp add: accept_connection_def)
  have f: "lives (accept_connection cfg s) = lives s" "out (accept_connection cfg s) = out s"
    "liveSessions (accept_connection cfg s) = liveSessions s" "tasks (accept_connection cfg s) = tasks s"
    using False by (simp_all add: accept_connection_def)
  show ?thesis
  proof (rule server_invI)
    show "attach_ok (accept_connection cfg s)"
      using v(2) by (auto simp: attach_ok_def f k(1) nth_append less_Suc_eq)
    show "greeted_on c (out (accept_connection cfg s))" if "c \<in> ready_cons (accept_connection cfg s)" for c
      using that v(8) [of c] by (auto simp: ready_cons_def f k nth_append split: if_splits)
    show "greeted_on c (out (accept_connection cfg s))" if "c \<in> live_cons (accept_connection cfg s)" for c
      using that v(9) by (simp add: live_cons_def f)
    show "greeted_on c (out (accept_connection cfg s))" if "x \<in> set (tasks (accept_connection cfg s))" "c \<in> task_cons x" for x c
      using that v(10) by (simp add: f)
    show "c < length (connections (accept_connection cfg s))" if "Request c i name pc \<in> set (tasks (accept_connection cfg s))" for c i name pc
      using that v(11) by (fastforce simp: f k(1))
    show "r < length (lives (accept_connection cfg s))" if "x \<in> set (tasks (accept_connection cfg s))" "r \<in> task_lives x" for x r
      using that v(4) by (simp add: f)
  qed (use v(1,3,5-7,12) in \<open>simp_all add: f live_ok_def dispose_ok_def\<close>)
qed

lemma change_connection_same [simp]:
  "length (connections (change_connection c f s)) = length (connections s)" "out (change_connection c f s) = out s"
  "lives (change_connection c f s) = lives s" "tasks (change_connection c f s) = tasks s"
  by (simp_all add: change_connection_def)

lemma srv_start_handshake:
  assumes s: "server_inv s"
  shows "server_inv (start_handshake cfg c version s)"
proof -
  define u where "u = change_connection c (\<lambda>k. k\<lparr>con_stage := Handshaking\<rparr>) s"
  have b: "background s u" unfolding u_def by (rule background_connection) simp
  have u: "server_inv u" by (rule srv_background [OF s b])
  have set: "server_inv w \<Longrightarrow> server_inv (change_connection c (\<lambda>k. k\<lparr>con_handshake := h\<rparr>) w)" for w h
    by (erule srv_background) (rule background_connection, simp)
  have "server_inv (spawn (Handshake c (HelloGet n g)) u)" for n g
    by (rule srv_spawn [OF u]) (simp_all add: task_cons_def)
  moreover have "server_inv (spawn TaskDone (failProtocol cfg c e u))" for e
    by (rule srv_background [OF u background_trans [OF background_failProtocol background_spawn]]) (simp_all add: background_task_def)
  ultimately show ?thesis
    by (auto simp: start_handshake_def Let_def u_def [symmetric] intro!: set)
qed

lemma srv_dispatch:
  assumes s: "server_inv s" and c: "c < length (connections s)"
  shows "server_inv (dispatchMessage cfg c m s)"
proof -
  have fail: "server_inv (failProtocol cfg c e s)" for e by (rule srv_background [OF s background_failProtocol])
  have wait: "server_inv (change_connection c (\<lambda>k. k\<lparr>con_waiting := con_waiting k @ ws\<rparr>) s)" for ws
    by (rule srv_background [OF s]) (rule background_connection, simp)
  have "greeted_on c (out s)" if "con_stage (connections s ! c) = Ready"
    using that c server_invD(8) [OF s] by (simp add: ready_cons_def)
  then have req: "server_inv (handleRequest cfg c i q s)" if "con_stage (connections s ! c) = Ready" for i q
    using that srv_handleRequest [OF s c] by blast
  show ?thesis
    using s fail wait req by (auto simp: dispatchMessage_def srv_start_handshake split: client_message.split)
qed

lemma failProtocol_connections [simp]: "length (connections (failProtocol cfg c e s)) = length (connections s)"
  using background_failProtocol [of s cfg c e] by (auto elim: backgroundE simp: cons_le_def)

lemma attach_connections [simp]: "length (connections (snd (attach c r s))) = length (connections s)"
  using background_maybeDispose [of s r] by (auto elim: backgroundE simp: attach_def Let_def split_beta cons_le_def change_live_def)

lemma background_connections: "background s s' \<Longrightarrow> length (connections s') = length (connections s)"
  by (auto elim: backgroundE simp: cons_le_def)

lemma start_command_connections:
  "length (connections (snd (start_command cfg c q s))) = length (connections s)"
proof -
  have d: "length (connections (snd (start_detach c i s))) = length (connections s)" for i
    using background_connections [OF background_maybeDispose]
    by (auto simp: start_detach_def Let_def split_beta queue_broadcast_def drop_connection_def change_live_def split: option.split)
  have a: "length (connections (snd (acquire call i u))) = length (connections u)" for call i u
    by (rule background_connections [OF background_acquire])
  show ?thesis
    by (cases q) (auto simp: start_command_def d a start_operation_def emit_out_def change_live_def split: sum.split)
qed

lemma dispatch_connections [simp]: "length (connections (dispatchMessage cfg c m s)) = length (connections s)"
  by (auto simp: dispatchMessage_def start_handshake_def handleRequest_def Let_def split_beta spawn_def emit_out_def start_command_connections
      split: client_message.split)

lemma srv_dispatch_all: "server_inv s \<Longrightarrow> c < length (connections s) \<Longrightarrow> server_inv (dispatch_all cfg c ms s)"
  by (induction ms arbitrary: s) (auto simp: srv_dispatch)

lemma srv_receive:
  assumes s: "server_inv s" and c: "c < length (connections s)"
  shows "server_inv (receive cfg c chunk s)"
proof -
  have d: "server_inv (change_connection c (\<lambda>k. k\<lparr>con_decoder := d\<rparr>) s)" for d
    by (rule srv_background [OF s]) (rule background_connection, simp)
  show ?thesis
    using s c srv_background [OF d background_fail_with] srv_dispatch_all [OF d]
    by (auto simp: receive_def Let_def split: prod.split sum.split)
qed

lemma srv_start_broadcast:
  assumes s: "server_inv s" and step: "start_broadcast s = Some s'"
  shows "server_inv s'"
proof -
  define ready where "ready = filter (\<lambda>c. con_stage (connections s ! c) = Ready \<and> \<not> con_disconnected (connections s ! c)) [0..<length (connections s)]"
  have q: "background s (s\<lparr>broadcastQueue := broadcastQueue s - 1\<rparr>)" by (rule background_fields)
  define u where "u = s\<lparr>broadcastQueue := broadcastQueue s - 1, revision := revision s + 1, broadcasting := True\<rparr>"
  have "background s u"
    unfolding u_def by (rule background_trans [OF background_trans [OF q background_fields(6)] background_fields(4)])
  then have u: "server_inv u" by (rule srv_background [OF s])
  have "greeted_on c (out s)" if "c \<in> set ready" for c
    using that server_invD(8) [OF s, of c] by (auto simp: ready_def ready_cons_def)
  then have "server_inv (spawn (Broadcast (BroadcastModels (revision s + 1) ready)) u)"
    by (intro srv_spawn [OF u]) (auto simp: task_cons_def u_def)
  then show ?thesis
    using step srv_background [OF s q] by (auto simp: start_broadcast_def Let_def ready_def u_def split: if_splits)
qed

lemma srv_dequeue:
  assumes s: "server_inv s" and c: "c < length (connections s)" and step: "dequeue_request cfg c s = Some s'"
  shows "server_inv s'"
proof -
  have w: "server_inv (change_connection c (\<lambda>k. k\<lparr>con_waiting := ws\<rparr>) s)" for ws
    by (rule srv_background [OF s]) (rule background_connection, simp)
  have "greeted_on c (out s)" if "con_stage (connections s ! c) = Ready"
    using that c server_invD(8) [OF s] by (simp add: ready_cons_def)
  then have "server_inv (handleRequest cfg c i q (change_connection c (\<lambda>k. k\<lparr>con_waiting := ws\<rparr>) s))"
    if "con_stage (connections s ! c) = Ready" for i q ws
    using that c by (intro srv_handleRequest [OF w]) simp_all
  then show ?thesis
    using step w by (auto simp: dequeue_request_def Let_def split: if_splits list.splits option.splits)
qed

lemma srv_runtime_event:
  assumes s: "server_inv s" and r: "r < length (lives s)"
  shows "server_inv (handleRuntimeEvent cfg r ev s)"
proof (cases "ev = RuntimeSnapshotEvent")
  case True
  have "server_inv (spawn (RuntimeSnapshot r SnapCalled) s)"
    by (rule srv_spawn [OF s]) (use r in \<open>auto simp: task_lives_def\<close>)
  from srv_background [OF this background_schedule] True show ?thesis by (simp add: handleRuntimeEvent_def)
qed (rule srv_background [OF s background_runtime_event [OF r]])

lemma srv_step:
  assumes s: "server_inv s" and step: "server_step cfg ev s = Some s'"
  shows "server_inv s'"
proof (cases ev)
  case CloseCalled
  have "server_inv (spawn (ClosingServer CloseListeners) (s\<lparr>closing := True\<rparr>))"
    by (rule srv_background [OF s background_trans [OF background_fields(7) background_spawn]]) (simp_all add: background_task_def)
  then show ?thesis using s step CloseCalled by (auto simp: server_step_def)
next
  case (HandshakeTimesOut c)
  have "background s (change_connection c (\<lambda>k. k\<lparr>con_timer := False\<rparr>) s)" by (rule background_connection) simp
  from srv_background [OF s background_trans [OF this background_failProtocol]] show ?thesis
    using step HandshakeTimesOut by (auto simp: server_step_def split: if_splits)
next
  case (FlagsClosed c)
  have "background s (change_connection c (\<lambda>k. k\<lparr>con_closed := True\<rparr>) s)" by (rule background_connection) simp
  from srv_background [OF s this] show ?thesis using step FlagsClosed by (auto simp: server_step_def split: if_splits)
qed (use step in \<open>auto simp: server_step_def send_rejected_def split: if_splits
      intro: srv_accept [OF s] srv_receive [OF s] srv_background [OF s background_transportClosed]
        srv_background [OF s background_trans [OF background_report(1) background_close_connection]] srv_dequeue [OF s]
        srv_runtime_event [OF s] srv_background [OF s background_fields(3)] srv_resume [OF s] srv_start_broadcast [OF s]\<close>)

lemma srv_reachable: "server_reachable cfg s \<Longrightarrow> server_inv s"
proof (induction rule: server_reachable.induct)
  case new
  show ?case
    by (rule server_invI) (simp_all add: new_server_def live_ok_def attach_ok_def dispose_ok_def hello_first_def ready_cons_def live_cons_def)
qed (rule srv_step)

end
