(* ===== verification/ServerPromises.thy ===== *)
theory ServerPromises
  imports ServerInvariant CborReference
begin

text \<open>
  What the server promises: the properties that follow from its invariants, and a run of a server with the codec and
  the schemas of the protocol package, from the bytes of a client up to a session that is opened, used, disposed and
  opened again. Every property is applied in a state of this run.
\<close>

subsection \<open>A sample server\<close>

definition sample_config :: server_config where
  "sample_config = \<lparr>cfg_check = conforms, cfg_maxFrameLength = 1024, cfg_serverId = units ''a'',
     cfg_decoder = \<lparr>failed = False, frames = fresh_decoder 1024, frameLimit = 1024\<rparr>,
     cfg_uuid = (\<lambda>n. units (''a'' @ replicate n (CHR ''b''))), cfg_texts = (\<lambda>e. units ''invalid'')\<rparr>"

definition sample_request_value :: "string \<Rightarrow> string \<Rightarrow> js_value" where
  "sample_request_value i command = object_value
     [(''type'', JString (units ''request'')), (''id'', JString (units i)),
      (''request'', object_value [(''command'', JString (units command)), (''sessionId'', JString (units ''s''))])]"

definition sample_messages :: "js_value list" where
  "sample_messages = [sample_request, sample_request_value ''1'' ''attach'', sample_request_value ''2'' ''abort'',
     sample_request_value ''3'' ''attach'', sample_request_value ''4'' ''detach'', sample_request_value ''5'' ''attach'']"

definition sample_greeting :: out_message where
  "sample_greeting = OutHello (units ''a'') (snapshot_value sample_config 0 [] [])"

lemma sample_text: "encodable_text (message_options 1024) (units s)" if "length s \<le> 300"
  using that by (intro encodable_units) (simp add: message_options_def)

lemmas sample_simps = sample_messages_def sample_request_def sample_request_value_def object_value_def sample_greeting_def
  snapshot_value_def sample_config_def

lemma sample_messages_fit: "list_all (\<lambda>v. isProtocolValue False v \<and> encodable (message_options 1024) 0 v \<and> cbor_bound v \<le> 1024) sample_messages"
  by (simp add: sample_simps sample_text, simp add: message_options_def DEFAULT_MAX_CBOR_CONTAINER_LENGTH_def DEFAULT_MAX_CBOR_DEPTH_def encodable_number_def
    is_safe_integer_def MAX_SAFE_INTEGER_def)

lemma sample_messages_conform: "list_all (conforms ClientMessageSchema) sample_messages"
  by code_simp

lemma sample_messages_stored: "map stored sample_messages = sample_messages"
  by (simp add: sample_simps)

lemma sample_messages_proper: "list_all proper sample_messages"
  by code_simp

definition sample_chunk :: "byte list" where
  "sample_chunk = concat (map (\<lambda>v. be_bytes32 (length (cbor_bytes v)) @ cbor_bytes v) sample_messages)"

lemma conforms_stored_client: "isProtocolValue False v \<Longrightarrow> conforms ClientMessageSchema v \<Longrightarrow> conforms ClientMessageSchema (stored v)"
  by (rule checks_stored [of conforms]) (simp_all add: checks_schemas_def named_once_schemas)

lemma sample_received:
  "\<exists>d. push_client conforms (cfg_decoder sample_config) sample_chunk = (Inr sample_messages, d)"
proof -
  have d: "new_message_decoder (Some 1024) = Inr (cfg_decoder sample_config)"
    by (simp add: new_message_decoder_def new_frame_decoder_def resolveMaxFrameLength_def MAX_UINT32_def or_default_def sample_config_def)
  have enc: "proper v \<and> encodeProtocolMessage v (parse_message (conforms ClientMessageSchema)) (Some 1024) =
      Inr (be_bytes32 (length (cbor_bytes v)) @ cbor_bytes v)" if "v \<in> set sample_messages" for v
    using that sample_messages_fit sample_messages_conform sample_messages_proper cbor_bound [of v]
      message_encodes [of v "conforms ClientMessageSchema" 1024]
    by (fastforce simp: list_all_iff MAX_UINT32_def)
  have "list_all2 (\<lambda>v f. proper v \<and> encodeProtocolMessage v (parse_message (conforms ClientMessageSchema)) (Some 1024) = Inr f)
      sample_messages (map (\<lambda>v. be_bytes32 (length (cbor_bytes v)) @ cbor_bytes v) sample_messages)"
    by (simp add: list.rel_map list_all2_same enc)
  from message_stream_roundtrip [OF d conforms_stored_client this, of "[sample_chunk]"]
  have "fst (push_client conforms (cfg_decoder sample_config) sample_chunk) = Inr sample_messages"
    by (simp add: push_client_def parseClientMessage_def sample_chunk_def sample_messages_stored split: prod.splits sum.splits)
  then show ?thesis by (cases "push_client conforms (cfg_decoder sample_config) sample_chunk") simp
qed

lemma sample_messages_read:
  "map read_client_message sample_messages = [ClientHello (Integral 1),
     ClientRequest (units ''1'') (AttachCommand (units ''s'')), ClientRequest (units ''2'') (AbortCommand (units ''s'')),
     ClientRequest (units ''3'') (AttachCommand (units ''s'')), ClientRequest (units ''4'') (DetachCommand (units ''s'')),
     ClientRequest (units ''5'') (AttachCommand (units ''s''))]"
  by code_simp

lemma sample_greeting_frame: "\<exists>f. frame_of sample_config sample_greeting = Inr f"
proof -
  let ?v = "server_value (cfg_texts sample_config) sample_greeting"
  have v: "?v = object_value [(''type'', JString (units ''hello'')), (''version'', JNumber (Integral 1)), (''connectionId'', JString (units ''a'')),
      (''snapshot'', object_value [(''serverId'', JString (units ''a'')), (''protocolVersion'', JNumber (Integral 1)),
        (''revision'', JNumber (Integral 0)), (''sessions'', JArray []), (''models'', JArray [])])]"
    by (simp add: sample_simps PROTOCOL_VERSION_def)
  have fit: "isProtocolValue False ?v" "encodable (message_options 1024) 0 ?v" "cbor_bound ?v \<le> 1024"
    unfolding v
    by (simp_all add: object_value_def sample_text)
       (simp add: message_options_def DEFAULT_MAX_CBOR_CONTAINER_LENGTH_def DEFAULT_MAX_CBOR_DEPTH_def encodable_number_def
         is_safe_integer_def MAX_SAFE_INTEGER_def)
  have "conforms ServerMessageSchema ?v" by code_simp
  with fit message_encodes [of ?v "conforms ServerMessageSchema" 1024] cbor_bound [of ?v] show ?thesis
    by (simp add: frame_of_def encodeServerMessage_def parseServerMessage_def MAX_UINT32_def sample_config_def)
qed

subsection \<open>A run\<close>

definition sample_events :: "server_event_in list" where
  "sample_events = [Accepts, Receives 0 sample_chunk, Resumes 0 (GivesList []), Resumes 0 Continue,
     Resumes 0 (GivesList []), Resumes 0 Continue, Resumes 0 Continue]"

lemmas sample_run_simps = server_step_def accept_connection_def new_server_def receive_def isTerminalConnection_def
  sample_messages_read dispatchMessage_def start_handshake_def isSupportedProtocolVersion_def PROTOCOL_VERSION_def
  change_connection_def spawn_def emit_out_def set_task_def resume_def task_step_def handshake_step_def get_advance_def list_advance_def
  list_done_def list_result_def finish_hello_def

lemma sample_greeted:
  "\<exists>f d. server_run sample_config sample_events new_server = Some
     (new_server\<lparr>uuids := 1, tasks := [TaskDone], out := [Sends 0 sample_greeting f],
       connections := [\<lparr>con_id = units ''a'', con_decoder = d, con_sessions = [], con_stage = Ready, con_disconnected = False,
         con_closed = False, con_handshakeComplete = True, con_handshake = Some 0,
         con_waiting = [(units ''1'', AttachCommand (units ''s'')), (units ''2'', AbortCommand (units ''s'')),
           (units ''3'', AttachCommand (units ''s'')), (units ''4'', DetachCommand (units ''s'')), (units ''5'', AttachCommand (units ''s''))],
         con_timer = False\<rparr>]\<rparr>)"
proof -
  obtain f where f: "frame_of sample_config sample_greeting = Inr f" using sample_greeting_frame by blast
  obtain d where d: "push_client conforms (cfg_decoder sample_config) sample_chunk = (Inr sample_messages, d)"
    using sample_received by blast
  have c: "cfg_check sample_config = conforms" "cfg_uuid sample_config 0 = units ''a''" by (simp_all add: sample_config_def)
  show ?thesis
    by (intro exI [of _ f] exI [of _ d])
       (simp add: sample_events_def sample_run_simps c d sendMessage_def f [unfolded sample_greeting_def] Let_def sample_greeting_def)
qed

text \<open>The session is opened and the connection attached; an operation starts.\<close>

definition sample_attaching :: "server_event_in list" where
  "sample_attaching = [Dequeues 0, Resumes 1 Continue, Resumes 1 (Gives (object_value [(''id'', JString (units ''s''))])),
     Resumes 2 Continue, Resumes 2 Continue, Dequeues 0]"

text \<open>It fails. One request attaches, the next detaches before the first goes on, and the runtime is disposed.\<close>

definition sample_racing :: "server_event_in list" where
  "sample_racing = [Resumes 3 (Fails (OtherError [])), Dequeues 0, Dequeues 0, Resumes 5 Continue, Resumes 6 Continue]"

lemma server_run_append: "server_run cfg (xs @ ys) s = Option.bind (server_run cfg xs s) (server_run cfg ys)"
  by (induction xs arbitrary: s) (auto split: bind_split)

lemmas request_run_simps = dequeue_request_def task_at_def handleRequest_def start_command_def acquire_def create_step_def
  request_step_def forget_opening_def attach_def change_live_def open_live_def start_operation_def requireAttached_def
  finish_operation_def scheduleMaybeDispose_def maybeDispose_def disposable_def start_detach_def drop_connection_def
  finish_disposal_def unsubscribe_live_def wait_result_def

lemma sample_operating:
  "\<exists>s. server_run sample_config (sample_events @ sample_attaching) new_server = Some s \<and> \<not> closing s \<and>
     map_of (liveSessions s) (units ''s'') = Some 0 \<and> live_connections (lives s ! 0) = [0] \<and>
     Request 0 (units ''2'') (units ''abort'') (OperationCalled 0) \<in> set (tasks s)"
proof -
  obtain f d where s: "server_run sample_config sample_events new_server = Some
     (new_server\<lparr>uuids := 1, tasks := [TaskDone], out := [Sends 0 sample_greeting f],
       connections := [\<lparr>con_id = units ''a'', con_decoder = d, con_sessions = [], con_stage = Ready, con_disconnected = False,
         con_closed = False, con_handshakeComplete = True, con_handshake = Some 0,
         con_waiting = [(units ''1'', AttachCommand (units ''s'')), (units ''2'', AbortCommand (units ''s'')),
           (units ''3'', AttachCommand (units ''s'')), (units ''4'', DetachCommand (units ''s'')), (units ''5'', AttachCommand (units ''s''))],
         con_timer = False\<rparr>]\<rparr>)" using sample_greeted by blast
  show ?thesis
    unfolding server_run_append s
    by (simp add: sample_attaching_def sample_run_simps request_run_simps object_value_def member_def)
qed

lemma sample_raced:
  "\<exists>s. server_run sample_config (sample_events @ sample_attaching @ sample_racing) new_server = Some s \<and> \<not> closing s \<and>
     liveSessions s = [] \<and> con_sessions (connections s ! 0) = [units ''s''] \<and> con_stage (connections s ! 0) = Ready \<and>
     \<not> con_disconnected (connections s ! 0) \<and> Request 0 (units ''3'') (units ''attach'') (AttachDone 0) \<in> set (tasks s) \<and>
     requireAttached 0 (units ''s'') s = Inl (ServiceError ''not_found'' ''Session is not live'' None)"
proof -
  obtain f d where s: "server_run sample_config sample_events new_server = Some
     (new_server\<lparr>uuids := 1, tasks := [TaskDone], out := [Sends 0 sample_greeting f],
       connections := [\<lparr>con_id = units ''a'', con_decoder = d, con_sessions = [], con_stage = Ready, con_disconnected = False,
         con_closed = False, con_handshakeComplete = True, con_handshake = Some 0,
         con_waiting = [(units ''1'', AttachCommand (units ''s'')), (units ''2'', AbortCommand (units ''s'')),
           (units ''3'', AttachCommand (units ''s'')), (units ''4'', DetachCommand (units ''s'')), (units ''5'', AttachCommand (units ''s''))],
         con_timer = False\<rparr>]\<rparr>)" using sample_greeted by blast
  show ?thesis
    unfolding server_run_append s
    by (simp add: sample_attaching_def sample_racing_def sample_run_simps request_run_simps object_value_def member_def Let_def)
qed

definition sample_between :: "out_effect list" where
  "sample_between = [Subscribes 0, Executes 0 (units ''2'') (AbortCommand (units ''s'')), Operates 1 (AbortCommand (units ''s'')),
     Executes 0 (units ''3'') (AttachCommand (units ''s'')), Executes 0 (units ''4'') (DetachCommand (units ''s'')),
     Unsubscribes 0, Disposes 1, Released (units ''s''), Executes 0 (units ''5'') (AttachCommand (units ''s''))]"

lemma sample_reopened:
  "\<exists>f. \<exists>s. server_run sample_config (sample_events @ sample_attaching @ sample_racing @ [Dequeues 0]) new_server = Some s \<and> \<not> closing s \<and>
     out s = [Sends 0 sample_greeting f, Executes 0 (units ''1'') (AttachCommand (units ''s''))] @
       Opens (units ''s'') 1 OpenSession # sample_between @ [Opens (units ''s'') 9 OpenSession]"
proof -
  obtain f d where s: "server_run sample_config sample_events new_server = Some
     (new_server\<lparr>uuids := 1, tasks := [TaskDone], out := [Sends 0 sample_greeting f],
       connections := [\<lparr>con_id = units ''a'', con_decoder = d, con_sessions = [], con_stage = Ready, con_disconnected = False,
         con_closed = False, con_handshakeComplete = True, con_handshake = Some 0,
         con_waiting = [(units ''1'', AttachCommand (units ''s'')), (units ''2'', AbortCommand (units ''s'')),
           (units ''3'', AttachCommand (units ''s'')), (units ''4'', DetachCommand (units ''s'')), (units ''5'', AttachCommand (units ''s''))],
         con_timer = False\<rparr>]\<rparr>)" using sample_greeted by blast
  show ?thesis
    unfolding server_run_append s
    by (rule exI [of _ f])
       (simp add: sample_attaching_def sample_racing_def sample_run_simps request_run_simps object_value_def member_def Let_def sample_between_def)
qed

lemma sample_reachable: "server_run sample_config evs new_server = Some s \<Longrightarrow> server_reachable sample_config s"
  by (rule server_run_reachable [OF server_reachable.new])

subsection \<open>Properties\<close>

theorem runtimes_are_exclusive_witness:
  "\<exists>s. server_run sample_config (sample_events @ sample_attaching @ sample_racing @ [Dequeues 0]) new_server = Some s \<and>
     Released (units ''s'') \<in> set sample_between"
proof -
  obtain f s where s: "server_run sample_config (sample_events @ sample_attaching @ sample_racing @ [Dequeues 0]) new_server = Some s"
    "\<not> closing s" "out s = [Sends 0 sample_greeting f, Executes 0 (units ''1'') (AttachCommand (units ''s''))] @
       Opens (units ''s'') 1 OpenSession # sample_between @ Opens (units ''s'') 9 OpenSession # []"
    using sample_reopened by blast
  from runtimes_are_exclusive [OF sample_reachable [OF s(1)] s(2,3)] s(1) show ?thesis by blast
qed

text \<open>
  C16. The hello comes first: whatever the server sends on a connection as an ordinary frame, the hello of that
  connection or something before which that connection has been sent its hello. No event, snapshot or response can
  overtake the handshake, whatever order the tasks of the server run in.
\<close>

theorem hello_precedes_everything:
  assumes "server_reachable cfg s" and "out s = before @ Sends c m f # after"
  shows "(\<exists>i v. m = OutHello i v) \<or> (\<exists>i v g. Sends c (OutHello i v) g \<in> set before)"
proof -
  have "is_hello m \<or> greeted_on c before"
    using server_invD(7) [OF srv_reachable [OF assms(1)]] assms(2) unfolding hello_first_def by blast
  then show ?thesis by (cases m) (auto simp: is_hello_def greeted_on_def)
qed

theorem hello_precedes_everything_witness:
  "\<exists>s f. server_run sample_config sample_events new_server = Some s \<and> out s = [Sends 0 sample_greeting f] \<and>
     (\<exists>i v. sample_greeting = OutHello i v)"
proof -
  obtain f d where s: "server_run sample_config sample_events new_server = Some
     (new_server\<lparr>uuids := 1, tasks := [TaskDone], out := [Sends 0 sample_greeting f],
       connections := [\<lparr>con_id = units ''a'', con_decoder = d, con_sessions = [], con_stage = Ready, con_disconnected = False,
         con_closed = False, con_handshakeComplete = True, con_handshake = Some 0,
         con_waiting = [(units ''1'', AttachCommand (units ''s'')), (units ''2'', AbortCommand (units ''s'')),
           (units ''3'', AttachCommand (units ''s'')), (units ''4'', DetachCommand (units ''s'')), (units ''5'', AttachCommand (units ''s''))],
         con_timer = False\<rparr>]\<rparr>)" using sample_greeted by blast
  from hello_precedes_everything [OF sample_reachable [OF s], of "[]" 0 sample_greeting f "[]"]
  have "\<exists>i v. sample_greeting = OutHello i v" by simp
  with s show ?thesis by simp
qed

text \<open>
  C19. A request is answered at most once, and nothing else is answered: for every connection and request id there
  are at most as many responses as the client has made requests with it.
\<close>

theorem requests_answered_at_most_once:
  assumes "server_reachable cfg s"
  shows "length (filter (answers c i) (out s)) \<le> length (filter (asks c i) (out s))"
  using server_invD(12) [OF srv_reachable [OF assms], of c i] by simp

theorem requests_answered_at_most_once_witness:
  "\<exists>s. server_run sample_config (sample_events @ sample_attaching) new_server = Some s \<and>
     length (filter (answers 0 (units ''2'')) (out s)) \<le> length (filter (asks 0 (units ''2'')) (out s))"
  using sample_operating requests_answered_at_most_once [OF sample_reachable] by blast

text \<open>
  C17. An operation keeps its session while the server is open: from the call of a prompt, steer, abort or change of
  settings until its snapshot has been read, the session it was called on exists, its disposal has not begun, and its
  runtime, the one its opening made, has not been disposed in any way. This is a promise of an open server only:
  \<^verbatim>\<open>close\<close> disposes every runtime, also one with an operation under way, so the hypothesis that the server is not
  closing is needed.
\<close>

theorem operation_keeps_session:
  assumes "server_reachable cfg s" and "\<not> closing s" and "Request c i name pc \<in> set (tasks s)"
    and "pc = OperationCalled r \<or> pc = OperationSnapshot r p"
  shows "r < length (lives s) \<and> 0 < operationCount (lives s ! r) \<and> live_disposing (lives s ! r) = NotDisposing \<and>
    DisposeRuntime r \<notin> set (tasks s) \<and> tasks s ! live_runtime (lives s ! r) = TaskOpened r \<and>
    Disposes (live_runtime (lives s ! r)) \<notin> set (out s)"
proof -
  note v = server_invD [OF srv_reachable [OF assms(1)]]
  have d: "disposals_ok (tasks s) (lives s) (out s)"
    using open_ok_reachable [OF assms(1)] assms(2) one_runtime_parts(8) by (simp add: open_ok_def)
  have r: "r < length (lives s)" using v(4) [OF assms(3), of r] assms(4) by (auto simp: task_lives_def request_lives_def)
  have "operates_on r (Request c i name pc)" using assms(4) by (auto simp: operates_on_def)
  with assms(3) have "0 < occurs (operates_on r) (tasks s)" by (auto simp: filter_empty_conv)
  then have n: "0 < operationCount (lives s ! r)" using v(5) [OF r] by simp
  then have not: "live_disposing (lives s ! r) = NotDisposing" using v(6) [OF r] by (cases "live_disposing (lives s ! r)") auto
  have own: "tasks s ! live_runtime (lives s ! r) = TaskOpened r" using disposals_okD(1) [OF d r] by simp
  have "Disposes (live_runtime (lives s ! r)) \<notin> set (out s)"
    using disposals_okD(2) [OF d, of "live_runtime (lives s ! r)"] own not by (auto simp: disposed_for_def)
  with v(3) r n not own show ?thesis by (auto simp: dispose_ok_def)
qed

theorem operation_keeps_session_witness:
  "\<exists>s. server_run sample_config (sample_events @ sample_attaching) new_server = Some s \<and>
     0 < operationCount (lives s ! 0) \<and> Disposes (live_runtime (lives s ! 0)) \<notin> set (out s)"
proof -
  obtain s where s: "server_run sample_config (sample_events @ sample_attaching) new_server = Some s" "\<not> closing s"
    "Request 0 (units ''2'') (units ''abort'') (OperationCalled 0) \<in> set (tasks s)"
    using sample_operating by blast
  from operation_keeps_session [OF sample_reachable [OF s(1)] s(2,3), of 0] s(1) show ?thesis by blast
qed

text \<open>
  Attachment is mutual: a connection that a live session has in its set is connected and has the session in its
  own, so that every connection to which the session sends its events and snapshots is one that will be taken from
  it when it disconnects.
\<close>

theorem attachment_is_mutual:
  assumes "server_reachable cfg s" and "map_of (liveSessions s) i = Some r" and "c \<in> set (live_connections (lives s ! r))"
  shows "c < length (connections s) \<and> \<not> con_disconnected (connections s ! c) \<and> i \<in> set (con_sessions (connections s ! c)) \<and>
    live_id (lives s ! r) = i"
  using server_invD(1,2) [OF srv_reachable [OF assms(1)]] assms(2,3) by (auto simp: live_ok_def attach_ok_def)

theorem attachment_is_mutual_witness:
  "\<exists>s. server_run sample_config (sample_events @ sample_attaching) new_server = Some s \<and>
     units ''s'' \<in> set (con_sessions (connections s ! 0)) \<and> \<not> con_disconnected (connections s ! 0)"
proof -
  obtain s where s: "server_run sample_config (sample_events @ sample_attaching) new_server = Some s"
    "map_of (liveSessions s) (units ''s'') = Some 0" "live_connections (lives s ! 0) = [0]"
    using sample_operating by blast
  from attachment_is_mutual [OF sample_reachable [OF s(1)] s(2), of 0] s(1,3) show ?thesis by simp
qed

text \<open>
  C40. The converse does not hold: a client that sends a request to attach to a session it is the only one attached to
  and at once a request to detach from it can end up with a connection that counts as attached to a session that has
  been disposed. The connection is open and its first request goes on to answer, but every command for the session
  is refused as not found until the client attaches again or detaches.
\<close>

theorem attach_survives_disposal:
  "\<exists>s. server_reachable sample_config s \<and> \<not> closing s \<and> con_stage (connections s ! 0) = Ready \<and>
     \<not> con_disconnected (connections s ! 0) \<and> units ''s'' \<in> set (con_sessions (connections s ! 0)) \<and>
     map_of (liveSessions s) (units ''s'') = None \<and>
     Request 0 (units ''3'') (units ''attach'') (AttachDone 0) \<in> set (tasks s) \<and>
     requireAttached 0 (units ''s'') s = Inl (ServiceError ''not_found'' ''Session is not live'' None)"
proof -
  obtain s where s: "server_run sample_config (sample_events @ sample_attaching @ sample_racing) new_server = Some s"
    "\<not> closing s" "liveSessions s = []" "con_sessions (connections s ! 0) = [units ''s'']" "con_stage (connections s ! 0) = Ready"
    "\<not> con_disconnected (connections s ! 0)" "Request 0 (units ''3'') (units ''attach'') (AttachDone 0) \<in> set (tasks s)"
    "requireAttached 0 (units ''s'') s = Inl (ServiceError ''not_found'' ''Session is not live'' None)"
    using sample_raced by blast
  from sample_reachable [OF s(1)] s show ?thesis by (intro exI [of _ s]) simp
qed

end
