(* ===== verification/Spec2Isabelle.thy ===== *)
theory Spec2Isabelle
  imports Codec SessionContext Reducer AgentProgress Agent Jsonl CompactionSafety ServerProtocolTypes ClientProtocol
    CborReference ServerPromises
begin

text \<open>
  The session and protocol core of the Pi packages under \<^verbatim>\<open>pi/packages\<close>: the wire protocol, its client and its server,
  the agent with its loop, and the sessions an agent writes, in memory and in files.

  \<^bold>\<open>The parts and how they meet.\<close> A client and a server exchange frames of CBOR values (\<^verbatim>\<open>protocol\<close>). The server
  (\<^verbatim>\<open>server\<close>) opens runtimes of sessions for its connections and tells them what changes; the client (\<^verbatim>\<open>client\<close>) keeps
  a copy of it. A runtime drives an agent (\<^verbatim>\<open>agent\<close>): the loop asks a model, runs the tools it calls and tells its events;
  the session keeps entries and operation records in a log that is replayed when it is opened, and compaction
  replaces old entries by a summary. Bytes go through \<open>Framing\<close>, \<open>Cbor\<close> and \<open>Codec\<close> to \<open>Schemas\<close>, from there to
  \<open>Client\<close> and \<open>Server\<close>; messages of the agent go through \<open>ServerProtocol\<close> to the same schemas.

  \<^bold>\<open>Theories and the code they model.\<close>
  \<^item> \<open>Prelude\<close>, \<open>Interfaces\<close>: results, insertion-ordered maps, typed arrays; the contracts between components as locales,
    each interpreted on the model of the component that provides it.
  \<^item> \<open>Framing\<close> (\<^verbatim>\<open>protocol/src/framing.ts\<close>): frames with a length prefix, the decoder with its blocks. \<open>JsValue\<close>, \<open>Cbor\<close>
    (\<^verbatim>\<open>protocol/src/cbor\<close>): values of the language and their encoding; \<open>CborReference\<close>: the same encoding as one expression,
    and what it accepts. \<open>Codec\<close> (\<^verbatim>\<open>protocol/src/codec.ts\<close>): messages and the validated decoder. \<open>Schemas\<close>
    (\<^verbatim>\<open>protocol/src/schemas.ts\<close>): the schemas as data and what conforms to them.
  \<^item> \<open>AgentTypes\<close> (\<^verbatim>\<open>agent/src/harness/session/types.ts\<close>, \<^verbatim>\<open>agent/src/types.ts\<close>), \<open>SessionState\<close> (\<^verbatim>\<open>session/state.ts\<close>),
    \<open>SessionStorage\<close> (\<^verbatim>\<open>session/memory.ts\<close>, \<^verbatim>\<open>session/session.ts\<close>), \<open>SessionContext\<close> (\<^verbatim>\<open>session/context.ts\<close>, \<^verbatim>\<open>harness/messages.ts\<close>),
    \<open>Reducer\<close> (\<^verbatim>\<open>harness/reducer.ts\<close>).
  \<^item> \<open>Json\<close>, \<open>JsonlCodec\<close>, \<open>PlainFormat\<close> (\<^verbatim>\<open>session/jsonl/codec.ts\<close>), \<open>FileSystem\<close> (\<^verbatim>\<open>harness/types.ts\<close>), \<open>JsonlStorage\<close>
    (\<^verbatim>\<open>session/jsonl/storage.ts\<close>), \<open>JsonlRecovery\<close>, \<open>JsonlSession\<close>, \<open>Jsonl\<close>: sessions in files through failures and restarts.
  \<^item> \<open>Effects\<close>, \<open>AgentEvents\<close>, \<open>AgentLoop\<close> (\<^verbatim>\<open>agent/src/agent-loop.ts\<close>), \<open>AgentProtocol\<close>, \<open>AgentProgress\<close>, \<open>AgentFrame\<close>,
    \<open>Agent\<close> (\<^verbatim>\<open>agent/src/agent.ts\<close>). \<open>Compaction\<close>, \<open>CompactionSafety\<close> (\<^verbatim>\<open>harness/compaction/compaction.ts\<close>, \<^verbatim>\<open>utils.ts\<close>).
  \<^item> \<open>ClientState\<close> (\<^verbatim>\<open>client/src/state.ts\<close>), \<open>Client\<close> (\<^verbatim>\<open>client/src/connection.ts\<close>, \<^verbatim>\<open>client.ts\<close>), \<open>ClientSafety\<close>, \<open>ClientProtocol\<close>.
  \<^item> \<open>ServerProtocol\<close>, \<open>ServerProtocolTypes\<close> (\<^verbatim>\<open>server/src/protocol.ts\<close>). \<open>Server\<close> (\<^verbatim>\<open>server/src/server.ts\<close>, \<^verbatim>\<open>sessions.ts\<close>,
    \<^verbatim>\<open>snapshots.ts\<close>, \<^verbatim>\<open>connection.ts\<close>, \<^verbatim>\<open>errors.ts\<close>), \<open>ServerSafety\<close>, \<open>ServerRequests\<close>, \<open>ServerInvariant\<close>, \<open>ServerPromises\<close>.

  Operations have the names of the functions they model. An object is a record and a method takes and returns it; a
  union is a datatype; an exception is \<open>Inl\<close>; a \<^verbatim>\<open>Map\<close> is an association list in insertion order.

  \<^bold>\<open>Asynchronous code\<close> is modelled in three ways. The loop of the agent is a program over a state (\<open>Effects\<close>): the
  source awaits every call it makes, and the calls of parallel tools are interleaved by the argument \<open>interleaving\<close>. The
  client is a state machine: between two events of its transport or its caller it runs without waiting. The server
  runs many functions at once: each call is a \<open>task\<close> that knows where it waits, and \<open>server_step\<close> lets any task that
  may go on run up to its next \<^verbatim>\<open>await\<close>. What is proved of \<open>server_reachable\<close> holds of every order.

  \<^bold>\<open>What the lemmas show.\<close>
  \<^item> Wire: however bytes are cut into chunks, decoding finds the frames and values that were sent; encoding succeeds
    exactly on the values that fit and is a pure function; a decoder holds little more memory than it received.
  \<^item> Sessions: every accepted mutation keeps the invariant of the state; queries, forks and the recovery of lanes do what
    they promise; a file storage behaves as the one in memory. It loses no acknowledged write and can be opened again, as
    long as the storage does not write on after an append that left part of a line in the file (\<open>session\<close> in
    \<open>JsonlSession\<close> says which histories these are); if it does, \<open>acknowledged_write_lost\<close> shows what is lost.
  \<^item> Agent: every prefix of the events of a run is a word of the protocol of events, tool results answer calls, a tool runs
    only when it is allowed, none runs for a message cut off by the token limit, and the loop ends. The transcript is what the events say.
  \<^item> Compaction: the context is split without loss, the kept part exceeds the budget by at most its first entry, results
    keep their calls.
  \<^item> Client: each request is settled once, frames come behind the handshake, snapshots never go back; received bytes act
    as the messages they encode.
  \<^item> Server: everything sent is sent behind the hello, requests are answered at most once, and until \<^verbatim>\<open>close\<close> is called
    a session has at most one runtime, which is not disposed while an operation runs on it. \<open>keeps_openings\<close> and \<open>background\<close> say once what most steps preserve, so that
    the invariants are argued only at the steps that matter.

  \<^bold>\<open>Bounds and fuel.\<close> The loop of the agent takes one unit of fuel for a turn; \<open>run_terminates\<close> gives an amount that is enough,
  the potential of its environment plus one. The JSON parser has the length of the text as fuel. The walk along
  the parents of an entry ends because a parent has a smaller number. Growing a buffer is the combinator \<open>while\<close>, with its
  unfolding. The states of the client and the server are followed over finite runs of any length.

  \<^bold>\<open>Assumptions.\<close> \<^verbatim>\<open>Check\<close> of typebox is an argument, and where it matters \<open>checks_schemas\<close> is its documented meaning;
  \<^verbatim>\<open>JSON.stringify\<close> of an unknown value, deep equality, the double of a number, the model call, tools, hooks and clocks are
  arguments. The sinks of the agent's events do not reject; listeners of the client do not call the client back while
  they are notified. File operations fail as an oracle says and keep what the interface documents. Texts of sessions
  have code units below 256, wire texts are any 16-bit units. A service and its runtimes may answer the server anything.

  \<^bold>\<open>Not modelled.\<close> Rendering and input (\<^verbatim>\<open>tui\<close>) and the interactive application (\<^verbatim>\<open>coding-agent\<close>): what they produce is
  escape sequences, files and processes. The providers of models (\<^verbatim>\<open>ai\<close>): translation to foreign HTTP interfaces and generated tables.
  Of \<^verbatim>\<open>agent\<close>: the tools, which act on the machine, the harness that reads templates and skills from disk,
  branch summaries, the proxy and the file search. Of \<^verbatim>\<open>client\<close>: the asynchronous composition of leases and the
  session handle on top of it. Of \<^verbatim>\<open>server\<close>: starting, listeners and Unix sockets. Telemetry, evaluations, the SQLite backend, and
  the parts of the repository in other languages (\<^verbatim>\<open>vertus\<close>).
\<close>

end
